(* ===== verification/Cuac_Prelude.thy ===== *)
theory Cuac_Prelude
  imports Main "HOL-Library.Word"
begin

section \<open>Shared vocabulary of the development\<close>

text \<open>
  This theory holds what the component theories share: the machine-integer types of the source
  (\<open>uint64\<close> is a 64-bit word with wrap-around; a signed 64-bit quantity is an \<open>int\<close> whose bounds are
  written out), the result type of fallible code (\<open>Inl\<close> is the thrown error), byte-string
  helpers in the style of \<open>std::string::find\<close>/\<open>substr\<close>, decimal numerals, and locales on
  machines (an invariant kept by every step is kept by every run; a terminal set of
  states is never left) that the stateful components interpret.
\<close>

subsection \<open>Machine integers\<close>

type_synonym uint64 = "64 word"
type_synonym uint32 = "32 word"
type_synonym uint16 = "16 word"

abbreviation uint64_max :: uint64 where
  "uint64_max \<equiv> 18446744073709551615"

definition int64_max :: int where
  "int64_max = 9223372036854775807"

definition int64_min :: int where
  "int64_min = - 9223372036854775808"

named_theorems word_facts \<open>facts that move comparisons of 64-bit words to natural numbers\<close>

lemma word_le_unat [word_facts]: "(a::uint64) \<le> b \<longleftrightarrow> unat a \<le> unat b"
  by (rule word_le_nat_alt)

lemma word_less_unat [word_facts]: "(a::uint64) < b \<longleftrightarrow> unat a < unat b"
  by (rule word_less_nat_alt)

lemma unat_uint64_bound: "unat (a::uint64) \<le> 18446744073709551615"
proof -
  have "unat a < 2 ^ 64" using unsigned_less [of a] by simp
  then show ?thesis by simp
qed

lemma unat_diff_uint64 [word_facts]:
  "(b::uint64) \<le> a \<Longrightarrow> unat (a - b) = unat a - unat b"
  by (rule unat_sub)

lemma unat_max_diff [word_facts]: "unat (uint64_max - (a::uint64)) = 18446744073709551615 - unat a"
  by (simp add: unat_sub word_le_nat_alt unat_uint64_bound)

lemma unat_add_uint64:
  "unat (a::uint64) + unat b \<le> 18446744073709551615 \<Longrightarrow> unat (a + b) = unat a + unat b"
  by (subst unat_add_lem [THEN iffD1]) simp_all

lemma ticket_increment:
  assumes "w \<noteq> uint64_max"
  shows "w < w + 1" and "unat (w + 1) = unat w + 1"
proof -
  have "unat w \<noteq> 18446744073709551615" using assms by (auto simp: word_unat_eq_iff)
  then show "unat (w + 1) = unat w + 1" using unat_add_uint64 [of w 1] unat_uint64_bound [of w] by simp
  then show "w < w + 1" by (simp add: word_less_nat_alt)
qed

text \<open>The sleeping slice of the waiting loops: positive, bounded and never past the target.\<close>

lemma uint_small_of_int: "0 \<le> d \<Longrightarrow> d \<le> 5 \<Longrightarrow> uint (of_int d :: uint64) = d"
  by (simp add: uint_word_of_int_eq take_bit_int_eq_self)

lemma slice_bounds:
  fixes slice :: uint64
  assumes "now < target" and "target \<le> int64_max" and "0 < slice" and "slice \<le> 5"
  shows "let w = (if target \<le> now then 0 else if now \<le> int64_max - uint slice \<and> target > now + uint slice then slice else of_int (target - now))
    in 1 \<le> uint w \<and> w \<le> slice \<and> now + uint w \<le> target"
proof (cases "now \<le> int64_max - uint slice \<and> target > now + uint slice")
  case True
  have "uint slice \<noteq> 0" using assms(3) by (simp add: word_less_def)
  then have "1 \<le> uint slice" using uint_ge_0 [of slice] by linarith
  with True assms(1) show ?thesis by simp
next
  case False
  have "uint slice \<le> 5" using assms(4) by (simp add: word_le_def)
  with False assms(1,2) have d: "0 < target - now" "target - now \<le> uint slice" "target - now \<le> 5" by auto
  then have "uint (of_int (target - now) :: uint64) = target - now" by (intro uint_small_of_int) auto
  with False assms(1) d show ?thesis by (simp add: word_le_def del: of_int_diff)
qed

text \<open>
  The contract of a checked budget addition: it returns exactly when the sum fits the limit, and then
  returns the sum. Its clients only use the bounds derived here.
\<close>

locale checked_budget =
  fixes add :: "uint64 \<Rightarrow> uint64 \<Rightarrow> uint64 \<Rightarrow> 'e + uint64"
  assumes add_defined: "(\<exists>r. add c a l = Inr r) \<longleftrightarrow> unat c + unat a \<le> unat l"
    and add_value: "add c a l = Inr r \<Longrightarrow> unat r = unat c + unat a"
begin

lemma add_le_limit: "add c a l = Inr r \<Longrightarrow> r \<le> l"
  using add_defined [of c a l] add_value [of c a l r] by (auto simp: word_facts)

lemma add_ge: "add c a l = Inr r \<Longrightarrow> c \<le> r"
  using add_value [of c a l r] by (auto simp: word_facts)

lemma add_le_add: "add c a l = Inr r \<Longrightarrow> add c' a l' = Inr r' \<Longrightarrow> c \<le> c' \<Longrightarrow> r \<le> r'"
  using add_value [of c a l r] add_value [of c' a l' r'] by (auto simp: word_facts)

lemma add_le_self: "add c a l = Inr r \<Longrightarrow> d \<le> c \<Longrightarrow> d \<le> r"
  using add_value [of c a l r] by (auto simp: word_facts)

lemma add_less_one: "add c 1 l = Inr r \<Longrightarrow> d \<le> c \<Longrightarrow> d < r"
  using add_value [of c 1 l r] by (auto simp: word_facts)

lemma add_one_le: "add c 1 l = Inr r \<Longrightarrow> c < d \<Longrightarrow> r \<le> d"
  using add_value [of c 1 l r] by (auto simp: word_facts)

lemma add_zero_one: "add 0 1 l = Inr r \<Longrightarrow> r = 1"
  using add_value [of 0 1 l r] by (simp add: word_unat_eq_iff)

lemma add_fits: "unat c + unat a \<le> unat l \<Longrightarrow> \<exists>r. add c a l = Inr r \<and> unat r = unat c + unat a"
  using add_defined [of c a l] add_value [of c a l] by auto

lemma add_exceeds: "add c a l = Inl e \<Longrightarrow> unat l < unat c + unat a"
  using add_defined [of c a l] by (metis Inl_Inr_False not_le)

end

subsection \<open>Results of fallible code\<close>

text \<open>\<open>Inl e\<close> is the thrown error, \<open>Inr v\<close> the returned value.\<close>

definition and_then :: "'e + 'a \<Rightarrow> ('a \<Rightarrow> 'e + 'b) \<Rightarrow> 'e + 'b" where
  "and_then r f = (case r of Inl e \<Rightarrow> Inl e | Inr v \<Rightarrow> f v)"

lemma and_then_simps [simp]:
  "and_then (Inl e) f = Inl e"
  "and_then (Inr v) f = f v"
  by (simp_all add: and_then_def)

lemma and_then_Inr_iff:
  "and_then r f = Inr w \<longleftrightarrow> (\<exists>v. r = Inr v \<and> f v = Inr w)"
  by (cases r) simp_all

lemma and_then_Inl_iff:
  "and_then r f = Inl e \<longleftrightarrow> r = Inl e \<or> (\<exists>v. r = Inr v \<and> f v = Inl e)"
  by (cases r) auto

text \<open>The standard exceptions the pure components throw, with their message.\<close>

datatype cpp_exception = invalid_argument string | logic_error string

definition succeeded :: "('e + 'a) \<times> 's \<Rightarrow> bool" where
  "succeeded r = (case fst r of Inl _ \<Rightarrow> False | Inr _ \<Rightarrow> True)"

lemma succeeded_simps [simp]:
  "succeeded (Inl e, s) = False"
  "succeeded (Inr v, s) = True"
  by (simp_all add: succeeded_def)

subsection \<open>Machines\<close>

text \<open>
  A component with state is a step function \<open>step :: 's \<Rightarrow> 'op \<Rightarrow> 's\<close>; a run is the left fold of the
  step over the operations its owner performs.
\<close>

definition run_ops :: "('s \<Rightarrow> 'op \<Rightarrow> 's) \<Rightarrow> 's \<Rightarrow> 'op list \<Rightarrow> 's" where
  "run_ops step s ops = foldl step s ops"

lemma run_ops_simps [simp]:
  "run_ops step s [] = s"
  "run_ops step s (x # xs) = run_ops step (step s x) xs"
  by (simp_all add: run_ops_def)

lemma run_ops_append: "run_ops step s (xs @ ys) = run_ops step (run_ops step s xs) ys"
  by (simp add: run_ops_def)

locale invariant_machine =
  fixes step :: "'s \<Rightarrow> 'op \<Rightarrow> 's"
    and inv :: "'s \<Rightarrow> bool"
  assumes inv_step: "inv s \<Longrightarrow> inv (step s x)"
begin

lemma inv_run: "inv s \<Longrightarrow> inv (run_ops step s xs)"
  by (induction xs arbitrary: s) (simp_all add: inv_step)

end

text \<open>
  A machine with a progress order: every step moves up a preorder that relates a state to its
  successor, so a later state is above every earlier one.
\<close>

locale monotone_machine = invariant_machine +
  fixes le :: "'s \<Rightarrow> 's \<Rightarrow> bool"
  assumes le_refl: "le s s"
    and le_trans: "le s t \<Longrightarrow> le t u \<Longrightarrow> le s u"
    and le_step: "inv s \<Longrightarrow> le s (step s x)"
begin

lemma le_run: "inv s \<Longrightarrow> le s (run_ops step s xs)"
proof (induction xs arbitrary: s)
  case Nil
  show ?case by (simp add: le_refl)
next
  case (Cons x xs)
  have "le s (step s x)" by (rule le_step [OF Cons.prems])
  moreover have "le (step s x) (run_ops step (step s x) xs)"
    by (rule Cons.IH [OF inv_step [OF Cons.prems]])
  ultimately show ?case by (auto intro: le_trans)
qed

end

text \<open>
  A machine with terminal states: a terminal state is kept, unchanged in what \<open>view\<close> shows of
  it, by every step.
\<close>

locale terminal_machine =
  fixes step :: "'s \<Rightarrow> 'op \<Rightarrow> 's"
    and terminal :: "'s \<Rightarrow> bool"
    and view :: "'s \<Rightarrow> 'v"
  assumes terminal_step: "terminal s \<Longrightarrow> terminal (step s x)"
    and view_step: "terminal s \<Longrightarrow> view (step s x) = view s"
begin

lemma terminal_run: "terminal s \<Longrightarrow> terminal (run_ops step s xs) \<and> view (run_ops step s xs) = view s"
  by (induction xs arbitrary: s) (simp_all add: terminal_step view_step)

end

text \<open>The same for step relations: states reached from an initial one.\<close>

inductive reaches :: "('s \<Rightarrow> bool) \<Rightarrow> ('s \<Rightarrow> 's \<Rightarrow> bool) \<Rightarrow> 's \<Rightarrow> bool" for start step where
  init: "start s \<Longrightarrow> reaches start step s"
| next_state: "reaches start step s \<Longrightarrow> step s s' \<Longrightarrow> reaches start step s'"

locale invariant_relation =
  fixes start :: "'s \<Rightarrow> bool" and step :: "'s \<Rightarrow> 's \<Rightarrow> bool" and inv :: "'s \<Rightarrow> bool"
  assumes start_inv: "start s \<Longrightarrow> inv s"
    and step_keeps: "inv s \<Longrightarrow> step s s' \<Longrightarrow> inv s'"
begin

lemma inv_reaches: "reaches start step s \<Longrightarrow> inv s"
  by (induction rule: reaches.induct) (auto intro: start_inv step_keeps)

end

subsection \<open>Byte strings\<close>

text \<open>
  A \<open>std::string\<close> is a list of bytes, HOL's \<open>string\<close>; \<open>byte c\<close> is its value as an
  \<open>unsigned char\<close>. An offset into a string is represented by the suffix that starts there.
\<close>

definition byte :: "char \<Rightarrow> nat" where
  "byte c = of_char c"

lemma byte_less_256: "byte c < 256"
  by (simp add: byte_def)

lemma byte_inject [simp]: "byte a = byte b \<longleftrightarrow> a = b"
  by (simp add: byte_def)

definition in_range :: "char \<Rightarrow> char \<Rightarrow> char \<Rightarrow> bool" where
  "in_range lo hi c \<longleftrightarrow> byte lo \<le> byte c \<and> byte c \<le> byte hi"

definition IsAsciiAlpha :: "char \<Rightarrow> bool" where
  "IsAsciiAlpha c \<longleftrightarrow> in_range CHR ''a'' CHR ''z'' c \<or> in_range CHR ''A'' CHR ''Z'' c"

definition IsAsciiDigit :: "char \<Rightarrow> bool" where
  "IsAsciiDigit c \<longleftrightarrow> in_range CHR ''0'' CHR ''9'' c"

definition IsHexDigit :: "char \<Rightarrow> bool" where
  "IsHexDigit c \<longleftrightarrow> IsAsciiDigit c \<or> in_range CHR ''a'' CHR ''f'' c \<or> in_range CHR ''A'' CHR ''F'' c"

definition digit_value :: "char \<Rightarrow> nat" where
  "digit_value c = byte c - 48"

text \<open>
  \<open>split_at c s\<close> is the search \<open>s.find(c)\<close> together with the two \<open>substr\<close> calls around the
  occurrence: \<open>None\<close> is \<open>npos\<close>.
\<close>

fun split_at :: "char \<Rightarrow> string \<Rightarrow> (string \<times> string) option" where
  "split_at c [] = None"
| "split_at c (x # xs) =
     (if x = c then Some ([], xs)
      else case split_at c xs of None \<Rightarrow> None | Some (a, b) \<Rightarrow> Some (x # a, b))"

lemma split_at_None: "split_at c s = None \<longleftrightarrow> c \<notin> set s"
  by (induction s) (auto split: option.splits)

lemma split_at_Some: "split_at c s = Some (a, b) \<longleftrightarrow> s = a @ c # b \<and> c \<notin> set a"
proof (induction s arbitrary: a b)
  case Nil
  show ?case by simp
next
  case (Cons x xs)
  show ?case
  proof (cases "x = c")
    case True
    then show ?thesis by (cases a) auto
  next
    case False
    have "split_at c (x # xs) = Some (a, b) \<longleftrightarrow> (\<exists>a'. split_at c xs = Some (a', b) \<and> a = x # a')"
      using False by (auto split: option.splits)
    also have "\<dots> \<longleftrightarrow> x # xs = a @ c # b \<and> c \<notin> set a"
      using False by (cases a) (auto simp: Cons.IH)
    finally show ?thesis .
  qed
qed

lemma split_at_append [simp]: "c \<notin> set a \<Longrightarrow> split_at c (a @ c # b) = Some (a, b)"
  by (simp add: split_at_Some)

lemma split_at_length: "split_at c s = Some (a, b) \<Longrightarrow> length b < length s"
  by (simp add: split_at_Some)

text \<open>The pieces of a string between occurrences of a separator (\<open>find\<close> in a loop).\<close>

function split_all :: "char \<Rightarrow> string \<Rightarrow> string list" where
  "split_all c s = (case split_at c s of None \<Rightarrow> [s] | Some (a, b) \<Rightarrow> a # split_all c b)"
  by pat_completeness auto
termination
  by (relation "measure (\<lambda>(c, s). length s)") (auto simp: split_at_length)

declare split_all.simps [simp del]

lemma split_all_nonempty [simp]: "split_all c s \<noteq> []"
  by (subst split_all.simps) (auto split: option.splits)

fun join_with :: "char \<Rightarrow> string list \<Rightarrow> string" where
  "join_with c [] = []"
| "join_with c [x] = x"
| "join_with c (x # y # ys) = x @ c # join_with c (y # ys)"

lemma join_with_Cons: "ys \<noteq> [] \<Longrightarrow> join_with c (x # ys) = x @ c # join_with c ys"
  by (cases ys) simp_all

lemma join_split_all: "join_with c (split_all c s) = s"
proof (induction c s rule: split_all.induct)
  case (1 c s)
  show ?case
  proof (cases "split_at c s")
    case None
    then show ?thesis by (simp add: split_all.simps [of c s])
  next
    case (Some ab)
    obtain a b where ab: "ab = (a, b)" by (cases ab)
    from Some ab have s: "s = a @ c # b" by (simp add: split_at_Some)
    have IH: "join_with c (split_all c b) = b"
      using "1.IH" [OF Some] ab by blast
    from Some ab have "split_all c s = a # split_all c b" by (simp add: split_all.simps [of c s])
    then show ?thesis by (simp add: join_with_Cons IH s)
  qed
qed

lemma split_all_no_sep: "\<forall>x\<in>set (split_all c s). c \<notin> set x"
proof (induction c s rule: split_all.induct)
  case (1 c s)
  then show ?case
    by (subst split_all.simps) (auto simp: split_at_None split_at_Some split: option.splits)
qed

lemma split_all_join:
  "xs \<noteq> [] \<Longrightarrow> \<forall>x\<in>set xs. c \<notin> set x \<Longrightarrow> split_all c (join_with c xs) = xs"
proof (induction xs)
  case Nil
  then show ?case by simp
next
  case (Cons x xs)
  show ?case
  proof (cases "xs = []")
    case True
    with Cons.prems have "split_at c x = None" by (simp add: split_at_None)
    with True show ?thesis by (simp add: split_all.simps [of c x])
  next
    case False
    with Cons show ?thesis by (subst split_all.simps) (simp add: join_with_Cons)
  qed
qed

subsection \<open>Decimal numerals\<close>

text \<open>The decimal rendering of \<open>std::to_string\<close> and the value a digit string denotes.\<close>

definition digit_char :: "nat \<Rightarrow> char" where
  "digit_char n = char_of (48 + n)"

fun decimal :: "nat \<Rightarrow> string" where
  "decimal n = (if n < 10 then [digit_char n] else decimal (n div 10) @ [digit_char (n mod 10)])"

declare decimal.simps [simp del]

definition digits_value :: "string \<Rightarrow> nat" where
  "digits_value s = foldl (\<lambda>v c. v * 10 + digit_value c) 0 s"

lemma byte_digit_char: "n < 10 \<Longrightarrow> byte (digit_char n) = 48 + n"
  by (simp add: byte_def digit_char_def of_char_of)

lemma digit_char_digit [simp]: "n < 10 \<Longrightarrow> IsAsciiDigit (digit_char n)"
  by (simp add: IsAsciiDigit_def in_range_def byte_digit_char) (simp add: byte_def)

lemma digit_value_digit_char [simp]: "n < 10 \<Longrightarrow> digit_value (digit_char n) = n"
  by (simp add: digit_value_def byte_digit_char)

lemma digit_bytes: "IsAsciiDigit c \<longleftrightarrow> 48 \<le> byte c \<and> byte c \<le> 57"
  by (simp add: IsAsciiDigit_def in_range_def) (simp add: byte_def)

lemma digit_value_less [simp]: "IsAsciiDigit c \<Longrightarrow> digit_value c < 10"
  by (auto simp: digit_bytes digit_value_def)

lemma digit_char_digit_value [simp]: "IsAsciiDigit c \<Longrightarrow> digit_char (digit_value c) = c"
proof -
  assume "IsAsciiDigit c"
  then have "byte (digit_char (digit_value c)) = byte c"
    by (simp add: byte_digit_char) (auto simp: digit_bytes digit_value_def)
  then show ?thesis by simp
qed

lemma digits_value_Nil [simp]: "digits_value [] = 0"
  by (simp add: digits_value_def)

lemma digits_value_snoc [simp]: "digits_value (s @ [c]) = digits_value s * 10 + digit_value c"
  by (simp add: digits_value_def)

lemma decimal_digits: "\<forall>c\<in>set (decimal n). IsAsciiDigit c"
proof (induction n rule: decimal.induct)
  case (1 n)
  then show ?case by (subst decimal.simps) auto
qed

lemma decimal_nonempty [simp]: "decimal n \<noteq> []"
  by (subst decimal.simps) simp

lemma digits_value_decimal [simp]: "digits_value (decimal n) = n"
proof (induction n rule: decimal.induct)
  case (1 n)
  show ?case
  proof (cases "n < 10")
    case True
    then show ?thesis by (simp add: decimal.simps [of n] digits_value_def)
  next
    case False
    with 1 show ?thesis by (simp add: decimal.simps [of n])
  qed
qed

lemma decimal_length: "n < 10 ^ k \<Longrightarrow> 0 < k \<Longrightarrow> length (decimal n) \<le> k"
proof (induction k arbitrary: n)
  case (Suc k)
  show ?case
  proof (cases "n < 10")
    case True
    then show ?thesis by (simp add: decimal.simps [of n])
  next
    case False
    with Suc.prems have k: "0 < k" by (cases k) auto
    from Suc.prems(1) have "n div 10 < 10 ^ k" by (simp add: less_mult_imp_div_less mult.commute)
    from Suc.IH [OF this k] False show ?thesis by (simp add: decimal.simps [of n])
  qed
qed simp

text \<open>The last \<open>k\<close> decimal digits of a number, with leading zeros.\<close>

fun fixed_digits :: "nat \<Rightarrow> nat \<Rightarrow> string" where
  "fixed_digits 0 n = []"
| "fixed_digits (Suc k) n = fixed_digits k (n div 10) @ [digit_char (n mod 10)]"

lemma fixed_digits_length [simp]: "length (fixed_digits k n) = k"
  by (induction k arbitrary: n) simp_all

lemma fixed_digits_digits: "c \<in> set (fixed_digits k n) \<Longrightarrow> IsAsciiDigit c"
  by (induction k arbitrary: n) auto

lemma fixed_digits_value: "n < 10 ^ k \<Longrightarrow> digits_value (fixed_digits k n) = n"
proof (induction k arbitrary: n)
  case (Suc k)
  then have "n div 10 < 10 ^ k" by (simp add: less_mult_imp_div_less mult.commute)
  with Suc.IH show ?case by simp
qed simp

lemma padded_decimal:
  "n < 10 ^ k \<Longrightarrow> 0 < k \<Longrightarrow> replicate (k - length (decimal n)) CHR ''0'' @ decimal n = fixed_digits k n"
proof (induction k arbitrary: n)
  case (Suc k)
  show ?case
  proof (cases "n < 10")
    case True
    have "digit_char 0 = CHR ''0''" by code_simp
    then have "fixed_digits k 0 = replicate k CHR ''0''" for k
      by (induction k) (simp_all add: replicate_append_same)
    with True show ?thesis by (simp add: decimal.simps [of n])
  next
    case False
    then have "n div 10 < 10 ^ k" "0 < k" using Suc.prems by (auto simp: less_mult_imp_div_less mult.commute intro: gr0I)
    with Suc.IH [of "n div 10"] False show ?thesis by (simp add: decimal.simps [of n])
  qed
qed simp

text \<open>A digit string with no leading zero is the decimal rendering of its value.\<close>

definition canonical_digits :: "string \<Rightarrow> bool" where
  "canonical_digits s \<longleftrightarrow> s \<noteq> [] \<and> (\<forall>c\<in>set s. IsAsciiDigit c) \<and> (hd s = CHR ''0'' \<longrightarrow> length s = 1)"

lemma digit_zero_iff: "IsAsciiDigit c \<Longrightarrow> digit_value c = 0 \<longleftrightarrow> c = CHR ''0''"
proof -
  assume d: "IsAsciiDigit c"
  have "byte CHR ''0'' = 48" by (simp add: byte_def)
  then have "c = CHR ''0'' \<longleftrightarrow> byte c = 48" using byte_inject [of c "CHR ''0''"] by simp
  with d show ?thesis by (auto simp: digit_bytes digit_value_def)
qed

lemma digits_value_pos:
  "s \<noteq> [] \<Longrightarrow> \<forall>c\<in>set s. IsAsciiDigit c \<Longrightarrow> hd s \<noteq> CHR ''0'' \<Longrightarrow> 0 < digits_value s"
proof (induction s rule: rev_induct)
  case Nil
  then show ?case by simp
next
  case (snoc c s)
  show ?case
  proof (cases "s = []")
    case True
    with snoc.prems have "IsAsciiDigit c" "c \<noteq> CHR ''0''" by auto
    then have "digit_value c \<noteq> 0" by (simp add: digit_zero_iff)
    with True show ?thesis by (simp add: digits_value_def)
  next
    case False
    with snoc show ?thesis by simp
  qed
qed

lemma decimal_digits_value: "canonical_digits s \<Longrightarrow> decimal (digits_value s) = s"
proof (induction s rule: rev_induct)
  case Nil
  then show ?case by (simp add: canonical_digits_def)
next
  case (snoc c s)
  have c: "IsAsciiDigit c" using snoc.prems by (simp add: canonical_digits_def)
  show ?case
  proof (cases "s = []")
    case True
    with c show ?thesis by (simp add: digits_value_def decimal.simps [of "digit_value c"])
  next
    case False
    from snoc.prems False have nz: "hd s \<noteq> CHR ''0''" and ds: "\<forall>c\<in>set s. IsAsciiDigit c"
      by (auto simp: canonical_digits_def)
    then have s: "canonical_digits s" using False by (simp add: canonical_digits_def)
    have pos: "0 < digits_value s" using False ds nz by (rule digits_value_pos)
    have "digits_value (s @ [c]) div 10 = digits_value s"
      and "digits_value (s @ [c]) mod 10 = digit_value c"
      using c by simp_all
    with pos c snoc.IH [OF s] show ?thesis
      by (subst decimal.simps) simp
  qed
qed

lemma canonical_decimal: "canonical_digits (decimal n)"
proof -
  have "hd (decimal n) = CHR ''0'' \<longrightarrow> length (decimal n) = 1"
  proof (induction n rule: decimal.induct)
    case (1 n)
    show ?case
    proof (cases "n < 10")
      case True
      then show ?thesis by (simp add: decimal.simps [of n])
    next
      case False
      have nz: "hd (decimal (n div 10)) \<noteq> CHR ''0''"
      proof
        assume z: "hd (decimal (n div 10)) = CHR ''0''"
        with "1.IH" [OF False] have l: "length (decimal (n div 10)) = 1" by simp
        with z have "decimal (n div 10) = ''0''" by (cases "decimal (n div 10)") auto
        then have "digits_value (decimal (n div 10)) = digits_value ''0''" by (rule arg_cong)
        moreover have "digits_value ''0'' = 0" by (simp add: digits_value_def digit_value_def byte_def)
        ultimately have "n div 10 = 0" by simp
        with False show False by simp
      qed
      with False show ?thesis by (subst (1) decimal.simps) simp
    qed
  qed
  then show ?thesis by (simp add: canonical_digits_def decimal_digits)
qed

theorem canonical_digits_iff: "canonical_digits s \<longleftrightarrow> (\<exists>n. s = decimal n)"
  using canonical_decimal decimal_digits_value by metis

subsection \<open>Reading decimals into 64 bits\<close>

text \<open>
  The readers of the source accumulate digits into a \<open>uint64_t\<close> and test
  \<open>result > (max - digit) / 10\<close> before each step. The contract of such a loop, and what its clients use:
  it returns exactly on a digit string whose value fits, and returns that value.
\<close>

text \<open>One step of a positional reader: \<open>r * base + d\<close> with the overflow test before it.\<close>

lemma positional_step_fits:
  assumes "d < base" and "base \<le> 36"
  shows "(r::uint64) \<le> (uint64_max - of_nat d) div of_nat base \<longleftrightarrow> unat r * base + d \<le> 18446744073709551615"
proof -
  have "unat (of_nat d :: uint64) = d" "unat (of_nat base :: uint64) = base"
    using assms by (simp_all add: unat_of_nat)
  then have "unat ((uint64_max - of_nat d) div of_nat base) = (18446744073709551615 - d) div base"
    by (simp add: unat_div unat_max_diff)
  moreover have "n \<le> (18446744073709551615 - d) div base \<longleftrightarrow> n * base + d \<le> 18446744073709551615" for n
    using assms less_eq_div_iff_mult_less_eq [of base n "18446744073709551615 - d"] by auto
  ultimately show ?thesis by (simp add: word_facts)
qed

lemma positional_step_value:
  assumes "unat (r::uint64) * base + d \<le> 18446744073709551615"
  shows "unat (r * of_nat base + of_nat d) = unat r * base + d"
proof -
  have "r * of_nat base + of_nat d = of_nat (unat r * base + d)" by simp
  also have "unat (of_nat (unat r * base + d) :: uint64) = unat r * base + d"
    using assms by (simp only: unat_of_nat) (simp add: unat_of_nat)
  finally show ?thesis .
qed

lemma decimal_step_fits:
  "d < 10 \<Longrightarrow> (r::uint64) \<le> (uint64_max - of_nat d) div 10 \<longleftrightarrow> unat r * 10 + d \<le> 18446744073709551615"
  using positional_step_fits [of d 10 r] by simp

lemma decimal_step_value:
  "unat (r::uint64) * 10 + d \<le> 18446744073709551615 \<Longrightarrow> unat (r * 10 + of_nat d) = unat r * 10 + d"
  using positional_step_value [of r 10 d] by simp

lemma hex_step_fits:
  "d < 16 \<Longrightarrow> (r::uint64) \<le> (uint64_max - of_nat d) div 16 \<longleftrightarrow> unat r * 16 + d \<le> 18446744073709551615"
  using positional_step_fits [of d 16 r] by simp

lemma hex_step_value:
  "unat (r::uint64) * 16 + d \<le> 18446744073709551615 \<Longrightarrow> unat (r * 16 + of_nat d) = unat r * 16 + d"
  using positional_step_value [of r 16 d] by simp

definition digits_from :: "nat \<Rightarrow> string \<Rightarrow> nat" where
  "digits_from r s = foldl (\<lambda>v c. v * 10 + digit_value c) r s"

lemma digits_from_simps [simp]: "digits_from r [] = r" "digits_from r (c # s) = digits_from (r * 10 + digit_value c) s"
  by (simp_all add: digits_from_def)

lemma digits_from_ge: "r \<le> digits_from r s"
proof (induction s arbitrary: r)
  case (Cons c s)
  have "r \<le> r * 10 + digit_value c" by simp
  also have "\<dots> \<le> digits_from (r * 10 + digit_value c) s" by (rule Cons.IH)
  finally show ?case by simp
qed simp

lemma digits_from_zero: "digits_from 0 s = digits_value s"
  by (simp add: digits_from_def digits_value_def)

locale decimal_reader =
  fixes read :: "string \<Rightarrow> uint64 \<Rightarrow> uint64 option"
  assumes read_Nil: "read [] r = Some r"
    and read_Cons: "read (c # s) r =
      (if \<not> IsAsciiDigit c then None
       else if r > (uint64_max - of_nat (digit_value c)) div 10 then None
       else read s (r * 10 + of_nat (digit_value c)))"
begin

lemma read_iff:
  "read s r = Some w \<longleftrightarrow> (\<forall>c\<in>set s. IsAsciiDigit c) \<and> unat w = digits_from (unat r) s"
proof (induction s arbitrary: r)
  case Nil
  show ?case by (auto simp: read_Nil word_unat_eq_iff)
next
  case (Cons c s)
  show ?case
  proof (cases "IsAsciiDigit c")
    case False
    then show ?thesis by (simp add: read_Cons)
  next
    case True
    then have d: "digit_value c < 10" by simp
    show ?thesis
    proof (cases "unat r * 10 + digit_value c \<le> 18446744073709551615")
      case fits: True
      then have "read (c # s) r = read s (r * 10 + of_nat (digit_value c))"
        using True decimal_step_fits [OF d, of r] by (auto simp: read_Cons)
      with Cons.IH True show ?thesis by (simp add: decimal_step_value [OF fits])
    next
      case False
      then have "read (c # s) r = None"
        using True decimal_step_fits [OF d, of r] by (auto simp: read_Cons not_le)
      moreover have "unat w \<noteq> digits_from (unat r * 10 + digit_value c) s"
        using False digits_from_ge [of "unat r * 10 + digit_value c" s] unat_uint64_bound [of w] by linarith
      ultimately show ?thesis by simp
    qed
  qed
qed

lemma read_digits:
  "read s 0 = Some w \<longleftrightarrow> (\<forall>c\<in>set s. IsAsciiDigit c) \<and> unat w = digits_value s"
  using read_iff [of s 0 w] by (simp add: digits_from_zero)

lemma read_canonical:
  "canonical_digits s \<and> read s 0 = Some w \<longleftrightarrow> s = decimal (unat w)"
  unfolding read_digits using canonical_decimal decimal_digits decimal_digits_value
  by (metis digits_value_decimal)

end

end
