(* ===== verification/Scan_Resources.thy ===== *)
theory Scan_Resources
  imports Cuac_Prelude
begin

section \<open>Scan resource accounting\<close>

text \<open>
  The scan-owned budget state machine of \<^verbatim>\<open>runtime/policy/scan_resource_accounting.cpp\<close>: the
  per-page and per-scan limits, the counters, the traversal state, and one definition per method
  of \<open>ScanResourceAccounting\<close>. A method that throws returns \<open>Inl\<close> of the error together with the
  state it leaves behind, so counters written before a throw stay written. A
  \<open>steady_clock\<close> time point is its signed 64-bit nanosecond count.
\<close>

subsection \<open>Data\<close>

datatype scan_resource_error = ScanResourceError (Field: string) (SafeMessage: string)

record page_resource_limits =
  pg_request_attempts :: uint64
  pg_header_bytes :: uint64
  pg_wire_response_bytes :: uint64
  pg_decompressed_response_bytes :: uint64
  pg_decoded_records :: uint64
  pg_decoded_memory_bytes :: uint64
  pg_active_requests :: uint64
  pg_serialized_request_body_bytes :: uint64

record scan_resource_limits =
  sc_request_attempts :: uint64
  sc_pages :: uint64
  sc_header_bytes :: uint64
  sc_wire_response_bytes :: uint64
  sc_decompressed_response_bytes :: uint64
  sc_decoded_records :: uint64
  sc_retained_decoded_memory_bytes :: uint64
  sc_max_wall_milliseconds :: uint64
  sc_active_requests :: uint64
  sc_serialized_request_body_bytes :: uint64
  sc_cumulative_waiting_milliseconds :: uint64
  sc_cumulative_retry_waiting_milliseconds :: uint64
  sc_cumulative_rate_limit_waiting_milliseconds :: uint64
  sc_cumulative_remote_transport_milliseconds :: uint64

record scan_resource_profile =
  page :: page_resource_limits
  scan :: scan_resource_limits

record page_resource_allowance =
  al_header_bytes :: uint64
  al_wire_response_bytes :: uint64
  al_decompressed_response_bytes :: uint64
  al_decoded_records :: uint64
  al_decoded_memory_bytes :: uint64
  al_serialized_request_body_bytes :: uint64
  al_deadline :: int

record transport_resource_usage =
  tu_header_bytes :: uint64
  tu_wire_response_bytes :: uint64
  tu_decompressed_response_bytes :: uint64

record decoded_page_resource_usage =
  du_decoded_records :: uint64
  du_decoded_memory_bytes :: uint64

record scan_resource_counters =
  ct_request_attempts :: uint64
  ct_remote_requests :: uint64
  ct_pages :: uint64
  ct_header_bytes :: uint64
  ct_wire_response_bytes :: uint64
  ct_decompressed_response_bytes :: uint64
  ct_decoded_records :: uint64
  ct_retained_decoded_memory_bytes :: uint64
  ct_peak_decoded_memory_bytes :: uint64
  ct_active_requests :: uint64
  ct_serialized_request_body_bytes :: uint64
  ct_cumulative_waiting_milliseconds :: uint64
  ct_cumulative_retry_waiting_milliseconds :: uint64
  ct_cumulative_rate_limit_waiting_milliseconds :: uint64
  ct_cumulative_remote_transport_milliseconds :: uint64
  ct_cumulative_admission_waiting_milliseconds :: uint64

datatype scan_resource_state =
    READY
  | STEP_ACTIVE
  | REQUEST_ACTIVE
  | REQUEST_BODY_COMMITTED
  | TRANSPORT_COMMITTED
  | PAGE_DECODED
  | EXHAUSTED
  | FAILED

record scan_resource_accounting =
  profile :: scan_resource_profile
  counters :: scan_resource_counters
  state :: scan_resource_state
  deadline_started :: bool
  started_at :: int
  deadline :: int
  active_allowance :: page_resource_allowance
  current_step_attempts :: uint64
  current_step_page_committed :: bool
  current_attempt_remote_committed :: bool

type_synonym 'a accounting_result = "(scan_resource_error + 'a) \<times> scan_resource_accounting"

definition duration_max :: int where
  "duration_max = int64_max"

definition nanoseconds_per_millisecond :: int where
  "nanoseconds_per_millisecond = 1000000"

subsection \<open>Checked arithmetic and the profile\<close>

definition profile_error :: scan_resource_error where
  "profile_error = ScanResourceError ''resource_profile'' ''scan resource profile is invalid''"

definition Remaining :: "uint64 \<Rightarrow> uint64 \<Rightarrow> scan_resource_error + uint64" where
  "Remaining limit used = (if used > limit then Inl profile_error else Inr (limit - used))"

definition AddChecked :: "uint64 \<Rightarrow> uint64 \<Rightarrow> uint64 \<Rightarrow> scan_resource_error + uint64" where
  "AddChecked current amount limit =
     (if current > limit \<or> amount > limit - current \<or> amount > uint64_max - current
      then Inl (ScanResourceError ''resource_accounting'' ''scan resource accounting overflowed'')
      else Inr (current + amount))"

definition max_clock_milliseconds :: int where
  "max_clock_milliseconds = duration_max div nanoseconds_per_millisecond"

definition ValidateProfile :: "scan_resource_profile \<Rightarrow> bool" where
  "ValidateProfile p =
     (let pg = page p; sc = scan p in
      \<not> (pg_request_attempts pg = 0 \<or> pg_request_attempts pg > 3 \<or> pg_active_requests pg \<noteq> 1 \<or>
         sc_active_requests sc \<noteq> 1 \<or> sc_request_attempts sc < sc_pages sc \<or> sc_request_attempts sc > 96 \<or>
         pg_header_bytes pg = 0 \<or> pg_wire_response_bytes pg = 0 \<or> pg_decompressed_response_bytes pg = 0 \<or>
         pg_decoded_records pg = 0 \<or> pg_decoded_memory_bytes pg = 0 \<or> sc_request_attempts sc = 0 \<or>
         sc_pages sc = 0 \<or> sc_header_bytes sc = 0 \<or> sc_wire_response_bytes sc = 0 \<or>
         sc_decompressed_response_bytes sc = 0 \<or> sc_decoded_records sc = 0 \<or>
         sc_retained_decoded_memory_bytes sc = 0 \<or> sc_max_wall_milliseconds sc = 0 \<or>
         ((pg_serialized_request_body_bytes pg = 0) \<noteq> (sc_serialized_request_body_bytes sc = 0)) \<or>
         sc_cumulative_retry_waiting_milliseconds sc > sc_cumulative_waiting_milliseconds sc \<or>
         sc_cumulative_rate_limit_waiting_milliseconds sc > sc_cumulative_waiting_milliseconds sc) \<and>
      \<not> (uint (sc_max_wall_milliseconds sc) > int64_max \<or> max_clock_milliseconds \<le> 0 \<or>
         uint (sc_max_wall_milliseconds sc) > max_clock_milliseconds))"

definition RequireWithin :: "uint64 \<Rightarrow> uint64 \<Rightarrow> string \<Rightarrow> scan_resource_error + unit" where
  "RequireWithin used allowed field =
     (if used > allowed then Inl (ScanResourceError field ''page exceeded its resource allowance'')
      else Inr ())"

definition zero_counters :: scan_resource_counters where
  "zero_counters =
     \<lparr>ct_request_attempts = 0, ct_remote_requests = 0, ct_pages = 0, ct_header_bytes = 0,
      ct_wire_response_bytes = 0, ct_decompressed_response_bytes = 0, ct_decoded_records = 0,
      ct_retained_decoded_memory_bytes = 0, ct_peak_decoded_memory_bytes = 0, ct_active_requests = 0,
      ct_serialized_request_body_bytes = 0, ct_cumulative_waiting_milliseconds = 0,
      ct_cumulative_retry_waiting_milliseconds = 0, ct_cumulative_rate_limit_waiting_milliseconds = 0,
      ct_cumulative_remote_transport_milliseconds = 0, ct_cumulative_admission_waiting_milliseconds = 0\<rparr>"

definition zero_allowance :: page_resource_allowance where
  "zero_allowance =
     \<lparr>al_header_bytes = 0, al_wire_response_bytes = 0, al_decompressed_response_bytes = 0,
      al_decoded_records = 0, al_decoded_memory_bytes = 0, al_serialized_request_body_bytes = 0,
      al_deadline = 0\<rparr>"

definition new_ScanResourceAccounting ::
  "scan_resource_profile \<Rightarrow> scan_resource_error + scan_resource_accounting" where
  "new_ScanResourceAccounting p =
     (if ValidateProfile p
      then Inr \<lparr>profile = p, counters = zero_counters, state = READY, deadline_started = False,
                started_at = 0, deadline = 0, active_allowance = zero_allowance,
                current_step_attempts = 0, current_step_page_committed = False,
                current_attempt_remote_committed = False\<rparr>
      else Inl profile_error)"

subsection \<open>Operations\<close>

definition Fail :: "scan_resource_accounting \<Rightarrow> string \<Rightarrow> string \<Rightarrow> 'a accounting_result" where
  "Fail s field message =
     (Inl (ScanResourceError field message),
      s\<lparr>counters := (counters s)\<lparr>ct_active_requests := 0, ct_retained_decoded_memory_bytes := 0\<rparr>,
        state := FAILED\<rparr>)"

text \<open>The \<open>try\<close>/\<open>catch\<close> of the methods: the caught error is re-raised through \<open>Fail\<close>.\<close>

definition catch_fail ::
  "scan_resource_accounting \<Rightarrow> scan_resource_error + 'b \<Rightarrow> ('b \<Rightarrow> 'a accounting_result) \<Rightarrow> 'a accounting_result"
  where
  "catch_fail s r k = (case r of Inl e \<Rightarrow> Fail s (Field e) (SafeMessage e) | Inr v \<Rightarrow> k v)"

definition RequireReadyForNext :: "scan_resource_accounting \<Rightarrow> int \<Rightarrow> unit accounting_result" where
  "RequireReadyForNext s now =
     (let c = counters s; sc = scan (profile s) in
      if deadline_started s \<and> now \<ge> deadline s then
        Fail s ''wall_milliseconds'' ''scan exceeded its wall-time budget''
      else if ct_pages c \<ge> sc_pages sc then Fail s ''pages'' ''scan exhausted its page budget''
      else if ct_request_attempts c \<ge> sc_request_attempts sc then
        Fail s ''request_attempts'' ''scan exhausted its request-attempt budget''
      else if ct_header_bytes c \<ge> sc_header_bytes sc then
        Fail s ''header_bytes'' ''scan exhausted its response-header budget''
      else if ct_wire_response_bytes c \<ge> sc_wire_response_bytes sc then
        Fail s ''response_bytes'' ''scan exhausted its wire-response budget''
      else if ct_decompressed_response_bytes c \<ge> sc_decompressed_response_bytes sc then
        Fail s ''decompressed_bytes'' ''scan exhausted its decompressed-response budget''
      else if ct_decoded_records c \<ge> sc_decoded_records sc then
        Fail s ''decoded_records'' ''scan exhausted its decoded-record budget''
      else if sc_serialized_request_body_bytes sc \<noteq> 0 \<and>
              ct_serialized_request_body_bytes c \<ge> sc_serialized_request_body_bytes sc then
        Fail s ''request_body_bytes'' ''scan exhausted its serialized-request-body budget''
      else (Inr (), s))"

definition BeginStep :: "scan_resource_accounting \<Rightarrow> int \<Rightarrow> unit accounting_result" where
  "BeginStep s now =
     (if state s \<noteq> READY then
        Fail s ''resource_state'' ''scan resource state cannot begin a traversal step''
      else
        let wall_time = uint (sc_max_wall_milliseconds (scan (profile s))) * nanoseconds_per_millisecond in
        if \<not> deadline_started s \<and> now > duration_max - wall_time then
          Fail s ''wall_milliseconds'' ''scan wall-time budget cannot be represented''
        else
          let s1 = (if deadline_started s then s
                    else s\<lparr>deadline := now + wall_time, started_at := now, deadline_started := True\<rparr>) in
          (case RequireReadyForNext s1 now of
             (Inl e, s2) \<Rightarrow> (Inl e, s2)
           | (Inr _, s2) \<Rightarrow>
               (Inr (), s2\<lparr>current_step_attempts := 0, current_step_page_committed := False,
                            state := STEP_ACTIVE\<rparr>)))"

definition BeginAttempt ::
  "scan_resource_accounting \<Rightarrow> int \<Rightarrow> page_resource_allowance accounting_result" where
  "BeginAttempt s now =
     (let c = counters s; pg = page (profile s); sc = scan (profile s);
          no_page = (\<not> current_step_page_committed s \<and> ct_pages c \<ge> sc_pages sc) in
      if state s \<noteq> STEP_ACTIVE then
        Fail s ''resource_state'' ''scan resource state cannot begin an attempt''
      else if now \<ge> deadline s then
        Fail s ''wall_milliseconds'' ''scan exceeded its wall-time budget''
      else if no_page \<or> current_step_attempts s \<ge> pg_request_attempts pg \<or>
              ct_request_attempts c \<ge> sc_request_attempts sc then
        Fail s (if no_page then ''pages'' else ''request_attempts'')
               (if no_page then ''scan exhausted its page budget''
                else ''scan exhausted its request-attempt budget'')
      else
        catch_fail s (AddChecked (current_step_attempts s) 1 (pg_request_attempts pg)) (\<lambda>next_step_attempts.
        catch_fail s (AddChecked (ct_request_attempts c) 1 (sc_request_attempts sc)) (\<lambda>next_scan_attempts.
        catch_fail s (if current_step_page_committed s then Inr (ct_pages c)
                      else AddChecked (ct_pages c) 1 (sc_pages sc)) (\<lambda>next_pages.
        catch_fail s (AddChecked (ct_active_requests c) 1 (sc_active_requests sc)) (\<lambda>next_active.
        catch_fail s (Remaining (sc_header_bytes sc) (ct_header_bytes c)) (\<lambda>header_left.
        catch_fail s (Remaining (sc_wire_response_bytes sc) (ct_wire_response_bytes c)) (\<lambda>wire_left.
        catch_fail s (Remaining (sc_decompressed_response_bytes sc) (ct_decompressed_response_bytes c))
          (\<lambda>decompressed_left.
        catch_fail s (Remaining (sc_decoded_records sc) (ct_decoded_records c)) (\<lambda>records_left.
        catch_fail s (if pg_serialized_request_body_bytes pg = 0 then Inr 0
                      else and_then (Remaining (sc_serialized_request_body_bytes sc)
                                               (ct_serialized_request_body_bytes c))
                             (\<lambda>left. Inr (min (pg_serialized_request_body_bytes pg) left))) (\<lambda>body_allowance.
        let allowance =
              \<lparr>al_header_bytes = min (pg_header_bytes pg) header_left,
               al_wire_response_bytes = min (pg_wire_response_bytes pg) wire_left,
               al_decompressed_response_bytes = min (pg_decompressed_response_bytes pg) decompressed_left,
               al_decoded_records = min (pg_decoded_records pg) records_left,
               al_decoded_memory_bytes = min (pg_decoded_memory_bytes pg) (sc_retained_decoded_memory_bytes sc),
               al_serialized_request_body_bytes = body_allowance,
               al_deadline = deadline s\<rparr> in
        (Inr allowance,
         s\<lparr>current_step_attempts := next_step_attempts,
           counters := c\<lparr>ct_request_attempts := next_scan_attempts, ct_pages := next_pages,
                         ct_active_requests := next_active\<rparr>,
           current_step_page_committed := True,
           current_attempt_remote_committed := False,
           active_allowance := allowance,
           state := REQUEST_ACTIVE\<rparr>)))))))))))"

definition CommitRequestBody :: "scan_resource_accounting \<Rightarrow> uint64 \<Rightarrow> unit accounting_result" where
  "CommitRequestBody s bytes =
     (let c = counters s in
      if state s \<noteq> REQUEST_ACTIVE \<or> pg_serialized_request_body_bytes (page (profile s)) = 0 then
        Fail s ''resource_state'' ''scan resource state cannot commit a request body''
      else
        catch_fail s (if bytes = 0
                      then Inl (ScanResourceError ''request_body_bytes'' ''serialized request body cannot be empty'')
                      else Inr ()) (\<lambda>_.
        catch_fail s (RequireWithin bytes (al_serialized_request_body_bytes (active_allowance s))
                        ''request_body_bytes'') (\<lambda>_.
        catch_fail s (AddChecked (ct_serialized_request_body_bytes c) bytes
                        (sc_serialized_request_body_bytes (scan (profile s)))) (\<lambda>total.
        (Inr (), s\<lparr>counters := c\<lparr>ct_serialized_request_body_bytes := total\<rparr>,
                   state := REQUEST_BODY_COMMITTED\<rparr>)))))"

definition transport_ready :: "scan_resource_accounting \<Rightarrow> bool" where
  "transport_ready s \<longleftrightarrow>
     state s = REQUEST_ACTIVE \<and> pg_serialized_request_body_bytes (page (profile s)) = 0 \<or>
     state s = REQUEST_BODY_COMMITTED \<and> pg_serialized_request_body_bytes (page (profile s)) \<noteq> 0"

definition CommitRemoteRequest :: "scan_resource_accounting \<Rightarrow> unit accounting_result" where
  "CommitRemoteRequest s =
     (if \<not> transport_ready s \<or> current_attempt_remote_committed s then
        Fail s ''resource_state'' ''scan resource state cannot commit a remote request''
      else
        catch_fail s (AddChecked (ct_remote_requests (counters s)) 1 (sc_request_attempts (scan (profile s))))
          (\<lambda>total. (Inr (), s\<lparr>counters := (counters s)\<lparr>ct_remote_requests := total\<rparr>,
                              current_attempt_remote_committed := True\<rparr>)))"

definition CommitAttemptUsage ::
  "scan_resource_accounting \<Rightarrow> transport_resource_usage \<Rightarrow> scan_resource_state \<Rightarrow> unit accounting_result" where
  "CommitAttemptUsage s usage next_state =
     (let al = active_allowance s; sc = scan (profile s) in
      if \<not> transport_ready s then
        Fail s ''resource_state'' ''scan resource state cannot commit transport''
      else
        catch_fail s (RequireWithin (tu_header_bytes usage) (al_header_bytes al) ''header_bytes'') (\<lambda>_.
        catch_fail s (RequireWithin (tu_wire_response_bytes usage) (al_wire_response_bytes al) ''response_bytes'') (\<lambda>_.
        catch_fail s (RequireWithin (tu_decompressed_response_bytes usage) (al_decompressed_response_bytes al)
                        ''decompressed_bytes'') (\<lambda>_.
        catch_fail s (AddChecked (ct_header_bytes (counters s)) (tu_header_bytes usage) (sc_header_bytes sc)) (\<lambda>headers.
        let s1 = s\<lparr>counters := (counters s)\<lparr>ct_header_bytes := headers\<rparr>\<rparr> in
        catch_fail s1 (AddChecked (ct_wire_response_bytes (counters s1)) (tu_wire_response_bytes usage)
                         (sc_wire_response_bytes sc)) (\<lambda>wire.
        let s2 = s1\<lparr>counters := (counters s1)\<lparr>ct_wire_response_bytes := wire\<rparr>\<rparr> in
        catch_fail s2 (AddChecked (ct_decompressed_response_bytes (counters s2))
                         (tu_decompressed_response_bytes usage) (sc_decompressed_response_bytes sc)) (\<lambda>decompressed.
        (Inr (), s2\<lparr>counters := (counters s2)\<lparr>ct_decompressed_response_bytes := decompressed,
                                                ct_active_requests := 0\<rparr>,
                    state := next_state\<rparr>))))))))"

definition CommitAttemptFailure ::
  "scan_resource_accounting \<Rightarrow> transport_resource_usage \<Rightarrow> unit accounting_result" where
  "CommitAttemptFailure s usage = CommitAttemptUsage s usage STEP_ACTIVE"

definition CommitTransport ::
  "scan_resource_accounting \<Rightarrow> transport_resource_usage \<Rightarrow> unit accounting_result" where
  "CommitTransport s usage = CommitAttemptUsage s usage TRANSPORT_COMMITTED"

definition CommitDecodedPage ::
  "scan_resource_accounting \<Rightarrow> decoded_page_resource_usage \<Rightarrow> unit accounting_result" where
  "CommitDecodedPage s usage =
     (let c = counters s; al = active_allowance s in
      if state s \<noteq> TRANSPORT_COMMITTED then
        Fail s ''resource_state'' ''scan resource state cannot commit decoded page''
      else
        catch_fail s (RequireWithin (du_decoded_records usage) (al_decoded_records al) ''decoded_records'') (\<lambda>_.
        catch_fail s (RequireWithin (du_decoded_memory_bytes usage) (al_decoded_memory_bytes al)
                        ''decoded_memory_bytes'') (\<lambda>_.
        catch_fail s (AddChecked (ct_decoded_records c) (du_decoded_records usage)
                        (sc_decoded_records (scan (profile s)))) (\<lambda>records.
        (Inr (), s\<lparr>counters := c\<lparr>ct_decoded_records := records,
                                 ct_retained_decoded_memory_bytes := du_decoded_memory_bytes usage,
                                 ct_peak_decoded_memory_bytes :=
                                   max (ct_peak_decoded_memory_bytes c) (du_decoded_memory_bytes usage)\<rparr>,
                   state := PAGE_DECODED\<rparr>)))))"

definition CompletePage :: "scan_resource_accounting \<Rightarrow> bool \<Rightarrow> int \<Rightarrow> unit accounting_result" where
  "CompletePage s has_next now =
     (if state s \<noteq> PAGE_DECODED then
        Fail s ''resource_state'' ''scan resource state cannot complete page''
      else
        let s1 = s\<lparr>counters := (counters s)\<lparr>ct_retained_decoded_memory_bytes := 0\<rparr>\<rparr> in
        if now \<ge> deadline s1 then
          Fail s1 ''wall_milliseconds'' ''scan exceeded its wall-time budget''
        else if \<not> has_next then
          (Inr (), s1\<lparr>current_step_attempts := 0, current_step_page_committed := False, state := EXHAUSTED\<rparr>)
        else
          RequireReadyForNext
            (s1\<lparr>state := READY, current_step_attempts := 0, current_step_page_committed := False\<rparr>) now)"

definition CommitRetryWait :: "scan_resource_accounting \<Rightarrow> uint64 \<Rightarrow> unit accounting_result" where
  "CommitRetryWait s ms =
     (let sc = scan (profile s) in
      if state s \<noteq> STEP_ACTIVE then
        Fail s ''resource_state'' ''scan resource state cannot commit a wait''
      else
        case AddChecked (ct_cumulative_waiting_milliseconds (counters s)) ms
               (sc_cumulative_waiting_milliseconds sc) of
          Inl _ \<Rightarrow> Fail s ''cumulative_waiting_milliseconds'' ''scan exceeded its cumulative-waiting budget''
        | Inr waited \<Rightarrow>
            (let s1 = s\<lparr>counters := (counters s)\<lparr>ct_cumulative_waiting_milliseconds := waited\<rparr>\<rparr> in
             case AddChecked (ct_cumulative_retry_waiting_milliseconds (counters s1)) ms
                    (sc_cumulative_retry_waiting_milliseconds sc) of
               Inl _ \<Rightarrow> Fail s1 ''cumulative_waiting_milliseconds'' ''scan exceeded its cumulative-waiting budget''
             | Inr retry \<Rightarrow>
                 (Inr (), s1\<lparr>counters := (counters s1)\<lparr>ct_cumulative_retry_waiting_milliseconds := retry\<rparr>\<rparr>)))"

definition CommitRateLimitWait :: "scan_resource_accounting \<Rightarrow> uint64 \<Rightarrow> unit accounting_result" where
  "CommitRateLimitWait s ms =
     (let sc = scan (profile s) in
      if state s \<noteq> STEP_ACTIVE then
        Fail s ''resource_state'' ''scan resource state cannot commit a rate-limit wait''
      else
        case AddChecked (ct_cumulative_waiting_milliseconds (counters s)) ms
               (sc_cumulative_waiting_milliseconds sc) of
          Inl _ \<Rightarrow> Fail s ''cumulative_waiting_milliseconds'' ''scan exceeded its cumulative-waiting budget''
        | Inr waited \<Rightarrow>
            (let s1 = s\<lparr>counters := (counters s)\<lparr>ct_cumulative_waiting_milliseconds := waited\<rparr>\<rparr> in
             case AddChecked (ct_cumulative_rate_limit_waiting_milliseconds (counters s1)) ms
                    (sc_cumulative_rate_limit_waiting_milliseconds sc) of
               Inl _ \<Rightarrow> Fail s1 ''cumulative_waiting_milliseconds'' ''scan exceeded its cumulative-waiting budget''
             | Inr rate \<Rightarrow>
                 (Inr (), s1\<lparr>counters := (counters s1)\<lparr>ct_cumulative_rate_limit_waiting_milliseconds := rate\<rparr>\<rparr>)))"

definition CommitAdmissionWait :: "scan_resource_accounting \<Rightarrow> uint64 \<Rightarrow> uint64 \<Rightarrow> unit accounting_result" where
  "CommitAdmissionWait s ms limit =
     (if state s \<noteq> STEP_ACTIVE then
        Fail s ''resource_state'' ''scan resource state cannot commit admission waiting''
      else
        case AddChecked (ct_cumulative_admission_waiting_milliseconds (counters s)) ms limit of
          Inl _ \<Rightarrow> Fail s ''admission_waiting_milliseconds''
                     ''scan exceeded its cumulative admission-waiting budget''
        | Inr waited \<Rightarrow>
            (Inr (), s\<lparr>counters := (counters s)\<lparr>ct_cumulative_admission_waiting_milliseconds := waited\<rparr>\<rparr>))"

definition CommitRemoteTransportTime :: "scan_resource_accounting \<Rightarrow> uint64 \<Rightarrow> unit accounting_result" where
  "CommitRemoteTransportTime s ms =
     (if state s \<noteq> REQUEST_ACTIVE \<and> state s \<noteq> REQUEST_BODY_COMMITTED then
        Fail s ''resource_state'' ''scan resource state cannot commit remote transport time''
      else
        case AddChecked (ct_cumulative_remote_transport_milliseconds (counters s)) ms uint64_max of
          Inl _ \<Rightarrow> Fail s ''wall_milliseconds'' ''scan remote transport accounting overflowed''
        | Inr waited \<Rightarrow>
            (Inr (), s\<lparr>counters := (counters s)\<lparr>ct_cumulative_remote_transport_milliseconds := waited\<rparr>\<rparr>))"

definition AbortPage :: "scan_resource_accounting \<Rightarrow> scan_resource_accounting" where
  "AbortPage s =
     s\<lparr>counters := (counters s)\<lparr>ct_active_requests := 0, ct_retained_decoded_memory_bytes := 0\<rparr>,
       state := FAILED\<rparr>"

definition Deadline :: "scan_resource_accounting \<Rightarrow> scan_resource_error + int" where
  "Deadline s =
     (if \<not> deadline_started s then Inl (ScanResourceError ''resource_state'' ''scan deadline has not started'')
      else Inr (deadline s))"

definition ElapsedMilliseconds :: "scan_resource_accounting \<Rightarrow> int \<Rightarrow> int" where
  "ElapsedMilliseconds s observed_at =
     (if \<not> deadline_started s \<or> observed_at \<le> started_at s then 0
      else let elapsed = (observed_at - started_at s) div nanoseconds_per_millisecond in
           if elapsed \<le> 0 then 0
           else min elapsed (uint (sc_max_wall_milliseconds (scan (profile s)))))"

definition CanBeginRetryAttempt :: "scan_resource_accounting \<Rightarrow> bool" where
  "CanBeginRetryAttempt s \<longleftrightarrow>
     state s = STEP_ACTIVE \<and> current_step_attempts s < pg_request_attempts (page (profile s)) \<and>
     ct_request_attempts (counters s) < sc_request_attempts (scan (profile s))"

definition RequireRetryAttemptResources ::
  "scan_resource_accounting \<Rightarrow> uint64 \<Rightarrow> scan_resource_error + unit" where
  "RequireRetryAttemptResources s bytes =
     (let c = counters s; sc = scan (profile s); pg = page (profile s) in
      if \<not> CanBeginRetryAttempt s then
        Inl (ScanResourceError ''request_attempts'' ''scan exhausted its request-attempt budget'')
      else if ct_header_bytes c \<ge> sc_header_bytes sc then
        Inl (ScanResourceError ''header_bytes'' ''scan exhausted its response-header budget'')
      else if ct_wire_response_bytes c \<ge> sc_wire_response_bytes sc then
        Inl (ScanResourceError ''response_bytes'' ''scan exhausted its wire-response budget'')
      else if ct_decompressed_response_bytes c \<ge> sc_decompressed_response_bytes sc then
        Inl (ScanResourceError ''decompressed_bytes'' ''scan exhausted its decompressed-response budget'')
      else if pg_serialized_request_body_bytes pg = 0 then
        (if bytes \<noteq> 0
         then Inl (ScanResourceError ''request_body_bytes'' ''bodyless scan cannot begin a body-bearing retry'')
         else Inr ())
      else if bytes = 0 \<or> bytes > pg_serialized_request_body_bytes pg \<or>
              ct_serialized_request_body_bytes c > sc_serialized_request_body_bytes sc \<or>
              bytes > sc_serialized_request_body_bytes sc - ct_serialized_request_body_bytes c then
        Inl (ScanResourceError ''request_body_bytes'' ''scan exhausted its serialized-request-body budget'')
      else Inr ())"

subsection \<open>The owner's view: a machine over the method calls\<close>

datatype accounting_op =
    Op_BeginStep int
  | Op_BeginAttempt int
  | Op_CommitRequestBody uint64
  | Op_CommitRemoteRequest
  | Op_CommitAttemptFailure transport_resource_usage
  | Op_CommitTransport transport_resource_usage
  | Op_CommitDecodedPage decoded_page_resource_usage
  | Op_CompletePage bool int
  | Op_AbortPage
  | Op_CommitRetryWait uint64
  | Op_CommitRateLimitWait uint64
  | Op_CommitAdmissionWait uint64 uint64
  | Op_CommitRemoteTransportTime uint64

definition ignore_value :: "'a accounting_result \<Rightarrow> unit accounting_result" where
  "ignore_value r = (case fst r of Inl e \<Rightarrow> (Inl e, snd r) | Inr _ \<Rightarrow> (Inr (), snd r))"

fun accounting_call :: "scan_resource_accounting \<Rightarrow> accounting_op \<Rightarrow> unit accounting_result" where
  "accounting_call s (Op_BeginStep now) = BeginStep s now"
| "accounting_call s (Op_BeginAttempt now) = ignore_value (BeginAttempt s now)"
| "accounting_call s (Op_CommitRequestBody n) = CommitRequestBody s n"
| "accounting_call s Op_CommitRemoteRequest = CommitRemoteRequest s"
| "accounting_call s (Op_CommitAttemptFailure u) = CommitAttemptFailure s u"
| "accounting_call s (Op_CommitTransport u) = CommitTransport s u"
| "accounting_call s (Op_CommitDecodedPage u) = CommitDecodedPage s u"
| "accounting_call s (Op_CompletePage has_next now) = CompletePage s has_next now"
| "accounting_call s Op_AbortPage = (Inr (), AbortPage s)"
| "accounting_call s (Op_CommitRetryWait ms) = CommitRetryWait s ms"
| "accounting_call s (Op_CommitRateLimitWait ms) = CommitRateLimitWait s ms"
| "accounting_call s (Op_CommitAdmissionWait ms limit) = CommitAdmissionWait s ms limit"
| "accounting_call s (Op_CommitRemoteTransportTime ms) = CommitRemoteTransportTime s ms"

definition accounting_step :: "scan_resource_accounting \<Rightarrow> accounting_op \<Rightarrow> scan_resource_accounting" where
  "accounting_step s x = snd (accounting_call s x)"

end
