(* ===== verification/Scan_Resources_Safety.thy ===== *)
theory Scan_Resources_Safety
  imports Scan_Resources
begin

section \<open>Safety of the scan resource machine\<close>

text \<open>Lemmas and properties of the definitions of \<open>Scan_Resources\<close>.\<close>

interpretation budget: checked_budget AddChecked
proof
  fix c a l :: uint64
  have "c \<le> l \<Longrightarrow> unat (l - c) = unat l - unat c" by (rule unat_diff_uint64)
  then show "(\<exists>r. AddChecked c a l = Inr r) \<longleftrightarrow> unat c + unat a \<le> unat l"
    using unat_uint64_bound [of l]
    by (auto simp: AddChecked_def word_facts not_less)
next
  fix c a l r :: uint64
  assume "AddChecked c a l = Inr r"
  then have "c \<le> l" "a \<le> l - c" "r = c + a"
    by (auto simp: AddChecked_def not_less split: if_splits)
  then have "unat c + unat a \<le> unat l" by (auto simp: word_facts)
  with \<open>r = c + a\<close> show "unat r = unat c + unat a"
    using unat_uint64_bound [of l] by (simp add: unat_add_uint64)
qed

lemmas budget_bounds =
  budget.add_le_limit budget.add_ge budget.add_le_add budget.add_le_self budget.add_less_one

lemma Remaining_Inr: "Remaining l u = Inr r \<longleftrightarrow> u \<le> l \<and> r = l - u"
  by (auto simp: Remaining_def)

lemma RequireWithin_Inr: "RequireWithin u a f = Inr v \<longleftrightarrow> u \<le> a"
  by (auto simp: RequireWithin_def)

lemma RequireWithin_ok [simp]: "u \<le> a \<Longrightarrow> RequireWithin u a f = Inr ()"
  by (simp add: RequireWithin_def)

lemmas accounting_defs =
  BeginStep_def BeginAttempt_def CommitRequestBody_def CommitRemoteRequest_def CommitAttemptFailure_def
  CommitTransport_def CommitAttemptUsage_def CommitDecodedPage_def CompletePage_def AbortPage_def
  CommitRetryWait_def CommitRateLimitWait_def CommitAdmissionWait_def CommitRemoteTransportTime_def
  RequireReadyForNext_def

text \<open>
  \<open>leaves P r\<close>: the state a call leaves behind, whether it returned or threw, satisfies \<open>P\<close>. The rules
  follow the control flow of the methods, so one \<open>intro\<close> walks a method body.
\<close>

definition failed :: "scan_resource_accounting \<Rightarrow> scan_resource_accounting" where
  "failed s = s\<lparr>counters := (counters s)\<lparr>ct_active_requests := 0, ct_retained_decoded_memory_bytes := 0\<rparr>,
                state := FAILED\<rparr>"

definition leaves :: "(scan_resource_accounting \<Rightarrow> bool) \<Rightarrow> 'a accounting_result \<Rightarrow> bool" where
  "leaves P r \<longleftrightarrow> P (snd r)"

lemma Fail_eq: "Fail s f m = (Inl (ScanResourceError f m), failed s)"
  by (simp add: Fail_def failed_def)

lemma AbortPage_eq: "AbortPage s = failed s"
  by (simp add: AbortPage_def failed_def)

lemma leaves_pair: "P t \<Longrightarrow> leaves P (r, t)"
  by (simp add: leaves_def)

lemma leaves_Fail: "P (failed s) \<Longrightarrow> leaves P (Fail s f m)"
  by (simp add: leaves_def Fail_eq)

lemma leaves_if: "(b \<Longrightarrow> leaves P x) \<Longrightarrow> (\<not> b \<Longrightarrow> leaves P y) \<Longrightarrow> leaves P (if b then x else y)"
  by simp

lemma leaves_catch:
  "P (failed s) \<Longrightarrow> (\<And>v. r = Inr v \<Longrightarrow> leaves P (k v)) \<Longrightarrow> leaves P (catch_fail s r k)"
  by (cases r) (simp_all add: catch_fail_def leaves_Fail)

lemma leaves_sum:
  "(\<And>e. r = Inl e \<Longrightarrow> leaves P (f e)) \<Longrightarrow> (\<And>v. r = Inr v \<Longrightarrow> leaves P (k v)) \<Longrightarrow>
   leaves P (case r of Inl e \<Rightarrow> f e | Inr v \<Rightarrow> k v)"
  by (cases r) simp_all

lemma catch_fail_Inr [simp]: "catch_fail s (Inr v) k = k v"
  by (simp add: catch_fail_def)

lemma leaves_ignore: "leaves P r \<Longrightarrow> leaves P (ignore_value r)"
  by (cases "fst r") (simp_all add: leaves_def ignore_value_def)

lemma RequireReadyForNext_cases:
  "RequireReadyForNext s now = (Inr (), s) \<or> (\<exists>f m. RequireReadyForNext s now = Fail s f m)"
  by (auto simp: RequireReadyForNext_def Let_def)

lemma leaves_ready: "P s \<Longrightarrow> P (failed s) \<Longrightarrow> leaves P (RequireReadyForNext s now)"
  using RequireReadyForNext_cases [of s now] by (auto simp: leaves_Fail leaves_pair)

lemma leaves_BeginStep:
  assumes "P (failed s)"
    and "\<And>s1. state s = READY \<Longrightarrow>
          s1 = s \<and> deadline_started s \<or>
          s1 = s\<lparr>deadline := now + uint (sc_max_wall_milliseconds (scan (profile s))) * nanoseconds_per_millisecond,
                 started_at := now, deadline_started := True\<rparr> \<and> \<not> deadline_started s \<Longrightarrow>
          P (failed s1) \<and>
          P (s1\<lparr>current_step_attempts := 0, current_step_page_committed := False, state := STEP_ACTIVE\<rparr>)"
  shows "leaves P (BeginStep s now)"
proof -
  define s1 where "s1 = (if deadline_started s then s else s\<lparr>deadline := now + uint (sc_max_wall_milliseconds (scan (profile s))) * nanoseconds_per_millisecond, started_at := now, deadline_started := True\<rparr>)"
  have s1: "P (failed s1) \<and> P (s1\<lparr>current_step_attempts := 0, current_step_page_committed := False, state := STEP_ACTIVE\<rparr>)"
    if "state s = READY"
    by (rule assms(2) [OF that]) (simp add: s1_def)
  show ?thesis
    using RequireReadyForNext_cases [of s1 now] s1 assms(1)
    by (auto simp: BeginStep_def Let_def leaves_def Fail_eq simp flip: s1_def)
qed

lemmas leaves_rules = leaves_pair leaves_Fail leaves_if leaves_catch leaves_sum leaves_ready leaves_ignore

text \<open>
  Every counter that the accounting debits against a limit of the profile is within it. These are fourteen of the sixteen counters: admission waiting is debited
  against a limit the caller passes, and remote transport time is only summed (\<open>remote_transport_is_unlimited\<close> below).
\<close>

definition within_limits :: "scan_resource_counters \<Rightarrow> scan_resource_limits \<Rightarrow> bool" where
  "within_limits c sc \<longleftrightarrow>
     ct_request_attempts c \<le> sc_request_attempts sc \<and>
     ct_remote_requests c \<le> sc_request_attempts sc \<and>
     ct_pages c \<le> sc_pages sc \<and>
     ct_header_bytes c \<le> sc_header_bytes sc \<and>
     ct_wire_response_bytes c \<le> sc_wire_response_bytes sc \<and>
     ct_decompressed_response_bytes c \<le> sc_decompressed_response_bytes sc \<and>
     ct_decoded_records c \<le> sc_decoded_records sc \<and>
     ct_retained_decoded_memory_bytes c \<le> sc_retained_decoded_memory_bytes sc \<and>
     ct_peak_decoded_memory_bytes c \<le> sc_retained_decoded_memory_bytes sc \<and>
     ct_active_requests c \<le> sc_active_requests sc \<and>
     ct_serialized_request_body_bytes c \<le> sc_serialized_request_body_bytes sc \<and>
     ct_cumulative_waiting_milliseconds c \<le> sc_cumulative_waiting_milliseconds sc \<and>
     ct_cumulative_retry_waiting_milliseconds c \<le> sc_cumulative_retry_waiting_milliseconds sc \<and>
     ct_cumulative_rate_limit_waiting_milliseconds c \<le> sc_cumulative_rate_limit_waiting_milliseconds sc"

lemma within_limits_update [simp]:
  assumes "within_limits c sc"
  shows
    "within_limits (c\<lparr>ct_request_attempts := v\<rparr>) sc \<longleftrightarrow> v \<le> sc_request_attempts sc"
    "within_limits (c\<lparr>ct_remote_requests := v\<rparr>) sc \<longleftrightarrow> v \<le> sc_request_attempts sc"
    "within_limits (c\<lparr>ct_pages := v\<rparr>) sc \<longleftrightarrow> v \<le> sc_pages sc"
    "within_limits (c\<lparr>ct_header_bytes := v\<rparr>) sc \<longleftrightarrow> v \<le> sc_header_bytes sc"
    "within_limits (c\<lparr>ct_wire_response_bytes := v\<rparr>) sc \<longleftrightarrow> v \<le> sc_wire_response_bytes sc"
    "within_limits (c\<lparr>ct_decompressed_response_bytes := v\<rparr>) sc \<longleftrightarrow> v \<le> sc_decompressed_response_bytes sc"
    "within_limits (c\<lparr>ct_decoded_records := v\<rparr>) sc \<longleftrightarrow> v \<le> sc_decoded_records sc"
    "within_limits (c\<lparr>ct_retained_decoded_memory_bytes := v\<rparr>) sc \<longleftrightarrow> v \<le> sc_retained_decoded_memory_bytes sc"
    "within_limits (c\<lparr>ct_peak_decoded_memory_bytes := v\<rparr>) sc \<longleftrightarrow> v \<le> sc_retained_decoded_memory_bytes sc"
    "within_limits (c\<lparr>ct_active_requests := v\<rparr>) sc \<longleftrightarrow> v \<le> sc_active_requests sc"
    "within_limits (c\<lparr>ct_serialized_request_body_bytes := v\<rparr>) sc \<longleftrightarrow> v \<le> sc_serialized_request_body_bytes sc"
    "within_limits (c\<lparr>ct_cumulative_waiting_milliseconds := v\<rparr>) sc \<longleftrightarrow> v \<le> sc_cumulative_waiting_milliseconds sc"
    "within_limits (c\<lparr>ct_cumulative_retry_waiting_milliseconds := v\<rparr>) sc \<longleftrightarrow> v \<le> sc_cumulative_retry_waiting_milliseconds sc"
    "within_limits (c\<lparr>ct_cumulative_rate_limit_waiting_milliseconds := v\<rparr>) sc \<longleftrightarrow> v \<le> sc_cumulative_rate_limit_waiting_milliseconds sc"
    "within_limits (c\<lparr>ct_cumulative_remote_transport_milliseconds := v\<rparr>) sc"
    "within_limits (c\<lparr>ct_cumulative_admission_waiting_milliseconds := v\<rparr>) sc"
  using assms by (simp_all add: within_limits_def)

subsection \<open>The invariant\<close>

definition in_flight :: "scan_resource_accounting \<Rightarrow> bool" where
  "in_flight s \<longleftrightarrow> state s = REQUEST_ACTIVE \<or> state s = REQUEST_BODY_COMMITTED"

text \<open>What an attempt may still spend fits what the scan has left.\<close>

definition allowance_fits :: "scan_resource_accounting \<Rightarrow> bool" where
  "allowance_fits s \<longleftrightarrow>
     (let c = counters s; sc = scan (profile s); al = active_allowance s in
      al_decoded_memory_bytes al \<le> sc_retained_decoded_memory_bytes sc \<and>
      (in_flight s \<longrightarrow>
         unat (ct_header_bytes c) + unat (al_header_bytes al) \<le> unat (sc_header_bytes sc) \<and>
         unat (ct_wire_response_bytes c) + unat (al_wire_response_bytes al) \<le> unat (sc_wire_response_bytes sc) \<and>
         unat (ct_decompressed_response_bytes c) + unat (al_decompressed_response_bytes al)
           \<le> unat (sc_decompressed_response_bytes sc)) \<and>
      (state s = REQUEST_ACTIVE \<longrightarrow>
         unat (ct_serialized_request_body_bytes c) + unat (al_serialized_request_body_bytes al)
           \<le> unat (sc_serialized_request_body_bytes sc)) \<and>
      (in_flight s \<or> state s = TRANSPORT_COMMITTED \<longrightarrow>
         unat (ct_decoded_records c) + unat (al_decoded_records al) \<le> unat (sc_decoded_records sc)))"

definition flight_ok :: "scan_resource_accounting \<Rightarrow> bool" where
  "flight_ok s \<longleftrightarrow>
     (let c = counters s in
      ct_active_requests c = (if in_flight s then 1 else 0) \<and>
      (state s \<noteq> PAGE_DECODED \<longrightarrow> ct_retained_decoded_memory_bytes c = 0) \<and>
      ct_pages c \<le> ct_request_attempts c \<and>
      ct_remote_requests c \<le> ct_request_attempts c \<and>
      (in_flight s \<and> \<not> current_attempt_remote_committed s \<longrightarrow>
         ct_remote_requests c < ct_request_attempts c))"

definition waiting_ok :: "scan_resource_accounting \<Rightarrow> bool" where
  "waiting_ok s \<longleftrightarrow>
     (state s \<noteq> FAILED \<longrightarrow>
        unat (ct_cumulative_waiting_milliseconds (counters s)) =
        unat (ct_cumulative_retry_waiting_milliseconds (counters s)) +
        unat (ct_cumulative_rate_limit_waiting_milliseconds (counters s)))"

definition accounting_inv :: "scan_resource_accounting \<Rightarrow> bool" where
  "accounting_inv s \<longleftrightarrow>
     within_limits (counters s) (scan (profile s)) \<and> allowance_fits s \<and> flight_ok s \<and> waiting_ok s"

lemmas inv_defs = accounting_inv_def allowance_fits_def flight_ok_def waiting_ok_def in_flight_def Let_def

lemma remaining_fits:
  "Remaining l u = Inr r \<Longrightarrow> unat u + unat (min p r) \<le> unat l"
  by (auto simp: Remaining_Inr word_facts min_def)

lemma accounting_inv_failed: "accounting_inv s \<Longrightarrow> accounting_inv (failed s)"
  by (auto simp: inv_defs failed_def)

lemma inv_BeginStep: "accounting_inv s \<Longrightarrow> leaves accounting_inv (BeginStep s now)"
  by (rule leaves_BeginStep) (auto simp: inv_defs failed_def)

lemma inv_attempt_started:
  assumes inv: "accounting_inv s" and st: "state s = STEP_ACTIVE"
    and att: "AddChecked (ct_request_attempts (counters s)) 1 (sc_request_attempts (scan (profile s))) = Inr na"
    and pgs: "(if current_step_page_committed s then Inr (ct_pages (counters s))
               else AddChecked (ct_pages (counters s)) 1 (sc_pages (scan (profile s)))) = Inr np"
    and act: "AddChecked (ct_active_requests (counters s)) 1 (sc_active_requests (scan (profile s))) = Inr ac"
    and fits: "\<And>t. t = s\<lparr>active_allowance := al, state := REQUEST_ACTIVE\<rparr> \<Longrightarrow> allowance_fits t"
  shows "accounting_inv
     (s\<lparr>current_step_attempts := ns,
        counters := (counters s)\<lparr>ct_request_attempts := na, ct_pages := np, ct_active_requests := ac\<rparr>,
        current_step_page_committed := True, current_attempt_remote_committed := False,
        active_allowance := al, state := REQUEST_ACTIVE\<rparr>)"
proof -
  from inv st have c0: "ct_active_requests (counters s) = 0" by (simp add: inv_defs)
  then have ac: "ac = 1" using act budget.add_zero_one by simp
  have ac_le: "ac \<le> sc_active_requests (scan (profile s))" by (rule budget.add_le_limit [OF act])
  have np_le: "np \<le> sc_pages (scan (profile s))"
    using pgs inv by (auto simp: accounting_inv_def within_limits_def budget_bounds split: if_splits)
  have na_le: "na \<le> sc_request_attempts (scan (profile s))" by (rule budget.add_le_limit [OF att])
  have np_na: "np \<le> na"
    using pgs att inv by (auto simp: accounting_inv_def flight_ok_def Let_def budget_bounds split: if_splits)
  have rem: "ct_remote_requests (counters s) < na"
    using att inv by (auto simp: accounting_inv_def flight_ok_def Let_def budget_bounds)
  show ?thesis
    using inv st ac ac_le np_le na_le np_na rem fits [OF refl] by (auto simp: inv_defs)
qed

lemma inv_BeginAttempt:
  assumes inv: "accounting_inv s"
  shows "leaves accounting_inv (BeginAttempt s now)"
proof -
  have body: "unat (ct_serialized_request_body_bytes (counters s))
              \<le> unat (sc_serialized_request_body_bytes (scan (profile s)))"
    using inv by (simp add: accounting_inv_def within_limits_def word_facts)
  show ?thesis
    unfolding BeginAttempt_def Let_def
    by (intro leaves_rules accounting_inv_failed inv_attempt_started inv)
       (auto simp: allowance_fits_def in_flight_def Let_def and_then_Inr_iff remaining_fits body
             split: if_splits)
qed

lemma inv_CommitRequestBody: "accounting_inv s \<Longrightarrow> leaves accounting_inv (CommitRequestBody s n)"
  unfolding CommitRequestBody_def Let_def
  by (intro leaves_rules accounting_inv_failed) (auto simp: inv_defs budget.add_le_limit)

lemma inv_CommitRemoteRequest: "accounting_inv s \<Longrightarrow> leaves accounting_inv (CommitRemoteRequest s)"
  unfolding CommitRemoteRequest_def
  by (intro leaves_rules accounting_inv_failed)
     (auto simp: inv_defs budget.add_le_limit budget.add_one_le transport_ready_def)

lemma inv_spent:
  assumes inv: "accounting_inv s" and le: "h \<le> sc_header_bytes (scan (profile s))"
      "w \<le> sc_wire_response_bytes (scan (profile s))" "d \<le> sc_decompressed_response_bytes (scan (profile s))"
    and st: "next_state = FAILED \<or> next_state = STEP_ACTIVE \<or> next_state = TRANSPORT_COMMITTED \<and> in_flight s"
    and ret: "ct_retained_decoded_memory_bytes (counters s) = 0"
    and nf: "state s \<noteq> FAILED"
  shows "accounting_inv (s\<lparr>counters := (counters s)\<lparr>ct_header_bytes := h, ct_wire_response_bytes := w,
           ct_decompressed_response_bytes := d, ct_active_requests := 0, ct_retained_decoded_memory_bytes := 0\<rparr>, state := next_state\<rparr>)"
proof -
  let ?c = "(counters s)\<lparr>ct_header_bytes := h, ct_wire_response_bytes := w,
              ct_decompressed_response_bytes := d, ct_active_requests := 0, ct_retained_decoded_memory_bytes := 0\<rparr>"
  have "within_limits ?c (scan (profile s))" using inv le by (simp add: accounting_inv_def)
  moreover have "allowance_fits (s\<lparr>counters := ?c, state := next_state\<rparr>)"
    using inv st by (auto simp: accounting_inv_def allowance_fits_def in_flight_def Let_def)
  moreover have "flight_ok (s\<lparr>counters := ?c, state := next_state\<rparr>)"
    using inv st by (auto simp: accounting_inv_def flight_ok_def in_flight_def Let_def)
  moreover have "waiting_ok (s\<lparr>counters := ?c, state := next_state\<rparr>)"
    using inv nf by (simp add: accounting_inv_def waiting_ok_def)
  ultimately show ?thesis by (simp add: accounting_inv_def)
qed

lemma in_flight_facts:
  "accounting_inv s \<Longrightarrow> transport_ready s \<Longrightarrow>
   in_flight s \<and> ct_retained_decoded_memory_bytes (counters s) = 0 \<and> state s \<noteq> FAILED"
  by (auto simp: accounting_inv_def flight_ok_def transport_ready_def in_flight_def Let_def)

lemma inv_CommitAttemptUsage:
  assumes inv: "accounting_inv s" and nxt: "next_state = STEP_ACTIVE \<or> next_state = TRANSPORT_COMMITTED"
  shows "leaves accounting_inv (CommitAttemptUsage s u next_state)"
proof (cases "transport_ready s")
  case False
  then show ?thesis by (simp add: CommitAttemptUsage_def leaves_Fail accounting_inv_failed inv)
next
  case True
  note fl = in_flight_facts [OF inv True]
  have lim: "ct_wire_response_bytes (counters s) \<le> sc_wire_response_bytes (scan (profile s))"
      "ct_decompressed_response_bytes (counters s) \<le> sc_decompressed_response_bytes (scan (profile s))"
    using inv by (simp_all add: accounting_inv_def within_limits_def)
  have h: "accounting_inv (failed (s\<lparr>counters := (counters s)\<lparr>ct_header_bytes := h\<rparr>\<rparr>))"
    if "h \<le> sc_header_bytes (scan (profile s))" for h
    using inv_spent [OF inv that lim(1,2), of FAILED] fl by (simp add: failed_def)
  have w: "accounting_inv (failed (s\<lparr>counters := (counters s)\<lparr>ct_header_bytes := h, ct_wire_response_bytes := w\<rparr>\<rparr>))"
    if "h \<le> sc_header_bytes (scan (profile s))" "w \<le> sc_wire_response_bytes (scan (profile s))" for h w
    using inv_spent [OF inv that lim(2), of FAILED] fl by (simp add: failed_def)
  have fin: "accounting_inv (s\<lparr>counters := (counters s)\<lparr>ct_header_bytes := h, ct_wire_response_bytes := w,
           ct_decompressed_response_bytes := d, ct_active_requests := 0\<rparr>, state := next_state\<rparr>)"
    if "h \<le> sc_header_bytes (scan (profile s))" "w \<le> sc_wire_response_bytes (scan (profile s))"
       "d \<le> sc_decompressed_response_bytes (scan (profile s))" for h w d
  proof -
    have eq: "(counters s)\<lparr>ct_header_bytes := h, ct_wire_response_bytes := w, ct_decompressed_response_bytes := d,
             ct_active_requests := 0, ct_retained_decoded_memory_bytes := 0\<rparr> =
          (counters s)\<lparr>ct_header_bytes := h, ct_wire_response_bytes := w, ct_decompressed_response_bytes := d,
             ct_active_requests := 0\<rparr>"
      using fl by (cases "counters s") simp
    show ?thesis using inv_spent [OF inv that, of next_state] fl nxt unfolding eq by blast
  qed
  show ?thesis
    unfolding CommitAttemptUsage_def Let_def
    by (intro leaves_rules) (simp_all add: True h w fin budget.add_le_limit accounting_inv_failed inv)
qed

lemma inv_CommitDecodedPage:
  assumes inv: "accounting_inv s"
  shows "leaves accounting_inv (CommitDecodedPage s u)"
proof -
  have mem: "ct_peak_decoded_memory_bytes (counters s) \<le> sc_retained_decoded_memory_bytes (scan (profile s)) \<and>
             x \<le> sc_retained_decoded_memory_bytes (scan (profile s))"
    if "x \<le> al_decoded_memory_bytes (active_allowance s)" for x
    using inv that by (auto simp: accounting_inv_def allowance_fits_def within_limits_def Let_def)
  show ?thesis
    unfolding CommitDecodedPage_def Let_def
  proof (intro leaves_rules accounting_inv_failed inv)
    fix v va n
    assume "\<not> state s \<noteq> TRANSPORT_COMMITTED"
      and "RequireWithin (du_decoded_memory_bytes u) (al_decoded_memory_bytes (active_allowance s))
             ''decoded_memory_bytes'' = Inr va"
      and n: "AddChecked (ct_decoded_records (counters s)) (du_decoded_records u)
                (sc_decoded_records (scan (profile s))) = Inr n"
    then show "accounting_inv (s\<lparr>counters := (counters s)\<lparr>ct_decoded_records := n,
                 ct_retained_decoded_memory_bytes := du_decoded_memory_bytes u,
                 ct_peak_decoded_memory_bytes :=
                   max (ct_peak_decoded_memory_bytes (counters s)) (du_decoded_memory_bytes u)\<rparr>,
               state := PAGE_DECODED\<rparr>)"
      using inv mem [of "du_decoded_memory_bytes u"] budget.add_le_limit [OF n]
      by (simp add: RequireWithin_Inr inv_defs)
  qed
qed

lemma inv_CompletePage: "accounting_inv s \<Longrightarrow> leaves accounting_inv (CompletePage s b now)"
  unfolding CompletePage_def Let_def
  by (intro leaves_rules accounting_inv_failed) (auto simp: inv_defs failed_def)

lemma inv_CommitRetryWait: "accounting_inv s \<Longrightarrow> leaves accounting_inv (CommitRetryWait s ms)"
  unfolding CommitRetryWait_def Let_def
  by (intro leaves_rules) (auto simp: inv_defs failed_def budget.add_le_limit budget.add_value)

lemma inv_CommitRateLimitWait: "accounting_inv s \<Longrightarrow> leaves accounting_inv (CommitRateLimitWait s ms)"
  unfolding CommitRateLimitWait_def Let_def
  by (intro leaves_rules) (auto simp: inv_defs failed_def budget.add_le_limit budget.add_value)

lemma inv_CommitAdmissionWait: "accounting_inv s \<Longrightarrow> leaves accounting_inv (CommitAdmissionWait s ms l)"
  unfolding CommitAdmissionWait_def
  by (intro leaves_rules accounting_inv_failed) (auto simp: inv_defs)

lemma inv_CommitRemoteTransportTime:
  "accounting_inv s \<Longrightarrow> leaves accounting_inv (CommitRemoteTransportTime s ms)"
  unfolding CommitRemoteTransportTime_def
  by (intro leaves_rules accounting_inv_failed) (auto simp: inv_defs)

lemmas inv_calls =
  inv_BeginStep inv_BeginAttempt inv_CommitRequestBody inv_CommitRemoteRequest inv_CommitAttemptUsage
  inv_CommitDecodedPage inv_CompletePage inv_CommitRetryWait inv_CommitRateLimitWait
  inv_CommitAdmissionWait inv_CommitRemoteTransportTime

lemma accounting_inv_step: "accounting_inv s \<Longrightarrow> accounting_inv (accounting_step s x)"
  unfolding accounting_step_def leaves_def [symmetric]
  by (cases x)
     (simp_all add: inv_calls leaves_ignore leaves_pair AbortPage_eq accounting_inv_failed
        CommitAttemptFailure_def CommitTransport_def)

subsection \<open>Progress: counters only grow and the deadline is fixed once\<close>

definition spends :: "scan_resource_accounting \<Rightarrow> scan_resource_accounting \<Rightarrow> bool" where
  "spends s t \<longleftrightarrow>
     profile t = profile s \<and>
     ct_request_attempts (counters s) \<le> ct_request_attempts (counters t) \<and>
     ct_remote_requests (counters s) \<le> ct_remote_requests (counters t) \<and>
     ct_pages (counters s) \<le> ct_pages (counters t) \<and>
     ct_header_bytes (counters s) \<le> ct_header_bytes (counters t) \<and>
     ct_wire_response_bytes (counters s) \<le> ct_wire_response_bytes (counters t) \<and>
     ct_decompressed_response_bytes (counters s) \<le> ct_decompressed_response_bytes (counters t) \<and>
     ct_decoded_records (counters s) \<le> ct_decoded_records (counters t) \<and>
     ct_peak_decoded_memory_bytes (counters s) \<le> ct_peak_decoded_memory_bytes (counters t) \<and>
     ct_serialized_request_body_bytes (counters s) \<le> ct_serialized_request_body_bytes (counters t) \<and>
     ct_cumulative_waiting_milliseconds (counters s) \<le> ct_cumulative_waiting_milliseconds (counters t) \<and>
     ct_cumulative_retry_waiting_milliseconds (counters s) \<le> ct_cumulative_retry_waiting_milliseconds (counters t) \<and>
     ct_cumulative_rate_limit_waiting_milliseconds (counters s)
       \<le> ct_cumulative_rate_limit_waiting_milliseconds (counters t) \<and>
     ct_cumulative_remote_transport_milliseconds (counters s)
       \<le> ct_cumulative_remote_transport_milliseconds (counters t) \<and>
     ct_cumulative_admission_waiting_milliseconds (counters s)
       \<le> ct_cumulative_admission_waiting_milliseconds (counters t) \<and>
     (deadline_started s \<longrightarrow>
        deadline_started t \<and> deadline t = deadline s \<and> started_at t = started_at s)"

lemma spends_refl: "spends s s"
  by (simp add: spends_def)

lemma spends_trans: "spends s t \<Longrightarrow> spends t u \<Longrightarrow> spends s u"
  unfolding spends_def by (elim conjE, intro conjI) ((erule (1) order_trans | simp)+)

lemmas spends_simps = spends_def failed_def budget.add_ge

lemma spends_step: "spends s (accounting_step s x)"
  unfolding accounting_step_def leaves_def [symmetric]
proof (cases x)
  case (Op_BeginStep now)
  then show "leaves (spends s) (accounting_call s x)"
    by (auto simp: spends_simps intro!: leaves_BeginStep)
next
  case (Op_BeginAttempt now)
  have "leaves (spends s) (BeginAttempt s now)"
    unfolding BeginAttempt_def Let_def
    by (intro leaves_rules) (auto simp: spends_simps split: if_splits)
  with Op_BeginAttempt show "leaves (spends s) (accounting_call s x)" by (simp add: leaves_ignore)
next
  case (Op_CompletePage has_next now)
  then show "leaves (spends s) (accounting_call s x)"
    by (auto simp: CompletePage_def Let_def spends_simps intro!: leaves_rules)
qed (simp, unfold accounting_defs Let_def, intro leaves_rules; simp add: spends_simps)+

interpretation accounting: monotone_machine accounting_step accounting_inv spends
  by unfold_locales (auto intro: accounting_inv_step spends_refl spends_trans spends_step)

subsection \<open>Failure is closed\<close>

definition fails_closed :: "'a accounting_result \<Rightarrow> bool" where
  "fails_closed r \<longleftrightarrow> succeeded r \<or> state (snd r) = FAILED"

lemma fails_closed_rules:
  "fails_closed (Inr v, t)"
  "fails_closed (Fail s f m)"
  "(b \<Longrightarrow> fails_closed x) \<Longrightarrow> (\<not> b \<Longrightarrow> fails_closed y) \<Longrightarrow> fails_closed (if b then x else y)"
  "(\<And>v. r = Inr v \<Longrightarrow> fails_closed (k v)) \<Longrightarrow> fails_closed (catch_fail s r k)"
  "(\<And>e. r' = Inl e \<Longrightarrow> fails_closed (f' e)) \<Longrightarrow> (\<And>v. r' = Inr v \<Longrightarrow> fails_closed (k' v)) \<Longrightarrow>
   fails_closed (case r' of Inl e \<Rightarrow> f' e | Inr v \<Rightarrow> k' v)"
  "fails_closed (RequireReadyForNext s now)"
  using RequireReadyForNext_cases [of s now]
  by (auto simp: fails_closed_def Fail_eq failed_def catch_fail_def split: sum.splits)

lemma fails_closed_ignore: "fails_closed r \<Longrightarrow> fails_closed (ignore_value r)"
  by (cases r; cases "fst r") (auto simp: fails_closed_def ignore_value_def)

lemma fails_closed_BeginStep: "fails_closed (BeginStep s now)"
proof -
  have "\<And>s1 s2 e. RequireReadyForNext s1 now = (Inl e, s2) \<Longrightarrow> state s2 = FAILED"
    using fails_closed_rules(6) by (metis fails_closed_def succeeded_simps(1) snd_conv)
  then show ?thesis
    by (auto simp: BeginStep_def Let_def fails_closed_def Fail_eq failed_def split: prod.splits sum.splits)
qed

lemma accounting_call_fails_closed: "fails_closed (accounting_call s x)"
proof (cases x)
  case (Op_BeginAttempt now)
  have "fails_closed (BeginAttempt s now)"
    unfolding BeginAttempt_def Let_def by (intro fails_closed_rules)
  with Op_BeginAttempt show ?thesis by (simp add: fails_closed_ignore)
next
  case (Op_BeginStep now)
  then show ?thesis by (simp add: fails_closed_BeginStep)
qed (simp, unfold accounting_defs Let_def, intro fails_closed_rules)+

lemma failed_call:
  "state s = FAILED \<Longrightarrow> x \<noteq> Op_AbortPage \<Longrightarrow>
   (\<exists>e. accounting_call s x = (Inl e, failed s))"
  by (cases x) (auto simp: accounting_defs transport_ready_def Let_def Fail_eq ignore_value_def)

definition spent_view :: "scan_resource_accounting \<Rightarrow> scan_resource_counters \<times> scan_resource_profile" where
  "spent_view s =
     ((counters s)\<lparr>ct_active_requests := 0, ct_retained_decoded_memory_bytes := 0\<rparr>, profile s)"

interpretation failed_scan: terminal_machine accounting_step "\<lambda>s. state s = FAILED" spent_view
proof
  fix s :: scan_resource_accounting and x
  assume f: "state s = FAILED"
  have "accounting_step s x = failed s"
  proof (cases "x = Op_AbortPage")
    case True
    then show ?thesis by (simp add: accounting_step_def AbortPage_eq)
  next
    case False
    then show ?thesis using failed_call [OF f False] by (auto simp: accounting_step_def)
  qed
  then show "state (accounting_step s x) = FAILED" "spent_view (accounting_step s x) = spent_view s"
    by (simp_all add: failed_def spent_view_def)
qed

subsection \<open>Properties\<close>

lemma new_accounting_inv: "new_ScanResourceAccounting p = Inr s \<Longrightarrow> accounting_inv s \<and> profile s = p"
  by (auto simp: new_ScanResourceAccounting_def within_limits_def inv_defs zero_counters_def zero_allowance_def
           split: if_splits)

text \<open>
  The two counters without a limit in the profile: admission waiting stays below any bound on the limits that the calls pass, and
  remote transport time is exactly the sum of the times whose commit returned.
\<close>

definition admission_limited :: "uint64 \<Rightarrow> accounting_op \<Rightarrow> bool" where
  "admission_limited L x = (case x of Op_CommitAdmissionWait ms l \<Rightarrow> l \<le> L | _ \<Rightarrow> True)"

definition same_side_counters :: "accounting_op \<Rightarrow> scan_resource_accounting \<Rightarrow> scan_resource_accounting \<Rightarrow> bool" where
  "same_side_counters x s t \<longleftrightarrow>
     ((\<forall>ms l. x \<noteq> Op_CommitAdmissionWait ms l) \<longrightarrow>
        ct_cumulative_admission_waiting_milliseconds (counters t) = ct_cumulative_admission_waiting_milliseconds (counters s)) \<and>
     ((\<forall>ms. x \<noteq> Op_CommitRemoteTransportTime ms) \<longrightarrow>
        ct_cumulative_remote_transport_milliseconds (counters t) = ct_cumulative_remote_transport_milliseconds (counters s))"

lemmas side_simps = same_side_counters_def failed_def

lemma side_step: "same_side_counters x s (accounting_step s x)"
  unfolding accounting_step_def leaves_def [symmetric]
proof (cases x)
  case (Op_BeginStep now)
  then show "leaves (same_side_counters x s) (accounting_call s x)"
    by (auto simp: side_simps intro!: leaves_BeginStep)
next
  case (Op_BeginAttempt now)
  have "leaves (same_side_counters x s) (BeginAttempt s now)"
    unfolding BeginAttempt_def Let_def
    by (intro leaves_rules) (auto simp: side_simps split: if_splits)
  with Op_BeginAttempt show "leaves (same_side_counters x s) (accounting_call s x)" by (simp add: leaves_ignore)
next
  case (Op_CompletePage has_next now)
  then show "leaves (same_side_counters x s) (accounting_call s x)"
    by (auto simp: CompletePage_def Let_def side_simps intro!: leaves_rules)
qed (simp, unfold accounting_defs Let_def, intro leaves_rules; simp add: side_simps)+

lemma admission_step:
  assumes "ct_cumulative_admission_waiting_milliseconds (counters s) \<le> L" and "admission_limited L x"
  shows "ct_cumulative_admission_waiting_milliseconds (counters (accounting_step s x)) \<le> L"
proof (cases "\<exists>ms l. x = Op_CommitAdmissionWait ms l")
  case True
  then obtain ms l where x: "x = Op_CommitAdmissionWait ms l" "l \<le> L" using assms(2) by (auto simp: admission_limited_def)
  then have "r \<le> L" if "AddChecked c ms l = Inr r" for c r using budget.add_le_limit [OF that] by simp
  with x assms(1) show ?thesis
    by (auto simp: accounting_step_def CommitAdmissionWait_def Fail_eq failed_def split: sum.splits)
next
  case False
  with side_step [of x s] assms(1) show ?thesis by (auto simp: same_side_counters_def)
qed

lemma admission_run:
  assumes "ct_cumulative_admission_waiting_milliseconds (counters s) \<le> L" and "list_all (admission_limited L) ops"
  shows "ct_cumulative_admission_waiting_milliseconds (counters (run_ops accounting_step s ops)) \<le> L"
  using assms by (induction ops arbitrary: s) (auto intro: admission_step)

definition transport_charge :: "scan_resource_accounting \<Rightarrow> accounting_op \<Rightarrow> nat" where
  "transport_charge s x =
     (case x of Op_CommitRemoteTransportTime ms \<Rightarrow> if succeeded (accounting_call s x) then unat ms else 0 | _ \<Rightarrow> 0)"

primrec transport_time :: "scan_resource_accounting \<Rightarrow> accounting_op list \<Rightarrow> nat" where
  "transport_time s [] = 0"
| "transport_time s (x # ops) = transport_charge s x + transport_time (accounting_step s x) ops"

lemma transport_step:
  "unat (ct_cumulative_remote_transport_milliseconds (counters (accounting_step s x))) =
   unat (ct_cumulative_remote_transport_milliseconds (counters s)) + transport_charge s x"
proof (cases "\<exists>ms. x = Op_CommitRemoteTransportTime ms")
  case True
  then show ?thesis
    by (auto simp: accounting_step_def transport_charge_def CommitRemoteTransportTime_def Fail_eq failed_def budget.add_value
        split: sum.splits)
next
  case False
  then have "transport_charge s x = 0" by (auto simp: transport_charge_def split: accounting_op.splits)
  with False side_step [of x s] show ?thesis by (auto simp: same_side_counters_def)
qed

lemma transport_run:
  "unat (ct_cumulative_remote_transport_milliseconds (counters (run_ops accounting_step s ops))) =
   unat (ct_cumulative_remote_transport_milliseconds (counters s)) + transport_time s ops"
  by (induction ops arbitrary: s) (simp_all add: transport_step)

lemma new_accounting_zero: "new_ScanResourceAccounting p = Inr s \<Longrightarrow> counters s = zero_counters"
  by (auto simp: new_ScanResourceAccounting_def split: if_splits)

text \<open>
  C2. The counters of a scan that have a ceiling in its profile never exceed it: whatever sequence of accounting calls the
  stream makes, in whatever order and whether calls throw or not, attempts, remote requests, pages,
  header, wire and decompressed bytes, decoded records, retained and peak decoded memory, active
  requests, request-body bytes and the total, retry and rate-limit waiting stay within the scan limits of the
  admitted profile. Of the other two, admission waiting stays within every bound on the limits the callers pass, and remote transport time,
  which the code debits against no ceiling although the profile has a field for one, is the exact sum of the committed times and never wraps.
\<close>

theorem scan_never_exceeds_limits:
  assumes "new_ScanResourceAccounting p = Inr s"
  shows "within_limits (counters (run_ops accounting_step s ops)) (scan p) \<and>
    (list_all (admission_limited L) ops \<longrightarrow>
      ct_cumulative_admission_waiting_milliseconds (counters (run_ops accounting_step s ops)) \<le> L) \<and>
    unat (ct_cumulative_remote_transport_milliseconds (counters (run_ops accounting_step s ops))) = transport_time s ops"
proof -
  from assms have s: "accounting_inv s" "profile s = p" using new_accounting_inv by auto
  have "accounting_inv (run_ops accounting_step s ops)" by (rule accounting.inv_run [OF s(1)])
  moreover have "spends s (run_ops accounting_step s ops)" by (rule accounting.le_run [OF s(1)])
  ultimately have "within_limits (counters (run_ops accounting_step s ops)) (scan p)" using s(2) by (simp add: accounting_inv_def spends_def)
  with admission_run [of s L ops] transport_run [of s ops] new_accounting_zero [OF assms] show ?thesis by (simp add: zero_counters_def)
qed

definition sample_profile :: scan_resource_profile where
  "sample_profile =
     \<lparr>page = \<lparr>pg_request_attempts = 3, pg_header_bytes = 64, pg_wire_response_bytes = 1000,
              pg_decompressed_response_bytes = 1000, pg_decoded_records = 10, pg_decoded_memory_bytes = 500,
              pg_active_requests = 1, pg_serialized_request_body_bytes = 100\<rparr>,
      scan = \<lparr>sc_request_attempts = 6, sc_pages = 2, sc_header_bytes = 100, sc_wire_response_bytes = 1500,
              sc_decompressed_response_bytes = 1500, sc_decoded_records = 15,
              sc_retained_decoded_memory_bytes = 400, sc_max_wall_milliseconds = 1000, sc_active_requests = 1,
              sc_serialized_request_body_bytes = 150, sc_cumulative_waiting_milliseconds = 50,
              sc_cumulative_retry_waiting_milliseconds = 30,
              sc_cumulative_rate_limit_waiting_milliseconds = 40,
              sc_cumulative_remote_transport_milliseconds = 0\<rparr>\<rparr>"

definition sample_scan :: scan_resource_accounting where
  "sample_scan =
     \<lparr>profile = sample_profile, counters = zero_counters, state = READY, deadline_started = False,
      started_at = 0, deadline = 0, active_allowance = zero_allowance, current_step_attempts = 0,
      current_step_page_committed = False, current_attempt_remote_committed = False\<rparr>"

lemma sample_scan_new: "new_ScanResourceAccounting sample_profile = Inr sample_scan"
  by (simp add: new_ScanResourceAccounting_def ValidateProfile_def sample_profile_def sample_scan_def
        int64_max_def max_clock_milliseconds_def duration_max_def nanoseconds_per_millisecond_def)

theorem scan_never_exceeds_limits_witness:
  "new_ScanResourceAccounting sample_profile = Inr sample_scan \<and>
   within_limits (counters (run_ops accounting_step sample_scan [Op_BeginStep 5, Op_CommitAdmissionWait 3 7]))
     (scan sample_profile) \<and>
   ct_cumulative_admission_waiting_milliseconds (counters (run_ops accounting_step sample_scan [Op_BeginStep 5, Op_CommitAdmissionWait 3 7])) \<le> 7"
  using sample_scan_new scan_never_exceeds_limits [OF sample_scan_new, of "[Op_BeginStep 5, Op_CommitAdmissionWait 3 7]" 7]
  by (simp add: admission_limited_def)

text \<open>
  Remote transport time is not debited against its limit: the profile of the sample allows none, and a millisecond is accepted.
\<close>

theorem remote_transport_is_unlimited:
  "sc_cumulative_remote_transport_milliseconds (scan sample_profile) = 0 \<and>
   succeeded (accounting_call (run_ops accounting_step sample_scan [Op_BeginStep 5, Op_BeginAttempt 6]) (Op_CommitRemoteTransportTime 1)) \<and>
   ct_cumulative_remote_transport_milliseconds (counters
     (run_ops accounting_step sample_scan [Op_BeginStep 5, Op_BeginAttempt 6, Op_CommitRemoteTransportTime 1])) = 1"
  by (simp add: sample_scan_def sample_profile_def zero_counters_def BeginStep_def BeginAttempt_def RequireReadyForNext_def
      duration_max_def int64_max_def nanoseconds_per_millisecond_def AddChecked_def Remaining_def accounting_step_def Let_def
      CommitRemoteTransportTime_def ignore_value_def)

text \<open>
  No retry, wait, page or failure ever resets a budget: every later state of a scan has at least
  the counters of every earlier one, and the deadline, once started, is the same time point for the
  rest of the scan.
\<close>

theorem scan_budget_never_resets:
  assumes "new_ScanResourceAccounting p = Inr s"
  shows "spends (run_ops accounting_step s earlier) (run_ops accounting_step s (earlier @ later))"
proof -
  from assms have "accounting_inv s" using new_accounting_inv by auto
  then have "accounting_inv (run_ops accounting_step s earlier)" by (rule accounting.inv_run)
  then show ?thesis unfolding run_ops_append by (rule accounting.le_run)
qed

theorem scan_budget_never_resets_witness:
  "new_ScanResourceAccounting sample_profile = Inr sample_scan \<and>
   spends (run_ops accounting_step sample_scan [Op_BeginStep 5])
     (run_ops accounting_step sample_scan ([Op_BeginStep 5] @ [Op_BeginAttempt 6, Op_AbortPage]))"
  using sample_scan_new scan_budget_never_resets [OF sample_scan_new] by blast

text \<open>
  C14. Accounting fails closed: a call that throws leaves the scan in the failed state, and from then on
  every call but the non-throwing abort throws, the state stays failed and nothing more is charged.
\<close>

theorem scan_failure_is_terminal:
  assumes "accounting_call s x = (Inl e, t)"
  shows "state (run_ops accounting_step t ops) = FAILED \<and>
         spent_view (run_ops accounting_step t ops) = spent_view t \<and>
         (y \<noteq> Op_AbortPage \<longrightarrow> \<not> succeeded (accounting_call (run_ops accounting_step t ops) y))"
proof -
  have t: "state t = FAILED"
    using accounting_call_fails_closed [of s x] assms by (simp add: fails_closed_def)
  have r: "state (run_ops accounting_step t ops) = FAILED"
    and "spent_view (run_ops accounting_step t ops) = spent_view t"
    using failed_scan.terminal_run [OF t] by auto
  moreover have "y \<noteq> Op_AbortPage \<Longrightarrow> \<not> succeeded (accounting_call (run_ops accounting_step t ops) y)"
    using failed_call [OF r] by fastforce
  ultimately show ?thesis by blast
qed

theorem scan_failure_is_terminal_witness:
  "\<exists>e t. accounting_call sample_scan Op_CommitRemoteRequest = (Inl e, t) \<and>
         state (run_ops accounting_step t [Op_BeginStep 3]) = FAILED \<and>
         \<not> succeeded (accounting_call (run_ops accounting_step t [Op_BeginStep 3]) (Op_BeginStep 4))"
proof -
  have call: "accounting_call sample_scan Op_CommitRemoteRequest =
          (Inl (ScanResourceError ''resource_state'' ''scan resource state cannot commit a remote request''),
           failed sample_scan)"
    by (simp add: CommitRemoteRequest_def transport_ready_def sample_scan_def Fail_eq)
  then show ?thesis
    using scan_failure_is_terminal [OF call, of "[Op_BeginStep 3]" "Op_BeginStep 4"] by blast
qed

text \<open>What a method returned, when it returned: the dual of \<open>leaves\<close>.\<close>

definition returning :: "('a \<Rightarrow> scan_resource_accounting \<Rightarrow> bool) \<Rightarrow> 'a accounting_result \<Rightarrow> bool" where
  "returning Q r \<longleftrightarrow> (\<forall>v t. r = (Inr v, t) \<longrightarrow> Q v t)"

lemma returning_rules:
  "Q v t \<Longrightarrow> returning Q (Inr v, t)"
  "returning Q (Fail s f m)"
  "(b \<Longrightarrow> returning Q x) \<Longrightarrow> (\<not> b \<Longrightarrow> returning Q y) \<Longrightarrow> returning Q (if b then x else y)"
  "(\<And>v. r = Inr v \<Longrightarrow> returning Q (k v)) \<Longrightarrow> returning Q (catch_fail s r k)"
  by (auto simp: returning_def Fail_eq catch_fail_def split: sum.splits)

lemma BeginAttempt_returns:
  assumes "BeginAttempt s now = (Inr al, t)"
  shows "state t = REQUEST_ACTIVE \<and> active_allowance t = al \<and> profile t = profile s \<and>
         state s = STEP_ACTIVE \<and> now < deadline s \<and> al_deadline al = deadline s"
proof -
  have "returning (\<lambda>al t. state t = REQUEST_ACTIVE \<and> active_allowance t = al \<and> profile t = profile s \<and>
          state s = STEP_ACTIVE \<and> now < deadline s \<and> al_deadline al = deadline s) (BeginAttempt s now)"
    unfolding BeginAttempt_def Let_def by (intro returning_rules) (simp add: not_le)
  with assms show ?thesis by (simp add: returning_def)
qed

lemma AddChecked_within:
  assumes "unat c + unat a \<le> unat l" and "u \<le> a"
  shows "\<exists>r. AddChecked c u l = Inr r"
  using assms by (intro budget.add_defined [THEN iffD2]) (simp add: word_facts)

lemma transport_commits:
  assumes inv: "accounting_inv t" and ready: "transport_ready t"
    and usage: "tu_header_bytes u \<le> al_header_bytes (active_allowance t)"
      "tu_wire_response_bytes u \<le> al_wire_response_bytes (active_allowance t)"
      "tu_decompressed_response_bytes u \<le> al_decompressed_response_bytes (active_allowance t)"
  shows "\<exists>t'. CommitTransport t u = (Inr (), t') \<and> state t' = TRANSPORT_COMMITTED \<and>
              active_allowance t' = active_allowance t \<and> accounting_inv t'"
proof -
  have "in_flight t" using in_flight_facts [OF inv ready] by simp
  with inv have fits:
    "unat (ct_header_bytes (counters t)) + unat (al_header_bytes (active_allowance t))
       \<le> unat (sc_header_bytes (scan (profile t)))"
    "unat (ct_wire_response_bytes (counters t)) + unat (al_wire_response_bytes (active_allowance t))
       \<le> unat (sc_wire_response_bytes (scan (profile t)))"
    "unat (ct_decompressed_response_bytes (counters t)) + unat (al_decompressed_response_bytes (active_allowance t))
       \<le> unat (sc_decompressed_response_bytes (scan (profile t)))"
    by (simp_all add: accounting_inv_def allowance_fits_def Let_def)
  obtain h w d where
    "AddChecked (ct_header_bytes (counters t)) (tu_header_bytes u) (sc_header_bytes (scan (profile t))) = Inr h"
    "AddChecked (ct_wire_response_bytes (counters t)) (tu_wire_response_bytes u)
       (sc_wire_response_bytes (scan (profile t))) = Inr w"
    "AddChecked (ct_decompressed_response_bytes (counters t)) (tu_decompressed_response_bytes u)
       (sc_decompressed_response_bytes (scan (profile t))) = Inr d"
    using AddChecked_within [OF fits(1) usage(1)] AddChecked_within [OF fits(2) usage(2)]
      AddChecked_within [OF fits(3) usage(3)] by blast
  then have "\<exists>t'. CommitTransport t u = (Inr (), t') \<and> state t' = TRANSPORT_COMMITTED \<and>
                  active_allowance t' = active_allowance t"
    using ready usage by (simp add: CommitTransport_def CommitAttemptUsage_def)
  then obtain t' where t': "CommitTransport t u = (Inr (), t')" "state t' = TRANSPORT_COMMITTED"
    "active_allowance t' = active_allowance t" by blast
  moreover have "accounting_inv t'"
    using inv_CommitAttemptUsage [OF inv, of TRANSPORT_COMMITTED u] t'(1)
    by (simp add: leaves_def CommitTransport_def)
  ultimately show ?thesis by blast
qed

lemma decoded_page_commits:
  assumes inv: "accounting_inv t" and st: "state t = TRANSPORT_COMMITTED"
    and usage: "du_decoded_records d \<le> al_decoded_records (active_allowance t)"
      "du_decoded_memory_bytes d \<le> al_decoded_memory_bytes (active_allowance t)"
  shows "\<exists>t'. CommitDecodedPage t d = (Inr (), t') \<and> state t' = PAGE_DECODED"
proof -
  from inv st have "unat (ct_decoded_records (counters t)) + unat (al_decoded_records (active_allowance t))
      \<le> unat (sc_decoded_records (scan (profile t)))"
    by (simp add: accounting_inv_def allowance_fits_def Let_def)
  from AddChecked_within [OF this usage(1)] st usage show ?thesis
    by (auto simp: CommitDecodedPage_def Let_def catch_fail_def RequireWithin_def)
qed

lemma body_commits:
  assumes inv: "accounting_inv t" and st: "state t = REQUEST_ACTIVE"
    and body: "pg_serialized_request_body_bytes (page (profile t)) \<noteq> 0"
    and n: "n \<noteq> 0" "n \<le> al_serialized_request_body_bytes (active_allowance t)"
  shows "\<exists>t'. CommitRequestBody t n = (Inr (), t') \<and> transport_ready t' \<and>
              active_allowance t' = active_allowance t \<and> accounting_inv t'"
proof -
  from inv st have "unat (ct_serialized_request_body_bytes (counters t)) +
      unat (al_serialized_request_body_bytes (active_allowance t))
      \<le> unat (sc_serialized_request_body_bytes (scan (profile t)))"
    by (simp add: accounting_inv_def allowance_fits_def Let_def)
  from AddChecked_within [OF this n(2)] obtain r where
    "AddChecked (ct_serialized_request_body_bytes (counters t)) n
       (sc_serialized_request_body_bytes (scan (profile t))) = Inr r" ..
  then have "CommitRequestBody t n =
      (Inr (), t\<lparr>counters := (counters t)\<lparr>ct_serialized_request_body_bytes := r\<rparr>,
                 state := REQUEST_BODY_COMMITTED\<rparr>)"
    using st body n by (simp add: CommitRequestBody_def Let_def catch_fail_def RequireWithin_Inr)
  then show ?thesis
    using inv_CommitRequestBody [OF inv, of n] body by (simp add: leaves_def transport_ready_def)
qed

text \<open>
  The allowance handed out by \<open>BeginAttempt\<close> is honoured: in every reachable accounting state, an
  attempt whose serialized request body (where the profile has one), response and decoded page stay
  within the returned allowance commits at every stage, because no earlier page can have consumed
  the authority it was promised.
\<close>

theorem allowance_always_commits:
  assumes new: "new_ScanResourceAccounting p = Inr s0" and s: "s = run_ops accounting_step s0 ops"
    and attempt: "BeginAttempt s now = (Inr al, s1)"
    and body: "if pg_serialized_request_body_bytes (page p) = 0 then s2 = s1
               else n \<noteq> 0 \<and> n \<le> al_serialized_request_body_bytes al \<and> s2 = snd (CommitRequestBody s1 n)"
    and usage: "tu_header_bytes u \<le> al_header_bytes al" "tu_wire_response_bytes u \<le> al_wire_response_bytes al"
      "tu_decompressed_response_bytes u \<le> al_decompressed_response_bytes al"
    and decoded: "du_decoded_records d \<le> al_decoded_records al"
      "du_decoded_memory_bytes d \<le> al_decoded_memory_bytes al"
  shows "\<exists>s3 s4. CommitTransport s2 u = (Inr (), s3) \<and> CommitDecodedPage s3 d = (Inr (), s4) \<and>
                 state s4 = PAGE_DECODED"
proof -
  from new have s0: "accounting_inv s0" "profile s0 = p" using new_accounting_inv by auto
  have inv: "accounting_inv s" unfolding s by (rule accounting.inv_run [OF s0(1)])
  have prof: "profile s = p"
    using accounting.le_run [OF s0(1), of ops] s0(2) by (simp add: s spends_def)
  note s1 = BeginAttempt_returns [OF attempt]
  have inv1: "accounting_inv s1"
    using inv_BeginAttempt [OF inv, of now] attempt by (simp add: leaves_def)
  have s2: "accounting_inv s2 \<and> transport_ready s2 \<and> active_allowance s2 = al"
  proof (cases "pg_serialized_request_body_bytes (page p) = 0")
    case True
    then show ?thesis using body s1 inv1 prof by (simp add: transport_ready_def)
  next
    case False
    then show ?thesis using body s1 prof body_commits [OF inv1, of n] by auto
  qed
  then obtain s3 where s3: "CommitTransport s2 u = (Inr (), s3)" "state s3 = TRANSPORT_COMMITTED"
    "active_allowance s3 = al" "accounting_inv s3"
    using transport_commits [of s2 u] usage by auto
  then show ?thesis using decoded_page_commits [of s3 d] decoded by auto
qed

definition sample_step :: scan_resource_accounting where
  "sample_step = run_ops accounting_step sample_scan [Op_BeginStep 5]"

definition sample_allowance :: page_resource_allowance where
  "sample_allowance =
     \<lparr>al_header_bytes = 64, al_wire_response_bytes = 1000, al_decompressed_response_bytes = 1000,
      al_decoded_records = 10, al_decoded_memory_bytes = 400, al_serialized_request_body_bytes = 100,
      al_deadline = 1000000005\<rparr>"

lemmas sample_defs =
  sample_scan_def sample_profile_def zero_counters_def BeginStep_def BeginAttempt_def RequireReadyForNext_def
  duration_max_def int64_max_def nanoseconds_per_millisecond_def AddChecked_def Remaining_def
  sample_allowance_def accounting_step_def Let_def

lemma sample_attempt: "\<exists>s1. BeginAttempt sample_step 6 = (Inr sample_allowance, s1)"
  by (simp add: sample_step_def sample_defs)

theorem allowance_always_commits_witness:
  "\<exists>s1 s3 s4. BeginAttempt sample_step 6 = (Inr sample_allowance, s1) \<and>
     CommitTransport (snd (CommitRequestBody s1 20))
       \<lparr>tu_header_bytes = 10, tu_wire_response_bytes = 90, tu_decompressed_response_bytes = 90\<rparr> = (Inr (), s3) \<and>
     CommitDecodedPage s3 \<lparr>du_decoded_records = 2, du_decoded_memory_bytes = 40\<rparr> = (Inr (), s4)"
proof -
  obtain s1 where s1: "BeginAttempt sample_step 6 = (Inr sample_allowance, s1)" using sample_attempt ..
  show ?thesis
    using allowance_always_commits [OF sample_scan_new sample_step_def s1, of "snd (CommitRequestBody s1 20)" 20
      "\<lparr>tu_header_bytes = 10, tu_wire_response_bytes = 90, tu_decompressed_response_bytes = 90\<rparr>"
      "\<lparr>du_decoded_records = 2, du_decoded_memory_bytes = 40\<rparr>"] s1
    by (auto simp: sample_profile_def sample_allowance_def)
qed

end
