(* ===== verification/Requested_Predicate.thy ===== *)
theory Requested_Predicate
  imports Cuac_Prelude
begin

section \<open>Requested predicates\<close>

text \<open>
  The protocol-neutral predicate tree that Query hands to Relational Semantics
  (\<open>src/semantics/predicate/relational_predicate.cpp\<close> and its header). A value is the record of the
  class' members; a \<open>double\<close> is its 64-bit IEEE pattern, compared the way \<open>operator==\<close> of the
  language compares doubles (a NaN equals nothing, the two zeros are equal). A tree node keeps the
  depth and node count it was built with, as the source does. The theorems show that the public
  constructors keep both counts exact and within their limits, and that structural equality
  is identity of trees except on NaN literals.
\<close>

subsection \<open>Doubles\<close>

type_synonym double_bits = uint64

definition positive_zero :: double_bits where
  "positive_zero = 0"

definition negative_zero :: double_bits where
  "negative_zero = 0x8000000000000000"

definition is_nan :: "double_bits \<Rightarrow> bool" where
  "is_nan d \<longleftrightarrow> 0xFFE0000000000000 < push_bit 1 d"

definition is_zero :: "double_bits \<Rightarrow> bool" where
  "is_zero d \<longleftrightarrow> d = positive_zero \<or> d = negative_zero"

definition double_equal :: "double_bits \<Rightarrow> double_bits \<Rightarrow> bool" where
  "double_equal a b \<longleftrightarrow> \<not> is_nan a \<and> \<not> is_nan b \<and> (a = b \<or> is_zero a \<and> is_zero b)"

subsection \<open>Typed scalar values\<close>

datatype RequestedPredicateValueKind = BIGINT | VARCHAR | BOOLEAN | DOUBLE | TIMESTAMPTZ

datatype RequestedPredicateComparisonOperator = EQUALS

datatype RequestedPredicateKind =
  UNRESTRICTED | COMPARISON | CONJUNCTION | DISJUNCTION | NEGATION | UNSUPPORTED

record requested_predicate_value =
  value_kind :: RequestedPredicateValueKind
  bigint_value :: int
  varchar_value :: string
  boolean_value :: bool
  double_value :: double_bits
  timestamptz_microseconds :: int

definition IsTimestamptzMicroseconds :: "int \<Rightarrow> bool" where
  "IsTimestamptzMicroseconds v \<longleftrightarrow> - 62135596800000000 \<le> v \<and> v \<le> 253402300799999999"

definition BigInt :: "int \<Rightarrow> requested_predicate_value" where
  "BigInt v = \<lparr>value_kind = BIGINT, bigint_value = v, varchar_value = [], boolean_value = False,
     double_value = positive_zero, timestamptz_microseconds = 0\<rparr>"

definition Varchar :: "string \<Rightarrow> requested_predicate_value" where
  "Varchar v = \<lparr>value_kind = VARCHAR, bigint_value = 0, varchar_value = v, boolean_value = False,
     double_value = positive_zero, timestamptz_microseconds = 0\<rparr>"

definition Boolean :: "bool \<Rightarrow> requested_predicate_value" where
  "Boolean v = \<lparr>value_kind = BOOLEAN, bigint_value = 0, varchar_value = [], boolean_value = v,
     double_value = positive_zero, timestamptz_microseconds = 0\<rparr>"

definition Double :: "double_bits \<Rightarrow> requested_predicate_value" where
  "Double v = \<lparr>value_kind = DOUBLE, bigint_value = 0, varchar_value = [], boolean_value = False,
     double_value = (if double_equal v positive_zero then positive_zero else v),
     timestamptz_microseconds = 0\<rparr>"

definition Timestamptz :: "int \<Rightarrow> cpp_exception + requested_predicate_value" where
  "Timestamptz v =
     (if \<not> IsTimestamptzMicroseconds v
      then Inl (invalid_argument ''requested TIMESTAMPTZ predicate is outside the CUAC profile'')
      else Inr \<lparr>value_kind = TIMESTAMPTZ, bigint_value = 0, varchar_value = [], boolean_value = False,
        double_value = positive_zero, timestamptz_microseconds = v\<rparr>)"

definition BigIntValue :: "requested_predicate_value \<Rightarrow> cpp_exception + int" where
  "BigIntValue v = (if value_kind v \<noteq> BIGINT
     then Inl (logic_error ''requested predicate value is not BIGINT'') else Inr (bigint_value v))"

definition VarcharValue :: "requested_predicate_value \<Rightarrow> cpp_exception + string" where
  "VarcharValue v = (if value_kind v \<noteq> VARCHAR
     then Inl (logic_error ''requested predicate value is not VARCHAR'') else Inr (varchar_value v))"

definition BooleanValue :: "requested_predicate_value \<Rightarrow> cpp_exception + bool" where
  "BooleanValue v = (if value_kind v \<noteq> BOOLEAN
     then Inl (logic_error ''requested predicate value is not BOOLEAN'') else Inr (boolean_value v))"

definition DoubleValue :: "requested_predicate_value \<Rightarrow> cpp_exception + double_bits" where
  "DoubleValue v = (if value_kind v \<noteq> DOUBLE
     then Inl (logic_error ''requested predicate value is not DOUBLE'') else Inr (double_value v))"

definition TimestamptzMicroseconds :: "requested_predicate_value \<Rightarrow> cpp_exception + int" where
  "TimestamptzMicroseconds v = (if value_kind v \<noteq> TIMESTAMPTZ
     then Inl (logic_error ''requested predicate value is not TIMESTAMPTZ'')
     else Inr (timestamptz_microseconds v))"

definition value_equal :: "requested_predicate_value \<Rightarrow> requested_predicate_value \<Rightarrow> bool" where
  "value_equal a b \<longleftrightarrow>
     value_kind a = value_kind b \<and> bigint_value a = bigint_value b \<and>
     varchar_value a = varchar_value b \<and> boolean_value a = boolean_value b \<and>
     double_equal (double_value a) (double_value b) \<and>
     timestamptz_microseconds a = timestamptz_microseconds b"

subsection \<open>Predicate trees\<close>

definition MAX_REQUESTED_PREDICATE_DEPTH :: nat where
  "MAX_REQUESTED_PREDICATE_DEPTH = 16"

definition MAX_REQUESTED_PREDICATE_NODES :: nat where
  "MAX_REQUESTED_PREDICATE_NODES = 64"

datatype requested_predicate = RequestedPredicateNode
  (Kind: RequestedPredicateKind)
  (node_bound_column_index: nat)
  (node_bound_column_type: RequestedPredicateValueKind)
  (node_comparison_operator: RequestedPredicateComparisonOperator)
  (node_literal: requested_predicate_value)
  (node_children: "requested_predicate list")
  (node_unsupported_position: uint64)
  (Depth: nat)
  (NodeCount: nat)

definition LeafNode ::
  "RequestedPredicateKind \<Rightarrow> requested_predicate_value \<Rightarrow> uint64 \<Rightarrow> requested_predicate" where
  "LeafNode kind literal unsupported_position =
     RequestedPredicateNode kind 0 BIGINT EQUALS literal [] unsupported_position 1 1"

definition Unrestricted :: requested_predicate where
  "Unrestricted = LeafNode UNRESTRICTED (BigInt 0) 0"

definition Comparison ::
  "nat \<Rightarrow> RequestedPredicateValueKind \<Rightarrow> RequestedPredicateComparisonOperator \<Rightarrow>
   requested_predicate_value \<Rightarrow> cpp_exception + requested_predicate" where
  "Comparison bound_column_index bound_column_type comparison_operator literal =
     (if bound_column_type \<noteq> value_kind literal
      then Inl (invalid_argument ''requested predicate comparison column and literal types disagree'')
      else Inr (RequestedPredicateNode COMPARISON bound_column_index bound_column_type
                  comparison_operator literal [] 0 1 1))"

text \<open>
  The loop of \<open>BooleanNode\<close> over the children; its \<open>node_count\<close> never exceeds the limit, so the
  source's unsigned subtraction does not wrap.
\<close>

fun count_children :: "nat \<Rightarrow> nat \<Rightarrow> requested_predicate list \<Rightarrow> cpp_exception + nat \<times> nat" where
  "count_children depth node_count [] = Inr (depth, node_count)"
| "count_children depth node_count (child # rest) =
     (if NodeCount child > MAX_REQUESTED_PREDICATE_NODES - node_count
      then Inl (invalid_argument ''requested predicate exceeds its node limit'')
      else count_children (max depth (Depth child + 1)) (node_count + NodeCount child) rest)"

definition BooleanNode ::
  "RequestedPredicateKind \<Rightarrow> requested_predicate list \<Rightarrow> cpp_exception + requested_predicate" where
  "BooleanNode kind children =
     (if (kind \<noteq> CONJUNCTION \<and> kind \<noteq> DISJUNCTION) \<or> length children < 2
      then Inl (invalid_argument ''requested predicate Boolean node requires at least two children'')
      else and_then (count_children 1 1 children) (\<lambda>(depth, node_count).
        if depth > MAX_REQUESTED_PREDICATE_DEPTH \<or> node_count > MAX_REQUESTED_PREDICATE_NODES
        then Inl (invalid_argument ''requested predicate exceeds its structural limits'')
        else Inr (RequestedPredicateNode kind 0 BIGINT EQUALS (BigInt 0) children 0 depth node_count)))"

definition Conjunction :: "requested_predicate list \<Rightarrow> cpp_exception + requested_predicate" where
  "Conjunction children = BooleanNode CONJUNCTION children"

definition Disjunction :: "requested_predicate list \<Rightarrow> cpp_exception + requested_predicate" where
  "Disjunction children = BooleanNode DISJUNCTION children"

definition Negation :: "requested_predicate \<Rightarrow> cpp_exception + requested_predicate" where
  "Negation child =
     (if Depth child + 1 > MAX_REQUESTED_PREDICATE_DEPTH \<or>
         NodeCount child + 1 > MAX_REQUESTED_PREDICATE_NODES
      then Inl (invalid_argument ''requested predicate negation exceeds its structural limits'')
      else Inr (RequestedPredicateNode NEGATION 0 BIGINT EQUALS (BigInt 0) [child] 0
                  (Depth child + 1) (NodeCount child + 1)))"

definition Unsupported :: "uint64 \<Rightarrow> requested_predicate" where
  "Unsupported position = LeafNode UNSUPPORTED (BigInt 0) position"

definition require_comparison :: "requested_predicate \<Rightarrow> 'a \<Rightarrow> cpp_exception + 'a" where
  "require_comparison p v =
     (if Kind p \<noteq> COMPARISON then Inl (logic_error ''requested predicate is not a comparison'') else Inr v)"

definition BoundColumnIndex :: "requested_predicate \<Rightarrow> cpp_exception + nat" where
  "BoundColumnIndex p = require_comparison p (node_bound_column_index p)"

definition BoundColumnType :: "requested_predicate \<Rightarrow> cpp_exception + RequestedPredicateValueKind" where
  "BoundColumnType p = require_comparison p (node_bound_column_type p)"

definition ComparisonOperator ::
  "requested_predicate \<Rightarrow> cpp_exception + RequestedPredicateComparisonOperator" where
  "ComparisonOperator p = require_comparison p (node_comparison_operator p)"

definition Literal :: "requested_predicate \<Rightarrow> cpp_exception + requested_predicate_value" where
  "Literal p = require_comparison p (node_literal p)"

definition Children :: "requested_predicate \<Rightarrow> cpp_exception + requested_predicate list" where
  "Children p =
     (if Kind p \<noteq> CONJUNCTION \<and> Kind p \<noteq> DISJUNCTION \<and> Kind p \<noteq> NEGATION
      then Inl (logic_error ''requested predicate node has no children'') else Inr (node_children p))"

definition UnsupportedPosition :: "requested_predicate \<Rightarrow> cpp_exception + uint64" where
  "UnsupportedPosition p =
     (if Kind p \<noteq> UNSUPPORTED
      then Inl (logic_error ''requested predicate is not an opaque unsupported leaf'')
      else Inr (node_unsupported_position p))"

fun StructurallyEquals :: "requested_predicate \<Rightarrow> requested_predicate \<Rightarrow> bool" where
  "StructurallyEquals (RequestedPredicateNode k i t c l cs u d n)
                      (RequestedPredicateNode k' i' t' c' l' cs' u' d' n') =
     (if k \<noteq> k' \<or> d \<noteq> d' \<or> n \<noteq> n' then False
      else case k of
        UNRESTRICTED \<Rightarrow> True
      | COMPARISON \<Rightarrow> i = i' \<and> t = t' \<and> c = c' \<and> value_equal l l'
      | UNSUPPORTED \<Rightarrow> u = u'
      | _ \<Rightarrow> list_all2 StructurallyEquals cs cs')"

subsection \<open>Trees built by the public constructors\<close>

inductive built_value :: "requested_predicate_value \<Rightarrow> bool" where
  bigint: "int64_min \<le> v \<Longrightarrow> v \<le> int64_max \<Longrightarrow> built_value (BigInt v)"
| varchar: "built_value (Varchar s)"
| boolean: "built_value (Boolean b)"
| double: "built_value (Double d)"
| timestamptz: "Timestamptz v = Inr w \<Longrightarrow> built_value w"

inductive built :: "requested_predicate \<Rightarrow> bool" where
  unrestricted: "built Unrestricted"
| comparison: "built_value l \<Longrightarrow> Comparison i t c l = Inr p \<Longrightarrow> built p"
| conjunction: "(\<And>q. q \<in> set cs \<Longrightarrow> built q) \<Longrightarrow> Conjunction cs = Inr p \<Longrightarrow> built p"
| disjunction: "(\<And>q. q \<in> set cs \<Longrightarrow> built q) \<Longrightarrow> Disjunction cs = Inr p \<Longrightarrow> built p"
| negation: "built q \<Longrightarrow> Negation q = Inr p \<Longrightarrow> built p"
| unsupported: "built (Unsupported u)"

text \<open>The reference counts: height and number of nodes of the tree as it is.\<close>

fun tree_height :: "requested_predicate \<Rightarrow> nat" where
  "tree_height (RequestedPredicateNode k i t c l cs u d n) = Suc (Max (insert 0 (set (map tree_height cs))))"

fun tree_size :: "requested_predicate \<Rightarrow> nat" where
  "tree_size (RequestedPredicateNode k i t c l cs u d n) = Suc (sum_list (map tree_size cs))"

fun literals :: "requested_predicate \<Rightarrow> requested_predicate_value list" where
  "literals (RequestedPredicateNode k i t c l cs u d n) =
     (if k = COMPARISON then [l] else concat (map literals cs))"

text \<open>The node shape the constructors produce.\<close>

fun well_shaped :: "requested_predicate \<Rightarrow> bool" where
  "well_shaped (RequestedPredicateNode k i t c l cs u d n) \<longleftrightarrow>
     (case k of
        COMPARISON \<Rightarrow> built_value l \<and> t = value_kind l \<and> cs = [] \<and> u = 0
      | UNSUPPORTED \<Rightarrow> i = 0 \<and> t = BIGINT \<and> l = BigInt 0 \<and> cs = []
      | UNRESTRICTED \<Rightarrow> i = 0 \<and> t = BIGINT \<and> l = BigInt 0 \<and> cs = [] \<and> u = 0
      | NEGATION \<Rightarrow> i = 0 \<and> t = BIGINT \<and> l = BigInt 0 \<and> u = 0 \<and> length cs = 1
      | _ \<Rightarrow> i = 0 \<and> t = BIGINT \<and> l = BigInt 0 \<and> u = 0 \<and> 2 \<le> length cs) \<and>
     list_all well_shaped cs"

lemmas predicate_constructor_defs =
  Unrestricted_def Comparison_def Conjunction_def Disjunction_def BooleanNode_def Negation_def
  Unsupported_def LeafNode_def

lemma count_children_spec:
  "n \<le> MAX_REQUESTED_PREDICATE_NODES \<Longrightarrow>
   count_children d n cs = Inr (d', n') \<longleftrightarrow>
     n' = n + sum_list (map NodeCount cs) \<and> n' \<le> MAX_REQUESTED_PREDICATE_NODES \<and>
     d' = fold max (map (\<lambda>c. Depth c + 1) cs) d"
  by (induction cs arbitrary: d n) (auto simp: max.commute)

lemma fold_max: "fold max xs (d::nat) = Max (insert d (set xs))"
  by (metis Max.set_eq_fold list.simps(15))

lemma BooleanNode_ok:
  "BooleanNode k cs = Inr p \<longleftrightarrow>
     (k = CONJUNCTION \<or> k = DISJUNCTION) \<and> 2 \<le> length cs \<and>
     1 + sum_list (map NodeCount cs) \<le> MAX_REQUESTED_PREDICATE_NODES \<and>
     Max (insert 1 ((\<lambda>c. Depth c + 1) ` set cs)) \<le> MAX_REQUESTED_PREDICATE_DEPTH \<and>
     p = RequestedPredicateNode k 0 BIGINT EQUALS (BigInt 0) cs 0
           (Max (insert 1 ((\<lambda>c. Depth c + 1) ` set cs))) (1 + sum_list (map NodeCount cs))"
proof -
  define D where "D = Max (insert 1 ((\<lambda>c. Depth c + 1) ` set cs))"
  have "count_children 1 1 cs = Inr (d, n) \<longleftrightarrow>
      n = 1 + sum_list (map NodeCount cs) \<and> n \<le> MAX_REQUESTED_PREDICATE_NODES \<and> d = D" for d n
    by (subst count_children_spec) (auto simp: MAX_REQUESTED_PREDICATE_NODES_def fold_max D_def)
  then show ?thesis
    unfolding BooleanNode_def D_def [symmetric]
    by (auto simp: and_then_Inr_iff split: if_splits)
qed

lemma Max_Suc_image:
  "finite A \<Longrightarrow> Max (insert (Suc 0) (Suc ` A)) = Suc (Max (insert 0 A))"
proof -
  assume "finite A"
  then have "Max (Suc ` insert 0 A) = Suc (Max (insert 0 A))"
    by (intro mono_Max_commute [symmetric]) (auto simp: mono_Suc)
  then show ?thesis by simp
qed

definition exact_counts :: "requested_predicate \<Rightarrow> bool" where
  "exact_counts p \<longleftrightarrow> Depth p = tree_height p \<and> NodeCount p = tree_size p \<and>
     Depth p \<le> MAX_REQUESTED_PREDICATE_DEPTH \<and> NodeCount p \<le> MAX_REQUESTED_PREDICATE_NODES"

lemma BooleanNode_counts:
  assumes "\<And>q. q \<in> set cs \<Longrightarrow> exact_counts q" and "BooleanNode k cs = Inr p"
  shows "exact_counts p"
proof -
  have "map NodeCount cs = map tree_size cs"
    using assms(1) by (simp add: exact_counts_def)
  then have size: "sum_list (map NodeCount cs) = sum_list (map tree_size cs)"
    by (rule arg_cong)
  have "(\<lambda>c. Depth c + 1) ` set cs = Suc ` tree_height ` set cs"
    using assms(1) by (auto simp: exact_counts_def image_image)
  then have height: "Max (insert 1 ((\<lambda>c. Depth c + 1) ` set cs)) = Suc (Max (insert 0 (tree_height ` set cs)))"
    by (simp add: Max_Suc_image del: Max_insert)
  from assms(2) have p: "p = RequestedPredicateNode k 0 BIGINT EQUALS (BigInt 0) cs 0
      (Suc (Max (insert 0 (tree_height ` set cs)))) (Suc (sum_list (map tree_size cs)))"
    and "Suc (sum_list (map tree_size cs)) \<le> MAX_REQUESTED_PREDICATE_NODES"
    and "Suc (Max (insert 0 (tree_height ` set cs))) \<le> MAX_REQUESTED_PREDICATE_DEPTH"
    unfolding BooleanNode_ok height size by simp_all
  then show ?thesis by (simp add: exact_counts_def)
qed

lemma built_counts: "built p \<Longrightarrow> exact_counts p"
proof (induction rule: built.induct)
  case (conjunction cs p)
  then show ?case by (auto simp: Conjunction_def intro: BooleanNode_counts)
next
  case (disjunction cs p)
  then show ?case by (auto simp: Disjunction_def intro: BooleanNode_counts)
qed (auto simp: predicate_constructor_defs exact_counts_def MAX_REQUESTED_PREDICATE_DEPTH_def
      MAX_REQUESTED_PREDICATE_NODES_def split: if_splits)

lemma built_well_shaped: "built p \<Longrightarrow> well_shaped p"
proof (induction rule: built.induct)
  case (conjunction cs p)
  then show ?case by (auto simp: Conjunction_def BooleanNode_ok list_all_iff)
next
  case (disjunction cs p)
  then show ?case by (auto simp: Disjunction_def BooleanNode_ok list_all_iff)
qed (auto simp: predicate_constructor_defs split: if_splits)

subsection \<open>Structural equality\<close>

lemma zero_not_nan: "\<not> is_nan 0"
  by (simp add: is_nan_def)

lemma built_double_canonical: "built_value v \<Longrightarrow> is_zero (double_value v) \<Longrightarrow> double_value v = positive_zero"
proof (induction rule: built_value.induct)
  case (double d)
  then show ?case
    by (auto simp: Double_def double_equal_def is_zero_def positive_zero_def negative_zero_def is_nan_def
        split: if_splits)
qed (auto simp: BigInt_def Varchar_def Boolean_def Timestamptz_def split: if_splits)

lemma value_equal_iff:
  assumes "built_value a" "built_value b"
  shows "value_equal a b \<longleftrightarrow> a = b \<and> \<not> is_nan (double_value a)"
proof -
  have "double_equal (double_value a) (double_value b) \<longleftrightarrow>
        double_value a = double_value b \<and> \<not> is_nan (double_value a)"
    using built_double_canonical [OF assms(1)] built_double_canonical [OF assms(2)]
    by (auto simp: double_equal_def)
  then show ?thesis by (auto simp: value_equal_def)
qed

definition nan_free :: "requested_predicate \<Rightarrow> bool" where
  "nan_free p \<longleftrightarrow> (\<forall>l\<in>set (literals p). \<not> is_nan (double_value l))"

lemma nan_free_node:
  "nan_free (RequestedPredicateNode k i t c l cs u d n) \<longleftrightarrow>
     (if k = COMPARISON then \<not> is_nan (double_value l) else \<forall>q\<in>set cs. nan_free q)"
  by (auto simp: nan_free_def)

lemma list_all2_eq_iff:
  assumes "\<And>x y. x \<in> set xs \<Longrightarrow> y \<in> set ys \<Longrightarrow> P x y \<longleftrightarrow> x = y \<and> Q x"
  shows "list_all2 P xs ys \<longleftrightarrow> xs = ys \<and> (\<forall>x\<in>set xs. Q x)"
  using assms by (induction xs arbitrary: ys) (auto simp: list_all2_Cons1)

lemma StructurallyEquals_iff:
  "well_shaped p \<Longrightarrow> well_shaped q \<Longrightarrow> StructurallyEquals p q \<longleftrightarrow> p = q \<and> nan_free p"
proof (induction p q rule: StructurallyEquals.induct)
  case (1 k i t c l cs u d n k' i' t' c' l' cs' u' d' n')
  show ?case
  proof (cases "k = k' \<and> d = d' \<and> n = n'")
    case False
    then show ?thesis by auto
  next
    case eq: True
    have ops: "c = c'" by (cases c; cases c') simp
    have kids: "list_all2 StructurallyEquals cs cs' \<longleftrightarrow> cs = cs' \<and> (\<forall>x\<in>set cs. nan_free x)"
      if "k = CONJUNCTION \<or> k = DISJUNCTION \<or> k = NEGATION"
    proof (rule list_all2_eq_iff)
      fix x y assume "x \<in> set cs" "y \<in> set cs'"
      then show "StructurallyEquals x y \<longleftrightarrow> x = y \<and> nan_free x"
        using "1.IH" [of x y] "1.prems" eq that by (auto simp: list_all_iff)
    qed
    show ?thesis
      using "1.prems" eq ops kids
      by (cases k) (auto simp: nan_free_node value_equal_iff)
  qed
qed

text \<open>
  Every requested predicate built through the public constructors carries its exact height and
  its exact number of nodes, at most 16 and at most 64.
\<close>

theorem built_predicate_bounded:
  assumes "built p"
  shows "Depth p = tree_height p \<and> NodeCount p = tree_size p \<and> tree_height p \<le> 16 \<and> tree_size p \<le> 64"
  using built_counts [OF assms]
  by (simp add: exact_counts_def MAX_REQUESTED_PREDICATE_DEPTH_def MAX_REQUESTED_PREDICATE_NODES_def)

theorem built_predicate_bounded_witness:
  "\<exists>p. Conjunction [Unsupported 1, Unrestricted] = Inr p \<and> NodeCount p = tree_size p \<and> tree_size p = 3"
proof -
  obtain p where p: "Conjunction [Unsupported 1, Unrestricted] = Inr p" and n: "NodeCount p = 3"
    by (simp add: predicate_constructor_defs MAX_REQUESTED_PREDICATE_NODES_def MAX_REQUESTED_PREDICATE_DEPTH_def)
  have "built p"
    by (rule built.conjunction [OF _ p]) (auto simp: built.unrestricted built.unsupported)
  from built_predicate_bounded [OF this] p n show ?thesis by auto
qed

text \<open>
  A conjunction or disjunction of built predicates is refused exactly when it has fewer than two
  children, more than 64 nodes in all or a height above 16; otherwise the children are kept in order.
\<close>

theorem boolean_node_accepts:
  assumes "\<forall>q\<in>set cs. built q" and "k = CONJUNCTION \<or> k = DISJUNCTION"
  shows "(case BooleanNode k cs of
            Inr p \<Rightarrow> Kind p = k \<and> node_children p = cs \<and> built p
          | Inl e \<Rightarrow> length cs < 2 \<or> 64 \<le> sum_list (map tree_size cs) \<or> (\<exists>q\<in>set cs. 16 \<le> tree_height q))
         \<and> ((\<exists>p. BooleanNode k cs = Inr p) \<longleftrightarrow>
            2 \<le> length cs \<and> sum_list (map tree_size cs) < 64 \<and> (\<forall>q\<in>set cs. tree_height q < 16))"
proof -
  have sizes: "map NodeCount cs = map tree_size cs"
    using assms(1) built_counts by (auto simp: exact_counts_def)
  have heights: "\<And>q. q \<in> set cs \<Longrightarrow> Depth q = tree_height q"
    using assms(1) built_counts by (auto simp: exact_counts_def)
  have iff: "(\<exists>p. BooleanNode k cs = Inr p) \<longleftrightarrow>
      2 \<le> length cs \<and> sum_list (map tree_size cs) < 64 \<and> (\<forall>q\<in>set cs. tree_height q < 16)"
    using assms(2) heights
    by (auto simp: BooleanNode_ok sizes MAX_REQUESTED_PREDICATE_DEPTH_def
        MAX_REQUESTED_PREDICATE_NODES_def Suc_le_eq)
  have ok: "Kind p = k \<and> node_children p = cs \<and> built p" if "BooleanNode k cs = Inr p" for p
    using that assms built.conjunction [of cs p] built.disjunction [of cs p]
    by (auto simp: Conjunction_def Disjunction_def BooleanNode_ok)
  show ?thesis
  proof (cases "BooleanNode k cs")
    case (Inl e)
    then have "\<not> (\<exists>p. BooleanNode k cs = Inr p)" by simp
    with iff have "length cs < 2 \<or> 64 \<le> sum_list (map tree_size cs) \<or> (\<exists>q\<in>set cs. 16 \<le> tree_height q)"
      by (meson not_less)
    with iff Inl show ?thesis by simp
  next
    case (Inr p)
    with ok iff show ?thesis by simp
  qed
qed

theorem boolean_node_accepts_witness:
  "(\<exists>p. BooleanNode CONJUNCTION [Unrestricted, Unsupported 7] = Inr p) \<and>
   \<not> (\<exists>p. BooleanNode DISJUNCTION [Unrestricted] = Inr p)"
  using boolean_node_accepts [of "[Unrestricted, Unsupported 7]" CONJUNCTION]
    boolean_node_accepts [of "[Unrestricted]" DISJUNCTION]
  by (simp add: built.unrestricted built.unsupported)
     (simp add: predicate_constructor_defs)

text \<open>
  Structural equality of built predicates is equality of the trees, except that a tree with a NaN
  literal equals nothing, itself included: equal predicates are interchangeable, the zero
  normalisation of the constructor closing the gap that the two zeros would open.
\<close>

theorem structural_equality_is_identity:
  assumes "built p" and "built q"
  shows "StructurallyEquals p q \<longleftrightarrow> p = q \<and> nan_free p"
  by (rule StructurallyEquals_iff) (simp_all add: built_well_shaped assms)

theorem structural_equality_is_identity_witness:
  "StructurallyEquals (Unsupported 3) (Unsupported 3) \<and> \<not> StructurallyEquals (Unsupported 3) (Unsupported 4)"
  using structural_equality_is_identity [of "Unsupported 3" "Unsupported 3"]
    structural_equality_is_identity [of "Unsupported 3" "Unsupported 4"]
  by (auto simp: built.unsupported nan_free_def Unsupported_def LeafNode_def BigInt_def
      positive_zero_def zero_not_nan)

end
