(* ===== verification/Predicate_Classifier.thy ===== *)
theory Predicate_Classifier
  imports Requested_Predicate "HOL-Library.List_Lexorder" "HOL-Library.Char_ord"
begin

section \<open>The predicate classifier\<close>

text \<open>
  \<open>src/semantics/predicate/predicate_classifier.cpp\<close>: matching of the requested predicate against the
  typed equality mappings a package declares, the classification into a remote restriction, and the
  candidate input bindings used by operation selection. The compiled catalogue is modelled as far as
  the classifier reads it (\<open>src/connector/model/catalog_model.cpp\<close>,
  \<open>src/connector/model/predicate_declaration.cpp\<close>). A thrown \<open>PlanningError\<close> is \<open>Inl\<close>; an
  unchecked vector read past its end is the separate error \<open>UndefinedRead\<close>, so that its
  absence can be proved. The meaning of a decision is in theory \<open>Predicate_Pushdown\<close>.
\<close>

datatype planning_error = INVALID_CONTRACT string | UndefinedRead

subsection \<open>Compiled scalar values, columns and mappings\<close>

datatype CompiledScalarType =
  SCALAR_BOOLEAN | SCALAR_BIGINT | SCALAR_VARCHAR | SCALAR_DOUBLE | SCALAR_TIMESTAMPTZ

record compiled_scalar_value =
  scalar_type :: CompiledScalarType
  scalar_is_null :: bool
  scalar_boolean :: bool
  scalar_bigint :: int
  scalar_varchar :: string
  scalar_double :: double_bits
  scalar_timestamptz :: int

definition new_CompiledScalarValue ::
  "CompiledScalarType \<Rightarrow> bool \<Rightarrow> bool \<Rightarrow> int \<Rightarrow> string \<Rightarrow> double_bits \<Rightarrow> int \<Rightarrow>
   cpp_exception + compiled_scalar_value" where
  "new_CompiledScalarValue ty is_null boolean bigint varchar double timestamptz =
     (let v = \<lparr>scalar_type = ty, scalar_is_null = is_null, scalar_boolean = boolean,
               scalar_bigint = bigint, scalar_varchar = varchar, scalar_double = double,
               scalar_timestamptz = timestamptz\<rparr>
      in if is_null then
           (if boolean \<or> bigint \<noteq> 0 \<or> varchar \<noteq> [] \<or> \<not> double_equal double positive_zero \<or> timestamptz \<noteq> 0
            then Inl (invalid_argument ''compiled NULL scalar contains a concrete payload'') else Inr v)
         else if (ty \<noteq> SCALAR_BOOLEAN \<and> boolean) \<or> (ty \<noteq> SCALAR_BIGINT \<and> bigint \<noteq> 0) \<or>
                 (ty \<noteq> SCALAR_VARCHAR \<and> varchar \<noteq> []) \<or>
                 (ty \<noteq> SCALAR_DOUBLE \<and> \<not> double_equal double positive_zero) \<or>
                 (ty \<noteq> SCALAR_TIMESTAMPTZ \<and> timestamptz \<noteq> 0)
         then Inl (invalid_argument ''compiled scalar contains a payload for another type'')
         else if ty = SCALAR_TIMESTAMPTZ \<and> \<not> IsTimestamptzMicroseconds timestamptz
         then Inl (invalid_argument ''compiled TIMESTAMPTZ is outside the CUAC profile'')
         else Inr v)"

datatype CompiledColumnShape = SCALAR | ARRAY

record compiled_column =
  column_name :: string
  column_shape :: CompiledColumnShape
  element_type :: CompiledScalarType

datatype CompiledPredicateOperator = PREDICATE_EQUALS
datatype CompiledPredicateLiteral = PACKAGE_TYPED_LITERAL
datatype CompiledPredicateInputPlacement = REST_QUERY_PARAMETER
datatype CompiledPredicateAccuracy = MAPPING_EXACT | MAPPING_SUPERSET
datatype CompiledPredicateProofIdentity = PACKAGE_DECLARED_V1
datatype CompiledPredicateBaseDomain = PACKAGE_DECLARED_OCCURRENCE_DOMAIN
datatype CompiledPredicateOccurrencePreservation =
  PRESERVES_ALL_MATCHING_BASE_OCCURRENCES | PRESERVES_EXACT_MATCHING_BASE_OCCURRENCES
datatype CompiledPredicateEncodingCapability = SINGLE_POSITIVE_REST_QUERY_INPUT

record compiled_predicate_mapping =
  mapping_name :: string
  mapping_column_name :: string
  predicate_operator :: CompiledPredicateOperator
  mapping_literal :: CompiledPredicateLiteral
  operation_name :: string
  input_placement :: CompiledPredicateInputPlacement
  remote_input_name :: string
  encoded_remote_value :: string
  mapping_accuracy :: CompiledPredicateAccuracy
  mapping_proof_identity :: CompiledPredicateProofIdentity
  base_domain :: CompiledPredicateBaseDomain
  occurrence_preservation :: CompiledPredicateOccurrencePreservation
  encoding_capability :: CompiledPredicateEncodingCapability
  typed_literal :: compiled_scalar_value
  proof_identity_value :: string
  base_domain_value :: string
  matching_fixture :: string
  false_or_null_fixture :: string
  duplicates_fixture :: string

definition MaximumConditionalInputs :: "compiled_predicate_mapping \<Rightarrow> nat" where
  "MaximumConditionalInputs m = (case encoding_capability m of SINGLE_POSITIVE_REST_QUERY_INPUT \<Rightarrow> 1)"

definition SupportsCompoundConjunctionEncoding :: "compiled_predicate_mapping \<Rightarrow> bool" where
  "SupportsCompoundConjunctionEncoding m = False"

definition SupportsDisjunctionEncoding :: "compiled_predicate_mapping \<Rightarrow> bool" where
  "SupportsDisjunctionEncoding m = False"

definition SupportsComplementEncoding :: "compiled_predicate_mapping \<Rightarrow> bool" where
  "SupportsComplementEncoding m = False"

definition IsAsciiLower :: "char \<Rightarrow> bool" where
  "IsAsciiLower c \<longleftrightarrow> in_range CHR ''a'' CHR ''z'' c"

definition IsIdentifier :: "string \<Rightarrow> bool" where
  "IsIdentifier v \<longleftrightarrow> v \<noteq> [] \<and> IsAsciiLower (hd v) \<and>
     list_all (\<lambda>c. IsAsciiLower c \<or> IsAsciiDigit c \<or> c = CHR ''_'') v"

definition IsSafeEncodedScalar :: "string \<Rightarrow> bool" where
  "IsSafeEncodedScalar v \<longleftrightarrow>
     list_all (\<lambda>c. c \<notin> {CHR ''&'', CHR ''='', CHR ''?'', CHR ''#'', CHR 0x0D, CHR 0x0A}) v"

text \<open>The package constructor of \<open>CompiledPredicateMapping\<close>.\<close>

definition new_CompiledPredicateMapping ::
  "string \<Rightarrow> string \<Rightarrow> compiled_scalar_value \<Rightarrow> string \<Rightarrow> string \<Rightarrow> string \<Rightarrow> CompiledPredicateAccuracy \<Rightarrow>
   string \<Rightarrow> string \<Rightarrow> string \<Rightarrow> string \<Rightarrow> string \<Rightarrow> cpp_exception + compiled_predicate_mapping" where
  "new_CompiledPredicateMapping name column literal operation remote_input encoded accuracy
      proof_identity domain matching false_or_null duplicates =
     (if \<not> IsIdentifier name \<or> \<not> IsIdentifier column \<or> \<not> IsIdentifier operation \<or>
         \<not> IsIdentifier remote_input \<or> \<not> IsIdentifier matching \<or> \<not> IsIdentifier false_or_null \<or>
         \<not> IsIdentifier duplicates \<or> \<not> IsSafeEncodedScalar encoded \<or>
         proof_identity = [] \<or> domain = [] \<or> scalar_is_null literal
      then Inl (invalid_argument ''compiled package predicate contains an invalid structural fact'')
      else Inr \<lparr>mapping_name = name, mapping_column_name = column, predicate_operator = PREDICATE_EQUALS,
        mapping_literal = PACKAGE_TYPED_LITERAL, operation_name = operation,
        input_placement = REST_QUERY_PARAMETER, remote_input_name = remote_input,
        encoded_remote_value = encoded, mapping_accuracy = accuracy,
        mapping_proof_identity = PACKAGE_DECLARED_V1, base_domain = PACKAGE_DECLARED_OCCURRENCE_DOMAIN,
        occurrence_preservation = (if accuracy = MAPPING_EXACT
          then PRESERVES_EXACT_MATCHING_BASE_OCCURRENCES else PRESERVES_ALL_MATCHING_BASE_OCCURRENCES),
        encoding_capability = SINGLE_POSITIVE_REST_QUERY_INPUT, typed_literal = literal,
        proof_identity_value = proof_identity, base_domain_value = domain, matching_fixture = matching,
        false_or_null_fixture = false_or_null, duplicates_fixture = duplicates\<rparr>)"

record compiled_relation =
  relation_columns :: "compiled_column list"
  predicate_mappings :: "compiled_predicate_mapping list"

text \<open>Of an operation the classifier reads only the name.\<close>

type_synonym compiled_operation_name = string

subsection \<open>The request and the decision\<close>

datatype RetainedPredicateScope = SCOPE_UNRESTRICTED | REQUESTED_PREDICATE | SCOPE_COMPLETE_DUCKDB_FILTER

record scan_request =
  requested_pred :: requested_predicate
  retained_predicate_scope :: RetainedPredicateScope
  selective_predicate :: bool
  retains_predicate :: bool

datatype PlannedRestScalarKind = REST_BOOLEAN | REST_BIGINT | REST_VARCHAR | REST_DOUBLE | REST_TIMESTAMPTZ
datatype PlannedPredicate = TRUE_FOR_BASE_DOMAIN | TYPED_EQUALITY | COMPLETE_DUCKDB_FILTER
datatype RemotePredicateAccuracy = ACCURACY_UNSUPPORTED | ACCURACY_SUPERSET | ACCURACY_EXACT
datatype PredicateDecisionCategory =
  CATEGORY_EXACT | CATEGORY_SUPERSET | CATEGORY_UNSUPPORTED | CATEGORY_AMBIGUOUS
datatype PredicateDecisionReason =
  NO_REMOTE_CANDIDATE | SELECTED_EXACT_MAPPING | SELECTED_SUPERSET_MAPPING | STRUCTURE_UNSUPPORTED |
  CAPABILITY_UNAVAILABLE | MAPPING_UNAVAILABLE | DISJUNCTION_ENCODING_UNAVAILABLE |
  COMPLEMENT_ENCODING_UNAVAILABLE | AMBIGUOUS_CONDITIONAL_INPUT
datatype PlannedConditionalInput = NO_CONDITIONAL_INPUT | REST_QUERY_BINDING
datatype PlannedOccurrencePreservation =
  PLANNED_PRESERVES_EXACT_MATCHING | PLANNED_PRESERVES_ALL_MATCHING
datatype RelationalOwner = DUCKDB

record typed_equality_decision =
  te_present :: bool
  te_column_name :: string
  te_kind :: PlannedRestScalarKind
  te_boolean_value :: bool
  te_bigint_value :: int
  te_varchar_value :: string
  te_double_value :: double_bits
  te_timestamptz_microseconds :: int
  te_conditional_input_id :: string
  te_proof_identity :: string
  te_base_domain_identity :: string
  te_occurrence_preservation :: PlannedOccurrencePreservation

record predicate_plan_decision =
  remote_predicate :: PlannedPredicate
  remote_accuracy :: RemotePredicateAccuracy
  residual_predicate :: PlannedPredicate
  residual_owner :: RelationalOwner
  conditional_input :: PlannedConditionalInput
  typed_equality :: typed_equality_decision
  decision_category :: PredicateDecisionCategory
  reason_code :: PredicateDecisionReason
  reason_text :: string

subsection \<open>Planning a typed equality\<close>

definition NoTypedEquality :: typed_equality_decision where
  "NoTypedEquality = \<lparr>te_present = False, te_column_name = [], te_kind = REST_VARCHAR,
     te_boolean_value = False, te_bigint_value = 0, te_varchar_value = [], te_double_value = positive_zero,
     te_timestamptz_microseconds = 0, te_conditional_input_id = [], te_proof_identity = [],
     te_base_domain_identity = [], te_occurrence_preservation = PLANNED_PRESERVES_ALL_MATCHING\<rparr>"

definition PlanScalarKind :: "CompiledScalarType \<Rightarrow> PlannedRestScalarKind" where
  "PlanScalarKind kind = (case kind of
     SCALAR_BOOLEAN \<Rightarrow> REST_BOOLEAN | SCALAR_BIGINT \<Rightarrow> REST_BIGINT | SCALAR_VARCHAR \<Rightarrow> REST_VARCHAR
   | SCALAR_DOUBLE \<Rightarrow> REST_DOUBLE | SCALAR_TIMESTAMPTZ \<Rightarrow> REST_TIMESTAMPTZ)"

definition PlanOccurrencePreservation ::
  "CompiledPredicateOccurrencePreservation \<Rightarrow> PlannedOccurrencePreservation" where
  "PlanOccurrencePreservation p = (case p of
     PRESERVES_EXACT_MATCHING_BASE_OCCURRENCES \<Rightarrow> PLANNED_PRESERVES_EXACT_MATCHING
   | PRESERVES_ALL_MATCHING_BASE_OCCURRENCES \<Rightarrow> PLANNED_PRESERVES_ALL_MATCHING)"

text \<open>
  The accessors of \<open>CompiledScalarValue\<close> throw on a NULL or on another type; \<open>PlanTypedEquality\<close>
  reads the payload of the literal's own type after excluding NULL, where they return the member.
\<close>

definition PlanTypedEquality :: "compiled_predicate_mapping \<Rightarrow> typed_equality_decision" where
  "PlanTypedEquality m =
     (if mapping_literal m \<noteq> PACKAGE_TYPED_LITERAL \<or> scalar_is_null (typed_literal m) then NoTypedEquality
      else let l = typed_literal m in
        \<lparr>te_present = True, te_column_name = mapping_column_name m, te_kind = PlanScalarKind (scalar_type l),
         te_boolean_value = (if scalar_type l = SCALAR_BOOLEAN then scalar_boolean l else False),
         te_bigint_value = (if scalar_type l = SCALAR_BIGINT then scalar_bigint l else 0),
         te_varchar_value = (if scalar_type l = SCALAR_VARCHAR then scalar_varchar l else []),
         te_double_value = (if scalar_type l = SCALAR_DOUBLE then scalar_double l else positive_zero),
         te_timestamptz_microseconds = (if scalar_type l = SCALAR_TIMESTAMPTZ then scalar_timestamptz l else 0),
         te_conditional_input_id = remote_input_name m, te_proof_identity = proof_identity_value m,
         te_base_domain_identity = base_domain_value m,
         te_occurrence_preservation = PlanOccurrencePreservation (occurrence_preservation m)\<rparr>)"

definition ReasonText :: "PredicateDecisionReason \<Rightarrow> string" where
  "ReasonText reason = (case reason of
     NO_REMOTE_CANDIDATE \<Rightarrow>
       ''no structured remote candidate was offered; the complete base-domain traversal remains authoritative''
   | SELECTED_EXACT_MAPPING \<Rightarrow>
       ''validated three-valued equivalence, exact occurrence preservation, and one executable input establish an Exact remote restriction; DuckDB retains semantic ownership''
   | SELECTED_SUPERSET_MAPPING \<Rightarrow>
       ''validated implication, required occurrence preservation, and one executable input establish a Superset remote restriction; DuckDB retains semantic ownership''
   | STRUCTURE_UNSUPPORTED \<Rightarrow>
       ''the offered predicate structure has no complete executable remote proof; remote TRUE preserves the base domain and DuckDB remains authoritative''
   | CAPABILITY_UNAVAILABLE \<Rightarrow>
       ''structured inspection or DuckDB residual-retention capability is unavailable; remote TRUE preserves correctness''
   | MAPPING_UNAVAILABLE \<Rightarrow>
       ''no validated mapping matches the typed candidate on the selected operation; remote TRUE preserves correctness''
   | DISJUNCTION_ENCODING_UNAVAILABLE \<Rightarrow>
       ''the selected operation declares no occurrence-preserving disjunction encoding; remote TRUE preserves every branch''
   | COMPLEMENT_ENCODING_UNAVAILABLE \<Rightarrow>
       ''the selected operation declares no three-valued complement encoding; remote TRUE avoids unsafe negation''
   | AMBIGUOUS_CONDITIONAL_INPUT \<Rightarrow>
       ''multiple safe candidate occurrences require an undeclared compound input encoding; the unrestricted plan avoids an arbitrary choice'')"

subsection \<open>Matching one mapping\<close>

definition IsKnownBaseDomain :: "CompiledPredicateBaseDomain \<Rightarrow> bool" where
  "IsKnownBaseDomain d \<longleftrightarrow> d = PACKAGE_DECLARED_OCCURRENCE_DOMAIN"

definition ValidateMappingFacts ::
  "compiled_operation_name \<Rightarrow> compiled_predicate_mapping \<Rightarrow> planning_error + unit" where
  "ValidateMappingFacts operation m =
     (if operation_name m \<noteq> operation \<or> \<not> IsKnownBaseDomain (base_domain m) \<or>
         encoding_capability m \<noteq> SINGLE_POSITIVE_REST_QUERY_INPUT \<or>
         MaximumConditionalInputs m \<noteq> 1 \<or> SupportsCompoundConjunctionEncoding m \<or>
         SupportsDisjunctionEncoding m \<or> SupportsComplementEncoding m \<or>
         input_placement m \<noteq> REST_QUERY_PARAMETER \<or> remote_input_name m = []
      then Inl (INVALID_CONTRACT ''selected predicate mapping contains inconsistent operation or encoding facts'')
      else
        let exact = (mapping_accuracy m = MAPPING_EXACT);
            superset = (mapping_accuracy m = MAPPING_SUPERSET);
            expected_occurrences = (if exact then PRESERVES_EXACT_MATCHING_BASE_OCCURRENCES
                                    else PRESERVES_ALL_MATCHING_BASE_OCCURRENCES)
        in if (\<not> exact \<and> \<not> superset) \<or> mapping_literal m \<noteq> PACKAGE_TYPED_LITERAL \<or>
              scalar_is_null (typed_literal m) \<or> mapping_proof_identity m \<noteq> PACKAGE_DECLARED_V1 \<or>
              proof_identity_value m = [] \<or> base_domain m \<noteq> PACKAGE_DECLARED_OCCURRENCE_DOMAIN \<or>
              base_domain_value m = [] \<or> matching_fixture m = [] \<or> false_or_null_fixture m = [] \<or>
              duplicates_fixture m = [] \<or> occurrence_preservation m \<noteq> expected_occurrences
           then Inl (INVALID_CONTRACT ''package predicate mapping lacks its typed occurrence proof'')
           else Inr ())"

definition ColumnTypeMatches :: "CompiledScalarType \<Rightarrow> RequestedPredicateValueKind \<Rightarrow> bool" where
  "ColumnTypeMatches ty kind = (case kind of
     BIGINT \<Rightarrow> ty = SCALAR_BIGINT | VARCHAR \<Rightarrow> ty = SCALAR_VARCHAR | BOOLEAN \<Rightarrow> ty = SCALAR_BOOLEAN
   | DOUBLE \<Rightarrow> ty = SCALAR_DOUBLE | TIMESTAMPTZ \<Rightarrow> ty = SCALAR_TIMESTAMPTZ)"

definition TypedLiteralMatches :: "compiled_scalar_value \<Rightarrow> requested_predicate_value \<Rightarrow> bool" where
  "TypedLiteralMatches c r \<longleftrightarrow>
     (if scalar_is_null c then False
      else case value_kind r of
        BOOLEAN \<Rightarrow> scalar_type c = SCALAR_BOOLEAN \<and> scalar_boolean c = boolean_value r
      | BIGINT \<Rightarrow> scalar_type c = SCALAR_BIGINT \<and> scalar_bigint c = bigint_value r
      | VARCHAR \<Rightarrow> scalar_type c = SCALAR_VARCHAR \<and> scalar_varchar c = varchar_value r
      | DOUBLE \<Rightarrow> scalar_type c = SCALAR_DOUBLE \<and> double_equal (scalar_double c) (double_value r)
      | TIMESTAMPTZ \<Rightarrow> scalar_type c = SCALAR_TIMESTAMPTZ \<and>
                       scalar_timestamptz c = timestamptz_microseconds r)"

definition SameTypedLiteral :: "compiled_scalar_value \<Rightarrow> compiled_scalar_value \<Rightarrow> bool" where
  "SameTypedLiteral l r \<longleftrightarrow>
     (if scalar_type l \<noteq> scalar_type r \<or> scalar_is_null l \<noteq> scalar_is_null r then False
      else if scalar_is_null l then True
      else case scalar_type l of
        SCALAR_BOOLEAN \<Rightarrow> scalar_boolean l = scalar_boolean r
      | SCALAR_BIGINT \<Rightarrow> scalar_bigint l = scalar_bigint r
      | SCALAR_VARCHAR \<Rightarrow> scalar_varchar l = scalar_varchar r
      | SCALAR_DOUBLE \<Rightarrow> double_equal (scalar_double l) (scalar_double r)
      | SCALAR_TIMESTAMPTZ \<Rightarrow> scalar_timestamptz l = scalar_timestamptz r)"

definition MappingMatches ::
  "compiled_relation \<Rightarrow> compiled_operation_name \<Rightarrow> compiled_predicate_mapping \<Rightarrow> requested_predicate \<Rightarrow>
   planning_error + bool" where
  "MappingMatches relation operation m candidate =
     (if Kind candidate \<noteq> COMPARISON \<or> operation_name m \<noteq> operation then Inr False
      else if length (relation_columns relation) \<le> node_bound_column_index candidate then Inl UndefinedRead
      else
        let column = relation_columns relation ! node_bound_column_index candidate in
        if column_shape column \<noteq> SCALAR \<or> column_name column \<noteq> mapping_column_name m \<or>
           \<not> ColumnTypeMatches (element_type column) (node_bound_column_type candidate) \<or>
           node_comparison_operator candidate \<noteq> EQUALS \<or> predicate_operator m \<noteq> PREDICATE_EQUALS
        then Inr False
        else if mapping_literal m \<noteq> PACKAGE_TYPED_LITERAL \<or>
                \<not> TypedLiteralMatches (typed_literal m) (node_literal candidate)
        then Inr False
        else and_then (ValidateMappingFacts operation m) (\<lambda>_. Inr True))"

subsection \<open>Validation and collection over the tree\<close>

fun for_each :: "('a \<Rightarrow> 'e + unit) \<Rightarrow> 'a list \<Rightarrow> 'e + unit" where
  "for_each f [] = Inr ()"
| "for_each f (x # xs) = and_then (f x) (\<lambda>_. for_each f xs)"

lemma for_each_cong [fundef_cong]:
  "xs = ys \<Longrightarrow> (\<And>x. x \<in> set ys \<Longrightarrow> f x = g x) \<Longrightarrow> for_each f xs = for_each g ys"
  by (induction xs arbitrary: ys) auto

lemma for_each_Inr: "for_each f xs = Inr u \<longleftrightarrow> (\<forall>x\<in>set xs. f x = Inr ())"
  by (induction xs) (auto simp: and_then_Inr_iff)

fun ValidateCandidateBindings ::
  "compiled_relation \<Rightarrow> requested_predicate \<Rightarrow> planning_error + unit" where
  "ValidateCandidateBindings relation (RequestedPredicateNode k i t c l cs u d n) =
     (case k of
        UNRESTRICTED \<Rightarrow> Inr ()
      | UNSUPPORTED \<Rightarrow> Inr ()
      | COMPARISON \<Rightarrow>
          if i \<ge> length (relation_columns relation) \<or>
             column_shape (relation_columns relation ! i) \<noteq> SCALAR \<or>
             \<not> ColumnTypeMatches (element_type (relation_columns relation ! i)) t \<or>
             t \<noteq> value_kind l
          then Inl (INVALID_CONTRACT ''predicate candidate contains an invalid bound column or typed literal'')
          else Inr ()
      | _ \<Rightarrow> for_each (ValidateCandidateBindings relation) cs)"

definition ValidateCandidateContract ::
  "compiled_relation \<Rightarrow> scan_request \<Rightarrow> planning_error + unit" where
  "ValidateCandidateContract relation request =
     (let p = requested_pred request in
      if Depth p = 0 \<or> Depth p > MAX_REQUESTED_PREDICATE_DEPTH \<or>
         NodeCount p = 0 \<or> NodeCount p > MAX_REQUESTED_PREDICATE_NODES
      then Inl (INVALID_CONTRACT ''predicate candidate exceeds the shared structural contract'')
      else ValidateCandidateBindings relation p)"

type_synonym matched_candidate = "compiled_predicate_mapping \<times> requested_predicate"
type_synonym collected = "matched_candidate list \<times> bool"

text \<open>The loop over the mappings for one comparison leaf; it returns the matches and their number.\<close>

fun match_leaf ::
  "compiled_relation \<Rightarrow> compiled_operation_name \<Rightarrow> requested_predicate \<Rightarrow>
   compiled_predicate_mapping list \<Rightarrow> matched_candidate list \<Rightarrow> nat \<Rightarrow>
   planning_error + matched_candidate list \<times> nat" where
  "match_leaf relation operation candidate [] matches matched = Inr (matches, matched)"
| "match_leaf relation operation candidate (m # ms) matches matched =
     and_then (MappingMatches relation operation m candidate) (\<lambda>hit.
       if hit then match_leaf relation operation candidate ms (matches @ [(m, candidate)]) (matched + 1)
       else match_leaf relation operation candidate ms matches matched)"

fun collect_children ::
  "('a \<Rightarrow> 's \<Rightarrow> 'e + 's) \<Rightarrow> 'a list \<Rightarrow> 's \<Rightarrow> 'e + 's" where
  "collect_children f [] st = Inr st"
| "collect_children f (x # xs) st = and_then (f x st) (collect_children f xs)"

lemma collect_children_cong [fundef_cong]:
  "xs = ys \<Longrightarrow> (\<And>x st. x \<in> set ys \<Longrightarrow> f x st = g x st) \<Longrightarrow> s = t \<Longrightarrow>
   collect_children f xs s = collect_children g ys t"
proof (induction xs arbitrary: ys s t)
  case Nil
  then show ?case by auto
next
  case (Cons x xs)
  then show ?case by (cases "g x t") auto
qed

fun CollectConjunctiveMatches ::
  "compiled_relation \<Rightarrow> compiled_operation_name \<Rightarrow> requested_predicate \<Rightarrow> collected \<Rightarrow>
   planning_error + collected" where
  "CollectConjunctiveMatches relation operation (RequestedPredicateNode k i t c l cs u d n) (matches, unmapped) =
     (case k of
        UNRESTRICTED \<Rightarrow> Inr (matches, unmapped)
      | COMPARISON \<Rightarrow>
          and_then (match_leaf relation operation (RequestedPredicateNode k i t c l cs u d n)
                     (predicate_mappings relation) matches 0)
            (\<lambda>(matches', matched). Inr (matches', unmapped \<or> matched = 0))
      | CONJUNCTION \<Rightarrow>
          collect_children (CollectConjunctiveMatches relation operation) cs (matches, unmapped)
      | _ \<Rightarrow> Inr (matches, True))"

subsection \<open>The residual and the fallback decision\<close>

fun first_match ::
  "compiled_relation \<Rightarrow> compiled_operation_name \<Rightarrow> requested_predicate \<Rightarrow>
   compiled_predicate_mapping list \<Rightarrow> planning_error + compiled_predicate_mapping option" where
  "first_match relation operation candidate [] = Inr None"
| "first_match relation operation candidate (m # ms) =
     and_then (MappingMatches relation operation m candidate) (\<lambda>hit.
       if hit then Inr (Some m) else first_match relation operation candidate ms)"

definition ResidualPredicate ::
  "compiled_relation \<Rightarrow> compiled_operation_name \<Rightarrow> scan_request \<Rightarrow> planning_error + PlannedPredicate" where
  "ResidualPredicate relation operation request = (case retained_predicate_scope request of
     SCOPE_UNRESTRICTED \<Rightarrow> Inr TRUE_FOR_BASE_DOMAIN
   | SCOPE_COMPLETE_DUCKDB_FILTER \<Rightarrow> Inr COMPLETE_DUCKDB_FILTER
   | REQUESTED_PREDICATE \<Rightarrow>
       if Kind (requested_pred request) = COMPARISON
       then and_then (first_match relation operation (requested_pred request) (predicate_mappings relation))
              (\<lambda>found. case found of Some m \<Rightarrow> Inr TYPED_EQUALITY | None \<Rightarrow> Inr COMPLETE_DUCKDB_FILTER)
       else Inr COMPLETE_DUCKDB_FILTER)"

definition ResidualTypedEquality ::
  "compiled_relation \<Rightarrow> compiled_operation_name \<Rightarrow> scan_request \<Rightarrow> PlannedPredicate \<Rightarrow>
   planning_error + typed_equality_decision" where
  "ResidualTypedEquality relation operation request residual =
     (if residual \<noteq> TYPED_EQUALITY \<or> Kind (requested_pred request) \<noteq> COMPARISON then Inr NoTypedEquality
      else and_then (first_match relation operation (requested_pred request) (predicate_mappings relation))
             (\<lambda>found. case found of
                Some m \<Rightarrow> Inr (PlanTypedEquality m)
              | None \<Rightarrow> Inl (INVALID_CONTRACT ''typed residual predicate lost its validated package mapping'')))"

definition Fallback ::
  "compiled_relation \<Rightarrow> compiled_operation_name \<Rightarrow> scan_request \<Rightarrow> PredicateDecisionCategory \<Rightarrow>
   PredicateDecisionReason \<Rightarrow> planning_error + predicate_plan_decision" where
  "Fallback relation operation request category reason =
     and_then (ResidualPredicate relation operation request) (\<lambda>residual.
     and_then (ResidualTypedEquality relation operation request residual) (\<lambda>equality.
       Inr \<lparr>remote_predicate = TRUE_FOR_BASE_DOMAIN, remote_accuracy = ACCURACY_UNSUPPORTED,
            residual_predicate = residual, residual_owner = DUCKDB,
            conditional_input = NO_CONDITIONAL_INPUT, typed_equality = equality,
            decision_category = category, reason_code = reason, reason_text = ReasonText reason\<rparr>))"

definition IsSingleComparison :: "requested_predicate \<Rightarrow> bool" where
  "IsSingleComparison candidate \<longleftrightarrow> Kind candidate = COMPARISON"

definition SameMappingAndBinding :: "matched_candidate \<Rightarrow> matched_candidate \<Rightarrow> bool" where
  "SameMappingAndBinding left right \<longleftrightarrow>
     (let l = fst left; r = fst right in
      StructurallyEquals (snd left) (snd right) \<and>
      mapping_column_name l = mapping_column_name r \<and>
      predicate_operator l = predicate_operator r \<and> mapping_literal l = mapping_literal r \<and>
      SameTypedLiteral (typed_literal l) (typed_literal r) \<and>
      operation_name l = operation_name r \<and> input_placement l = input_placement r \<and>
      remote_input_name l = remote_input_name r \<and> encoded_remote_value l = encoded_remote_value r \<and>
      mapping_accuracy l = mapping_accuracy r \<and> mapping_proof_identity l = mapping_proof_identity r \<and>
      proof_identity_value l = proof_identity_value r \<and> base_domain l = base_domain r \<and>
      base_domain_value l = base_domain_value r \<and> matching_fixture l = matching_fixture r \<and>
      false_or_null_fixture l = false_or_null_fixture r \<and> duplicates_fixture l = duplicates_fixture r \<and>
      occurrence_preservation l = occurrence_preservation r \<and>
      encoding_capability l = encoding_capability r)"

fun AllMatchesEquivalent :: "matched_candidate list \<Rightarrow> bool" where
  "AllMatchesEquivalent [] = True"
| "AllMatchesEquivalent (front # rest) = list_all (SameMappingAndBinding front) rest"

definition IsEquivalentRepeatedConjunction ::
  "requested_predicate \<Rightarrow> matched_candidate list \<Rightarrow> bool \<Rightarrow> bool" where
  "IsEquivalentRepeatedConjunction candidate matches contains_unmapped_structure \<longleftrightarrow>
     Kind candidate = CONJUNCTION \<and> \<not> contains_unmapped_structure \<and>
     length (node_children candidate) = length matches \<and> AllMatchesEquivalent matches"

subsection \<open>Candidate input bindings\<close>

record candidate_input_binding =
  binding_name :: string
  binding_encoded_value :: string

record candidate_input_bindings =
  binding_values :: "candidate_input_binding list"
  conflicting :: bool

definition no_bindings :: "bool \<Rightarrow> candidate_input_bindings" where
  "no_bindings c = \<lparr>binding_values = [], conflicting = c\<rparr>"

text \<open>The loop over the matches: \<open>None\<close> is the early return on a conflict.\<close>

fun bind_matches ::
  "matched_candidate list \<Rightarrow> candidate_input_binding list \<Rightarrow> candidate_input_binding list option" where
  "bind_matches [] values = Some values"
| "bind_matches (match # rest) values =
     (case List.find (\<lambda>b. binding_name b = remote_input_name (fst match)) values of
        None \<Rightarrow> bind_matches rest (values @ [\<lparr>binding_name = remote_input_name (fst match),
                                         binding_encoded_value = encoded_remote_value (fst match)\<rparr>])
      | Some existing \<Rightarrow>
          if binding_encoded_value existing \<noteq> encoded_remote_value (fst match) then None
          else bind_matches rest values)"

definition ResolveCandidateInputBindings ::
  "compiled_relation \<Rightarrow> compiled_operation_name \<Rightarrow> scan_request \<Rightarrow>
   planning_error + candidate_input_bindings" where
  "ResolveCandidateInputBindings relation operation request =
     and_then (ValidateCandidateContract relation request) (\<lambda>_.
       if \<not> selective_predicate request \<or> \<not> retains_predicate request then Inr (no_bindings False)
       else if Kind (requested_pred request) \<noteq> COMPARISON \<and> Kind (requested_pred request) \<noteq> CONJUNCTION
       then Inr (no_bindings False)
       else and_then (CollectConjunctiveMatches relation operation (requested_pred request) ([], False))
         (\<lambda>(matches, contains_unmapped_structure).
            case bind_matches matches [] of
              None \<Rightarrow> Inr (no_bindings True)
            | Some values \<Rightarrow> Inr \<lparr>binding_values = sort_key binding_name values, conflicting = False\<rparr>))"

subsection \<open>Classification\<close>

text \<open>The part of \<open>Classify\<close> after the matches are collected.\<close>

definition classify_matches ::
  "compiled_relation \<Rightarrow> compiled_operation_name \<Rightarrow> scan_request \<Rightarrow> matched_candidate list \<Rightarrow> bool \<Rightarrow>
   planning_error + predicate_plan_decision" where
  "classify_matches relation operation request matches contains_unmapped_structure =
     (if matches = [] then
        Fallback relation operation request CATEGORY_UNSUPPORTED
          (if contains_unmapped_structure then MAPPING_UNAVAILABLE else STRUCTURE_UNSUPPORTED)
      else if length matches > 1 \<and> \<not> AllMatchesEquivalent matches then
        Fallback relation operation request CATEGORY_AMBIGUOUS AMBIGUOUS_CONDITIONAL_INPUT
      else
        let m = fst (hd matches);
            exact = (mapping_accuracy m = MAPPING_EXACT \<and> \<not> contains_unmapped_structure \<and>
              (IsSingleComparison (requested_pred request) \<or>
               IsEquivalentRepeatedConjunction (requested_pred request) matches
                 contains_unmapped_structure));
            reason = (if exact then SELECTED_EXACT_MAPPING else SELECTED_SUPERSET_MAPPING)
        in and_then (ResidualPredicate relation operation request) (\<lambda>residual.
          Inr \<lparr>remote_predicate = TYPED_EQUALITY,
            remote_accuracy = (if exact then ACCURACY_EXACT else ACCURACY_SUPERSET),
            residual_predicate = residual, residual_owner = DUCKDB,
            conditional_input = REST_QUERY_BINDING, typed_equality = PlanTypedEquality m,
            decision_category = (if exact then CATEGORY_EXACT else CATEGORY_SUPERSET),
            reason_code = reason, reason_text = ReasonText reason\<rparr>))"

definition Classify ::
  "compiled_relation \<Rightarrow> compiled_operation_name \<Rightarrow> scan_request \<Rightarrow>
   planning_error + predicate_plan_decision" where
  "Classify relation operation request =
     and_then (ValidateCandidateContract relation request) (\<lambda>_.
     and_then (for_each (\<lambda>m. if operation_name m = operation then ValidateMappingFacts operation m else Inr ())
                 (predicate_mappings relation)) (\<lambda>_.
       if Kind (requested_pred request) = UNRESTRICTED
       then Fallback relation operation request CATEGORY_UNSUPPORTED NO_REMOTE_CANDIDATE
       else if \<not> selective_predicate request \<or> \<not> retains_predicate request
       then Fallback relation operation request CATEGORY_UNSUPPORTED CAPABILITY_UNAVAILABLE
       else if Kind (requested_pred request) = DISJUNCTION
       then Fallback relation operation request CATEGORY_UNSUPPORTED DISJUNCTION_ENCODING_UNAVAILABLE
       else if Kind (requested_pred request) = NEGATION
       then Fallback relation operation request CATEGORY_UNSUPPORTED COMPLEMENT_ENCODING_UNAVAILABLE
       else if Kind (requested_pred request) = UNSUPPORTED
       then Fallback relation operation request CATEGORY_UNSUPPORTED STRUCTURE_UNSUPPORTED
       else and_then (CollectConjunctiveMatches relation operation (requested_pred request) ([], False))
         (\<lambda>(matches, contains_unmapped_structure).
            classify_matches relation operation request matches contains_unmapped_structure)))"

end
