(* ===== verification/Predicate_Pushdown.thy ===== *)
theory Predicate_Pushdown
  imports Predicate_Classifier "HOL-Library.Multiset"
begin

section \<open>Soundness of predicate push-down\<close>

text \<open>
  What a classification decision means. A row is a list of nullable typed values; a predicate is
  evaluated in SQL's three-valued logic, with the engine's equality and the meaning of opaque
  unsupported leaves as parameters. The remote source is a parameter too: the occurrence bag of the
  unrestricted operation and the bag it returns for a typed equality, related by the occurrence law
  that a package declares for its mappings (\<open>docs/CONNECTOR_SPECIFICATIONS.md\<close>, Predicate mappings and
  DuckDB ownership). The theorems show that every decision of \<open>Classify\<close> is sound under these
  parameters: the filter DuckDB retains selects the same bag from the restricted and from the
  base occurrences, and an Exact decision returns exactly the occurrences of the predicate.
\<close>

subsection \<open>Three-valued meaning of a predicate\<close>

type_synonym row = "requested_predicate_value option list"

definition kleene_all :: "bool option list \<Rightarrow> bool option" where
  "kleene_all xs = (if Some False \<in> set xs then Some False else if None \<in> set xs then None else Some True)"

definition kleene_any :: "bool option list \<Rightarrow> bool option" where
  "kleene_any xs = (if Some True \<in> set xs then Some True else if None \<in> set xs then None else Some False)"

fun eval_predicate ::
  "(requested_predicate_value \<Rightarrow> requested_predicate_value \<Rightarrow> bool) \<Rightarrow> (uint64 \<Rightarrow> row \<Rightarrow> bool option) \<Rightarrow>
   row \<Rightarrow> requested_predicate \<Rightarrow> bool option" where
  "eval_predicate sql_equal opaque row (RequestedPredicateNode k i t c l cs u d n) =
     (case k of
        UNRESTRICTED \<Rightarrow> Some True
      | COMPARISON \<Rightarrow> map_option (\<lambda>v. sql_equal v l) (row ! i)
      | CONJUNCTION \<Rightarrow> kleene_all (map (eval_predicate sql_equal opaque row) cs)
      | DISJUNCTION \<Rightarrow> kleene_any (map (eval_predicate sql_equal opaque row) cs)
      | NEGATION \<Rightarrow> map_option Not (kleene_all (map (eval_predicate sql_equal opaque row) cs))
      | UNSUPPORTED \<Rightarrow> opaque u row)"

lemma kleene_all_True: "kleene_all xs = Some True \<longleftrightarrow> (\<forall>x\<in>set xs. x = Some True)"
proof
  assume "kleene_all xs = Some True"
  then have "Some False \<notin> set xs" "None \<notin> set xs" by (auto simp: kleene_all_def split: if_splits)
  then show "\<forall>x\<in>set xs. x = Some True" by (metis option.exhaust)
next
  assume "\<forall>x\<in>set xs. x = Some True"
  then show "kleene_all xs = Some True" by (auto simp: kleene_all_def)
qed

text \<open>A negation node has one child, whose value \<open>kleene_all\<close> returns.\<close>

lemma kleene_all_single: "kleene_all [x] = x"
  by (cases x) (auto simp: kleene_all_def)

text \<open>The typed value a compiled literal denotes.\<close>

definition compiled_value :: "compiled_scalar_value \<Rightarrow> requested_predicate_value" where
  "compiled_value c = (case scalar_type c of
     SCALAR_BOOLEAN \<Rightarrow> Boolean (scalar_boolean c) | SCALAR_BIGINT \<Rightarrow> BigInt (scalar_bigint c)
   | SCALAR_VARCHAR \<Rightarrow> Varchar (scalar_varchar c) | SCALAR_DOUBLE \<Rightarrow> Double (scalar_double c)
   | SCALAR_TIMESTAMPTZ \<Rightarrow> (BigInt 0)\<lparr>value_kind := TIMESTAMPTZ,
        timestamptz_microseconds := scalar_timestamptz c\<rparr>)"

text \<open>The equality a mapping declares on the column at position \<open>i\<close>.\<close>

definition mapping_condition ::
  "(requested_predicate_value \<Rightarrow> requested_predicate_value \<Rightarrow> bool) \<Rightarrow> compiled_predicate_mapping \<Rightarrow>
   nat \<Rightarrow> row \<Rightarrow> bool" where
  "mapping_condition sql_equal m i row \<longleftrightarrow>
     map_option (\<lambda>v. sql_equal v (compiled_value (typed_literal m))) (row ! i) = Some True"

text \<open>
  The occurrence law of the declared mappings: the restricted bag is part of the base bag and keeps
  all occurrences on which the declared equality is TRUE; for an exact mapping it has no others.
\<close>

definition occurrence_law ::
  "(requested_predicate_value \<Rightarrow> requested_predicate_value \<Rightarrow> bool) \<Rightarrow> compiled_relation \<Rightarrow>
   compiled_operation_name \<Rightarrow> row multiset \<Rightarrow> (typed_equality_decision \<Rightarrow> row multiset) \<Rightarrow> bool" where
  "occurrence_law sql_equal relation operation base remote \<longleftrightarrow>
     (\<forall>m\<in>set (predicate_mappings relation). operation_name m = operation \<longrightarrow>
       (\<forall>i<length (relation_columns relation).
          column_name (relation_columns relation ! i) = mapping_column_name m \<longrightarrow>
          filter_mset (mapping_condition sql_equal m i) base \<subseteq># remote (PlanTypedEquality m) \<and>
          remote (PlanTypedEquality m) \<subseteq># base \<and>
          (mapping_accuracy m = MAPPING_EXACT \<longrightarrow>
             remote (PlanTypedEquality m) = filter_mset (mapping_condition sql_equal m i) base)))"

text \<open>The rows a plan with this decision fetches.\<close>

definition fetched_rows ::
  "row multiset \<Rightarrow> (typed_equality_decision \<Rightarrow> row multiset) \<Rightarrow> predicate_plan_decision \<Rightarrow> row multiset" where
  "fetched_rows base remote d = (case conditional_input d of
     NO_CONDITIONAL_INPUT \<Rightarrow> base | REST_QUERY_BINDING \<Rightarrow> remote (typed_equality d))"

subsection \<open>Matching one leaf\<close>

lemma TypedLiteralMatches_value:
  assumes "built_value r" and "TypedLiteralMatches c r"
  shows "compiled_value c = r"
  using assms
proof (cases rule: built_value.cases)
  case (double d)
  then have e: "double_equal (scalar_double c) (double_value r)" and ty: "scalar_type c = SCALAR_DOUBLE"
    using assms(2) by (auto simp: TypedLiteralMatches_def Double_def split: if_splits)
  have "Double (scalar_double c) = r"
    using e double
    by (auto simp: Double_def double_equal_def is_zero_def zero_not_nan positive_zero_def split: if_splits)
  with ty show ?thesis by (simp add: compiled_value_def)
qed (auto simp: TypedLiteralMatches_def compiled_value_def BigInt_def Varchar_def Boolean_def
      Timestamptz_def split: if_splits)

lemma MappingMatches_True:
  assumes "MappingMatches relation operation m c = Inr True"
  shows "Kind c = COMPARISON \<and> operation_name m = operation \<and>
    node_bound_column_index c < length (relation_columns relation) \<and>
    column_name (relation_columns relation ! node_bound_column_index c) = mapping_column_name m \<and>
    TypedLiteralMatches (typed_literal m) (node_literal c) \<and> ValidateMappingFacts operation m = Inr ()"
  using assms by (auto simp: MappingMatches_def Let_def and_then_Inr_iff split: if_splits)

lemma comparison_meaning:
  assumes "well_shaped c" and "MappingMatches relation operation m c = Inr True"
  shows "eval_predicate sql_equal opaque row c = Some True \<longleftrightarrow>
         mapping_condition sql_equal m (node_bound_column_index c) row"
proof -
  have "Kind c = COMPARISON" and tl: "TypedLiteralMatches (typed_literal m) (node_literal c)"
    using MappingMatches_True [OF assms(2)] by simp_all
  moreover from this assms(1) have "built_value (node_literal c)" by (cases c) auto
  ultimately have "compiled_value (typed_literal m) = node_literal c"
    using TypedLiteralMatches_value by blast
  with \<open>Kind c = COMPARISON\<close> show ?thesis by (cases c) (simp add: mapping_condition_def)
qed

lemma match_leaf_result:
  assumes "match_leaf relation operation c ms acc k = Inr (acc', k')"
  shows "\<exists>new. acc' = acc @ new \<and> k' = k + length new \<and>
    (\<forall>x\<in>set new. snd x = c \<and> fst x \<in> set ms \<and> MappingMatches relation operation (fst x) c = Inr True)"
  using assms
proof (induction ms arbitrary: acc k)
  case Nil
  then show ?case by simp
next
  case (Cons m ms)
  from Cons.prems obtain b where b: "MappingMatches relation operation m c = Inr b"
    and rest: "match_leaf relation operation c ms (if b then acc @ [(m, c)] else acc) (if b then k + 1 else k)
               = Inr (acc', k')"
    by (auto simp: and_then_Inr_iff split: if_splits)
  from Cons.IH [OF rest] obtain new where new:
    "acc' = (if b then acc @ [(m, c)] else acc) @ new" "k' = (if b then k + 1 else k) + length new"
    "\<forall>x\<in>set new. snd x = c \<and> fst x \<in> set ms \<and> MappingMatches relation operation (fst x) c = Inr True"
    by blast
  show ?case
    by (rule exI [of _ "(if b then [(m, c)] else []) @ new"]) (use new b in auto)
qed

subsection \<open>Collecting the matches of a conjunction\<close>

text \<open>
  What the collected matches say of the predicate they were collected from: each comes from a
  comparison that the predicate implies, and together they imply it when no structure is unmapped.
\<close>

definition collected_from ::
  "compiled_relation \<Rightarrow> compiled_operation_name \<Rightarrow> requested_predicate list \<Rightarrow> matched_candidate list \<Rightarrow>
   bool \<Rightarrow> bool" where
  "collected_from relation operation ps new unmapped \<longleftrightarrow>
     (\<forall>x\<in>set new. fst x \<in> set (predicate_mappings relation) \<and> well_shaped (snd x) \<and>
        MappingMatches relation operation (fst x) (snd x) = Inr True \<and>
        (\<forall>sql_equal opaque row. (\<forall>p\<in>set ps. eval_predicate sql_equal opaque row p = Some True) \<longrightarrow>
           eval_predicate sql_equal opaque row (snd x) = Some True)) \<and>
     (\<not> unmapped \<longrightarrow> (\<forall>sql_equal opaque row.
        (\<forall>x\<in>set new. eval_predicate sql_equal opaque row (snd x) = Some True) \<longrightarrow>
        (\<forall>p\<in>set ps. eval_predicate sql_equal opaque row p = Some True)))"

lemma collected_from_append:
  assumes "collected_from relation operation [p] new1 u1" and "collected_from relation operation ps new2 u2"
  shows "collected_from relation operation (p # ps) (new1 @ new2) (u1 \<or> u2)"
  using assms unfolding collected_from_def
  by simp blast

lemma collected_from_nil: "collected_from relation operation [] [] u"
  by (simp add: collected_from_def)

lemma collected_from_conjunction:
  assumes "collected_from relation operation cs new u"
  shows "collected_from relation operation [RequestedPredicateNode CONJUNCTION i t c l cs v d n] new u"
  using assms by (simp add: collected_from_def kleene_all_True)

lemma collected_from_leaf:
  assumes "well_shaped p"
    and "\<forall>x\<in>set new. snd x = p \<and> fst x \<in> set (predicate_mappings relation) \<and>
           MappingMatches relation operation (fst x) p = Inr True"
  shows "collected_from relation operation [p] new (new = [])"
  using assms by (cases new) (auto simp: collected_from_def)

lemma collect_children_collected:
  assumes "\<And>q acc u acc' u'. q \<in> set cs \<Longrightarrow> f q (acc, u) = Inr (acc', u') \<Longrightarrow>
      \<exists>new u1. acc' = acc @ new \<and> u' = (u \<or> u1) \<and> collected_from relation operation [q] new u1"
    and "collect_children f cs (acc, u) = Inr (acc', u')"
  shows "\<exists>new u1. acc' = acc @ new \<and> u' = (u \<or> u1) \<and> collected_from relation operation cs new u1"
  using assms
proof (induction cs arbitrary: acc u)
  case Nil
  then have "acc' = acc @ [] \<and> u' = (u \<or> False) \<and> collected_from relation operation [] [] False"
    by (simp add: collected_from_nil)
  then show ?case by blast
next
  case (Cons q cs)
  from Cons.prems(2) obtain acc1 v where step: "f q (acc, u) = Inr (acc1, v)"
    and rest: "collect_children f cs (acc1, v) = Inr (acc', u')"
    by (auto simp: and_then_Inr_iff)
  obtain new1 u1 where a: "acc1 = acc @ new1" "v = (u \<or> u1)" "collected_from relation operation [q] new1 u1"
    using Cons.prems(1) [OF _ step] by auto
  obtain new2 u2 where b: "acc' = acc1 @ new2" "u' = (v \<or> u2)" "collected_from relation operation cs new2 u2"
    using Cons.IH [OF Cons.prems(1) rest] by auto
  have "collected_from relation operation (q # cs) (new1 @ new2) (u1 \<or> u2)"
    by (rule collected_from_append [OF a(3) b(3)])
  with a b show ?case by (metis append.assoc disj_assoc)
qed

lemma CollectConjunctiveMatches_collected:
  assumes "well_shaped p" and "CollectConjunctiveMatches relation operation p (acc, u) = Inr (acc', u')"
  shows "\<exists>new u1. acc' = acc @ new \<and> u' = (u \<or> u1) \<and> collected_from relation operation [p] new u1"
  using assms
proof (induction relation operation p "(acc, u)" arbitrary: acc u acc' u' rule: CollectConjunctiveMatches.induct)
  case (1 relation operation k i t c l cs v d n acc u)
  let ?p = "RequestedPredicateNode k i t c l cs v d n"
  consider "k = UNRESTRICTED" | "k = COMPARISON" | "k = CONJUNCTION"
    | "k = DISJUNCTION \<or> k = NEGATION \<or> k = UNSUPPORTED" by (cases k) auto
  then show ?case
  proof cases
    case 1
    with "1.prems" have "acc' = acc @ [] \<and> u' = (u \<or> False) \<and> collected_from relation operation [?p] [] False"
      by (simp add: collected_from_def)
    then show ?thesis by blast
  next
    case 2
    with "1.prems" obtain k' where
      leaf: "match_leaf relation operation ?p (predicate_mappings relation) acc 0 = Inr (acc', k')"
      and u': "u' = (u \<or> k' = 0)" by (auto simp: and_then_Inr_iff)
    from match_leaf_result [OF leaf] obtain new where
      new: "acc' = acc @ new" "k' = length new"
        "\<forall>x\<in>set new. snd x = ?p \<and> fst x \<in> set (predicate_mappings relation) \<and>
           MappingMatches relation operation (fst x) ?p = Inr True" by auto
    have "collected_from relation operation [?p] new (new = [])"
      by (rule collected_from_leaf [OF "1.prems"(1) new(3)])
    with new(1,2) u' show ?thesis by auto
  next
    case 3
    with "1.prems" have ws: "\<forall>q\<in>set cs. well_shaped q" by (simp add: list_all_iff)
    from 3 "1.prems" have
      kids: "collect_children (CollectConjunctiveMatches relation operation) cs (acc, u) = Inr (acc', u')" by simp
    have "\<exists>new u1. acc' = acc @ new \<and> u' = (u \<or> u1) \<and> collected_from relation operation cs new u1"
    proof (rule collect_children_collected [OF _ kids])
      fix q acc u acc' u'
      assume q: "q \<in> set cs" and c: "CollectConjunctiveMatches relation operation q (acc, u) = Inr (acc', u')"
      have "well_shaped q" using ws q by blast
      from "1.hyps" [OF 3 q this c]
      show "\<exists>new u1. acc' = acc @ new \<and> u' = (u \<or> u1) \<and> collected_from relation operation [q] new u1" .
    qed
    then obtain new u1 where "acc' = acc @ new" "u' = (u \<or> u1)" "collected_from relation operation cs new u1"
      by blast
    moreover from this(3) have "collected_from relation operation [?p] new u1"
      unfolding 3 by (rule collected_from_conjunction)
    ultimately show ?thesis by blast
  next
    case 4
    with "1.prems" have "acc' = acc @ [] \<and> u' = (u \<or> True) \<and> collected_from relation operation [?p] [] True"
      by (auto simp: collected_from_def)
    then show ?thesis by blast
  qed
qed

subsection \<open>Classification\<close>

lemma Fallback_fetches_base: "Fallback relation operation request category reason = Inr d \<Longrightarrow>
   conditional_input d = NO_CONDITIONAL_INPUT \<and> remote_accuracy d = ACCURACY_UNSUPPORTED"
  by (auto simp: Fallback_def and_then_Inr_iff)

lemma classify_matches_result:
  assumes "classify_matches relation operation request matches unmapped = Inr d"
  shows "conditional_input d = NO_CONDITIONAL_INPUT \<and> remote_accuracy d = ACCURACY_UNSUPPORTED \<or>
    matches \<noteq> [] \<and> (length matches > 1 \<longrightarrow> AllMatchesEquivalent matches) \<and>
    conditional_input d = REST_QUERY_BINDING \<and> typed_equality d = PlanTypedEquality (fst (hd matches)) \<and>
    remote_accuracy d \<noteq> ACCURACY_UNSUPPORTED \<and>
    (remote_accuracy d = ACCURACY_EXACT \<longrightarrow> mapping_accuracy (fst (hd matches)) = MAPPING_EXACT \<and> \<not> unmapped)"
proof -
  consider "matches = []" | "length matches > 1 \<and> \<not> AllMatchesEquivalent matches"
    | "matches \<noteq> []" "length matches > 1 \<longrightarrow> AllMatchesEquivalent matches" by blast
  then show ?thesis
  proof cases
    case 1
    with assms show ?thesis by (auto simp: classify_matches_def dest: Fallback_fetches_base)
  next
    case 2
    then have "matches \<noteq> []" by auto
    with 2 assms show ?thesis by (auto simp: classify_matches_def dest: Fallback_fetches_base)
  next
    case 3
    with assms obtain residual where "d =
      (let m = fst (hd matches);
           exact = (mapping_accuracy m = MAPPING_EXACT \<and> \<not> unmapped \<and>
             (IsSingleComparison (requested_pred request) \<or>
              IsEquivalentRepeatedConjunction (requested_pred request) matches unmapped));
           reason = (if exact then SELECTED_EXACT_MAPPING else SELECTED_SUPERSET_MAPPING)
       in \<lparr>remote_predicate = TYPED_EQUALITY,
            remote_accuracy = (if exact then ACCURACY_EXACT else ACCURACY_SUPERSET),
            residual_predicate = residual, residual_owner = DUCKDB,
            conditional_input = REST_QUERY_BINDING, typed_equality = PlanTypedEquality m,
            decision_category = (if exact then CATEGORY_EXACT else CATEGORY_SUPERSET),
            reason_code = reason, reason_text = ReasonText reason\<rparr>)"
      unfolding classify_matches_def Let_def
      by (auto simp only: if_not_P and_then_Inr_iff sum.inject simp_thms)
    with 3 show ?thesis by (simp add: Let_def)
  qed
qed

lemma Classify_result:
  assumes "Classify relation operation request = Inr d"
  shows "conditional_input d = NO_CONDITIONAL_INPUT \<and> remote_accuracy d = ACCURACY_UNSUPPORTED \<or>
    (\<exists>matches unmapped.
       CollectConjunctiveMatches relation operation (requested_pred request) ([], False) = Inr (matches, unmapped) \<and>
       classify_matches relation operation request matches unmapped = Inr d)"
proof (cases "Kind (requested_pred request)")
  case COMPARISON
  with assms show ?thesis
    by (cases "\<not> selective_predicate request \<or> \<not> retains_predicate request")
      (auto simp: Classify_def and_then_Inr_iff dest: Fallback_fetches_base)
next
  case CONJUNCTION
  with assms show ?thesis
    by (cases "\<not> selective_predicate request \<or> \<not> retains_predicate request")
      (auto simp: Classify_def and_then_Inr_iff dest: Fallback_fetches_base)
qed (use assms in \<open>auto simp: Classify_def and_then_Inr_iff dest: Fallback_fetches_base split: if_splits\<close>)

text \<open>A decision either restricts nothing or comes from the first collected match.\<close>

lemma Classify_cases:
  assumes "Classify relation operation request = Inr d" and "well_shaped (requested_pred request)"
  obtains (unrestricted) "conditional_input d = NO_CONDITIONAL_INPUT" "remote_accuracy d = ACCURACY_UNSUPPORTED"
  | (restricted) m c rest unmapped where
      "collected_from relation operation [requested_pred request] ((m, c) # rest) unmapped"
      "rest \<noteq> [] \<longrightarrow> AllMatchesEquivalent ((m, c) # rest)"
      "conditional_input d = REST_QUERY_BINDING" "typed_equality d = PlanTypedEquality m"
      "remote_accuracy d \<noteq> ACCURACY_UNSUPPORTED"
      "remote_accuracy d = ACCURACY_EXACT \<longrightarrow> mapping_accuracy m = MAPPING_EXACT \<and> \<not> unmapped"
proof (cases "conditional_input d = NO_CONDITIONAL_INPUT \<and> remote_accuracy d = ACCURACY_UNSUPPORTED")
  case True
  then show ?thesis using unrestricted by blast
next
  case False
  then obtain matches unmapped where
    collect: "CollectConjunctiveMatches relation operation (requested_pred request) ([], False)
              = Inr (matches, unmapped)"
    and d: "classify_matches relation operation request matches unmapped = Inr d"
    using Classify_result [OF assms(1)] by blast
  note r = classify_matches_result [OF d]
  with False have ne: "matches \<noteq> []" by blast
  then obtain m c rest where ms: "matches = (m, c) # rest"
    by (metis neq_Nil_conv surj_pair)
  obtain new u1 where "matches = [] @ new" "unmapped = (False \<or> u1)"
    "collected_from relation operation [requested_pred request] new u1"
    using CollectConjunctiveMatches_collected [OF assms(2) collect] by blast
  then have "collected_from relation operation [requested_pred request] ((m, c) # rest) unmapped"
    using ms by simp
  then show ?thesis
    by (rule restricted) (use r False ms in auto)
qed

lemma collected_implies:
  assumes "collected_from relation operation [p] new u" and "x \<in> set new"
    and "eval_predicate sql_equal opaque row p = Some True"
  shows "eval_predicate sql_equal opaque row (snd x) = Some True"
  using assms unfolding collected_from_def by simp

lemma collected_implied:
  assumes "collected_from relation operation [p] new False"
    and "\<And>x. x \<in> set new \<Longrightarrow> eval_predicate sql_equal opaque row (snd x) = Some True"
  shows "eval_predicate sql_equal opaque row p = Some True"
  using assms unfolding collected_from_def by simp

lemma equivalent_candidates:
  assumes "AllMatchesEquivalent ((m, c) # rest)" and "x \<in> set rest"
    and "well_shaped c" and "well_shaped (snd x)"
  shows "snd x = c"
proof -
  have "SameMappingAndBinding (m, c) x" using assms(1,2) by (simp add: list_all_iff)
  then have "StructurallyEquals c (snd x)" by (simp add: SameMappingAndBinding_def Let_def)
  then show ?thesis using StructurallyEquals_iff [OF assms(3,4)] by simp
qed

text \<open>A filter that implies a kept condition selects the same bag from a restricted source.\<close>

lemma filter_restricted:
  assumes "filter_mset hit base \<subseteq># restricted" and "restricted \<subseteq># base" and "\<And>r. D r \<Longrightarrow> hit r"
  shows "filter_mset D restricted = filter_mset D base"
proof (rule subset_mset.antisym)
  show "filter_mset D restricted \<subseteq># filter_mset D base"
    by (rule multiset_filter_mono [OF assms(2)])
  have "filter_mset D base = filter_mset D (filter_mset hit base)"
    using assms(3) by (auto simp: filter_filter_mset intro!: filter_mset_cong)
  then show "filter_mset D base \<subseteq># filter_mset D restricted"
    using multiset_filter_mono [OF assms(1)] by simp
qed

text \<open>
  C1. Push-down is sound. Whenever \<open>Classify\<close> returns a decision, and the remote source obeys the
  declared occurrence law, every filter that implies the requested predicate in three-valued
  logic (so the filter DuckDB retains) selects the same bag of occurrences from the rows
  the plan fetches as from the whole base domain.
\<close>

theorem pushdown_sound:
  assumes decision: "Classify relation operation request = Inr d"
    and built: "built (requested_pred request)"
    and law: "occurrence_law sql_equal relation operation base remote"
    and retained: "\<forall>row. keep row \<longrightarrow> eval_predicate sql_equal opaque row (requested_pred request) = Some True"
  shows "filter_mset keep (fetched_rows base remote d) = filter_mset keep base"
  using decision built_well_shaped [OF built]
proof (cases rule: Classify_cases)
  case unrestricted
  then show ?thesis by (simp add: fetched_rows_def)
next
  case (restricted m c rest unmapped)
  have m: "m \<in> set (predicate_mappings relation)" and c: "well_shaped c"
    and hit: "MappingMatches relation operation m c = Inr True"
    using restricted(1) by (auto simp: collected_from_def)
  have imp: "eval_predicate sql_equal opaque row (requested_pred request) = Some True \<Longrightarrow>
               eval_predicate sql_equal opaque row c = Some True" for row
    using collected_implies [OF restricted(1), of "(m, c)"] by simp
  let ?i = "node_bound_column_index c"
  have "filter_mset (mapping_condition sql_equal m ?i) base \<subseteq># remote (PlanTypedEquality m)"
    and "remote (PlanTypedEquality m) \<subseteq># base"
    using law m MappingMatches_True [OF hit] by (auto simp: occurrence_law_def)
  moreover have "keep row \<Longrightarrow> mapping_condition sql_equal m ?i row" for row
    using retained imp comparison_meaning [OF c hit] by blast
  ultimately show ?thesis
    using restricted(3,4) by (simp add: fetched_rows_def filter_restricted)
qed

text \<open>
  C12. Exact means exact. When the decision is classified Exact, the rows the plan fetches are
  precisely the base occurrences on which the whole requested predicate is TRUE, with their
  multiplicities; a conjunction with any unmapped part never gets this accuracy.
\<close>

theorem exact_decision_is_exact:
  assumes decision: "Classify relation operation request = Inr d"
    and built: "built (requested_pred request)"
    and law: "occurrence_law sql_equal relation operation base remote"
    and exact: "remote_accuracy d = ACCURACY_EXACT"
  shows "fetched_rows base remote d =
    filter_mset (\<lambda>row. eval_predicate sql_equal opaque row (requested_pred request) = Some True) base"
  using decision built_well_shaped [OF built]
proof (cases rule: Classify_cases)
  case unrestricted
  with exact show ?thesis by simp
next
  case (restricted m c rest unmapped)
  have m: "m \<in> set (predicate_mappings relation)" and c: "well_shaped c"
    and hit: "MappingMatches relation operation m c = Inr True"
    using restricted(1) by (auto simp: collected_from_def)
  have same: "snd x = c" if "x \<in> set rest" for x
    using that restricted(1,2) c equivalent_candidates [of m c rest x]
    by (cases "rest = []") (auto simp: collected_from_def)
  have "eval_predicate sql_equal opaque row (requested_pred request) = Some True \<longleftrightarrow>
        eval_predicate sql_equal opaque row c = Some True" for row
  proof
    assume "eval_predicate sql_equal opaque row (requested_pred request) = Some True"
    from collected_implies [OF restricted(1) _ this, of "(m, c)"]
    show "eval_predicate sql_equal opaque row c = Some True" by simp
  next
    assume "eval_predicate sql_equal opaque row c = Some True"
    moreover have "collected_from relation operation [requested_pred request] ((m, c) # rest) False"
      using restricted(1,6) exact by simp
    ultimately show "eval_predicate sql_equal opaque row (requested_pred request) = Some True"
      using same collected_implied [of relation operation _ "(m, c) # rest"] by fastforce
  qed
  moreover have "remote (PlanTypedEquality m) =
      filter_mset (mapping_condition sql_equal m (node_bound_column_index c)) base"
    using law m MappingMatches_True [OF hit] restricted(6) exact by (auto simp: occurrence_law_def)
  ultimately show ?thesis
    using restricted(3,4) comparison_meaning [OF c hit] by (simp add: fetched_rows_def)
qed

subsection \<open>Totality of classification\<close>

definition mapping_facts_hold :: "compiled_relation \<Rightarrow> compiled_operation_name \<Rightarrow> bool" where
  "mapping_facts_hold relation operation \<longleftrightarrow>
     (\<forall>m\<in>set (predicate_mappings relation).
        operation_name m = operation \<longrightarrow> ValidateMappingFacts operation m = Inr ())"

lemma bindings_in_range:
  "ValidateCandidateBindings relation c = Inr () \<Longrightarrow> Kind c = COMPARISON \<Longrightarrow>
   node_bound_column_index c < length (relation_columns relation)"
  by (cases c) (auto split: if_splits)

lemma MappingMatches_total:
  assumes "mapping_facts_hold relation operation" and "m \<in> set (predicate_mappings relation)"
    and "ValidateCandidateBindings relation c = Inr ()"
  shows "\<exists>b. MappingMatches relation operation m c = Inr b"
proof (cases "Kind c \<noteq> COMPARISON \<or> operation_name m \<noteq> operation")
  case True
  then show ?thesis by (auto simp: MappingMatches_def)
next
  case False
  then have "ValidateMappingFacts operation m = Inr ()" using assms by (simp add: mapping_facts_hold_def)
  with False show ?thesis
    using bindings_in_range [OF assms(3)] by (auto simp: MappingMatches_def Let_def)
qed

lemma match_leaf_total:
  assumes "\<And>m. m \<in> set ms \<Longrightarrow> \<exists>b. MappingMatches relation operation m c = Inr b"
  shows "\<exists>r. match_leaf relation operation c ms acc k = Inr r"
  using assms
proof (induction ms arbitrary: acc k)
  case (Cons m ms)
  from Cons.prems [of m] obtain b where "MappingMatches relation operation m c = Inr b" by auto
  with Cons show ?case by (cases b) simp_all
qed simp

lemma first_match_total:
  assumes "\<And>m. m \<in> set ms \<Longrightarrow> \<exists>b. MappingMatches relation operation m c = Inr b"
  shows "\<exists>r. first_match relation operation c ms = Inr r"
  using assms
proof (induction ms)
  case (Cons m ms)
  from Cons.prems [of m] obtain b where "MappingMatches relation operation m c = Inr b" by auto
  with Cons show ?case by (cases b) simp_all
qed simp

lemma collect_children_total:
  assumes "\<And>q st. q \<in> set cs \<Longrightarrow> \<exists>r. f q st = Inr r"
  shows "\<exists>r. collect_children f cs st = Inr r"
  using assms
proof (induction cs arbitrary: st)
  case (Cons q cs)
  from Cons.prems [of q st] obtain r where "f q st = Inr r" by auto
  with Cons show ?case by simp
qed simp

lemma CollectConjunctiveMatches_total:
  assumes "mapping_facts_hold relation operation" and "ValidateCandidateBindings relation p = Inr ()"
  shows "\<exists>r. CollectConjunctiveMatches relation operation p st = Inr r"
  using assms
proof (induction relation operation p st rule: CollectConjunctiveMatches.induct)
  case (1 relation operation k i t c l cs u d n matches unmapped)
  show ?case
  proof (cases k)
    case COMPARISON
    obtain r where "match_leaf relation operation (RequestedPredicateNode k i t c l cs u d n)
        (predicate_mappings relation) matches 0 = Inr r"
      using match_leaf_total MappingMatches_total [OF "1.prems"(1) _ "1.prems"(2)] by blast
    with COMPARISON show ?thesis by (cases r) simp
  next
    case CONJUNCTION
    then have "\<exists>r. collect_children (CollectConjunctiveMatches relation operation) cs (matches, unmapped) = Inr r"
      using "1.prems" by (intro collect_children_total "1.IH") (auto simp: for_each_Inr)
    with CONJUNCTION show ?thesis by simp
  qed auto
qed

lemma Residual_total:
  assumes "mapping_facts_hold relation operation"
    and "ValidateCandidateBindings relation (requested_pred request) = Inr ()"
  shows "\<exists>residual. ResidualPredicate relation operation request = Inr residual \<and>
    (\<exists>e. ResidualTypedEquality relation operation request residual = Inr e)"
proof -
  obtain found where f: "first_match relation operation (requested_pred request) (predicate_mappings relation)
      = Inr found"
    using first_match_total MappingMatches_total [OF assms(1) _ assms(2)] by blast
  show ?thesis
    by (cases "retained_predicate_scope request"; cases found)
      (simp_all add: ResidualPredicate_def ResidualTypedEquality_def f)
qed

lemma Fallback_total:
  assumes "mapping_facts_hold relation operation"
    and "ValidateCandidateBindings relation (requested_pred request) = Inr ()"
  shows "\<exists>d. Fallback relation operation request category reason = Inr d"
  using Residual_total [OF assms] by (auto simp: Fallback_def)

lemma classify_matches_total:
  assumes "mapping_facts_hold relation operation"
    and "ValidateCandidateBindings relation (requested_pred request) = Inr ()"
  shows "\<exists>d. classify_matches relation operation request matches unmapped = Inr d"
  using Residual_total [OF assms] Fallback_total [OF assms]
  by (auto simp: classify_matches_def Let_def)

lemma validate_mappings_iff:
  "for_each (\<lambda>m. if operation_name m = operation then ValidateMappingFacts operation m else Inr ())
     (predicate_mappings relation) = Inr u \<longleftrightarrow> mapping_facts_hold relation operation"
  by (auto simp: for_each_Inr mapping_facts_hold_def)

lemma bindings_never_undefined: "ValidateCandidateBindings relation p \<noteq> Inl UndefinedRead"
proof (induction relation p rule: ValidateCandidateBindings.induct)
  case (1 relation k i t c l cs u d n)
  have "for_each f xs \<noteq> Inl UndefinedRead" if "\<And>x. x \<in> set xs \<Longrightarrow> f x \<noteq> Inl UndefinedRead"
    for f :: "requested_predicate \<Rightarrow> planning_error + unit" and xs
    using that by (induction xs) (auto simp: and_then_Inl_iff)
  then show ?case using 1 by (cases k) auto
qed

lemma facts_never_undefined:
  "for_each (\<lambda>m. if operation_name m = operation then ValidateMappingFacts operation m else Inr ()) ms
   \<noteq> Inl UndefinedRead"
  by (induction ms) (auto simp: and_then_Inl_iff ValidateMappingFacts_def Let_def)

lemma contract_ok_iff:
  "ValidateCandidateContract relation request = Inr u \<Longrightarrow>
   ValidateCandidateBindings relation (requested_pred request) = Inr ()"
  by (auto simp: ValidateCandidateContract_def Let_def split: if_splits)

lemma Classify_returns:
  assumes c: "ValidateCandidateContract relation request = Inr ()" and facts: "mapping_facts_hold relation operation"
  shows "\<exists>d. Classify relation operation request = Inr d"
proof -
  have v: "for_each (\<lambda>m. if operation_name m = operation then ValidateMappingFacts operation m else Inr ())
      (predicate_mappings relation) = Inr ()"
    using facts by (simp add: validate_mappings_iff)
  note bindings = contract_ok_iff [OF c]
  obtain r where "CollectConjunctiveMatches relation operation (requested_pred request) ([], False) = Inr r"
    using CollectConjunctiveMatches_total [OF facts bindings] by blast
  with v c show ?thesis
    using classify_matches_total [OF facts bindings] Fallback_total [OF facts bindings]
    by (cases r) (simp add: Classify_def)
qed

text \<open>
  Classification fails only on a broken contract. \<open>Classify\<close> returns a decision exactly when the
  candidate meets the structural contract and all mappings of the selected operation carry
  consistent facts; once these checks pass no later throw is reachable, and an unchecked column read
  past the end never happens, whatever the request.
\<close>

theorem classify_fails_only_on_contract:
  "((\<exists>d. Classify relation operation request = Inr d) \<longleftrightarrow>
      ValidateCandidateContract relation request = Inr () \<and> mapping_facts_hold relation operation) \<and>
   Classify relation operation request \<noteq> Inl UndefinedRead"
proof -
  have checks: "ValidateCandidateContract relation request = Inr () \<and> mapping_facts_hold relation operation"
    if "Classify relation operation request = Inr d" for d
    using that by (auto simp: Classify_def and_then_Inr_iff validate_mappings_iff)
  have "Classify relation operation request \<noteq> Inl UndefinedRead"
  proof
    assume undefined: "Classify relation operation request = Inl UndefinedRead"
    have "ValidateCandidateContract relation request \<noteq> Inl UndefinedRead"
      by (auto simp: ValidateCandidateContract_def Let_def bindings_never_undefined)
    with undefined have "ValidateCandidateContract relation request = Inr ()"
      and "mapping_facts_hold relation operation"
      using facts_never_undefined [of operation "predicate_mappings relation"]
      by (auto simp: Classify_def and_then_Inl_iff validate_mappings_iff)
    from Classify_returns [OF this] undefined show False by simp
  qed
  with checks Classify_returns show ?thesis by blast
qed

subsection \<open>Candidate input bindings\<close>

definition binding_pairs :: "candidate_input_binding list \<Rightarrow> (string \<times> string) set" where
  "binding_pairs vs = (\<lambda>b. (binding_name b, binding_encoded_value b)) ` set vs"

definition match_pairs :: "matched_candidate list \<Rightarrow> (string \<times> string) set" where
  "match_pairs ms = (\<lambda>x. (remote_input_name (fst x), encoded_remote_value (fst x))) ` set ms"

lemma binding_pairs_distinct:
  assumes "distinct (map binding_name vs)" and "(a, x) \<in> binding_pairs vs" and "(a, y) \<in> binding_pairs vs"
  shows "x = y"
  using assms by (auto simp: binding_pairs_def distinct_map inj_on_def)

lemma bind_matches_result:
  "distinct (map binding_name vs) \<Longrightarrow>
   (case bind_matches ms vs of
      None \<Rightarrow> \<not> single_valued (binding_pairs vs \<union> match_pairs ms)
    | Some vs' \<Rightarrow> distinct (map binding_name vs') \<and> binding_pairs vs' = binding_pairs vs \<union> match_pairs ms)"
proof (induction ms vs rule: bind_matches.induct)
  case (1 vs)
  then show ?case by (simp add: match_pairs_def)
next
  case (2 match rest vs)
  let ?n = "remote_input_name (fst match)" and ?e = "encoded_remote_value (fst match)"
  have mp: "match_pairs (match # rest) = insert (?n, ?e) (match_pairs rest)" by (simp add: match_pairs_def)
  show ?case
  proof (cases "List.find (\<lambda>b. binding_name b = ?n) vs")
    case None
    let ?vs = "vs @ [\<lparr>binding_name = ?n, binding_encoded_value = ?e\<rparr>]"
    have dist: "distinct (map binding_name ?vs)" using None "2.prems" by (auto simp: find_None_iff)
    have pairs: "binding_pairs ?vs \<union> match_pairs rest = binding_pairs vs \<union> match_pairs (match # rest)"
      by (auto simp: mp binding_pairs_def)
    from "2.IH"(1) [OF None dist] None show ?thesis unfolding pairs by simp
  next
    case (Some b)
    then have b: "b \<in> set vs" "binding_name b = ?n" by (auto simp: find_Some_iff)
    then have in_vs: "(?n, binding_encoded_value b) \<in> binding_pairs vs" by (force simp: binding_pairs_def)
    show ?thesis
    proof (cases "binding_encoded_value b = ?e")
      case True
      with in_vs have pairs: "binding_pairs vs \<union> match_pairs (match # rest) = binding_pairs vs \<union> match_pairs rest"
        by (auto simp: mp)
      with "2.IH"(2) [OF Some] Some True "2.prems" show ?thesis unfolding pairs by simp
    next
      case False
      then have "\<not> single_valued (binding_pairs vs \<union> match_pairs (match # rest))"
        using in_vs by (auto simp: mp single_valued_def)
      with Some False show ?thesis by simp
    qed
  qed
qed

text \<open>
  The bindings offered to operation selection are exactly the inputs of the collected matches. They
  are reported conflicting, with no value, precisely when two matches would give one remote input
  different encoded values; otherwise each input occurs once, in strictly increasing order of names.
\<close>

theorem bindings_are_the_matches:
  assumes "ResolveCandidateInputBindings relation operation request = Inr r"
    and "selective_predicate request" and "retains_predicate request"
    and "Kind (requested_pred request) = COMPARISON \<or> Kind (requested_pred request) = CONJUNCTION"
  shows "\<exists>matches unmapped.
    CollectConjunctiveMatches relation operation (requested_pred request) ([], False) = Inr (matches, unmapped) \<and>
    (conflicting r \<longleftrightarrow> \<not> single_valued (match_pairs matches)) \<and>
    binding_pairs (binding_values r) = (if conflicting r then {} else match_pairs matches) \<and>
    sorted_wrt (<) (map binding_name (binding_values r))"
proof -
  from assms obtain matches unmapped where
    c: "CollectConjunctiveMatches relation operation (requested_pred request) ([], False) = Inr (matches, unmapped)"
    and r: "r = (case bind_matches matches [] of None \<Rightarrow> no_bindings True
               | Some vs \<Rightarrow> \<lparr>binding_values = sort_key binding_name vs, conflicting = False\<rparr>)"
    by (auto simp: ResolveCandidateInputBindings_def and_then_Inr_iff split: option.splits)
  note result = bind_matches_result [of "[]" matches]
  show ?thesis
  proof (cases "bind_matches matches []")
    case None
    with result r have "conflicting r \<and> binding_values r = [] \<and> \<not> single_valued (match_pairs matches)"
      by (simp add: no_bindings_def binding_pairs_def)
    with c show ?thesis by (auto simp: binding_pairs_def)
  next
    case (Some vs)
    with result have d: "distinct (map binding_name vs)" and p: "binding_pairs vs = match_pairs matches"
      by (simp_all add: binding_pairs_def)
    have "single_valued (match_pairs matches)"
      using binding_pairs_distinct [OF d] unfolding p single_valued_def by blast
    moreover have "sorted_wrt (<) (map binding_name (sort_key binding_name vs))"
      using d by (simp add: strict_sorted_iff distinct_map)
    ultimately show ?thesis using c p r Some by (auto simp: binding_pairs_def)
  qed
qed

subsection \<open>A worked instance\<close>

text \<open>A relation with one VARCHAR column and one exact mapping, and a request for its literal.\<close>

definition visibility_literal :: compiled_scalar_value where
  "visibility_literal = \<lparr>scalar_type = SCALAR_VARCHAR, scalar_is_null = False, scalar_boolean = False,
     scalar_bigint = 0, scalar_varchar = ''private'', scalar_double = 0, scalar_timestamptz = 0\<rparr>"

definition visibility_mapping :: compiled_predicate_mapping where
  "visibility_mapping = \<lparr>mapping_name = ''m'', mapping_column_name = ''visibility'',
     predicate_operator = PREDICATE_EQUALS, mapping_literal = PACKAGE_TYPED_LITERAL, operation_name = ''list'',
     input_placement = REST_QUERY_PARAMETER, remote_input_name = ''type'', encoded_remote_value = ''private'',
     mapping_accuracy = MAPPING_EXACT, mapping_proof_identity = PACKAGE_DECLARED_V1,
     base_domain = PACKAGE_DECLARED_OCCURRENCE_DOMAIN,
     occurrence_preservation = PRESERVES_EXACT_MATCHING_BASE_OCCURRENCES,
     encoding_capability = SINGLE_POSITIVE_REST_QUERY_INPUT, typed_literal = visibility_literal,
     proof_identity_value = ''p'', base_domain_value = ''d'', matching_fixture = ''a'',
     false_or_null_fixture = ''b'', duplicates_fixture = ''c''\<rparr>"

definition visibility_relation :: compiled_relation where
  "visibility_relation = \<lparr>relation_columns =
     [\<lparr>column_name = ''visibility'', column_shape = SCALAR, element_type = SCALAR_VARCHAR\<rparr>],
     predicate_mappings = [visibility_mapping]\<rparr>"

definition visibility_predicate :: requested_predicate where
  "visibility_predicate =
     RequestedPredicateNode COMPARISON 0 VARCHAR EQUALS (Varchar ''private'') [] 0 1 1"

definition visibility_request :: scan_request where
  "visibility_request = \<lparr>requested_pred = visibility_predicate,
     retained_predicate_scope = REQUESTED_PREDICATE, selective_predicate = True, retains_predicate = True\<rparr>"

definition visibility_base :: "row multiset" where
  "visibility_base = {#[Some (Varchar ''private'')], [Some (Varchar ''public'')], [None], [Some (Varchar ''private'')]#}"

definition visibility_remote :: "typed_equality_decision \<Rightarrow> row multiset" where
  "visibility_remote e = {#[Some (Varchar (te_varchar_value e))], [Some (Varchar (te_varchar_value e))]#}"

lemmas visibility_defs = visibility_literal_def visibility_mapping_def visibility_relation_def
  visibility_predicate_def visibility_request_def

lemmas classifier_defs = Classify_def classify_matches_def ValidateCandidateContract_def
  ValidateMappingFacts_def MappingMatches_def ResidualPredicate_def IsSingleComparison_def
  IsKnownBaseDomain_def MaximumConditionalInputs_def SupportsCompoundConjunctionEncoding_def
  SupportsDisjunctionEncoding_def SupportsComplementEncoding_def ColumnTypeMatches_def
  TypedLiteralMatches_def MAX_REQUESTED_PREDICATE_DEPTH_def MAX_REQUESTED_PREDICATE_NODES_def

lemma visibility_built: "built (requested_pred visibility_request)"
  by (simp add: visibility_request_def)
     (rule built.comparison [OF built_value.varchar [of "''private''"], of 0 VARCHAR EQUALS],
      simp add: Comparison_def visibility_predicate_def Varchar_def)

lemma visibility_decision:
  "\<exists>d. Classify visibility_relation ''list'' visibility_request = Inr d \<and> remote_accuracy d = ACCURACY_EXACT \<and>
       conditional_input d = REST_QUERY_BINDING \<and> te_varchar_value (typed_equality d) = ''private''"
  by (simp add: classifier_defs visibility_defs Varchar_def PlanTypedEquality_def)

lemma visibility_law:
  "occurrence_law (=) visibility_relation ''list'' visibility_base visibility_remote"
  by (simp add: occurrence_law_def visibility_defs visibility_base_def visibility_remote_def
      mapping_condition_def compiled_value_def PlanTypedEquality_def Varchar_def)

theorem pushdown_sound_witness:
  "\<exists>d. Classify visibility_relation ''list'' visibility_request = Inr d \<and>
     filter_mset (\<lambda>row. row = [Some (Varchar ''private'')]) (fetched_rows visibility_base visibility_remote d)
     = {#[Some (Varchar ''private'')], [Some (Varchar ''private'')]#}"
proof -
  obtain d where d: "Classify visibility_relation ''list'' visibility_request = Inr d"
    using visibility_decision by blast
  have "\<forall>row. row = [Some (Varchar ''private'')] \<longrightarrow>
      eval_predicate (=) (\<lambda>u r. None) row (requested_pred visibility_request) = Some True"
    by (simp add: visibility_request_def visibility_predicate_def)
  from pushdown_sound [OF d visibility_built visibility_law this] d
  show ?thesis by (simp add: visibility_base_def Varchar_def)
qed

theorem exact_decision_is_exact_witness:
  "\<exists>d. Classify visibility_relation ''list'' visibility_request = Inr d \<and>
     fetched_rows visibility_base visibility_remote d =
     {#[Some (Varchar ''private'')], [Some (Varchar ''private'')]#}"
proof -
  obtain d where d: "Classify visibility_relation ''list'' visibility_request = Inr d"
    and e: "remote_accuracy d = ACCURACY_EXACT"
    using visibility_decision by blast
  from exact_decision_is_exact [OF d visibility_built visibility_law e, of "\<lambda>u r. None"] d
  show ?thesis
    by (simp add: visibility_request_def visibility_predicate_def visibility_base_def Varchar_def)
qed

theorem bindings_are_the_matches_witness:
  "\<exists>r. ResolveCandidateInputBindings visibility_relation ''list'' visibility_request = Inr r \<and>
     sorted_wrt (<) (map binding_name (binding_values r)) \<and> \<not> conflicting r"
proof -
  obtain r where r: "ResolveCandidateInputBindings visibility_relation ''list'' visibility_request = Inr r"
    and c: "\<not> conflicting r"
    by (simp add: ResolveCandidateInputBindings_def classifier_defs visibility_defs Varchar_def)
  have "selective_predicate visibility_request" "retains_predicate visibility_request"
    "Kind (requested_pred visibility_request) = COMPARISON \<or> Kind (requested_pred visibility_request) = CONJUNCTION"
    by (simp_all add: visibility_defs)
  from bindings_are_the_matches [OF r this] r c show ?thesis by blast
qed

end
