(* ===== verification/Uri_Reference.thy ===== *)
theory Uri_Reference
  imports Cuac_Prelude
begin

section \<open>URI references\<close>

text \<open>
  The syntax validators of \<open>src/runtime/pagination/uri_reference.cpp\<close>. An index pair into the
  source's string is the substring it delimits, and \<open>find\<close> followed by \<open>substr\<close> is \<open>split_at\<close>;
  a loop over \<open>find\<close> is \<open>split_all\<close>. \<open>Uri_Addresses\<close> and \<open>Uri_Validation\<close> prove that the one-pass validators accept exactly
  the language of the grammar of RFC 3986 in \<open>Uri_Grammar\<close>.
\<close>

definition IsUnreserved :: "char \<Rightarrow> bool" where
  "IsUnreserved c \<longleftrightarrow> IsAsciiAlpha c \<or> IsAsciiDigit c \<or> c = CHR ''-'' \<or> c = CHR ''.'' \<or> c = CHR ''_'' \<or> c = CHR ''~''"

definition IsSubDelimiter :: "char \<Rightarrow> bool" where
  "IsSubDelimiter c \<longleftrightarrow> c \<in> {CHR ''!'', CHR ''$'', CHR ''&'', CHR 0x27, CHR ''('', CHR '')'', CHR ''*'', CHR ''+'',
     CHR '','', CHR '';'', CHR ''=''}"

datatype ComponentKind = PCHAR | QUERY_OR_FRAGMENT | USER_INFO | REG_NAME

definition IsPlainComponentCharacter :: "char \<Rightarrow> ComponentKind \<Rightarrow> bool" where
  "IsPlainComponentCharacter c kind \<longleftrightarrow> IsUnreserved c \<or> IsSubDelimiter c \<or>
     (case kind of
        PCHAR \<Rightarrow> c = CHR '':'' \<or> c = CHR ''@''
      | QUERY_OR_FRAGMENT \<Rightarrow> c = CHR '':'' \<or> c = CHR ''@'' \<or> c = CHR ''/'' \<or> c = CHR ''?''
      | USER_INFO \<Rightarrow> c = CHR '':''
      | REG_NAME \<Rightarrow> False)"

fun ValidateComponent :: "ComponentKind \<Rightarrow> string \<Rightarrow> bool" where
  "ValidateComponent kind [] = True"
| "ValidateComponent kind (c # cs) =
     (if c = CHR ''%'' then
        (case cs of a # b # rest \<Rightarrow> IsHexDigit a \<and> IsHexDigit b \<and> ValidateComponent kind rest | _ \<Rightarrow> False)
      else IsPlainComponentCharacter c kind \<and> ValidateComponent kind cs)"

definition ValidateDecimalOctet :: "string \<Rightarrow> bool" where
  "ValidateDecimalOctet v \<longleftrightarrow>
     \<not> (v = [] \<or> length v > 3 \<or> length v > 1 \<and> hd v = CHR ''0'') \<and>
     list_all IsAsciiDigit v \<and> digits_value v \<le> 255"

definition ValidateIpv4Address :: "string \<Rightarrow> bool" where
  "ValidateIpv4Address v \<longleftrightarrow>
     list_all ValidateDecimalOctet (split_all CHR ''.'' v) \<and> length (split_all CHR ''.'' v) = 4"

definition SplitIpv6Side :: "string \<Rightarrow> string list option" where
  "SplitIpv6Side side =
     (if side = [] then Some []
      else let segments = split_all CHR '':'' side in if [] \<in> set segments then None else Some segments)"

text \<open>\<open>find("::")\<close> and the two substrings around the occurrence.\<close>

fun split_compression :: "string \<Rightarrow> (string \<times> string) option" where
  "split_compression (a # b # rest) =
     (if a = CHR '':'' \<and> b = CHR '':'' then Some ([], rest)
      else map_option (\<lambda>(l, r). (a # l, r)) (split_compression (b # rest)))"
| "split_compression _ = None"

text \<open>The loop over the textual segments; \<open>None\<close> is its \<open>return false\<close>.\<close>

fun ipv6_units :: "bool \<Rightarrow> string list \<Rightarrow> nat \<Rightarrow> nat option" where
  "ipv6_units compression_follows_segment [] units = Some units"
| "ipv6_units compression_follows_segment (segment # rest) units =
     (if CHR ''.'' \<in> set segment then
        (if rest \<noteq> [] \<or> compression_follows_segment \<or> \<not> ValidateIpv4Address segment then None
         else ipv6_units compression_follows_segment rest (units + 2))
      else if segment = [] \<or> length segment > 4 then None
      else if \<not> list_all IsHexDigit segment then None
      else ipv6_units compression_follows_segment rest (units + 1))"

definition ValidateIpv6Address :: "string \<Rightarrow> bool" where
  "ValidateIpv6Address v =
     (case split_compression v of
        None \<Rightarrow>
          (case SplitIpv6Side v of None \<Rightarrow> False
           | Some left \<Rightarrow> ipv6_units False left 0 = Some 8)
      | Some (before, after) \<Rightarrow>
          if split_compression after \<noteq> None then False
          else (case (SplitIpv6Side before, SplitIpv6Side after) of
                  (Some left, Some right) \<Rightarrow>
                    (case ipv6_units (right = []) (left @ right) 0 of None \<Rightarrow> False | Some units \<Rightarrow> units < 8)
                | _ \<Rightarrow> False))"

definition ValidateIpvFuture :: "string \<Rightarrow> bool" where
  "ValidateIpvFuture v =
     (if length v < 4 \<or> (hd v \<noteq> CHR ''v'' \<and> hd v \<noteq> CHR ''V'') then False
      else let version = takeWhile IsHexDigit (tl v); rest = dropWhile IsHexDigit (tl v)
        in version \<noteq> [] \<and> rest \<noteq> [] \<and> hd rest = CHR ''.'' \<and> tl rest \<noteq> [] \<and>
           list_all (\<lambda>c. IsUnreserved c \<or> IsSubDelimiter c \<or> c = CHR '':'') (tl rest))"

definition ValidateIpLiteral :: "string \<Rightarrow> bool" where
  "ValidateIpLiteral v \<longleftrightarrow> ValidateIpv6Address v \<or> ValidateIpvFuture v"

definition ValidatePort :: "string \<Rightarrow> bool" where
  "ValidatePort v \<longleftrightarrow> list_all IsAsciiDigit v"

text \<open>The part of \<open>ValidateAuthority\<close> from \<open>host_begin\<close> on.\<close>

definition validate_host :: "string \<Rightarrow> bool" where
  "validate_host h =
     (if h \<noteq> [] \<and> hd h = CHR ''['' then
        (case split_at CHR '']'' (tl h) of
           None \<Rightarrow> False
         | Some (literal, rest) \<Rightarrow>
             literal \<noteq> [] \<and> ValidateIpLiteral literal \<and>
             (rest = [] \<or> hd rest = CHR '':'' \<and> ValidatePort (tl rest)))
      else if CHR ''['' \<in> set h \<or> CHR '']'' \<in> set h then False
      else case split_at CHR '':'' h of
        None \<Rightarrow> ValidateComponent REG_NAME h
      | Some (name, port) \<Rightarrow>
          CHR '':'' \<notin> set port \<and> ValidateComponent REG_NAME name \<and> ValidatePort port)"

definition ValidateAuthority :: "string \<Rightarrow> bool" where
  "ValidateAuthority authority =
     (case split_at CHR ''@'' authority of
        None \<Rightarrow> validate_host authority
      | Some (user, host) \<Rightarrow>
          CHR ''@'' \<notin> set host \<and> ValidateComponent USER_INFO user \<and> validate_host host)"

definition ValidatePathCharacters :: "string \<Rightarrow> bool" where
  "ValidatePathCharacters path \<longleftrightarrow> list_all (ValidateComponent PCHAR) (split_all CHR ''/'' path)"

definition ValidatePathAbempty :: "string \<Rightarrow> bool" where
  "ValidatePathAbempty path \<longleftrightarrow> (path = [] \<or> hd path = CHR ''/'') \<and> ValidatePathCharacters path"

definition ValidatePathAbsolute :: "string \<Rightarrow> bool" where
  "ValidatePathAbsolute path \<longleftrightarrow> path \<noteq> [] \<and> hd path = CHR ''/'' \<and>
     (length path = 1 \<or> path ! 1 \<noteq> CHR ''/'') \<and> ValidatePathCharacters path"

definition ValidatePathRootless :: "string \<Rightarrow> bool" where
  "ValidatePathRootless path \<longleftrightarrow> path \<noteq> [] \<and> hd path \<noteq> CHR ''/'' \<and> ValidatePathCharacters path"

definition ValidatePathNoScheme :: "string \<Rightarrow> bool" where
  "ValidatePathNoScheme path \<longleftrightarrow> ValidatePathRootless path \<and>
     CHR '':'' \<notin> set (case split_at CHR ''/'' path of None \<Rightarrow> path | Some (segment, rest) \<Rightarrow> segment)"

text \<open>The argument is the hierarchy after its leading two slashes.\<close>

definition ValidateAuthorityAndPath :: "string \<Rightarrow> bool" where
  "ValidateAuthorityAndPath rest =
     (case split_at CHR ''/'' rest of
        None \<Rightarrow> ValidateAuthority rest \<and> ValidatePathAbempty []
      | Some (authority, path) \<Rightarrow> ValidateAuthority authority \<and> ValidatePathAbempty (CHR ''/'' # path))"

definition ValidateHierPart :: "string \<Rightarrow> bool \<Rightarrow> bool" where
  "ValidateHierPart hierarchy relative =
     (if take 2 hierarchy = ''//'' then ValidateAuthorityAndPath (drop 2 hierarchy)
      else if hierarchy = [] then True
      else if hd hierarchy = CHR ''/'' then ValidatePathAbsolute hierarchy
      else if relative then ValidatePathNoScheme hierarchy else ValidatePathRootless hierarchy)"

text \<open>The argument is the text before the colon.\<close>

definition ValidateScheme :: "string \<Rightarrow> bool" where
  "ValidateScheme scheme =
     (if scheme = [] \<or> \<not> IsAsciiAlpha (hd scheme) then False
      else list_all (\<lambda>c. IsAsciiAlpha c \<or> IsAsciiDigit c \<or> c = CHR ''+'' \<or> c = CHR ''-'' \<or> c = CHR ''.'') (tl scheme))"

text \<open>The part of \<open>ValidateReference\<close> from the search for the colon on.\<close>

definition validate_hierarchy :: "string \<Rightarrow> bool \<Rightarrow> bool" where
  "validate_hierarchy hierarchy require_uri =
     (let scheme = (case split_at CHR '':'' hierarchy of
                      None \<Rightarrow> None
                    | Some (s, rest) \<Rightarrow> if ValidateScheme s then Some rest else None)
      in case scheme of
           None \<Rightarrow> if require_uri then False else ValidateHierPart hierarchy True
         | Some rest \<Rightarrow> ValidateHierPart rest False)"

definition ValidateReference :: "string \<Rightarrow> bool \<Rightarrow> bool" where
  "ValidateReference v require_uri =
     (let (reference, fragment) = (case split_at CHR ''#'' v of None \<Rightarrow> (v, None) | Some (r, f) \<Rightarrow> (r, Some f));
          (hierarchy, query) = (case split_at CHR ''?'' reference of None \<Rightarrow> (reference, None) | Some (h, q) \<Rightarrow> (h, Some q))
      in if (case fragment of None \<Rightarrow> False | Some f \<Rightarrow> CHR ''#'' \<in> set f) then False
         else if (case fragment of None \<Rightarrow> False | Some f \<Rightarrow> \<not> ValidateComponent QUERY_OR_FRAGMENT f) then False
         else if (case query of None \<Rightarrow> False | Some q \<Rightarrow> \<not> ValidateComponent QUERY_OR_FRAGMENT q) then False
         else validate_hierarchy hierarchy require_uri)"

definition IsValidUriReference :: "string \<Rightarrow> bool" where
  "IsValidUriReference v = ValidateReference v False"

definition IsValidUri :: "string \<Rightarrow> bool" where
  "IsValidUri v = ValidateReference v True"

end
