(* ===== verification/Uri_Grammar.thy ===== *)
theory Uri_Grammar
  imports Main
begin

section \<open>The grammar of URI references\<close>

text \<open>
  The collected ABNF of RFC 3986, appendix A, production by production: the character classes are written out as sets, and a
  concatenation is the existence of its parts. Nothing here refers to the program; \<open>Uri_Validation\<close> shows that its validators
  accept exactly this language.
\<close>

subsection \<open>Characters\<close>

definition ALPHA :: "char set" where
  "ALPHA = set ''ABCDEFGHIJKLMNOPQRSTUVWXYZabcdefghijklmnopqrstuvwxyz''"

definition DIGIT :: "char set" where
  "DIGIT = set ''0123456789''"

definition HEXDIG :: "char set" where
  "HEXDIG = DIGIT \<union> set ''ABCDEFabcdef''"

definition unreserved :: "char set" where
  "unreserved = ALPHA \<union> DIGIT \<union> set ''-._~''"

definition sub_delims :: "char set" where
  "sub_delims = set ''!$&()*+,;='' \<union> {CHR 0x27}"

definition pchar :: "char set" where
  "pchar = unreserved \<union> sub_delims \<union> set '':@''"

definition query_char :: "char set" where
  "query_char = pchar \<union> set ''/?''"

definition userinfo_char :: "char set" where
  "userinfo_char = unreserved \<union> sub_delims \<union> set '':''"

definition reg_name_char :: "char set" where
  "reg_name_char = unreserved \<union> sub_delims"

text \<open>\<open>*( A / pct-pct_encoded )\<close>\<close>

inductive pct_encoded :: "char set \<Rightarrow> string \<Rightarrow> bool" for A where
  empty: "pct_encoded A []"
| plain: "c \<in> A \<Longrightarrow> pct_encoded A s \<Longrightarrow> pct_encoded A (c # s)"
| percent: "a \<in> HEXDIG \<Longrightarrow> b \<in> HEXDIG \<Longrightarrow> pct_encoded A s \<Longrightarrow> pct_encoded A (CHR ''%'' # a # b # s)"

subsection \<open>Addresses\<close>

text \<open>\<open>dec-octet\<close> by its five alternatives, \<open>h16\<close>, \<open>ls32\<close>, \<open>n( h16 ":" )\<close> and \<open>[ *n( h16 ":" ) h16 ]\<close>\<close>

definition dec_octet :: "string \<Rightarrow> bool" where
  "dec_octet s \<longleftrightarrow>
     (\<exists>a \<in> DIGIT. s = [a]) \<or>
     (\<exists>a \<in> set ''123456789''. \<exists>b \<in> DIGIT. s = [a, b]) \<or>
     (\<exists>a \<in> DIGIT. \<exists>b \<in> DIGIT. s = [CHR ''1'', a, b]) \<or>
     (\<exists>a \<in> set ''01234''. \<exists>b \<in> DIGIT. s = [CHR ''2'', a, b]) \<or>
     (\<exists>b \<in> set ''012345''. s = [CHR ''2'', CHR ''5'', b])"

definition ipv4_grammar :: "string \<Rightarrow> bool" where
  "ipv4_grammar s \<longleftrightarrow>
     (\<exists>a b c d. dec_octet a \<and> dec_octet b \<and> dec_octet c \<and> dec_octet d \<and> s = a @ ''.'' @ b @ ''.'' @ c @ ''.'' @ d)"

definition h16 :: "string \<Rightarrow> bool" where
  "h16 s \<longleftrightarrow> 1 \<le> length s \<and> length s \<le> 4 \<and> set s \<subseteq> HEXDIG"

definition ls32 :: "string \<Rightarrow> bool" where
  "ls32 s \<longleftrightarrow> (\<exists>a b. h16 a \<and> h16 b \<and> s = a @ '':'' @ b) \<or> ipv4_grammar s"

fun groups :: "nat \<Rightarrow> string \<Rightarrow> bool" where
  "groups 0 s \<longleftrightarrow> s = []"
| "groups (Suc n) s \<longleftrightarrow> (\<exists>g rest. h16 g \<and> groups n rest \<and> s = g @ '':'' @ rest)"

definition optional_groups :: "nat \<Rightarrow> string \<Rightarrow> bool" where
  "optional_groups n s \<longleftrightarrow> s = [] \<or> (\<exists>m \<le> n. \<exists>r g. groups m r \<and> h16 g \<and> s = r @ g)"

definition ipv6_grammar :: "string \<Rightarrow> bool" where
  "ipv6_grammar s \<longleftrightarrow>
     (\<exists>r t. s = r @ t \<and> groups 6 r \<and> ls32 t) \<or>
     (\<exists>r t. s = ''::'' @ r @ t \<and> groups 5 r \<and> ls32 t) \<or>
     (\<exists>l r t. s = l @ ''::'' @ r @ t \<and> optional_groups 0 l \<and> groups 4 r \<and> ls32 t) \<or>
     (\<exists>l r t. s = l @ ''::'' @ r @ t \<and> optional_groups 1 l \<and> groups 3 r \<and> ls32 t) \<or>
     (\<exists>l r t. s = l @ ''::'' @ r @ t \<and> optional_groups 2 l \<and> groups 2 r \<and> ls32 t) \<or>
     (\<exists>l r t. s = l @ ''::'' @ r @ t \<and> optional_groups 3 l \<and> groups 1 r \<and> ls32 t) \<or>
     (\<exists>l t. s = l @ ''::'' @ t \<and> optional_groups 4 l \<and> ls32 t) \<or>
     (\<exists>l t. s = l @ ''::'' @ t \<and> optional_groups 5 l \<and> h16 t) \<or>
     (\<exists>l. s = l @ ''::'' \<and> optional_groups 6 l)"

definition ipvfuture_grammar :: "string \<Rightarrow> bool" where
  "ipvfuture_grammar s \<longleftrightarrow>
     (\<exists>v h t. s = v # h @ ''.'' @ t \<and> v \<in> set ''vV'' \<and> h \<noteq> [] \<and> set h \<subseteq> HEXDIG \<and> t \<noteq> [] \<and>
        set t \<subseteq> unreserved \<union> sub_delims \<union> {CHR '':''})"

definition ip_literal_grammar :: "string \<Rightarrow> bool" where
  "ip_literal_grammar s \<longleftrightarrow> (\<exists>l. s = ''['' @ l @ '']'' \<and> (ipv6_grammar l \<or> ipvfuture_grammar l))"

subsection \<open>Authorities and paths\<close>

definition optional_part :: "char \<Rightarrow> (string \<Rightarrow> bool) \<Rightarrow> string \<Rightarrow> bool" where
  "optional_part c part s \<longleftrightarrow> s = [] \<or> (\<exists>t. s = c # t \<and> part t)"

definition port_grammar :: "string \<Rightarrow> bool" where
  "port_grammar s \<longleftrightarrow> set s \<subseteq> DIGIT"

definition host_grammar :: "string \<Rightarrow> bool" where
  "host_grammar h \<longleftrightarrow> ip_literal_grammar h \<or> ipv4_grammar h \<or> pct_encoded reg_name_char h"

definition authority_grammar :: "string \<Rightarrow> bool" where
  "authority_grammar s \<longleftrightarrow>
     (\<exists>user host port. s = user @ host @ port \<and>
        (user = [] \<or> (\<exists>u. user = u @ ''@'' \<and> pct_encoded userinfo_char u)) \<and>
        host_grammar host \<and> optional_part CHR '':'' port_grammar port)"

text \<open>\<open>segments_grammar\<close> is \<open>*( "/" segment )\<close>.\<close>

inductive segments_grammar :: "string \<Rightarrow> bool" where
  none: "segments_grammar []"
| more: "pct_encoded pchar s \<Longrightarrow> segments_grammar rest \<Longrightarrow> segments_grammar (CHR ''/'' # s @ rest)"

definition path_rootless :: "string \<Rightarrow> bool" where
  "path_rootless p \<longleftrightarrow> (\<exists>s rest. p = s @ rest \<and> s \<noteq> [] \<and> pct_encoded pchar s \<and> segments_grammar rest)"

definition path_noscheme :: "string \<Rightarrow> bool" where
  "path_noscheme p \<longleftrightarrow>
     (\<exists>s rest. p = s @ rest \<and> s \<noteq> [] \<and> CHR '':'' \<notin> set s \<and> pct_encoded pchar s \<and> segments_grammar rest)"

definition path_absolute :: "string \<Rightarrow> bool" where
  "path_absolute p \<longleftrightarrow> (\<exists>q. p = CHR ''/'' # q \<and> (q = [] \<or> path_rootless q))"

definition authority_path :: "string \<Rightarrow> bool" where
  "authority_path p \<longleftrightarrow> (\<exists>a q. p = ''//'' @ a @ q \<and> authority_grammar a \<and> segments_grammar q)"

definition hier_part :: "string \<Rightarrow> bool" where
  "hier_part p \<longleftrightarrow> authority_path p \<or> path_absolute p \<or> path_rootless p \<or> p = []"

definition relative_part :: "string \<Rightarrow> bool" where
  "relative_part p \<longleftrightarrow> authority_path p \<or> path_absolute p \<or> path_noscheme p \<or> p = []"

subsection \<open>References\<close>

definition scheme_grammar :: "string \<Rightarrow> bool" where
  "scheme_grammar s \<longleftrightarrow> (\<exists>c cs. s = c # cs \<and> c \<in> ALPHA \<and> set cs \<subseteq> ALPHA \<union> DIGIT \<union> set ''+-.'')"

definition with_query_and_fragment :: "(string \<Rightarrow> bool) \<Rightarrow> string \<Rightarrow> bool" where
  "with_query_and_fragment part v \<longleftrightarrow>
     (\<exists>h q f. v = h @ q @ f \<and> part h \<and> optional_part CHR ''?'' (pct_encoded query_char) q \<and>
        optional_part CHR ''#'' (pct_encoded query_char) f)"

definition uri_grammar :: "string \<Rightarrow> bool" where
  "uri_grammar = with_query_and_fragment
     (\<lambda>h. \<exists>s p. h = s @ CHR '':'' # p \<and> scheme_grammar s \<and> hier_part p)"

definition relative_ref_grammar :: "string \<Rightarrow> bool" where
  "relative_ref_grammar = with_query_and_fragment relative_part"

end
