(* ===== verification/Uri_Addresses.thy ===== *)
theory Uri_Addresses
  imports Uri_Reference Uri_Grammar
begin

section \<open>Addresses in URI references\<close>

text \<open>
  The character tests of \<open>Uri_Reference\<close> are the classes of the grammar, and its address checks accept exactly the IPv4, IPv6 and future
  address forms of RFC 3986: the segments and the units that the code counts are matched with the nine alternatives of the grammar.
\<close>

subsection \<open>Character classes\<close>

lemma in_list_bytes: "c \<in> set cs \<longleftrightarrow> byte c \<in> set (map byte cs)"
  by (auto simp: byte_def)

lemma class_tables:
  "c \<in> ALPHA \<longleftrightarrow> IsAsciiAlpha c" "c \<in> DIGIT \<longleftrightarrow> IsAsciiDigit c" "c \<in> HEXDIG \<longleftrightarrow> IsHexDigit c"
  "c \<in> unreserved \<longleftrightarrow> IsUnreserved c" "c \<in> sub_delims \<longleftrightarrow> IsSubDelimiter c"
proof -
  have bounds: "byte CHR ''A'' = 65" "byte CHR ''Z'' = 90" "byte CHR ''a'' = 97" "byte CHR ''z'' = 122" "byte CHR ''0'' = 48" "byte CHR ''9'' = 57"
    "byte CHR ''F'' = 70" "byte CHR ''f'' = 102" by (simp_all add: byte_def)
  have "map byte ''ABCDEFGHIJKLMNOPQRSTUVWXYZabcdefghijklmnopqrstuvwxyz'' = [65..<91] @ [97..<123]" by (simp add: byte_def upt_rec_numeral)
  then have letters: "set (map byte ''ABCDEFGHIJKLMNOPQRSTUVWXYZabcdefghijklmnopqrstuvwxyz'') = {65..<91} \<union> {97..<123}" by (simp only: set_append set_upt)
  show a: "c \<in> ALPHA \<longleftrightarrow> IsAsciiAlpha c"
    unfolding ALPHA_def in_list_bytes [of c] letters IsAsciiAlpha_def in_range_def bounds by auto
  have "map byte ''0123456789'' = [48..<58]" by (simp add: byte_def upt_rec_numeral)
  then have decimals: "set (map byte ''0123456789'') = {48..<58}" by (simp only: set_upt)
  show d: "c \<in> DIGIT \<longleftrightarrow> IsAsciiDigit c"
    unfolding DIGIT_def in_list_bytes [of c] decimals IsAsciiDigit_def in_range_def bounds by auto
  have "map byte ''ABCDEFabcdef'' = [65..<71] @ [97..<103]" by (simp add: byte_def upt_rec_numeral)
  then have hexes: "set (map byte ''ABCDEFabcdef'') = {65..<71} \<union> {97..<103}" by (simp only: set_append set_upt)
  have "c \<in> set ''ABCDEFabcdef'' \<longleftrightarrow> in_range CHR ''a'' CHR ''f'' c \<or> in_range CHR ''A'' CHR ''F'' c"
    unfolding in_list_bytes [of c] hexes in_range_def bounds by auto
  with d show "c \<in> HEXDIG \<longleftrightarrow> IsHexDigit c" unfolding HEXDIG_def IsHexDigit_def Un_iff by simp
  show "c \<in> unreserved \<longleftrightarrow> IsUnreserved c" using a d by (auto simp: unreserved_def IsUnreserved_def)
  show "c \<in> sub_delims \<longleftrightarrow> IsSubDelimiter c" by (auto simp: sub_delims_def IsSubDelimiter_def)
qed

definition plain_characters :: "ComponentKind \<Rightarrow> char set" where
  "plain_characters kind = {c. IsPlainComponentCharacter c kind}"

abbreviation component :: "ComponentKind \<Rightarrow> string \<Rightarrow> bool" where
  "component kind \<equiv> pct_encoded (plain_characters kind)"

lemma class_eqs:
  "ALPHA = {c. IsAsciiAlpha c}" "DIGIT = {c. IsAsciiDigit c}" "HEXDIG = {c. IsHexDigit c}"
  "unreserved = {c. IsUnreserved c}" "sub_delims = {c. IsSubDelimiter c}"
  "pchar = plain_characters PCHAR" "query_char = plain_characters QUERY_OR_FRAGMENT"
  "userinfo_char = plain_characters USER_INFO" "reg_name_char = plain_characters REG_NAME"
  by (auto simp: class_tables pchar_def query_char_def userinfo_char_def reg_name_char_def plain_characters_def IsPlainComponentCharacter_def)

lemma port_iff: "port_grammar = list_all IsAsciiDigit"
  by (auto simp: fun_eq_iff port_grammar_def class_eqs list_all_iff)

subsection \<open>Dotted quads\<close>

lemma digit_byte_range:
  "j \<le> 10 \<Longrightarrow> c \<in> set (map digit_char [i..<j]) \<longleftrightarrow> IsAsciiDigit c \<and> i \<le> digit_value c \<and> digit_value c < j"
  by (auto simp: image_iff intro: bexI [of _ "digit_value c"])

lemma digit_sets:
  "c \<in> set ''123456789'' \<longleftrightarrow> IsAsciiDigit c \<and> 1 \<le> digit_value c"
  "c \<in> set ''01234'' \<longleftrightarrow> IsAsciiDigit c \<and> digit_value c < 5"
  "c \<in> set ''012345'' \<longleftrightarrow> IsAsciiDigit c \<and> digit_value c < 6"
  "c = CHR ''1'' \<longleftrightarrow> IsAsciiDigit c \<and> digit_value c = 1"
  "c = CHR ''2'' \<longleftrightarrow> IsAsciiDigit c \<and> digit_value c = 2"
  "c = CHR ''5'' \<longleftrightarrow> IsAsciiDigit c \<and> digit_value c = 5"
proof -
  have lists: "''123456789'' = map digit_char [1..<10]" "''01234'' = map digit_char [0..<5]" "''012345'' = map digit_char [0..<6]"
    "''1'' = map digit_char [1..<2]" "''2'' = map digit_char [2..<3]" "''5'' = map digit_char [5..<6]" by code_simp+
  have one: "c = x \<longleftrightarrow> c \<in> set [x]" for x by simp
  note range = digit_byte_range [of _ c]
  show "c \<in> set ''123456789'' \<longleftrightarrow> IsAsciiDigit c \<and> 1 \<le> digit_value c"
    using range [of 10 1] digit_value_less [of c] unfolding lists(1) by auto
  show "c \<in> set ''01234'' \<longleftrightarrow> IsAsciiDigit c \<and> digit_value c < 5" using range [of 5 0] unfolding lists(2) by simp
  show "c \<in> set ''012345'' \<longleftrightarrow> IsAsciiDigit c \<and> digit_value c < 6" using range [of 6 0] unfolding lists(3) by simp
  show "c = CHR ''1'' \<longleftrightarrow> IsAsciiDigit c \<and> digit_value c = 1" using range [of 2 1] unfolding one lists(4) by auto
  show "c = CHR ''2'' \<longleftrightarrow> IsAsciiDigit c \<and> digit_value c = 2" using range [of 3 2] unfolding one lists(5) by auto
  show "c = CHR ''5'' \<longleftrightarrow> IsAsciiDigit c \<and> digit_value c = 5" using range [of 6 5] unfolding one lists(6) by auto
qed

text \<open>The octets of the grammar in terms of the values of their digits.\<close>

lemma dec_octet_values:
  "dec_octet s \<longleftrightarrow>
     (\<exists>a. s = [a] \<and> IsAsciiDigit a) \<or>
     (\<exists>a b. s = [a, b] \<and> IsAsciiDigit a \<and> IsAsciiDigit b \<and> 1 \<le> digit_value a) \<or>
     (\<exists>x a b. s = [x, a, b] \<and> IsAsciiDigit x \<and> IsAsciiDigit a \<and> IsAsciiDigit b \<and>
        (digit_value x = 1 \<or> digit_value x = 2 \<and> (digit_value a < 5 \<or> digit_value a = 5 \<and> digit_value b < 6)))"
proof -
  have rows: "(\<exists>a \<in> DIGIT. s = [a]) \<longleftrightarrow> (\<exists>a. s = [a] \<and> IsAsciiDigit a)"
    "(\<exists>a \<in> A. \<exists>b \<in> DIGIT. s = [a, b]) \<longleftrightarrow> (\<exists>a b. s = [a, b] \<and> a \<in> A \<and> IsAsciiDigit b)"
    "(\<exists>a \<in> A. \<exists>b \<in> DIGIT. s = [y, a, b]) \<longleftrightarrow> (\<exists>x a b. s = [x, a, b] \<and> x = y \<and> a \<in> A \<and> IsAsciiDigit b)"
    "(\<exists>b \<in> A. s = [y, z, b]) \<longleftrightarrow> (\<exists>x a b. s = [x, a, b] \<and> x = y \<and> a = z \<and> b \<in> A)" for A y z
    by (auto simp: class_tables)
  show ?thesis
    unfolding dec_octet_def unfolding rows(3) unfolding rows(2) unfolding rows(1) unfolding rows(4) unfolding class_tables(2) digit_sets by blast
qed

lemma octet_grammar: "ValidateDecimalOctet s \<longleftrightarrow> dec_octet s"
proof -
  consider "s = []" | a where "s = [a]" | a b where "s = [a, b]" | x a b where "s = [x, a, b]" | "3 < length s"
    by (cases s rule: list.exhaust; cases "tl s" rule: list.exhaust; cases "tl (tl s)" rule: list.exhaust; cases "tl (tl (tl s))" rule: list.exhaust) auto
  then show ?thesis
  proof cases
    case 2
    then show ?thesis by (auto simp: ValidateDecimalOctet_def dec_octet_values digits_value_def dest: digit_value_less)
  next
    case 3
    have "digit_value a * 10 + digit_value b \<le> 255" if "IsAsciiDigit a" "IsAsciiDigit b"
      using digit_value_less [OF that(1)] digit_value_less [OF that(2)] by simp
    with 3 digit_zero_iff [of a] show ?thesis by (auto simp: ValidateDecimalOctet_def dec_octet_values digits_value_def)
  next
    case 4
    have "(x \<noteq> CHR ''0'' \<and> (digit_value x * 10 + digit_value a) * 10 + digit_value b \<le> 255) \<longleftrightarrow>
        (digit_value x = 1 \<or> digit_value x = 2 \<and> (digit_value a < 5 \<or> digit_value a = 5 \<and> digit_value b < 6))"
      if "IsAsciiDigit x" "IsAsciiDigit a" "IsAsciiDigit b"
      using digit_value_less [OF that(2)] digit_value_less [OF that(3)] digit_zero_iff [OF that(1)] by auto
    with 4 show ?thesis by (auto simp: ValidateDecimalOctet_def dec_octet_values digits_value_def)
  qed (auto simp: ValidateDecimalOctet_def dec_octet_values)
qed

lemma quad_join: "a @ ''.'' @ b @ ''.'' @ c @ ''.'' @ d = join_with CHR ''.'' [a, b, c, d]"
  by simp

lemma dec_octet_plain: "dec_octet s \<Longrightarrow> CHR ''.'' \<notin> set s \<and> CHR '':'' \<notin> set s \<and> s \<noteq> []"
  by (auto simp: dec_octet_values digit_bytes byte_def)

lemma ipv4_iff: "ValidateIpv4Address s \<longleftrightarrow> ipv4_grammar s"
proof
  assume v: "ValidateIpv4Address s"
  then obtain a b c d where p: "split_all CHR ''.'' s = [a, b, c, d]"
    by (auto simp: ValidateIpv4Address_def numeral_eq_Suc length_Suc_conv)
  then have "s = join_with CHR ''.'' [a, b, c, d]" using join_split_all [of "CHR ''.''" s] by simp
  with v p show "ipv4_grammar s" unfolding ipv4_grammar_def quad_join by (auto simp: ValidateIpv4Address_def octet_grammar)
next
  assume "ipv4_grammar s"
  then obtain a b c d where o: "dec_octet a" "dec_octet b" "dec_octet c" "dec_octet d" and s: "s = join_with CHR ''.'' [a, b, c, d]"
    unfolding ipv4_grammar_def quad_join by blast
  have "split_all CHR ''.'' s = [a, b, c, d]" unfolding s by (rule split_all_join) (use o dec_octet_plain in auto)
  with o show "ValidateIpv4Address s" by (simp add: ValidateIpv4Address_def octet_grammar)
qed

lemma ipv4_facts: "ipv4_grammar s \<Longrightarrow> CHR ''.'' \<in> set s \<and> CHR '':'' \<notin> set s \<and> s \<noteq> []"
  using dec_octet_plain by (auto simp: ipv4_grammar_def)

subsection \<open>Groups\<close>

abbreviation colons :: "string list \<Rightarrow> string" where
  "colons \<equiv> join_with CHR '':''"

definition segments_ok :: "string list \<Rightarrow> bool" where
  "segments_ok xs \<longleftrightarrow> (\<forall>g \<in> set xs. g \<noteq> [] \<and> CHR '':'' \<notin> set g)"

lemma h16_facts: "h16 g \<Longrightarrow> g \<noteq> [] \<and> CHR '':'' \<notin> set g \<and> CHR ''.'' \<notin> set g"
proof -
  have "CHR '':'' \<notin> HEXDIG" "CHR ''.'' \<notin> HEXDIG" by code_simp+
  then show "h16 g \<Longrightarrow> ?thesis" by (auto simp: h16_def)
qed

lemma h16_iff: "h16 g \<longleftrightarrow> \<not> (g = [] \<or> length g > 4) \<and> list_all IsHexDigit g"
  by (cases g) (auto simp: h16_def class_eqs list_all_iff)

lemma SplitIpv6Side_iff: "SplitIpv6Side s = Some xs \<longleftrightarrow> segments_ok xs \<and> s = colons xs"
proof
  assume "SplitIpv6Side s = Some xs"
  then show "segments_ok xs \<and> s = colons xs"
    using split_all_no_sep [of "CHR '':''" s] join_split_all [of "CHR '':''" s]
    by (auto simp: SplitIpv6Side_def segments_ok_def Let_def split: if_splits)
next
  assume ok: "segments_ok xs \<and> s = colons xs"
  show "SplitIpv6Side s = Some xs"
  proof (cases xs)
    case (Cons x ys)
    then have "s \<noteq> []" using ok by (cases ys) (auto simp: segments_ok_def)
    moreover have "split_all CHR '':'' s = xs" using ok Cons split_all_join [of xs "CHR '':''"] by (simp add: segments_ok_def)
    ultimately show ?thesis using ok by (auto simp: SplitIpv6Side_def segments_ok_def)
  qed (use ok in \<open>simp add: SplitIpv6Side_def\<close>)
qed

text \<open>Segments that stand for \<open>k\<close> groups of sixteen bits: all of them groups, or the last one a dotted quad that counts twice.\<close>

definition stand_for :: "string list \<Rightarrow> nat \<Rightarrow> bool" where
  "stand_for xs k \<longleftrightarrow>
     list_all h16 xs \<and> k = length xs \<or> (\<exists>gs q. xs = gs @ [q] \<and> list_all h16 gs \<and> ipv4_grammar q \<and> k = length gs + 2)"

lemma ipv6_units_iff:
  "ipv6_units b xs u = Some k \<longleftrightarrow>
     list_all h16 xs \<and> k = u + length xs \<or>
     \<not> b \<and> (\<exists>gs q. xs = gs @ [q] \<and> list_all h16 gs \<and> ipv4_grammar q \<and> k = u + length gs + 2)"
proof (induction xs arbitrary: u)
  case (Cons x xs)
  consider "CHR ''.'' \<in> set x" | "h16 x" "CHR ''.'' \<notin> set x" | "\<not> h16 x" "CHR ''.'' \<notin> set x" by blast
  then show ?case
  proof cases
    case 1
    then have "\<not> h16 x" using h16_facts by blast
    with 1 show ?thesis by (auto simp: ipv4_iff Cons_eq_append_conv)
  next
    case 2
    then have "\<not> ipv4_grammar x" using ipv4_facts by blast
    with 2 Cons.IH [of "u + 1"] show ?thesis by (auto simp: h16_iff [of x] Cons_eq_append_conv)
  next
    case 3
    then have "\<not> ipv4_grammar x" using ipv4_facts by blast
    moreover have "ipv6_units b (x # xs) u = None" using 3 h16_iff [of x] by auto
    ultimately show ?thesis using 3(1) by (auto simp: Cons_eq_append_conv)
  qed
qed auto

lemma units_without_gap: "ipv6_units False xs 0 = Some k \<longleftrightarrow> stand_for xs k"
  by (simp add: ipv6_units_iff stand_for_def)

lemma units_with_gap: "ipv6_units (r = []) (l @ r) 0 = Some k \<longleftrightarrow> list_all h16 l \<and> (\<exists>n. stand_for r n \<and> k = length l + n)"
proof (cases r rule: rev_cases)
  case (snoc r' q)
  then have "(\<exists>gs q. l @ r = gs @ [q] \<and> list_all h16 gs \<and> ipv4_grammar q \<and> k = length gs + 2) \<longleftrightarrow>
      list_all h16 l \<and> (\<exists>gs q. r = gs @ [q] \<and> list_all h16 gs \<and> ipv4_grammar q \<and> k = length l + (length gs + 2))" by auto
  with snoc show ?thesis by (auto simp: ipv6_units_iff stand_for_def)
qed (auto simp: ipv6_units_iff stand_for_def)

lemma stand_for_ok: "stand_for xs k \<Longrightarrow> segments_ok xs"
  unfolding stand_for_def segments_ok_def list_all_iff using h16_facts ipv4_facts by (metis Un_iff list.set_intros(1) set_ConsD set_append empty_iff list.set(1))

lemma groups_ok: "list_all h16 xs \<Longrightarrow> segments_ok xs"
  using h16_facts by (auto simp: segments_ok_def list_all_iff)

subsection \<open>The gap\<close>

lemma gap_skip: "CHR '':'' \<notin> set g \<Longrightarrow> split_compression (g @ t) = map_option (\<lambda>(l, r). (g @ l, r)) (split_compression t)"
proof (induction g)
  case (Cons a g)
  show ?case
  proof (cases "g @ t")
    case Nil
    then show ?thesis by simp
  next
    case (Cons b rest)
    with Cons.prems have "split_compression (a # g @ t) = map_option (\<lambda>(l, r). (a # l, r)) (split_compression (g @ t))" by auto
    with Cons.IH Cons.prems show ?thesis by (cases "split_compression t") auto
  qed
qed (simp add: option.map_ident case_prod_unfold)

lemma gap_colon:
  "t \<noteq> [] \<Longrightarrow> hd t \<noteq> CHR '':'' \<Longrightarrow> split_compression (CHR '':'' # t) = map_option (\<lambda>(l, r). (CHR '':'' # l, r)) (split_compression t)"
  by (cases t) auto

lemma colons_head: "segments_ok xs \<Longrightarrow> xs \<noteq> [] \<Longrightarrow> colons xs \<noteq> [] \<and> hd (colons xs @ t) \<noteq> CHR '':''"
  by (cases xs; cases "tl xs"; cases "hd xs") (auto simp: segments_ok_def)

lemma gap_after:
  assumes "segments_ok xs"
  shows "split_compression (colons xs) = None" and "split_compression (colons xs @ ''::'' @ r) = Some (colons xs, r)"
proof -
  have "split_compression (colons xs) = None \<and> split_compression (colons xs @ ''::'' @ r) = Some (colons xs, r)"
    using assms
  proof (induction xs)
    case (Cons x xs)
    have x: "CHR '':'' \<notin> set x" and xs: "segments_ok xs" using Cons.prems by (simp_all add: segments_ok_def)
    show ?case
    proof (cases "xs = []")
      case True
      with gap_skip [OF x, of "[]"] gap_skip [OF x, of "''::'' @ r"] show ?thesis by simp
    next
      case False
      note h = colons_head [OF xs False]
      show ?thesis
        using Cons.IH [OF xs] False h [of "[]"] h [of "''::'' @ r"] gap_skip [OF x] gap_colon [of "colons xs"] gap_colon [of "colons xs @ ''::'' @ r"]
        by (simp add: join_with_Cons)
    qed
  qed simp
  then show "split_compression (colons xs) = None" "split_compression (colons xs @ ''::'' @ r) = Some (colons xs, r)" by simp_all
qed

lemma split_compression_append: "split_compression s = Some (a, b) \<Longrightarrow> s = a @ ''::'' @ b"
  by (induction s arbitrary: a rule: split_compression.induct) (auto split: if_splits)

lemma ipv6_forms:
  "ValidateIpv6Address v \<longleftrightarrow>
     (\<exists>xs. v = colons xs \<and> stand_for xs 8) \<or>
     (\<exists>l r k. v = colons l @ ''::'' @ colons r \<and> list_all h16 l \<and> stand_for r k \<and> length l + k < 8)"
proof
  assume v: "ValidateIpv6Address v"
  show "(\<exists>xs. v = colons xs \<and> stand_for xs 8) \<or>
     (\<exists>l r k. v = colons l @ ''::'' @ colons r \<and> list_all h16 l \<and> stand_for r k \<and> length l + k < 8)"
  proof (cases "split_compression v")
    case None
    with v show ?thesis by (auto simp: ValidateIpv6Address_def SplitIpv6Side_iff units_without_gap split: option.splits)
  next
    case (Some ab)
    then obtain a b where ab: "split_compression v = Some (a, b)" by (cases ab) auto
    with v obtain l r k where "SplitIpv6Side a = Some l" "SplitIpv6Side b = Some r" "ipv6_units (r = []) (l @ r) 0 = Some k" "k < 8"
      by (auto simp: ValidateIpv6Address_def split: option.splits if_splits)
    with split_compression_append [OF ab] show ?thesis unfolding SplitIpv6Side_iff units_with_gap by blast
  qed
next
  assume "(\<exists>xs. v = colons xs \<and> stand_for xs 8) \<or>
     (\<exists>l r k. v = colons l @ ''::'' @ colons r \<and> list_all h16 l \<and> stand_for r k \<and> length l + k < 8)"
  then show "ValidateIpv6Address v"
  proof (elim disjE exE conjE)
    fix xs assume "v = colons xs" "stand_for xs 8"
    moreover from this have "SplitIpv6Side v = Some xs" using stand_for_ok by (simp add: SplitIpv6Side_iff)
    ultimately show ?thesis using gap_after(1) [OF stand_for_ok] units_without_gap by (simp add: ValidateIpv6Address_def)
  next
    fix l r k assume v: "v = colons l @ ''::'' @ colons r" and l: "list_all h16 l" and r: "stand_for r k" and k: "length l + k < 8"
    have "SplitIpv6Side (colons l) = Some l" "SplitIpv6Side (colons r) = Some r"
      using groups_ok [OF l] stand_for_ok [OF r] by (simp_all add: SplitIpv6Side_iff)
    moreover have "ipv6_units (r = []) (l @ r) 0 = Some (length l + k)" using units_with_gap l r by blast
    ultimately show ?thesis
      using gap_after(2) [OF groups_ok [OF l]] gap_after(1) [OF stand_for_ok [OF r]] k by (simp add: ValidateIpv6Address_def v)
  qed
qed

subsection \<open>The alternatives of the grammar\<close>

lemma groups_iff: "groups n s \<longleftrightarrow> (\<exists>gs. length gs = n \<and> list_all h16 gs \<and> s = concat (map (\<lambda>g. g @ '':'') gs))"
proof (induction n arbitrary: s)
  case (Suc n)
  show ?case
  proof
    assume "groups (Suc n) s"
    then obtain g gs where "h16 g" "length gs = n" "list_all h16 gs" "s = g @ '':'' @ concat (map (\<lambda>g. g @ '':'') gs)"
      unfolding groups.simps Suc.IH by blast
    then show "\<exists>gs. length gs = Suc n \<and> list_all h16 gs \<and> s = concat (map (\<lambda>g. g @ '':'') gs)" by (intro exI [of _ "g # gs"]) simp
  next
    assume "\<exists>gs. length gs = Suc n \<and> list_all h16 gs \<and> s = concat (map (\<lambda>g. g @ '':'') gs)"
    then obtain g gs where "h16 g" "length gs = n" "list_all h16 gs" "s = g @ '':'' @ concat (map (\<lambda>g. g @ '':'') gs)"
      by (auto simp: length_Suc_conv)
    then show "groups (Suc n) s" unfolding groups.simps Suc.IH by blast
  qed
qed simp

lemma colons_append: "ts \<noteq> [] \<Longrightarrow> concat (map (\<lambda>g. g @ '':'') gs) @ colons ts = colons (gs @ ts)"
  by (induction gs) (simp_all add: join_with_Cons)

lemma tail_form: "(\<exists>r t. s = p @ r @ t \<and> groups n r \<and> ls32 t) \<longleftrightarrow> (\<exists>xs. s = p @ colons xs \<and> stand_for xs (n + 2))"
proof
  assume "\<exists>r t. s = p @ r @ t \<and> groups n r \<and> ls32 t"
  then obtain gs t where gs: "length gs = n" "list_all h16 gs" "s = p @ concat (map (\<lambda>g. g @ '':'') gs) @ t" and t: "ls32 t"
    unfolding groups_iff by blast
  from t consider a b where "h16 a" "h16 b" "t = colons [a, b]" | "ipv4_grammar t" by (auto simp: ls32_def)
  then show "\<exists>xs. s = p @ colons xs \<and> stand_for xs (n + 2)"
  proof cases
    case 1
    with gs colons_append [of "[a, b]" gs] show ?thesis by (intro exI [of _ "gs @ [a, b]"]) (simp add: stand_for_def)
  next
    case 2
    with gs colons_append [of "[t]" gs] show ?thesis by (intro exI [of _ "gs @ [t]"]) (simp add: stand_for_def)
  qed
next
  assume "\<exists>xs. s = p @ colons xs \<and> stand_for xs (n + 2)"
  then obtain xs where s: "s = p @ colons xs" and f: "stand_for xs (n + 2)" by blast
  from f consider "list_all h16 xs" "length xs = n + 2" | gs q where "xs = gs @ [q]" "list_all h16 gs" "ipv4_grammar q" "length gs = n"
    by (auto simp: stand_for_def)
  then show "\<exists>r t. s = p @ r @ t \<and> groups n r \<and> ls32 t"
  proof cases
    case 1
    have "length (drop n xs) = 2" using 1(2) by simp
    then obtain a b where ab: "drop n xs = [a, b]" by (cases "drop n xs"; cases "tl (drop n xs)") auto
    define gs where "gs = take n xs"
    have xs: "xs = gs @ [a, b]" using append_take_drop_id [of n xs] by (simp only: ab gs_def)
    then have "h16 a" "h16 b" "list_all h16 gs" "length gs = n" using 1 by auto
    moreover have "s = p @ concat (map (\<lambda>g. g @ '':'') gs) @ (a @ '':'' @ b)" using s xs colons_append [of "[a, b]" gs] by simp
    ultimately show ?thesis unfolding groups_iff ls32_def by blast
  next
    case 2
    then have "s = p @ concat (map (\<lambda>g. g @ '':'') gs) @ q" using s colons_append [of "[q]" gs] by simp
    with 2 show ?thesis unfolding groups_iff ls32_def by blast
  qed
qed

lemma optional_form: "optional_groups n s \<longleftrightarrow> (\<exists>gs. s = colons gs \<and> list_all h16 gs \<and> length gs \<le> n + 1)"
proof
  assume "optional_groups n s"
  then consider "s = colons []" | m gs g where "m \<le> n" "length gs = m" "list_all h16 gs" "h16 g" "s = concat (map (\<lambda>g. g @ '':'') gs) @ g"
    unfolding optional_groups_def groups_iff by auto
  then show "\<exists>gs. s = colons gs \<and> list_all h16 gs \<and> length gs \<le> n + 1"
  proof cases
    case 2
    with colons_append [of "[g]" gs] show ?thesis by (intro exI [of _ "gs @ [g]"]) simp
  qed (auto intro: exI [of _ "[]"])
next
  assume "\<exists>gs. s = colons gs \<and> list_all h16 gs \<and> length gs \<le> n + 1"
  then obtain gs where gs: "s = colons gs" "list_all h16 gs" "length gs \<le> n + 1" by blast
  show "optional_groups n s"
  proof (cases gs rule: rev_cases)
    case (snoc hs g)
    with gs colons_append [of "[g]" hs] have "s = concat (map (\<lambda>g. g @ '':'') hs) @ g" "list_all h16 hs" "h16 g" "length hs \<le> n" by auto
    then show ?thesis unfolding optional_groups_def groups_iff by blast
  qed (use gs in \<open>simp add: optional_groups_def\<close>)
qed

text \<open>One alternative with a gap: at most \<open>m\<close> groups before it and segments for \<open>k\<close> groups after it.\<close>

definition gap_form :: "string \<Rightarrow> nat \<Rightarrow> nat \<Rightarrow> bool" where
  "gap_form s m k \<longleftrightarrow> (\<exists>l r. s = colons l @ ''::'' @ colons r \<and> list_all h16 l \<and> length l \<le> m \<and> stand_for r k)"

lemma gap_row: "(\<exists>l r t. s = l @ ''::'' @ r @ t \<and> optional_groups m l \<and> groups n r \<and> ls32 t) \<longleftrightarrow> gap_form s (m + 1) (n + 2)"
proof -
  have "(\<exists>l r t. s = l @ ''::'' @ r @ t \<and> optional_groups m l \<and> groups n r \<and> ls32 t) \<longleftrightarrow>
      (\<exists>l. optional_groups m l \<and> (\<exists>r t. s = (l @ ''::'') @ r @ t \<and> groups n r \<and> ls32 t))" by auto
  also have "\<dots> \<longleftrightarrow> gap_form s (m + 1) (n + 2)" unfolding tail_form optional_form gap_form_def by auto
  finally show ?thesis .
qed

lemma stand_for_small: "stand_for xs 0 \<longleftrightarrow> xs = []" "stand_for xs (Suc 0) \<longleftrightarrow> (\<exists>g. xs = [g] \<and> h16 g)"
  by (cases xs; auto simp: stand_for_def)+

lemma ipv6_rows:
  "ipv6_grammar s \<longleftrightarrow> (\<exists>xs. s = colons xs \<and> stand_for xs 8) \<or>
     gap_form s 0 7 \<or> gap_form s 1 6 \<or> gap_form s 2 5 \<or> gap_form s 3 4 \<or> gap_form s 4 3 \<or> gap_form s 5 2 \<or> gap_form s 6 1 \<or> gap_form s 7 0"
proof -
  have r1: "(\<exists>r t. s = r @ t \<and> groups 6 r \<and> ls32 t) \<longleftrightarrow> (\<exists>xs. s = colons xs \<and> stand_for xs 8)" using tail_form [of s "[]" 6] by simp
  have r2: "(\<exists>r t. s = ''::'' @ r @ t \<and> groups 5 r \<and> ls32 t) \<longleftrightarrow> gap_form s 0 7" using tail_form [of s "''::''" 5] by (simp add: gap_form_def)
  have r7: "(\<exists>l t. s = l @ ''::'' @ t \<and> optional_groups 4 l \<and> ls32 t) \<longleftrightarrow> gap_form s 5 2" using gap_row [of s 4 0] by (simp add: numeral_2_eq_2)
  have r8: "(\<exists>l t. s = l @ ''::'' @ t \<and> optional_groups 5 l \<and> h16 t) \<longleftrightarrow> gap_form s 6 1"
  proof
    assume "\<exists>l t. s = l @ ''::'' @ t \<and> optional_groups 5 l \<and> h16 t"
    then obtain gs t where "s = colons gs @ ''::'' @ colons [t]" "list_all h16 gs" "length gs \<le> 6" "h16 t" by (auto simp: optional_form)
    then show "gap_form s 6 1" unfolding gap_form_def by (intro exI [of _ gs] exI [of _ "[t]"]) (simp add: stand_for_def)
  next
    assume "gap_form s 6 1"
    then obtain gs t where "s = colons gs @ ''::'' @ t" "list_all h16 gs" "length gs \<le> 5 + 1" "h16 t" by (auto simp: gap_form_def stand_for_small)
    then show "\<exists>l t. s = l @ ''::'' @ t \<and> optional_groups 5 l \<and> h16 t" unfolding optional_form by blast
  qed
  have r9: "(\<exists>l. s = l @ ''::'' \<and> optional_groups 6 l) \<longleftrightarrow> gap_form s 7 0"
    unfolding optional_form gap_form_def by (auto simp: stand_for_small)
  have sums: "0 + 1 = (1 :: nat)" "1 + 1 = (2 :: nat)" "2 + 1 = (3 :: nat)" "3 + 1 = (4 :: nat)" "4 + 2 = (6 :: nat)" "3 + 2 = (5 :: nat)"
    "2 + 2 = (4 :: nat)" "1 + 2 = (3 :: nat)" by simp_all
  show ?thesis unfolding ipv6_grammar_def r1 r2 r7 r8 r9 gap_row sums ..
qed

lemma gap_rows:
  "(\<exists>l r k. s = colons l @ ''::'' @ colons r \<and> list_all h16 l \<and> stand_for r k \<and> length l + k < 8) \<longleftrightarrow> (\<exists>k \<le> 7. gap_form s (7 - k) k)"
proof
  assume "\<exists>l r k. s = colons l @ ''::'' @ colons r \<and> list_all h16 l \<and> stand_for r k \<and> length l + k < 8"
  then obtain l r k where "s = colons l @ ''::'' @ colons r" "list_all h16 l" "stand_for r k" "length l + k < 8" by blast
  then show "\<exists>k \<le> 7. gap_form s (7 - k) k" unfolding gap_form_def by (intro exI [of _ k] exI [of _ l] exI [of _ r] conjI) simp_all
next
  assume "\<exists>k \<le> 7. gap_form s (7 - k) k"
  then show "\<exists>l r k. s = colons l @ ''::'' @ colons r \<and> list_all h16 l \<and> stand_for r k \<and> length l + k < 8"
    unfolding gap_form_def by fastforce
qed

lemma ipv6_iff: "ValidateIpv6Address v \<longleftrightarrow> ipv6_grammar v"
proof -
  have "(\<exists>k \<le> 7. gap_form v (7 - k) k) \<longleftrightarrow>
    gap_form v 0 7 \<or> gap_form v 1 6 \<or> gap_form v 2 5 \<or> gap_form v 3 4 \<or> gap_form v 4 3 \<or> gap_form v 5 2 \<or> gap_form v 6 1 \<or> gap_form v 7 0"
    by (simp add: numeral_eq_Suc le_Suc_eq ex_disj_distrib conj_disj_distribR) blast
  then show ?thesis unfolding ipv6_forms gap_rows ipv6_rows by simp
qed

subsection \<open>Future addresses and literals\<close>

lemma ipvfuture_iff: "ValidateIpvFuture s \<longleftrightarrow> ipvfuture_grammar s"
proof
  assume "ValidateIpvFuture s"
  then obtain v t where s: "s = v # t" and v: "v \<in> set ''vV''"
    and h: "takeWhile IsHexDigit t \<noteq> []" and d: "dropWhile IsHexDigit t \<noteq> []" "hd (dropWhile IsHexDigit t) = CHR ''.''"
    and r: "tl (dropWhile IsHexDigit t) \<noteq> []" "list_all (\<lambda>c. IsUnreserved c \<or> IsSubDelimiter c \<or> c = CHR '':'') (tl (dropWhile IsHexDigit t))"
    by (cases s) (auto simp: ValidateIpvFuture_def Let_def split: if_splits)
  have "dropWhile IsHexDigit t = ''.'' @ tl (dropWhile IsHexDigit t)" using d by (cases "dropWhile IsHexDigit t") auto
  then have "s = v # takeWhile IsHexDigit t @ ''.'' @ tl (dropWhile IsHexDigit t)" using s takeWhile_dropWhile_id [of IsHexDigit t] by simp
  moreover have "set (takeWhile IsHexDigit t) \<subseteq> HEXDIG" by (auto simp: class_eqs dest: set_takeWhileD)
  moreover have "set (tl (dropWhile IsHexDigit t)) \<subseteq> unreserved \<union> sub_delims \<union> {CHR '':''}" using r(2) by (auto simp: class_eqs list_all_iff)
  ultimately show "ipvfuture_grammar s" using v h r(1) unfolding ipvfuture_grammar_def by blast
next
  assume "ipvfuture_grammar s"
  then obtain v h t where s: "s = v # h @ ''.'' @ t" "v \<in> set ''vV''" "h \<noteq> []" "set h \<subseteq> HEXDIG" "t \<noteq> []"
    "set t \<subseteq> unreserved \<union> sub_delims \<union> {CHR '':''}" unfolding ipvfuture_grammar_def by blast
  have h: "\<forall>c \<in> set h. IsHexDigit c" using s(4) by (auto simp: class_eqs)
  have dot: "\<not> IsHexDigit CHR ''.''" by code_simp
  have "takeWhile IsHexDigit (h @ ''.'' @ t) = h" "dropWhile IsHexDigit (h @ ''.'' @ t) = ''.'' @ t"
    using h dot by (simp_all add: takeWhile_append2 dropWhile_append2)
  moreover have "list_all (\<lambda>c. IsUnreserved c \<or> IsSubDelimiter c \<or> c = CHR '':'') t" using s(6) by (auto simp: class_eqs list_all_iff)
  moreover have "4 \<le> length s" using s(1,3,5) by (cases h; cases t) auto
  ultimately show "ValidateIpvFuture s" using s by (auto simp: ValidateIpvFuture_def Let_def)
qed

lemma ip_literal_iff: "ip_literal_grammar s \<longleftrightarrow> (\<exists>l. s = ''['' @ l @ '']'' \<and> ValidateIpLiteral l)"
  by (simp add: ip_literal_grammar_def ValidateIpLiteral_def ipv6_iff ipvfuture_iff)

lemma ip_literal_nonempty: "ValidateIpLiteral l \<Longrightarrow> l \<noteq> []"
  by (auto simp: ValidateIpLiteral_def ValidateIpvFuture_def ValidateIpv6Address_def SplitIpv6Side_def)

end
