(* ===== verification/Uri_Validation.thy ===== *)
theory Uri_Validation
  imports Uri_Addresses
begin

section \<open>The URI validators accept the grammar\<close>

text \<open>
  The one-pass validators of \<open>Uri_Reference\<close> accept exactly the language of \<open>Uri_Grammar\<close>. The productions are first read in terms of the
  character tests of the code, which are the classes of the grammar.
\<close>

subsection \<open>Productions in terms of the tests\<close>

lemmas component_percent = pct_encoded.percent [unfolded class_eqs mem_Collect_eq]
lemmas segments_more = segments_grammar.more [unfolded class_eqs]

lemma component_plain: "IsPlainComponentCharacter c kind \<Longrightarrow> component kind s \<Longrightarrow> component kind (c # s)"
  by (rule pct_encoded.plain) (simp_all add: plain_characters_def)

lemmas authority_grammar_alt = authority_grammar_def [unfolded class_eqs port_iff]
lemmas path_rootless_alt = path_rootless_def [unfolded class_eqs]
lemmas path_noscheme_alt = path_noscheme_def [unfolded class_eqs]
lemmas with_query_and_fragment_alt = with_query_and_fragment_def [unfolded class_eqs]

lemma scheme_grammar_alt:
  "scheme_grammar s \<longleftrightarrow> (\<exists>c cs. s = c # cs \<and> IsAsciiAlpha c \<and>
     (\<forall>x\<in>set cs. IsAsciiAlpha x \<or> IsAsciiDigit x \<or> x = CHR ''+'' \<or> x = CHR ''-'' \<or> x = CHR ''.''))"
  by (auto simp: scheme_grammar_def class_eqs)

lemma ipv4_reg_name: "ipv4_grammar h \<Longrightarrow> component REG_NAME h"
proof -
  have plain: "(\<And>c. c \<in> set s \<Longrightarrow> IsAsciiDigit c \<or> c = CHR ''.'') \<Longrightarrow> component REG_NAME s" for s
  proof (induction s)
    case (Cons c s)
    then have "IsPlainComponentCharacter c REG_NAME" by (auto simp: IsPlainComponentCharacter_def IsUnreserved_def)
    with Cons show ?case by (auto intro: component_plain)
  qed (rule pct_encoded.empty)
  have digits: "dec_octet s \<Longrightarrow> c \<in> set s \<Longrightarrow> IsAsciiDigit c" for s c by (auto simp: dec_octet_values)
  assume "ipv4_grammar h"
  then show ?thesis by (intro plain) (auto simp: ipv4_grammar_def dest: digits)
qed

lemma host_grammar_alt:
  "host_grammar h \<longleftrightarrow> component REG_NAME h \<or> (\<exists>l. h = CHR ''['' # l @ '']'' \<and> l \<noteq> [] \<and> ValidateIpLiteral l)"
  unfolding host_grammar_def ip_literal_iff class_eqs using ipv4_reg_name ip_literal_nonempty by auto

subsection \<open>Characters of the parts\<close>

lemma ascii_alpha_cases: "IsAsciiAlpha c \<Longrightarrow> c \<notin> {CHR ''%'', CHR ''#'', CHR ''?'', CHR ''/'', CHR ''['', CHR '']'', CHR ''@'', CHR '':''}"
  by (auto simp: IsAsciiAlpha_def in_range_def byte_def)

lemma ascii_digit_cases: "IsAsciiDigit c \<Longrightarrow> c \<notin> {CHR ''%'', CHR ''#'', CHR ''?'', CHR ''/'', CHR ''['', CHR '']'', CHR ''@'', CHR '':''}"
  by (auto simp: IsAsciiDigit_def in_range_def byte_def)

lemma hex_digit_cases: "IsHexDigit c \<Longrightarrow> c \<notin> {CHR ''%'', CHR ''#'', CHR ''?'', CHR ''/'', CHR ''['', CHR '']'', CHR ''@'', CHR '':''}"
  by (auto simp: IsHexDigit_def IsAsciiDigit_def in_range_def byte_def)

lemmas character_class_defs = IsPlainComponentCharacter_def IsUnreserved_def IsSubDelimiter_def
  IsAsciiAlpha_def IsAsciiDigit_def in_range_def byte_def

lemma never_plain:
  "\<not> IsPlainComponentCharacter CHR ''%'' kind"
  "\<not> IsPlainComponentCharacter CHR ''#'' kind"
  "\<not> IsPlainComponentCharacter CHR ''['' kind"
  "\<not> IsPlainComponentCharacter CHR '']'' kind"
  by (cases kind; simp add: character_class_defs)+

lemma plain_only_in_kind:
  "IsPlainComponentCharacter CHR ''?'' kind \<Longrightarrow> kind = QUERY_OR_FRAGMENT"
  "IsPlainComponentCharacter CHR ''/'' kind \<Longrightarrow> kind = QUERY_OR_FRAGMENT"
  "IsPlainComponentCharacter CHR ''@'' kind \<Longrightarrow> kind = PCHAR \<or> kind = QUERY_OR_FRAGMENT"
  "IsPlainComponentCharacter CHR '':'' kind \<Longrightarrow> kind \<noteq> REG_NAME"
  by (cases kind; simp add: character_class_defs)+

lemma component_excludes:
  assumes "component kind s" and "\<not> IsPlainComponentCharacter x kind" and "\<not> IsHexDigit x" and "x \<noteq> CHR ''%''"
  shows "x \<notin> set s"
  using assms by (induction rule: pct_encoded.induct) (auto simp: plain_characters_def class_eqs)

lemma component_chars:
  assumes "component kind s"
  shows "CHR ''#'' \<notin> set s" and "CHR ''['' \<notin> set s" and "CHR '']'' \<notin> set s"
    and "kind \<noteq> QUERY_OR_FRAGMENT \<Longrightarrow> CHR ''?'' \<notin> set s" and "kind \<noteq> QUERY_OR_FRAGMENT \<Longrightarrow> CHR ''/'' \<notin> set s"
    and "kind = USER_INFO \<or> kind = REG_NAME \<Longrightarrow> CHR ''@'' \<notin> set s"
    and "kind = REG_NAME \<Longrightarrow> CHR '':'' \<notin> set s"
  by (rule component_excludes [OF assms];
      auto simp: never_plain dest: plain_only_in_kind hex_digit_cases)+

lemma component_iff: "ValidateComponent kind s \<longleftrightarrow> component kind s"
proof
  show "ValidateComponent kind s \<Longrightarrow> component kind s"
  proof (induction kind s rule: ValidateComponent.induct)
    case (2 kind c cs)
    show ?case
    proof (cases "c = CHR ''%''")
      case True
      with "2.prems" obtain a b rest where "cs = a # b # rest" "IsHexDigit a" "IsHexDigit b"
        "ValidateComponent kind rest" by (auto split: list.splits)
      with True "2.IH"(1) [of a "b # rest" b rest] show ?thesis by (auto intro: component_percent)
    next
      case False
      with 2 show ?thesis by (auto intro: component_plain)
    qed
  qed (simp add: pct_encoded.empty)
next
  show "component kind s \<Longrightarrow> ValidateComponent kind s"
  proof (induction rule: pct_encoded.induct)
    case (plain c s)
    then show ?case using never_plain(1) [of kind] by (auto simp: plain_characters_def)
  qed (simp_all add: class_eqs)
qed

subsection \<open>Paths\<close>

lemma split_all_None: "split_at c s = None \<Longrightarrow> split_all c s = [s]"
  by (simp add: split_all.simps [of c s])

lemma split_all_Some: "split_at c s = Some (a, b) \<Longrightarrow> split_all c s = a # split_all c b"
  by (simp add: split_all.simps [of c s])

lemma path_characters_forward:
  "list_all (ValidateComponent PCHAR) (split_all CHR ''/'' p) \<Longrightarrow>
   \<exists>s rest. p = s @ rest \<and> component PCHAR s \<and> segments_grammar rest"
proof (induction "CHR ''/''" p rule: split_all.induct)
  case (1 p)
  show ?case
  proof (cases "split_at CHR ''/'' p")
    case None
    with "1.prems" have "p = p @ [] \<and> component PCHAR p \<and> segments_grammar []"
      by (simp add: split_all_None component_iff segments_grammar.none)
    then show ?thesis by blast
  next
    case (Some ab)
    obtain a b where ab: "ab = (a, b)" by (cases ab)
    with Some "1.prems" have a: "component PCHAR a" and b: "list_all (ValidateComponent PCHAR) (split_all CHR ''/'' b)"
      by (simp_all add: split_all_Some component_iff)
    from "1.hyps" [OF Some ab [symmetric] b] obtain s rest
      where "b = s @ rest" "component PCHAR s" "segments_grammar rest" by blast
    with Some ab have "p = a @ (CHR ''/'' # s @ rest)" and "segments_grammar (CHR ''/'' # s @ rest)"
      by (simp_all add: split_at_Some segments_more)
    with a show ?thesis by blast
  qed
qed

lemma path_characters_backward:
  "segments_grammar rest \<Longrightarrow> component PCHAR s \<Longrightarrow>
   list_all (ValidateComponent PCHAR) (split_all CHR ''/'' (s @ rest))"
proof (induction arbitrary: s rule: segments_grammar.induct)
  case none
  then have "split_at CHR ''/'' s = None" using component_chars(5) [of PCHAR s] by (simp add: split_at_None)
  with none show ?case by (simp add: split_all_None component_iff)
next
  case (more t rest)
  have "split_at CHR ''/'' (s @ CHR ''/'' # t @ rest) = Some (s, t @ rest)"
    using component_chars(5) [OF more.prems] by simp
  with more show ?case by (simp add: split_all_Some component_iff class_eqs)
qed

lemma path_characters_iff:
  "ValidatePathCharacters p \<longleftrightarrow> (\<exists>s rest. p = s @ rest \<and> component PCHAR s \<and> segments_grammar rest)"
  using path_characters_forward path_characters_backward by (auto simp: ValidatePathCharacters_def)

lemma component_head: "component PCHAR s \<Longrightarrow> s \<noteq> [] \<Longrightarrow> hd s \<noteq> CHR ''/''"
  using component_chars(5) [of PCHAR s] by (cases s) auto

lemma segments_head: "segments_grammar p \<Longrightarrow> p \<noteq> [] \<Longrightarrow> hd p = CHR ''/''"
  by (cases rule: segments_grammar.cases) auto

lemma path_abempty_iff: "ValidatePathAbempty p \<longleftrightarrow> segments_grammar p"
proof
  assume "ValidatePathAbempty p"
  then obtain s rest where p: "p = s @ rest" "component PCHAR s" "segments_grammar rest"
    and h: "p = [] \<or> hd p = CHR ''/''"
    by (auto simp: ValidatePathAbempty_def path_characters_iff)
  then have "s = []" using component_head [of s] by (cases s) auto
  with p show "segments_grammar p" by simp
next
  assume g: "segments_grammar p"
  then have "p = [] @ p \<and> component PCHAR [] \<and> segments_grammar p" by (simp add: pct_encoded.empty)
  with segments_head [OF g] show "ValidatePathAbempty p"
    unfolding ValidatePathAbempty_def path_characters_iff by blast
qed

lemma path_rootless_iff: "ValidatePathRootless p \<longleftrightarrow> path_rootless p"
proof
  assume "ValidatePathRootless p"
  then obtain s rest where p: "p = s @ rest" "component PCHAR s" "segments_grammar rest"
    and h: "p \<noteq> []" "hd p \<noteq> CHR ''/''"
    by (auto simp: ValidatePathRootless_def path_characters_iff)
  then have "s \<noteq> []" using segments_head [of rest] by auto
  with p show "path_rootless p" by (auto simp: path_rootless_alt)
next
  assume "path_rootless p"
  then obtain s rest where "p = s @ rest" "s \<noteq> []" "component PCHAR s" "segments_grammar rest"
    by (auto simp: path_rootless_alt)
  with component_head [of s] show "ValidatePathRootless p"
    by (auto simp: ValidatePathRootless_def path_characters_iff)
qed

lemma first_segment:
  assumes "p = s @ rest" "component PCHAR s" "segments_grammar rest"
  shows "(case split_at CHR ''/'' p of None \<Rightarrow> p | Some (segment, tail) \<Rightarrow> segment) = s"
proof -
  have no: "CHR ''/'' \<notin> set s" using component_chars(5) [OF assms(2)] by simp
  show ?thesis
  proof (cases rest)
    case Nil
    with no assms(1) show ?thesis by (simp add: split_at_None [THEN iffD2])
  next
    case (Cons x xs)
    then have "x = CHR ''/''" using segments_head [OF assms(3)] by simp
    with Cons no assms(1) show ?thesis by simp
  qed
qed

lemma path_noscheme_iff: "ValidatePathNoScheme p \<longleftrightarrow> path_noscheme p"
proof -
  have "ValidatePathNoScheme p \<longleftrightarrow> path_rootless p \<and>
      CHR '':'' \<notin> set (case split_at CHR ''/'' p of None \<Rightarrow> p | Some (segment, rest) \<Rightarrow> segment)"
    by (simp add: ValidatePathNoScheme_def path_rootless_iff)
  also have "\<dots> \<longleftrightarrow> path_noscheme p"
    unfolding path_rootless_alt path_noscheme_alt using first_segment [of p] by metis
  finally show ?thesis .
qed

lemma path_absolute_iff: "ValidatePathAbsolute p \<longleftrightarrow> path_absolute p"
proof (cases p)
  case Nil
  then show ?thesis by (simp add: ValidatePathAbsolute_def path_absolute_def)
next
  case (Cons x q)
  have "ValidatePathCharacters (CHR ''/'' # q) \<longleftrightarrow> ValidatePathCharacters q"
    using split_all_Some [of "CHR ''/''" "CHR ''/'' # q" "[]" q] by (simp add: ValidatePathCharacters_def)
  moreover have "q = [] \<Longrightarrow> ValidatePathCharacters q"
    by (simp add: ValidatePathCharacters_def split_all_None)
  ultimately have "ValidatePathAbsolute p \<longleftrightarrow> x = CHR ''/'' \<and> (q = [] \<or> ValidatePathRootless q)"
    using Cons by (cases q) (auto simp: ValidatePathAbsolute_def ValidatePathRootless_def)
  with Cons show ?thesis by (auto simp: path_absolute_def path_rootless_iff)
qed

subsection \<open>Authorities\<close>

definition literal_character :: "char \<Rightarrow> bool" where
  "literal_character c \<longleftrightarrow> IsUnreserved c \<or> IsSubDelimiter c \<or> c = CHR '':''"

lemma literal_excludes: "\<not> literal_character CHR ''/''" "\<not> literal_character CHR ''?''"
  "\<not> literal_character CHR ''#''" "\<not> literal_character CHR ''@''" "\<not> literal_character CHR '']''"
  by (simp_all add: literal_character_def character_class_defs)

lemma literal_v: "literal_character CHR ''v''" "literal_character CHR ''V''"
  by (simp_all add: literal_character_def character_class_defs)

lemma hex_literal: "IsHexDigit c \<Longrightarrow> literal_character c"
  by (auto simp: IsHexDigit_def literal_character_def character_class_defs)

lemma digit_literal: "IsAsciiDigit c \<Longrightarrow> literal_character c"
  by (simp add: literal_character_def IsUnreserved_def)

lemma set_join_with: "set (join_with c xs) \<subseteq> insert c (\<Union>x\<in>set xs. set x)"
proof (induction xs)
  case (Cons x xs)
  then show ?case by (cases "xs = []") (auto simp: join_with_Cons)
qed simp

lemma set_split_all: "x \<in> set s \<Longrightarrow> x = c \<or> (\<exists>p\<in>set (split_all c s). x \<in> set p)"
  using set_join_with [of c "split_all c s"] by (auto simp: join_split_all)

lemma ipv4_literal: "ValidateIpv4Address v \<Longrightarrow> x \<in> set v \<Longrightarrow> literal_character x"
  using set_split_all [of x v "CHR ''.''"]
  by (auto simp: ValidateIpv4Address_def ValidateDecimalOctet_def list_all_iff digit_literal
      literal_character_def IsUnreserved_def)

lemma ipv6_units_literal:
  "ipv6_units b segments n = Some k \<Longrightarrow> s \<in> set segments \<Longrightarrow> x \<in> set s \<Longrightarrow> literal_character x"
  by (induction b segments n rule: ipv6_units.induct)
    (auto simp: ipv4_literal hex_literal list_all_iff split: if_splits)

lemma side_literal:
  assumes "SplitIpv6Side side = Some segments" and "\<And>s y. s \<in> set segments \<Longrightarrow> y \<in> set s \<Longrightarrow> literal_character y"
    and "x \<in> set side"
  shows "literal_character x"
  using assms set_split_all [of x side "CHR '':''"]
  by (auto simp: SplitIpv6Side_def Let_def literal_character_def split: if_splits)

lemma ipv6_literal:
  assumes "ValidateIpv6Address v" and "x \<in> set v"
  shows "literal_character x"
proof (cases "split_compression v")
  case None
  with assms obtain left where side: "SplitIpv6Side v = Some left" and u: "ipv6_units False left 0 = Some 8"
    by (auto simp: ValidateIpv6Address_def split: option.splits)
  show ?thesis by (rule side_literal [OF side ipv6_units_literal [OF u] assms(2)])
next
  case (Some ab)
  obtain before after where ab: "ab = (before, after)" by (cases ab)
  with Some assms(1) obtain left right units where
    sides: "SplitIpv6Side before = Some left" "SplitIpv6Side after = Some right"
    and u: "ipv6_units (right = []) (left @ right) 0 = Some units"
    by (auto simp: ValidateIpv6Address_def split: if_splits option.splits)
  from u have lit: "s \<in> set (left @ right) \<Longrightarrow> y \<in> set s \<Longrightarrow> literal_character y" for s y
    using ipv6_units_literal by blast
  have "x \<in> set before \<or> x \<in> set after \<or> x = CHR '':''"
    using split_compression_append [of v before after] Some ab assms(2) by auto
  then show ?thesis
  proof (elim disjE)
    assume x: "x \<in> set before"
    show ?thesis by (rule side_literal [OF sides(1) lit x]) auto
  next
    assume x: "x \<in> set after"
    show ?thesis by (rule side_literal [OF sides(2) lit x]) auto
  qed (simp add: literal_character_def)
qed

lemma ipvfuture_literal:
  assumes "ValidateIpvFuture v" and "x \<in> set v"
  shows "literal_character x"
proof -
  from assms obtain w t where v: "v = w # t" and w: "w = CHR ''v'' \<or> w = CHR ''V''"
    and d: "dropWhile IsHexDigit t \<noteq> []" "hd (dropWhile IsHexDigit t) = CHR ''.''"
    and r: "list_all literal_character (tl (dropWhile IsHexDigit t))"
    by (cases v) (auto simp: ValidateIpvFuture_def Let_def literal_character_def list_all_iff split: if_splits)
  have "t = takeWhile IsHexDigit t @ hd (dropWhile IsHexDigit t) # tl (dropWhile IsHexDigit t)"
    using d(1) by simp
  then have "x = w \<or> x \<in> set (takeWhile IsHexDigit t) \<or> x = CHR ''.'' \<or> x \<in> set (tl (dropWhile IsHexDigit t))"
    using assms(2) d(2) v by (metis Un_iff set_ConsD set_append)
  then show ?thesis
  proof (elim disjE)
    assume "x \<in> set (takeWhile IsHexDigit t)"
    then show ?thesis by (blast dest: set_takeWhileD intro: hex_literal)
  next
    assume "x \<in> set (tl (dropWhile IsHexDigit t))"
    with r show ?thesis by (simp add: list_all_iff)
  next
    assume "x = w"
    with w literal_v show ?thesis by metis
  qed (simp add: literal_character_def IsUnreserved_def)
qed

lemma ip_literal_characters: "ValidateIpLiteral l \<Longrightarrow> x \<in> set l \<Longrightarrow> literal_character x"
  using ipv6_literal ipvfuture_literal by (auto simp: ValidateIpLiteral_def)

lemma host_excludes:
  assumes "host_grammar h" and "x \<in> {CHR ''/'', CHR ''?'', CHR ''#'', CHR ''@''}"
  shows "x \<notin> set h"
proof (cases "component REG_NAME h")
  case True
  with assms(2) show ?thesis using component_chars [OF True] by auto
next
  case False
  with assms(1) obtain l where h: "h = CHR ''['' # l @ '']''" and l: "ValidateIpLiteral l"
    by (auto simp: host_grammar_alt)
  have "x \<notin> set l" using ip_literal_characters [OF l, of x] literal_excludes assms(2) by auto
  with h assms(2) show ?thesis by auto
qed

lemma port_excludes:
  assumes "optional_part CHR '':'' (list_all IsAsciiDigit) p"
    and "x \<in> {CHR ''/'', CHR ''?'', CHR ''#'', CHR ''@'', CHR ''['', CHR '']''}"
  shows "x \<notin> set p"
proof -
  have "\<not> IsAsciiDigit x" using assms(2) ascii_digit_cases [of x] by blast
  with assms show ?thesis by (auto simp: optional_part_def list_all_iff)
qed

lemma split_host_port:
  assumes "component REG_NAME host" and "optional_part CHR '':'' (list_all IsAsciiDigit) port"
  shows "validate_host (host @ port)"
proof -
  let ?h = "host @ port"
  note c = component_chars [OF assms(1)] and p = port_excludes [OF assms(2)]
  have nb: "CHR ''['' \<notin> set ?h" "CHR '']'' \<notin> set ?h" using c p by simp_all
  then have hd: "\<not> (?h \<noteq> [] \<and> hd ?h = CHR ''['')" by (metis hd_in_set)
  show ?thesis
  proof (cases "port = []")
    case True
    then have "split_at CHR '':'' ?h = None" using c(7) by (simp add: split_at_None)
    with hd nb True assms(1) show ?thesis by (auto simp: validate_host_def component_iff)
  next
    case False
    then obtain d where d: "port = CHR '':'' # d" "list_all IsAsciiDigit d"
      using assms(2) by (auto simp: optional_part_def)
    have "CHR '':'' \<notin> set d" using d(2) ascii_digit_cases by (fastforce simp: list_all_iff)
    moreover have "split_at CHR '':'' ?h = Some (host, d)" using d(1) c(7) by simp
    ultimately show ?thesis
      using hd nb d assms(1) by (simp add: validate_host_def component_iff ValidatePort_def)
  qed
qed

lemma validate_host_iff:
  "validate_host h \<longleftrightarrow>
   (\<exists>host port. h = host @ port \<and> host_grammar host \<and> optional_part CHR '':'' (list_all IsAsciiDigit) port)"
proof
  assume v: "validate_host h"
  show "\<exists>host port. h = host @ port \<and> host_grammar host \<and> optional_part CHR '':'' (list_all IsAsciiDigit) port"
  proof (cases "h \<noteq> [] \<and> hd h = CHR ''[''")
    case True
    then obtain t where h: "h = CHR ''['' # t" by (cases h) auto
    with v obtain l rest where "split_at CHR '']'' t = Some (l, rest)" and l: "l \<noteq> []" "ValidateIpLiteral l"
      and p: "rest = [] \<or> hd rest = CHR '':'' \<and> ValidatePort (tl rest)" and ne: "rest \<noteq> [] \<longrightarrow> rest = hd rest # tl rest"
      by (auto simp: validate_host_def split: option.splits)
    then have "h = (CHR ''['' # l @ '']'') @ rest" by (simp add: h split_at_Some)
    moreover have "host_grammar (CHR ''['' # l @ '']'')" using l by (auto simp: host_grammar_alt)
    moreover have "optional_part CHR '':'' (list_all IsAsciiDigit) rest"
      using p ne by (metis optional_part_def ValidatePort_def)
    ultimately show ?thesis by blast
  next
    case False
    show ?thesis
    proof (cases "split_at CHR '':'' h")
      case None
      with v False have "component REG_NAME h" by (auto simp: validate_host_def component_iff split: if_splits)
      then have "h = h @ [] \<and> host_grammar h \<and> optional_part CHR '':'' (list_all IsAsciiDigit) []"
        by (simp add: host_grammar_alt optional_part_def)
      then show ?thesis by blast
    next
      case (Some np)
      obtain name port where np: "np = (name, port)" by (cases np)
      with v False Some have "component REG_NAME name" "list_all IsAsciiDigit port"
        by (auto simp: validate_host_def component_iff ValidatePort_def split: if_splits)
      then have "host_grammar name \<and> optional_part CHR '':'' (list_all IsAsciiDigit) (CHR '':'' # port)"
        by (simp add: host_grammar_alt optional_part_def)
      moreover have "h = name @ CHR '':'' # port" using Some np by (simp add: split_at_Some)
      ultimately show ?thesis by blast
    qed
  qed
next
  assume "\<exists>host port. h = host @ port \<and> host_grammar host \<and> optional_part CHR '':'' (list_all IsAsciiDigit) port"
  then obtain host port where h: "h = host @ port" and g: "host_grammar host"
    and p: "optional_part CHR '':'' (list_all IsAsciiDigit) port" by blast
  show "validate_host h"
  proof (cases "component REG_NAME host")
    case True
    with h p show ?thesis by (simp add: split_host_port)
  next
    case False
    with g obtain l where host: "host = CHR ''['' # l @ '']''" and l: "l \<noteq> []" "ValidateIpLiteral l"
      by (auto simp: host_grammar_alt)
    have "CHR '']'' \<notin> set l" using ip_literal_characters [OF l(2)] literal_excludes by blast
    then have "split_at CHR '']'' (tl h) = Some (l, port)" by (simp add: h host)
    with h host l p show ?thesis by (auto simp: validate_host_def optional_part_def ValidatePort_def)
  qed
qed

lemma authority_iff: "ValidateAuthority a \<longleftrightarrow> authority_grammar a"
proof
  assume v: "ValidateAuthority a"
  show "authority_grammar a"
  proof (cases "split_at CHR ''@'' a")
    case None
    with v obtain host port where "a = [] @ host @ port" "host_grammar host"
      "optional_part CHR '':'' (list_all IsAsciiDigit) port"
      by (auto simp: ValidateAuthority_def validate_host_iff)
    then show ?thesis unfolding authority_grammar_alt by blast
  next
    case (Some uh)
    obtain u h where uh: "uh = (u, h)" by (cases uh)
    with v Some obtain host port where "h = host @ port" "host_grammar host"
      "optional_part CHR '':'' (list_all IsAsciiDigit) port" and u: "component USER_INFO u"
      by (auto simp: ValidateAuthority_def validate_host_iff component_iff)
    moreover from this(1) Some uh have "a = (u @ ''@'') @ host @ port" by (simp add: split_at_Some)
    ultimately show ?thesis unfolding authority_grammar_alt by blast
  qed
next
  assume "authority_grammar a"
  then obtain user host port where a: "a = user @ host @ port"
    and user: "user = [] \<or> (\<exists>u. user = u @ ''@'' \<and> component USER_INFO u)"
    and g: "host_grammar host" and p: "optional_part CHR '':'' (list_all IsAsciiDigit) port"
    by (auto simp: authority_grammar_alt)
  have no_at: "CHR ''@'' \<notin> set (host @ port)" using host_excludes [OF g] port_excludes [OF p] by simp
  have host: "validate_host (host @ port)" using g p validate_host_iff by blast
  show "ValidateAuthority a"
  proof (cases "user = []")
    case True
    with a no_at have "split_at CHR ''@'' a = None" by (simp add: split_at_None)
    with a True host show ?thesis by (simp add: ValidateAuthority_def)
  next
    case False
    then obtain u where u: "user = u @ ''@''" "component USER_INFO u" using user by blast
    have "CHR ''@'' \<notin> set u" using component_chars(6) [OF u(2)] by simp
    with a u have "split_at CHR ''@'' a = Some (u, host @ port)" by simp
    with u no_at host show ?thesis by (simp add: ValidateAuthority_def component_iff)
  qed
qed

lemma authority_excludes:
  assumes "authority_grammar a" and "x \<in> {CHR ''/'', CHR ''?'', CHR ''#''}"
  shows "x \<notin> set a"
proof -
  from assms(1) obtain user host port where a: "a = user @ host @ port"
    and user: "user = [] \<or> (\<exists>u. user = u @ ''@'' \<and> component USER_INFO u)"
    and g: "host_grammar host" and p: "optional_part CHR '':'' (list_all IsAsciiDigit) port"
    by (auto simp: authority_grammar_alt)
  have "x \<notin> set user" using user component_chars [of USER_INFO] assms(2) by auto
  moreover have "x \<notin> set host" "x \<notin> set port"
    using assms(2) host_excludes [OF g] port_excludes [OF p] by blast+
  ultimately show ?thesis using a by simp
qed

subsection \<open>Whole references\<close>

lemma component_pchar_excludes: "component PCHAR s \<Longrightarrow> CHR ''?'' \<notin> set s \<and> CHR ''#'' \<notin> set s"
  using component_chars [of PCHAR s] by simp

lemma segments_exclude: "segments_grammar p \<Longrightarrow> CHR ''?'' \<notin> set p \<and> CHR ''#'' \<notin> set p"
  by (induction rule: segments_grammar.induct) (auto simp: class_eqs dest: component_pchar_excludes)

lemma authority_path_iff:
  "ValidateAuthorityAndPath rest \<longleftrightarrow> (\<exists>a q. rest = a @ q \<and> authority_grammar a \<and> segments_grammar q)"
proof
  assume v: "ValidateAuthorityAndPath rest"
  show "\<exists>a q. rest = a @ q \<and> authority_grammar a \<and> segments_grammar q"
  proof (cases "split_at CHR ''/'' rest")
    case None
    with v have "rest = rest @ [] \<and> authority_grammar rest \<and> segments_grammar []"
      by (simp add: ValidateAuthorityAndPath_def authority_iff segments_grammar.none)
    then show ?thesis by blast
  next
    case (Some aq)
    obtain a q where aq: "aq = (a, q)" by (cases aq)
    with Some v have "rest = a @ CHR ''/'' # q" "authority_grammar a" "segments_grammar (CHR ''/'' # q)"
      by (auto simp: ValidateAuthorityAndPath_def authority_iff path_abempty_iff split_at_Some)
    then show ?thesis by blast
  qed
next
  assume "\<exists>a q. rest = a @ q \<and> authority_grammar a \<and> segments_grammar q"
  then obtain a q where r: "rest = a @ q" and a: "authority_grammar a" and q: "segments_grammar q" by blast
  have no: "CHR ''/'' \<notin> set a" using authority_excludes [OF a] by simp
  show "ValidateAuthorityAndPath rest"
  proof (cases q)
    case Nil
    with r no have "split_at CHR ''/'' rest = None" by (simp add: split_at_None)
    with Nil r a show ?thesis
      by (simp add: ValidateAuthorityAndPath_def authority_iff path_abempty_iff segments_grammar.none)
  next
    case (Cons x xs)
    then have "x = CHR ''/''" using segments_head [OF q] by simp
    with Cons r no a q show ?thesis
      by (simp add: ValidateAuthorityAndPath_def authority_iff path_abempty_iff)
  qed
qed

lemma take_two_slashes: "take 2 p = ''//'' \<longleftrightarrow> (\<exists>rest. p = ''//'' @ rest)"
  by (cases p; cases "tl p") auto

lemma rootless_head: "path_rootless p \<Longrightarrow> p \<noteq> [] \<and> hd p \<noteq> CHR ''/''"
  using component_head by (auto simp: path_rootless_alt)

lemma noscheme_rootless: "path_noscheme p \<Longrightarrow> path_rootless p"
  by (auto simp: path_noscheme_alt path_rootless_alt)

lemma absolute_not_double: "path_absolute p \<Longrightarrow> take 2 p \<noteq> ''//'' \<and> p \<noteq> [] \<and> hd p = CHR ''/''"
  using rootless_head by (fastforce simp: path_absolute_def take_two_slashes)

lemma hier_part_iff: "ValidateHierPart p relative \<longleftrightarrow> (if relative then relative_part p else hier_part p)"
proof -
  consider (auth) rest where "p = ''//'' @ rest" | (empty) "p = []"
    | (abs) "take 2 p \<noteq> ''//''" "p \<noteq> []" "hd p = CHR ''/''"
    | (root) "take 2 p \<noteq> ''//''" "p \<noteq> []" "hd p \<noteq> CHR ''/''"
    using take_two_slashes by blast
  then show ?thesis
  proof cases
    case auth
    then have "\<not> path_absolute p" "\<not> path_rootless p" "\<not> path_noscheme p" "p \<noteq> []"
      using absolute_not_double [of p] rootless_head [of p] noscheme_rootless [of p] by auto
    moreover have "authority_path p \<longleftrightarrow> ValidateAuthorityAndPath rest"
      using auth by (auto simp: authority_path_def authority_path_iff)
    ultimately show ?thesis using auth by (auto simp: ValidateHierPart_def relative_part_def hier_part_def)
  next
    case empty
    then show ?thesis by (simp add: ValidateHierPart_def relative_part_def hier_part_def)
  next
    case abs
    then have "\<not> path_rootless p" "\<not> path_noscheme p" "\<not> authority_path p"
      using rootless_head [of p] noscheme_rootless [of p] take_two_slashes [of p] by (auto simp: authority_path_def)
    with abs show ?thesis
      by (auto simp: ValidateHierPart_def relative_part_def hier_part_def path_absolute_iff)
  next
    case root
    then have "\<not> path_absolute p" "\<not> authority_path p"
      using absolute_not_double [of p] take_two_slashes [of p] by (auto simp: authority_path_def)
    with root show ?thesis
      by (auto simp: ValidateHierPart_def relative_part_def hier_part_def path_noscheme_iff path_rootless_iff)
  qed
qed

lemma rootless_excludes: "path_rootless p \<Longrightarrow> CHR ''?'' \<notin> set p \<and> CHR ''#'' \<notin> set p"
  using component_pchar_excludes segments_exclude by (fastforce simp: path_rootless_alt)

lemma absolute_excludes: "path_absolute p \<Longrightarrow> CHR ''?'' \<notin> set p \<and> CHR ''#'' \<notin> set p"
  using rootless_excludes by (auto simp: path_absolute_def)

lemma authority_path_excludes: "authority_path p \<Longrightarrow> CHR ''?'' \<notin> set p \<and> CHR ''#'' \<notin> set p"
  using authority_excludes segments_exclude by (fastforce simp: authority_path_def)

lemma parts_exclude:
  "hier_part p \<Longrightarrow> CHR ''?'' \<notin> set p \<and> CHR ''#'' \<notin> set p"
  "relative_part p \<Longrightarrow> CHR ''?'' \<notin> set p \<and> CHR ''#'' \<notin> set p"
  using rootless_excludes [of p] absolute_excludes [of p] authority_path_excludes [of p] noscheme_rootless [of p]
  by (auto simp: hier_part_def relative_part_def)

lemma scheme_iff: "ValidateScheme s \<longleftrightarrow> scheme_grammar s"
  by (cases s) (auto simp: ValidateScheme_def scheme_grammar_alt list_all_iff)

lemma scheme_excludes:
  assumes "scheme_grammar s" and "x \<in> {CHR ''?'', CHR ''#'', CHR '':'', CHR ''/''}"
  shows "x \<notin> set s"
proof -
  have "\<not> IsAsciiAlpha x" "\<not> IsAsciiDigit x" "x \<noteq> CHR ''+''" "x \<noteq> CHR ''-''" "x \<noteq> CHR ''.''"
    using assms(2) by (auto simp: IsAsciiAlpha_def IsAsciiDigit_def in_range_def byte_def)
  with assms(1) show ?thesis by (auto simp: scheme_grammar_alt)
qed

text \<open>The first two searches of \<open>ValidateReference\<close>.\<close>

definition hierarchy_of :: "string \<Rightarrow> string" where
  "hierarchy_of v = (let r = (case split_at CHR ''#'' v of None \<Rightarrow> v | Some (r, f) \<Rightarrow> r)
                     in case split_at CHR ''?'' r of None \<Rightarrow> r | Some (h, q) \<Rightarrow> h)"

definition tails_valid :: "string \<Rightarrow> bool" where
  "tails_valid v \<longleftrightarrow>
     (case split_at CHR ''#'' v of None \<Rightarrow> True | Some (r, f) \<Rightarrow> component QUERY_OR_FRAGMENT f) \<and>
     (let r = (case split_at CHR ''#'' v of None \<Rightarrow> v | Some (r, f) \<Rightarrow> r)
      in case split_at CHR ''?'' r of None \<Rightarrow> True | Some (h, q) \<Rightarrow> component QUERY_OR_FRAGMENT q)"

lemma optional_split:
  assumes "optional_part c part t" and "c \<notin> set h"
  shows "(case split_at c (h @ t) of None \<Rightarrow> h @ t | Some (a, b) \<Rightarrow> a) = h \<and>
         (case split_at c (h @ t) of None \<Rightarrow> True | Some (a, b) \<Rightarrow> part b)"
  using assms by (auto simp: optional_part_def split_at_None [THEN iffD2])

lemma with_query_and_fragment_iff:
  assumes "\<And>h. part h \<Longrightarrow> CHR ''?'' \<notin> set h \<and> CHR ''#'' \<notin> set h"
  shows "with_query_and_fragment part v \<longleftrightarrow> tails_valid v \<and> part (hierarchy_of v)"
proof
  assume "with_query_and_fragment part v"
  then obtain h q f where v: "v = h @ q @ f" and h: "part h"
    and q: "optional_part CHR ''?'' (component QUERY_OR_FRAGMENT) q"
    and f: "optional_part CHR ''#'' (component QUERY_OR_FRAGMENT) f"
    by (auto simp: with_query_and_fragment_alt)
  have "CHR ''#'' \<notin> set (h @ q)"
    using assms [OF h] q component_chars(1) by (auto simp: optional_part_def)
  moreover have v': "v = (h @ q) @ f" using v by simp
  ultimately have r: "(case split_at CHR ''#'' v of None \<Rightarrow> v | Some (r, f) \<Rightarrow> r) = h @ q"
    and "(case split_at CHR ''#'' v of None \<Rightarrow> True | Some (r, f) \<Rightarrow> component QUERY_OR_FRAGMENT f)"
    using optional_split [OF f, of "h @ q"] unfolding v' by blast+
  moreover have "CHR ''?'' \<notin> set h" using assms [OF h] by simp
  note optional_split [OF q this]
  ultimately show "tails_valid v \<and> part (hierarchy_of v)"
    using h by (simp add: tails_valid_def hierarchy_of_def)
next
  assume t: "tails_valid v \<and> part (hierarchy_of v)"
  define r where "r = (case split_at CHR ''#'' v of None \<Rightarrow> v | Some (r, f) \<Rightarrow> r)"
  obtain f where f: "v = r @ f" "optional_part CHR ''#'' (component QUERY_OR_FRAGMENT) f"
    using t by (cases "split_at CHR ''#'' v") (auto simp: r_def tails_valid_def optional_part_def split_at_Some)
  obtain q where q: "r = hierarchy_of v @ q" "optional_part CHR ''?'' (component QUERY_OR_FRAGMENT) q"
    using t by (cases "split_at CHR ''?'' r")
      (auto simp: hierarchy_of_def r_def [symmetric] tails_valid_def optional_part_def split_at_Some)
  from f q t show "with_query_and_fragment part v" unfolding with_query_and_fragment_alt by auto
qed

lemma validate_hierarchy_iff:
  "validate_hierarchy h require_uri \<longleftrightarrow>
     (case split_at CHR '':'' h of
        None \<Rightarrow> \<not> require_uri \<and> relative_part h
      | Some (s, rest) \<Rightarrow> if scheme_grammar s then hier_part rest else \<not> require_uri \<and> relative_part h)"
  by (cases "split_at CHR '':'' h") (auto simp: validate_hierarchy_def scheme_iff hier_part_iff split: if_splits)

lemma ValidateReference_alt:
  "ValidateReference v require_uri \<longleftrightarrow> tails_valid v \<and> validate_hierarchy (hierarchy_of v) require_uri"
proof (cases "split_at CHR ''#'' v")
  case None
  then show ?thesis
    by (cases "split_at CHR ''?'' v")
      (auto simp: ValidateReference_def tails_valid_def hierarchy_of_def component_iff)
next
  case (Some rf)
  obtain r f where rf: "rf = (r, f)" by (cases rf)
  have "\<not> (CHR ''#'' \<in> set f) \<and> component QUERY_OR_FRAGMENT f \<longleftrightarrow> component QUERY_OR_FRAGMENT f"
    using component_chars(1) [of QUERY_OR_FRAGMENT f] by blast
  with Some rf show ?thesis
    by (cases "split_at CHR ''?'' r")
      (auto simp: ValidateReference_def tails_valid_def hierarchy_of_def component_iff)
qed

lemma scheme_split_iff:
  "(\<exists>s p. h = s @ CHR '':'' # p \<and> scheme_grammar s \<and> hier_part p) \<longleftrightarrow>
   (case split_at CHR '':'' h of None \<Rightarrow> False | Some (s, rest) \<Rightarrow> scheme_grammar s \<and> hier_part rest)"
proof
  assume "\<exists>s p. h = s @ CHR '':'' # p \<and> scheme_grammar s \<and> hier_part p"
  then obtain s p where h: "h = s @ CHR '':'' # p" "scheme_grammar s" "hier_part p" by blast
  moreover from scheme_excludes [OF h(2)] have "CHR '':'' \<notin> set s" by simp
  ultimately show "case split_at CHR '':'' h of None \<Rightarrow> False | Some (s, rest) \<Rightarrow> scheme_grammar s \<and> hier_part rest"
    by simp
next
  assume "case split_at CHR '':'' h of None \<Rightarrow> False | Some (s, rest) \<Rightarrow> scheme_grammar s \<and> hier_part rest"
  then obtain s rest where "split_at CHR '':'' h = Some (s, rest)" "scheme_grammar s" "hier_part rest"
    by (auto split: option.splits)
  then show "\<exists>s p. h = s @ CHR '':'' # p \<and> scheme_grammar s \<and> hier_part p"
    unfolding split_at_Some by blast
qed

text \<open>A relative part never begins with a scheme.\<close>

lemma relative_part_no_scheme:
  assumes "relative_part h" and "split_at CHR '':'' h = Some (s, rest)"
  shows "\<not> scheme_grammar s"
proof
  assume s: "scheme_grammar s"
  have h: "h = s @ CHR '':'' # rest" using assms(2) by (simp add: split_at_Some)
  have no_slash: "CHR ''/'' \<notin> set s" using scheme_excludes [OF s] by simp
  have ne: "s \<noteq> []" using s by (auto simp: scheme_grammar_alt)
  then have "hd h \<noteq> CHR ''/''" "h \<noteq> []" using h no_slash by (auto, metis hd_in_set)
  then have "path_noscheme h"
    using assms(1) by (auto simp: relative_part_def authority_path_def path_absolute_def)
  then obtain t tail where t: "h = t @ tail" "CHR '':'' \<notin> set t" "segments_grammar tail"
    by (auto simp: path_noscheme_alt)
  have "tail \<noteq> []" using t h by auto
  then obtain xs where "tail = CHR ''/'' # xs" using segments_head [OF t(3)] by (cases tail) auto
  with t(1) h have eq: "t @ CHR ''/'' # xs = s @ CHR '':'' # rest" by simp
  then have "length t < length s \<or> length s < length t \<or> t = s" by (metis append_eq_append_conv linorder_neqE_nat)
  then show False
  proof (elim disjE)
    assume "length t < length s"
    then have "s ! length t = CHR ''/''" using eq by (metis nth_append nth_append_length)
    then show False using no_slash \<open>length t < length s\<close> by (metis nth_mem)
  next
    assume "length s < length t"
    then have "t ! length s = CHR '':''" using eq by (metis nth_append nth_append_length)
    then show False using t(2) \<open>length s < length t\<close> by (metis nth_mem)
  next
    assume "t = s"
    then show False using eq by simp
  qed
qed

lemma reference_iff:
  "IsValidUri v = uri_grammar v \<and> IsValidUriReference v = (uri_grammar v \<or> relative_ref_grammar v)"
proof -
  have part: "(\<exists>s p. h = s @ CHR '':'' # p \<and> scheme_grammar s \<and> hier_part p) \<Longrightarrow>
      CHR ''?'' \<notin> set h \<and> CHR ''#'' \<notin> set h" for h
    using scheme_excludes parts_exclude(1) by fastforce
  have u: "uri_grammar v \<longleftrightarrow> tails_valid v \<and>
      (case split_at CHR '':'' (hierarchy_of v) of None \<Rightarrow> False | Some (s, rest) \<Rightarrow> scheme_grammar s \<and> hier_part rest)"
    unfolding uri_grammar_def by (subst with_query_and_fragment_iff [OF part]) (simp_all only: scheme_split_iff)
  have r: "relative_ref_grammar v \<longleftrightarrow> tails_valid v \<and> relative_part (hierarchy_of v)"
    unfolding relative_ref_grammar_def by (rule with_query_and_fragment_iff [OF parts_exclude(2)])
  show ?thesis
    using relative_part_no_scheme [of "hierarchy_of v"]
    by (auto simp: IsValidUri_def IsValidUriReference_def ValidateReference_alt validate_hierarchy_iff u r split: option.splits)
qed

lemmas uri_reference_iff = reference_iff [THEN conjunct2]

text \<open>
  C17. The one-pass validators accept exactly the generic grammar of RFC 3986 as \<open>Uri_Grammar\<close> writes it down, character classes and
  IPv6, IPv4 and future address literals included: \<open>IsValidUri\<close> the language
  \<open>scheme ":" hier-part [ "?" query ] [ "#" fragment ]\<close>, and \<open>IsValidUriReference\<close> its union with the
  relative references, for every byte string. No part of the grammar is a function of the program.
\<close>

theorem uri_validators_match_grammar:
  "IsValidUri v = uri_grammar v \<and> IsValidUriReference v = (uri_grammar v \<or> relative_ref_grammar v)"
  by (rule reference_iff)

end
