(* ===== verification/Link_Header.thy ===== *)
theory Link_Header
  imports Uri_Validation
begin

section \<open>Link header fields\<close>

text \<open>
  The RFC 8288 field parser of \<open>src/runtime/pagination/link_header.cpp\<close>. An offset into the field is
  the suffix that starts there; a syntax error is \<open>None\<close> in the inner parsers. The visitor of the
  source is a parameter: a function from its state and a parsed value to a new state or its own
  error, which ends the parse at once as a thrown exception does. The loops terminate because each
  round consumes input. The theorems show that well-formed fields are visited value by
  value in receipt order, that quoted strings are unescaped exactly, and that empty list elements are
  bounded.
\<close>

definition MAX_IGNORED_EMPTY_LIST_ELEMENTS :: nat where
  "MAX_IGNORED_EMPTY_LIST_ELEMENTS = 128"

datatype 'e link_parse_error = LinkHeaderSyntaxError | VisitorError 'e

definition IsOws :: "char \<Rightarrow> bool" where
  "IsOws c \<longleftrightarrow> c = CHR '' '' \<or> c = CHR 0x09"

definition ToAsciiLower :: "char \<Rightarrow> char" where
  "ToAsciiLower c = (if in_range CHR ''A'' CHR ''Z'' c then char_of (byte c + 32) else c)"

definition SkipOws :: "string \<Rightarrow> string" where
  "SkipOws s = dropWhile IsOws s"

definition IsTokenCharacter :: "char \<Rightarrow> bool" where
  "IsTokenCharacter c \<longleftrightarrow> IsAsciiAlpha c \<or> IsAsciiDigit c \<or>
     c \<in> {CHR ''!'', CHR ''#'', CHR ''$'', CHR ''%'', CHR ''&'', CHR 0x27, CHR ''*'', CHR ''+'', CHR ''-'', CHR ''.'',
          CHR ''^'', CHR ''_'', CHR 0x60, CHR ''|'', CHR ''~''}"

definition ParseToken :: "string \<Rightarrow> (string \<times> string) option" where
  "ParseToken s = (if takeWhile IsTokenCharacter s = [] then None
     else Some (takeWhile IsTokenCharacter s, dropWhile IsTokenCharacter s))"

fun quoted_tail :: "string \<Rightarrow> string \<Rightarrow> (string \<times> string) option" where
  "quoted_tail result [] = None"
| "quoted_tail result (c # cs) =
     (if c = CHR 0x22 then Some (result, cs)
      else if c = CHR 0x5C then
        (case cs of [] \<Rightarrow> None
         | escaped # rest \<Rightarrow>
             if byte escaped < 0x20 \<or> byte escaped > 0x7e then None
             else quoted_tail (result @ [escaped]) rest)
      else if (byte c < 0x20 \<and> c \<noteq> CHR 0x09) \<or> byte c = 0x7f then None
      else quoted_tail (result @ [c]) cs)"

definition ParseQuotedString :: "string \<Rightarrow> (string \<times> string) option" where
  "ParseQuotedString s = (if s = [] \<or> hd s \<noteq> CHR 0x22 then None else quoted_tail [] (tl s))"

definition ParseParameterValue :: "string \<Rightarrow> (string \<times> string) option" where
  "ParseParameterValue s = (if s \<noteq> [] \<and> hd s = CHR 0x22 then ParseQuotedString s else ParseToken s)"

definition EqualsAsciiIgnoreCase :: "string \<Rightarrow> string \<Rightarrow> bool" where
  "EqualsAsciiIgnoreCase left right \<longleftrightarrow>
     (if length left \<noteq> length right then False
      else list_all2 (\<lambda>a b. ToAsciiLower a = ToAsciiLower b) left right)"

definition IsRegisteredRelation :: "string \<Rightarrow> bool" where
  "IsRegisteredRelation r \<longleftrightarrow> r \<noteq> [] \<and> IsAsciiAlpha (hd r) \<and>
     list_all (\<lambda>c. IsAsciiAlpha c \<or> IsAsciiDigit c \<or> c = CHR ''.'' \<or> c = CHR ''-'') (tl r)"

lemma dropWhile_length: "length (dropWhile P s) \<le> length s"
  by (rule length_dropWhile_le)

function relation_tokens :: "string \<Rightarrow> bool \<Rightarrow> bool option" where
  "relation_tokens s has_next =
     (if s = [] then Some has_next
      else
        let token = takeWhile (\<lambda>c. c \<noteq> CHR '' '') s;
            rest = dropWhile (\<lambda>c. c = CHR '' '') (dropWhile (\<lambda>c. c \<noteq> CHR '' '') s)
        in if \<not> IsRegisteredRelation token \<and> \<not> IsValidUri token then None
           else relation_tokens rest (has_next \<or> EqualsAsciiIgnoreCase token ''next''))"
  by pat_completeness auto
termination
proof (relation "measure (\<lambda>(s, b). length s)")
  fix s :: string and has_next token rest
  assume s: "s \<noteq> []" and r: "rest = dropWhile (\<lambda>c. c = CHR '' '') (dropWhile (\<lambda>c. c \<noteq> CHR '' '') s)"
  obtain c cs where cs: "s = c # cs" using s by (cases s) auto
  have "length rest < length s"
  proof (cases "c = CHR '' ''")
    case True
    with r cs have "rest = dropWhile (\<lambda>c. c = CHR '' '') cs" by simp
    with cs show ?thesis using dropWhile_length [of "\<lambda>c. c = CHR '' ''" cs] by simp
  next
    case False
    with cs r have "rest = dropWhile (\<lambda>c. c = CHR '' '') (dropWhile (\<lambda>c. c \<noteq> CHR '' '') cs)" by simp
    then have "length rest \<le> length cs" by (metis dropWhile_length le_trans)
    with cs show ?thesis by simp
  qed
  then show "((rest, has_next \<or> EqualsAsciiIgnoreCase token ''next''), s, has_next) \<in> measure (\<lambda>(s, b). length s)"
    by simp
qed simp

declare relation_tokens.simps [simp del]

definition RelationContainsNext :: "string \<Rightarrow> bool option" where
  "RelationContainsNext relation =
     (if relation = [] \<or> hd relation = CHR '' '' \<or> last relation = CHR '' '' then None
      else relation_tokens relation False)"

subsection \<open>One link value\<close>

record link_params =
  saw_rel :: bool
  saw_anchor :: bool
  has_next_relation :: bool

text \<open>One named parameter with its value; \<open>None\<close> is malformed.\<close>

definition apply_parameter :: "string \<Rightarrow> string \<Rightarrow> link_params \<Rightarrow> link_params option" where
  "apply_parameter name v p =
     (if EqualsAsciiIgnoreCase name ''rel'' then
        (if \<not> saw_rel p
         then map_option (\<lambda>b. p\<lparr>saw_rel := True, has_next_relation := b\<rparr>) (RelationContainsNext v)
         else Some p)
      else if EqualsAsciiIgnoreCase name ''anchor'' then
        (if \<not> IsValidUriReference v then None else Some (p\<lparr>saw_anchor := True\<rparr>))
      else Some p)"

lemma SkipOws_length: "length (SkipOws s) \<le> length s"
  by (simp add: SkipOws_def dropWhile_length)

lemma ParseToken_length: "ParseToken s = Some (t, r) \<Longrightarrow> length r < length s"
proof -
  assume "ParseToken s = Some (t, r)"
  then have "r = dropWhile IsTokenCharacter s" "takeWhile IsTokenCharacter s \<noteq> []"
    by (auto simp: ParseToken_def split: if_splits)
  moreover have "length s = length (takeWhile IsTokenCharacter s) + length (dropWhile IsTokenCharacter s)"
    by (metis length_append takeWhile_dropWhile_id)
  ultimately show ?thesis by simp
qed

lemma quoted_tail_length: "quoted_tail acc s = Some (t, r) \<Longrightarrow> length r < length s"
proof (induction acc s rule: quoted_tail.induct)
  case (2 result c cs)
  then show ?case by (auto split: if_splits list.splits)
qed simp

lemma ParseParameterValue_length: "ParseParameterValue s = Some (t, r) \<Longrightarrow> length r < length s"
proof (cases s)
  case (Cons c cs)
  assume p: "ParseParameterValue s = Some (t, r)"
  show ?thesis
  proof (cases "c = CHR 0x22")
    case True
    with p Cons have "quoted_tail [] cs = Some (t, r)"
      by (simp add: ParseParameterValue_def ParseQuotedString_def)
    with Cons show ?thesis using quoted_tail_length by fastforce
  next
    case False
    with p Cons have "ParseToken s = Some (t, r)" by (simp add: ParseParameterValue_def)
    then show ?thesis by (rule ParseToken_length)
  qed
qed (simp add: ParseParameterValue_def ParseToken_def)

function parse_params :: "string \<Rightarrow> link_params \<Rightarrow> (string \<times> link_params) option" where
  "parse_params s p =
     (let s1 = SkipOws s in
      if s1 = [] \<or> hd s1 = CHR '','' then Some (s1, p)
      else if hd s1 \<noteq> CHR '';'' then None
      else case ParseToken (SkipOws (tl s1)) of
        None \<Rightarrow> None
      | Some (name, s2) \<Rightarrow>
          let s3 = SkipOws s2 in
          if s3 = [] \<or> hd s3 \<noteq> CHR ''='' then
            (if EqualsAsciiIgnoreCase name ''rel'' then
               (if \<not> saw_rel p then None else parse_params s3 p)
             else if EqualsAsciiIgnoreCase name ''anchor'' then None
             else parse_params s3 p)
          else case ParseParameterValue (SkipOws (tl s3)) of
            None \<Rightarrow> None
          | Some (v, s4) \<Rightarrow>
              (case apply_parameter name v p of None \<Rightarrow> None | Some p' \<Rightarrow> parse_params s4 p'))"
  by pat_completeness auto

lemma tl_length: "length (tl s) \<le> length s"
  by simp

lemma parse_params_shrinks:
  assumes "ParseToken (SkipOws (tl (SkipOws s))) = Some (name, s2)"
  shows "length (SkipOws s2) < length s"
    and "ParseParameterValue (SkipOws (tl (SkipOws s2))) = Some (v, s4) \<Longrightarrow> length s4 < length s"
proof -
  have "length s2 < length (SkipOws (tl (SkipOws s)))" using assms by (rule ParseToken_length)
  also have "\<dots> \<le> length (tl (SkipOws s))" by (rule SkipOws_length)
  also have "\<dots> \<le> length s" using SkipOws_length [of s] by simp
  finally have s2: "length s2 < length s" .
  then show *: "length (SkipOws s2) < length s" using SkipOws_length [of s2] by simp
  assume "ParseParameterValue (SkipOws (tl (SkipOws s2))) = Some (v, s4)"
  then have "length s4 < length (SkipOws (tl (SkipOws s2)))" by (rule ParseParameterValue_length)
  also have "\<dots> \<le> length (SkipOws s2)" using SkipOws_length [of "tl (SkipOws s2)"] by simp
  finally show "length s4 < length s" using * by simp
qed

termination parse_params
  by (relation "measure (\<lambda>(s, p). length s)")
    (auto intro: parse_params_shrinks simp del: length_greater_0_conv)

declare parse_params.simps [simp del]

definition ParseLinkValue :: "string \<Rightarrow> (string \<times> bool \<times> string) option" where
  "ParseLinkValue field =
     (let s = SkipOws field in
      if s = [] \<or> hd s \<noteq> CHR ''<'' then None
      else case split_at CHR ''>'' (tl s) of
        None \<Rightarrow> None
      | Some (target, rest) \<Rightarrow>
          if \<not> IsValidUriReference target then None
          else case parse_params rest \<lparr>saw_rel = False, saw_anchor = False, has_next_relation = False\<rparr> of
            None \<Rightarrow> None
          | Some (rest', p) \<Rightarrow>
              if \<not> saw_rel p then None else Some (target, has_next_relation p \<and> \<not> saw_anchor p, rest'))"

subsection \<open>All fields\<close>

definition ignore_empty_element :: "nat \<Rightarrow> nat option" where
  "ignore_empty_element ignored =
     (if ignored + 1 > MAX_IGNORED_EMPTY_LIST_ELEMENTS then None else Some (ignored + 1))"

text \<open>The loops that skip commas: the rest of the field and the new count.\<close>

function skip_commas :: "string \<Rightarrow> nat \<Rightarrow> (string \<times> nat) option" where
  "skip_commas s ignored =
     (if s = [] \<or> hd s \<noteq> CHR '','' then Some (s, ignored)
      else case ignore_empty_element ignored of
        None \<Rightarrow> None
      | Some ignored' \<Rightarrow> skip_commas (SkipOws (tl s)) ignored')"
  by pat_completeness auto
termination
proof (relation "measure (\<lambda>(s, n). length s)")
  fix s :: string and ignored ignored'
  assume "\<not> (s = [] \<or> hd s \<noteq> CHR '','')"
  then show "((SkipOws (tl s), ignored'), s, ignored) \<in> measure (\<lambda>(s, n). length s)"
    using SkipOws_length [of "tl s"] by (cases s) auto
qed simp

declare skip_commas.simps [simp del]

lemma parse_params_length: "parse_params s p = Some (r, p') \<Longrightarrow> length r \<le> length s"
proof (induction s p rule: parse_params.induct)
  case (1 s p)
  let ?s1 = "SkipOws s"
  show ?case
  proof (cases "?s1 = [] \<or> hd ?s1 = CHR '',''")
    case True
    with "1.prems" have "r = ?s1" by (auto simp: parse_params.simps [of s p] Let_def)
    then show ?thesis by (simp add: SkipOws_length)
  next
    case False
    with "1.prems" obtain name s2 where t: "hd ?s1 = CHR '';''" "ParseToken (SkipOws (tl ?s1)) = Some (name, s2)"
      by (auto simp: parse_params.simps [of s p] Let_def split: if_splits option.splits)
    note shrink = parse_params_shrinks [OF t(2)]
    from "1.prems" False t consider "parse_params (SkipOws s2) p = Some (r, p')"
        "SkipOws s2 = [] \<or> hd (SkipOws s2) \<noteq> CHR ''=''"
        "EqualsAsciiIgnoreCase name ''rel'' \<longrightarrow> saw_rel p" "EqualsAsciiIgnoreCase name ''rel'' \<or> \<not> EqualsAsciiIgnoreCase name ''anchor''"
      | v s4 q where "ParseParameterValue (SkipOws (tl (SkipOws s2))) = Some (v, s4)"
        "\<not> (SkipOws s2 = [] \<or> hd (SkipOws s2) \<noteq> CHR ''='')"
        "apply_parameter name v p = Some q" "parse_params s4 q = Some (r, p')"
      by (auto simp: parse_params.simps [of s p] Let_def split: if_splits option.splits)
    then show ?thesis
    proof cases
      case 1
      have "length r \<le> length (SkipOws s2)"
        using "1.IH"(1,2) [OF refl False _ t(2) refl refl] 1 t(1) by (cases "EqualsAsciiIgnoreCase name ''rel''") auto
      with shrink(1) show ?thesis by simp
    next
      case 2
      have "length r \<le> length s4"
        using "1.IH"(3) [OF refl False _ t(2) refl refl 2(2) 2(1) refl 2(3) 2(4)] t(1) by simp
      with shrink(2) [OF 2(1)] show ?thesis by simp
    qed
  qed
qed

lemma ParseLinkValue_length: "ParseLinkValue s = Some (t, b, r) \<Longrightarrow> length r < length s"
proof -
  assume "ParseLinkValue s = Some (t, b, r)"
  then obtain rest p where *: "SkipOws s \<noteq> []" "split_at CHR ''>'' (tl (SkipOws s)) = Some (t, rest)"
    "parse_params rest \<lparr>saw_rel = False, saw_anchor = False, has_next_relation = False\<rparr> = Some (r, p)"
    by (auto simp: ParseLinkValue_def Let_def split: if_splits option.splits)
  have "length r \<le> length rest" using *(3) by (rule parse_params_length)
  also have "\<dots> < length (tl (SkipOws s))" using *(2) by (rule split_at_length)
  also have "\<dots> \<le> length s" using SkipOws_length [of s] by simp
  finally show ?thesis .
qed

lemma skip_commas_length: "skip_commas s n = Some (r, m) \<Longrightarrow> length r \<le> length s"
proof (induction s n rule: skip_commas.induct)
  case (1 s n)
  show ?case
  proof (cases "s = [] \<or> hd s \<noteq> CHR '',''")
    case True
    with "1.prems" show ?thesis by (auto simp: skip_commas.simps [of s n])
  next
    case False
    with "1.prems" obtain k where "ignore_empty_element n = Some k" "skip_commas (SkipOws (tl s)) k = Some (r, m)"
      by (auto simp: skip_commas.simps [of s n] split: option.splits)
    with "1.IH" False have "length r \<le> length (SkipOws (tl s))" by blast
    also have "\<dots> \<le> length s" using SkipOws_length [of "tl s"] by simp
    finally show ?thesis .
  qed
qed

text \<open>The main loop over one field, from a position where a value must start.\<close>

function parse_values ::
  "('s \<Rightarrow> string \<Rightarrow> bool \<Rightarrow> 'e + 's) \<Rightarrow> string \<Rightarrow> nat \<Rightarrow> 's \<Rightarrow> 'e link_parse_error + nat \<times> 's" where
  "parse_values visit s ignored st =
     (if s = [] then Inr (ignored, st)
      else case ParseLinkValue s of
        None \<Rightarrow> Inl LinkHeaderSyntaxError
      | Some (target, has_next, r) \<Rightarrow>
          (case visit st target has_next of
             Inl e \<Rightarrow> Inl (VisitorError e)
           | Inr st' \<Rightarrow>
               let r1 = SkipOws r in
               if r1 = [] then Inr (ignored, st')
               else if hd r1 \<noteq> CHR '','' then Inl LinkHeaderSyntaxError
               else
                 let r2 = SkipOws (tl r1) in
                 if r2 = [] then
                   (case ignore_empty_element ignored of
                      None \<Rightarrow> Inl LinkHeaderSyntaxError | Some ignored' \<Rightarrow> Inr (ignored', st'))
                 else case skip_commas r2 ignored of
                   None \<Rightarrow> Inl LinkHeaderSyntaxError
                 | Some (r3, ignored') \<Rightarrow> parse_values visit r3 ignored' st'))"
  by pat_completeness auto

lemma parse_values_shrinks:
  assumes "ParseLinkValue s = Some (t, b, r)" and "skip_commas (SkipOws (tl (SkipOws r))) n = Some (r3, m)"
  shows "length r3 < length s"
proof -
  have "length r3 \<le> length (SkipOws (tl (SkipOws r)))" using assms(2) by (rule skip_commas_length)
  also have "\<dots> \<le> length (SkipOws r)" using SkipOws_length [of "tl (SkipOws r)"] by simp
  also have "\<dots> \<le> length r" by (rule SkipOws_length)
  also have "\<dots> < length s" using assms(1) by (rule ParseLinkValue_length)
  finally show ?thesis .
qed

termination parse_values
  by (relation "measure (\<lambda>(visit, s, n, st). length s)") (auto dest: parse_values_shrinks)

declare parse_values.simps [simp del]

fun ParseLinkHeaderFields ::
  "('s \<Rightarrow> string \<Rightarrow> bool \<Rightarrow> 'e + 's) \<Rightarrow> string list \<Rightarrow> nat \<Rightarrow> 's \<Rightarrow> 'e link_parse_error + nat \<times> 's" where
  "ParseLinkHeaderFields visit [] ignored st = Inr (ignored, st)"
| "ParseLinkHeaderFields visit (field # more_fields) ignored st =
     (case skip_commas (SkipOws field) ignored of
        None \<Rightarrow> Inl LinkHeaderSyntaxError
      | Some (s, ignored') \<Rightarrow>
          and_then (parse_values visit s ignored' st)
            (\<lambda>(ignored'', st'). ParseLinkHeaderFields visit more_fields ignored'' st'))"

subsection \<open>Quoted strings\<close>

definition quotable :: "char \<Rightarrow> bool" where
  "quotable c \<longleftrightarrow> 0x20 \<le> byte c \<and> byte c \<le> 0x7e"

definition quote_string :: "string \<Rightarrow> string" where
  "quote_string v = CHR 0x22 # concat (map (\<lambda>c. if c = CHR 0x22 \<or> c = CHR 0x5C then [CHR 0x5C, c] else [c]) v) @ [CHR 0x22]"

lemma quoted_tail_quote:
  "\<forall>c\<in>set v. quotable c \<Longrightarrow>
   quoted_tail acc (concat (map (\<lambda>c. if c = CHR 0x22 \<or> c = CHR 0x5C then [CHR 0x5C, c] else [c]) v) @ CHR 0x22 # rest)
   = Some (acc @ v, rest)"
proof (induction v arbitrary: acc)
  case (Cons c v)
  then have "quotable c" by simp
  with Cons show ?case by (auto simp: quotable_def)
qed simp

text \<open>
  Quoted strings are read back exactly: every string of printable ASCII, quoted with a backslash
  before each quote and backslash, is parsed to itself and leaves the rest of the field untouched.
\<close>

theorem quoted_string_round_trip:
  assumes "\<forall>c\<in>set v. quotable c"
  shows "ParseParameterValue (quote_string v @ rest) = Some (v, rest)"
  using quoted_tail_quote [OF assms, of "[]" rest]
  by (simp add: ParseParameterValue_def ParseQuotedString_def quote_string_def)

theorem quoted_string_round_trip_witness:
  "ParseParameterValue (quote_string [CHR ''a'', CHR 0x22, CHR 0x5C, CHR ''b''] @ '',x'') =
   Some ([CHR ''a'', CHR 0x22, CHR 0x5C, CHR ''b''], '',x'')"
  by (rule quoted_string_round_trip) (simp add: quotable_def byte_def)

subsection \<open>Well-formed fields\<close>

lemma class_excludes_angle: "\<not> literal_character CHR ''>''" "\<not> IsHexDigit CHR ''>''" "\<not> IsAsciiDigit CHR ''>''"
  "\<not> IsAsciiAlpha CHR ''>''" "\<not> IsPlainComponentCharacter CHR ''>'' kind"
  by (simp_all add: literal_character_def IsHexDigit_def character_class_defs split: ComponentKind.splits)

lemma component_no_angle: "component kind s \<Longrightarrow> CHR ''>'' \<notin> set s"
  by (rule component_excludes) (simp_all add: class_excludes_angle)

lemma segments_no_angle: "segments_grammar s \<Longrightarrow> CHR ''>'' \<notin> set s"
  by (induction rule: segments_grammar.induct) (auto simp: class_eqs dest: component_no_angle)

lemma authority_no_angle:
  assumes "authority_grammar a"
  shows "CHR ''>'' \<notin> set a"
proof -
  from assms obtain user host port where a: "a = user @ host @ port"
    and user: "user = [] \<or> (\<exists>u. user = u @ ''@'' \<and> component USER_INFO u)"
    and g: "host_grammar host" and p: "optional_part CHR '':'' (list_all IsAsciiDigit) port"
    by (auto simp: authority_grammar_alt)
  have "CHR ''>'' \<notin> set user" using user component_no_angle by auto
  moreover have "CHR ''>'' \<notin> set host"
    using g component_no_angle ip_literal_characters class_excludes_angle(1) by (fastforce simp: host_grammar_alt)
  moreover have "CHR ''>'' \<notin> set port"
    using p class_excludes_angle(3) by (auto simp: optional_part_def list_all_iff)
  ultimately show ?thesis using a by simp
qed

lemma rootless_no_angle: "path_rootless p \<Longrightarrow> CHR ''>'' \<notin> set p"
  using component_no_angle segments_no_angle by (fastforce simp: path_rootless_alt)

lemma parts_no_angle: "hier_part p \<or> relative_part p \<Longrightarrow> CHR ''>'' \<notin> set p"
  using rootless_no_angle noscheme_rootless authority_no_angle segments_no_angle
  by (fastforce simp: hier_part_def relative_part_def authority_path_def path_absolute_def)

lemma scheme_no_angle: "scheme_grammar s \<Longrightarrow> CHR ''>'' \<notin> set s"
  using class_excludes_angle by (auto simp: scheme_grammar_alt)

lemma optional_no_angle: "optional_part c (component k) s \<Longrightarrow> c \<noteq> CHR ''>'' \<Longrightarrow> CHR ''>'' \<notin> set s"
  using component_no_angle by (auto simp: optional_part_def)

lemma tails_no_angle:
  assumes "with_query_and_fragment part v" and "\<And>h. part h \<Longrightarrow> CHR ''>'' \<notin> set h"
  shows "CHR ''>'' \<notin> set v"
proof -
  from assms(1) obtain h q f where v: "v = h @ q @ f" and "part h"
    and q: "optional_part CHR ''?'' (component QUERY_OR_FRAGMENT) q"
    and f: "optional_part CHR ''#'' (component QUERY_OR_FRAGMENT) f"
    unfolding with_query_and_fragment_alt by blast
  have "CHR ''>'' \<notin> set h" by (rule assms(2)) fact
  moreover have "CHR ''>'' \<notin> set q" by (rule optional_no_angle [OF q]) simp
  moreover have "CHR ''>'' \<notin> set f" by (rule optional_no_angle [OF f]) simp
  ultimately show ?thesis by (simp add: v)
qed

lemma scheme_part_no_angle:
  "\<exists>s p. h = s @ CHR '':'' # p \<and> scheme_grammar s \<and> hier_part p \<Longrightarrow> CHR ''>'' \<notin> set h"
  using scheme_no_angle parts_no_angle by auto

lemma valid_reference_no_angle:
  assumes "IsValidUriReference v"
  shows "CHR ''>'' \<notin> set v"
  using assms unfolding uri_reference_iff uri_grammar_def relative_ref_grammar_def
proof (elim disjE)
  assume "with_query_and_fragment (\<lambda>h. \<exists>s p. h = s @ CHR '':'' # p \<and> scheme_grammar s \<and> hier_part p) v"
  then show ?thesis by (rule tails_no_angle) (rule scheme_part_no_angle)
next
  assume "with_query_and_fragment relative_part v"
  then show ?thesis by (rule tails_no_angle) (simp add: parts_no_angle)
qed

definition link_value :: "string \<times> bool \<Rightarrow> string" where
  "link_value v = CHR ''<'' # fst v @ ''>; rel='' @ quote_string (if snd v then ''next'' else ''prev'')"

fun link_field :: "(string \<times> bool) list \<Rightarrow> string" where
  "link_field [] = []"
| "link_field [v] = link_value v"
| "link_field (v # w # vs) = link_value v @ '', '' @ link_field (w # vs)"

fun visit_all :: "('s \<Rightarrow> string \<Rightarrow> bool \<Rightarrow> 'e + 's) \<Rightarrow> (string \<times> bool) list \<Rightarrow> 's \<Rightarrow> 'e + 's" where
  "visit_all visit [] st = Inr st"
| "visit_all visit ((target, has_next) # vs) st =
     and_then (visit st target has_next) (visit_all visit vs)"

lemma relation_next: "RelationContainsNext ''next'' = Some True"
  by code_simp

lemma relation_prev: "RelationContainsNext ''prev'' = Some False"
  by code_simp

lemma rel_token: "ParseToken (''rel='' @ s) = Some (''rel'', CHR ''='' # s)"
  by (simp add: ParseToken_def IsTokenCharacter_def character_class_defs)

lemma rel_names: "EqualsAsciiIgnoreCase ''rel'' ''rel''"
  by (simp add: EqualsAsciiIgnoreCase_def)

lemma rel_value:
  "ParseParameterValue (quote_string (if b then ''next'' else ''prev'') @ rest) = Some (if b then ''next'' else ''prev'', rest)"
  by (cases b) (simp_all add: ParseParameterValue_def ParseQuotedString_def quote_string_def quotable_def byte_def)

lemma parse_params_end:
  "rest = [] \<or> hd rest = CHR '','' \<Longrightarrow> parse_params rest p = Some (rest, p)"
  by (subst parse_params.simps) (cases rest; auto simp: SkipOws_def IsOws_def)

lemma SkipOws_simps: "SkipOws [] = []" "IsOws c \<Longrightarrow> SkipOws (c # s) = SkipOws s"
  "\<not> IsOws c \<Longrightarrow> SkipOws (c # s) = c # s"
  by (simp_all add: SkipOws_def)

lemma parse_params_rel:
  assumes "rest = [] \<or> hd rest = CHR '',''"
  shows "parse_params (''; rel='' @ quote_string (if b then ''next'' else ''prev'') @ rest)
     \<lparr>saw_rel = False, saw_anchor = False, has_next_relation = False\<rparr>
   = Some (rest, \<lparr>saw_rel = True, saw_anchor = False, has_next_relation = b\<rparr>)"
proof -
  let ?q = "quote_string (if b then ''next'' else ''prev'') @ rest"
  let ?p = "\<lparr>saw_rel = False, saw_anchor = False, has_next_relation = False\<rparr>"
  have q: "SkipOws ?q = ?q" by (simp add: quote_string_def SkipOws_simps IsOws_def)
  have "parse_params (''; rel='' @ ?q) ?p = parse_params rest \<lparr>saw_rel = True, saw_anchor = False, has_next_relation = b\<rparr>"
    using rel_token [of ?q]
    by (subst parse_params.simps)
      (simp add: SkipOws_simps IsOws_def q rel_value apply_parameter_def rel_names relation_next relation_prev)
  with parse_params_end [OF assms] show ?thesis by simp
qed

lemma ParseLinkValue_link:
  assumes "IsValidUriReference t" and "rest = [] \<or> hd rest = CHR '',''"
  shows "ParseLinkValue (link_value (t, b) @ rest) = Some (t, b, rest)"
proof -
  let ?r = "''; rel='' @ quote_string (if b then ''next'' else ''prev'') @ rest"
  have f: "link_value (t, b) @ rest = CHR ''<'' # t @ CHR ''>'' # ?r" by (simp add: link_value_def)
  have "split_at CHR ''>'' (t @ CHR ''>'' # ?r) = Some (t, ?r)"
    using valid_reference_no_angle [OF assms(1)] by (rule split_at_append)
  with parse_params_rel [OF assms(2), of b] assms(1) show ?thesis
    unfolding f ParseLinkValue_def by (simp add: SkipOws_simps IsOws_def Let_def)
qed

lemma link_field_nonempty: "vs \<noteq> [] \<Longrightarrow> link_field vs \<noteq> [] \<and> hd (link_field vs) = CHR ''<''"
  by (cases vs rule: link_field.cases) (simp_all add: link_value_def)

lemma skip_commas_link: "s \<noteq> [] \<Longrightarrow> hd s = CHR ''<'' \<Longrightarrow> skip_commas s n = Some (s, n) \<and> SkipOws s = s"
  by (subst skip_commas.simps) (cases s; auto simp: SkipOws_simps IsOws_def)

lemma parse_values_links:
  assumes "\<forall>v\<in>set vs. IsValidUriReference (fst v)"
  shows "parse_values visit (link_field vs) n st =
    (case visit_all visit vs st of Inl e \<Rightarrow> Inl (VisitorError e) | Inr st' \<Rightarrow> Inr (n, st'))"
  using assms
proof (induction vs arbitrary: st rule: link_field.induct)
  case 1
  then show ?case by (simp add: parse_values.simps [of visit "[]"])
next
  case (2 v)
  obtain t b where v: "v = (t, b)" by (cases v)
  have "ParseLinkValue (link_value v) = Some (t, b, [])"
    using ParseLinkValue_link [of t "[]" b] 2 v by simp
  moreover have "link_value v \<noteq> []" by (simp add: link_value_def)
  ultimately show ?case
    using v by (cases "visit st t b") (simp_all add: parse_values.simps [of visit "link_value (t, b)"] SkipOws_simps)
next
  case (3 v w vs)
  obtain t b where v: "v = (t, b)" by (cases v)
  let ?f = "link_field (w # vs)" and ?s = "link_field (v # w # vs)"
  have p: "ParseLinkValue ?s = Some (t, b, '', '' @ ?f)"
    using ParseLinkValue_link [of t "'', '' @ ?f" b] 3 v by simp
  have ne: "?s \<noteq> []" by (simp add: link_value_def)
  have f: "?f \<noteq> []" "hd ?f = CHR ''<''" using link_field_nonempty [of "w # vs"] by simp_all
  note c = skip_commas_link [OF f]
  have "parse_values visit ?s n st = (case visit st t b of Inl e \<Rightarrow> Inl (VisitorError e)
      | Inr st' \<Rightarrow> parse_values visit ?f n st')"
    using p ne f c
    by (subst parse_values.simps) (simp add: SkipOws_simps IsOws_def split: sum.splits del: link_field.simps)
  with 3 v show ?case by (cases "visit st t b") (simp_all del: link_field.simps)
qed

lemma fields_of_links:
  assumes "\<forall>v\<in>set vs. IsValidUriReference (fst v)"
  shows "ParseLinkHeaderFields visit [link_field vs] 0 st =
    (case visit_all visit vs st of Inl e \<Rightarrow> Inl (VisitorError e) | Inr st' \<Rightarrow> Inr (0, st'))"
proof -
  have "skip_commas (SkipOws (link_field vs)) 0 = Some (link_field vs, 0)"
  proof (cases "vs = []")
    case True
    then show ?thesis by (simp add: SkipOws_simps skip_commas.simps [of "[]"])
  next
    case False
    then show ?thesis using skip_commas_link link_field_nonempty by metis
  qed
  with parse_values_links [OF assms, of visit 0 st] show ?thesis
    by (cases "visit_all visit vs st") simp_all
qed

text \<open>
  A well-formed Link field is delivered value by value: for any list of valid targets marked as next
  or not, the rendered field makes the parser call the visitor on exactly these pairs in receipt
  order, with the visitor's own error, if any, ending the parse.
\<close>

theorem link_field_round_trip:
  assumes "\<forall>v\<in>set vs. IsValidUriReference (fst v)"
  shows "ParseLinkHeaderFields visit [link_field vs] 0 st =
    (case visit_all visit vs st of Inl e \<Rightarrow> Inl (VisitorError e) | Inr st' \<Rightarrow> Inr (0, st'))"
  using assms by (rule fields_of_links)

lemma example_reference: "IsValidUriReference ''/a?page=2''"
  by code_simp

theorem link_field_round_trip_witness:
  "ParseLinkHeaderFields (\<lambda>st t b. (Inr (st @ [(t, b)]) :: unit + (string \<times> bool) list))
     [link_field [(''/a?page=2'', True), (''/a?page=2'', False)]] 0 []
   = Inr (0, [(''/a?page=2'', True), (''/a?page=2'', False)])"
  by (subst link_field_round_trip) (simp_all add: example_reference)

subsection \<open>Empty list elements\<close>

lemma ignore_bound: "ignore_empty_element n = Some m \<Longrightarrow> n \<le> m \<and> m \<le> MAX_IGNORED_EMPTY_LIST_ELEMENTS"
  by (auto simp: ignore_empty_element_def split: if_splits)

lemma skip_commas_bound:
  "skip_commas s n = Some (r, m) \<Longrightarrow> n \<le> MAX_IGNORED_EMPTY_LIST_ELEMENTS \<Longrightarrow> m \<le> MAX_IGNORED_EMPTY_LIST_ELEMENTS"
proof (induction s n rule: skip_commas.induct)
  case (1 s n)
  show ?case
  proof (cases "s = [] \<or> hd s \<noteq> CHR '',''")
    case True
    with "1.prems" show ?thesis by (auto simp: skip_commas.simps [of s n])
  next
    case False
    with "1.prems" obtain k where k: "ignore_empty_element n = Some k" "skip_commas (SkipOws (tl s)) k = Some (r, m)"
      by (auto simp: skip_commas.simps [of s n] split: option.splits)
    from "1.IH" [OF False k] ignore_bound [OF k(1)] show ?thesis by blast
  qed
qed

lemma parse_values_bound:
  "parse_values visit s n st = Inr (m, st') \<Longrightarrow> n \<le> MAX_IGNORED_EMPTY_LIST_ELEMENTS \<Longrightarrow>
   m \<le> MAX_IGNORED_EMPTY_LIST_ELEMENTS"
proof (induction visit s n st rule: parse_values.induct)
  case (1 visit s n st)
  show ?case
  proof (cases "s = []")
    case True
    with "1.prems" show ?thesis by (auto simp: parse_values.simps [of visit "[]" n st])
  next
    case False
    with "1.prems" obtain t b r st1 where l: "ParseLinkValue s = Some (t, b, r)" "visit st t b = Inr st1"
      by (auto simp: parse_values.simps [of visit s n st] split: option.splits sum.splits)
    from "1.prems"(1) False l consider "m = n" | "ignore_empty_element n = Some m"
      | r3 k where "\<not> SkipOws r = []" "\<not> hd (SkipOws r) \<noteq> CHR '',''" "\<not> SkipOws (tl (SkipOws r)) = []"
          "skip_commas (SkipOws (tl (SkipOws r))) n = Some (r3, k)" "parse_values visit r3 k st1 = Inr (m, st')"
      by (auto simp: parse_values.simps [of visit s n st] Let_def split: option.splits if_splits)
    then show ?thesis
    proof cases
      case 1
      then show ?thesis using "1.prems" by simp
    next
      case 2
      then show ?thesis using ignore_bound by blast
    next
      case 3
      from skip_commas_bound [OF 3(4) "1.prems"(2)]
      have "k \<le> MAX_IGNORED_EMPTY_LIST_ELEMENTS" .
      from "1.IH" [OF False l(1) refl refl l(2) refl 3(1,2) refl 3(3,4) refl 3(5) this] show ?thesis .
    qed
  qed
qed

lemma fields_bound:
  "ParseLinkHeaderFields visit fs n st = Inr (m, st') \<Longrightarrow> n \<le> MAX_IGNORED_EMPTY_LIST_ELEMENTS \<Longrightarrow>
   m \<le> MAX_IGNORED_EMPTY_LIST_ELEMENTS"
proof (induction visit fs n st rule: ParseLinkHeaderFields.induct)
  case (2 visit field more n st)
  from "2.prems"(1) obtain s k k' st1 where "skip_commas (SkipOws field) n = Some (s, k)"
    "parse_values visit s k st = Inr (k', st1)" "ParseLinkHeaderFields visit more k' st1 = Inr (m, st')"
    by (auto simp: and_then_Inr_iff split: option.splits)
  with 2 skip_commas_bound parse_values_bound show ?case by metis
qed simp

lemma skip_commas_replicate:
  "n \<le> MAX_IGNORED_EMPTY_LIST_ELEMENTS \<Longrightarrow> skip_commas (replicate k CHR '','') n =
   (if n + k \<le> MAX_IGNORED_EMPTY_LIST_ELEMENTS then Some ([], n + k) else None)"
proof (induction k arbitrary: n)
  case 0
  then show ?case by (simp add: skip_commas.simps [of "[]"])
next
  case (Suc k)
  have "SkipOws (replicate k CHR '','') = replicate k CHR '',''"
    by (cases k) (simp_all add: SkipOws_def IsOws_def)
  then have "skip_commas (replicate (Suc k) CHR '','') n = (case ignore_empty_element n of None \<Rightarrow> None
      | Some m \<Rightarrow> skip_commas (replicate k CHR '','') m)"
    by (subst skip_commas.simps) (simp split: option.split)
  with Suc.IH [of "n + 1"] show ?case by (auto simp: ignore_empty_element_def)
qed

text \<open>
  Ignored empty list elements are bounded over all fields together: a parse that succeeds has
  ignored at most 128, and a field of \<open>k\<close> bare commas is accepted with no visit for \<open>k\<close> up to 128 and
  is malformed beyond.
\<close>

theorem empty_elements_bounded:
  "(\<forall>m st'. ParseLinkHeaderFields visit fs 0 st = Inr (m, st') \<longrightarrow> m \<le> 128) \<and>
   ParseLinkHeaderFields visit [replicate k CHR '',''] 0 st =
     (if k \<le> 128 then Inr (k, st) else Inl LinkHeaderSyntaxError)"
proof -
  have "SkipOws (replicate k CHR '','') = replicate k CHR '',''"
    by (cases k) (simp_all add: SkipOws_def IsOws_def)
  then have "ParseLinkHeaderFields visit [replicate k CHR '',''] 0 st =
      (if k \<le> 128 then Inr (k, st) else Inl LinkHeaderSyntaxError)"
    by (simp add: skip_commas_replicate MAX_IGNORED_EMPTY_LIST_ELEMENTS_def parse_values.simps [of visit "[]"])
  then show ?thesis
    using fields_bound [of visit fs 0 st] by (auto simp: MAX_IGNORED_EMPTY_LIST_ELEMENTS_def)
qed

theorem empty_elements_bounded_witness:
  "ParseLinkHeaderFields (\<lambda>st t b. (Inr st :: unit + nat)) [replicate 129 CHR '',''] 0 7 = Inl LinkHeaderSyntaxError"
  using empty_elements_bounded [of "\<lambda>st t b. (Inr st :: unit + nat)" "[]" 7 129] by simp

end
