(* ===== verification/Link_Pagination.thy ===== *)
theory Link_Pagination
  imports Link_Header
begin

section \<open>Link pagination\<close>

text \<open>
  The continuation state of a paginated REST scan (\<open>src/runtime/pagination/link_pagination.cpp\<close>): the
  checks a continuation target must pass, the selection of the one \<open>rel=next\<close> value of the Link
  fields, and the three ways to advance the page. Memory exhaustion is not modelled; every
  \<open>LinkPaginationError\<close> is its kind. The admitted profile is the record of the facts this code
  reads. The theorems show that an accepted target stays at the admitted origin and path and
  names the successor page, that pages form one arithmetic progression without wrap-around, and that
  a failed or exhausted state is final.
\<close>

datatype LinkPaginationErrorKind = MALFORMED | POLICY | STATE

record paginated_profile =
  profile_scheme :: string
  profile_host :: string
  profile_port :: uint16
  profile_path :: string
  page_number_parameter :: string
  page_size :: uint64
  first_page :: uint64
  page_increment :: uint64

record link_page_transition =
  has_next :: bool
  next_page :: uint64

subsection \<open>Checking a continuation target\<close>

fun read_decimal :: "string \<Rightarrow> uint64 \<Rightarrow> uint64 option" where
  "read_decimal [] result = Some result"
| "read_decimal (c # cs) result =
     (if \<not> IsAsciiDigit c then None
      else let digit = of_nat (digit_value c) in
        if result > (uint64_max - digit) div 10 then None
        else read_decimal cs (result * 10 + digit))"

definition ParsePositiveDecimal :: "string \<Rightarrow> LinkPaginationErrorKind + uint64" where
  "ParsePositiveDecimal v =
     (if v = [] \<or> \<not> in_range CHR ''1'' CHR ''9'' (hd v) then Inl POLICY
      else case read_decimal v 0 of None \<Rightarrow> Inl POLICY | Some result \<Rightarrow> Inr result)"

text \<open>\<open>compare(offset, p.size(), p) == 0\<close> and the advance of the offset.\<close>

definition strip_prefix :: "string \<Rightarrow> string \<Rightarrow> string option" where
  "strip_prefix p s = (if take (length p) s = p then Some (drop (length p) s) else None)"

function parse_query ::
  "string \<Rightarrow> string \<Rightarrow> (string \<times> string) list \<Rightarrow> uint64 \<Rightarrow> LinkPaginationErrorKind + uint64" where
  "parse_query page_parameter s received parsed_page =
     (if s = [] then Inr parsed_page
      else
        let (field, more) = (case split_at CHR ''&'' s of None \<Rightarrow> (s, None) | Some (f, r) \<Rightarrow> (f, Some r))
        in if field = [] then Inl POLICY
           else case split_at CHR ''='' field of
             None \<Rightarrow> Inl POLICY
           | Some (name, v) \<Rightarrow>
               if name = [] \<or> CHR ''='' \<in> set v then Inl POLICY
               else if name \<in> fst ` set received then Inl POLICY
               else and_then (if name = page_parameter then ParsePositiveDecimal v else Inr parsed_page)
                 (\<lambda>parsed_page'.
                    case more of
                      None \<Rightarrow> Inr parsed_page'
                    | Some rest \<Rightarrow>
                        if rest = [] then Inl POLICY
                        else parse_query page_parameter rest (received @ [(name, v)]) parsed_page'))"
  by pat_completeness auto
termination
proof (relation "measure (\<lambda>(p, s, r, n). length s)")
  fix page_parameter s :: string and received x xa y field name v parsed rest and more :: "string option" and n
  assume "x = (case split_at CHR ''&'' s of None \<Rightarrow> (s, None) | Some (f, r) \<Rightarrow> (f, Some r))" "(xa, y) = x" "y = Some rest"
  then have "length rest < length s" by (auto dest: split_at_length split: option.splits)
  then show "((page_parameter, rest, received @ [(name, v)], parsed), page_parameter, s, received, n)
      \<in> measure (\<lambda>(p, s, r, n). length s)" by simp
qed simp

declare parse_query.simps [simp del]

text \<open>The explicit port, or its omission where it is the HTTPS default.\<close>

definition strip_port :: "paginated_profile \<Rightarrow> string \<Rightarrow> LinkPaginationErrorKind + string" where
  "strip_port profile s =
     (case strip_prefix (CHR '':'' # decimal (unat (profile_port profile))) s of
        Some rest \<Rightarrow> Inr rest
      | None \<Rightarrow>
          if profile_scheme profile \<noteq> ''https'' \<or> profile_port profile \<noteq> 443 then Inl POLICY else Inr s)"

definition ValidateNextTarget ::
  "string \<Rightarrow> uint64 \<Rightarrow> paginated_profile \<Rightarrow> LinkPaginationErrorKind + uint64" where
  "ValidateNextTarget target current_page profile =
     (case strip_prefix (profile_scheme profile @ ''://'' @ profile_host profile) target of
        None \<Rightarrow> Inl POLICY
      | Some after_authority \<Rightarrow>
          and_then (strip_port profile after_authority)
            (\<lambda>after_port.
               case strip_prefix (profile_path profile @ ''?'') after_port of
                 None \<Rightarrow> Inl POLICY
               | Some query \<Rightarrow>
                   if query = [] \<or> CHR ''#'' \<in> set query then Inl POLICY
                   else and_then (parse_query (page_number_parameter profile) query [] 0) (\<lambda>parsed_page.
                     if current_page > uint64_max - page_increment profile then Inl POLICY
                     else if parsed_page \<noteq> current_page + page_increment profile then Inl POLICY
                     else Inr parsed_page)))"

subsection \<open>Selecting the next link\<close>

text \<open>\<open>NextTargetSelector\<close>: its state is the target found, if any.\<close>

definition Visit :: "string option \<Rightarrow> string \<Rightarrow> bool \<Rightarrow> LinkPaginationErrorKind + string option" where
  "Visit found target is_next =
     (if \<not> is_next then Inr found
      else if found \<noteq> None then Inl POLICY
      else Inr (Some target))"

definition ParseTransition ::
  "string list \<Rightarrow> uint64 \<Rightarrow> paginated_profile \<Rightarrow> LinkPaginationErrorKind + link_page_transition" where
  "ParseTransition link_fields current_page profile =
     (case ParseLinkHeaderFields Visit link_fields 0 None of
        Inl LinkHeaderSyntaxError \<Rightarrow> Inl MALFORMED
      | Inl (VisitorError e) \<Rightarrow> Inl e
      | Inr (ignored, None) \<Rightarrow> Inr \<lparr>has_next = False, next_page = 0\<rparr>
      | Inr (ignored, Some target) \<Rightarrow>
          and_then (ValidateNextTarget target current_page profile)
            (\<lambda>page. Inr \<lparr>has_next = True, next_page = page\<rparr>))"

subsection \<open>The pagination state\<close>

record link_pagination_state =
  state_profile :: paginated_profile
  current_page :: uint64
  seen_page_count :: nat
  exhausted :: bool
  failed :: bool

definition new_LinkPaginationState :: "paginated_profile \<Rightarrow> link_pagination_state" where
  "new_LinkPaginationState profile =
     \<lparr>state_profile = profile, current_page = first_page profile, seen_page_count = 1,
      exhausted = False, failed = False\<rparr>"

text \<open>The three ways to advance share their commit and their catch clauses.\<close>

definition commit_transition ::
  "link_pagination_state \<Rightarrow> LinkPaginationErrorKind + link_page_transition \<Rightarrow>
   (LinkPaginationErrorKind + link_page_transition) \<times> link_pagination_state" where
  "commit_transition st r =
     (case r of
        Inl e \<Rightarrow> (Inl e, st\<lparr>failed := True\<rparr>)
      | Inr t \<Rightarrow>
          if \<not> has_next t then (Inr t, st\<lparr>exhausted := True\<rparr>)
          else (Inr t, st\<lparr>seen_page_count := seen_page_count st + 1, current_page := next_page t\<rparr>))"

definition Advance ::
  "string list \<Rightarrow> link_pagination_state \<Rightarrow> (LinkPaginationErrorKind + link_page_transition) \<times> link_pagination_state" where
  "Advance link_field_values st =
     (if failed st \<or> exhausted st then (Inl STATE, st)
      else commit_transition st (ParseTransition link_field_values (current_page st) (state_profile st)))"

definition AdvanceBody ::
  "string \<Rightarrow> link_pagination_state \<Rightarrow> (LinkPaginationErrorKind + link_page_transition) \<times> link_pagination_state" where
  "AdvanceBody next_url st =
     (if failed st \<or> exhausted st then (Inl STATE, st)
      else commit_transition st
        (if next_url = [] then Inr \<lparr>has_next = False, next_page = 0\<rparr>
         else and_then (ValidateNextTarget next_url (current_page st) (state_profile st))
                (\<lambda>page. Inr \<lparr>has_next = True, next_page = page\<rparr>)))"

definition AdvanceByCount ::
  "uint64 \<Rightarrow> link_pagination_state \<Rightarrow> (LinkPaginationErrorKind + link_page_transition) \<times> link_pagination_state" where
  "AdvanceByCount decoded_row_count st =
     (if failed st \<or> exhausted st then (Inl STATE, st)
      else commit_transition st
        (if decoded_row_count = 0 \<or> decoded_row_count < page_size (state_profile st)
         then Inr \<lparr>has_next = False, next_page = 0\<rparr>
         else if current_page st > uint64_max - page_increment (state_profile st) then Inl POLICY
         else Inr \<lparr>has_next = True, next_page = current_page st + page_increment (state_profile st)\<rparr>))"

datatype pagination_call = AdvanceLink "string list" | AdvanceFromBody string | AdvanceFromCount uint64

fun pagination_apply ::
  "pagination_call \<Rightarrow> link_pagination_state \<Rightarrow>
   (LinkPaginationErrorKind + link_page_transition) \<times> link_pagination_state" where
  "pagination_apply (AdvanceLink v) st = Advance v st"
| "pagination_apply (AdvanceFromBody url) st = AdvanceBody url st"
| "pagination_apply (AdvanceFromCount n) st = AdvanceByCount n st"

definition pagination_step :: "link_pagination_state \<Rightarrow> pagination_call \<Rightarrow> link_pagination_state" where
  "pagination_step st c = snd (pagination_apply c st)"

subsection \<open>Decimal page numbers\<close>

interpretation page_number: decimal_reader read_decimal
  by unfold_locales (simp_all add: Let_def)

lemma nonzero_digit: "in_range CHR ''1'' CHR ''9'' c \<longleftrightarrow> IsAsciiDigit c \<and> c \<noteq> CHR ''0''"
proof -
  have "byte CHR ''0'' = 48" by (simp add: byte_def)
  then have "c = CHR ''0'' \<longleftrightarrow> byte c = 48" using byte_inject [of c "CHR ''0''"] by simp
  then show ?thesis by (auto simp: in_range_def digit_bytes) (simp_all add: byte_def)
qed

lemma ParsePositiveDecimal_iff: "ParsePositiveDecimal v = Inr n \<longleftrightarrow> v = decimal (unat n) \<and> 0 < n"
proof
  assume p: "ParsePositiveDecimal v = Inr n"
  then have v: "v \<noteq> []" "in_range CHR ''1'' CHR ''9'' (hd v)" and r: "read_decimal v 0 = Some n"
    by (auto simp: ParsePositiveDecimal_def split: if_splits option.splits)
  from r have d: "\<forall>c\<in>set v. IsAsciiDigit c" "unat n = digits_value v" by (simp_all add: page_number.read_digits)
  with v have "canonical_digits v" and "0 < digits_value v"
    by (simp_all add: canonical_digits_def nonzero_digit digits_value_pos)
  with d show "v = decimal (unat n) \<and> 0 < n"
    by (metis decimal_digits_value unat_gt_0 word_neq_0_conv neq0_conv)
next
  assume a: "v = decimal (unat n) \<and> 0 < n"
  then have v: "v = decimal (unat n)" by simp
  then have r: "canonical_digits v" "read_decimal v 0 = Some n" using page_number.read_canonical [of v n] by simp_all
  have "hd v \<noteq> CHR ''0''"
  proof
    assume z: "hd v = CHR ''0''"
    with r(1) have "v = ''0''" by (cases v) (auto simp: canonical_digits_def)
    then have "digits_value v = 0" by (simp add: digits_value_def digit_value_def byte_def)
    with v have "unat n = 0" by simp
    with a show False by (simp add: unat_eq_0)
  qed
  with r show "ParsePositiveDecimal v = Inr n"
    by (simp add: ParsePositiveDecimal_def canonical_digits_def nonzero_digit)
qed

text \<open>
  A page number is accepted exactly when it is the canonical decimal of a positive 64-bit
  number, and then the parsed page is that number.
\<close>

theorem page_number_canonical: "ParsePositiveDecimal v = Inr n \<longleftrightarrow> v = decimal (unat n) \<and> 0 < n"
  by (rule ParsePositiveDecimal_iff)

subsection \<open>Query fields\<close>

definition query_field :: "string \<times> string \<Rightarrow> string" where
  "query_field f = fst f @ CHR ''='' # snd f"

definition query_string :: "(string \<times> string) list \<Rightarrow> string" where
  "query_string fs = join_with CHR ''&'' (map query_field fs)"

definition plain_field :: "string \<times> string \<Rightarrow> bool" where
  "plain_field f \<longleftrightarrow> fst f \<noteq> [] \<and> CHR ''='' \<notin> set (fst f) \<and> CHR ''&'' \<notin> set (fst f) \<and>
     CHR ''='' \<notin> set (snd f) \<and> CHR ''&'' \<notin> set (snd f)"

text \<open>The page that a list of fields denotes, when the state so far is \<open>n\<close>.\<close>

definition denotes_page :: "string \<Rightarrow> (string \<times> string) list \<Rightarrow> uint64 \<Rightarrow> uint64 \<Rightarrow> bool" where
  "denotes_page page_parameter fs n w \<longleftrightarrow>
     (case map_of fs page_parameter of None \<Rightarrow> w = n | Some v \<Rightarrow> v = decimal (unat w) \<and> 0 < w)"

definition accepted_fields :: "string \<Rightarrow> (string \<times> string) list \<Rightarrow> (string \<times> string) list \<Rightarrow> uint64 \<Rightarrow> uint64 \<Rightarrow> bool" where
  "accepted_fields page_parameter fs received n w \<longleftrightarrow>
     fs \<noteq> [] \<and> (\<forall>f\<in>set fs. plain_field f) \<and> distinct (map fst fs) \<and>
     fst ` set fs \<inter> fst ` set received = {} \<and> denotes_page page_parameter fs n w"

lemma query_string_Cons: "fs \<noteq> [] \<Longrightarrow> query_string (f # fs) = query_field f @ CHR ''&'' # query_string fs"
  by (simp add: query_string_def join_with_Cons)

lemma query_string_nonempty: "fs \<noteq> [] \<Longrightarrow> query_string fs \<noteq> []"
  by (cases fs; cases "tl fs") (auto simp: query_string_def query_field_def)

lemma query_field_split:
  "plain_field (a, v) \<Longrightarrow> split_at CHR ''='' (query_field (a, v)) = Some (a, v) \<and>
   CHR ''&'' \<notin> set (query_field (a, v)) \<and> query_field (a, v) \<noteq> []"
  by (simp add: plain_field_def query_field_def)

lemma parse_query_complete:
  "accepted_fields p fs received n w \<Longrightarrow> parse_query p (query_string fs) received n = Inr w"
proof (induction fs arbitrary: received n)
  case Nil
  then show ?case by (simp add: accepted_fields_def)
next
  case (Cons f fs)
  obtain a v where f: "f = (a, v)" by (cases f)
  have pf: "plain_field (a, v)" and fresh: "a \<notin> fst ` set received"
    using Cons.prems f by (auto simp: accepted_fields_def)
  note split = query_field_split [OF pf]
  show ?case
  proof (cases "fs = []")
    case True
    have none: "split_at CHR ''&'' (query_field (a, v)) = None" using split by (simp add: split_at_None)
    have d: "if a = p then v = decimal (unat w) \<and> 0 < w else w = n"
      using Cons.prems True f by (auto simp: accepted_fields_def denotes_page_def split: if_splits)
    then have "(if a = p then ParsePositiveDecimal v else Inr n) = Inr w" by (auto simp: ParsePositiveDecimal_iff)
    with True f none split pf fresh show ?thesis
      by (simp add: parse_query.simps [of p "query_field (a, v)"] query_string_def plain_field_def)
  next
    case False
    have amp: "split_at CHR ''&'' (query_string (f # fs)) = Some (query_field (a, v), query_string fs)"
      using split f False by (simp add: query_string_Cons)
    obtain k where k: "(if a = p then ParsePositiveDecimal v else Inr n) = Inr k"
      and acc: "accepted_fields p fs (received @ [(a, v)]) k w"
    proof (cases "a = p")
      case True
      then have "v = decimal (unat w)" "0 < w"
        using Cons.prems f by (auto simp: accepted_fields_def denotes_page_def)
      moreover have "accepted_fields p fs (received @ [(a, v)]) w w"
        using Cons.prems False f True
        by (auto simp: accepted_fields_def denotes_page_def map_of_eq_None_iff split: option.splits) (metis fst_conv image_eqI)+
      ultimately show ?thesis using that [of w] True by (simp add: ParsePositiveDecimal_iff)
    next
      case ne: False
      then have "accepted_fields p fs (received @ [(a, v)]) n w"
        using Cons.prems False f by (auto simp: accepted_fields_def denotes_page_def)
      then show ?thesis using that [of n] ne by simp
    qed
    from Cons.IH [OF acc] amp k split pf fresh query_string_nonempty [OF False] show ?thesis
      by (subst parse_query.simps) (auto simp: plain_field_def)
  qed
qed

lemma parse_query_sound:
  "parse_query p s received n = Inr w \<Longrightarrow> s \<noteq> [] \<Longrightarrow> \<exists>fs. s = query_string fs \<and> accepted_fields p fs received n w"
proof (induction p s received n rule: parse_query.induct)
  case (1 p s received n)
  define fm where "fm = (case split_at CHR ''&'' s of None \<Rightarrow> (s, None) | Some (f, r) \<Rightarrow> (f, Some r))"
  obtain field more where fm': "fm = (field, more)" by (cases fm)
  from "1.prems" fm' obtain a v where f: "field \<noteq> []" "split_at CHR ''='' field = Some (a, v)"
    and ok: "\<not> (a = [] \<or> CHR ''='' \<in> set v)" "a \<notin> fst ` set received"
    by (auto simp: parse_query.simps [of p s] fm_def [symmetric] Let_def split: if_splits option.splits)
  with "1.prems" fm' obtain k where k: "(if a = p then ParsePositiveDecimal v else Inr n) = Inr k"
    and rest: "(case more of None \<Rightarrow> Inr k | Some rest \<Rightarrow> if rest = [] then Inl POLICY
                 else parse_query p rest (received @ [(a, v)]) k) = Inr w"
    by (auto simp: parse_query.simps [of p s] fm_def [symmetric] and_then_Inr_iff)
  have amp: "CHR ''&'' \<notin> set field"
    using fm_def fm' by (auto simp: split_at_None split_at_Some split: option.splits)
  have fieldeq: "field = query_field (a, v)" using f(2) by (simp add: split_at_Some query_field_def)
  have pf: "plain_field (a, v)"
    using ok amp fieldeq f(2) by (auto simp: plain_field_def query_field_def split_at_Some)
  show ?case
  proof (cases more)
    case None
    then have "s = query_string [(a, v)]"
      using fm_def fm' fieldeq by (auto simp: query_string_def split: option.splits)
    moreover have "accepted_fields p [(a, v)] received n w"
      using pf ok k rest None by (auto simp: accepted_fields_def denotes_page_def ParsePositiveDecimal_iff split: if_splits)
    ultimately show ?thesis by blast
  next
    case (Some r)
    with rest have r: "r \<noteq> []" "parse_query p r (received @ [(a, v)]) k = Inr w" by (auto split: if_splits)
    have "\<exists>fs. r = query_string fs \<and> accepted_fields p fs (received @ [(a, v)]) k w"
      by (rule "1.IH" [OF "1.prems"(2) fm_def fm' [symmetric] f(1) f(2) refl ok Some r(1) r(2) r(1)])
    then obtain fs where fs: "r = query_string fs" "accepted_fields p fs (received @ [(a, v)]) k w" by blast
    have ne: "fs \<noteq> []" using fs(2) by (simp add: accepted_fields_def)
    have "s = field @ CHR ''&'' # r"
      using fm_def fm' Some by (auto simp: split_at_Some split: option.splits)
    then have "s = query_string ((a, v) # fs)" using fieldeq fs(1) ne by (simp add: query_string_Cons)
    moreover have "denotes_page p ((a, v) # fs) n w"
    proof (cases "a = p")
      case True
      then have "map_of fs p = None" using fs(2) by (auto simp: accepted_fields_def map_of_eq_None_iff)
      with True k fs(2) show ?thesis by (auto simp: accepted_fields_def denotes_page_def ParsePositiveDecimal_iff)
    next
      case False
      with k fs(2) show ?thesis by (auto simp: accepted_fields_def denotes_page_def)
    qed
    then have "accepted_fields p ((a, v) # fs) received n w"
      using fs(2) pf ok by (auto simp: accepted_fields_def)
    ultimately show ?thesis by blast
  qed
qed

subsection \<open>Accepted targets\<close>

lemma strip_prefix_Some: "strip_prefix p s = Some r \<longleftrightarrow> s = p @ r"
  by (auto simp: strip_prefix_def) (metis append_take_drop_id)

definition port_part :: "paginated_profile \<Rightarrow> string \<Rightarrow> bool" where
  "port_part profile port \<longleftrightarrow> port = CHR '':'' # decimal (unat (profile_port profile)) \<or>
     port = [] \<and> profile_scheme profile = ''https'' \<and> profile_port profile = 443"

definition continuation_url :: "paginated_profile \<Rightarrow> string \<Rightarrow> (string \<times> string) list \<Rightarrow> string" where
  "continuation_url profile port fs =
     profile_scheme profile @ ''://'' @ profile_host profile @ port @ profile_path profile @ ''?'' @ query_string fs"

lemma page_check:
  "\<not> cur > uint64_max - inc \<and> p = cur + inc \<longleftrightarrow> unat (p::uint64) = unat cur + unat inc"
proof
  assume a: "\<not> cur > uint64_max - inc \<and> p = cur + inc"
  then have "unat cur + unat inc \<le> 18446744073709551615"
    using unat_uint64_bound [of inc] by (simp add: word_facts not_less; linarith)
  with a show "unat p = unat cur + unat inc" by (simp add: unat_add_uint64)
next
  assume a: "unat p = unat cur + unat inc"
  then have le: "unat cur + unat inc \<le> 18446744073709551615" using unat_uint64_bound [of p] by simp
  then have "p = cur + inc" using a unat_add_uint64 [OF le] by (simp add: word_unat_eq_iff)
  moreover have "\<not> cur > uint64_max - inc"
    using le unat_uint64_bound [of inc] by (simp add: word_facts not_less; linarith)
  ultimately show "\<not> cur > uint64_max - inc \<and> p = cur + inc" by simp
qed

lemma page_sum: "\<not> cur > uint64_max - inc \<Longrightarrow> unat (cur + inc :: uint64) = unat cur + unat inc"
  using page_check [THEN iffD1, of inc cur "cur + inc"] by blast

lemma strip_port_iff:
  assumes "profile_path profile = CHR ''/'' # path"
  shows "strip_port profile s = Inr (profile_path profile @ t) \<longleftrightarrow>
         (\<exists>port. port_part profile port \<and> s = port @ profile_path profile @ t)"
proof (cases "strip_prefix (CHR '':'' # decimal (unat (profile_port profile))) s")
  case None
  then have no: "s \<noteq> (CHR '':'' # decimal (unat (profile_port profile))) @ r" for r
    using strip_prefix_Some [of "CHR '':'' # decimal (unat (profile_port profile))" s r] by simp
  have "strip_port profile s = Inr (profile_path profile @ t) \<longleftrightarrow>
      profile_scheme profile = ''https'' \<and> profile_port profile = 443 \<and> s = profile_path profile @ t"
    using None by (auto simp: strip_port_def)
  also have "\<dots> \<longleftrightarrow> (\<exists>port. port_part profile port \<and> s = port @ profile_path profile @ t)"
    unfolding port_part_def using no by (metis append_Nil)
  finally show ?thesis .
next
  case (Some r)
  then have s: "s = (CHR '':'' # decimal (unat (profile_port profile))) @ r" by (simp only: strip_prefix_Some)
  have "strip_port profile s = Inr (profile_path profile @ t) \<longleftrightarrow> r = profile_path profile @ t"
    using Some by (simp add: strip_port_def)
  also have "\<dots> \<longleftrightarrow> (\<exists>port. port_part profile port \<and> s = port @ profile_path profile @ t)"
  proof
    assume "r = profile_path profile @ t"
    with s show "\<exists>port. port_part profile port \<and> s = port @ profile_path profile @ t"
      unfolding port_part_def by blast
  next
    assume "\<exists>port. port_part profile port \<and> s = port @ profile_path profile @ t"
    then obtain port where "port_part profile port" "s = port @ profile_path profile @ t" by blast
    moreover have "port \<noteq> []" using calculation(2) s assms by auto
    ultimately show "r = profile_path profile @ t" using s by (simp add: port_part_def)
  qed
  finally show ?thesis .
qed

lemma ValidateNextTarget_steps:
  "ValidateNextTarget target cur profile = Inr p \<longleftrightarrow>
   (\<exists>s r q. target = (profile_scheme profile @ ''://'' @ profile_host profile) @ s \<and> strip_port profile s = Inr r \<and>
      r = (profile_path profile @ ''?'') @ q \<and> q \<noteq> [] \<and> CHR ''#'' \<notin> set q \<and>
      parse_query (page_number_parameter profile) q [] 0 = Inr p \<and>
      \<not> cur > uint64_max - page_increment profile \<and> p = cur + page_increment profile)"
  unfolding strip_prefix_Some [symmetric]
  by (auto simp: ValidateNextTarget_def and_then_Inr_iff split: option.splits if_splits)

lemma parse_query_iff:
  "q \<noteq> [] \<and> parse_query p q [] 0 = Inr w \<longleftrightarrow> (\<exists>fs. q = query_string fs \<and> accepted_fields p fs [] 0 w)"
  using parse_query_sound parse_query_complete query_string_nonempty by (metis accepted_fields_def)

lemma ValidateNextTarget_iff:
  assumes "profile_path profile = CHR ''/'' # path"
  shows "ValidateNextTarget target cur profile = Inr p \<longleftrightarrow>
    unat p = unat cur + unat (page_increment profile) \<and>
    (\<exists>port fs. port_part profile port \<and> target = continuation_url profile port fs \<and>
       CHR ''#'' \<notin> set (query_string fs) \<and> accepted_fields (page_number_parameter profile) fs [] 0 p)"
proof -
  have "ValidateNextTarget target cur profile = Inr p \<longleftrightarrow>
    (\<exists>s q. target = (profile_scheme profile @ ''://'' @ profile_host profile) @ s \<and>
       strip_port profile s = Inr (profile_path profile @ (''?'' @ q)) \<and> CHR ''#'' \<notin> set q \<and>
       (q \<noteq> [] \<and> parse_query (page_number_parameter profile) q [] 0 = Inr p) \<and>
       unat p = unat cur + unat (page_increment profile))"
    unfolding ValidateNextTarget_steps page_check [symmetric] by auto
  also have "\<dots> \<longleftrightarrow> unat p = unat cur + unat (page_increment profile) \<and>
    (\<exists>port fs. port_part profile port \<and> target = continuation_url profile port fs \<and>
       CHR ''#'' \<notin> set (query_string fs) \<and> accepted_fields (page_number_parameter profile) fs [] 0 p)"
    unfolding strip_port_iff [OF assms] parse_query_iff continuation_url_def by auto
  finally show ?thesis .
qed

text \<open>
  C15. Which continuation targets are accepted. For an admitted path, a target is accepted as page
  \<open>p\<close> exactly when \<open>p\<close> is the current page plus the increment without wrap-around and the target
  is the admitted scheme, host, port (or the omitted HTTPS default) and path followed by distinct
  plain query fields with no fragment, among which the page parameter, if present, spells \<open>p\<close>
  canonically. Fields other than the page parameter are free, as the comment in the function says: they may be added, changed or omitted, and may hold bytes
  outside ASCII. \<open>docs/RUNTIME_CONTRACTS.md\<close> (lines 710 to 725) still says that the query multiset is compared byte for byte
  and that non-ASCII and non-canonical targets are rejected.
\<close>

theorem accepted_targets:
  assumes "profile_path profile = CHR ''/'' # path"
  shows "ValidateNextTarget target cur profile = Inr p \<longleftrightarrow>
    unat p = unat cur + unat (page_increment profile) \<and>
    (\<exists>port fs. port_part profile port \<and> target = continuation_url profile port fs \<and>
       CHR ''#'' \<notin> set (query_string fs) \<and> accepted_fields (page_number_parameter profile) fs [] 0 p)"
  using assms by (rule ValidateNextTarget_iff)

definition example_profile :: paginated_profile where
  "example_profile = \<lparr>profile_scheme = ''https'', profile_host = ''api.example.com'', profile_port = 443,
     profile_path = ''/items'', page_number_parameter = ''page'', page_size = 50, first_page = 1, page_increment = 1\<rparr>"

lemma decimal_small: "decimal 2 = ''2''"
  by code_simp

theorem accepted_targets_witness:
  "ValidateNextTarget ''https://api.example.com/items?page=2&extra=1'' 1 example_profile = Inr 2"
proof -
  have path: "profile_path example_profile = CHR ''/'' # ''items''" by (simp add: example_profile_def)
  have "port_part example_profile []" by (simp add: port_part_def example_profile_def)
  moreover have "''https://api.example.com/items?page=2&extra=1'' =
      continuation_url example_profile [] [(''page'', ''2''), (''extra'', ''1'')]"
    by (simp add: continuation_url_def example_profile_def query_string_def query_field_def)
  moreover have "CHR ''#'' \<notin> set (query_string [(''page'', ''2''), (''extra'', ''1'')])"
    by (simp add: query_string_def query_field_def)
  moreover have "accepted_fields (page_number_parameter example_profile) [(''page'', ''2''), (''extra'', ''1'')] [] 0 2"
    by (simp add: accepted_fields_def plain_field_def denotes_page_def example_profile_def decimal_small)
  moreover have "unat (2::uint64) = unat (1::uint64) + unat (page_increment example_profile)"
    by (simp add: example_profile_def)
  ultimately show ?thesis unfolding accepted_targets [OF path] by blast
qed

text \<open>A target from a response body with other query fields than the request and a byte outside ASCII is accepted.\<close>

theorem body_target_need_not_match_query:
  "ValidateNextTarget (''https://api.example.com/items?page=2&q='' @ [char_of (233::nat)]) 1 example_profile = Inr 2"
  by code_simp

subsection \<open>The page sequence\<close>

definition pagination_inv :: "paginated_profile \<Rightarrow> link_pagination_state \<Rightarrow> bool" where
  "pagination_inv profile st \<longleftrightarrow> state_profile st = profile \<and> 1 \<le> seen_page_count st \<and>
     unat (current_page st) = unat (first_page profile) + (seen_page_count st - 1) * unat (page_increment profile) \<and>
     \<not> (exhausted st \<and> failed st)"

text \<open>Every way to advance either returns the successor page or no page.\<close>

definition successor_only :: "link_pagination_state \<Rightarrow> LinkPaginationErrorKind + link_page_transition \<Rightarrow> bool" where
  "successor_only st r \<longleftrightarrow> (case r of Inl e \<Rightarrow> True | Inr t \<Rightarrow> has_next t \<longrightarrow>
     unat (next_page t) = unat (current_page st) + unat (page_increment (state_profile st)))"

lemma ValidateNextTarget_successor:
  "ValidateNextTarget target cur profile = Inr p \<Longrightarrow> unat p = unat cur + unat (page_increment profile)"
  unfolding ValidateNextTarget_steps page_check [symmetric] by blast

lemma successor_target:
  "successor_only st (and_then (ValidateNextTarget target (current_page st) (state_profile st))
     (\<lambda>page. Inr \<lparr>has_next = True, next_page = page\<rparr>))"
  using ValidateNextTarget_successor [of target "current_page st" "state_profile st"]
  by (cases "ValidateNextTarget target (current_page st) (state_profile st)") (simp_all add: successor_only_def)

lemma successor_transition:
  "successor_only st (ParseTransition fs (current_page st) (state_profile st))"
proof (cases "ParseLinkHeaderFields Visit fs 0 None")
  case (Inl e)
  then show ?thesis by (cases e) (simp_all add: ParseTransition_def successor_only_def)
next
  case (Inr r)
  obtain n found where "r = (n, found)" by (cases r)
  with Inr successor_target [of st] show ?thesis
    by (cases found) (simp_all add: ParseTransition_def, simp add: successor_only_def)
qed

lemma commit_inv:
  assumes "pagination_inv profile st" "\<not> failed st" "\<not> exhausted st" "successor_only st r"
  shows "pagination_inv profile (snd (commit_transition st r))"
proof (cases r)
  case (Inl e)
  with assms show ?thesis by (simp add: commit_transition_def pagination_inv_def)
next
  case (Inr t)
  obtain k where k: "seen_page_count st = Suc k"
    using assms(1) by (cases "seen_page_count st") (auto simp: pagination_inv_def)
  with assms Inr show ?thesis
    by (auto simp: commit_transition_def pagination_inv_def successor_only_def algebra_simps)
qed

lemma step_inv: "pagination_inv profile st \<Longrightarrow> pagination_inv profile (pagination_step st c)"
proof (cases "failed st \<or> exhausted st")
  case True
  then show "pagination_inv profile st \<Longrightarrow> ?thesis"
    by (cases c) (simp_all add: pagination_step_def Advance_def AdvanceBody_def AdvanceByCount_def)
next
  case False
  assume inv: "pagination_inv profile st"
  have page: "\<not> current_page st > uint64_max - page_increment (state_profile st) \<Longrightarrow>
      successor_only st (Inr \<lparr>has_next = True, next_page = current_page st + page_increment (state_profile st)\<rparr>)"
    by (simp add: successor_only_def page_sum)
  have policy: "successor_only st (Inl e)" for e by (simp add: successor_only_def)
  have none: "successor_only st (Inr \<lparr>has_next = False, next_page = 0\<rparr>)" by (simp add: successor_only_def)
  show ?thesis
    using False inv
    by (cases c) (auto simp: pagination_step_def Advance_def AdvanceBody_def AdvanceByCount_def
        intro!: commit_inv successor_transition successor_target none page policy)
qed

interpretation pages: invariant_machine pagination_step "pagination_inv profile"
  by unfold_locales (rule step_inv)

interpretation finished_pages: terminal_machine pagination_step "\<lambda>st. failed st \<or> exhausted st" "\<lambda>st. st"
proof
  fix st :: link_pagination_state and c
  assume t: "failed st \<or> exhausted st"
  then have "pagination_step st c = st"
    by (cases c) (simp_all add: pagination_step_def Advance_def AdvanceBody_def AdvanceByCount_def)
  with t show "failed (pagination_step st c) \<or> exhausted (pagination_step st c)" and "pagination_step st c = st"
    by simp_all
qed

text \<open>
  Pages form one arithmetic progression. After any sequence of calls on a fresh state, however
  the server answers, the current page is the first page plus (pages seen - 1) increments as a number
  below 2\<open>^\<close>64, so pages never repeat, skip or wrap; and the state is never both
  exhausted and failed.
\<close>

theorem page_progression:
  "let st = run_ops pagination_step (new_LinkPaginationState profile) calls in
     1 \<le> seen_page_count st \<and> state_profile st = profile \<and>
     unat (current_page st) = unat (first_page profile) + (seen_page_count st - 1) * unat (page_increment profile) \<and>
     \<not> (exhausted st \<and> failed st)"
proof -
  have "pagination_inv profile (new_LinkPaginationState profile)"
    by (simp add: pagination_inv_def new_LinkPaginationState_def)
  from pages.inv_run [OF this, of calls] show ?thesis by (simp add: pagination_inv_def Let_def)
qed

text \<open>
  C16. Failure and exhaustion are final and are told apart. On a live state a call that throws sets the failed flag and nothing else, a call
  that returns no next page sets the exhausted flag and nothing else, and a call that returns a next page makes it the current one and counts it;
  from a failed or exhausted state every call throws the state error while no sequence of calls changes anything.
\<close>

theorem pagination_is_terminal:
  "(\<not> failed st \<and> \<not> exhausted st \<longrightarrow>
      pagination_step st c =
        (case fst (pagination_apply c st) of
           Inl e \<Rightarrow> st\<lparr>failed := True\<rparr>
         | Inr t \<Rightarrow> if has_next t then st\<lparr>seen_page_count := seen_page_count st + 1, current_page := next_page t\<rparr>
                   else st\<lparr>exhausted := True\<rparr>)) \<and>
   (failed st \<or> exhausted st \<longrightarrow> pagination_apply c st = (Inl STATE, st) \<and> run_ops pagination_step st calls = st)"
proof (cases "failed st \<or> exhausted st")
  case True
  moreover from this have "run_ops pagination_step st calls = st" using finished_pages.terminal_run by blast
  ultimately show ?thesis
    by (cases c) (auto simp: Advance_def AdvanceBody_def AdvanceByCount_def)
next
  case False
  obtain r where r: "pagination_apply c st = commit_transition st r"
    using False by (cases c) (auto simp: Advance_def AdvanceBody_def AdvanceByCount_def)
  with False show ?thesis
    by (cases r) (auto simp: pagination_step_def commit_transition_def)
qed

theorem pagination_is_terminal_witness:
  "let st = pagination_step (new_LinkPaginationState example_profile) (AdvanceFromCount 0) in
     st = (new_LinkPaginationState example_profile)\<lparr>exhausted := True\<rparr> \<and>
     run_ops pagination_step st [AdvanceFromCount 50, AdvanceFromBody []] = st"
proof -
  let ?s = "new_LinkPaginationState example_profile"
  let ?st = "pagination_step ?s (AdvanceFromCount 0)"
  have e: "?st = ?s\<lparr>exhausted := True\<rparr>"
    using pagination_is_terminal [of ?s "AdvanceFromCount 0"] by (simp add: AdvanceByCount_def new_LinkPaginationState_def commit_transition_def)
  with pagination_is_terminal [of ?st "AdvanceFromCount 0" "[AdvanceFromCount 50, AdvanceFromBody []]"]
  show ?thesis by simp
qed

subsection \<open>Following the Link header\<close>

lemma visit_all_selected:
  "visit_all Visit vs found =
     (case (found, map fst (filter snd vs)) of
        (_, []) \<Rightarrow> Inr found
      | (None, [t]) \<Rightarrow> Inr (Some t)
      | _ \<Rightarrow> Inl POLICY)"
proof (induction vs arbitrary: found)
  case (Cons v vs)
  obtain t b where v: "v = (t, b)" by (cases v)
  with Cons show ?case
    by (cases found; cases b; cases "map fst (filter snd vs)") (auto simp: Visit_def split: list.splits)
next
  case Nil
  show ?case by (cases found) simp_all
qed

text \<open>
  A Link field is followed only through its single next link. On a live state, a well-formed field
  with no next link exhausts the scan, a field with two or more next links fails it as a policy
  error whatever they point to, and a field with exactly one advances as its target is checked.
\<close>

theorem advance_follows_single_next:
  assumes "\<forall>v\<in>set vs. IsValidUriReference (fst v)" and "\<not> failed st" and "\<not> exhausted st"
  shows "Advance [link_field vs] st =
    (case map fst (filter snd vs) of
       [] \<Rightarrow> (Inr \<lparr>has_next = False, next_page = 0\<rparr>, st\<lparr>exhausted := True\<rparr>)
     | [t] \<Rightarrow> commit_transition st
         (and_then (ValidateNextTarget t (current_page st) (state_profile st))
            (\<lambda>page. Inr \<lparr>has_next = True, next_page = page\<rparr>))
     | _ \<Rightarrow> (Inl POLICY, st\<lparr>failed := True\<rparr>))"
proof -
  have "Advance [link_field vs] st =
      commit_transition st (ParseTransition [link_field vs] (current_page st) (state_profile st))"
    using assms(2,3) by (simp add: Advance_def)
  then show ?thesis
    unfolding ParseTransition_def fields_of_links [OF assms(1)] visit_all_selected
    by (simp add: commit_transition_def split: list.split)
qed

theorem advance_follows_single_next_witness:
  "let st = new_LinkPaginationState example_profile in
   Advance [link_field [(''/a?page=2'', True), (''/a?page=2'', True)]] st = (Inl POLICY, st\<lparr>failed := True\<rparr>)"
proof -
  let ?st = "new_LinkPaginationState example_profile" and ?vs = "[(''/a?page=2'', True), (''/a?page=2'', True)]"
  have "\<forall>v\<in>set ?vs. IsValidUriReference (fst v)" by (simp add: example_reference)
  moreover have "\<not> failed ?st" "\<not> exhausted ?st" by (simp_all add: new_LinkPaginationState_def)
  ultimately have "Advance [link_field ?vs] ?st = (Inl POLICY, ?st\<lparr>failed := True\<rparr>)"
    using advance_follows_single_next [of ?vs ?st] by (simp del: link_field.simps)
  then show ?thesis by (simp del: link_field.simps)
qed

end
