(* ===== verification/Graphql_Cursor.thy ===== *)
theory Graphql_Cursor
  imports Cuac_Prelude
begin

section \<open>GraphQL cursor pagination\<close>

text \<open>
  The forward cursor state of a GraphQL scan (\<open>src/runtime/pagination/graphql_cursor_pagination.cpp\<close>).
  The array of seen cursors with its count is the list of its used prefix; \<open>RetainedMemoryBytes\<close> reads
  allocator facts and is not modelled. An error is its kind with its message. The theorems
  show that a traversal is finite and never revisits a cursor, whatever the server returns, and that
  exhaustion and rejection are final.
\<close>

datatype GraphqlCursorErrorKind = PROFILE | RESOURCE_BUDGET | PROTOCOL

type_synonym cursor_error = "GraphqlCursorErrorKind \<times> string"

record graphql_cursor_state =
  max_pages :: uint64
  max_cursor_bytes :: uint64
  requested_pages :: uint64
  cursor_exhausted :: bool
  cursor_failed :: bool
  seen :: "string list"

definition seen_capacity :: nat where
  "seen_capacity = 32"

definition new_GraphqlCursorState :: "uint64 \<Rightarrow> uint64 \<Rightarrow> cursor_error + graphql_cursor_state" where
  "new_GraphqlCursorState pages cursor_bytes =
     (if pages = 0 \<or> pages > 32 \<or> cursor_bytes = 0 \<or> cursor_bytes > 512
      then Inl (PROFILE, ''GraphQL cursor profile is invalid'')
      else Inr \<lparr>max_pages = pages, max_cursor_bytes = cursor_bytes, requested_pages = 0,
                cursor_exhausted = False, cursor_failed = False, seen = []\<rparr>)"

definition CurrentCursor :: "graphql_cursor_state \<Rightarrow> string option" where
  "CurrentCursor st = (if cursor_exhausted st \<or> cursor_failed st \<or> seen st = [] then None else Some (last (seen st)))"

definition Release :: "graphql_cursor_state \<Rightarrow> graphql_cursor_state" where
  "Release st = st\<lparr>seen := []\<rparr>"

definition Reject ::
  "GraphqlCursorErrorKind \<Rightarrow> string \<Rightarrow> graphql_cursor_state \<Rightarrow> (cursor_error + unit) \<times> graphql_cursor_state" where
  "Reject kind safe_message st = (Inl (kind, safe_message), Release (st\<lparr>cursor_failed := True\<rparr>))"

definition MarkRequestStarted :: "graphql_cursor_state \<Rightarrow> (cursor_error + unit) \<times> graphql_cursor_state" where
  "MarkRequestStarted st =
     (if cursor_failed st \<or> cursor_exhausted st \<or> requested_pages st \<ge> max_pages st
      then Reject RESOURCE_BUDGET ''GraphQL cursor traversal exceeded its page authority'' st
      else (Inr (), st\<lparr>requested_pages := requested_pages st + 1\<rparr>))"

definition AdvanceCursor :: "bool \<Rightarrow> string \<Rightarrow> graphql_cursor_state \<Rightarrow> (cursor_error + unit) \<times> graphql_cursor_state" where
  "AdvanceCursor has_next_page end_cursor st =
     (if cursor_failed st \<or> cursor_exhausted st \<or> requested_pages st = 0
      then Reject PROTOCOL ''GraphQL cursor state cannot advance'' st
      else if \<not> has_next_page then (Inr (), Release (st\<lparr>cursor_exhausted := True\<rparr>))
      else if end_cursor = [] then Reject PROTOCOL ''GraphQL continuation cursor is missing'' st
      else if length end_cursor > unat (max_cursor_bytes st)
      then Reject RESOURCE_BUDGET ''GraphQL continuation cursor exceeded its byte budget'' st
      else if end_cursor \<in> set (seen st) then Reject PROTOCOL ''GraphQL continuation cursor repeated'' st
      else if length (seen st) \<ge> seen_capacity
      then Reject RESOURCE_BUDGET ''GraphQL cursor traversal exceeded its page authority'' st
      else (Inr (), st\<lparr>seen := seen st @ [end_cursor]\<rparr>))"

definition FailCursor :: "graphql_cursor_state \<Rightarrow> graphql_cursor_state" where
  "FailCursor st = Release (st\<lparr>cursor_failed := True\<rparr>)"

datatype cursor_call = MarkCall | AdvanceCall bool string | FailCall | ReleaseCall

fun cursor_apply :: "cursor_call \<Rightarrow> graphql_cursor_state \<Rightarrow> (cursor_error + unit) \<times> graphql_cursor_state" where
  "cursor_apply MarkCall st = MarkRequestStarted st"
| "cursor_apply (AdvanceCall b c) st = AdvanceCursor b c st"
| "cursor_apply FailCall st = (Inr (), FailCursor st)"
| "cursor_apply ReleaseCall st = (Inr (), Release st)"

definition cursor_step :: "graphql_cursor_state \<Rightarrow> cursor_call \<Rightarrow> graphql_cursor_state" where
  "cursor_step st c = snd (cursor_apply c st)"

lemmas cursor_defs = cursor_step_def MarkRequestStarted_def AdvanceCursor_def FailCursor_def Reject_def Release_def

subsection \<open>Bounded traversal\<close>

definition cursor_inv :: "uint64 \<Rightarrow> uint64 \<Rightarrow> graphql_cursor_state \<Rightarrow> bool" where
  "cursor_inv pages cursor_bytes st \<longleftrightarrow>
     max_pages st = pages \<and> max_cursor_bytes st = cursor_bytes \<and> requested_pages st \<le> pages \<and>
     distinct (seen st) \<and> length (seen st) \<le> seen_capacity \<and>
     (\<forall>c\<in>set (seen st). c \<noteq> [] \<and> length c \<le> unat cursor_bytes) \<and>
     (cursor_failed st \<or> cursor_exhausted st \<longrightarrow> seen st = [])"

lemma mark_inv: "cursor_inv pages cursor_bytes st \<Longrightarrow> cursor_inv pages cursor_bytes (cursor_step st MarkCall)"
proof -
  assume inv: "cursor_inv pages cursor_bytes st"
  have "requested_pages st < pages \<Longrightarrow> requested_pages st + 1 \<le> pages"
    by (metis add.commute inc_le)
  with inv show ?thesis by (auto simp: cursor_defs cursor_inv_def not_le)
qed

lemma cursor_step_inv: "cursor_inv pages cursor_bytes st \<Longrightarrow> cursor_inv pages cursor_bytes (cursor_step st c)"
proof (cases c)
  case MarkCall
  then show "cursor_inv pages cursor_bytes st \<Longrightarrow> ?thesis" by (simp add: mark_inv)
qed (auto simp: cursor_defs cursor_inv_def)

interpretation cursors: invariant_machine cursor_step "cursor_inv pages cursor_bytes"
  by unfold_locales (rule cursor_step_inv)

lemma new_cursor_inv:
  assumes "new_GraphqlCursorState pages cursor_bytes = Inr st"
  shows "cursor_inv pages cursor_bytes st \<and> pages \<le> 32 \<and> cursor_bytes \<le> 512"
  using assms by (auto simp: new_GraphqlCursorState_def cursor_inv_def split: if_splits)

lemma cursor_run_inv:
  assumes "new_GraphqlCursorState pages cursor_bytes = Inr st"
  shows "cursor_inv pages cursor_bytes (run_ops cursor_step st calls)"
  using cursors.inv_run new_cursor_inv [OF assms] by blast

text \<open>
  C18. The continuation cursors held are nonempty, pairwise different and within their byte budget.
  After any sequence of calls on an admitted state, at most 32 cursors of at most 512 bytes each are
  retained, the pages requested never exceed the admitted maximum, and nothing is retained
  once the traversal has failed or is exhausted.
\<close>

theorem cursor_traversal_bounded:
  assumes "new_GraphqlCursorState pages cursor_bytes = Inr st"
  shows "let s = run_ops cursor_step st calls in
    requested_pages s \<le> pages \<and> pages \<le> 32 \<and> distinct (seen s) \<and> length (seen s) \<le> 32 \<and>
    (\<forall>c\<in>set (seen s). c \<noteq> [] \<and> length c \<le> unat cursor_bytes \<and> unat cursor_bytes \<le> 512) \<and>
    (cursor_failed s \<or> cursor_exhausted s \<longrightarrow> seen s = [])"
proof -
  have "unat cursor_bytes \<le> 512" using new_cursor_inv [OF assms] by (simp add: word_le_nat_alt)
  then show ?thesis
    using cursor_run_inv [OF assms, of calls] new_cursor_inv [OF assms]
    by (simp add: cursor_inv_def seen_capacity_def Let_def)
qed

theorem cursor_traversal_bounded_witness:
  "\<exists>st. new_GraphqlCursorState 2 8 = Inr st \<and>
     requested_pages (run_ops cursor_step st [MarkCall, AdvanceCall True ''a'', MarkCall, MarkCall]) \<le> 2"
proof -
  obtain st where st: "new_GraphqlCursorState 2 8 = Inr st"
    by (simp add: new_GraphqlCursorState_def)
  from cursor_traversal_bounded [OF st, of "[MarkCall, AdvanceCall True ''a'', MarkCall, MarkCall]"] st
  show ?thesis by (auto simp: Let_def)
qed

subsection \<open>Terminal states\<close>

interpretation finished_cursors:
  terminal_machine cursor_step "\<lambda>st. cursor_failed st \<or> cursor_exhausted st" requested_pages
proof
  fix st :: graphql_cursor_state and c
  assume "cursor_failed st \<or> cursor_exhausted st"
  then show "cursor_failed (cursor_step st c) \<or> cursor_exhausted (cursor_step st c)"
    and "requested_pages (cursor_step st c) = requested_pages st"
    by (cases c; auto simp: cursor_defs)+
qed

text \<open>
  Rejection and exhaustion are final: a call that throws leaves the state failed with no cursor
  retained, and from a failed or exhausted state no request is ever started again, every further mark
  and advance throws, and the state stays finished.
\<close>

theorem cursor_is_terminal:
  "(\<forall>e. fst (cursor_apply c st) = Inl e \<longrightarrow> cursor_failed (cursor_step st c) \<and> seen (cursor_step st c) = []) \<and>
   (cursor_failed st \<or> cursor_exhausted st \<longrightarrow>
      (let s = run_ops cursor_step st calls in
         (cursor_failed s \<or> cursor_exhausted s) \<and> requested_pages s = requested_pages st \<and>
         CurrentCursor s = None \<and> \<not> succeeded (MarkRequestStarted s) \<and> \<not> succeeded (AdvanceCursor b end_cursor s)))"
proof -
  have "\<forall>e. fst (cursor_apply c st) = Inl e \<longrightarrow> cursor_failed (cursor_step st c) \<and> seen (cursor_step st c) = []"
    by (cases c) (auto simp: cursor_defs)
  then show ?thesis
    using finished_cursors.terminal_run [of st calls]
    by (auto simp: Let_def MarkRequestStarted_def AdvanceCursor_def Reject_def CurrentCursor_def)
qed

theorem cursor_is_terminal_witness:
  "\<exists>st. new_GraphqlCursorState 2 8 = Inr st \<and>
     (let s = run_ops cursor_step (FailCursor st) [MarkCall, AdvanceCall True ''a''] in
        cursor_failed s \<or> cursor_exhausted s)"
proof -
  obtain st where st: "new_GraphqlCursorState 2 8 = Inr st"
    by (simp add: new_GraphqlCursorState_def)
  have "cursor_failed (FailCursor st)" by (simp add: FailCursor_def Release_def)
  with cursor_is_terminal [of FailCall "FailCursor st" "[MarkCall, AdvanceCall True ''a'']" True "''a''"] st
  show ?thesis by (simp add: Let_def)
qed

text \<open>
  Exactly which continuations are accepted: on a live state with a request made, a next page is
  followed if and only if its cursor is nonempty, within the byte budget, not among the cursors
  held and there is room; it then becomes the current cursor, and everything else is rejected.
\<close>

theorem cursor_accepts_iff:
  assumes "\<not> cursor_failed st" and "\<not> cursor_exhausted st" and "0 < requested_pages st"
  shows "(fst (AdvanceCursor True c st) = Inr () \<longleftrightarrow>
            c \<noteq> [] \<and> length c \<le> unat (max_cursor_bytes st) \<and> c \<notin> set (seen st) \<and> length (seen st) < 32) \<and>
         (fst (AdvanceCursor True c st) = Inr () \<longrightarrow> CurrentCursor (snd (AdvanceCursor True c st)) = Some c) \<and>
         (fst (AdvanceCursor True c st) \<noteq> Inr () \<longrightarrow> cursor_failed (snd (AdvanceCursor True c st))) \<and>
         fst (AdvanceCursor False c st) = Inr () \<and> cursor_exhausted (snd (AdvanceCursor False c st))"
  using assms by (auto simp: AdvanceCursor_def Reject_def Release_def CurrentCursor_def seen_capacity_def)

theorem cursor_accepts_iff_witness:
  "\<exists>st. CurrentCursor (snd (AdvanceCursor True ''ab'' st)) = Some ''ab''"
proof -
  let ?st = "\<lparr>max_pages = 2, max_cursor_bytes = 8, requested_pages = 1, cursor_exhausted = False,
    cursor_failed = False, seen = [''a'']\<rparr>"
  from cursor_accepts_iff [of ?st "''ab''"] have "CurrentCursor (snd (AdvanceCursor True ''ab'' ?st)) = Some ''ab''"
    by simp
  then show ?thesis by (rule exI [of _ ?st])
qed

end
