(* ===== verification/Http_Chunk.thy ===== *)
theory Http_Chunk
  imports Link_Header
begin

section \<open>HTTP chunked bodies\<close>

text \<open>
  The chunk decoder of \<open>src/runtime/transport/http_chunk_decoder.cpp\<close>. A parser state is the offset and
  the suffix that starts there. Cancellation and the wall clock are read from outside at each
  \<open>CheckExecutionState\<close>: a computation carries the number of checks made so far and an environment says,
  for the n-th check, whether cancellation was requested and whether the deadline had passed; the admission of the string capacity after
  \<open>reserve\<close> is a fact of the environment too. The theorems show that a decoded body never exceeds
  its admitted size, that encoding and decoding are inverse, and that interruption can only abort a
  decoding, never change its result.
\<close>

datatype chunk_error = HttpChunkDecodeError | ExecutionCancelled | WallTimeExceeded | CapacityExceeded

record chunk_environment =
  cancellation_requested :: "nat \<Rightarrow> bool"
  deadline_passed :: "nat \<Rightarrow> bool"
  capacity_admitted :: "nat \<Rightarrow> uint64 \<Rightarrow> bool"

type_synonym 'a checked = "nat \<Rightarrow> (chunk_error + 'a) \<times> nat"

definition returning_value :: "'a \<Rightarrow> 'a checked" where
  "returning_value x t = (Inr x, t)"

definition throwing :: "chunk_error \<Rightarrow> 'a checked" where
  "throwing e t = (Inl e, t)"

definition bindc :: "'a checked \<Rightarrow> ('a \<Rightarrow> 'b checked) \<Rightarrow> 'b checked" where
  "bindc m f t = (case m t of (Inl e, u) \<Rightarrow> (Inl e, u) | (Inr x, u) \<Rightarrow> f x u)"

lemma bindc_cong [fundef_cong]:
  "m t = m' t' \<Longrightarrow> (\<And>x u. m' t' = (Inr x, u) \<Longrightarrow> f x u = g x u) \<Longrightarrow> bindc m f t = bindc m' g t'"
  by (auto simp: bindc_def split: prod.split sum.split)

lemma bindc_Inr:
  "bindc m f t = (Inr y, u) \<longleftrightarrow> (\<exists>x v. m t = (Inr x, v) \<and> f x v = (Inr y, u))"
  by (auto simp: bindc_def split: prod.splits sum.splits)

lemma bindc_value: "m t = (Inr x, u) \<Longrightarrow> bindc m f t = f x u"
  by (simp add: bindc_def)

lemma checked_simps [simp]: "returning_value x t = (Inr x, t)" "throwing e t = (Inl e, t)"
  by (simp_all add: returning_value_def throwing_def)

subsection \<open>The decoder\<close>

definition size_max :: uint64 where
  "size_max = uint64_max"

definition CheckExecutionState :: "chunk_environment \<Rightarrow> unit checked" where
  "CheckExecutionState env t =
     (if cancellation_requested env t then (Inl ExecutionCancelled, Suc t)
      else if deadline_passed env t then (Inl WallTimeExceeded, Suc t)
      else (Inr (), Suc t))"

definition Checkpoint :: "chunk_environment \<Rightarrow> nat \<Rightarrow> unit checked" where
  "Checkpoint env offset = (if offset mod 1024 = 0 then CheckExecutionState env else returning_value ())"

definition HexValue :: "char \<Rightarrow> nat option" where
  "HexValue c =
     (if in_range CHR ''0'' CHR ''9'' c then Some (byte c - byte CHR ''0'')
      else if in_range CHR ''a'' CHR ''f'' c then Some (byte c - byte CHR ''a'' + 10)
      else if in_range CHR ''A'' CHR ''F'' c then Some (byte c - byte CHR ''A'' + 10)
      else None)"

type_synonym position = "nat \<times> string"

fun SkipOwsChecked :: "chunk_environment \<Rightarrow> nat \<Rightarrow> string \<Rightarrow> position checked" where
  "SkipOwsChecked env offset [] = returning_value (offset, [])"
| "SkipOwsChecked env offset (c # cs) =
     (if IsOws c then bindc (Checkpoint env offset) (\<lambda>_. SkipOwsChecked env (offset + 1) cs)
      else returning_value (offset, c # cs))"

fun skip_token :: "chunk_environment \<Rightarrow> nat \<Rightarrow> string \<Rightarrow> position checked" where
  "skip_token env offset [] = returning_value (offset, [])"
| "skip_token env offset (c # cs) =
     (if IsTokenCharacter c then bindc (Checkpoint env offset) (\<lambda>_. skip_token env (offset + 1) cs)
      else returning_value (offset, c # cs))"

definition ParseTokenChecked :: "chunk_environment \<Rightarrow> nat \<Rightarrow> string \<Rightarrow> position checked" where
  "ParseTokenChecked env offset s =
     bindc (skip_token env offset s) (\<lambda>(offset', s').
       if offset' = offset then throwing HttpChunkDecodeError else returning_value (offset', s'))"

fun quoted_content :: "chunk_environment \<Rightarrow> nat \<Rightarrow> string \<Rightarrow> position checked" where
  "quoted_content env offset [] = throwing HttpChunkDecodeError"
| "quoted_content env offset (c # cs) =
     bindc (Checkpoint env offset) (\<lambda>_.
       if c = CHR 0x22 then returning_value (offset + 1, cs)
       else if c = CHR 0x5C then
         (case cs of [] \<Rightarrow> throwing HttpChunkDecodeError
          | escaped # rest \<Rightarrow>
              if escaped \<noteq> CHR 0x09 \<and> escaped \<noteq> CHR '' '' \<and> (byte escaped < 0x21 \<or> byte escaped = 0x7f)
              then throwing HttpChunkDecodeError
              else quoted_content env (offset + 2) rest)
       else if c \<noteq> CHR 0x09 \<and> c \<noteq> CHR '' '' \<and> byte c \<noteq> 0x21 \<and>
               (byte c < 0x23 \<or> c = CHR 0x5C \<or> byte c = 0x7f)
       then throwing HttpChunkDecodeError
       else quoted_content env (offset + 1) cs)"

definition ParseQuotedStringChecked :: "chunk_environment \<Rightarrow> nat \<Rightarrow> string \<Rightarrow> position checked" where
  "ParseQuotedStringChecked env offset s =
     (if s = [] \<or> hd s \<noteq> CHR 0x22 then throwing HttpChunkDecodeError
      else quoted_content env (offset + 1) (tl s))"

text \<open>\<open>find("\r\n")\<close>: the line before it and the text after it.\<close>

fun FindCrlf :: "string \<Rightarrow> (string \<times> string) option" where
  "FindCrlf (a # b # rest) =
     (if a = CHR 0x0D \<and> b = CHR 0x0A then Some ([], rest)
      else map_option (\<lambda>(line, after). (a # line, after)) (FindCrlf (b # rest)))"
| "FindCrlf _ = None"

definition find_crlf :: "string \<Rightarrow> (string \<times> string) checked" where
  "find_crlf s = (case FindCrlf s of None \<Rightarrow> throwing HttpChunkDecodeError | Some r \<Rightarrow> returning_value r)"

fun size_digits ::
  "chunk_environment \<Rightarrow> nat \<Rightarrow> string \<Rightarrow> uint64 \<Rightarrow> bool \<Rightarrow> (nat \<times> string \<times> uint64 \<times> bool) checked" where
  "size_digits env offset [] result saw_digit = returning_value (offset, [], result, saw_digit)"
| "size_digits env offset (c # cs) result saw_digit =
     bindc (Checkpoint env offset) (\<lambda>_.
       if IsOws c \<or> c = CHR '';'' then returning_value (offset, c # cs, result, saw_digit)
       else case HexValue c of
         None \<Rightarrow> throwing HttpChunkDecodeError
       | Some digit \<Rightarrow>
           if result > (uint64_max - of_nat digit) div 16 then throwing HttpChunkDecodeError
           else size_digits env (offset + 1) cs (result * 16 + of_nat digit) True)"

lemma skip_ows_length: "SkipOwsChecked env offset s t = (Inr (o', s'), u) \<Longrightarrow> length s' \<le> length s"
  by (induction env offset s arbitrary: t rule: SkipOwsChecked.induct)
    (auto simp: bindc_Inr split: if_splits intro: le_SucI)

lemma skip_token_length:
  "skip_token env offset s t = (Inr (o', s'), u) \<Longrightarrow> o' + length s' = offset + length s \<and> offset \<le> o'"
  by (induction env offset s arbitrary: t rule: skip_token.induct)
    (fastforce simp: bindc_Inr split: if_splits)+

lemma parse_token_length: "ParseTokenChecked env offset s t = (Inr (o', s'), u) \<Longrightarrow> length s' < length s"
  using skip_token_length [of env offset s t]
  by (fastforce simp: ParseTokenChecked_def bindc_Inr split: if_splits)

lemma quoted_content_length: "quoted_content env offset s t = (Inr (o', s'), u) \<Longrightarrow> length s' < length s"
proof (induction env offset s arbitrary: t rule: quoted_content.induct)
  case (2 env offset c cs)
  from "2.prems" obtain v where "Checkpoint env offset t = (Inr (), v)"
    by (auto simp: bindc_Inr)
  note chk = this
  consider "c = CHR 0x22" | "c = CHR 0x5C" | "c \<noteq> CHR 0x22" "c \<noteq> CHR 0x5C" by blast
  then show ?case
  proof cases
    case 1
    with "2.prems" chk show ?thesis by (simp add: bindc_value)
  next
    case 2
    with "2.prems" chk obtain e rest where "cs = e # rest" "quoted_content env (offset + 2) rest v = (Inr (o', s'), u)"
      by (auto simp: bindc_value split: list.splits if_splits)
    with "2.IH"(1) [of e rest] 2 "2.prems" chk show ?thesis by (fastforce simp: bindc_value split: if_splits)
  next
    case 3
    with "2.prems" chk have r: "quoted_content env (offset + 1) cs v = (Inr (o', s'), u)"
      and "\<not> (c \<noteq> CHR 0x09 \<and> c \<noteq> CHR '' '' \<and> byte c \<noteq> 0x21 \<and> (byte c < 0x23 \<or> c = CHR 0x5C \<or> byte c = 0x7f))"
      by (simp_all add: bindc_value split: if_splits)
    from "2.IH"(2) [OF 3 this(2) r] show ?thesis by simp
  qed
qed simp

lemma parse_quoted_length: "ParseQuotedStringChecked env offset s t = (Inr (o', s'), u) \<Longrightarrow> length s' < length s"
  using quoted_content_length [of env "offset + 1" "tl s" t o' s' u]
  by (cases s) (auto simp: ParseQuotedStringChecked_def split: if_splits)

text \<open>The extension loop of \<open>ParseChunkSize\<close>.\<close>

function parse_extensions :: "chunk_environment \<Rightarrow> nat \<Rightarrow> string \<Rightarrow> unit checked" where
  "parse_extensions env offset s t =
     (if s = [] then returning_value () t
      else bindc (SkipOwsChecked env offset s) (\<lambda>p t1. case p of (o1, s1) \<Rightarrow>
        if s1 = [] then (if o1 \<noteq> offset then throwing HttpChunkDecodeError t1 else returning_value () t1)
        else if hd s1 \<noteq> CHR '';'' then throwing HttpChunkDecodeError t1
        else bindc (SkipOwsChecked env (o1 + 1) (tl s1)) (\<lambda>p t2. case p of (o2, s2) \<Rightarrow>
          bindc (ParseTokenChecked env o2 s2) (\<lambda>p t3. case p of (o3, s3) \<Rightarrow>
          bindc (SkipOwsChecked env o3 s3) (\<lambda>p t4. case p of (o4, s4) \<Rightarrow>
            if s4 = [] then (if o4 \<noteq> o3 then throwing HttpChunkDecodeError t4 else returning_value () t4)
            else if hd s4 = CHR ''='' then
              bindc (SkipOwsChecked env (o4 + 1) (tl s4)) (\<lambda>p t5. case p of (o5, s5) \<Rightarrow>
              bindc (if s5 \<noteq> [] \<and> hd s5 = CHR 0x22 then ParseQuotedStringChecked env o5 s5
                     else ParseTokenChecked env o5 s5) (\<lambda>p t6. case p of (o6, s6) \<Rightarrow>
                parse_extensions env o6 s6 t6) t5) t4
            else parse_extensions env o4 s4 t4) t3) t2) t1) t)"
  by pat_completeness auto

lemma extension_shrinks:
  assumes "SkipOwsChecked env offset s t = (Inr (o1, s1), t1)" and "s1 \<noteq> []"
    and "SkipOwsChecked env (o1 + 1) (tl s1) t1 = (Inr (o2, s2), t2)"
    and "ParseTokenChecked env o2 s2 t2 = (Inr (o3, s3), t3)"
    and "SkipOwsChecked env o3 s3 t3 = (Inr (o4, s4), t4)"
  shows "length s4 < length s"
proof -
  have "length s4 \<le> length s3" using assms(5) by (rule skip_ows_length)
  also have "\<dots> < length s2" using assms(4) by (rule parse_token_length)
  also have "\<dots> \<le> length (tl s1)" using assms(3) by (rule skip_ows_length)
  also have "\<dots> \<le> length s" using skip_ows_length [OF assms(1)] by simp
  finally show ?thesis .
qed

lemma extension_value_shrinks:
  assumes "length s4 < length s" and "SkipOwsChecked env (o4 + 1) (tl s4) t4 = (Inr (o5, s5), t5)"
    and "(if s5 \<noteq> [] \<and> hd s5 = CHR 0x22 then ParseQuotedStringChecked env o5 s5
          else ParseTokenChecked env o5 s5) t5 = (Inr (o6, s6), t6)"
  shows "length s6 < length s"
proof -
  have "length s6 < length s5"
    using assms(3) by (auto dest: parse_token_length parse_quoted_length split: if_splits)
  also have "\<dots> \<le> length (tl s4)" using assms(2) by (rule skip_ows_length)
  finally show ?thesis using assms(1) by simp
qed

termination parse_extensions
  by (relation "measure (\<lambda>(env, offset, s, t). length s)")
    (auto intro: extension_shrinks extension_value_shrinks [OF extension_shrinks])

definition ParseChunkSize :: "chunk_environment \<Rightarrow> nat \<Rightarrow> string \<Rightarrow> uint64 checked" where
  "ParseChunkSize env offset line =
     bindc (size_digits env offset line 0 False) (\<lambda>(offset', rest, result, saw_digit).
       if \<not> saw_digit then throwing HttpChunkDecodeError
       else bindc (parse_extensions env offset' rest) (\<lambda>_. returning_value result))"

fun field_values :: "chunk_environment \<Rightarrow> nat \<Rightarrow> string \<Rightarrow> unit checked" where
  "field_values env offset [] = returning_value ()"
| "field_values env offset (c # cs) =
     bindc (Checkpoint env offset) (\<lambda>_.
       if byte c < 0x20 \<and> c \<noteq> CHR 0x09 \<or> byte c = 0x7f then throwing HttpChunkDecodeError
       else field_values env (offset + 1) cs)"

definition trailer_field :: "chunk_environment \<Rightarrow> nat \<Rightarrow> string \<Rightarrow> unit checked" where
  "trailer_field env offset line =
     bindc (ParseTokenChecked env offset line) (\<lambda>(field_offset, rest).
       if rest = [] \<or> hd rest \<noteq> CHR '':'' then throwing HttpChunkDecodeError
       else field_values env (field_offset + 1) (tl rest))"

lemma FindCrlf_Some: "FindCrlf s = Some (line, after) \<Longrightarrow> s = line @ CHR 0x0D # CHR 0x0A # after"
  by (induction s arbitrary: line rule: FindCrlf.induct) (auto split: if_splits)

lemma FindCrlf_length: "FindCrlf s = Some (line, after) \<Longrightarrow> length s = length line + length after + 2"
  by (auto dest: FindCrlf_Some)

lemma find_crlf_Inr: "find_crlf s t = (Inr (line, after), u) \<longleftrightarrow> FindCrlf s = Some (line, after) \<and> u = t"
  by (auto simp: find_crlf_def split: option.split)

function trailer_fields :: "chunk_environment \<Rightarrow> nat \<Rightarrow> string \<Rightarrow> position checked" where
  "trailer_fields env offset s t =
     bindc (CheckExecutionState env) (\<lambda>_ t1.
     bindc (find_crlf s) (\<lambda>p t2. case p of (line, after) \<Rightarrow>
       if line = [] then returning_value (offset + 2, after) t2
       else bindc (trailer_field env offset line) (\<lambda>_ t3.
         trailer_fields env (offset + length line + 2) after t3) t2) t1) t"
  by pat_completeness auto
termination
  by (relation "measure (\<lambda>(env, offset, s, t). length s)")
    (auto simp: find_crlf_Inr dest!: FindCrlf_length)

fun starts_crlf :: "string \<Rightarrow> bool" where
  "starts_crlf (a # b # _) \<longleftrightarrow> a = CHR 0x0D \<and> b = CHR 0x0A"
| "starts_crlf _ \<longleftrightarrow> False"

definition ValidateTrailers :: "chunk_environment \<Rightarrow> nat \<Rightarrow> string \<Rightarrow> position checked" where
  "ValidateTrailers env offset s =
     (if \<not> starts_crlf s then trailer_fields env offset s else returning_value (offset + 2, drop 2 s))"

text \<open>The chunk loop of \<open>DecodeHttpChunkedBody\<close>.\<close>

function decode_chunks :: "chunk_environment \<Rightarrow> uint64 \<Rightarrow> nat \<Rightarrow> string \<Rightarrow> string \<Rightarrow> string checked" where
  "decode_chunks env max_body_bytes offset s decoded t =
     bindc (CheckExecutionState env) (\<lambda>_ t1.
     bindc (find_crlf s) (\<lambda>p t2. case p of (line, after) \<Rightarrow>
     bindc (ParseChunkSize env offset line) (\<lambda>chunk_size t3.
       if chunk_size = 0 then
         bindc (ValidateTrailers env (offset + length line + 2) after) (\<lambda>(_, rest).
           if rest \<noteq> [] then throwing HttpChunkDecodeError else returning_value decoded) t3
       else if chunk_size > max_body_bytes - of_nat (length decoded) \<or> unat chunk_size > length after
       then throwing HttpChunkDecodeError t3
       else bindc (CheckExecutionState env) (\<lambda>_ t4.
         if \<not> starts_crlf (drop (unat chunk_size) after) then throwing HttpChunkDecodeError t4
         else decode_chunks env max_body_bytes (offset + length line + 2 + unat chunk_size + 2)
                (drop 2 (drop (unat chunk_size) after)) (decoded @ take (unat chunk_size) after) t4) t3) t2) t1) t"
  by pat_completeness auto
termination
  by (relation "measure (\<lambda>(env, max_body_bytes, offset, s, decoded, t). length s)")
    (auto simp: find_crlf_Inr dest!: FindCrlf_length)

definition DecodeHttpChunkedBody :: "chunk_environment \<Rightarrow> string \<Rightarrow> uint64 \<Rightarrow> string checked" where
  "DecodeHttpChunkedBody env encoded max_body_bytes =
     bindc (CheckExecutionState env) (\<lambda>_.
       if max_body_bytes > size_max then throwing HttpChunkDecodeError
       else if \<not> capacity_admitted env (min (length encoded) (unat max_body_bytes)) max_body_bytes
       then throwing CapacityExceeded
       else decode_chunks env max_body_bytes 0 encoded [])"

declare decode_chunks.simps [simp del] trailer_fields.simps [simp del] parse_extensions.simps [simp del]

subsection \<open>The decoded body stays within its budget\<close>

lemma remaining_budget:
  fixes budget chunk_size :: uint64
  assumes "n \<le> unat budget"
  shows "\<not> chunk_size > budget - of_nat n \<longleftrightarrow> n + unat chunk_size \<le> unat budget"
proof -
  have "n < 2 ^ LENGTH(64)" using assms unsigned_less [of budget, where ?'a = nat] by simp
  then have "unat (of_nat n :: uint64) = n" by (simp add: unat_of_nat take_bit_nat_eq_self)
  with assms have "unat (budget - of_nat n) = unat budget - n"
    by (simp add: unat_sub word_le_nat_alt)
  with assms show ?thesis by (auto simp: word_less_nat_alt)
qed

lemma decode_chunks_budget:
  assumes "decode_chunks env max_body_bytes offset s decoded t = (Inr body, u)"
    and "length decoded \<le> unat max_body_bytes"
  shows "length body \<le> unat max_body_bytes \<and> length body \<le> length decoded + length s"
  using assms
proof (induction env max_body_bytes offset s decoded t rule: decode_chunks.induct)
  case (1 env max_body_bytes offset s decoded t)
  from "1.prems"(1) obtain t1 line after size t3 where
    check: "CheckExecutionState env t = (Inr (), t1)" and crlf: "find_crlf s t1 = (Inr (line, after), t1)"
    and size: "ParseChunkSize env offset line t1 = (Inr size, t3)"
    by (subst (asm) decode_chunks.simps) (auto simp: bindc_Inr find_crlf_Inr split: if_splits)
  have len: "length s = length line + length after + 2"
    using crlf by (simp add: find_crlf_Inr FindCrlf_length)
  show ?case
  proof (cases "size = 0")
    case True
    with "1.prems" check crlf size show ?thesis
      by (subst (asm) decode_chunks.simps) (auto simp: bindc_Inr find_crlf_Inr split: if_splits)
  next
    case False
    with "1.prems" check crlf size obtain t4 where room: "\<not> size > max_body_bytes - of_nat (length decoded)"
      and avail: "\<not> unat size > length after" and check2: "CheckExecutionState env t3 = (Inr (), t4)"
      and sep: "starts_crlf (drop (unat size) after)"
      and next_chunk: "decode_chunks env max_body_bytes (offset + length line + 2 + unat size + 2)
         (drop 2 (drop (unat size) after)) (decoded @ take (unat size) after) t4 = (Inr body, u)"
      by (subst (asm) decode_chunks.simps) (auto simp: bindc_Inr find_crlf_Inr split: if_splits)
    have "length (decoded @ take (unat size) after) \<le> unat max_body_bytes"
      using remaining_budget [OF "1.prems"(2)] room avail by simp
    from "1.IH" [OF check crlf refl size False _ check2 _ next_chunk this] room avail sep
    show ?thesis unfolding len by auto
  qed
qed

subsection \<open>Interruption only aborts\<close>

text \<open>
  Two outcomes agree when they are the same value or error, or the first is an error raised by
  some check of its environment.
\<close>

definition quiet :: "chunk_environment \<Rightarrow> chunk_environment" where
  "quiet env = env\<lparr>cancellation_requested := \<lambda>_. False, deadline_passed := \<lambda>_. False\<rparr>"

definition aborts :: "chunk_environment \<Rightarrow> chunk_error + 'a \<Rightarrow> bool" where
  "aborts env r \<longleftrightarrow>
     (\<exists>n. cancellation_requested env n) \<and> r = Inl ExecutionCancelled \<or>
     (\<exists>n. deadline_passed env n) \<and> r = Inl WallTimeExceeded"

definition agrees :: "chunk_environment \<Rightarrow> (chunk_error + 'a) \<times> nat \<Rightarrow> (chunk_error + 'a) \<times> nat \<Rightarrow> bool" where
  "agrees env p q \<longleftrightarrow> fst p = fst q \<or> aborts env (fst p)"

lemma agrees_bind:
  assumes "agrees env (m t) (m' u)"
    and "\<And>x v w. m t = (Inr x, v) \<Longrightarrow> agrees env (f x v) (f' x w)"
  shows "agrees env (bindc m f t) (bindc m' f' u)"
proof -
  obtain r v r' v' where m: "m t = (r, v)" "m' u = (r', v')" by fastforce
  show ?thesis
  proof (cases r)
    case (Inl e)
    with m assms(1) show ?thesis by (cases r') (auto simp: bindc_def agrees_def aborts_def)
  next
    case (Inr x)
    with m assms(1) have "r' = Inr x" by (auto simp: agrees_def aborts_def)
    with m Inr assms(2) [of x v v'] show ?thesis by (simp add: bindc_def)
  qed
qed

lemma agrees_if:
  "(P \<Longrightarrow> agrees env (a t) (a' u)) \<Longrightarrow> (\<not> P \<Longrightarrow> agrees env (b t) (b' u)) \<Longrightarrow>
   agrees env ((if P then a else b) t) ((if P then a' else b') u)"
  "(P \<Longrightarrow> agrees env p p') \<Longrightarrow> (\<not> P \<Longrightarrow> agrees env q q') \<Longrightarrow>
   agrees env (if P then p else q) (if P then p' else q')"
  by simp_all

lemma agrees_constant:
  "agrees env (returning_value x t) (returning_value x u)" "agrees env (throwing e t) (throwing e u)"
  "agrees env (find_crlf s t) (find_crlf s u)"
  by (auto simp: agrees_def find_crlf_def split: option.split)

lemma agrees_check:
  "agrees env (CheckExecutionState env t) (CheckExecutionState (quiet env) u)"
  "agrees env (Checkpoint env offset t) (Checkpoint (quiet env) offset u)"
  by (auto simp: agrees_def aborts_def CheckExecutionState_def Checkpoint_def quiet_def)

lemma agrees_prod:
  "(\<And>a b. x = (a, b) \<Longrightarrow> agrees env (f a b) (g a b)) \<Longrightarrow>
   agrees env (case x of (a, b) \<Rightarrow> f a b) (case x of (a, b) \<Rightarrow> g a b)"
  "(\<And>a b. x = (a, b) \<Longrightarrow> agrees env (h a b t) (k a b u)) \<Longrightarrow>
   agrees env ((case x of (a, b) \<Rightarrow> h a b) t) ((case x of (a, b) \<Rightarrow> k a b) u)"
  by (cases x, simp)+

lemma quiet_capacity: "capacity_admitted (quiet env) = capacity_admitted env"
  by (simp add: quiet_def)

lemmas agrees_rules = agrees_bind agrees_if agrees_constant agrees_check

lemma agrees_skip_ows: "agrees env (SkipOwsChecked env offset s t) (SkipOwsChecked (quiet env) offset s u)"
  by (induction s arbitrary: offset t u) (auto intro!: agrees_rules simp del: checked_simps)

lemma agrees_skip_token: "agrees env (skip_token env offset s t) (skip_token (quiet env) offset s u)"
  by (induction s arbitrary: offset t u) (auto intro!: agrees_rules simp del: checked_simps)

lemma agrees_field_values: "agrees env (field_values env offset s t) (field_values (quiet env) offset s u)"
  by (induction s arbitrary: offset t u) (auto intro!: agrees_rules simp del: checked_simps)

lemma agrees_size_digits:
  "agrees env (size_digits env offset s result saw_digit t) (size_digits (quiet env) offset s result saw_digit u)"
proof (induction s arbitrary: offset result saw_digit t u)
  case (Cons c cs)
  then show ?case unfolding size_digits.simps
    by (intro agrees_bind agrees_check agrees_if agrees_constant) (auto split: option.split intro!: agrees_rules simp del: checked_simps)
qed (simp only: size_digits.simps agrees_constant)

lemma agrees_parse_token: "agrees env (ParseTokenChecked env offset s t) (ParseTokenChecked (quiet env) offset s u)"
  unfolding ParseTokenChecked_def by (auto intro!: agrees_rules agrees_skip_token simp del: checked_simps)

lemma agrees_quoted_content: "agrees env (quoted_content env offset s t) (quoted_content (quiet env) offset s u)"
proof (induction s arbitrary: offset t u rule: length_induct)
  case (1 s)
  show ?case
  proof (cases s)
    case (Cons c cs)
    then have tail: "agrees env (quoted_content env i cs t) (quoted_content (quiet env) i cs u)" for i t u
      using 1 by simp
    have "agrees env (quoted_content env i rest t) (quoted_content (quiet env) i rest u)" if "cs = e # rest" for i e rest t u
      using 1 Cons that by simp
    with tail show ?thesis unfolding Cons quoted_content.simps
      by (intro agrees_rules) (cases cs; simp only: list.case simp_thms agrees_if agrees_constant)+
  qed (simp only: quoted_content.simps agrees_constant)
qed

lemma agrees_quoted:
  "agrees env (ParseQuotedStringChecked env offset s t) (ParseQuotedStringChecked (quiet env) offset s u)"
  unfolding ParseQuotedStringChecked_def by (intro agrees_if agrees_constant agrees_quoted_content)

lemmas agrees_parsers = agrees_skip_ows agrees_parse_token agrees_quoted agrees_size_digits agrees_field_values

lemma agrees_extensions: "agrees env (parse_extensions env offset s t) (parse_extensions (quiet env) offset s u)"
proof (induction env offset s t arbitrary: u rule: parse_extensions.induct)
  case (1 env offset s t)
  show ?case
    unfolding parse_extensions.simps [of env offset s t] parse_extensions.simps [of "quiet env" offset s u]
    apply (intro agrees_rules agrees_parsers agrees_prod)
     apply (rule "1.IH"(1); simp)
    apply (rule "1.IH"(2); simp)
    done
qed

lemma agrees_chunk_size: "agrees env (ParseChunkSize env offset line t) (ParseChunkSize (quiet env) offset line u)"
  unfolding ParseChunkSize_def by (intro agrees_rules agrees_parsers agrees_prod agrees_extensions)

lemma agrees_trailer_fields: "agrees env (trailer_fields env offset s t) (trailer_fields (quiet env) offset s u)"
proof (induction env offset s t arbitrary: u rule: trailer_fields.induct)
  case (1 env offset s t)
  show ?case
    unfolding trailer_fields.simps [of env offset s t] trailer_fields.simps [of "quiet env" offset s u] trailer_field_def
    by (intro agrees_rules agrees_parsers agrees_prod) (rule "1.IH"; simp add: trailer_field_def)
qed

lemma agrees_trailers: "agrees env (ValidateTrailers env offset s t) (ValidateTrailers (quiet env) offset s u)"
  unfolding ValidateTrailers_def by (intro agrees_rules agrees_trailer_fields)

lemma agrees_decode_chunks:
  "agrees env (decode_chunks env max_body_bytes offset s decoded t)
     (decode_chunks (quiet env) max_body_bytes offset s decoded u)"
proof (induction env max_body_bytes offset s decoded t arbitrary: u rule: decode_chunks.induct)
  case (1 env max_body_bytes offset s decoded t)
  show ?case
    unfolding decode_chunks.simps [of env max_body_bytes offset s decoded t]
      decode_chunks.simps [of "quiet env" max_body_bytes offset s decoded u]
    by (intro agrees_rules agrees_chunk_size agrees_trailers agrees_prod) (rule "1.IH"; simp)
qed

lemma agrees_decode:
  "agrees env (DecodeHttpChunkedBody env encoded max_body_bytes t)
     (DecodeHttpChunkedBody (quiet env) encoded max_body_bytes u)"
  unfolding DecodeHttpChunkedBody_def
  by (simp only: quiet_capacity) (intro agrees_rules agrees_decode_chunks)


subsection \<open>Rendering and decoding\<close>

definition returns :: "'a checked \<Rightarrow> 'a \<Rightarrow> bool" where
  "returns m x \<longleftrightarrow> (\<forall>t. fst (m t) = Inr x)"

lemma returns_bind: "returns m x \<Longrightarrow> returns (f x) y \<Longrightarrow> returns (bindc m f) y"
  unfolding returns_def bindc_def
  by (auto split: prod.split sum.split) (metis fst_conv sum.inject(2) sum.distinct(1))+

lemma returns_const: "returns (returning_value x) x"
  by (simp add: returns_def)

lemma returns_checks: "returns (CheckExecutionState (quiet env)) ()" "returns (Checkpoint (quiet env) offset) ()"
  by (simp_all add: returns_def CheckExecutionState_def Checkpoint_def quiet_def)

definition token_text :: "string \<Rightarrow> bool" where
  "token_text w \<longleftrightarrow> w \<noteq> [] \<and> list_all IsTokenCharacter w"

definition ends_with :: "(char \<Rightarrow> bool) \<Rightarrow> string \<Rightarrow> bool" where
  "ends_with P rest \<longleftrightarrow> rest = [] \<or> \<not> P (hd rest)"

lemma returns_skip_token:
  assumes "list_all IsTokenCharacter w" and "ends_with IsTokenCharacter rest"
  shows "returns (skip_token (quiet env) offset (w @ rest)) (offset + length w, rest)"
  using assms
proof (induction w arbitrary: offset)
  case Nil
  then show ?case by (cases rest) (simp_all only: append_Nil skip_token.simps ends_with_def, auto simp: returns_def)
next
  case (Cons c w)
  then show ?case
    using returns_bind [OF returns_checks(2), where f = "\<lambda>_. skip_token (quiet env) (offset + 1) (w @ rest)"] by fastforce
qed

lemma returns_parse_token:
  assumes "token_text w" and "ends_with IsTokenCharacter rest"
  shows "returns (ParseTokenChecked (quiet env) offset (w @ rest)) (offset + length w, rest)"
  unfolding ParseTokenChecked_def
  by (rule returns_bind [OF returns_skip_token]) (use assms in \<open>auto simp: token_text_def returns_def\<close>)

lemma returns_skip_ows:
  "ends_with IsOws rest \<Longrightarrow> returns (SkipOwsChecked (quiet env) offset rest) (offset, rest)"
  by (cases rest) (simp_all only: SkipOwsChecked.simps ends_with_def, auto simp: returns_def)

text \<open>A chunk extension is a name with an optional token value.\<close>

type_synonym chunk_extension = "string \<times> string option"

fun extension_value :: "string option \<Rightarrow> string" where
  "extension_value None = []"
| "extension_value (Some w) = CHR ''='' # w"

fun render_extension :: "chunk_extension \<Rightarrow> string" where
  "render_extension (name, v) = CHR '';'' # name @ extension_value v"

fun extension_ok :: "chunk_extension \<Rightarrow> bool" where
  "extension_ok (name, v) \<longleftrightarrow> token_text name \<and> (case v of None \<Rightarrow> True | Some w \<Rightarrow> token_text w)"

abbreviation render_extensions :: "chunk_extension list \<Rightarrow> string" where
  "render_extensions xs \<equiv> concat (map render_extension xs)"

lemma extension_start: "xs = [] \<and> render_extensions xs = [] \<or> hd (render_extensions xs) = CHR '';'' \<and> render_extensions xs \<noteq> []"
  by (cases xs) (auto simp: hd_append elim: render_extension.elims)

lemma separators [simp]:
  "\<not> IsOws CHR '';''" "\<not> IsOws CHR ''=''" "\<not> IsTokenCharacter CHR '';''" "\<not> IsTokenCharacter CHR ''=''"
  "\<not> IsTokenCharacter CHR 0x22" "\<not> IsTokenCharacter CHR 0x0D" "\<not> IsTokenCharacter CHR '' ''" "\<not> IsTokenCharacter CHR 0x09"
  "\<not> IsTokenCharacter CHR '':''"
  by (simp_all add: IsOws_def IsTokenCharacter_def character_class_defs)

lemma token_not_ows: "IsTokenCharacter c \<Longrightarrow> \<not> IsOws c"
  by (auto simp: IsOws_def)

lemma token_hd: "token_text w \<Longrightarrow> IsTokenCharacter (hd (w @ rest)) \<and> w @ rest \<noteq> []"
  by (cases w) (simp_all add: token_text_def)

lemma ends_with_extensions:
  "ends_with IsOws (render_extensions xs)" "ends_with IsTokenCharacter (render_extensions xs)"
  "ends_with IsOws (extension_value v @ render_extensions xs)"
  "ends_with IsTokenCharacter (extension_value v @ render_extensions xs)"
  using extension_start [of xs] by (cases v; auto simp: ends_with_def)+

lemma token_ends_with: "token_text w \<Longrightarrow> ends_with IsOws (w @ rest)"
  using token_hd [of w rest] by (auto simp: ends_with_def dest: token_not_ows)

lemma bindc_returns: "returns m x \<Longrightarrow> bindc m f t = f x (snd (m t))"
  unfolding returns_def by (rule bindc_value) (metis prod.collapse)

lemma returns_extensions:
  "list_all extension_ok xs \<Longrightarrow> returns (parse_extensions (quiet env) offset (render_extensions xs)) ()"
proof (induction xs arbitrary: offset)
  case Nil
  then show ?case by (simp add: returns_def parse_extensions.simps)
next
  case (Cons x xs)
  obtain name v where x: "x = (name, v)" by fastforce
  let ?rest = "render_extensions xs" and ?q = "quiet env"
  have name: "token_text name" and xs: "list_all extension_ok xs" using Cons.prems x by auto
  note ih = Cons.IH [OF xs, unfolded returns_def, rule_format]
  note ows = bindc_returns [OF returns_skip_ows]
  note token = bindc_returns [OF returns_parse_token]
  have start: "ends_with IsOws (CHR '';'' # name @ tail)" for tail by (simp add: ends_with_def)
  have shape: "render_extensions (x # xs) = CHR '';'' # name @ extension_value v @ ?rest"
    by (simp add: x)
  show ?case unfolding returns_def shape
  proof
    fix t
    note step = ows [OF start] ows [OF token_ends_with [OF name]]
    show "fst (parse_extensions ?q offset (CHR '';'' # name @ extension_value v @ ?rest) t) = Inr ()"
    proof (cases v)
      case None
      have "?rest \<noteq> [] \<Longrightarrow> hd ?rest \<noteq> CHR ''=''" using extension_start [of xs] by auto
      then show ?thesis
        by (subst parse_extensions.simps)
          (simp add: None step token [OF name ends_with_extensions(2)] ows [OF ends_with_extensions(1)] ih
            del: SkipOwsChecked.simps concat_eq_Nil_conv)
    next
      case (Some w)
      with Cons.prems x have w: "token_text w" by simp
      have quote: "hd (w @ ?rest) \<noteq> CHR 0x22" using token_hd [OF w, of ?rest] by auto
      have "ends_with IsTokenCharacter (CHR ''='' # tail)" "ends_with IsOws (CHR ''='' # tail)" for tail
        by (simp_all add: ends_with_def)
      then show ?thesis
        by (subst parse_extensions.simps)
          (simp add: Some step token [OF name] ows quote token_ends_with [OF w]
            token [OF w ends_with_extensions(2)] ih del: SkipOwsChecked.simps)
    qed
  qed
qed

lemma returnsI: "(\<And>t. fst (m t) = Inr x) \<Longrightarrow> returns m x"
  by (simp add: returns_def)

lemma returnsD: "returns m x \<Longrightarrow> fst (m t) = Inr x"
  by (simp add: returns_def)

definition hex_from :: "nat \<Rightarrow> string \<Rightarrow> nat" where
  "hex_from r sz = foldl (\<lambda>v c. v * 16 + the (HexValue c)) r sz"

lemma hex_from_simps [simp]: "hex_from r [] = r" "hex_from r (c # s) = hex_from (r * 16 + the (HexValue c)) s"
  by (simp_all add: hex_from_def)

lemma hex_from_ge: "r \<le> hex_from r s"
proof (induction s arbitrary: r)
  case (Cons c s)
  have "r \<le> r * 16 + the (HexValue c)" by simp
  also have "\<dots> \<le> hex_from r (c # s)" using Cons.IH by simp
  finally show ?case .
qed simp

lemma HexValue_Some: "HexValue c = Some d \<Longrightarrow> d < 16"
  by (auto simp: HexValue_def in_range_def byte_def split: if_splits)

lemma hex_digit_not_separator: "HexValue c = Some d \<Longrightarrow> \<not> IsOws c \<and> c \<noteq> CHR '';'' \<and> c \<noteq> CHR 0x0D"
  by (auto simp: HexValue_def in_range_def byte_def IsOws_def split: if_splits)

lemma returns_size_digits:
  assumes "\<forall>c\<in>set sz. HexValue c \<noteq> None" and "hex_from (unat r) sz \<le> 18446744073709551615"
  shows "returns (size_digits (quiet env) offset (sz @ render_extensions xs) r saw_digit)
           (offset + length sz, render_extensions xs, of_nat (hex_from (unat r) sz), saw_digit \<or> sz \<noteq> [])"
  using assms
proof (induction sz arbitrary: offset r saw_digit)
  case Nil
  show ?case
  proof (cases xs)
    case (Cons x ys)
    obtain cs where "render_extensions xs = CHR '';'' # cs"
      using extension_start [of xs] Cons by (cases "render_extensions xs") auto
    then show ?thesis by (simp add: returns_def bindc_returns [OF returns_checks(2)])
  qed (simp add: returns_def)
next
  case (Cons c sz)
  then obtain d where d: "HexValue c = Some d" by auto
  have fits: "unat r * 16 + d \<le> 18446744073709551615"
    using Cons.prems(2) d hex_from_ge [of "unat r * 16 + d" sz] by simp
  with hex_step_fits [OF HexValue_Some [OF d], of r] have guard: "\<not> r > (uint64_max - of_nat d) div 16"
    by (simp add: not_less)
  have "returns (size_digits (quiet env) (offset + 1) (sz @ render_extensions xs) (r * 16 + of_nat d) True)
     (offset + 1 + length sz, render_extensions xs, of_nat (hex_from (unat r * 16 + d) sz), True)"
    using Cons.IH [of "r * 16 + of_nat d" "offset + 1" True] Cons.prems d hex_step_value [OF fits] by simp
  with d guard hex_digit_not_separator [OF d] show ?case
    unfolding append_Cons size_digits.simps by (intro returns_bind [OF returns_checks(2)]) simp
qed

definition size_ok :: "string \<Rightarrow> nat \<Rightarrow> bool" where
  "size_ok sz n \<longleftrightarrow> sz \<noteq> [] \<and> (\<forall>c\<in>set sz. HexValue c \<noteq> None) \<and> hex_from 0 sz = n \<and> n \<le> 18446744073709551615"

lemma returns_chunk_size:
  assumes "size_ok sz n" and "list_all extension_ok xs"
  shows "returns (ParseChunkSize (quiet env) offset (sz @ render_extensions xs)) (of_nat n)"
  unfolding ParseChunkSize_def
  using assms returns_size_digits [of sz 0 env offset xs False]
  by (intro returns_bind [where x = "(offset + length sz, render_extensions xs, of_nat n, True)"])
    (auto simp: size_ok_def simp del: checked_simps intro!: returns_bind [OF returns_extensions] returns_const)

lemma FindCrlf_line: "CHR 0x0D \<notin> set line \<Longrightarrow> FindCrlf (line @ CHR 0x0D # CHR 0x0A # rest) = Some (line, rest)"
  by (induction line rule: FindCrlf.induct) auto

lemma returns_crlf: "CHR 0x0D \<notin> set line \<Longrightarrow> returns (find_crlf (line @ CHR 0x0D # CHR 0x0A # rest)) (line, rest)"
  by (simp add: returns_def find_crlf_def FindCrlf_line)

lemma token_no_cr: "token_text w \<Longrightarrow> CHR 0x0D \<notin> set w"
  by (auto simp: token_text_def list_all_iff)

lemma extensions_no_cr: "list_all extension_ok xs \<Longrightarrow> CHR 0x0D \<notin> set (render_extensions xs)"
  by (induction xs) (auto dest: token_no_cr elim!: extension_value.elims split: option.splits)

lemma size_no_cr: "size_ok sz n \<Longrightarrow> CHR 0x0D \<notin> set sz"
  by (auto simp: size_ok_def dest: hex_digit_not_separator)

text \<open>A trailer field is a token, a colon and visible text.\<close>

abbreviation field_character :: "char \<Rightarrow> bool" where
  "field_character c \<equiv> \<not> (byte c < 0x20 \<and> c \<noteq> CHR 0x09 \<or> byte c = 0x7f)"

definition trailer_ok :: "string \<times> string \<Rightarrow> bool" where
  "trailer_ok f \<longleftrightarrow> token_text (fst f) \<and> list_all field_character (snd f)"

definition render_trailer :: "string \<times> string \<Rightarrow> string" where
  "render_trailer f = fst f @ CHR '':'' # snd f"

lemma returns_field_values: "list_all field_character v \<Longrightarrow> returns (field_values (quiet env) offset v) ()"
proof (induction v arbitrary: offset)
  case (Cons c v)
  then show ?case unfolding field_values.simps by (intro returns_bind [OF returns_checks(2)]) auto
qed (simp add: returns_def)

lemma returns_trailer_field:
  assumes "trailer_ok f"
  shows "returns (trailer_field (quiet env) offset (render_trailer f)) ()"
  unfolding trailer_field_def render_trailer_def
  using assms by (intro returns_bind [OF returns_parse_token])
    (auto simp: trailer_ok_def ends_with_def intro: returns_field_values)

lemma trailer_no_cr: "trailer_ok f \<Longrightarrow> CHR 0x0D \<notin> set (render_trailer f)"
  by (auto simp: trailer_ok_def render_trailer_def list_all_iff byte_def dest: token_no_cr)

abbreviation crlf :: string where
  "crlf \<equiv> [CHR 0x0D, CHR 0x0A]"

lemma returns_trailer_fields:
  "list_all trailer_ok fs \<Longrightarrow>
   \<exists>i. returns (trailer_fields (quiet env) offset (concat (map (\<lambda>f. render_trailer f @ crlf) fs) @ crlf)) (i, [])"
proof (induction fs arbitrary: offset)
  case Nil
  have "returns (find_crlf crlf) ([], [])" using returns_crlf [of "[]" "[]"] by simp
  then show ?case
    by (intro exI [of _ "offset + 2"] returnsI)
      (simp add: trailer_fields.simps bindc_returns [OF returns_checks(1)] bindc_returns)
next
  case (Cons f fs)
  let ?rest = "concat (map (\<lambda>f. render_trailer f @ crlf) fs) @ crlf"
  from Cons obtain i where ih: "returns (trailer_fields (quiet env) (offset + length (render_trailer f) + 2) ?rest) (i, [])"
    by fastforce
  have "returns (find_crlf (render_trailer f @ crlf @ ?rest)) (render_trailer f, ?rest)"
    using returns_crlf [of "render_trailer f" ?rest] trailer_no_cr Cons.prems by simp
  moreover have "render_trailer f \<noteq> []" by (simp add: render_trailer_def)
  ultimately show ?case using returns_trailer_field [of f env offset] Cons.prems ih
    by (intro exI [of _ i] returnsI)
      (simp add: trailer_fields.simps [of _ _ "render_trailer f @ _"] returnsD bindc_returns [OF returns_checks(1)] bindc_returns)
qed

text \<open>A body is a list of chunks, a last chunk of size zero and trailer fields.\<close>

record chunk =
  size_text :: string
  chunk_extensions :: "chunk_extension list"
  chunk_data :: string

definition size_line :: "chunk \<Rightarrow> string" where
  "size_line c = size_text c @ render_extensions (chunk_extensions c) @ crlf"

definition chunk_ok :: "chunk \<Rightarrow> bool" where
  "chunk_ok c \<longleftrightarrow> size_ok (size_text c) (length (chunk_data c)) \<and> list_all extension_ok (chunk_extensions c)"

definition render_body :: "chunk list \<Rightarrow> chunk \<Rightarrow> (string \<times> string) list \<Rightarrow> string" where
  "render_body cs final fs =
     concat (map (\<lambda>c. size_line c @ chunk_data c @ crlf) cs) @ size_line final @
     concat (map (\<lambda>f. render_trailer f @ crlf) fs) @ crlf"

lemma returns_size_line:
  assumes "chunk_ok c"
  shows "returns (find_crlf (size_line c @ rest)) (size_text c @ render_extensions (chunk_extensions c), rest)"
    and "returns (ParseChunkSize (quiet env) offset (size_text c @ render_extensions (chunk_extensions c)))
           (of_nat (length (chunk_data c)))"
  using assms returns_crlf [of "size_text c @ render_extensions (chunk_extensions c)" rest]
  by (auto simp: chunk_ok_def size_line_def size_no_cr extensions_no_cr returns_chunk_size simp del: set_concat)

lemma trailers_no_crlf_start: "trailer_ok f \<Longrightarrow> \<not> starts_crlf (render_trailer f @ rest)"
  by (cases "fst f"; cases "tl (fst f)")
    (auto simp: trailer_ok_def render_trailer_def token_text_def)

lemma returns_trailers:
  assumes "list_all trailer_ok fs"
  shows "\<exists>i. returns (ValidateTrailers (quiet env) offset (concat (map (\<lambda>f. render_trailer f @ crlf) fs) @ crlf)) (i, [])"
proof (cases fs)
  case Nil
  then show ?thesis by (auto simp: ValidateTrailers_def returns_def)
next
  case (Cons f gs)
  with assms have "\<not> starts_crlf (concat (map (\<lambda>f. render_trailer f @ crlf) fs) @ crlf)"
    by (simp add: trailers_no_crlf_start)
  with returns_trailer_fields [OF assms, of env offset] show ?thesis by (simp add: ValidateTrailers_def)
qed

lemma returns_decode_chunks:
  assumes "list_all chunk_ok cs" "\<forall>c\<in>set cs. chunk_data c \<noteq> []" "chunk_ok final" "chunk_data final = []"
    and "list_all trailer_ok fs" and "length decoded + length (concat (map chunk_data cs)) \<le> unat max_body_bytes"
  shows "returns (decode_chunks (quiet env) max_body_bytes offset (render_body cs final fs) decoded)
           (decoded @ concat (map chunk_data cs))"
  using assms
proof (induction cs arbitrary: offset decoded)
  case Nil
  note line = returns_size_line [OF Nil.prems(3)]
  let ?tail = "concat (map (\<lambda>f. render_trailer f @ crlf) fs) @ crlf"
  let ?o = "offset + length (size_text final @ render_extensions (chunk_extensions final)) + 2"
  obtain i where "returns (ValidateTrailers (quiet env) ?o ?tail) (i, [])"
    using returns_trailers [OF Nil.prems(5)] by blast
  with Nil.prems(4) show ?case
    by (intro returnsI) (simp add: render_body_def decode_chunks.simps bindc_returns [OF returns_checks(1)] bindc_returns
      bindc_returns [OF line(1)] bindc_returns [OF line(2)])
next
  case (Cons c cs)
  have c: "chunk_ok c" and data: "chunk_data c \<noteq> []" using Cons.prems by auto
  note line = returns_size_line [OF c]
  let ?n = "length (chunk_data c)" and ?tail = "render_body cs final fs"
  have n: "unat (of_nat ?n :: uint64) = ?n" using c by (simp add: chunk_ok_def size_ok_def unat_of_nat)
  then have nz: "(of_nat ?n :: uint64) \<noteq> 0" using data by (metis length_0_conv unat_0)
  have room: "\<not> (of_nat ?n :: uint64) > max_body_bytes - of_nat (length decoded)"
    using Cons.prems(6) n remaining_budget [of "length decoded" max_body_bytes "of_nat ?n"] by simp
  have shape: "render_body (c # cs) final fs = size_line c @ chunk_data c @ crlf @ ?tail"
    by (simp add: render_body_def)
  have ih: "returns (decode_chunks (quiet env) max_body_bytes i ?tail (decoded @ chunk_data c))
     ((decoded @ chunk_data c) @ concat (map chunk_data cs))" for i
    using Cons.IH [of "decoded @ chunk_data c" i] Cons.prems by simp
  show ?case unfolding shape
    by (intro returnsI, subst decode_chunks.simps)
      (simp add: bindc_returns [OF returns_checks(1)] bindc_returns [OF line(1)] bindc_returns [OF line(2)]
        n nz room returnsD [OF ih])
qed

subsection \<open>What the decoder guarantees\<close>

text \<open>
  C20. A decoded body never exceeds its admitted size nor the encoded text, under every sequence of
  cancellations, clock readings and capacity answers.
\<close>

theorem decoded_body_bounded:
  assumes "fst (DecodeHttpChunkedBody env encoded max_body_bytes t) = Inr body"
  shows "length body \<le> unat max_body_bytes \<and> length body \<le> length encoded"
proof -
  obtain u where "DecodeHttpChunkedBody env encoded max_body_bytes t = (Inr body, u)"
    using assms by (metis prod.collapse)
  then obtain t1 where "decode_chunks env max_body_bytes 0 encoded [] t1 = (Inr body, u)"
    by (auto simp: DecodeHttpChunkedBody_def bindc_Inr split: if_splits)
  from decode_chunks_budget [OF this] show ?thesis by simp
qed

theorem decoded_body_bounded_witness:
  "\<exists>body. fst (DecodeHttpChunkedBody \<lparr>cancellation_requested = \<lambda>_. False, deadline_passed = \<lambda>_. False, capacity_admitted = \<lambda>_ _. True\<rparr>
       (''2'' @ crlf @ ''ab'' @ crlf @ ''0'' @ crlf @ crlf) 4 0) = Inr body \<and> length body \<le> unat (4 :: uint64)"
proof -
  let ?e = "''2'' @ crlf @ ''ab'' @ crlf @ ''0'' @ crlf @ crlf"
  have run: "fst (DecodeHttpChunkedBody \<lparr>cancellation_requested = \<lambda>_. False, deadline_passed = \<lambda>_. False, capacity_admitted = \<lambda>_ _. True\<rparr> ?e 4 0) = Inr ''ab''"
    by code_simp
  from decoded_body_bounded [OF run] run show ?thesis by blast
qed

text \<open>
  C19. Decoding inverts rendering: chunks with any hexadecimal spelling of their size (leading zeros and
  both letter cases), token extensions, a last chunk of size zero and well-formed trailers decode to
  the concatenated data whenever the data fit the admitted size; an interruption can replace this
  result by its own error and by nothing else.
\<close>

theorem chunked_body_round_trip:
  assumes "list_all chunk_ok cs" and "list_all (\<lambda>c. chunk_data c \<noteq> []) cs"
    and "chunk_ok final" and "chunk_data final = []" and "list_all trailer_ok fs"
    and "length (concat (map chunk_data cs)) \<le> unat max_body_bytes"
    and "\<And>n. capacity_admitted env n max_body_bytes"
  shows "fst (DecodeHttpChunkedBody env (render_body cs final fs) max_body_bytes t) = Inr (concat (map chunk_data cs)) \<or>
    aborts env (fst (DecodeHttpChunkedBody env (render_body cs final fs) max_body_bytes t))"
proof -
  have "returns (decode_chunks (quiet env) max_body_bytes 0 (render_body cs final fs) []) ([] @ concat (map chunk_data cs))"
    by (rule returns_decode_chunks) (use assms in \<open>simp_all add: list_all_iff\<close>)
  moreover have "\<not> max_body_bytes > size_max"
    using unat_uint64_bound [of max_body_bytes] by (simp add: size_max_def word_facts)
  ultimately have "returns (DecodeHttpChunkedBody (quiet env) (render_body cs final fs) max_body_bytes) (concat (map chunk_data cs))"
    unfolding DecodeHttpChunkedBody_def using assms(7)
    by (intro returns_bind [OF returns_checks(1)]) (simp add: quiet_capacity)
  with agrees_decode [of env "render_body cs final fs" max_body_bytes t t] show ?thesis
    by (auto simp: agrees_def returnsD)
qed

theorem chunked_body_round_trip_witness:
  "fst (DecodeHttpChunkedBody \<lparr>cancellation_requested = \<lambda>_. False, deadline_passed = \<lambda>_. False, capacity_admitted = \<lambda>_ _. True\<rparr>
     (render_body [\<lparr>size_text = ''0A'', chunk_extensions = [(''q'', Some ''v'')], chunk_data = ''0123456789''\<rparr>,
                   \<lparr>size_text = ''2'', chunk_extensions = [], chunk_data = ''xy''\<rparr>]
        \<lparr>size_text = ''0'', chunk_extensions = [], chunk_data = []\<rparr> [(''Trace'', '' 7'')]) 64 0) = Inr ''0123456789xy''"
proof -
  let ?env = "\<lparr>cancellation_requested = \<lambda>_. False, deadline_passed = \<lambda>_. False, capacity_admitted = \<lambda>_ _. True\<rparr>"
  let ?cs = "[\<lparr>size_text = ''0A'', chunk_extensions = [(''q'', Some ''v'')], chunk_data = ''0123456789''\<rparr>,
              \<lparr>size_text = ''2'', chunk_extensions = [], chunk_data = ''xy''\<rparr>]"
  let ?final = "\<lparr>size_text = ''0'', chunk_extensions = [], chunk_data = []\<rparr>"
  have "list_all chunk_ok ?cs" "chunk_ok ?final" "list_all trailer_ok [(''Trace'', '' 7'')]"
    by (simp_all add: chunk_ok_def size_ok_def trailer_ok_def token_text_def HexValue_def IsTokenCharacter_def
      character_class_defs)
  from chunked_body_round_trip [OF this(1) _ this(2) _ this(3), of 64 ?env 0] show ?thesis
    by (simp add: aborts_def)
qed

text \<open>
  Interruption refines the undisturbed decoder: whatever the cancellations and the clock do, and
  however many checks were made before, the outcome is that of the decoder that is never interrupted, or
  it is an error raised by one of the checks. In particular a partial body is never returned and malformed
  framing is never accepted because of timing.
\<close>

theorem interruption_only_aborts:
  "fst (DecodeHttpChunkedBody env encoded max_body_bytes t) =
     fst (DecodeHttpChunkedBody (quiet env) encoded max_body_bytes u) \<or>
   fst (DecodeHttpChunkedBody env encoded max_body_bytes t) = Inl ExecutionCancelled \<and>
     (\<exists>n. cancellation_requested env n) \<or>
   fst (DecodeHttpChunkedBody env encoded max_body_bytes t) = Inl WallTimeExceeded \<and>
     (\<exists>n. deadline_passed env n)"
  using agrees_decode [of env encoded max_body_bytes t u] by (auto simp: agrees_def aborts_def)

end
