(* ===== verification/Rate_Limit_Coordinator.thy ===== *)
theory Rate_Limit_Coordinator
  imports Cuac_Prelude "HOL-Library.AList"
begin

section \<open>Rate-limit coordinator\<close>

text \<open>
  The executor-local FIFO coordinator of \<open>src/runtime/resilience/rate_limit_coordinator.cpp\<close>. The hash
  table of buckets is an association list with distinct keys, a bucket is its embargo, its permit flag and
  its ticket queue. Everything a call does while it holds the mutex is one function on the shared
  state; the clock reading and the cancellation flag it observes there are arguments. A call
  blocked in \<open>WaitForTicket\<close> runs one \<open>wait_turn\<close> each time it holds the mutex again. The
  step relation \<open>system_step\<close> interleaves these sections for any number of callers. Times are \<open>int64\<close>
  values as \<open>int\<close>; allocation failure is not modelled.
\<close>

datatype RateLimitAcquireStatus =
  ACQUIRED | QUEUE_SATURATED | SCHEDULER_CLOSED | CANCELLED | DEADLINE_REACHED | TICKET_EXHAUSTED

record coordinator_limits =
  waiters_per_key :: uint64
  limit_total_waiters :: uint64
  interrupt_slice_milliseconds :: uint64

definition HardLimits :: coordinator_limits where
  "HardLimits = \<lparr>waiters_per_key = 64, limit_total_waiters = 4096, interrupt_slice_milliseconds = 5\<rparr>"

record bucket_state =
  eligible_steady_milliseconds :: int
  permitted :: bool
  tickets :: "uint64 list"

type_synonym 'k bucket_table = "('k \<times> bucket_state) list"

record 'k shared_state =
  terminal_status :: RateLimitAcquireStatus
  next_ticket :: uint64
  total_waiters :: uint64
  limits :: coordinator_limits
  buckets :: "'k bucket_table"

definition new_RateLimitCoordinator :: "coordinator_limits \<Rightarrow> uint64 \<Rightarrow> cpp_exception + 'k shared_state" where
  "new_RateLimitCoordinator lims initial_ticket =
     (if initial_ticket = 0 \<or> waiters_per_key lims > waiters_per_key HardLimits \<or>
         limit_total_waiters lims > limit_total_waiters HardLimits \<or> interrupt_slice_milliseconds lims = 0 \<or>
         interrupt_slice_milliseconds lims > interrupt_slice_milliseconds HardLimits
      then Inl (invalid_argument ''invalid rate-limit coordinator limits'')
      else Inr \<lparr>terminal_status = ACQUIRED, next_ticket = initial_ticket, total_waiters = 0, limits = lims,
                buckets = []\<rparr>)"

definition WaitSlice :: "int \<Rightarrow> int \<Rightarrow> uint64 \<Rightarrow> uint64" where
  "WaitSlice now target maximum_slice =
     (if target \<le> now then 0
      else if now \<le> int64_max - uint maximum_slice \<and> target > now + uint maximum_slice then maximum_slice
      else of_int (target - now))"

definition EraseTicketLocked :: "'k \<Rightarrow> bucket_state \<Rightarrow> uint64 \<Rightarrow> 'k shared_state \<Rightarrow> 'k shared_state" where
  "EraseTicketLocked key bucket ticket st =
     (let found = ticket \<in> set (tickets bucket);
          bucket' = bucket\<lparr>tickets := remove1 ticket (tickets bucket)\<rparr>;
          st' = (if found then st\<lparr>total_waiters := total_waiters st - 1\<rparr> else st)
      in if \<not> permitted bucket' \<and> tickets bucket' = []
         then st'\<lparr>buckets := AList.delete key (buckets st)\<rparr>
         else st'\<lparr>buckets := AList.update key bucket' (buckets st)\<rparr>)"

fun clear_queues :: "'k bucket_table \<Rightarrow> uint64 \<Rightarrow> 'k bucket_table \<times> uint64" where
  "clear_queues [] waiters = ([], waiters)"
| "clear_queues ((key, bucket) # rest) waiters =
     (let (rest', waiters') = clear_queues rest (waiters - of_nat (length (tickets bucket)))
      in (if permitted bucket then (key, bucket\<lparr>tickets := []\<rparr>) # rest' else rest', waiters'))"

definition EnterTerminalLocked :: "RateLimitAcquireStatus \<Rightarrow> 'k shared_state \<Rightarrow> 'k shared_state" where
  "EnterTerminalLocked status st =
     (if terminal_status st \<noteq> ACQUIRED then st
      else let (bs, waiters) = clear_queues (buckets st) (total_waiters st)
           in st\<lparr>terminal_status := status, buckets := bs, total_waiters := waiters\<rparr>)"

definition Close :: "'k shared_state \<Rightarrow> 'k shared_state" where
  "Close st = (if terminal_status st \<noteq> ACQUIRED then st else EnterTerminalLocked SCHEDULER_CLOSED st)"

definition IsClosed :: "'k shared_state \<Rightarrow> bool" where
  "IsClosed st \<longleftrightarrow> terminal_status st \<noteq> ACQUIRED"

definition extend_embargo :: "int \<Rightarrow> bucket_state \<Rightarrow> bucket_state" where
  "extend_embargo eligible bucket =
     bucket\<lparr>eligible_steady_milliseconds := max (eligible_steady_milliseconds bucket) eligible\<rparr>"

definition ExtendEligibleTime :: "'k \<Rightarrow> int \<Rightarrow> 'k shared_state \<Rightarrow> bool \<times> 'k shared_state" where
  "ExtendEligibleTime key eligible st =
     (case map_of (buckets st) key of
        None \<Rightarrow> (False, st)
      | Some bucket \<Rightarrow>
          if terminal_status st \<noteq> ACQUIRED \<or> \<not> permitted bucket then (False, st)
          else (True, st\<lparr>buckets := AList.update key (extend_embargo eligible bucket) (buckets st)\<rparr>))"

definition Complete :: "'k \<Rightarrow> 'k shared_state \<Rightarrow> 'k shared_state" where
  "Complete key st =
     (case map_of (buckets st) key of
        None \<Rightarrow> st
      | Some bucket \<Rightarrow>
          if \<not> permitted bucket then st
          else let st' = st\<lparr>total_waiters := total_waiters st - 1\<rparr>
               in if tickets bucket = [] then st'\<lparr>buckets := AList.delete key (buckets st)\<rparr>
                  else st'\<lparr>buckets := AList.update key (bucket\<lparr>permitted := False\<rparr>) (buckets st)\<rparr>)"

definition bucket_waiters :: "bucket_state \<Rightarrow> uint64" where
  "bucket_waiters bucket = of_nat (length (tickets bucket)) + (if permitted bucket then 1 else 0)"

definition enqueue_ticket :: "uint64 \<Rightarrow> bucket_state \<Rightarrow> bucket_state" where
  "enqueue_ticket ticket bucket = bucket\<lparr>tickets := tickets bucket @ [ticket]\<rparr>"

text \<open>\<open>Acquire\<close> up to its wait: it returns a status, or a queued ticket to wait for.\<close>

definition acquire_locked ::
  "'k \<Rightarrow> int \<Rightarrow> bool \<Rightarrow> 'k shared_state \<Rightarrow> (RateLimitAcquireStatus + uint64) \<times> 'k shared_state" where
  "acquire_locked key eligible cancelled st =
     (if terminal_status st \<noteq> ACQUIRED then (Inl (terminal_status st), st)
      else if cancelled then (Inl CANCELLED, st)
      else let found = map_of (buckets st) key;
               st1 = (case found of None \<Rightarrow> st
                      | Some b \<Rightarrow> st\<lparr>buckets := AList.update key (extend_embargo eligible b) (buckets st)\<rparr>);
               key_waiters = (case found of None \<Rightarrow> 0 | Some b \<Rightarrow> bucket_waiters b)
           in if key_waiters \<ge> waiters_per_key (limits st) \<or> total_waiters st \<ge> limit_total_waiters (limits st)
              then (Inl QUEUE_SATURATED, st1)
              else if next_ticket st = uint64_max
              then (Inl TICKET_EXHAUSTED, EnterTerminalLocked TICKET_EXHAUSTED st1)
              else let bucket = (case found of
                         None \<Rightarrow> \<lparr>eligible_steady_milliseconds = eligible, permitted = False, tickets = []\<rparr>
                       | Some b \<Rightarrow> extend_embargo eligible b);
                       ticket = next_ticket st
                   in (Inr ticket,
                       st1\<lparr>buckets := AList.update key (enqueue_ticket ticket bucket) (buckets st),
                           next_ticket := next_ticket st + 1, total_waiters := total_waiters st + 1\<rparr>))"

text \<open>One iteration of the loop of \<open>WaitForTicket\<close>: it returns, or sleeps for a slice.\<close>

datatype wait_result = Returned RateLimitAcquireStatus | Sleeping uint64

definition wait_turn ::
  "'k \<Rightarrow> uint64 \<Rightarrow> int \<Rightarrow> bool \<Rightarrow> int \<Rightarrow> 'k shared_state \<Rightarrow> wait_result \<times> 'k shared_state" where
  "wait_turn key ticket deadline cancelled now st =
     (if terminal_status st \<noteq> ACQUIRED then (Returned (terminal_status st), st)
      else case map_of (buckets st) key of
        None \<Rightarrow> (Returned SCHEDULER_CLOSED, st)
      | Some bucket \<Rightarrow>
          if cancelled then (Returned CANCELLED, EraseTicketLocked key bucket ticket st)
          else if \<not> permitted bucket \<and> tickets bucket \<noteq> [] \<and> hd (tickets bucket) = ticket \<and>
                  now \<ge> eligible_steady_milliseconds bucket \<and> now \<le> deadline
          then (Returned ACQUIRED,
                st\<lparr>buckets := AList.update key (bucket\<lparr>tickets := tl (tickets bucket), permitted := True\<rparr>) (buckets st)\<rparr>)
          else if now \<ge> deadline \<or> eligible_steady_milliseconds bucket > deadline
          then (Returned DEADLINE_REACHED, EraseTicketLocked key bucket ticket st)
          else let target = (if eligible_steady_milliseconds bucket > now
                             then min (eligible_steady_milliseconds bucket) deadline else deadline)
               in (Sleeping (WaitSlice now target (interrupt_slice_milliseconds (limits st))), st))"

text \<open>The cleanup when the wait of \<open>WaitForTicket\<close> throws.\<close>

definition wait_cleanup :: "'k \<Rightarrow> uint64 \<Rightarrow> 'k shared_state \<Rightarrow> 'k shared_state" where
  "wait_cleanup key ticket st =
     (case map_of (buckets st) key of None \<Rightarrow> st | Some bucket \<Rightarrow> EraseTicketLocked key bucket ticket st)"

text \<open>
  \<open>Requeue\<close> up to its wait: it throws, returns a status after completing the permit, or
  queues a new ticket and gives the permit up.
\<close>

datatype requeue_result = RequeueThrows cpp_exception | RequeueEnds RateLimitAcquireStatus | Requeued uint64

definition requeue_locked ::
  "'k \<Rightarrow> int \<Rightarrow> bool \<Rightarrow> 'k shared_state \<Rightarrow> requeue_result \<times> 'k shared_state" where
  "requeue_locked key eligible cancelled st =
     (if terminal_status st \<noteq> ACQUIRED \<or> cancelled
      then (RequeueEnds (if terminal_status st \<noteq> ACQUIRED then terminal_status st else CANCELLED), st)
      else case map_of (buckets st) key of
        None \<Rightarrow> (RequeueThrows (logic_error ''rate-limit permit lost its coordinator authority''), st)
      | Some bucket \<Rightarrow>
          if \<not> permitted bucket then (RequeueThrows (logic_error ''rate-limit permit lost its coordinator authority''), st)
          else let bucket1 = extend_embargo eligible bucket;
                   st1 = st\<lparr>buckets := AList.update key bucket1 (buckets st)\<rparr>
               in if next_ticket st = uint64_max
                  then (RequeueEnds TICKET_EXHAUSTED, EnterTerminalLocked TICKET_EXHAUSTED st1)
                  else let ticket = next_ticket st
                       in (Requeued ticket,
                           st\<lparr>buckets := AList.update key ((enqueue_ticket ticket bucket1)\<lparr>permitted := False\<rparr>) (buckets st),
                              next_ticket := next_ticket st + 1\<rparr>))"

subsection \<open>The interleaving of callers\<close>

text \<open>
  The callers of one coordinator: those blocked in \<open>WaitForTicket\<close>, each with its key, ticket and
  deadline, and the keys of the valid permits. Each rule is one section under the mutex; the
  observed cancellation flag and clock reading are arbitrary. The permit of a \<open>Requeue\<close> that ends
  stays valid until its own \<open>Complete\<close> section runs.
\<close>

record 'k coordinator_system =
  shared :: "'k shared_state"
  waiting :: "('k \<times> uint64 \<times> int) list"
  held :: "'k list"

inductive system_step :: "'k coordinator_system \<Rightarrow> 'k coordinator_system \<Rightarrow> bool" where
  AcquireEnds: "acquire_locked key eligible cancelled (shared s) = (Inl status, st) \<Longrightarrow>
    system_step s (s\<lparr>shared := st\<rparr>)"
| AcquireQueues: "acquire_locked key eligible cancelled (shared s) = (Inr ticket, st) \<Longrightarrow>
    system_step s (s\<lparr>shared := st, waiting := (key, ticket, deadline) # waiting s\<rparr>)"
| WaitSleeps: "(key, ticket, deadline) \<in> set (waiting s) \<Longrightarrow>
    wait_turn key ticket deadline cancelled now (shared s) = (Sleeping pause, st) \<Longrightarrow>
    system_step s (s\<lparr>shared := st\<rparr>)"
| WaitAcquires: "(key, ticket, deadline) \<in> set (waiting s) \<Longrightarrow>
    wait_turn key ticket deadline cancelled now (shared s) = (Returned ACQUIRED, st) \<Longrightarrow>
    system_step s (s\<lparr>shared := st, waiting := remove1 (key, ticket, deadline) (waiting s), held := key # held s\<rparr>)"
| WaitEnds: "(key, ticket, deadline) \<in> set (waiting s) \<Longrightarrow>
    wait_turn key ticket deadline cancelled now (shared s) = (Returned status, st) \<Longrightarrow> status \<noteq> ACQUIRED \<Longrightarrow>
    system_step s (s\<lparr>shared := st, waiting := remove1 (key, ticket, deadline) (waiting s)\<rparr>)"
| WaitThrows: "(key, ticket, deadline) \<in> set (waiting s) \<Longrightarrow>
    system_step s (s\<lparr>shared := wait_cleanup key ticket (shared s), waiting := remove1 (key, ticket, deadline) (waiting s)\<rparr>)"
| RequeueReturns: "key \<in> set (held s) \<Longrightarrow> requeue_locked key eligible cancelled (shared s) = (result, st) \<Longrightarrow>
    (\<And>ticket. result \<noteq> Requeued ticket) \<Longrightarrow> system_step s (s\<lparr>shared := st\<rparr>)"
| RequeueQueues: "key \<in> set (held s) \<Longrightarrow> requeue_locked key eligible cancelled (shared s) = (Requeued ticket, st) \<Longrightarrow>
    system_step s (s\<lparr>shared := st, waiting := (key, ticket, deadline) # waiting s, held := remove1 key (held s)\<rparr>)"
| Extends: "key \<in> set (held s) \<Longrightarrow>
    system_step s (s\<lparr>shared := snd (ExtendEligibleTime key eligible (shared s))\<rparr>)"
| Completes: "key \<in> set (held s) \<Longrightarrow>
    system_step s (s\<lparr>shared := Complete key (shared s), held := remove1 key (held s)\<rparr>)"
| Closes: "system_step s (s\<lparr>shared := Close (shared s)\<rparr>)"

definition coordinator_start :: "coordinator_limits \<Rightarrow> uint64 \<Rightarrow> 'k coordinator_system \<Rightarrow> bool" where
  "coordinator_start lims initial_ticket s \<longleftrightarrow>
     new_RateLimitCoordinator lims initial_ticket = Inr (shared s) \<and> waiting s = [] \<and> held s = []"

definition reachable :: "coordinator_limits \<Rightarrow> uint64 \<Rightarrow> 'k coordinator_system \<Rightarrow> bool" where
  "reachable lims initial_ticket = reaches (coordinator_start lims initial_ticket) system_step"

subsection \<open>The per-key view\<close>

lemma unat_diff_of_nat:
  assumes "n \<le> unat (w :: uint64)"
  shows "unat (w - of_nat n) = unat w - n"
proof -
  have "unat (of_nat n :: uint64) = n"
    using assms unat_uint64_bound [of w] by (simp add: unat_of_nat)
  with assms show ?thesis by (simp add: unat_sub word_le_nat_alt)
qed

text \<open>What a key sees of the coordinator: whether its permit is out, and the queue of tickets.\<close>

definition lock_of :: "'k bucket_table \<Rightarrow> 'k \<Rightarrow> bool \<times> uint64 list" where
  "lock_of bs key = (case map_of bs key of None \<Rightarrow> (False, []) | Some b \<Rightarrow> (permitted b, tickets b))"

lemma lock_of_update: "lock_of (AList.update key b bs) = (lock_of bs)(key := (permitted b, tickets b))"
  by (auto simp: lock_of_def AList.update_conv')

lemma lock_of_delete: "lock_of (AList.delete key bs) = (lock_of bs)(key := (False, []))"
  by (auto simp: lock_of_def AList.delete_conv')

lemma lock_of_Some: "map_of bs key = Some b \<Longrightarrow> lock_of bs key = (permitted b, tickets b)"
  by (simp add: lock_of_def)

lemma lock_of_None: "map_of bs key = None \<Longrightarrow> lock_of bs key = (False, [])"
  by (simp add: lock_of_def)

lemma extend_embargo_fields [simp]:
  "permitted (extend_embargo e b) = permitted b" "tickets (extend_embargo e b) = tickets b"
  "permitted (enqueue_ticket t b) = permitted b" "tickets (enqueue_ticket t b) = tickets b @ [t]"
  by (simp_all add: extend_embargo_def enqueue_ticket_def)

definition occupancy :: "bucket_state \<Rightarrow> nat" where
  "occupancy b = length (tickets b) + (if permitted b then 1 else 0)"

definition occupied :: "'k bucket_table \<Rightarrow> nat" where
  "occupied bs = (\<Sum>kb\<leftarrow>bs. occupancy (snd kb))"

definition occupancy_at :: "'k bucket_table \<Rightarrow> 'k \<Rightarrow> nat" where
  "occupancy_at bs key = (case lock_of bs key of (p, ts) \<Rightarrow> length ts + (if p then 1 else 0))"

lemma occupied_update:
  "distinct (map fst bs) \<Longrightarrow> occupied (AList.update key b bs) + occupancy_at bs key = occupied bs + occupancy b"
  by (induction bs) (auto simp: occupied_def occupancy_at_def lock_of_def occupancy_def map_of_eq_None_iff [symmetric] image_iff split: option.splits)

lemma occupied_delete:
  "distinct (map fst bs) \<Longrightarrow> occupied (AList.delete key bs) + occupancy_at bs key = occupied bs"
  by (induction bs) (auto simp: occupied_def occupancy_at_def lock_of_def occupancy_def split: option.splits)

lemma occupancy_at_le: "distinct (map fst bs) \<Longrightarrow> occupancy_at bs key \<le> occupied bs"
  using occupied_delete [of bs key] by simp

lemma clear_queues_Cons:
  "fst (clear_queues ((key, b) # bs) waiters) =
     (if permitted b then [(key, b\<lparr>tickets := []\<rparr>)] else []) @
     fst (clear_queues bs (waiters - of_nat (length (tickets b))))"
  "snd (clear_queues ((key, b) # bs) waiters) = snd (clear_queues bs (waiters - of_nat (length (tickets b))))"
  by (simp_all add: Let_def split: prod.splits)

lemma clear_queues_keys: "key \<in> fst ` set (fst (clear_queues bs waiters)) \<Longrightarrow> key \<in> fst ` set bs"
proof (induction bs arbitrary: waiters)
  case (Cons kb bs)
  then show ?case by (cases kb) (fastforce simp: clear_queues_Cons simp del: clear_queues.simps split: if_splits)
qed simp

lemma clear_queues_distinct: "distinct (map fst bs) \<Longrightarrow> distinct (map fst (fst (clear_queues bs waiters)))"
proof (induction bs arbitrary: waiters)
  case (Cons kb bs)
  then show ?case
    using clear_queues_keys [of "fst kb" bs] by (cases kb) (auto simp: clear_queues_Cons simp del: clear_queues.simps)
qed simp

lemma lock_of_Cons: "lock_of ((key, b) # bs) = (lock_of bs)(key := (permitted b, tickets b))"
  by (auto simp: lock_of_def)

lemma lock_of_notin: "key \<notin> fst ` set bs \<Longrightarrow> lock_of bs key = (False, [])"
  by (simp add: lock_of_None map_of_eq_None_iff)

lemma clear_queues_lock:
  "distinct (map fst bs) \<Longrightarrow> lock_of (fst (clear_queues bs waiters)) = (\<lambda>key. (fst (lock_of bs key), []))"
proof (induction bs arbitrary: waiters)
  case Nil
  then show ?case by (simp add: lock_of_def fun_eq_iff)
next
  case (Cons kb bs)
  obtain key b where kb: "kb = (key, b)" by fastforce
  have "key \<notin> fst ` set (fst (clear_queues bs w))" for w
    using clear_queues_keys [of key bs w] Cons.prems kb by auto
  with Cons kb show ?case
    by (auto simp: clear_queues_Cons lock_of_Cons lock_of_notin fun_eq_iff simp del: clear_queues.simps)
qed

lemma occupied_simps [simp]: "occupied [] = 0" "occupied ((key, b) # bs) = occupancy b + occupied bs"
  by (simp_all add: occupied_def)

lemma clear_queues_total:
  "occupied bs \<le> unat waiters \<Longrightarrow>
   unat (snd (clear_queues bs waiters)) + occupied bs = unat waiters + occupied (fst (clear_queues bs waiters))"
proof (induction bs arbitrary: waiters)
  case (Cons kb bs)
  obtain key b where kb: "kb = (key, b)" by fastforce
  have len: "length (tickets b) + occupied bs \<le> unat waiters" using Cons.prems kb by (simp add: occupancy_def)
  then have rest: "unat (waiters - of_nat (length (tickets b))) = unat waiters - length (tickets b)"
    by (intro unat_diff_of_nat) simp
  with len have "occupied bs \<le> unat (waiters - of_nat (length (tickets b)))" by simp
  from Cons.IH [OF this] rest len kb show ?case
    by (auto simp: clear_queues_Cons occupancy_def simp del: clear_queues.simps)
qed simp

subsection \<open>Invariant of the shared state\<close>

definition bucket_ok :: "coordinator_limits \<Rightarrow> uint64 \<Rightarrow> bucket_state \<Rightarrow> bool" where
  "bucket_ok lims ticket b \<longleftrightarrow>
     (permitted b \<or> tickets b \<noteq> []) \<and> sorted_wrt (<) (tickets b) \<and> (\<forall>t\<in>set (tickets b). t < ticket) \<and>
     occupancy b \<le> unat (waiters_per_key lims)"

definition shared_ok :: "'k shared_state \<Rightarrow> bool" where
  "shared_ok st \<longleftrightarrow>
     distinct (map fst (buckets st)) \<and>
     (\<forall>key b. map_of (buckets st) key = Some b \<longrightarrow> bucket_ok (limits st) (next_ticket st) b) \<and>
     unat (total_waiters st) = occupied (buckets st) \<and>
     total_waiters st \<le> limit_total_waiters (limits st) \<and>
     waiters_per_key (limits st) \<le> 64 \<and>
     (terminal_status st \<noteq> ACQUIRED \<longrightarrow> (\<forall>key. snd (lock_of (buckets st) key) = []))"

lemma shared_okD:
  assumes "shared_ok st"
  shows "distinct (map fst (buckets st))" "unat (total_waiters st) = occupied (buckets st)"
    "total_waiters st \<le> limit_total_waiters (limits st)"
    "map_of (buckets st) key = Some b \<Longrightarrow> bucket_ok (limits st) (next_ticket st) b"
    "terminal_status st \<noteq> ACQUIRED \<Longrightarrow> snd (lock_of (buckets st) key) = []"
  using assms by (auto simp: shared_ok_def)

lemma bucket_ok_mono: "bucket_ok lims t b \<Longrightarrow> t \<le> t' \<Longrightarrow> bucket_ok lims t' b"
  by (auto simp: bucket_ok_def intro: less_le_trans)

lemma shared_ok_update:
  assumes "shared_ok st" and "bucket_ok (limits st) ticket b" and "next_ticket st \<le> ticket"
    and "unat waiters + occupancy_at (buckets st) key = unat (total_waiters st) + occupancy b"
    and "waiters \<le> limit_total_waiters (limits st)" and "terminal_status st \<noteq> ACQUIRED \<Longrightarrow> tickets b = []"
  shows "shared_ok (st\<lparr>buckets := AList.update key b (buckets st), next_ticket := ticket, total_waiters := waiters\<rparr>)"
  using assms occupied_update [of "buckets st" key b] unfolding shared_ok_def
  by (auto simp: AList.update_conv' AList.distinct_update lock_of_update intro: bucket_ok_mono [OF _ assms(3)])

lemma shared_ok_delete:
  assumes "shared_ok st" and "unat waiters + occupancy_at (buckets st) key = unat (total_waiters st)"
    and "waiters \<le> limit_total_waiters (limits st)"
  shows "shared_ok (st\<lparr>buckets := AList.delete key (buckets st), total_waiters := waiters\<rparr>)"
  using assms occupied_delete [of "buckets st" key] unfolding shared_ok_def
  by (auto simp: AList.delete_conv' AList.distinct_delete lock_of_delete split: if_splits)

lemma update_commute [simp]: "st\<lparr>total_waiters := w, buckets := bs\<rparr> = st\<lparr>buckets := bs, total_waiters := w\<rparr>"
  by (cases st) simp

lemma decrement:
  assumes "0 < unat (w :: uint64)"
  shows "unat (w - 1) = unat w - 1" and "w - 1 \<le> w"
proof -
  show "unat (w - 1) = unat w - 1" using unat_diff_of_nat [of 1 w] assms by simp
  then show "w - 1 \<le> w" by (simp add: word_le_nat_alt)
qed

lemma occupancy_at_Some: "map_of bs key = Some b \<Longrightarrow> occupancy_at bs key = occupancy b"
  by (simp add: occupancy_at_def lock_of_Some occupancy_def)

lemma occupancy_at_None: "map_of bs key = None \<Longrightarrow> occupancy_at bs key = 0"
  by (simp add: occupancy_at_def lock_of_None)

lemma sorted_wrt_remove1: "sorted_wrt P xs \<Longrightarrow> sorted_wrt P (remove1 x xs)"
  by (induction xs) (auto dest: set_remove1_subset [THEN subsetD])

lemma erase_ticket_lock:
  assumes "map_of (buckets st) key = Some b"
  shows "lock_of (buckets (EraseTicketLocked key b ticket st)) =
      (lock_of (buckets st))(key := (permitted b, remove1 ticket (tickets b)))"
  using assms by (auto simp: EraseTicketLocked_def Let_def lock_of_update lock_of_delete)

lemma erase_ticket_ok:
  assumes ok: "shared_ok st" and b: "map_of (buckets st) key = Some b"
  shows "shared_ok (EraseTicketLocked key b ticket st)"
proof -
  let ?b = "b\<lparr>tickets := remove1 ticket (tickets b)\<rparr>"
  let ?w = "if ticket \<in> set (tickets b) then total_waiters st - 1 else total_waiters st"
  have bok: "bucket_ok (limits st) (next_ticket st) b" using shared_okD(4) [OF ok b] .
  have pos: "ticket \<in> set (tickets b) \<Longrightarrow> 0 < unat (total_waiters st)"
    using shared_okD(1,2) [OF ok] occupancy_at_le [of "buckets st" key] occupancy_at_Some [OF b]
    by (cases "tickets b") (auto simp: occupancy_def)
  have shorter: "ticket \<in> set (tickets b) \<Longrightarrow> length (tickets b) = Suc (length (remove1 ticket (tickets b)))"
    using length_pos_if_in_set [of ticket "tickets b"] by (simp add: length_remove1 Suc_pred del: length_greater_0_conv)
  have w: "unat ?w + occupancy b = unat (total_waiters st) + occupancy ?b" and le: "?w \<le> limit_total_waiters (limits st)"
    using decrement [of "total_waiters st"] pos shared_okD(3) [OF ok] shorter
    by (auto simp: occupancy_def remove1_idem intro: order_trans)
  show ?thesis
  proof (cases "\<not> permitted b \<and> remove1 ticket (tickets b) = []")
    case True
    have "shared_ok (st\<lparr>buckets := AList.delete key (buckets st), total_waiters := ?w\<rparr>)"
      by (rule shared_ok_delete [OF ok _ le]) (use w True in \<open>simp add: occupancy_at_Some [OF b] occupancy_def\<close>)
    with True show ?thesis by (auto simp: EraseTicketLocked_def)
  next
    case False
    have "bucket_ok (limits st) (next_ticket st) ?b"
      using bok False by (auto simp: bucket_ok_def occupancy_def sorted_wrt_remove1 length_remove1 dest: set_remove1_subset [THEN subsetD])
    moreover have "terminal_status st \<noteq> ACQUIRED \<Longrightarrow> tickets ?b = []"
      using shared_okD(5) [OF ok, of key] by (simp add: lock_of_Some [OF b])
    ultimately have "shared_ok (st\<lparr>buckets := AList.update key ?b (buckets st), next_ticket := next_ticket st, total_waiters := ?w\<rparr>)"
      using shared_ok_update [OF ok _ order_refl _ le] w by (simp add: occupancy_at_Some [OF b])
    with False show ?thesis by (auto simp: EraseTicketLocked_def Let_def)
  qed
qed

lemma terminal_lock:
  "distinct (map fst (buckets st)) \<Longrightarrow> terminal_status st = ACQUIRED \<Longrightarrow>
   lock_of (buckets (EnterTerminalLocked status st)) = (\<lambda>key. (fst (lock_of (buckets st) key), []))"
  using clear_queues_lock [of "buckets st" "total_waiters st"] by (auto simp: EnterTerminalLocked_def split: prod.split)

lemma cleared_bucket:
  "map_of (fst (clear_queues bs waiters)) key = Some b \<Longrightarrow> permitted b \<and> tickets b = []"
proof (induction bs arbitrary: waiters)
  case (Cons kb bs)
  then show ?case
    by (cases kb) (auto simp: clear_queues_Cons map_add_Some_iff simp del: clear_queues.simps split: if_splits)
qed simp

lemma cleared_bucket_was_permitted:
  assumes "distinct (map fst bs)" and "map_of (fst (clear_queues bs waiters)) key = Some b"
  shows "\<exists>b0. map_of bs key = Some b0 \<and> permitted b0"
proof -
  have "fst (lock_of bs key)"
    using clear_queues_lock [OF assms(1), of waiters] cleared_bucket [OF assms(2)] lock_of_Some [OF assms(2)]
    by (metis fst_conv)
  then show ?thesis by (auto simp: lock_of_def split: option.splits)
qed

lemma clear_queues_less: "occupied (fst (clear_queues bs waiters)) \<le> occupied bs"
proof (induction bs arbitrary: waiters)
  case (Cons kb bs)
  then show ?case
    by (cases kb) (auto simp: clear_queues_Cons occupancy_def simp del: clear_queues.simps intro: le_trans trans_le_add2)
qed simp

lemma enter_terminal_ok:
  assumes ok: "shared_ok st" and "terminal_status st = ACQUIRED" and "status \<noteq> ACQUIRED"
  shows "shared_ok (EnterTerminalLocked status st)"
proof -
  obtain bs w where cq: "clear_queues (buckets st) (total_waiters st) = (bs, w)" by fastforce
  note d = shared_okD(1) [OF ok]
  have "unat w + occupied (buckets st) = unat (total_waiters st) + occupied bs"
    using clear_queues_total [of "buckets st" "total_waiters st"] cq shared_okD(2) [OF ok] by simp
  then have w: "unat w = occupied bs" using shared_okD(2) [OF ok] by simp
  have keep: "bucket_ok (limits st) (next_ticket st) b" if b: "map_of bs key = Some b" for key b
  proof -
    obtain b0 where b0: "map_of (buckets st) key = Some b0" "permitted b0"
      using cleared_bucket_was_permitted [OF d, of "total_waiters st" key b] b cq by auto
    have "permitted b \<and> tickets b = []" using cleared_bucket [of "buckets st" "total_waiters st" key b] b cq by simp
    with shared_okD(4) [OF ok b0(1)] b0(2) show ?thesis by (auto simp: bucket_ok_def occupancy_def)
  qed
  have "w \<le> limit_total_waiters (limits st)"
    using w shared_okD(2,3) [OF ok] clear_queues_less [of "buckets st" "total_waiters st"] cq
    by (simp add: word_le_nat_alt)
  moreover have "snd (lock_of bs key) = []" for key
    using clear_queues_lock [OF d, of "total_waiters st"] cq by (simp add: fun_eq_iff)
  ultimately show ?thesis
    using assms cq keep w clear_queues_distinct [OF d, of "total_waiters st"]
    unfolding EnterTerminalLocked_def shared_ok_def by auto
qed

lemma close_ok: "shared_ok st \<Longrightarrow> shared_ok (Close st)"
  by (simp add: Close_def enter_terminal_ok)

lemma extend_bucket_ok [simp]: "bucket_ok lims t (extend_embargo e b) = bucket_ok lims t b"
  "occupancy (extend_embargo e b) = occupancy b"
  by (simp_all add: bucket_ok_def occupancy_def)

lemma embargo_ok:
  assumes ok: "shared_ok st" and b: "map_of (buckets st) key = Some b"
  shows "shared_ok (st\<lparr>buckets := AList.update key (extend_embargo e b) (buckets st)\<rparr>)"
    and "lock_of (AList.update key (extend_embargo e b) (buckets st)) = lock_of (buckets st)"
proof -
  have "terminal_status st \<noteq> ACQUIRED \<Longrightarrow> tickets b = []"
    using shared_okD(5) [OF ok, of key] by (simp add: lock_of_Some [OF b])
  then have "shared_ok (st\<lparr>buckets := AList.update key (extend_embargo e b) (buckets st),
      next_ticket := next_ticket st, total_waiters := total_waiters st\<rparr>)"
    using shared_okD(3,4) [OF ok] b by (intro shared_ok_update [OF ok]) (auto simp: occupancy_at_Some)
  then show "shared_ok (st\<lparr>buckets := AList.update key (extend_embargo e b) (buckets st)\<rparr>)" by simp
  show "lock_of (AList.update key (extend_embargo e b) (buckets st)) = lock_of (buckets st)"
    using b by (auto simp: lock_of_update lock_of_Some fun_eq_iff)
qed

lemma extend_ok:
  "shared_ok st \<Longrightarrow> shared_ok (snd (ExtendEligibleTime key e st)) \<and>
   lock_of (buckets (snd (ExtendEligibleTime key e st))) = lock_of (buckets st)"
  by (auto simp: ExtendEligibleTime_def embargo_ok split: option.split)

lemma complete_ok:
  assumes ok: "shared_ok st" and "fst (lock_of (buckets st) key)"
  shows "shared_ok (Complete key st)"
    and "lock_of (buckets (Complete key st)) = (lock_of (buckets st))(key := (False, snd (lock_of (buckets st) key)))"
proof -
  from assms(2) obtain b where b: "map_of (buckets st) key = Some b" and p: "permitted b"
    by (auto simp: lock_of_def split: option.splits)
  have occ: "occupancy b \<le> unat (total_waiters st)" "1 \<le> occupancy b"
    using shared_okD(1,2) [OF ok] occupancy_at_le [of "buckets st" key] occupancy_at_Some [OF b] p
    by (auto simp: occupancy_def)
  then have w: "unat (total_waiters st - 1) = unat (total_waiters st) - 1" "total_waiters st - 1 \<le> total_waiters st"
    using decrement [of "total_waiters st"] by simp_all
  have le: "total_waiters st - 1 \<le> limit_total_waiters (limits st)" using w(2) shared_okD(3) [OF ok] by simp
  note bok = shared_okD(4) [OF ok b]
  show "shared_ok (Complete key st)"
  proof (cases "tickets b = []")
    case True
    then show ?thesis using shared_ok_delete [OF ok _ le, of key] b p occ w
      by (simp add: Complete_def occupancy_at_Some occupancy_def)
  next
    case False
    have "shared_ok (st\<lparr>buckets := AList.update key (b\<lparr>permitted := False\<rparr>) (buckets st),
        next_ticket := next_ticket st, total_waiters := total_waiters st - 1\<rparr>)"
      by (rule shared_ok_update [OF ok _ order_refl _ le])
        (use bok False p occ w shared_okD(5) [OF ok, of key] b in
          \<open>auto simp: bucket_ok_def occupancy_at_Some occupancy_def lock_of_Some\<close>)
    with b p False show ?thesis by (simp add: Complete_def Let_def)
  qed
  show "lock_of (buckets (Complete key st)) = (lock_of (buckets st))(key := (False, snd (lock_of (buckets st) key)))"
    using b p by (auto simp: Complete_def Let_def lock_of_Some lock_of_update lock_of_delete)
qed

text \<open>The three effects an operation has on the per-key views.\<close>

definition view :: "'k shared_state \<Rightarrow> 'k \<Rightarrow> bool \<times> uint64 list" where
  "view st = lock_of (buckets st)"

definition same_view :: "'k shared_state \<Rightarrow> 'k shared_state \<Rightarrow> bool" where
  "same_view st st' \<longleftrightarrow>
     view st' = view st \<and> terminal_status st' = terminal_status st \<and> next_ticket st' = next_ticket st"

definition shut_view :: "'k shared_state \<Rightarrow> 'k shared_state \<Rightarrow> bool" where
  "shut_view st st' \<longleftrightarrow> terminal_status st = ACQUIRED \<and> terminal_status st' \<noteq> ACQUIRED \<and>
     view st' = (\<lambda>key. (fst (view st key), [])) \<and> next_ticket st' = next_ticket st"

definition queue_view :: "'k \<Rightarrow> bool \<Rightarrow> 'k shared_state \<Rightarrow> 'k shared_state \<Rightarrow> bool" where
  "queue_view key p st st' \<longleftrightarrow> terminal_status st = ACQUIRED \<and> terminal_status st' = ACQUIRED \<and>
     view st' = (view st)(key := (p, snd (view st key) @ [next_ticket st])) \<and>
     next_ticket st < next_ticket st'"

definition set_view :: "'k \<Rightarrow> bool \<times> uint64 list \<Rightarrow> 'k shared_state \<Rightarrow> 'k shared_state \<Rightarrow> bool" where
  "set_view key l st st' \<longleftrightarrow>
     view st' = (view st)(key := l) \<and> terminal_status st' = terminal_status st \<and> next_ticket st' = next_ticket st"

lemmas view_defs = view_def same_view_def shut_view_def queue_view_def set_view_def

lemma unat_bucket_waiters:
  assumes "occupancy b \<le> 64"
  shows "unat (bucket_waiters b) = occupancy b"
proof -
  have "bucket_waiters b = of_nat (occupancy b)" by (simp add: bucket_waiters_def occupancy_def)
  then show ?thesis using assms by (simp add: unat_of_nat)
qed

lemma enqueue_ok:
  assumes ok: "shared_ok st" and b: "bucket_ok (limits st) (next_ticket st) b \<or> tickets b = []"
    and room: "length (tickets b) + (if p then 1 else 0) + 1 \<le> unat (waiters_per_key (limits st))"
    and fresh: "next_ticket st \<noteq> uint64_max"
  shows "bucket_ok (limits st) (next_ticket st + 1) ((enqueue_ticket (next_ticket st) b)\<lparr>permitted := p\<rparr>)"
  using assms ticket_increment(1) [OF fresh]
  by (auto simp: bucket_ok_def occupancy_def sorted_wrt_append intro: order.strict_trans)

lemma acquire_queues:
  assumes ok: "shared_ok st" and run: "acquire_locked key e c st = (Inr ticket, st')"
  shows "shared_ok st'" and "ticket = next_ticket st" and "queue_view key (fst (view st key)) st st'"
proof -
  let ?found = "map_of (buckets st) key"
  define b where "b = (case ?found of None \<Rightarrow> \<lparr>eligible_steady_milliseconds = e, permitted = False, tickets = []\<rparr>
    | Some b \<Rightarrow> extend_embargo e b)"
  define waiters where "waiters = (case ?found of None \<Rightarrow> 0 | Some b \<Rightarrow> bucket_waiters b)"
  from run have live: "terminal_status st = ACQUIRED" and kw: "\<not> waiters \<ge> waiters_per_key (limits st)"
    and tw: "\<not> total_waiters st \<ge> limit_total_waiters (limits st)" and fresh: "next_ticket st \<noteq> uint64_max"
    and ticket: "ticket = next_ticket st"
    and st': "st' = st\<lparr>buckets := AList.update key (enqueue_ticket (next_ticket st) b) (buckets st),
        next_ticket := next_ticket st + 1, total_waiters := total_waiters st + 1\<rparr>"
    by (auto simp: acquire_locked_def waiters_def b_def Let_def split: if_splits option.splits)
  have known: "map_of (buckets st) key = Some b0 \<Longrightarrow> occupancy b0 \<le> 64" for b0
    using shared_okD(4) [OF ok] ok by (fastforce simp: shared_ok_def bucket_ok_def word_le_nat_alt)
  have occ: "occupancy b = occupancy_at (buckets st) key" "unat waiters = occupancy_at (buckets st) key"
    using known by (auto simp: b_def waiters_def occupancy_at_Some occupancy_at_None unat_bucket_waiters
        occupancy_def [of "\<lparr>eligible_steady_milliseconds = e, permitted = False, tickets = []\<rparr>"] split: option.split)
  have view_b: "lock_of (buckets st) key = (permitted b, tickets b)"
    by (auto simp: b_def lock_of_Some lock_of_None split: option.split)
  have "bucket_ok (limits st) (next_ticket st) b \<or> tickets b = []"
    using shared_okD(4) [OF ok] by (auto simp: b_def split: option.split)
  moreover have room: "occupancy b + 1 \<le> unat (waiters_per_key (limits st))"
    using kw occ by (simp add: word_le_nat_alt)
  ultimately have "bucket_ok (limits st) (next_ticket st + 1) ((enqueue_ticket (next_ticket st) b)\<lparr>permitted := permitted b\<rparr>)"
    using fresh by (intro enqueue_ok [OF ok]) (auto simp: occupancy_def)
  then have bok: "bucket_ok (limits st) (next_ticket st + 1) (enqueue_ticket (next_ticket st) b)"
    by (simp add: enqueue_ticket_def)
  have "total_waiters st \<noteq> uint64_max" using tw unat_uint64_bound [of "limit_total_waiters (limits st)"]
    by (auto simp: word_facts)
  then have tw': "unat (total_waiters st + 1) = unat (total_waiters st) + 1" by (rule ticket_increment(2))
  have "total_waiters st + 1 \<le> limit_total_waiters (limits st)" using tw tw' by (simp add: word_facts)
  with bok show "shared_ok st'" unfolding st'
    using ticket_increment(1) [OF fresh] occ(1) tw' live
    by (intro shared_ok_update [OF ok]) (auto simp: occupancy_def)
  show "ticket = next_ticket st" by (rule ticket)
  show "queue_view key (fst (view st key)) st st'"
    using ticket_increment(1) [OF fresh] live view_b by (simp add: st' view_defs lock_of_update)
qed

lemma enter_terminal_fields:
  "terminal_status st = ACQUIRED \<Longrightarrow> terminal_status (EnterTerminalLocked status st) = status"
  "next_ticket (EnterTerminalLocked status st) = next_ticket st"
  by (auto simp: EnterTerminalLocked_def split: prod.split)

lemma enter_terminal_view:
  "shared_ok st \<Longrightarrow> terminal_status st = ACQUIRED \<Longrightarrow> status \<noteq> ACQUIRED \<Longrightarrow> shut_view st (EnterTerminalLocked status st)"
  using terminal_lock [of st status] shared_okD(1) [of st] by (simp add: view_defs enter_terminal_fields)

lemma acquire_ends:
  assumes ok: "shared_ok st" and run: "acquire_locked key e c st = (Inl status, st')"
  shows "shared_ok st'" and "same_view st st' \<or> shut_view st st'" and "status \<noteq> ACQUIRED"
proof -
  define st1 where "st1 = (case map_of (buckets st) key of None \<Rightarrow> st
    | Some b \<Rightarrow> st\<lparr>buckets := AList.update key (extend_embargo e b) (buckets st)\<rparr>)"
  have st1: "shared_ok st1" "same_view st st1"
    using ok embargo_ok [OF ok] by (auto simp: st1_def view_defs split: option.split)
  have shut: "shared_ok (EnterTerminalLocked TICKET_EXHAUSTED st1)"
    "shut_view st (EnterTerminalLocked TICKET_EXHAUSTED st1)" if "terminal_status st = ACQUIRED"
    using that st1 enter_terminal_ok [OF st1(1), of TICKET_EXHAUSTED] enter_terminal_view [OF st1(1), of TICKET_EXHAUSTED]
    by (auto simp: view_defs)
  show "shared_ok st'" and "same_view st st' \<or> shut_view st st'" and "status \<noteq> ACQUIRED"
    using run ok st1 shut
    by (auto simp: acquire_locked_def Let_def st1_def [symmetric] split: if_splits option.splits)
      (auto simp: same_view_def)
qed

lemma wait_turn_acquires:
  assumes ok: "shared_ok st" and run: "wait_turn key ticket deadline c now st = (Returned ACQUIRED, st')"
  shows "shared_ok st'" and "set_view key (True, tl (snd (view st key))) st st'"
    and "view st key = (False, ticket # tl (snd (view st key)))"
    and "now \<le> deadline \<and> \<not> c \<and> terminal_status st = ACQUIRED \<and>
      (\<exists>b. map_of (buckets st) key = Some b \<and> eligible_steady_milliseconds b \<le> now)"
proof -
  from run obtain b where b: "map_of (buckets st) key = Some b" and free: "\<not> permitted b" "tickets b \<noteq> []"
    "hd (tickets b) = ticket" and time: "eligible_steady_milliseconds b \<le> now" "now \<le> deadline"
    and live: "\<not> c" "terminal_status st = ACQUIRED"
    and st': "st' = st\<lparr>buckets := AList.update key (b\<lparr>tickets := tl (tickets b), permitted := True\<rparr>) (buckets st)\<rparr>"
    by (auto simp: wait_turn_def Let_def split: if_splits option.splits)
  let ?b = "b\<lparr>tickets := tl (tickets b), permitted := True\<rparr>"
  have "bucket_ok (limits st) (next_ticket st) ?b"
    using shared_okD(4) [OF ok b] free by (cases "tickets b") (auto simp: bucket_ok_def occupancy_def)
  then have "shared_ok (st\<lparr>buckets := AList.update key ?b (buckets st), next_ticket := next_ticket st,
      total_waiters := total_waiters st\<rparr>)"
    using live shared_okD(3) [OF ok] free
    by (intro shared_ok_update [OF ok]) (auto simp: occupancy_at_Some [OF b] occupancy_def)
  then show "shared_ok st'" by (simp add: st')
  show "set_view key (True, tl (snd (view st key))) st st'"
    "view st key = (False, ticket # tl (snd (view st key)))"
    using free by (auto simp: st' view_defs lock_of_Some [OF b] lock_of_update)
  show "now \<le> deadline \<and> \<not> c \<and> terminal_status st = ACQUIRED \<and>
      (\<exists>b. map_of (buckets st) key = Some b \<and> eligible_steady_milliseconds b \<le> now)"
    using b time live by simp
qed

lemma wait_turn_ends:
  assumes ok: "shared_ok st" and run: "wait_turn key ticket deadline c now st = (Returned status, st')"
    and "status \<noteq> ACQUIRED"
  shows "shared_ok st'"
    and "terminal_status st \<noteq> ACQUIRED \<and> st' = st \<and> status = terminal_status st \<or>
         terminal_status st = ACQUIRED \<and>
           (view st key = (False, []) \<and> st' = st \<or> status \<in> {CANCELLED, DEADLINE_REACHED} \<and>
           set_view key (fst (view st key), remove1 ticket (snd (view st key))) st st')"
proof -
  have erase: "shared_ok (EraseTicketLocked key b ticket st)"
    "set_view key (fst (view st key), remove1 ticket (snd (view st key))) st (EraseTicketLocked key b ticket st)"
    if b: "map_of (buckets st) key = Some b" for b
    using erase_ticket_ok [OF ok b] erase_ticket_lock [OF b, of ticket] lock_of_Some [OF b]
    by (auto simp: view_defs) (auto simp: EraseTicketLocked_def Let_def)
  from run assms(3) show "shared_ok st'"
    using ok erase by (auto simp: wait_turn_def Let_def split: if_splits option.splits)
  from run assms(3) show "terminal_status st \<noteq> ACQUIRED \<and> st' = st \<and> status = terminal_status st \<or>
         terminal_status st = ACQUIRED \<and>
           (view st key = (False, []) \<and> st' = st \<or> status \<in> {CANCELLED, DEADLINE_REACHED} \<and>
           set_view key (fst (view st key), remove1 ticket (snd (view st key))) st st')"
    using erase by (auto simp: wait_turn_def Let_def lock_of_None view_def split: if_splits option.splits)
qed

lemma wait_turn_sleeps: "wait_turn key ticket deadline c now st = (Sleeping pause, st') \<Longrightarrow> st' = st"
  by (auto simp: wait_turn_def Let_def split: if_splits option.splits)

lemma wait_cleanup_ok:
  assumes ok: "shared_ok st"
  shows "shared_ok (wait_cleanup key ticket st)"
    and "set_view key (fst (view st key), remove1 ticket (snd (view st key))) st (wait_cleanup key ticket st)"
  using erase_ticket_ok [OF ok, of key] erase_ticket_lock [of st key] ok
  by (auto simp: wait_cleanup_def view_defs lock_of_Some lock_of_None split: option.split)
    (auto simp: EraseTicketLocked_def Let_def)

lemma requeue_queues:
  assumes ok: "shared_ok st" and run: "requeue_locked key e c st = (Requeued ticket, st')"
  shows "shared_ok st'" and "ticket = next_ticket st" and "queue_view key False st st'" and "fst (view st key)"
proof -
  from run obtain b where b: "map_of (buckets st) key = Some b" and p: "permitted b"
    and live: "terminal_status st = ACQUIRED" and fresh: "next_ticket st \<noteq> uint64_max" and ticket: "ticket = next_ticket st"
    and st': "st' = st\<lparr>buckets := AList.update key ((enqueue_ticket (next_ticket st) (extend_embargo e b))\<lparr>permitted := False\<rparr>) (buckets st),
        next_ticket := next_ticket st + 1\<rparr>"
    by (auto simp: requeue_locked_def Let_def split: if_splits option.splits)
  let ?b = "(enqueue_ticket (next_ticket st) (extend_embargo e b))\<lparr>permitted := False\<rparr>"
  have "bucket_ok (limits st) (next_ticket st + 1) ?b"
    using shared_okD(4) [OF ok b] p fresh
    by (intro enqueue_ok [OF ok]) (auto simp: bucket_ok_def occupancy_def)
  then have "shared_ok (st\<lparr>buckets := AList.update key ?b (buckets st), next_ticket := next_ticket st + 1,
      total_waiters := total_waiters st\<rparr>)"
    using live shared_okD(3) [OF ok] p ticket_increment(1) [OF fresh]
    by (intro shared_ok_update [OF ok]) (auto simp: occupancy_at_Some [OF b] occupancy_def)
  then show "shared_ok st'" by (simp add: st')
  show "ticket = next_ticket st" by (rule ticket)
  show "queue_view key False st st'" "fst (view st key)"
    using live ticket_increment(1) [OF fresh] p by (auto simp: st' view_defs lock_of_update lock_of_Some [OF b])
qed

lemma requeue_returns:
  assumes ok: "shared_ok st" and run: "requeue_locked key e c st = (result, st')" and "\<And>t. result \<noteq> Requeued t"
    and held: "fst (view st key)"
  shows "shared_ok st'" and "same_view st st' \<or> shut_view st st'" and "\<exists>status. result = RequeueEnds status"
proof -
  from held obtain b where b: "map_of (buckets st) key = Some b" and p: "permitted b"
    by (auto simp: view_def lock_of_def split: option.splits)
  let ?st1 = "st\<lparr>buckets := AList.update key (extend_embargo e b) (buckets st)\<rparr>"
  note st1 = embargo_ok [OF ok b, of e]
  have shut: "shared_ok (EnterTerminalLocked TICKET_EXHAUSTED ?st1)"
    "shut_view st (EnterTerminalLocked TICKET_EXHAUSTED ?st1)" if "terminal_status st = ACQUIRED"
    using that st1 enter_terminal_ok [OF st1(1), of TICKET_EXHAUSTED] enter_terminal_view [OF st1(1), of TICKET_EXHAUSTED]
    by (auto simp: view_defs)
  show "shared_ok st'" and "same_view st st' \<or> shut_view st st'" and "\<exists>status. result = RequeueEnds status"
    using run assms(3) ok shut b p
    by (auto simp: requeue_locked_def Let_def same_view_def split: if_splits)
qed

lemma close_view: "shared_ok st \<Longrightarrow> same_view st (Close st) \<or> shut_view st (Close st)"
  using enter_terminal_view [of st SCHEDULER_CLOSED] by (auto simp: Close_def same_view_def)

lemma complete_view:
  "shared_ok st \<Longrightarrow> fst (view st key) \<Longrightarrow> set_view key (False, snd (view st key)) st (Complete key st)"
  using complete_ok(2) [of st key] by (auto simp: view_defs) (auto simp: Complete_def Let_def split: option.split)

lemma extend_view: "shared_ok st \<Longrightarrow> same_view st (snd (ExtendEligibleTime key e st))"
  using extend_ok [of st key e] by (auto simp: view_defs) (auto simp: ExtendEligibleTime_def split: option.split)

end
