(* ===== verification/Rate_Limit_Fifo.thy ===== *)
theory Rate_Limit_Fifo
  imports Rate_Limit_Coordinator
begin

section \<open>Correctness of the rate-limit coordinator\<close>

text \<open>
  What every interleaving of callers of the rate-limit coordinator satisfies: exact accounting within the
  configured bounds, at most one permit per key, first-come first-served grants that respect the
  embargo and the deadline, and waits that end. Each key's view of the shared state refines
  a FIFO lock.
\<close>

subsection \<open>Invariant of the interleaving\<close>

definition system_ok :: "'k coordinator_system \<Rightarrow> bool" where
  "system_ok s \<longleftrightarrow>
     shared_ok (shared s) \<and>
     (\<forall>key. count_list (held s) key = (if fst (view (shared s) key) then 1 else 0)) \<and>
     distinct (map (fst \<circ> snd) (waiting s)) \<and>
     (\<forall>(key, ticket, deadline)\<in>set (waiting s). ticket < next_ticket (shared s) \<and>
        (terminal_status (shared s) = ACQUIRED \<longrightarrow> ticket \<in> set (snd (view (shared s) key)))) \<and>
     (\<forall>key. \<forall>ticket\<in>set (snd (view (shared s) key)). \<exists>deadline. (key, ticket, deadline) \<in> set (waiting s))"

lemma view_sorted: "shared_ok st \<Longrightarrow> sorted_wrt (<) (snd (view st key))"
  by (auto simp: view_def lock_of_def dest: shared_okD(4) simp: bucket_ok_def split: option.split)

lemma view_removed:
  assumes "shared_ok st" and "t \<in> set (remove1 ticket (snd (view st key)))"
  shows "t \<in> set (snd (view st key))" and "t \<noteq> ticket"
proof -
  have "distinct (snd (view st key))" using view_sorted [OF assms(1), of key] by (simp add: strict_sorted_iff)
  with assms(2) show "t \<in> set (snd (view st key))" and "t \<noteq> ticket" by auto
qed

lemma system_shared: "system_ok s \<Longrightarrow> shared_ok (shared s)"
  by (simp add: system_ok_def)

lemma queued_call:
  "system_ok s \<Longrightarrow> t \<in> set (snd (view (shared s) k)) \<Longrightarrow> \<exists>d. (k, t, d) \<in> set (waiting s)"
  unfolding system_ok_def by blast

text \<open>The effects on the per-key views, lifted to the system.\<close>

lemma system_same:
  assumes "system_ok s" and "shared_ok st" and "same_view (shared s) st \<or> shut_view (shared s) st"
  shows "system_ok (s\<lparr>shared := st\<rparr>)"
  using assms unfolding system_ok_def same_view_def shut_view_def by auto

lemma system_queue:
  assumes inv: "system_ok s" and "shared_ok st" and q: "queue_view key p (shared s) st" and "ticket = next_ticket (shared s)"
    and h: "\<And>k. count_list h k = (if fst (((view (shared s))(key := (p, q))) k) then 1 else 0)"
  shows "system_ok (s\<lparr>shared := st, waiting := (key, ticket, deadline) # waiting s, held := h\<rparr>)"
proof -
  have "ticket \<notin> (fst \<circ> snd) ` set (waiting s)" using inv assms(4) by (force simp: system_ok_def)
  moreover have "\<exists>d. (k, t, d) \<in> set ((key, ticket, deadline) # waiting s)" if "t \<in> set (snd (view st k))" for k t
  proof -
    from that q assms(4) have "t \<in> set (snd (view (shared s) k)) \<or> (k, t) = (key, ticket)"
      by (auto simp: queue_view_def split: if_splits)
    with queued_call [OF inv, of t k] show ?thesis by auto
  qed
  ultimately show ?thesis using assms unfolding system_ok_def queue_view_def
    by (fastforce split: if_splits)
qed

lemma remove1_other:
  assumes "distinct (map (fst \<circ> snd) ws)" and "(k, t, d) \<in> set ws"
    and "(k', t', d') \<in> set (remove1 (k, t, d) ws)"
  shows "(k', t', d') \<in> set ws" and "t' \<noteq> t"
proof -
  have d: "distinct ws" using assms(1) by (simp add: distinct_map)
  with assms(3) have "(k', t', d') \<in> set ws" "(k', t', d') \<noteq> (k, t, d)" by auto
  moreover from this assms have "t' \<noteq> t" by (fastforce simp: distinct_map inj_on_def)
  ultimately show "(k', t', d') \<in> set ws" and "t' \<noteq> t" by auto
qed

lemma system_leave:
  assumes inv: "system_ok s" and call: "(key, ticket, deadline) \<in> set (waiting s)" and "shared_ok st"
    and v: "set_view key (p, remove1 ticket (snd (view (shared s) key))) (shared s) st"
    and h: "\<And>k. count_list h k = (if fst (((view (shared s))(key := (p, q))) k) then 1 else 0)"
  shows "system_ok (s\<lparr>shared := st, waiting := remove1 (key, ticket, deadline) (waiting s), held := h\<rparr>)"
proof -
  have d: "distinct (map (fst \<circ> snd) (waiting s))" using inv by (simp add: system_ok_def)
  have "distinct (map (fst \<circ> snd) (remove1 (key, ticket, deadline) (waiting s)))"
    using d by (auto simp: distinct_map inj_on_def dest: set_remove1_subset [THEN subsetD])
  moreover have "t < next_ticket st \<and> (terminal_status st = ACQUIRED \<longrightarrow> t \<in> set (snd (view st k)))"
    if "(k, t, e) \<in> set (remove1 (key, ticket, deadline) (waiting s))" for k t e
    using inv remove1_other [OF d call that] v by (auto simp: system_ok_def set_view_def)
  moreover have "count_list h k = (if fst (view st k) then 1 else 0)" for k
    using h [of k] v by (simp add: set_view_def)
  moreover have "\<exists>d. (k, t, d) \<in> set (remove1 (key, ticket, deadline) (waiting s))" if "t \<in> set (snd (view st k))" for k t
  proof -
    have kept: "t \<in> set (snd (view (shared s) k)) \<and> (k, t) \<noteq> (key, ticket)"
    proof (cases "k = key")
      case True
      with that v have "t \<in> set (remove1 ticket (snd (view (shared s) key)))" by (simp add: set_view_def)
      from view_removed [OF system_shared [OF inv] this] True show ?thesis by simp
    next
      case False
      with that v show ?thesis by (simp add: set_view_def)
    qed
    with queued_call [OF inv] obtain d where "(k, t, d) \<in> set (waiting s)" by blast
    with kept have "(k, t, d) \<in> set (remove1 (key, ticket, deadline) (waiting s))"
      by (subst in_set_remove1) auto
    then show ?thesis by blast
  qed
  ultimately show ?thesis using assms(3) by (auto simp: system_ok_def)
qed

lemma system_drop:
  assumes "system_ok s" and "terminal_status (shared s) \<noteq> ACQUIRED"
  shows "system_ok (s\<lparr>waiting := remove1 c (waiting s)\<rparr>)"
  using assms shared_okD(5) [OF system_shared [OF assms(1)]] unfolding system_ok_def view_def
  by (auto simp: distinct_map inj_on_def dest!: set_remove1_subset [THEN subsetD])

lemma held_permitted: "system_ok s \<Longrightarrow> key \<in> set (held s) \<longleftrightarrow> fst (view (shared s) key)"
  unfolding system_ok_def by (metis count_list_0_iff zero_neq_one)

lemma held_count: "system_ok s \<Longrightarrow> count_list (held s) k = (if fst (view (shared s) k) then 1 else 0)"
  by (simp add: system_ok_def)

lemma count_remove1: "x \<in> set xs \<Longrightarrow> count_list (remove1 x xs) y = (if x = y then count_list xs y - 1 else count_list xs y)"
  by (induction xs) (auto simp: count_list_0_iff)

lemma waiting_ticket:
  "system_ok s \<Longrightarrow> (key, ticket, deadline) \<in> set (waiting s) \<Longrightarrow> terminal_status (shared s) = ACQUIRED \<Longrightarrow>
   ticket \<in> set (snd (view (shared s) key))"
  by (auto simp: system_ok_def)

lemma system_acquire_queues:
  assumes inv: "system_ok s" and run: "acquire_locked key eligible cancelled (shared s) = (Inr ticket, st)"
  shows "system_ok (s\<lparr>shared := st, waiting := (key, ticket, deadline) # waiting s\<rparr>)"
proof -
  from acquire_queues [OF system_shared [OF inv] run]
  have "system_ok (s\<lparr>shared := st, waiting := (key, ticket, deadline) # waiting s, held := held s\<rparr>)"
    by (intro system_queue [OF inv, where q = "[]"]) (auto simp: held_count [OF inv])
  then show ?thesis by simp
qed

lemma system_wait_acquires:
  assumes inv: "system_ok s" and call: "(key, ticket, deadline) \<in> set (waiting s)"
    and run: "wait_turn key ticket deadline cancelled now (shared s) = (Returned ACQUIRED, st)"
  shows "system_ok (s\<lparr>shared := st, waiting := remove1 (key, ticket, deadline) (waiting s), held := key # held s\<rparr>)"
proof -
  note granted = wait_turn_acquires [OF system_shared [OF inv] run]
  have "remove1 ticket (snd (view (shared s) key)) = tl (snd (view (shared s) key))"
    by (subst granted(3)) simp
  moreover have "\<not> fst (view (shared s) key)" by (subst granted(3)) simp
  ultimately show ?thesis
    by (intro system_leave [OF inv call granted(1), where p = True and q = "[]"])
      (use granted(2) in \<open>auto simp: held_count [OF inv]\<close>)
qed

lemma system_wait_ends:
  assumes inv: "system_ok s" and call: "(key, ticket, deadline) \<in> set (waiting s)"
    and run: "wait_turn key ticket deadline cancelled now (shared s) = (Returned status, st)" and "status \<noteq> ACQUIRED"
  shows "system_ok (s\<lparr>shared := st, waiting := remove1 (key, ticket, deadline) (waiting s)\<rparr>)"
proof -
  note ends = wait_turn_ends [OF system_shared [OF inv] run assms(4)]
  have "view (shared s) key \<noteq> (False, [])" if "terminal_status (shared s) = ACQUIRED"
    using waiting_ticket [OF inv call that] by auto
  then consider "st = shared s" "terminal_status (shared s) \<noteq> ACQUIRED"
    | "set_view key (fst (view (shared s) key), remove1 ticket (snd (view (shared s) key))) (shared s) st"
    using ends(2) by blast
  then show ?thesis
  proof cases
    case 1
    then show ?thesis using system_drop [OF inv 1(2)] by simp
  next
    case 2
    have "system_ok (s\<lparr>shared := st, waiting := remove1 (key, ticket, deadline) (waiting s), held := held s\<rparr>)"
      by (rule system_leave [OF inv call ends(1) 2, where q = "[]"]) (simp add: held_count [OF inv])
    then show ?thesis by simp
  qed
qed

lemma system_wait_throws:
  assumes inv: "system_ok s" and call: "(key, ticket, deadline) \<in> set (waiting s)"
  shows "system_ok (s\<lparr>shared := wait_cleanup key ticket (shared s), waiting := remove1 (key, ticket, deadline) (waiting s)\<rparr>)"
proof -
  have "system_ok (s\<lparr>shared := wait_cleanup key ticket (shared s),
      waiting := remove1 (key, ticket, deadline) (waiting s), held := held s\<rparr>)"
    by (rule system_leave [OF inv call wait_cleanup_ok [OF system_shared [OF inv]], where q = "[]"])
      (simp add: held_count [OF inv])
  then show ?thesis by simp
qed

lemma system_requeue_queues:
  assumes inv: "system_ok s" and call: "key \<in> set (held s)"
    and run: "requeue_locked key eligible cancelled (shared s) = (Requeued ticket, st)"
  shows "system_ok (s\<lparr>shared := st, waiting := (key, ticket, deadline) # waiting s, held := remove1 key (held s)\<rparr>)"
  using requeue_queues [OF system_shared [OF inv] run]
  by (intro system_queue [OF inv, where q = "[]"]) (auto simp: held_count [OF inv] count_remove1 [OF call])

lemma system_completes:
  assumes inv: "system_ok s" and call: "key \<in> set (held s)"
  shows "system_ok (s\<lparr>shared := Complete key (shared s), held := remove1 key (held s)\<rparr>)"
proof -
  have p: "fst (view (shared s) key)" using held_permitted [OF inv] call by blast
  from complete_view [OF system_shared [OF inv] p] complete_ok(1) [OF system_shared [OF inv]] p inv show ?thesis
    by (auto simp: system_ok_def set_view_def view_def count_remove1 [OF call])
qed

lemma system_step_ok:
  assumes "system_step s s'" and inv: "system_ok s"
  shows "system_ok s'"
  using assms(1)
proof cases
  case (AcquireEnds key eligible cancelled status st)
  with acquire_ends [OF system_shared [OF inv]] system_same [OF inv] show ?thesis by simp
next
  case (WaitSleeps key ticket deadline cancelled now pause st)
  then show ?thesis using inv wait_turn_sleeps [OF WaitSleeps(3)] by simp
next
  case (RequeueReturns key eligible cancelled result st)
  have "fst (view (shared s) key)" using held_permitted [OF inv] RequeueReturns(2) by blast
  from requeue_returns [OF system_shared [OF inv] RequeueReturns(3) _ this] RequeueReturns(4) system_same [OF inv, of st]
  show ?thesis using RequeueReturns(1) by blast
next
  case (Extends key eligible)
  with extend_ok [OF system_shared [OF inv]] extend_view [OF system_shared [OF inv]] system_same [OF inv]
  show ?thesis by simp
next
  case Closes
  with close_ok [OF system_shared [OF inv]] close_view [OF system_shared [OF inv]] system_same [OF inv]
  show ?thesis by simp
qed (use inv in \<open>auto intro: system_acquire_queues system_wait_acquires system_wait_ends system_wait_throws
      system_requeue_queues system_completes\<close>)

lemma erase_limits: "limits (EraseTicketLocked key b ticket st) = limits st"
  by (simp add: EraseTicketLocked_def Let_def)

lemma terminal_limits: "limits (EnterTerminalLocked status st) = limits st"
  by (simp add: EnterTerminalLocked_def split: prod.split)

lemma operation_limits:
  "limits (snd (acquire_locked key e c st)) = limits st"
  "limits (snd (wait_turn key ticket deadline c now st)) = limits st"
  "limits (snd (requeue_locked key e c st)) = limits st"
  "limits (snd (ExtendEligibleTime key e st)) = limits st"
  "limits (wait_cleanup key ticket st) = limits st"
  "limits (Complete key st) = limits st"
  "limits (Close st) = limits st"
  by (auto simp: acquire_locked_def wait_turn_def requeue_locked_def ExtendEligibleTime_def wait_cleanup_def Complete_def
      Close_def Let_def terminal_limits erase_limits split: option.split)

lemma step_limits: "system_step s s' \<Longrightarrow> limits (shared s') = limits (shared s)"
  by (induction rule: system_step.induct) (simp_all add: operation_limits, (metis operation_limits snd_conv)+)

definition limits_ok :: "coordinator_limits \<Rightarrow> bool" where
  "limits_ok lims \<longleftrightarrow> limit_total_waiters lims \<le> 4096 \<and> waiters_per_key lims \<le> 64 \<and>
     0 < interrupt_slice_milliseconds lims \<and> interrupt_slice_milliseconds lims \<le> 5"

lemma new_coordinator_ok:
  assumes "new_RateLimitCoordinator lims initial_ticket = Inr st"
  shows "system_ok \<lparr>shared = st, waiting = [], held = []\<rparr> \<and> limits st = lims \<and> limits_ok lims"
  using assms by (auto simp: new_RateLimitCoordinator_def system_ok_def shared_ok_def view_def lock_of_def HardLimits_def
      limits_ok_def word_neq_0_conv not_less split: if_splits)

interpretation coordinators: invariant_relation "coordinator_start lims initial_ticket" system_step
  "\<lambda>s. system_ok s \<and> limits (shared s) = lims \<and> limits_ok lims"
proof
  fix s :: "'a coordinator_system"
  assume "coordinator_start lims initial_ticket s"
  then show "system_ok s \<and> limits (shared s) = lims \<and> limits_ok lims"
    using new_coordinator_ok [of lims initial_ticket "shared s"]
    by (cases s) (simp add: coordinator_start_def)
next
  fix s s' :: "'a coordinator_system"
  assume "system_ok s \<and> limits (shared s) = lims \<and> limits_ok lims" and "system_step s s'"
  then show "system_ok s' \<and> limits (shared s') = lims \<and> limits_ok lims"
    by (auto simp: system_step_ok step_limits)
qed

lemma reachable_ok: "reachable lims initial_ticket s \<Longrightarrow> system_ok s"
  using coordinators.inv_reaches by (auto simp: reachable_def)

lemma reachable_limits: "reachable lims initial_ticket s \<Longrightarrow> limits (shared s) = lims \<and> limits_ok lims"
  using coordinators.inv_reaches by (auto simp: reachable_def)

lemma reachable_step: "reachable lims initial_ticket s \<Longrightarrow> system_step s s' \<Longrightarrow> reachable lims initial_ticket s'"
  unfolding reachable_def by (rule reaches.next_state)

subsection \<open>Refinement of a FIFO lock\<close>

text \<open>
  The contract of one key: a lock with a queue of waiters, entered at the back with a ticket above all
  queued ones and granted at the front only while it is free.
\<close>

inductive lock_step :: "bool \<times> uint64 list \<Rightarrow> bool \<times> uint64 list \<Rightarrow> bool" where
  Arrive: "(\<forall>x\<in>set q. x < t) \<Longrightarrow> lock_step (p, q) (p, q @ [t])"
| Grant: "lock_step (False, t # q) (True, q)"
| Leave: "t \<in> set q \<Longrightarrow> lock_step (p, q) (p, remove1 t q)"
| Free: "lock_step (True, q) (False, q)"
| Yield: "(\<forall>x\<in>set q. x < t) \<Longrightarrow> lock_step (True, q) (False, q @ [t])"
| Shut: "lock_step (p, q) (p, [])"

lemma queue_below_next: "shared_ok st \<Longrightarrow> t \<in> set (snd (view st key)) \<Longrightarrow> t < next_ticket st"
  by (auto simp: view_def lock_of_def dest: shared_okD(4) simp: bucket_ok_def split: option.splits)

lemma refines_unchanged:
  "same_view st st' \<or> shut_view st st' \<Longrightarrow> view st' key = view st key \<or> lock_step (view st key) (view st' key)"
  by (cases "view st key") (auto simp: same_view_def shut_view_def intro: lock_step.Shut)

lemma refines_queue:
  assumes "shared_ok st" and "queue_view key p st st'" and "p = fst (view st key) \<or> fst (view st key) \<and> \<not> p"
  shows "view st' k = view st k \<or> lock_step (view st k) (view st' k)"
proof (cases "k = key")
  case True
  obtain p0 q where v: "view st key = (p0, q)" by fastforce
  have "\<forall>x\<in>set q. x < next_ticket st" using queue_below_next [OF assms(1), of _ key] v by simp
  then show ?thesis using True assms(2,3) v lock_step.Arrive lock_step.Yield by (auto simp: queue_view_def)
next
  case False
  with assms(2) show ?thesis by (simp add: queue_view_def)
qed

lemma refines_leave:
  assumes "set_view key (fst (view st key), remove1 t (snd (view st key))) st st'"
  shows "view st' k = view st k \<or> lock_step (view st k) (view st' k)"
proof (cases "k = key \<and> t \<in> set (snd (view st key))")
  case True
  obtain p q where "view st key = (p, q)" by fastforce
  with True assms show ?thesis by (auto simp: set_view_def intro: lock_step.Leave)
next
  case False
  with assms show ?thesis by (auto simp: set_view_def remove1_idem)
qed

lemma step_refines:
  assumes "system_step s s'" and inv: "system_ok s"
  shows "view (shared s') k = view (shared s) k \<or> lock_step (view (shared s) k) (view (shared s') k)"
  using assms(1)
proof cases
  case (AcquireEnds key eligible cancelled status st)
  from refines_unchanged [OF acquire_ends(2) [OF system_shared [OF inv] AcquireEnds(2)]]
  show ?thesis by (simp add: AcquireEnds(1))
next
  case (AcquireQueues key eligible cancelled ticket st deadline)
  from refines_queue [OF system_shared [OF inv] acquire_queues(3) [OF system_shared [OF inv] AcquireQueues(2)]]
  show ?thesis by (simp add: AcquireQueues(1))
next
  case (WaitSleeps key ticket deadline cancelled now pause st)
  then show ?thesis using wait_turn_sleeps [OF WaitSleeps(3)] by simp
next
  case (WaitAcquires key ticket deadline cancelled now st)
  note granted = wait_turn_acquires [OF system_shared [OF inv] WaitAcquires(3)]
  show ?thesis
  proof (cases "k = key")
    case True
    have "lock_step (view (shared s) key) (True, tl (snd (view (shared s) key)))"
      by (subst granted(3)) (rule lock_step.Grant)
    with granted(2) True show ?thesis by (simp add: WaitAcquires(1) set_view_def)
  qed (use granted(2) in \<open>simp add: WaitAcquires(1) set_view_def\<close>)
next
  case (WaitEnds key ticket deadline cancelled now status st)
  from wait_turn_ends(2) [OF system_shared [OF inv] WaitEnds(3,4)] refines_leave [of key "shared s" ticket st k]
  show ?thesis by (auto simp: WaitEnds(1))
next
  case (WaitThrows key ticket deadline)
  from refines_leave [OF wait_cleanup_ok(2) [OF system_shared [OF inv]]] show ?thesis by (simp add: WaitThrows(1))
next
  case (RequeueReturns key eligible cancelled result st)
  have "fst (view (shared s) key)" using held_permitted [OF inv] RequeueReturns(2) by blast
  from requeue_returns(2) [OF system_shared [OF inv] RequeueReturns(3) _ this] RequeueReturns(4)
  show ?thesis by (auto simp: RequeueReturns(1) intro!: refines_unchanged)
next
  case (RequeueQueues key eligible cancelled ticket st deadline)
  note q = requeue_queues [OF system_shared [OF inv] RequeueQueues(3)]
  from refines_queue [OF system_shared [OF inv] q(3)] q(4) show ?thesis by (simp add: RequeueQueues(1))
next
  case (Extends key eligible)
  with extend_view [OF system_shared [OF inv]] show ?thesis by (auto intro!: refines_unchanged)
next
  case (Completes key)
  have p: "fst (view (shared s) key)" using held_permitted [OF inv] Completes(2) by blast
  obtain q where "view (shared s) key = (True, q)" using p by (cases "view (shared s) key") simp
  with complete_view [OF system_shared [OF inv] p] show ?thesis
    by (auto simp: Completes(1) set_view_def intro: lock_step.Free)
next
  case Closes
  with close_view [OF system_shared [OF inv]] show ?thesis by (auto intro!: refines_unchanged)
qed

text \<open>
  C4. The coordinator refines the FIFO lock: in every reachable interleaving of any number of callers,
  each step of the system either leaves the permit flag and the ticket queue of a key as they are
  or is one step of that key's lock. So permits are granted to the front of the queue only and only
  while no permit is out, arrivals and requeues go to the back, and keys do not disturb each other.
\<close>

theorem coordinator_refines_fifo_lock:
  assumes "reachable lims initial_ticket s" and "system_step s s'"
  shows "\<forall>key. view (shared s') key = view (shared s) key \<or> lock_step (view (shared s) key) (view (shared s') key)"
  using step_refines [OF assms(2) reachable_ok [OF assms(1)]] by blast

lemma initial_system:
  "reachable HardLimits 1 \<lparr>shared = \<lparr>terminal_status = ACQUIRED, next_ticket = 1, total_waiters = 0,
     limits = HardLimits, buckets = []\<rparr>, waiting = [], held = []\<rparr>"
  by (simp add: reachable_def reaches.init coordinator_start_def new_RateLimitCoordinator_def HardLimits_def)

text \<open>Two callers for the key 0 have queued and the first holds the permit.\<close>

definition contended_system :: "nat coordinator_system" where
  "contended_system =
     \<lparr>shared = \<lparr>terminal_status = ACQUIRED, next_ticket = 3, total_waiters = 2, limits = HardLimits,
        buckets = [(0, \<lparr>eligible_steady_milliseconds = 5, permitted = True, tickets = [2]\<rparr>)]\<rparr>,
      waiting = [(0, 2, 90)], held = [0]\<rparr>"

lemma contended_reachable: "reachable HardLimits 1 contended_system"
proof -
  let ?fresh = "\<lparr>terminal_status = ACQUIRED, next_ticket = 1, total_waiters = 0, limits = HardLimits, buckets = []\<rparr> :: nat shared_state"
  let ?b = "\<lambda>p ts. \<lparr>eligible_steady_milliseconds = 5, permitted = p, tickets = ts\<rparr>"
  let ?st = "\<lambda>n w p ts. ?fresh\<lparr>next_ticket := n, total_waiters := w, buckets := [(0, ?b p ts)]\<rparr>"
  have "acquire_locked 0 5 False ?fresh = (Inr 1, ?st 2 1 False [1])" by code_simp
  from reachable_step [OF initial_system system_step.AcquireQueues, of 0 5 False 1 _ 80] this
  have "reachable HardLimits 1 \<lparr>shared = ?st 2 1 False [1], waiting = [(0, 1, 80)], held = []\<rparr>" by simp
  moreover have "acquire_locked 0 5 False (?st 2 1 False [1]) = (Inr 2, ?st 3 2 False [1, 2])" by code_simp
  ultimately have "reachable HardLimits 1 \<lparr>shared = ?st 3 2 False [1, 2], waiting = [(0, 2, 90), (0, 1, 80)], held = []\<rparr>"
    using reachable_step [OF _ system_step.AcquireQueues, of HardLimits 1 _ 0 5 False 2 _ 90] by fastforce
  moreover have "wait_turn 0 1 80 False 10 (?st 3 2 False [1, 2]) = (Returned ACQUIRED, ?st 3 2 True [2])" by code_simp
  ultimately show ?thesis
    using reachable_step [OF _ system_step.WaitAcquires, of HardLimits 1 _ 0 1 80 False 10] unfolding contended_system_def by fastforce
qed

lemma contended_closes:
  "system_step contended_system (contended_system\<lparr>shared := Close (shared contended_system)\<rparr>)"
  by (rule system_step.Closes)

theorem coordinator_refines_fifo_lock_witness:
  "view (shared contended_system) 0 = (True, [2]) \<and> (\<exists>s'. system_step contended_system s' \<and>
     (view (shared s') 0 = view (shared contended_system) 0 \<or>
      lock_step (view (shared contended_system) 0) (view (shared s') 0)))"
proof -
  have "view (shared contended_system) 0 = (True, [2])" by (simp add: contended_system_def view_def lock_of_def)
  then show ?thesis
    using coordinator_refines_fifo_lock [OF contended_reachable contended_closes] contended_closes by blast
qed

lemma bucket_known: "shared_ok st \<Longrightarrow> (key, b) \<in> set (buckets st) \<Longrightarrow> map_of (buckets st) key = Some b"
  by (simp add: shared_okD(1))

text \<open>
  C21. The accounting is exact and bounded in every reachable state: \<open>total_waiters\<close> never wraps and is
  the number of queued tickets and outstanding permits, at most the configured total (at most 4096)
  and per key at most the configured bound (at most 64); a key is present in the table only while it has a
  permit or a waiter, so the table never grows beyond the callers it serves; once the
  coordinator is terminal no ticket is queued.
\<close>

theorem coordinator_bounded:
  assumes "reachable lims initial_ticket s"
  shows "unat (total_waiters (shared s)) = (\<Sum>kb\<leftarrow>buckets (shared s). length (tickets (snd kb)) + (if permitted (snd kb) then 1 else 0)) \<and>
    total_waiters (shared s) \<le> limit_total_waiters lims \<and> limit_total_waiters lims \<le> 4096 \<and>
    (\<forall>(key, b)\<in>set (buckets (shared s)). (permitted b \<or> tickets b \<noteq> []) \<and>
       length (tickets b) + (if permitted b then 1 else 0) \<le> unat (waiters_per_key lims)) \<and> waiters_per_key lims \<le> 64 \<and>
    (IsClosed (shared s) \<longrightarrow> (\<forall>(key, b)\<in>set (buckets (shared s)). tickets b = []))"
proof -
  note ok = system_shared [OF reachable_ok [OF assms]]
  have b: "(permitted b \<or> tickets b \<noteq> []) \<and> length (tickets b) + (if permitted b then 1 else 0) \<le> unat (waiters_per_key lims)"
    and closed: "IsClosed (shared s) \<Longrightarrow> tickets b = []" if "(key, b) \<in> set (buckets (shared s))" for key b
    using shared_okD(4) [OF ok bucket_known [OF ok that]] shared_okD(5) [OF ok, of key] reachable_limits [OF assms]
      lock_of_Some [OF bucket_known [OF ok that]]
    by (auto simp: bucket_ok_def occupancy_def IsClosed_def)
  show ?thesis
    using shared_okD(2,3) [OF ok] reachable_limits [OF assms, unfolded limits_ok_def] b closed
    unfolding occupied_def occupancy_def by blast
qed

theorem coordinator_bounded_witness:
  "total_waiters (shared contended_system) = 2 \<and> total_waiters (shared contended_system) \<le> limit_total_waiters HardLimits"
  using coordinator_bounded [OF contended_reachable] by (simp add: contended_system_def)

text \<open>
  Mutual exclusion and authority: in every reachable state a key has at most one permit out, and exactly
  when its flag is set; every ticket still queued belongs to a caller that is waiting for it (no ticket is orphaned
  and blocks the queue); \<open>Requeue\<close> with a valid permit never finds its authority lost; and
  a waiting caller is told the coordinator is closed only when it is.
\<close>

theorem permits_are_exclusive:
  assumes "reachable lims initial_ticket s"
  shows "count_list (held s) key \<le> 1 \<and> (key \<in> set (held s) \<longleftrightarrow> fst (view (shared s) key)) \<and>
    (\<forall>ticket\<in>set (snd (view (shared s) key)). \<exists>deadline. (key, ticket, deadline) \<in> set (waiting s)) \<and>
    (key \<in> set (held s) \<longrightarrow> (\<forall>e. fst (requeue_locked key eligible cancelled (shared s)) \<noteq> RequeueThrows e)) \<and>
    ((key, ticket, deadline) \<in> set (waiting s) \<longrightarrow>
      fst (wait_turn key ticket deadline cancelled now (shared s)) = Returned SCHEDULER_CLOSED \<longrightarrow>
      terminal_status (shared s) = SCHEDULER_CLOSED)"
proof (intro conjI impI)
  note inv = reachable_ok [OF assms]
  show "count_list (held s) key \<le> 1" using held_count [OF inv, of key] by simp
  show "key \<in> set (held s) \<longleftrightarrow> fst (view (shared s) key)" by (rule held_permitted [OF inv])
  show "\<forall>ticket\<in>set (snd (view (shared s) key)). \<exists>deadline. (key, ticket, deadline) \<in> set (waiting s)"
    using queued_call [OF inv] by blast
  {
    assume "key \<in> set (held s)"
    then have "fst (view (shared s) key)" using held_permitted [OF inv] by blast
    from requeue_returns(3) [OF system_shared [OF inv] _ _ this]
    show "\<forall>e. fst (requeue_locked key eligible cancelled (shared s)) \<noteq> RequeueThrows e"
      by (metis prod.collapse requeue_result.distinct(1,3))
  }
  assume call: "(key, ticket, deadline) \<in> set (waiting s)"
    and closed: "fst (wait_turn key ticket deadline cancelled now (shared s)) = Returned SCHEDULER_CLOSED"
  obtain st where run: "wait_turn key ticket deadline cancelled now (shared s) = (Returned SCHEDULER_CLOSED, st)"
    using closed by (metis prod.collapse)
  have "view (shared s) key \<noteq> (False, [])" if "terminal_status (shared s) = ACQUIRED"
    using waiting_ticket [OF inv call that] by auto
  with wait_turn_ends(2) [OF system_shared [OF inv] run] show "terminal_status (shared s) = SCHEDULER_CLOSED" by auto
qed

theorem permits_are_exclusive_witness:
  "0 \<in> set (held contended_system) \<and> count_list (held contended_system) 0 \<le> 1 \<and>
   (\<forall>e. fst (requeue_locked 0 7 False (shared contended_system)) \<noteq> RequeueThrows e)"
proof -
  have "0 \<in> set (held contended_system)" by (simp add: contended_system_def)
  with permits_are_exclusive [OF contended_reachable, of 0 7 False 2 90 0] show ?thesis by blast
qed

text \<open>
  Grants follow the order of arrival and the embargo: a caller is given the permit only if its ticket is smaller
  than that of every other caller waiting for the key, no permit of the key is out, the clock is not
  before the key's eligible time and not after the caller's deadline, and it was not cancelled.
\<close>

theorem grants_in_ticket_order:
  assumes "reachable lims initial_ticket s" and "(key, ticket, deadline) \<in> set (waiting s)"
    and "fst (wait_turn key ticket deadline cancelled now (shared s)) = Returned ACQUIRED"
  shows "(\<forall>(key', ticket', deadline')\<in>set (waiting s). key' = key \<longrightarrow> ticket' = ticket \<or> ticket < ticket') \<and>
    key \<notin> set (held s) \<and> now \<le> deadline \<and> \<not> cancelled \<and>
    (\<exists>b. map_of (buckets (shared s)) key = Some b \<and> eligible_steady_milliseconds b \<le> now)"
proof -
  note inv = reachable_ok [OF assms(1)]
  obtain st where run: "wait_turn key ticket deadline cancelled now (shared s) = (Returned ACQUIRED, st)"
    using assms(3) by (metis prod.collapse)
  note granted = wait_turn_acquires [OF system_shared [OF inv] run]
  define rest where "rest = tl (snd (view (shared s) key))"
  have v: "view (shared s) key = (False, ticket # rest)" unfolding rest_def by (rule granted(3))
  have "\<forall>t\<in>set rest. ticket < t" using view_sorted [OF system_shared [OF inv], of key] by (simp add: v)
  moreover have "ticket' \<in> set (ticket # rest)" if "(key, ticket', deadline') \<in> set (waiting s)" for ticket' deadline'
    using waiting_ticket [OF inv that] granted(4) by (simp add: v)
  ultimately have "ticket' = ticket \<or> ticket < ticket'" if "(key, ticket', deadline') \<in> set (waiting s)" for ticket' deadline'
    using that by fastforce
  then show ?thesis using granted(4) held_permitted [OF inv, of key] v by auto
qed

theorem grants_in_ticket_order_witness:
  "\<exists>s :: nat coordinator_system. (0, 2, 90) \<in> set (waiting s) \<and>
     fst (wait_turn 0 2 90 False 12 (shared s)) = Returned ACQUIRED \<and> 0 \<notin> set (held s)"
proof -
  let ?s = "contended_system\<lparr>shared := Complete 0 (shared contended_system), held := remove1 0 (held contended_system)\<rparr>"
  have r: "reachable HardLimits 1 ?s"
    by (rule reachable_step [OF contended_reachable system_step.Completes]) (simp add: contended_system_def)
  have w: "(0, 2, 90) \<in> set (waiting ?s)" by (simp add: contended_system_def)
  have g: "fst (wait_turn 0 2 90 False 12 (shared ?s)) = Returned ACQUIRED"
    by (simp add: contended_system_def Complete_def wait_turn_def)
  from grants_in_ticket_order [OF r w g] have "0 \<notin> set (held ?s)" by (elim conjE)
  with w g have "(0, 2, 90) \<in> set (waiting ?s) \<and> fst (wait_turn 0 2 90 False 12 (shared ?s)) = Returned ACQUIRED \<and>
      0 \<notin> set (held ?s)" by (intro conjI)
  then show ?thesis by (rule exI [of _ ?s])
qed

subsection \<open>Waiting ends\<close>

text \<open>
  A waiting caller sees, each time it holds the mutex, its cancellation flag, a clock reading and whatever shared
  state the other callers left. \<open>wait_run\<close> is the loop of \<open>WaitForTicket\<close> over such turns.
\<close>

fun wait_run :: "'k \<Rightarrow> uint64 \<Rightarrow> int \<Rightarrow> (bool \<times> int \<times> 'k shared_state) list \<Rightarrow> RateLimitAcquireStatus option" where
  "wait_run key ticket deadline [] = None"
| "wait_run key ticket deadline ((cancelled, now, st) # turns) =
     (case fst (wait_turn key ticket deadline cancelled now st) of
        Returned status \<Rightarrow> Some status
      | Sleeping _ \<Rightarrow> wait_run key ticket deadline turns)"

lemma turn_at_deadline: "deadline \<le> now \<Longrightarrow> \<exists>status. fst (wait_turn key ticket deadline c now st) = Returned status"
  by (auto simp: wait_turn_def Let_def split: option.split)

lemma wait_run_at_deadline:
  "(c, now, st) \<in> set turns \<Longrightarrow> deadline \<le> now \<Longrightarrow> \<exists>status. wait_run key ticket deadline turns = Some status"
proof (induction turns)
  case (Cons turn turns)
  obtain c' now' st' where turn: "turn = (c', now', st')" by (cases turn)
  show ?case
  proof (cases "fst (wait_turn key ticket deadline c' now' st')")
    case (Sleeping pause)
    then have "\<not> deadline \<le> now'" using turn_at_deadline [of deadline now' key ticket c' st'] by auto
    with Cons turn Sleeping show ?thesis by auto
  qed (simp add: turn)
qed simp

lemma increasing_reaches:
  assumes "sorted_wrt (<) (xs :: int list)" and "xs \<noteq> []"
  shows "hd xs + int (length xs) - 1 \<le> last xs"
  using assms
proof (induction xs)
  case (Cons x xs)
  then show ?case by (cases xs) auto
qed simp

text \<open>
  C22. Waiting terminates: if the steady clock advances between turns, whatever the other callers do to the shared
  state, a wait returns a status within \<open>deadline - now + 1\<close> turns of its first reading.
\<close>

theorem wait_terminates:
  assumes "sorted_wrt (<) (map (fst \<circ> snd) turns)" and "turns \<noteq> []"
    and "deadline - fst (snd (hd turns)) < int (length turns)"
  shows "\<exists>status. wait_run key ticket deadline turns = Some status"
proof -
  let ?nows = "map (fst \<circ> snd) turns"
  have "hd ?nows + int (length ?nows) - 1 \<le> last ?nows" using assms(1,2) by (intro increasing_reaches) auto
  with assms(2,3) have "deadline \<le> fst (snd (last turns))" by (simp add: hd_map last_map)
  moreover have "last turns \<in> set turns" using assms(2) by simp
  ultimately show ?thesis by (cases "last turns") (auto intro: wait_run_at_deadline)
qed

theorem wait_terminates_witness:
  "\<exists>status. wait_run (0::nat) 2 12 [(False, 10, shared contended_system), (False, 11, shared contended_system),
     (False, 12, shared contended_system)] = Some status"
  by (rule wait_terminates) simp_all

lemma wait_slice_bounds:
  assumes "now < target" and "target \<le> int64_max" and "0 < maximum_slice" and "maximum_slice \<le> 5"
  shows "1 \<le> uint (WaitSlice now target maximum_slice) \<and> WaitSlice now target maximum_slice \<le> maximum_slice \<and>
    now + uint (WaitSlice now target maximum_slice) \<le> target"
  using slice_bounds [OF assms] by (simp only: WaitSlice_def Let_def)

lemma wait_turn_pause:
  assumes "fst (wait_turn key ticket deadline c now st) = Sleeping pause"
  shows "\<exists>target. now < target \<and> target \<le> deadline \<and>
    pause = WaitSlice now target (interrupt_slice_milliseconds (limits st))"
proof (cases "map_of (buckets st) key")
  case (Some b)
  let ?target = "if eligible_steady_milliseconds b > now then min (eligible_steady_milliseconds b) deadline else deadline"
  from assms Some have "\<not> deadline \<le> now"
    and "pause = WaitSlice now ?target (interrupt_slice_milliseconds (limits st))"
    by (auto simp: wait_turn_def Let_def split: if_splits)
  then show ?thesis by (intro exI [of _ ?target]) auto
qed (use assms in \<open>simp add: wait_turn_def split: if_splits\<close>)

text \<open>
  Every sleep of a waiting caller lasts at least a millisecond, at most the configured interruption slice, and never
  past the caller's deadline, for all clock values including those next to the ends of the 64-bit range.
\<close>

theorem sleep_within_deadline:
  assumes "reachable lims initial_ticket s" and "deadline \<le> int64_max"
    and "fst (wait_turn key ticket deadline cancelled now (shared s)) = Sleeping pause"
  shows "1 \<le> uint pause \<and> pause \<le> interrupt_slice_milliseconds lims \<and> now + uint pause \<le> deadline"
proof -
  have lims: "limits (shared s) = lims" "0 < interrupt_slice_milliseconds lims" "interrupt_slice_milliseconds lims \<le> 5"
    using reachable_limits [OF assms(1)] by (simp_all add: limits_ok_def)
  from wait_turn_pause [OF assms(3)] lims obtain target where "now < target" "target \<le> deadline"
    and "pause = WaitSlice now target (interrupt_slice_milliseconds lims)" by auto
  with wait_slice_bounds [of now target "interrupt_slice_milliseconds lims"] lims assms(2) show ?thesis by auto
qed

theorem sleep_within_deadline_witness:
  "\<exists>pause. fst (wait_turn 0 2 90 False 88 (shared contended_system)) = Sleeping pause \<and> 88 + uint pause \<le> 90"
proof -
  obtain pause where run: "fst (wait_turn 0 2 90 False 88 (shared contended_system)) = Sleeping pause"
    by (simp add: contended_system_def wait_turn_def)
  with sleep_within_deadline [OF contended_reachable _ run] show ?thesis by (auto simp: int64_max_def)
qed

end
