(* ===== verification/Quota_Bucket_Key.thy ===== *)
theory Quota_Bucket_Key
  imports Cuac_Prelude
begin

section \<open>Quota bucket keys\<close>

text \<open>
  The keys of the rate-limit table (\<open>src/runtime/resilience/rate_limit_coordinator.cpp\<close>): destination, operation,
  principal and remote bucket, with the equality and the hash the table uses. An opaque principal
  identity is a pointer, known only through its \<open>TypeTag\<close>, \<open>Equals\<close> and \<open>Hash\<close>; the locale
  \<open>opaque_identity\<close> states the laws the keys rely on, and the credential authority identity of the executor
  (\<open>src/runtime/executor/http_scan_executor.cpp\<close>) satisfies them. \<open>std::hash\<close> is a parameter. The theorem shows
  that table equality is equality of the structural key, whatever the hashes collide on, and that
  equal keys hash alike, so the table can be read as a finite map on structural keys.
\<close>

datatype 'id RateLimitPrincipalToken = AnonymousToken | SharedToken string | OpaqueToken 'id

record destination_key =
  scheme :: string
  host :: string
  explicit_port :: uint16

record operation_key =
  connector_id :: string
  package_major :: uint64
  operation_family :: string

record 'id quota_bucket_key =
  destination :: destination_key
  operation :: operation_key
  principal :: "'id RateLimitPrincipalToken"
  has_remote_bucket :: bool
  remote_bucket :: string

definition Anonymous :: "'id RateLimitPrincipalToken" where
  "Anonymous = AnonymousToken"

definition Shared :: "string \<Rightarrow> cpp_exception + 'id RateLimitPrincipalToken" where
  "Shared admitted_tag =
     (if admitted_tag = [] then Inl (invalid_argument ''shared rate-limit principal tag must not be empty'')
      else Inr (SharedToken admitted_tag))"

text \<open>A null pointer, or an identity without a type tag, is refused.\<close>

definition Opaque :: "('id \<Rightarrow> 'tag option) \<Rightarrow> 'id option \<Rightarrow> cpp_exception + 'id RateLimitPrincipalToken" where
  "Opaque TypeTag identity =
     (case identity of
        None \<Rightarrow> Inl (invalid_argument ''opaque rate-limit principal identity must be complete'')
      | Some i \<Rightarrow> if TypeTag i = None
                 then Inl (invalid_argument ''opaque rate-limit principal identity must be complete'')
                 else Inr (OpaqueToken i))"

fun principal_equal ::
  "('id \<Rightarrow> 'tag) \<Rightarrow> ('id \<Rightarrow> 'id \<Rightarrow> bool) \<Rightarrow> 'id RateLimitPrincipalToken \<Rightarrow> 'id RateLimitPrincipalToken \<Rightarrow> bool" where
  "principal_equal TypeTag Equals AnonymousToken AnonymousToken \<longleftrightarrow> True"
| "principal_equal TypeTag Equals (SharedToken l) (SharedToken r) \<longleftrightarrow> l = r"
| "principal_equal TypeTag Equals (OpaqueToken l) (OpaqueToken r) \<longleftrightarrow> l = r \<or> TypeTag l = TypeTag r \<and> Equals l r"
| "principal_equal TypeTag Equals _ _ \<longleftrightarrow> False"

definition new_QuotaBucketKey ::
  "destination_key \<Rightarrow> operation_key \<Rightarrow> 'id RateLimitPrincipalToken \<Rightarrow> bool \<Rightarrow> string \<Rightarrow> cpp_exception + 'id quota_bucket_key" where
  "new_QuotaBucketKey dest oper princ has_remote remote =
     (if \<not> has_remote \<and> remote \<noteq> []
      then Inl (invalid_argument ''absent remote rate-limit bucket must not retain a value'')
      else Inr \<lparr>destination = dest, operation = oper, principal = princ, has_remote_bucket = has_remote,
                remote_bucket = remote\<rparr>)"

definition key_equal ::
  "('id \<Rightarrow> 'tag) \<Rightarrow> ('id \<Rightarrow> 'id \<Rightarrow> bool) \<Rightarrow> 'id quota_bucket_key \<Rightarrow> 'id quota_bucket_key \<Rightarrow> bool" where
  "key_equal TypeTag Equals l r \<longleftrightarrow>
     scheme (destination l) = scheme (destination r) \<and> host (destination l) = host (destination r) \<and>
     explicit_port (destination l) = explicit_port (destination r) \<and>
     connector_id (operation l) = connector_id (operation r) \<and>
     package_major (operation l) = package_major (operation r) \<and>
     operation_family (operation l) = operation_family (operation r) \<and>
     principal_equal TypeTag Equals (principal l) (principal r) \<and>
     has_remote_bucket l = has_remote_bucket r \<and>
     (\<not> has_remote_bucket l \<or> remote_bucket l = remote_bucket r)"

definition HashCombine :: "uint64 \<Rightarrow> uint64 \<Rightarrow> uint64" where
  "HashCombine seed v = xor seed (v + 0x9e3779b9 + push_bit 6 seed + drop_bit 2 seed)"

record std_hash =
  hash_string :: "string \<Rightarrow> uint64"
  hash_uint16 :: "uint16 \<Rightarrow> uint64"
  hash_uint64 :: "uint64 \<Rightarrow> uint64"
  hash_unsigned :: "uint32 \<Rightarrow> uint64"
  hash_bool :: "bool \<Rightarrow> uint64"

fun principal_hash :: "std_hash \<Rightarrow> ('id \<Rightarrow> uint64) \<Rightarrow> 'id RateLimitPrincipalToken \<Rightarrow> uint64" where
  "principal_hash h Hash AnonymousToken = hash_unsigned h 0"
| "principal_hash h Hash (SharedToken tag) = HashCombine (hash_unsigned h 1) (hash_string h tag)"
| "principal_hash h Hash (OpaqueToken i) = HashCombine (hash_unsigned h 2) (Hash i)"

definition key_hash :: "std_hash \<Rightarrow> ('id \<Rightarrow> uint64) \<Rightarrow> 'id quota_bucket_key \<Rightarrow> uint64" where
  "key_hash h Hash key =
     (let r = hash_string h (scheme (destination key));
          r = HashCombine r (hash_string h (host (destination key)));
          r = HashCombine r (hash_uint16 h (explicit_port (destination key)));
          r = HashCombine r (hash_string h (connector_id (operation key)));
          r = HashCombine r (hash_uint64 h (package_major (operation key)));
          r = HashCombine r (hash_string h (operation_family (operation key)));
          r = HashCombine r (principal_hash h Hash (principal key));
          r = HashCombine r (hash_bool h (has_remote_bucket key))
      in if has_remote_bucket key then HashCombine r (hash_string h (remote_bucket key)) else r)"

subsection \<open>The contract of an identity\<close>

locale opaque_identity =
  fixes TypeTag :: "'id \<Rightarrow> 'tag" and Equals :: "'id \<Rightarrow> 'id \<Rightarrow> bool" and Hash :: "'id \<Rightarrow> uint64"
    and meaning :: "'id \<Rightarrow> 'v"
  assumes equals_meaning: "TypeTag l = TypeTag r \<Longrightarrow> Equals l r \<longleftrightarrow> meaning l = meaning r"
    and meaning_tag: "meaning l = meaning r \<Longrightarrow> TypeTag l = TypeTag r"
    and hash_meaning: "meaning l = meaning r \<Longrightarrow> Hash l = Hash r"
begin

lemma same_identity: "l = r \<or> TypeTag l = TypeTag r \<and> Equals l r \<longleftrightarrow> meaning l = meaning r"
  using equals_meaning [of l r] meaning_tag [of l r] by auto

lemma principal_equal_iff:
  "principal_equal TypeTag Equals l r \<longleftrightarrow> map_RateLimitPrincipalToken meaning l = map_RateLimitPrincipalToken meaning r"
  by (cases l; cases r) (simp_all add: same_identity)

lemma principal_hash_cong:
  "map_RateLimitPrincipalToken meaning l = map_RateLimitPrincipalToken meaning r \<Longrightarrow>
   principal_hash h Hash l = principal_hash h Hash r"
  by (cases l; cases r) (auto dest: hash_meaning)

end

subsection \<open>Credential authorities\<close>

text \<open>An authority is sixteen bytes; the wrapper object has an address of its own.\<close>

definition HashIdentity :: "8 word list \<Rightarrow> uint64" where
  "HashIdentity bytes = foldl (\<lambda>result b. xor result (ucast b) * 1099511628211) 1469598103934665603 bytes"

record credential_identity =
  object_address :: nat
  authority_bytes :: "8 word list"

definition CredentialTypeTag :: "credential_identity \<Rightarrow> unit" where
  "CredentialTypeTag i = ()"

definition CredentialEquals :: "credential_identity \<Rightarrow> credential_identity \<Rightarrow> bool" where
  "CredentialEquals i other \<longleftrightarrow> CredentialTypeTag other = CredentialTypeTag i \<and> authority_bytes i = authority_bytes other"

definition CredentialHash :: "credential_identity \<Rightarrow> uint64" where
  "CredentialHash i = HashIdentity (authority_bytes i)"

interpretation credential: opaque_identity CredentialTypeTag CredentialEquals CredentialHash authority_bytes
  by unfold_locales (simp_all add: CredentialTypeTag_def CredentialEquals_def CredentialHash_def)

text \<open>The structural key: authorities by their bytes, and no remote bucket value when there is none.\<close>

definition structural_key ::
  "credential_identity quota_bucket_key \<Rightarrow>
   destination_key \<times> operation_key \<times> 8 word list RateLimitPrincipalToken \<times> string option" where
  "structural_key key =
     (destination key, operation key, map_RateLimitPrincipalToken authority_bytes (principal key),
      if has_remote_bucket key then Some (remote_bucket key) else None)"

lemma destination_eq:
  "scheme (d :: destination_key) = scheme d' \<and> host d = host d' \<and> explicit_port d = explicit_port d' \<longleftrightarrow> d = d'"
  by (cases d; cases d') simp

lemma operation_eq:
  "connector_id (p :: operation_key) = connector_id p' \<and> package_major p = package_major p' \<and>
   operation_family p = operation_family p' \<longleftrightarrow> p = p'"
  by (cases p; cases p') simp

lemma key_equal_structural: "key_equal CredentialTypeTag CredentialEquals l r \<longleftrightarrow> structural_key l = structural_key r"
  unfolding key_equal_def structural_key_def credential.principal_equal_iff
  by (auto simp: destination_eq [symmetric] operation_eq [symmetric])

text \<open>
  Keys compare equal exactly when they are the same structural key: scheme, host, port, connector, package major,
  operation family, principal (kind, shared tag or the authority's bytes, never the address of its wrapper) and
  remote bucket. Hence equality is an equivalence, equal keys have equal hashes for every
  \<open>std::hash\<close>, and two different principals never share a bucket even when their hashes collide.
\<close>

theorem quota_keys_are_structural:
  "(key_equal CredentialTypeTag CredentialEquals l r \<longleftrightarrow> structural_key l = structural_key r) \<and>
   equivp (key_equal CredentialTypeTag CredentialEquals) \<and>
   (key_equal CredentialTypeTag CredentialEquals l r \<longrightarrow> key_hash h CredentialHash l = key_hash h CredentialHash r)"
proof (intro conjI impI)
  show "key_equal CredentialTypeTag CredentialEquals l r \<longleftrightarrow> structural_key l = structural_key r"
    by (rule key_equal_structural)
  show "equivp (key_equal CredentialTypeTag CredentialEquals)"
    by (auto simp: key_equal_structural intro!: equivpI reflpI sympI transpI)
  assume "key_equal CredentialTypeTag CredentialEquals l r"
  then have s: "structural_key l = structural_key r" by (simp add: key_equal_structural)
  then have "principal_hash h CredentialHash (principal l) = principal_hash h CredentialHash (principal r)"
    by (intro credential.principal_hash_cong) (simp add: structural_key_def)
  with s show "key_hash h CredentialHash l = key_hash h CredentialHash r"
    by (auto simp: structural_key_def key_hash_def split: if_splits)
qed

theorem quota_keys_are_structural_witness:
  "\<exists>l r h. l \<noteq> r \<and> key_equal CredentialTypeTag CredentialEquals l r \<and> key_hash h CredentialHash l = key_hash h CredentialHash r"
proof -
  let ?key = "\<lambda>i. \<lparr>destination = \<lparr>scheme = ''https'', host = ''a'', explicit_port = 443\<rparr>,
     operation = \<lparr>connector_id = ''c'', package_major = 1, operation_family = ''f''\<rparr>,
     principal = OpaqueToken \<lparr>object_address = i, authority_bytes = replicate 16 7\<rparr>,
     has_remote_bucket = False, remote_bucket = []\<rparr>"
  have e: "key_equal CredentialTypeTag CredentialEquals (?key 1) (?key 2)" by (simp add: key_equal_structural structural_key_def)
  with quota_keys_are_structural [of "?key 1" "?key 2"]
  have "?key 1 \<noteq> ?key 2 \<and> key_equal CredentialTypeTag CredentialEquals (?key 1) (?key 2) \<and>
      key_hash \<lparr>hash_string = \<lambda>_. 0, hash_uint16 = \<lambda>_. 0, hash_uint64 = \<lambda>_. 0, hash_unsigned = \<lambda>_. 0, hash_bool = \<lambda>_. 0\<rparr> CredentialHash (?key 1) =
      key_hash \<lparr>hash_string = \<lambda>_. 0, hash_uint16 = \<lambda>_. 0, hash_uint64 = \<lambda>_. 0, hash_unsigned = \<lambda>_. 0, hash_bool = \<lambda>_. 0\<rparr> CredentialHash (?key 2)"
    by simp
  then show ?thesis by (intro exI)
qed

end
