(* ===== verification/Civil_Time.thy ===== *)
theory Civil_Time
  imports Cuac_Prelude "HOL-Library.Signed_Division"
begin

section \<open>Civil dates\<close>

text \<open>
  The calendar arithmetic that \<open>rate_limit_guidance.cpp\<close>, \<open>timestamptz_codec.hpp\<close> and \<open>timestamptz.hpp\<close> share: days since
  1970-01-01 from a proleptic Gregorian date and back, in the March-based form the source uses.
  Signed division truncates (\<open>sdiv\<close>, \<open>smod\<close>); the unsigned intermediate values are non-negative and
  far below the range of their types, so they are plain integers here. The two directions are shown to be inverse.
\<close>

definition IsLeapYear :: "int \<Rightarrow> bool" where
  "IsLeapYear year \<longleftrightarrow> year mod 4 = 0 \<and> (year mod 100 \<noteq> 0 \<or> year mod 400 = 0)"

definition DaysInMonth :: "int \<Rightarrow> int \<Rightarrow> int" where
  "DaysInMonth year month =
     (if month = 2 \<and> IsLeapYear year then 29
      else [31, 28, 31, 30, 31, 30, 31, 31, 30, 31, 30, 31] ! nat (month - 1))"

definition DaysFromCivil :: "int \<Rightarrow> int \<Rightarrow> int \<Rightarrow> int" where
  "DaysFromCivil year_p month day =
     (let year = year_p - (if month \<le> 2 then 1 else 0);
          era = (if year \<ge> 0 then year else year - 399) sdiv 400;
          year_of_era = year - era * 400;
          adjusted_month = (if month > 2 then month - 3 else month + 9);
          day_of_year = (153 * adjusted_month + 2) div 5 + day - 1;
          day_of_era = year_of_era * 365 + year_of_era div 4 - year_of_era div 100 + day_of_year
      in era * 146097 + day_of_era - 719468)"

definition civil_from_days :: "int \<Rightarrow> int \<times> int \<times> int" where
  "civil_from_days days =
     (let shifted = days + 719468;
          era = (if shifted \<ge> 0 then shifted else shifted - 146096) sdiv 146097;
          day_of_era = shifted - era * 146097;
          year_of_era = (day_of_era - day_of_era div 1460 + day_of_era div 36524 - day_of_era div 146096) div 365;
          year = year_of_era + era * 400;
          day_of_year = day_of_era - (365 * year_of_era + year_of_era div 4 - year_of_era div 100);
          month_prime = (5 * day_of_year + 2) div 153;
          day = day_of_year - (153 * month_prime + 2) div 5 + 1;
          month = (if month_prime < 10 then month_prime + 3 else month_prime - 9)
      in (year + (if month \<le> 2 then 1 else 0), month, day))"

definition valid_date :: "int \<times> int \<times> int \<Rightarrow> bool" where
  "valid_date d = (case d of (year, month, day) \<Rightarrow> 1 \<le> month \<and> month \<le> 12 \<and> 1 \<le> day \<and> day \<le> DaysInMonth year month)"

subsection \<open>Floor division\<close>

lemma sdiv_nonneg: "0 \<le> (a :: int) \<Longrightarrow> 0 < b \<Longrightarrow> a sdiv b = a div b"
  by (cases "a = 0") (simp_all add: signed_divide_int_def sgn_if)

text \<open>The idiom that rounds a truncating division down.\<close>

lemma floor_division:
  assumes "0 < (b :: int)" and c: "c = b - 1"
  shows "(if a \<ge> 0 then a else a - c) sdiv b = a div b"
proof (cases "a \<ge> 0")
  case False
  then have "(a - (b - 1)) sdiv b = - ((b - 1 - a) div b)"
    using assms by (simp add: signed_divide_int_def sgn_if)
  also have "(b - 1 - a) div b = - (a div b)"
  proof -
    have "b - 1 - a = b * (- (a div b)) + (b - 1 - a mod b)"
      using div_mult_mod_eq [of a b] by (simp add: algebra_simps)
    moreover have "0 \<le> b - 1 - a mod b" "b - 1 - a mod b < b"
      using assms pos_mod_bound [of b a] pos_mod_sign [of b a] by linarith+
    ultimately show ?thesis by (rule int_div_pos_eq)
  qed
  finally show ?thesis using False c by simp
qed (use assms in \<open>simp add: sdiv_nonneg\<close>)

text \<open>The idiom that makes a truncated quotient and remainder floored.\<close>

lemma floor_quotient:
  assumes "0 < (b :: int)"
  shows "(if a smod b < 0 then (a sdiv b - 1, a smod b + b) else (a sdiv b, a smod b)) = (a div b, a mod b)"
proof (cases "a \<ge> 0")
  case True
  with assms show ?thesis
    by (cases "a = 0") (simp_all add: signed_divide_int_def signed_modulo_int_def sgn_if not_less)
next
  case False
  with assms have "a sdiv b = - ((- a) div b)" "a smod b = - ((- a) mod b)"
    by (simp_all add: signed_divide_int_def signed_modulo_int_def sgn_if minus_mod_eq_mult_div [symmetric])
  moreover have "(- a) mod b = (if a mod b = 0 then 0 else b - a mod b)"
    "(- a) div b = (if a mod b = 0 then - (a div b) else - (a div b) - 1)"
    using assms by (simp_all add: zmod_zminus1_eq_if zdiv_zminus1_eq_if)
  ultimately show ?thesis using assms pos_mod_bound [of b a] pos_mod_sign [of b a] by auto
qed

subsection \<open>Years and months of a March-based era\<close>

abbreviation years_before :: "int \<Rightarrow> int" where
  "years_before y \<equiv> 365 * y + y div 4 - y div 100"

abbreviation recovered_year :: "int \<Rightarrow> int" where
  "recovered_year d \<equiv> (d - d div 1460 + d div 36524 - d div 146096) div 365"

text \<open>The last day of a March-based year exists when the next civil year is a leap year.\<close>

definition day_fits :: "int \<Rightarrow> int \<Rightarrow> bool" where
  "day_fits y doy \<longleftrightarrow> 0 \<le> doy \<and> doy \<le> 365 \<and> (doy = 365 \<longrightarrow> IsLeapYear (y + 1))"

lemma year_parts:
  assumes "0 \<le> (y :: int)" and "y < 400"
  obtains c q r where "y = 100 * c + 4 * q + r" "0 \<le> c" "c \<le> 3" "0 \<le> q" "q \<le> 24" "0 \<le> r" "r \<le> 3"
    "y div 4 = 25 * c + q" "y div 100 = c"
proof
  let ?c = "y div 100" and ?q = "y mod 100 div 4" and ?r = "y mod 4"
  have "y mod 100 = 4 * ?q + ?r" using mult_div_mod_eq [of 4 "y mod 100"] by (simp add: mod_mod_cancel)
  then show y: "y = 100 * ?c + 4 * ?q + ?r" using mult_div_mod_eq [of 100 y] by linarith
  show "y div 4 = 25 * ?c + ?q" by (rule int_div_pos_eq [where r = ?r]) (use y in simp_all)
qed (use assms in \<open>simp_all, linarith?\<close>)

lemma recovered_year_parts:
  assumes "0 \<le> c" "c \<le> 3" "0 \<le> q" "q \<le> 24" "0 \<le> r" "r \<le> (3 :: int)" "0 \<le> doy" "doy \<le> 365"
    and last: "doy = 365 \<Longrightarrow> r = 3 \<and> (q \<noteq> 24 \<or> c = 3)"
  shows "recovered_year (36524 * c + 1461 * q + 365 * r + doy) = 100 * c + 4 * q + r"
proof -
  let ?d = "36524 * c + 1461 * q + 365 * r + doy" and ?x = "(24 * c + q + 365 * r + doy) div 1460"
  have century: "?d div 36524 - ?d div 146096 = c"
  proof (cases "1461 * q + 365 * r + doy = 36524")
    case True
    with assms have "q = 24" "r = 3" "doy = 365" by linarith+
    with last have "c = 3" by simp
    with \<open>q = 24\<close> \<open>r = 3\<close> \<open>doy = 365\<close> show ?thesis by simp
  next
    case False
    with assms have "1461 * q + 365 * r + doy < 36524" "0 \<le> 1461 * q + 365 * r + doy" by linarith+
    then have "?d div 36524 = c" "?d div 146096 = 0"
      using assms by (auto intro!: div_pos_pos_trivial simp: int_div_pos_eq)
    then show ?thesis by simp
  qed
  have "?d = 1460 * (25 * c + q) + (24 * c + q + 365 * r + doy)" by simp
  then have four: "?d div 1460 = 25 * c + q + ?x" by (simp only: div_mult_self4)
  have "doy = 365 \<Longrightarrow> ?x = 1"
    using assms last by (intro int_div_pos_eq [where r = "24 * c + q"]) auto
  moreover have "?x = 0" if "doy = 0" using assms that by (intro div_pos_pos_trivial) linarith+
  moreover have "0 \<le> ?x" using assms by (simp add: pos_imp_zdiv_nonneg_iff)
  moreover have "?x < 2"
  proof -
    have "24 * c + q + 365 * r + doy < 2 * 1460" using assms(1-8) by linarith
    then show ?thesis by (simp add: div_less_iff_less_mult)
  qed
  ultimately have x: "0 \<le> doy - ?x" "doy - ?x < 365" using assms(7,8) by linarith+
  have "?d - ?d div 1460 + ?d div 36524 - ?d div 146096 = 365 * (100 * c + 4 * q + r) + (doy - ?x)"
  proof -
    have "e + (a - b) = 365 * (100 * c + 4 * q + r) + (doy - x)"
      if "e = 36524 * c + 1461 * q + 365 * r + doy - (25 * c + q + x)" "a - b = c" for e a b x :: int
      using that by simp
    from this [OF _ century, of _ ?x] show ?thesis by (simp only: four add_diff_eq)
  qed
  also have "\<dots> div 365 = 100 * c + 4 * q + r" using x by (simp add: div_pos_pos_trivial)
  finally show ?thesis .
qed

lemma recovered_year_ok:
  assumes "0 \<le> y" and "y < 400" and "day_fits y doy"
  shows "recovered_year (years_before y + doy) = y" and "0 \<le> years_before y + doy" and "years_before y + doy < 146097"
proof -
  obtain c q r where y: "y = 100 * c + 4 * q + r" "0 \<le> c" "c \<le> 3" "0 \<le> q" "q \<le> 24" "0 \<le> r" "r \<le> 3"
    "y div 4 = 25 * c + q" "y div 100 = c" using year_parts [OF assms(1,2)] .
  have d: "years_before y + doy = 36524 * c + 1461 * q + 365 * r + doy" using y by simp
  have last: "r = 3 \<and> (q \<noteq> 24 \<or> c = 3)" if "doy = 365"
  proof -
    have leap: "IsLeapYear (y + 1)" using assms(3) that by (simp add: day_fits_def)
    have r: "r = 3"
    proof (rule ccontr)
      assume "r \<noteq> 3"
      then have "(y + 1) mod 4 = r + 1" using y(1,6,7) by (intro int_mod_pos_eq [where q = "25 * c + q"]) auto
      with leap y(6) show False by (simp add: IsLeapYear_def)
    qed
    have "c = 3" if "q = 24"
    proof -
      have "y + 1 = 100 * (c + 1)" using y(1) r that by simp
      moreover from this have "(y + 1) mod 400 = 0" using leap by (simp add: IsLeapYear_def)
      ultimately show ?thesis using y(2,3) by presburger
    qed
    with r show ?thesis by blast
  qed
  from recovered_year_parts [OF y(2-7) _ _ last] assms(3) show "recovered_year (years_before y + doy) = y"
    unfolding d by (simp add: day_fits_def y(1))
  show "0 \<le> years_before y + doy" "years_before y + doy < 146097"
    unfolding d using y(2-7) assms(3) last by (auto simp: day_fits_def)
qed

lemma era_day_parts:
  assumes "0 \<le> d" and "d < (146097 :: int)"
  obtains y doy where "d = years_before y + doy" "0 \<le> y" "y < 400" "day_fits y doy"
proof -
  define c where "c = min (d div 36524) 3"
  define d1 where "d1 = d - 36524 * c"
  define q where "q = min (d1 div 1461) 24"
  define d2 where "d2 = d1 - 1461 * q"
  define r where "r = min (d2 div 365) 3"
  define doy where "doy = d2 - 365 * r"
  have c: "0 \<le> c" "c \<le> 3" "0 \<le> d1" "d1 \<le> 36524" "d1 = 36524 \<Longrightarrow> c = 3"
    using assms by (auto simp: c_def d1_def min_def)
  have q: "0 \<le> q" "q \<le> 24" "0 \<le> d2" "d2 \<le> 1460" "d2 = 1460 \<Longrightarrow> q = 24 \<Longrightarrow> d1 = 36524"
    using c by (auto simp: q_def d2_def min_def)
  have r: "0 \<le> r" "r \<le> 3" "0 \<le> doy" "doy \<le> 365" "doy = 365 \<Longrightarrow> r = 3 \<and> d2 = 1460"
    using q by (auto simp: r_def doy_def min_def)
  let ?y = "100 * c + 4 * q + r"
  have "?y div 4 = 25 * c + q" using r by (intro int_div_pos_eq [where r = r]) auto
  moreover have "?y div 100 = c" using q r by (intro int_div_pos_eq [where r = "4 * q + r"]) auto
  ultimately have "d = years_before ?y + doy" by (simp add: doy_def d2_def d1_def)
  moreover have "IsLeapYear (?y + 1)" if "doy = 365"
  proof -
    have "r = 3" "q = 24 \<longrightarrow> c = 3" using that r(5) q(5) c(5) by auto
    moreover have "\<not> 100 dvd 4 + (100 * c + 4 * q)" if "q \<noteq> 24"
    proof -
      have "(4 + (100 * c + 4 * q)) mod 100 = 4 * q + 4"
        using that q(1,2) by (intro int_mod_pos_eq [where q = c]) auto
      then show ?thesis using q(1) by (simp add: dvd_eq_mod_eq_0)
    qed
    ultimately show ?thesis using c(1,2) q(1,2) by (cases "q = 24") (auto simp: IsLeapYear_def)
  qed
  ultimately show ?thesis using that [of ?y doy] c q r by (simp add: day_fits_def)
qed

abbreviation month_start :: "int \<Rightarrow> int" where
  "month_start m \<equiv> (153 * m + 2) div 5"

text \<open>The months March to February as \<open>0..11\<close>.\<close>

definition march_days :: "int \<Rightarrow> int \<Rightarrow> int" where
  "march_days y m = (if m < 10 then DaysInMonth y (m + 3) else DaysInMonth (y + 1) (m - 9))"

lemma twelve_months:
  fixes m :: int
  assumes "0 \<le> m" and "m \<le> 11"
  shows "m \<in> {0, 1, 2, 3, 4, 5, 6, 7, 8, 9, 10, 11}"
  using assms by simp presburger

lemma march_days_cases:
  "march_days y 0 = 31" "march_days y 1 = 30" "march_days y 2 = 31" "march_days y 3 = 30" "march_days y 4 = 31"
  "march_days y 5 = 31" "march_days y 6 = 30" "march_days y 7 = 31" "march_days y 8 = 30" "march_days y 9 = 31"
  "march_days y 10 = 31" "march_days y 11 = (if IsLeapYear (y + 1) then 29 else 28)"
  by (simp_all add: march_days_def DaysInMonth_def)

lemma month_recovered:
  assumes "0 \<le> m" "m \<le> 11" "1 \<le> day" "day \<le> march_days y m"
  shows "(5 * (month_start m + day - 1) + 2) div 153 = m" and "day_fits y (month_start m + day - 1)"
proof -
  have "(5 * (month_start m + day - 1) + 2) div 153 = m \<and> day_fits y (month_start m + day - 1)"
    using twelve_months [OF assms(1,2)] assms(3,4) unfolding insert_iff empty_iff
    by (elim disjE) (auto simp: march_days_cases day_fits_def split: if_splits)
  then show "(5 * (month_start m + day - 1) + 2) div 153 = m" and "day_fits y (month_start m + day - 1)"
    by auto
qed

lemma month_of_day:
  assumes "day_fits y doy"
  obtains m day where "doy = month_start m + day - 1" "0 \<le> m" "m \<le> 11" "1 \<le> day" "day \<le> march_days y m"
proof -
  let ?m = "(5 * doy + 2) div 153"
  have m: "0 \<le> ?m" "?m \<le> 11" using assms by (auto simp: day_fits_def pos_imp_zdiv_nonneg_iff)
  have "153 * ?m \<le> 5 * doy + 2" "5 * doy + 2 < 153 * ?m + 153" by linarith+
  then have "1 \<le> doy - month_start ?m + 1 \<and> doy - month_start ?m + 1 \<le> march_days y ?m"
    using twelve_months [OF m] assms unfolding insert_iff empty_iff
    by (elim disjE) (auto simp: march_days_cases day_fits_def)
  with that [of ?m "doy - month_start ?m + 1"] m show ?thesis by auto
qed

subsection \<open>The two directions are inverse\<close>

definition civil_of_era :: "int \<Rightarrow> int \<Rightarrow> int \<times> int \<times> int" where
  "civil_of_era e d =
     (let y = recovered_year d; year = y + e * 400; doy = d - years_before y; m = (5 * doy + 2) div 153;
          day = doy - month_start m + 1; month = (if m < 10 then m + 3 else m - 9)
      in (year + (if month \<le> 2 then 1 else 0), month, day))"

lemma civil_from_days_floor:
  "civil_from_days days = civil_of_era ((days + 719468) div 146097) ((days + 719468) mod 146097)"
proof -
  have era: "(if days + 719468 \<ge> 0 then days + 719468 else days + 719468 - 146096) sdiv 146097 = (days + 719468) div 146097"
    by (rule floor_division) simp_all
  show ?thesis
    unfolding civil_from_days_def civil_of_era_def Let_def era minus_div_mult_eq_mod by (rule refl)
qed

lemma civil_of_era_parts:
  assumes "recovered_year d = y" and "d - years_before y = doy" and "(5 * doy + 2) div 153 = m"
    and "doy - month_start m + 1 = day" and "0 \<le> m" and "m \<le> 11"
  shows "civil_of_era e d = (if m < 10 then (e * 400 + y, m + 3, day) else (e * 400 + y + 1, m - 9, day))"
  unfolding civil_of_era_def Let_def assms(1) assms(2) assms(3) assms(4) using assms(5,6) by simp

lemma civil_of_parts:
  assumes y: "0 \<le> y" "y < 400" and m: "0 \<le> m" "m \<le> 11" and d: "1 \<le> day" "day \<le> march_days y m"
  shows "civil_from_days (e * 146097 + (years_before y + (month_start m + day - 1)) - 719468) =
    (if m < 10 then (e * 400 + y, m + 3, day) else (e * 400 + y + 1, m - 9, day))"
proof -
  define doe where "doe = years_before y + (month_start m + day - 1)"
  note month = month_recovered [OF m d]
  note year = recovered_year_ok [OF y month(2), folded doe_def]
  have "(e * 146097 + doe) div 146097 = e" "(e * 146097 + doe) mod 146097 = doe"
    using year(2,3) by simp_all
  moreover have "doe - years_before y = month_start m + day - 1" by (simp add: doe_def)
  from civil_of_era_parts [OF year(1) this month(1) _ m]
  have "civil_of_era e doe = (if m < 10 then (e * 400 + y, m + 3, day) else (e * 400 + y + 1, m - 9, day))" by simp
  ultimately show ?thesis unfolding doe_def [symmetric] civil_from_days_floor by simp
qed

lemma days_of_parts:
  assumes y: "0 \<le> y" "y < 400" and m: "0 \<le> m" "m \<le> 11"
  shows "(if m < 10 then DaysFromCivil (e * 400 + y) (m + 3) day else DaysFromCivil (e * 400 + y + 1) (m - 9) day) =
    e * 146097 + (years_before y + (month_start m + day - 1)) - 719468"
proof -
  have "(if e * 400 + y \<ge> 0 then e * 400 + y else e * 400 + y - 399) sdiv 400 = (e * 400 + y) div 400"
    by (rule floor_division) simp_all
  also have "\<dots> = e" using y by simp
  finally have era: "(if e * 400 + y \<ge> 0 then e * 400 + y else e * 400 + y - 399) sdiv 400 = e" .
  have early: "e * 400 + y + 1 - 1 = e * 400 + y" by simp
  have "DaysFromCivil (e * 400 + y) (m + 3) day = e * 146097 + (years_before y + (month_start m + day - 1)) - 719468" if "m < 10"
  proof -
    have s: "e * 400 + y - (if m + 3 \<le> 2 then 1 else 0) = e * 400 + y" "(if m + 3 > 2 then m + 3 - 3 else m + 3 + 9) = m"
      using m by simp_all
    show ?thesis unfolding DaysFromCivil_def Let_def s era by simp
  qed
  moreover have "DaysFromCivil (e * 400 + y + 1) (m - 9) day = e * 146097 + (years_before y + (month_start m + day - 1)) - 719468" if "\<not> m < 10"
  proof -
    have s: "e * 400 + y + 1 - (if m - 9 \<le> 2 then 1 else 0) = e * 400 + y" "(if m - 9 > 2 then m - 9 - 3 else m - 9 + 9) = m"
      using m by simp_all
    show ?thesis unfolding DaysFromCivil_def Let_def s era by simp
  qed
  ultimately show ?thesis by simp
qed

text \<open>Every valid date, and every day number, has its March-based parts.\<close>

lemma date_parts:
  assumes "valid_date (year, month, day)"
  obtains e y m where "0 \<le> y" "y < 400" "0 \<le> m" "m \<le> 11" "day \<le> march_days y m" "1 \<le> day"
    "(year, month, day) = (if m < 10 then (e * 400 + y, m + 3, day) else (e * 400 + y + 1, m - 9, day))"
proof -
  define v where "v = (if month \<le> 2 then year - 1 else year)"
  define m where "m = (if month \<le> 2 then month + 9 else month - 3)"
  have v: "v = (v div 400) * 400 + v mod 400" by simp
  have leap: "IsLeapYear (v mod 400 + k) = IsLeapYear (v + k)" for k
  proof -
    have "(v mod 400 + k) mod n = (v + k) mod n" if "n dvd 400" for n
      using that by (metis mod_add_left_eq mod_mod_cancel)
    then show ?thesis by (simp only: IsLeapYear_def) simp
  qed
  have dim: "DaysInMonth (v mod 400 + k) n = DaysInMonth (v + k) n" for k n by (simp only: DaysInMonth_def leap)
  have days: "march_days (v mod 400) m = DaysInMonth year month"
    using dim [of 0] dim [of 1] assms by (auto simp: march_days_def m_def v_def valid_date_def)
  have "0 \<le> m" "m \<le> 11" using assms by (auto simp: valid_date_def m_def)
  moreover have "(year, month, day) = (if m < 10 then (v div 400 * 400 + v mod 400, m + 3, day)
      else (v div 400 * 400 + v mod 400 + 1, m - 9, day))"
    using assms by (auto simp: valid_date_def m_def v_def)
  ultimately show ?thesis
    using that [of "v mod 400" m "v div 400"] days assms by (auto simp: valid_date_def)
qed

lemma civil_of_days: "valid_date d \<Longrightarrow> civil_from_days (case d of (y, m, day) \<Rightarrow> DaysFromCivil y m day) = d"
proof -
  obtain year month day where d: "d = (year, month, day)" by (cases d)
  assume "valid_date d"
  then obtain e y m where p: "0 \<le> y" "y < 400" "0 \<le> m" "m \<le> 11" "day \<le> march_days y m" "1 \<le> day"
    and date: "(year, month, day) = (if m < 10 then (e * 400 + y, m + 3, day) else (e * 400 + y + 1, m - 9, day))"
    using date_parts [of year month day] d by blast
  have "DaysFromCivil year month day = e * 146097 + (years_before y + (month_start m + day - 1)) - 719468"
    using days_of_parts [OF p(1-4), of e day] date by (auto split: if_splits)
  then have "civil_from_days (DaysFromCivil year month day) = (year, month, day)"
    by (simp only: civil_of_parts [OF p(1-4) p(6,5)] date)
  then show ?thesis by (simp add: d)
qed

lemma days_of_civil:
  "valid_date (civil_from_days n) \<and> (case civil_from_days n of (y, m, day) \<Rightarrow> DaysFromCivil y m day) = n"
proof -
  let ?e = "(n + 719468) div 146097" and ?d = "(n + 719468) mod 146097"
  obtain y doy where yd: "?d = years_before y + doy" "0 \<le> y" "y < 400" "day_fits y doy"
    by (rule era_day_parts [of ?d]) auto
  obtain m day where md: "doy = month_start m + day - 1" "0 \<le> m" "m \<le> 11" "1 \<le> day" "day \<le> march_days y m"
    using month_of_day [OF yd(4)] .
  have n: "n = ?e * 146097 + (years_before y + (month_start m + day - 1)) - 719468"
    using yd(1) md(1) div_mult_mod_eq [of "n + 719468" 146097] by linarith
  have civil: "civil_from_days n = (if m < 10 then (?e * 400 + y, m + 3, day) else (?e * 400 + y + 1, m - 9, day))"
    by (subst n) (rule civil_of_parts [OF yd(2,3) md(2-5)])
  have "DaysInMonth (?e * 400 + v) k = DaysInMonth v k" for v k
    by (simp add: DaysInMonth_def IsLeapYear_def mod_add_left_eq [symmetric] mult_mod_right)
  then have "valid_date (civil_from_days n)"
    using md(2-5) by (auto simp: civil valid_date_def march_days_def add.assoc)
  moreover have "(case civil_from_days n of (y, m, day) \<Rightarrow> DaysFromCivil y m day) = n"
    using days_of_parts [OF yd(2,3) md(2,3), of ?e day] n by (auto simp: civil split: if_splits)
  ultimately show ?thesis ..
qed
subsection \<open>Fields of dates as digits\<close>

lemma days_in_month_le: "1 \<le> month \<Longrightarrow> month \<le> 12 \<Longrightarrow> DaysInMonth year month \<le> 31"
proof -
  assume "1 \<le> month" "month \<le> 12"
  then have "nat (month - 1) < 12" by auto
  then have "nat (month - 1) \<in> set [0..<12]" by simp
  then show ?thesis by (auto simp: DaysInMonth_def upt_rec)
qed

lemma digits_fixed: "0 \<le> n \<Longrightarrow> n < 10 ^ w \<Longrightarrow> int (digits_value (fixed_digits w (nat n))) = n"
  by (simp add: fixed_digits_value nat_less_iff)

lemma list_of_two: "length xs = 2 \<Longrightarrow> \<exists>a b. xs = [a, b]"
  by (auto simp: numeral_2_eq_2 length_Suc_conv)

lemma list_of_four: "length xs = 4 \<Longrightarrow> \<exists>a b c d. xs = [a, b, c, d]"
  by (auto simp: numeral_eq_Suc length_Suc_conv)

lemma fixed_two: "\<exists>a b. fixed_digits 2 n = [a, b] \<and> IsAsciiDigit a \<and> IsAsciiDigit b"
proof -
  obtain a b where "fixed_digits 2 n = [a, b]" using list_of_two [OF fixed_digits_length] by blast
  then show ?thesis using fixed_digits_digits [of _ 2 n] by simp
qed

lemma fixed_four:
  "\<exists>a b c d. fixed_digits 4 n = [a, b, c, d] \<and> IsAsciiDigit a \<and> IsAsciiDigit b \<and> IsAsciiDigit c \<and> IsAsciiDigit d"
proof -
  obtain a b c d where "fixed_digits 4 n = [a, b, c, d]" using list_of_four [OF fixed_digits_length] by blast
  then show ?thesis using fixed_digits_digits [of _ 4 n] by simp
qed

end
