(* ===== verification/Timestamptz.thy ===== *)
theory Timestamptz
  imports Civil_Time
begin

section \<open>The TIMESTAMPTZ codec\<close>

text \<open>
  Parsing and canonical rendering of timestamps with microseconds (\<open>src/include/cuac/internal/runtime/decoding/timestamptz_codec.hpp\<close>)
  and the planner's renderer (\<open>src/include/cuac/internal/semantics/timestamptz.hpp\<close>). The parser walks the text by
  position; the part after the seconds is the suffix that starts at the cursor. The theorems show that rendering is
  inverted by parsing on the whole profile, that parsing never leaves the profile, and that both layers render alike.
\<close>

definition InRange :: "int \<Rightarrow> bool" where
  "InRange v \<longleftrightarrow> v \<ge> - 62135596800000000 \<and> v \<le> 253402300799999999"

definition Digits :: "string \<Rightarrow> nat \<Rightarrow> nat \<Rightarrow> int" where
  "Digits s start count = int (digits_value (take count (drop start s)))"

definition parse_fraction :: "string \<Rightarrow> (int \<times> string) option" where
  "parse_fraction rest =
     (if rest \<noteq> [] \<and> hd rest = CHR ''.'' then
        let ds = takeWhile IsAsciiDigit (tl rest); count = length ds
        in if count = 0 \<or> count > 6 then None
           else Some (int (digits_value ds) * 10 ^ (6 - count), drop count (tl rest))
      else Some (0, rest))"

definition parse_offset :: "string \<Rightarrow> (int \<times> string) option" where
  "parse_offset rest =
     (if rest \<noteq> [] \<and> hd rest = CHR ''Z'' then Some (0, tl rest)
      else if length rest = 6 \<and> (rest ! 0 = CHR ''+'' \<or> rest ! 0 = CHR ''-'') \<and> IsAsciiDigit (rest ! 1) \<and>
              IsAsciiDigit (rest ! 2) \<and> rest ! 3 = CHR '':'' \<and> IsAsciiDigit (rest ! 4) \<and> IsAsciiDigit (rest ! 5)
      then let negative = (rest ! 0 = CHR ''-''); offset_hour = Digits rest 1 2; offset_minute = Digits rest 4 2
           in if offset_hour > 14 \<or> offset_minute > 59 \<or> offset_hour = 14 \<and> offset_minute \<noteq> 0 \<or>
                 negative \<and> offset_hour = 0 \<and> offset_minute = 0
              then None
              else let offset_seconds = offset_hour * 3600 + offset_minute * 60
                   in Some (if negative then - offset_seconds else offset_seconds, drop 6 rest)
      else None)"

definition Parse :: "string \<Rightarrow> int option" where
  "Parse s =
     (if length s < 20 \<or> length s > 32 then None
      else if list_ex (\<lambda>i. \<not> IsAsciiDigit (s ! i)) [0, 1, 2, 3, 5, 6, 8, 9, 11, 12, 14, 15, 17, 18] then None
      else if s ! 4 \<noteq> CHR ''-'' \<or> s ! 7 \<noteq> CHR ''-'' \<or> s ! 10 \<noteq> CHR ''T'' \<or> s ! 13 \<noteq> CHR '':'' \<or> s ! 16 \<noteq> CHR '':''
      then None
      else let year = Digits s 0 4; month = Digits s 5 2; day = Digits s 8 2;
               hour = Digits s 11 2; minute = Digits s 14 2; second = Digits s 17 2
           in if year = 0 \<or> month = 0 \<or> month > 12 \<or> day = 0 \<or> day > DaysInMonth year month \<or> hour > 23 \<or>
                 minute > 59 \<or> second > 59
              then None
              else case parse_fraction (drop 19 s) of
                None \<Rightarrow> None
              | Some (fraction, rest) \<Rightarrow>
                  (case parse_offset rest of
                     None \<Rightarrow> None
                   | Some (offset_seconds, rest') \<Rightarrow>
                       if rest' \<noteq> [] then None
                       else let local_seconds = DaysFromCivil year month day * 86400 + (hour * 3600 + minute * 60 + second);
                                candidate = (local_seconds - offset_seconds) * 1000000 + fraction
                            in if \<not> InRange candidate then None else Some candidate))"

text \<open>The conversions \<open>%0<w>d\<close> of \<open>snprintf\<close>.\<close>

definition zero_padded :: "nat \<Rightarrow> string \<Rightarrow> string" where
  "zero_padded w ds = replicate (w - length ds) CHR ''0'' @ ds"

definition format_number :: "nat \<Rightarrow> int \<Rightarrow> string" where
  "format_number w n =
     (if n < 0 then CHR ''-'' # zero_padded (w - 1) (decimal (nat (- n))) else zero_padded w (decimal (nat n)))"

text \<open>The body shared by the two renderers: the floored fields, then the text.\<close>

definition split_floor :: "int \<Rightarrow> int \<Rightarrow> int \<times> int" where
  "split_floor n unit =
     (let quotient = n sdiv unit; remainder = n smod unit
      in if remainder < 0 then (quotient - 1, remainder + unit) else (quotient, remainder))"

definition canonical_text :: "int \<Rightarrow> string" where
  "canonical_text v =
     (let (seconds, fraction) = split_floor v 1000000;
          (days, day_seconds) = split_floor seconds 86400;
          (year, month, day) = civil_from_days days
      in format_number 4 year @ ''-'' @ format_number 2 month @ ''-'' @ format_number 2 day @ ''T'' @
         format_number 2 (day_seconds sdiv 3600) @ '':'' @ format_number 2 (day_seconds smod 3600 sdiv 60) @ '':'' @
         format_number 2 (day_seconds smod 60) @ ''.'' @ format_number 6 fraction @ ''Z'')"

definition Canonical :: "int \<Rightarrow> cpp_exception + string" where
  "Canonical v =
     (if \<not> InRange v then Inl (invalid_argument ''Runtime TIMESTAMPTZ is outside the CUAC profile'')
      else if length (canonical_text v) \<noteq> 27 then Inl (logic_error ''Runtime TIMESTAMPTZ canonical formatting failed'')
      else Inr (canonical_text v))"

definition IsTimestamptzMicroseconds :: "int \<Rightarrow> bool" where
  "IsTimestamptzMicroseconds v \<longleftrightarrow> v \<ge> - 62135596800000000 \<and> v \<le> 253402300799999999"

definition CanonicalTimestamptz :: "int \<Rightarrow> cpp_exception + string" where
  "CanonicalTimestamptz v =
     (if \<not> IsTimestamptzMicroseconds v then Inl (invalid_argument ''semantic TIMESTAMPTZ is outside the CUAC profile'')
      else if length (canonical_text v) \<noteq> 27 then Inl (logic_error ''semantic TIMESTAMPTZ canonical formatting failed'')
      else Inr (canonical_text v))"

subsection \<open>The fields of a timestamp in the profile\<close>

lemma split_floor_eq: "0 < unit \<Longrightarrow> split_floor n unit = (n div unit, n mod unit)"
  unfolding split_floor_def Let_def by (rule floor_quotient)

lemma format_fixed: "0 \<le> n \<Longrightarrow> n < 10 ^ w \<Longrightarrow> 0 < w \<Longrightarrow> format_number w n = fixed_digits w (nat n)"
  by (simp add: format_number_def zero_padded_def padded_decimal nat_less_iff)

definition fields_text :: "int \<Rightarrow> int \<Rightarrow> int \<Rightarrow> int \<Rightarrow> int \<Rightarrow> int \<Rightarrow> string \<Rightarrow> string" where
  "fields_text year month day hour minute second tail =
     fixed_digits 4 (nat year) @ ''-'' @ fixed_digits 2 (nat month) @ ''-'' @ fixed_digits 2 (nat day) @ ''T'' @
     fixed_digits 2 (nat hour) @ '':'' @ fixed_digits 2 (nat minute) @ '':'' @ fixed_digits 2 (nat second) @ tail"

definition civil_fields_ok :: "int \<Rightarrow> int \<Rightarrow> int \<Rightarrow> int \<Rightarrow> int \<Rightarrow> int \<Rightarrow> bool" where
  "civil_fields_ok year month day hour minute second \<longleftrightarrow>
     1 \<le> year \<and> year \<le> 9999 \<and> valid_date (year, month, day) \<and> 0 \<le> hour \<and> hour \<le> 23 \<and> 0 \<le> minute \<and> minute \<le> 59 \<and>
     0 \<le> second \<and> second \<le> 59"

lemma parse_positions:
  fixes a b c d m1 m2 d1 d2 h1 h2 n1 n2 s1 s2 :: char and tail :: string
  defines "s \<equiv> [a, b, c, d] @ ''-'' @ [m1, m2] @ ''-'' @ [d1, d2] @ ''T'' @ [h1, h2] @ '':'' @ [n1, n2] @ '':'' @ [s1, s2] @ tail"
  shows "length s = 19 + length tail" and "drop 19 s = tail"
    and "list_ex (\<lambda>i. \<not> IsAsciiDigit (s ! i)) [0, 1, 2, 3, 5, 6, 8, 9, 11, 12, 14, 15, 17, 18] \<longleftrightarrow>
      list_ex (\<lambda>x. \<not> IsAsciiDigit x) [a, b, c, d, m1, m2, d1, d2, h1, h2, n1, n2, s1, s2]"
    and "s ! 4 = CHR ''-''" "s ! 7 = CHR ''-''" "s ! 10 = CHR ''T''" "s ! 13 = CHR '':''" "s ! 16 = CHR '':''"
    and "Digits s 0 4 = int (digits_value [a, b, c, d])" "Digits s 5 2 = int (digits_value [m1, m2])"
      "Digits s 8 2 = int (digits_value [d1, d2])" "Digits s 11 2 = int (digits_value [h1, h2])"
      "Digits s 14 2 = int (digits_value [n1, n2])" "Digits s 17 2 = int (digits_value [s1, s2])"
  by (simp_all add: s_def Digits_def eval_nat_numeral)

definition parse_tail :: "int \<Rightarrow> string \<Rightarrow> int option" where
  "parse_tail local_seconds tail =
     (case parse_fraction tail of
        None \<Rightarrow> None
      | Some (fraction, rest) \<Rightarrow>
          (case parse_offset rest of
             None \<Rightarrow> None
           | Some (offset_seconds, rest') \<Rightarrow>
               if rest' \<noteq> [] then None
               else let candidate = (local_seconds - offset_seconds) * 1000000 + fraction
                    in if \<not> InRange candidate then None else Some candidate))"

lemma parse_fields:
  assumes ok: "civil_fields_ok year month day hour minute second" and "1 \<le> length tail" "length tail \<le> 13"
  shows "Parse (fields_text year month day hour minute second tail) =
    parse_tail (DaysFromCivil year month day * 86400 + (hour * 3600 + minute * 60 + second)) tail"
proof -
  have bounds: "0 \<le> year" "year < 10 ^ 4" "0 \<le> month" "month < 10 ^ 2" "0 \<le> day" "day < 10 ^ 2" "0 \<le> hour" "hour < 10 ^ 2"
    "0 \<le> minute" "minute < 10 ^ 2" "0 \<le> second" "second < 10 ^ 2"
    using ok days_in_month_le [of month year] by (auto simp: civil_fields_ok_def valid_date_def)
  obtain a b c d where Y: "fixed_digits 4 (nat year) = [a, b, c, d]" "IsAsciiDigit a" "IsAsciiDigit b" "IsAsciiDigit c" "IsAsciiDigit d"
    using fixed_four by blast
  obtain m1 m2 where M: "fixed_digits 2 (nat month) = [m1, m2]" "IsAsciiDigit m1" "IsAsciiDigit m2" using fixed_two by blast
  obtain d1 d2 where D: "fixed_digits 2 (nat day) = [d1, d2]" "IsAsciiDigit d1" "IsAsciiDigit d2" using fixed_two by blast
  obtain h1 h2 where H: "fixed_digits 2 (nat hour) = [h1, h2]" "IsAsciiDigit h1" "IsAsciiDigit h2" using fixed_two by blast
  obtain n1 n2 where N: "fixed_digits 2 (nat minute) = [n1, n2]" "IsAsciiDigit n1" "IsAsciiDigit n2" using fixed_two by blast
  obtain s1 s2 where S: "fixed_digits 2 (nat second) = [s1, s2]" "IsAsciiDigit s1" "IsAsciiDigit s2" using fixed_two by blast
  note vals = digits_fixed [OF bounds(1,2), unfolded Y(1)] digits_fixed [OF bounds(3,4), unfolded M(1)]
    digits_fixed [OF bounds(5,6), unfolded D(1)] digits_fixed [OF bounds(7,8), unfolded H(1)]
    digits_fixed [OF bounds(9,10), unfolded N(1)] digits_fixed [OF bounds(11,12), unfolded S(1)]
  have len: "\<not> (19 + length tail < 20 \<or> 19 + length tail > 32)" using assms(2,3) by linarith
  have digits: "\<not> list_ex (\<lambda>x. \<not> IsAsciiDigit x) [a, b, c, d, m1, m2, d1, d2, h1, h2, n1, n2, s1, s2]"
    using Y M D H N S by simp
  have valid: "\<not> (year = 0 \<or> month = 0 \<or> month > 12 \<or> day = 0 \<or> day > DaysInMonth year month \<or> hour > 23 \<or> minute > 59 \<or> second > 59)"
    using ok by (auto simp: civil_fields_ok_def valid_date_def)
  show ?thesis
    unfolding fields_text_def Y(1) M(1) D(1) H(1) N(1) S(1) Parse_def parse_positions vals Let_def parse_tail_def
    using len digits valid by (simp only: if_False simp_thms)
qed

lemma list_not_nil: "length xs = Suc n \<Longrightarrow> xs \<noteq> []"
  by auto

lemma parse_canonical_tail:
  assumes "0 \<le> fraction" and "fraction < 1000000" and "InRange (local_seconds * 1000000 + fraction)"
  shows "parse_tail local_seconds (''.'' @ fixed_digits 6 (nat fraction) @ ''Z'') = Some (local_seconds * 1000000 + fraction)"
proof -
  let ?ds = "fixed_digits 6 (nat fraction)"
  have ne: "?ds \<noteq> []" by (rule list_not_nil [where n = 5]) simp
  have z: "\<not> IsAsciiDigit CHR ''Z''" by code_simp
  have "takeWhile IsAsciiDigit (?ds @ ''Z'') = ?ds @ takeWhile IsAsciiDigit ''Z''"
    by (rule takeWhile_append2) (rule fixed_digits_digits)
  then have "takeWhile IsAsciiDigit (?ds @ ''Z'') = ?ds" by (simp add: z)
  moreover have "int (digits_value ?ds) = fraction" using assms(1,2) digits_fixed [of fraction 6] by simp
  ultimately have "parse_fraction (''.'' @ ?ds @ ''Z'') = Some (fraction, ''Z'')"
    using ne by (simp add: parse_fraction_def Let_def)
  moreover have "parse_offset ''Z'' = Some (0, [])" by (simp add: parse_offset_def)
  ultimately show ?thesis using assms(3) by (simp add: parse_tail_def)
qed

lemma year_bounds:
  assumes "civil_from_days n = (year, month, day)" and "- 719162 \<le> n" and "n \<le> 2932896"
  shows "1 \<le> year \<and> year \<le> 9999"
proof -
  have v: "valid_date (year, month, day)" and days: "DaysFromCivil year month day = n"
    using days_of_civil [of n] assms(1) by auto
  obtain e y m where p: "0 \<le> y" "y < 400" "0 \<le> m" "m \<le> 11" "day \<le> march_days y m" "1 \<le> day"
    and date: "(year, month, day) = (if m < 10 then (e * 400 + y, m + 3, day) else (e * 400 + y + 1, m - 9, day))"
    using date_parts [OF v] by blast
  let ?doy = "month_start m + day - 1"
  have n: "n = e * 146097 + (years_before y + ?doy) - 719468"
    using days_of_parts [OF p(1-4), of e day] date days by (auto split: if_splits)
  note fits = month_recovered(2) [OF p(3,4,6,5)]
  note doe = recovered_year_ok(2,3) [OF p(1,2) fits]
  have e: "0 \<le> e" "e \<le> 24" using n doe assms(2,3) by linarith+
  define doy where "doy = ?doy"
  have "153 * ((5 * doy + 2) div 153) \<le> 5 * doy + 2" "5 * doy + 2 < 153 * ((5 * doy + 2) div 153) + 153" by linarith+
  then have doy: "153 * m \<le> 5 * doy + 2" "5 * doy + 2 < 153 * m + 153"
    using month_recovered(1) [OF p(3,4,6,5)] by (simp_all add: doy_def)
  have early: "m < 10 \<Longrightarrow> ?doy < 306" and late: "\<not> m < 10 \<Longrightarrow> 306 \<le> ?doy"
    using doy unfolding doy_def by auto
  have year: "year = (if m < 10 then e * 400 + y else e * 400 + y + 1)" using date by (auto split: if_splits)
  have "1 \<le> year"
  proof (cases "m < 10 \<and> y = 0 \<and> e = 0")
    case True
    then show ?thesis using n early assms(2) by simp
  qed (use year e p(1) in auto)
  moreover have "year \<le> 9999"
  proof (cases "\<not> m < 10 \<and> y = 399 \<and> e = 24")
    case True
    then show ?thesis using n late assms(3) by simp
  qed (use year e p(2) in auto)
  ultimately show ?thesis ..
qed

lemma time_parts:
  assumes "0 \<le> d" and "d < (86400 :: int)"
  shows "0 \<le> d div 3600 \<and> d div 3600 \<le> 23 \<and> 0 \<le> d mod 3600 div 60 \<and> d mod 3600 div 60 \<le> 59 \<and> 0 \<le> d mod 60 \<and> d mod 60 \<le> 59"
    and "d div 3600 * 3600 + d mod 3600 div 60 * 60 + d mod 60 = d"
    and "d sdiv 3600 = d div 3600" "d smod 3600 sdiv 60 = d mod 3600 div 60" "d smod 60 = d mod 60"
proof -
  define h where "h = d mod 3600"
  have h: "0 \<le> h" "h < 3600" by (simp_all add: h_def)
  have "0 \<le> d div 3600" "d div 3600 \<le> 23" using assms by linarith+
  moreover have "0 \<le> h div 60" "h div 60 \<le> 59" using h by linarith+
  moreover have "0 \<le> d mod 60" "d mod 60 < 60" by simp_all
  ultimately show "0 \<le> d div 3600 \<and> d div 3600 \<le> 23 \<and> 0 \<le> d mod 3600 div 60 \<and> d mod 3600 div 60 \<le> 59 \<and> 0 \<le> d mod 60 \<and> d mod 60 \<le> 59"
    unfolding h_def by simp
  have "h mod 60 = d mod 60" by (simp add: h_def mod_mod_cancel)
  then have "h div 60 * 60 + d mod 60 = h" using div_mult_mod_eq [of h 60] by simp
  then show "d div 3600 * 3600 + d mod 3600 div 60 * 60 + d mod 60 = d"
    using div_mult_mod_eq [of d 3600] unfolding h_def by (simp only: add.assoc)
  show "d sdiv 3600 = d div 3600" "d smod 3600 sdiv 60 = d mod 3600 div 60" "d smod 60 = d mod 60"
    using assms by (cases "d = 0"; cases "d mod 3600 = 0"; simp add: signed_divide_int_def signed_modulo_int_def sgn_if)+
qed

lemma canonical_fields:
  assumes "InRange v"
  obtains year month day where "civil_from_days (v div 1000000 div 86400) = (year, month, day)"
    "civil_fields_ok year month day (v div 1000000 mod 86400 div 3600) (v div 1000000 mod 86400 mod 3600 div 60) (v div 1000000 mod 86400 mod 60)"
    "DaysFromCivil year month day = v div 1000000 div 86400"
    "canonical_text v = fields_text year month day (v div 1000000 mod 86400 div 3600) (v div 1000000 mod 86400 mod 3600 div 60)
       (v div 1000000 mod 86400 mod 60) (''.'' @ fixed_digits 6 (nat (v mod 1000000)) @ ''Z'')"
proof -
  let ?s = "v div 1000000" and ?ds = "v div 1000000 mod 86400"
  obtain year month day where c: "civil_from_days (?s div 86400) = (year, month, day)" by (metis prod_cases3)
  have "- 62135596800 \<le> ?s" "?s \<le> 253402300799" using assms unfolding InRange_def by linarith+
  then have range: "- 719162 \<le> ?s div 86400" "?s div 86400 \<le> 2932896" by linarith+
  note year = year_bounds [OF c range]
  have date: "valid_date (year, month, day)" "DaysFromCivil year month day = ?s div 86400"
    using days_of_civil [of "?s div 86400"] c by auto
  have ds: "0 \<le> ?ds" "?ds < 86400" by simp_all
  note time = time_parts(1) [OF ds]
  have ok: "civil_fields_ok year month day (?ds div 3600) (?ds mod 3600 div 60) (?ds mod 60)"
    using year date time by (simp add: civil_fields_ok_def)
  have md: "0 \<le> month" "month < 10 ^ 2" "0 \<le> day" "day < 10 ^ 2"
    using date(1) days_in_month_le [of month year] by (auto simp: valid_date_def)
  note signed = time_parts(3-5) [OF ds]
  have "canonical_text v = fields_text year month day (?ds div 3600) (?ds mod 3600 div 60) (?ds mod 60)
      (''.'' @ fixed_digits 6 (nat (v mod 1000000)) @ ''Z'')"
    using year md time
    by (simp add: canonical_text_def split_floor_eq c signed fields_text_def format_fixed)
  with that c ok date(2) show ?thesis by blast
qed

lemma canonical_round_trip:
  assumes "InRange v"
  shows "length (canonical_text v) = 27 \<and> Parse (canonical_text v) = Some v"
proof -
  let ?s = "v div 1000000" and ?ds = "v div 1000000 mod 86400" and ?f = "v mod 1000000"
  let ?tail = "''.'' @ fixed_digits 6 (nat ?f) @ ''Z''"
  obtain year month day where ok: "civil_fields_ok year month day (?ds div 3600) (?ds mod 3600 div 60) (?ds mod 60)"
    and days: "DaysFromCivil year month day = ?s div 86400"
    and text': "canonical_text v = fields_text year month day (?ds div 3600) (?ds mod 3600 div 60) (?ds mod 60) ?tail"
    using canonical_fields [OF assms] by blast
  have "?ds div 3600 * 3600 + ?ds mod 3600 div 60 * 60 + ?ds mod 60 = ?ds" by (rule time_parts(2)) simp_all
  then have local': "?s div 86400 * 86400 + (?ds div 3600 * 3600 + ?ds mod 3600 div 60 * 60 + ?ds mod 60) = ?s"
    using div_mult_mod_eq [of ?s 86400] by (simp only:)
  have v: "?s * 1000000 + ?f = v" by simp
  have "Parse (canonical_text v) = parse_tail ?s ?tail"
    unfolding text' by (subst parse_fields [OF ok]) (simp_all only: days local', simp_all)
  also have "\<dots> = Some v" using parse_canonical_tail [of ?f ?s] assms unfolding v by simp
  finally show ?thesis by (simp add: text' fields_text_def)
qed

subsection \<open>What the codec guarantees\<close>

text \<open>
  C23. Rendering is total on the profile and parsing inverts it: every microsecond count between 0001-01-01T00:00:00Z and
  9999-12-31T23:59:59.999999Z is rendered as 27 characters that parse back to exactly that count, so
  canonical texts are unique, and outside the profile rendering throws.
\<close>

theorem timestamptz_round_trip:
  "(InRange v \<longrightarrow> (\<exists>s. Canonical v = Inr s \<and> length s = 27 \<and> Parse s = Some v)) \<and>
   (\<not> InRange v \<longrightarrow> (\<exists>e. Canonical v = Inl (invalid_argument e)))"
  using canonical_round_trip [of v] by (simp add: Canonical_def)

theorem timestamptz_round_trip_witness:
  "\<exists>s. Canonical (-1) = Inr s \<and> Parse s = Some (-1)"
  using timestamptz_round_trip [of "-1"] by (auto simp: InRange_def)

lemma parse_in_range: "Parse s = Some v \<Longrightarrow> InRange v"
  by (auto simp: Parse_def Let_def split: if_splits option.splits)

text \<open>
  Parsing normalises into the profile: whatever offset or fraction a text has, the instant it denotes is accepted only
  inside the profile and can therefore always be rendered again, and re-parsing the rendering is the same instant.
\<close>

theorem parse_normalises:
  assumes "Parse s = Some v"
  shows "InRange v \<and> (\<exists>t. Canonical v = Inr t \<and> Parse t = Some v)"
  using parse_in_range [OF assms] canonical_round_trip [of v] by (simp add: Canonical_def)

theorem parse_normalises_witness:
  "Parse ''2024-02-29T23:30:00.5-01:00'' = Some 1709253000500000 \<and>
   (\<exists>t. Canonical 1709253000500000 = Inr t \<and> Parse t = Some 1709253000500000)"
proof -
  have "Parse ''2024-02-29T23:30:00.5-01:00'' = Some 1709253000500000" by code_simp
  with parse_normalises [OF this] show ?thesis by blast
qed

text \<open>
  The planner and the runtime render timestamps alike: they accept the same range and give the same text.
\<close>

lemma renderers_agree:
  "(IsTimestamptzMicroseconds v \<longleftrightarrow> InRange v) \<and>
   (CanonicalTimestamptz v = Inr s \<longleftrightarrow> Canonical v = Inr s)"
  by (simp add: IsTimestamptzMicroseconds_def InRange_def CanonicalTimestamptz_def Canonical_def)

end
