(* ===== verification/Rate_Limit_Guidance.thy ===== *)
theory Rate_Limit_Guidance
  imports Civil_Time
begin

section \<open>Rate-limit guidance\<close>

text \<open>
  The parser of rate-limit response fields (\<open>src/runtime/resilience/rate_limit_guidance.cpp\<close>): delays in seconds,
  Unix times and the three HTTP date forms, combined into the latest eligible time on the steady
  clock. \<open>int64_t\<close> values are integers with their bounds written out; delays are 64-bit words as in the source.
  An output argument with a success flag is an option. The theorems show the parser equal to a direct
  specification, free of overflow, and inverse to rendering dates.
\<close>

datatype RateLimitGuidanceFormat = RETRY_AFTER | DELTA_SECONDS | UNIX_SECONDS

datatype RateLimitGuidanceReason = NONE | GUIDANCE_MISSING | MALFORMED_GUIDANCE | GUIDANCE_EXCEEDS_POLICY

record guidance_observation =
  canonical_field_name :: string
  guidance_format :: RateLimitGuidanceFormat
  observed_values :: "string list"

record clock_receipt =
  wall_milliseconds :: int
  steady_milliseconds :: int

record guidance_input =
  guidance :: "guidance_observation list"
  date_values :: "string list"
  receipt :: clock_receipt
  maximum_delay_milliseconds :: uint64

record guidance_result =
  reason :: RateLimitGuidanceReason
  eligible_milliseconds :: int
  delay_milliseconds :: uint64
  immediate :: bool

definition Failure :: "RateLimitGuidanceReason \<Rightarrow> guidance_result" where
  "Failure r = \<lparr>reason = r, eligible_milliseconds = 0, delay_milliseconds = 0, immediate = False\<rparr>"

subsection \<open>Numbers and names\<close>

fun decimal_loop :: "uint64 \<Rightarrow> string \<Rightarrow> uint64 \<Rightarrow> uint64 option" where
  "decimal_loop maximum [] parsed = Some parsed"
| "decimal_loop maximum (c # cs) parsed =
     (if \<not> IsAsciiDigit c then None
      else let digit = of_nat (digit_value c)
           in if parsed > (maximum - digit) div 10 then None
              else decimal_loop maximum cs (parsed * 10 + digit))"

definition TryParseDecimal :: "string \<Rightarrow> uint64 \<Rightarrow> uint64 option" where
  "TryParseDecimal s maximum = (if s = [] then None else decimal_loop maximum s 0)"

definition TryParseTwoDigits :: "string \<Rightarrow> nat \<Rightarrow> int option" where
  "TryParseTwoDigits s offset =
     (if offset + 2 > length s \<or> \<not> IsAsciiDigit (s ! offset) \<or> \<not> IsAsciiDigit (s ! (offset + 1)) then None
      else Some (int (digit_value (s ! offset)) * 10 + int (digit_value (s ! (offset + 1)))))"

definition TryParseFourDigits :: "string \<Rightarrow> nat \<Rightarrow> int option" where
  "TryParseFourDigits s offset =
     (if offset + 4 > length s then None
      else let ds = take 4 (drop offset s)
           in if list_ex (\<lambda>c. \<not> IsAsciiDigit c) ds then None
              else Some (foldl (\<lambda>parsed c. parsed * 10 + int (digit_value c)) 0 ds))"

definition month_names :: "string list" where
  "month_names = [''Jan'', ''Feb'', ''Mar'', ''Apr'', ''May'', ''Jun'', ''Jul'', ''Aug'', ''Sep'', ''Oct'', ''Nov'', ''Dec'']"

definition weekday_names :: "string list" where
  "weekday_names = [''Sun'', ''Mon'', ''Tue'', ''Wed'', ''Thu'', ''Fri'', ''Sat'']"

definition long_weekday_names :: "string list" where
  "long_weekday_names = [''Sunday'', ''Monday'', ''Tuesday'', ''Wednesday'', ''Thursday'', ''Friday'', ''Saturday'']"

text \<open>The position of the first matching name, counted from \<open>i\<close>.\<close>

fun find_name :: "(string \<Rightarrow> bool) \<Rightarrow> int \<Rightarrow> string list \<Rightarrow> int option" where
  "find_name matches i [] = None"
| "find_name matches i (w # ws) = (if matches w then Some i else find_name matches (i + 1) ws)"

definition MonthIndex :: "string \<Rightarrow> nat \<Rightarrow> int" where
  "MonthIndex s offset =
     (case find_name (\<lambda>w. take 3 (drop offset s) = w) 0 month_names of None \<Rightarrow> 0 | Some i \<Rightarrow> i + 1)"

definition WeekdayIndex :: "string \<Rightarrow> int" where
  "WeekdayIndex s = (case find_name (\<lambda>w. take 3 s = w) 0 weekday_names of None \<Rightarrow> - 1 | Some i \<Rightarrow> i)"

text \<open>The long name must be followed by a comma; the second component is its length.\<close>

definition LongWeekdayIndex :: "string \<Rightarrow> int \<times> nat" where
  "LongWeekdayIndex s =
     (case find_name (\<lambda>w. length s > length w \<and> take (length w) s = w \<and> s ! length w = CHR '','') 0 long_weekday_names of
        None \<Rightarrow> (- 1, 0)
      | Some i \<Rightarrow> (i, length (long_weekday_names ! nat i)))"

subsection \<open>Civil time\<close>

definition HttpDaysFromCivil :: "int \<Rightarrow> int \<Rightarrow> int \<Rightarrow> int" where
  "HttpDaysFromCivil year month day =
     (let adjusted_year = year - (if month \<le> 2 then 1 else 0);
          era = adjusted_year sdiv 400;
          year_of_era = adjusted_year - era * 400;
          adjusted_month = (if month > 2 then month - 3 else month + 9);
          day_of_year = (153 * adjusted_month + 2) div 5 + day - 1;
          day_of_era = year_of_era * 365 + year_of_era div 4 - year_of_era div 100 + day_of_year
      in era * 146097 + day_of_era - 719468)"

record civil_time =
  civil_year :: int
  civil_month :: int
  civil_day :: int
  civil_hour :: int
  civil_minute :: int
  civil_second :: int

definition TryCivilTimeFromMilliseconds :: "int \<Rightarrow> civil_time option" where
  "TryCivilTimeFromMilliseconds milliseconds =
     (let days = milliseconds sdiv 86400000;
          within_day = milliseconds smod 86400000;
          (days, within_day) = (if within_day < 0 then (days - 1, within_day + 86400000) else (days, within_day));
          (year, month, day) = civil_from_days days
      in if year < 1 \<or> year > 9999 then None
         else Some \<lparr>civil_year = year, civil_month = month, civil_day = day, civil_hour = within_day sdiv 3600000,
                    civil_minute = within_day smod 3600000 sdiv 60000,
                    civil_second = within_day smod 3600000 smod 60000 sdiv 1000\<rparr>)"

definition IsLaterInYear :: "int \<Rightarrow> int \<Rightarrow> int \<Rightarrow> int \<Rightarrow> int \<Rightarrow> civil_time \<Rightarrow> bool" where
  "IsLaterInYear month day hour minute second ref \<longleftrightarrow>
     (if month \<noteq> civil_month ref then month > civil_month ref
      else if day \<noteq> civil_day ref then day > civil_day ref
      else if hour \<noteq> civil_hour ref then hour > civil_hour ref
      else if minute \<noteq> civil_minute ref then minute > civil_minute ref
      else if second \<noteq> civil_second ref then second > civil_second ref
      else False)"

definition TryBuildHttpTimestamp :: "int \<Rightarrow> int \<Rightarrow> int \<Rightarrow> int \<Rightarrow> int \<Rightarrow> int \<Rightarrow> int \<Rightarrow> int option" where
  "TryBuildHttpTimestamp weekday year month day hour minute second =
     (if weekday < 0 \<or> year = 0 \<or> month = 0 \<or> month > 12 \<or> day = 0 \<or> day > DaysInMonth year month \<or>
         hour > 23 \<or> minute > 59 \<or> second > 60
      then None
      else let days = HttpDaysFromCivil year month day;
               computed_weekday = ((days + 4) smod 7 + 7) smod 7
           in if computed_weekday \<noteq> weekday then None
              else Some ((days * 86400 + (hour * 3600 + minute * 60 + second)) * 1000))"

subsection \<open>HTTP dates\<close>

definition TryParseImfFixdate :: "string \<Rightarrow> int option" where
  "TryParseImfFixdate s =
     (if length s \<noteq> 29 \<or> s ! 3 \<noteq> CHR '','' \<or> s ! 4 \<noteq> CHR '' '' \<or> s ! 7 \<noteq> CHR '' '' \<or> s ! 11 \<noteq> CHR '' '' \<or>
         s ! 16 \<noteq> CHR '' '' \<or> s ! 19 \<noteq> CHR '':'' \<or> s ! 22 \<noteq> CHR '':'' \<or> s ! 25 \<noteq> CHR '' '' \<or>
         take 3 (drop 26 s) \<noteq> ''GMT''
      then None
      else let month = MonthIndex s 8; weekday = WeekdayIndex s
           in if weekday < 0 \<or> month = 0 then None
              else case (TryParseTwoDigits s 5, TryParseFourDigits s 12, TryParseTwoDigits s 17,
                         TryParseTwoDigits s 20, TryParseTwoDigits s 23) of
                (Some day, Some year, Some hour, Some minute, Some second) \<Rightarrow>
                  if year = 0 \<or> day = 0 \<or> day > DaysInMonth year month then None
                  else TryBuildHttpTimestamp weekday year month day hour minute second
              | _ \<Rightarrow> None)"

definition resolve_short_year :: "int \<Rightarrow> int \<Rightarrow> int \<Rightarrow> int \<Rightarrow> int \<Rightarrow> int \<Rightarrow> civil_time \<Rightarrow> int" where
  "resolve_short_year short_year month day hour minute second received =
     (let year = (civil_year received sdiv 100) * 100 + short_year;
          year = (if year < civil_year received - 50 then year + 100 else year)
      in if year > civil_year received + 50 \<or>
            year = civil_year received + 50 \<and> IsLaterInYear month day hour minute second received
         then year - 100 else year)"

definition TryParseRfc850Date :: "string \<Rightarrow> int \<Rightarrow> int option" where
  "TryParseRfc850Date s receipt_wall_milliseconds =
     (let (weekday, n) = LongWeekdayIndex s
      in if weekday < 0 \<or> length s \<noteq> n + 24 \<or> s ! (n + 1) \<noteq> CHR '' '' \<or> s ! (n + 4) \<noteq> CHR ''-'' \<or>
            s ! (n + 8) \<noteq> CHR ''-'' \<or> s ! (n + 11) \<noteq> CHR '' '' \<or> s ! (n + 14) \<noteq> CHR '':'' \<or>
            s ! (n + 17) \<noteq> CHR '':'' \<or> s ! (n + 20) \<noteq> CHR '' '' \<or> take 3 (drop (n + 21) s) \<noteq> ''GMT''
         then None
         else let month = MonthIndex s (n + 5)
              in if month = 0 then None
                 else case (TryParseTwoDigits s (n + 2), TryParseTwoDigits s (n + 9), TryParseTwoDigits s (n + 12),
                            TryParseTwoDigits s (n + 15), TryParseTwoDigits s (n + 18),
                            TryCivilTimeFromMilliseconds receipt_wall_milliseconds) of
                   (Some day, Some short_year, Some hour, Some minute, Some second, Some received) \<Rightarrow>
                     (let year = resolve_short_year short_year month day hour minute second received
                      in if year < 1 \<or> year > 9999 then None
                         else TryBuildHttpTimestamp weekday year month day hour minute second)
                 | _ \<Rightarrow> None)"

definition TryParseAsctimeDate :: "string \<Rightarrow> int option" where
  "TryParseAsctimeDate s =
     (if length s \<noteq> 24 \<or> s ! 3 \<noteq> CHR '' '' \<or> s ! 7 \<noteq> CHR '' '' \<or> s ! 10 \<noteq> CHR '' '' \<or> s ! 13 \<noteq> CHR '':'' \<or>
         s ! 16 \<noteq> CHR '':'' \<or> s ! 19 \<noteq> CHR '' ''
      then None
      else let weekday = WeekdayIndex s; month = MonthIndex s 4;
               parsed_day = (if s ! 8 = CHR '' '' \<and> IsAsciiDigit (s ! 9) then Some (int (digit_value (s ! 9)))
                             else TryParseTwoDigits s 8)
           in case parsed_day of
                None \<Rightarrow> None
              | Some day \<Rightarrow>
                  if month = 0 then None
                  else case (TryParseTwoDigits s 11, TryParseTwoDigits s 14, TryParseTwoDigits s 17, TryParseFourDigits s 20) of
                    (Some hour, Some minute, Some second, Some year) \<Rightarrow>
                      TryBuildHttpTimestamp weekday year month day hour minute second
                  | _ \<Rightarrow> None)"

definition TryParseHttpDate :: "string \<Rightarrow> int \<Rightarrow> int option" where
  "TryParseHttpDate s receipt_wall_milliseconds =
     (case TryParseImfFixdate s of
        Some t \<Rightarrow> Some t
      | None \<Rightarrow>
          (case TryParseRfc850Date s receipt_wall_milliseconds of
             Some t \<Rightarrow> Some t
           | None \<Rightarrow> TryParseAsctimeDate s))"

subsection \<open>Combining the guidance\<close>

definition HasDuplicateField :: "guidance_observation list \<Rightarrow> guidance_observation \<Rightarrow> bool" where
  "HasDuplicateField prior observation =
     list_ex (\<lambda>p. canonical_field_name p = canonical_field_name observation) prior"

definition TryAddDelay :: "int \<Rightarrow> uint64 \<Rightarrow> int option" where
  "TryAddDelay steady delay =
     (if uint delay > int64_max \<or> steady > int64_max - uint delay then None else Some (steady + uint delay))"

definition TryAbsoluteDelay :: "int \<Rightarrow> int \<Rightarrow> uint64 option" where
  "TryAbsoluteDelay target ref =
     (if target \<le> ref then Some 0
      else if ref < 0 \<and> target > int64_max + ref then None
      else Some (of_int (target - ref)))"

definition maximum_seconds :: uint64 where
  "maximum_seconds = 9223372036854775807 div 1000"

definition observation_delay :: "guidance_observation \<Rightarrow> string \<Rightarrow> int \<Rightarrow> int \<Rightarrow> uint64 option" where
  "observation_delay observation v wall date_reference =
     (if guidance_format observation = DELTA_SECONDS \<or> guidance_format observation = RETRY_AFTER then
        case TryParseDecimal v maximum_seconds of
          Some seconds \<Rightarrow> Some (seconds * 1000)
        | None \<Rightarrow>
            if guidance_format observation = RETRY_AFTER then
              case TryParseHttpDate v wall of None \<Rightarrow> None | Some target \<Rightarrow> TryAbsoluteDelay target date_reference
            else None
      else
        case TryParseDecimal v maximum_seconds of
          None \<Rightarrow> None
        | Some seconds \<Rightarrow> TryAbsoluteDelay (uint (seconds * 1000)) date_reference)"

text \<open>The loop over the observations: \<open>None\<close> is the malformed result.\<close>

fun guidance_loop ::
  "clock_receipt \<Rightarrow> int \<Rightarrow> guidance_observation list \<Rightarrow> guidance_observation list \<Rightarrow> bool \<times> uint64 \<times> int \<Rightarrow>
   (bool \<times> uint64 \<times> int) option" where
  "guidance_loop r date_reference prior [] acc = Some acc"
| "guidance_loop r date_reference prior (ob # obs) (found, latest_delay, latest_eligible) =
     (if canonical_field_name ob = [] \<or> HasDuplicateField prior ob \<or> length (observed_values ob) > 1 then None
      else case observed_values ob of
        [] \<Rightarrow> guidance_loop r date_reference (prior @ [ob]) obs (found, latest_delay, latest_eligible)
      | v # _ \<Rightarrow>
          (case observation_delay ob v (wall_milliseconds r) date_reference of
             None \<Rightarrow> None
           | Some delay \<Rightarrow>
               (case TryAddDelay (steady_milliseconds r) delay of
                  None \<Rightarrow> None
                | Some eligible \<Rightarrow>
                    guidance_loop r date_reference (prior @ [ob]) obs
                      (if delay > latest_delay then (True, delay, eligible) else (True, latest_delay, latest_eligible)))))"

definition date_reference_of :: "guidance_input \<Rightarrow> int option" where
  "date_reference_of input =
     (if length (date_values input) > 1 then None
      else case date_values input of
        [] \<Rightarrow> Some (wall_milliseconds (receipt input))
      | v # _ \<Rightarrow> TryParseHttpDate v (wall_milliseconds (receipt input)))"

definition ParseRateLimitGuidance :: "guidance_input \<Rightarrow> guidance_result" where
  "ParseRateLimitGuidance input =
     (case date_reference_of input of
        None \<Rightarrow> Failure MALFORMED_GUIDANCE
      | Some date_reference \<Rightarrow>
          (case guidance_loop (receipt input) date_reference [] (guidance input)
                  (False, 0, steady_milliseconds (receipt input)) of
             None \<Rightarrow> Failure MALFORMED_GUIDANCE
           | Some (found, latest_delay, latest_eligible) \<Rightarrow>
               if \<not> found then Failure GUIDANCE_MISSING
               else if latest_delay > maximum_delay_milliseconds input then Failure GUIDANCE_EXCEEDS_POLICY
               else \<lparr>reason = NONE, eligible_milliseconds = latest_eligible, delay_milliseconds = latest_delay,
                     immediate = (latest_delay = 0)\<rparr>))"

subsection \<open>The direct specification\<close>

text \<open>
  The specification computes with integers. Digits spell a number of seconds when its milliseconds fit the clock. Seconds after now are their
  milliseconds; Unix seconds and dates are instants, whose delay is what is left of them at the reference time, which is the date of the response, or
  else the receipt. How a date is read is an argument (\<open>dates\<close>).
  An observation is admissible when it is named, has at most one value, and its value denotes a delay that can be added to the
  steady clock. The result is decided by the largest delay.
\<close>

definition spelled_seconds :: "string \<Rightarrow> int option" where
  "spelled_seconds v =
     (if v \<noteq> [] \<and> list_all IsAsciiDigit v \<and> int (digits_value v) * 1000 \<le> int64_max then Some (int (digits_value v)) else None)"

definition denoted_delay :: "(string \<Rightarrow> int option) \<Rightarrow> RateLimitGuidanceFormat \<Rightarrow> int \<Rightarrow> string \<Rightarrow> int option" where
  "denoted_delay dates f ref v =
     (case f of
        DELTA_SECONDS \<Rightarrow> map_option (\<lambda>n. 1000 * n) (spelled_seconds v)
      | UNIX_SECONDS \<Rightarrow> map_option (\<lambda>n. max 0 (1000 * n - ref)) (spelled_seconds v)
      | RETRY_AFTER \<Rightarrow>
          (case spelled_seconds v of
             Some n \<Rightarrow> Some (1000 * n)
           | None \<Rightarrow> map_option (\<lambda>t. max 0 (t - ref)) (dates v)))"

definition implied_delay :: "(string \<Rightarrow> int option) \<Rightarrow> int \<Rightarrow> guidance_observation \<Rightarrow> int option" where
  "implied_delay dates ref ob = denoted_delay dates (guidance_format ob) ref (hd (observed_values ob))"

definition admissible :: "(string \<Rightarrow> int option) \<Rightarrow> int \<Rightarrow> int \<Rightarrow> guidance_observation \<Rightarrow> bool" where
  "admissible dates steady ref ob \<longleftrightarrow>
     canonical_field_name ob \<noteq> [] \<and> length (observed_values ob) \<le> 1 \<and>
     (observed_values ob \<noteq> [] \<longrightarrow>
       (\<exists>delay. implied_delay dates ref ob = Some delay \<and> delay \<le> int64_max \<and> steady + delay \<le> int64_max))"

definition implied_delays :: "(string \<Rightarrow> int option) \<Rightarrow> int \<Rightarrow> guidance_observation list \<Rightarrow> int list" where
  "implied_delays dates ref obs = map (\<lambda>ob. the (implied_delay dates ref ob)) (filter (\<lambda>ob. observed_values ob \<noteq> []) obs)"

definition reference_time :: "(string \<Rightarrow> int option) \<Rightarrow> guidance_input \<Rightarrow> int option" where
  "reference_time dates input =
     (case date_values input of [] \<Rightarrow> Some (wall_milliseconds (receipt input)) | [v] \<Rightarrow> dates v | _ \<Rightarrow> None)"

definition guidance_spec :: "(string \<Rightarrow> int option) \<Rightarrow> guidance_input \<Rightarrow> guidance_result" where
  "guidance_spec dates input =
     (case reference_time dates input of
        None \<Rightarrow> Failure MALFORMED_GUIDANCE
      | Some ref \<Rightarrow>
          let ds = implied_delays dates ref (guidance input); steady = steady_milliseconds (receipt input)
          in if \<not> (list_all (admissible dates steady ref) (guidance input) \<and> distinct (map canonical_field_name (guidance input)))
             then Failure MALFORMED_GUIDANCE
             else if ds = [] then Failure GUIDANCE_MISSING
             else if Max (set ds) > uint (maximum_delay_milliseconds input) then Failure GUIDANCE_EXCEEDS_POLICY
             else \<lparr>reason = NONE, eligible_milliseconds = steady + Max (set ds),
                   delay_milliseconds = of_int (Max (set ds)), immediate = (Max (set ds) = 0)\<rparr>)"

subsection \<open>The parser meets the specification\<close>

lemma limited_step:
  assumes "d < 10" and "10 \<le> unat (m::uint64)"
  shows "r \<le> (m - of_nat d) div 10 \<longleftrightarrow> unat r * 10 + d \<le> unat m"
proof -
  have "unat (of_nat d :: uint64) = d" using assms(1) by (simp add: unat_of_nat)
  moreover from this have "of_nat d \<le> m" using assms by (simp add: word_facts)
  ultimately have "unat ((m - of_nat d) div 10) = (unat m - d) div 10" by (simp add: unat_div unat_diff_uint64)
  moreover have "n \<le> (unat m - d) div 10 \<longleftrightarrow> n * 10 + d \<le> unat m" for n
    using assms less_eq_div_iff_mult_less_eq [of 10 n "unat m - d"] by auto
  ultimately show ?thesis by (simp add: word_facts)
qed

lemma decimal_loop_value:
  assumes "10 \<le> unat m" and "unat p \<le> unat m"
  shows "decimal_loop m s p =
     (if list_all IsAsciiDigit s \<and> digits_from (unat p) s \<le> unat m then Some (of_nat (digits_from (unat p) s)) else None)"
  using assms(2)
proof (induction s arbitrary: p)
  case (Cons c s)
  show ?case
  proof (cases "IsAsciiDigit c \<and> unat p * 10 + digit_value c \<le> unat m")
    case True
    then have "unat p * 10 + digit_value c \<le> 18446744073709551615" using unat_uint64_bound [of m] by linarith
    note step = decimal_step_value [OF this]
    have "decimal_loop m (c # s) p = decimal_loop m s (p * 10 + of_nat (digit_value c))"
      using True limited_step [of "digit_value c" m p] assms(1) by (simp add: Let_def leD)
    with Cons.IH [of "p * 10 + of_nat (digit_value c)"] True show ?thesis by (simp add: step)
  next
    case False
    with limited_step [of "digit_value c" m p] assms(1) have "decimal_loop m (c # s) p = None" by (auto simp: Let_def not_less)
    with False digits_from_ge [of "unat p * 10 + digit_value c" s] show ?thesis by auto
  qed
qed simp

lemma decimal_seconds: "TryParseDecimal v maximum_seconds = map_option of_int (spelled_seconds v)"
proof -
  have "unat maximum_seconds = 9223372036854775" by (simp add: maximum_seconds_def)
  with decimal_loop_value [of maximum_seconds 0 v] show ?thesis
    by (auto simp: TryParseDecimal_def spelled_seconds_def digits_from_zero int64_max_def)
qed

lemma word_of_delay: "0 \<le> D \<Longrightarrow> D < 18446744073709551616 \<Longrightarrow> uint (of_int D :: uint64) = D"
  by (simp add: uint_word_of_int_eq take_bit_int_eq_self)

lemma seconds_fit:
  assumes "spelled_seconds v = Some n"
  shows "0 \<le> n" "1000 * n \<le> int64_max" "uint (of_int n * 1000 :: uint64) = 1000 * n"
proof -
  show n: "0 \<le> n" "1000 * n \<le> int64_max" using assms by (auto simp: spelled_seconds_def split: if_splits)
  have "uint (of_int (1000 * n) :: uint64) = 1000 * n" using n by (intro word_of_delay) (auto simp: int64_max_def)
  then show "uint (of_int n * 1000 :: uint64) = 1000 * n" by (simp add: mult.commute)
qed

lemma absolute_delay:
  assumes "target \<le> int64_max"
  shows "case TryAbsoluteDelay target ref of None \<Rightarrow> int64_max < max 0 (target - ref) | Some d \<Rightarrow> uint d = max 0 (target - ref)"
  using assms word_of_delay [of "target - ref"] by (auto simp: TryAbsoluteDelay_def int64_max_def)

subsubsection \<open>Dates fit the clock\<close>

lemma timestamp_bound:
  assumes "TryBuildHttpTimestamp weekday year month day hour minute second = Some t" and "0 \<le> year" "year \<le> 9999" "1 \<le> month"
  shows "t \<le> int64_max"
proof -
  define y where "y = year - (if month \<le> 2 then 1 else 0)"
  define am where "am = (if month > 2 then month - 3 else month + 9)"
  define doy where "doy = (153 * am + 2) div 5 + day - 1"
  have b: "year \<noteq> 0" "month \<le> 12" "day \<le> DaysInMonth year month" "hour \<le> 23" "minute \<le> 59" "second \<le> 60"
    and t: "t = (HttpDaysFromCivil year month day * 86400 + (hour * 3600 + minute * 60 + second)) * 1000"
    using assms(1) by (auto simp: TryBuildHttpTimestamp_def Let_def split: if_splits)
  have y: "0 \<le> y" "y \<le> 9999" using assms(2,3) b(1) by (auto simp: y_def)
  define e where "e = y div 400"
  define r where "r = y - e * 400"
  have days: "HttpDaysFromCivil year month day = e * 146097 + (r * 365 + r div 4 - r div 100 + doy) - 719468"
    using y by (simp add: HttpDaysFromCivil_def Let_def sdiv_nonneg y_def [symmetric] am_def [symmetric] doy_def r_def e_def)
  have "day \<le> 31" using b(3) days_in_month_le [of month year] b(2) assms(4) by simp
  moreover have "am \<le> 11" using b(2) by (auto simp: am_def)
  then have "(153 * am + 2) div 5 \<le> 338" by simp
  ultimately have "doy \<le> 368" by (simp add: doy_def)
  moreover have "e \<le> 24" "r \<le> 399" "0 \<le> r" using y by (simp_all add: e_def r_def minus_div_mult_eq_mod)
  moreover from this have "r div 4 \<le> 99" "0 \<le> r div 100" by simp_all
  ultimately have "HttpDaysFromCivil year month day \<le> 5000000" unfolding days by linarith
  then show ?thesis unfolding t int64_max_def using b(4-6) by simp
qed

lemma four_digits_range:
  assumes "TryParseFourDigits s k = Some year"
  shows "0 \<le> year" "year \<le> 9999"
proof -
  from assms have l: "k + 4 \<le> length s" and d: "\<forall>c\<in>set (take 4 (drop k s)). IsAsciiDigit c"
    and y: "year = foldl (\<lambda>parsed c. parsed * 10 + int (digit_value c)) 0 (take 4 (drop k s))"
    by (auto simp: TryParseFourDigits_def Let_def list_ex_iff split: if_splits)
  obtain a b c e where "take 4 (drop k s) = [a, b, c, e]" using list_of_four [of "take 4 (drop k s)"] l by auto
  moreover from this d have "digit_value a < 10" "digit_value b < 10" "digit_value c < 10" "digit_value e < 10" by simp_all
  ultimately show "0 \<le> year" "year \<le> 9999" unfolding y by simp_all
qed

lemma month_nonneg: "0 \<le> MonthIndex s k"
proof -
  have "find_name m i ws = Some j \<Longrightarrow> i \<le> j" for m i j ws
    by (induction ws arbitrary: i) (force split: if_splits)+
  then show ?thesis by (force simp: MonthIndex_def split: option.split)
qed

lemma http_date_bound:
  assumes "TryParseHttpDate v wall = Some t"
  shows "t \<le> int64_max"
proof -
  have month: "1 \<le> MonthIndex s k" if "MonthIndex s k \<noteq> 0" for s k using month_nonneg [of s k] that by simp
  have imf: "t \<le> int64_max" if "TryParseImfFixdate v = Some t"
    using that unfolding TryParseImfFixdate_def Let_def
    by (auto split: if_splits option.splits intro!: timestamp_bound month dest: four_digits_range)
  have rfc: "t \<le> int64_max" if "TryParseRfc850Date v wall = Some t"
    using that unfolding TryParseRfc850Date_def Let_def
    by (auto split: if_splits option.splits prod.splits intro!: timestamp_bound month)
  have asc: "t \<le> int64_max" if "TryParseAsctimeDate v = Some t"
    using that unfolding TryParseAsctimeDate_def Let_def
    by (auto split: if_splits option.splits intro!: timestamp_bound month dest: four_digits_range)
  show ?thesis using assms imf rfc asc by (auto simp: TryParseHttpDate_def split: option.splits)
qed

subsubsection \<open>Delays\<close>

text \<open>The code's delay is the denoted one; where the code has none, nothing is denoted or the delay does not fit.\<close>

lemma observation_delay_denoted:
  "case observation_delay ob v wall ref of
     None \<Rightarrow> (\<forall>D. denoted_delay (\<lambda>v. TryParseHttpDate v wall) (guidance_format ob) ref v = Some D \<longrightarrow> int64_max < D)
   | Some d \<Rightarrow> denoted_delay (\<lambda>v. TryParseHttpDate v wall) (guidance_format ob) ref v = Some (uint d)"
proof (cases "spelled_seconds v")
  case None
  show ?thesis
  proof (cases "guidance_format ob = RETRY_AFTER \<and> TryParseHttpDate v wall \<noteq> None")
    case True
    then obtain t where t: "TryParseHttpDate v wall = Some t" by blast
    from absolute_delay [OF http_date_bound [OF t], of ref] True None t show ?thesis
      by (auto simp: observation_delay_def denoted_delay_def decimal_seconds split: option.splits)
  next
    case False
    with None show ?thesis
      by (cases "guidance_format ob") (auto simp: observation_delay_def denoted_delay_def decimal_seconds)
  qed
next
  case (Some n)
  note fit = seconds_fit [OF Some]
  from absolute_delay [OF fit(2), of ref] fit Some show ?thesis
    by (cases "guidance_format ob")
      (auto simp: observation_delay_def denoted_delay_def decimal_seconds split: option.splits)
qed

lemma TryAddDelay_iff:
  "TryAddDelay steady delay = Some e \<longleftrightarrow> uint delay \<le> int64_max \<and> steady + uint delay \<le> int64_max \<and> e = steady + uint delay"
  by (auto simp: TryAddDelay_def)

lemma fold_max_Max: "ds \<noteq> [] \<Longrightarrow> list_all (\<lambda>d. 0 \<le> d) ds \<Longrightarrow> fold max ds (0 :: int) = Max (set ds)"
proof -
  assume ds: "ds \<noteq> []" "list_all (\<lambda>d. 0 \<le> d) ds"
  have "Max (set (0 # ds)) = fold max ds 0" by (rule Max.set_eq_fold)
  also have "Max (set (0 # ds)) = max 0 (Max (set ds))" using ds(1) by simp
  also have "\<dots> = Max (set ds)" using ds by (auto simp: list_all_iff Max_ge_iff intro!: max_absorb2)
  finally show ?thesis by simp
qed

text \<open>A value is admissible exactly when the code finds a delay for it and can add it.\<close>

lemma admissible_value:
  assumes "observed_values ob = [v]" and "canonical_field_name ob \<noteq> []"
  shows "admissible (\<lambda>v. TryParseHttpDate v wall) steady ref ob \<longleftrightarrow>
    (\<exists>d. observation_delay ob v wall ref = Some d \<and> implied_delay (\<lambda>v. TryParseHttpDate v wall) ref ob = Some (uint d) \<and>
         TryAddDelay steady d = Some (steady + uint d))"
  using observation_delay_denoted [where ob = ob and v = v and wall = wall and ref = ref] assms
  by (auto simp: admissible_def implied_delay_def TryAddDelay_iff split: option.splits)

lemma guidance_loop_spec:
  fixes r :: clock_receipt
  defines "dates \<equiv> \<lambda>v. TryParseHttpDate v (wall_milliseconds r)"
  shows "guidance_loop r ref prior obs (found, d, steady_milliseconds r + uint d) =
     (if list_all (admissible dates (steady_milliseconds r) ref) obs \<and> distinct (map canonical_field_name obs) \<and>
         set (map canonical_field_name prior) \<inter> set (map canonical_field_name obs) = {}
      then let m = fold max (implied_delays dates ref obs) (uint d)
           in Some (found \<or> implied_delays dates ref obs \<noteq> [], of_int m, steady_milliseconds r + m)
      else None)"
proof (induction obs arbitrary: prior found d)
  case Nil
  then show ?case by (simp add: implied_delays_def)
next
  case (Cons ob obs)
  have dup: "HasDuplicateField prior ob \<longleftrightarrow> canonical_field_name ob \<in> set (map canonical_field_name prior)"
    by (auto simp: HasDuplicateField_def list_ex_iff image_iff eq_commute)
  show ?case
  proof (cases "observed_values ob")
    case Nil
    then show ?thesis
      using Cons.IH [of "prior @ [ob]" found d] by (auto simp: dup admissible_def implied_delays_def)
  next
    case (Cons v vs)
    show ?thesis
    proof (cases "vs = [] \<and> canonical_field_name ob \<noteq> []")
      case True
      then have single: "observed_values ob = [v]" "canonical_field_name ob \<noteq> []" using Cons by simp_all
      note adm = admissible_value [OF this, of "wall_milliseconds r" "steady_milliseconds r" ref, folded dates_def]
      show ?thesis
      proof (cases "admissible dates (steady_milliseconds r) ref ob")
        case True
        then obtain delay where delay: "observation_delay ob v (wall_milliseconds r) ref = Some delay"
          "implied_delay dates ref ob = Some (uint delay)" "TryAddDelay (steady_milliseconds r) delay = Some (steady_milliseconds r + uint delay)"
          unfolding adm by blast
        have "guidance_loop r ref (prior @ [ob]) obs
            (if delay > d then (True, delay, steady_milliseconds r + uint delay) else (True, d, steady_milliseconds r + uint d)) =
          guidance_loop r ref (prior @ [ob]) obs (True, max d delay, steady_milliseconds r + uint (max d delay))"
          by (cases "d < delay") (simp_all add: max_def order.strict_implies_order)
        moreover have "uint (max d delay) = max (uint delay) (uint d)" by (simp add: max_def word_le_def)
        ultimately show ?thesis using Cons.IH [of "prior @ [ob]" True "max d delay"] delay True single
          by (auto simp: dup implied_delays_def)
      next
        case False
        have "TryAddDelay (steady_milliseconds r) d = None" if "observation_delay ob v (wall_milliseconds r) ref = Some d" for d
        proof (rule ccontr)
          assume "TryAddDelay (steady_milliseconds r) d \<noteq> None"
          then have "TryAddDelay (steady_milliseconds r) d = Some (steady_milliseconds r + uint d)" by (auto simp: TryAddDelay_def)
          moreover have "implied_delay dates ref ob = Some (uint d)"
            using observation_delay_denoted [where ob = ob and v = v and wall = "wall_milliseconds r" and ref = ref] that single
            by (simp add: implied_delay_def dates_def)
          ultimately show False using False that unfolding adm by blast
        qed
        then have "observation_delay ob v (wall_milliseconds r) ref = None \<or>
            (\<exists>d. observation_delay ob v (wall_milliseconds r) ref = Some d \<and> TryAddDelay (steady_milliseconds r) d = None)" by auto
        with False single show ?thesis by auto
      qed
    next
      case False
      then show ?thesis using Cons by (auto simp: admissible_def)
    qed
  qed
qed

lemma reference_is_date: "reference_time (\<lambda>v. TryParseHttpDate v (wall_milliseconds (receipt input))) input = date_reference_of input"
  by (auto simp: reference_time_def date_reference_of_def split: list.splits)

lemma denoted_delay_nonneg: "denoted_delay dates f ref v = Some D \<Longrightarrow> 0 \<le> D"
  by (cases f) (auto simp: denoted_delay_def spelled_seconds_def split: if_splits option.splits)

lemma admissible_delays:
  assumes "list_all (admissible dates steady ref) obs" and "D \<in> set (implied_delays dates ref obs)"
  shows "0 \<le> D" "D \<le> int64_max" "steady + D \<le> int64_max"
proof -
  from assms obtain ob where "implied_delay dates ref ob = Some D" "D \<le> int64_max" "steady + D \<le> int64_max"
    by (force simp: implied_delays_def list_all_iff admissible_def)
  then show "0 \<le> D" "D \<le> int64_max" "steady + D \<le> int64_max" using denoted_delay_nonneg by (auto simp: implied_delay_def)
qed

lemma guidance_is_spec:
  "ParseRateLimitGuidance input = guidance_spec (\<lambda>v. TryParseHttpDate v (wall_milliseconds (receipt input))) input"
proof (cases "date_reference_of input")
  case (Some ref)
  let ?dates = "\<lambda>v. TryParseHttpDate v (wall_milliseconds (receipt input))"
  let ?ds = "implied_delays ?dates ref (guidance input)" and ?steady = "steady_milliseconds (receipt input)"
  note loop = guidance_loop_spec [of "receipt input" ref "[]" "guidance input" False 0]
  show ?thesis
  proof (cases "list_all (admissible ?dates ?steady ref) (guidance input) \<and> distinct (map canonical_field_name (guidance input)) \<and> ?ds \<noteq> []")
    case True
    note adm = admissible_delays [OF True [THEN conjunct1]]
    have "fold max ?ds 0 = Max (set ?ds)" by (rule fold_max_Max) (use True adm(1) in \<open>auto simp: list_all_iff\<close>)
    moreover have "Max (set ?ds) \<in> set ?ds" using True by simp
    then have w: "uint (of_int (Max (set ?ds)) :: uint64) = Max (set ?ds)" using adm [of "Max (set ?ds)"] by (intro word_of_delay) (auto simp: int64_max_def)
    moreover have "of_int (Max (set ?ds)) = (0 :: uint64) \<longleftrightarrow> Max (set ?ds) = 0" by (metis w of_int_0 unsigned_0)
    ultimately show ?thesis using loop True Some
      by (simp add: ParseRateLimitGuidance_def guidance_spec_def reference_is_date Let_def word_less_def)
  next
    case False
    with loop Some show ?thesis by (auto simp: ParseRateLimitGuidance_def guidance_spec_def reference_is_date Let_def)
  qed
qed (simp add: ParseRateLimitGuidance_def guidance_spec_def reference_is_date)

text \<open>
  C24. The guidance parser is the direct specification, with dates read by \<open>TryParseHttpDate\<close>: it is malformed exactly when a date is malformed or repeated, a field is
  unnamed, repeated or has several values, or a value denotes no delay that fits the steady clock, where digits denote a thousand milliseconds for each second,
  Unix seconds and dates what is left of them after the reference time and nothing when they are past; with no value it
  reports missing guidance; otherwise the largest implied delay decides, and it is refused when it exceeds the policy. An
  accepted eligible time is the receipt time plus that delay, with no overflow.
\<close>

theorem guidance_meets_spec:
  "ParseRateLimitGuidance input = guidance_spec (\<lambda>v. TryParseHttpDate v (wall_milliseconds (receipt input))) input \<and>
   (reason (ParseRateLimitGuidance input) = NONE \<longrightarrow>
      (let result = ParseRateLimitGuidance input
       in eligible_milliseconds result = steady_milliseconds (receipt input) + uint (delay_milliseconds result) \<and>
          eligible_milliseconds result \<le> int64_max \<and>
          delay_milliseconds result \<le> maximum_delay_milliseconds input \<and>
          (immediate result \<longleftrightarrow> delay_milliseconds result = 0)))"
proof (intro conjI impI)
  let ?dates = "\<lambda>v. TryParseHttpDate v (wall_milliseconds (receipt input))" and ?steady = "steady_milliseconds (receipt input)"
  show "ParseRateLimitGuidance input = guidance_spec ?dates input" by (rule guidance_is_spec)
  assume none: "reason (ParseRateLimitGuidance input) = NONE"
  then obtain ref where ref: "reference_time ?dates input = Some ref"
    by (auto simp: guidance_is_spec guidance_spec_def Failure_def split: option.splits)
  let ?ds = "implied_delays ?dates ref (guidance input)"
  define M where "M = Max (set ?ds)"
  have "ParseRateLimitGuidance input =
     (if \<not> (list_all (admissible ?dates ?steady ref) (guidance input) \<and> distinct (map canonical_field_name (guidance input)))
      then Failure MALFORMED_GUIDANCE
      else if ?ds = [] then Failure GUIDANCE_MISSING
      else if M > uint (maximum_delay_milliseconds input) then Failure GUIDANCE_EXCEEDS_POLICY
      else \<lparr>reason = NONE, eligible_milliseconds = ?steady + M, delay_milliseconds = of_int M, immediate = (M = 0)\<rparr>)"
    by (simp only: guidance_is_spec guidance_spec_def ref option.case Let_def M_def)
  with none have ds: "?ds \<noteq> []" and adm: "list_all (admissible ?dates ?steady ref) (guidance input)"
    and policy: "M \<le> uint (maximum_delay_milliseconds input)"
    and eq: "ParseRateLimitGuidance input =
      \<lparr>reason = NONE, eligible_milliseconds = ?steady + M, delay_milliseconds = of_int M, immediate = (M = 0)\<rparr>"
    by (auto simp: Failure_def split: if_splits)
  have "M \<in> set ?ds" using ds by (simp add: M_def)
  note M = admissible_delays [OF adm this]
  have w: "uint (of_int M :: uint64) = M" using M by (intro word_of_delay) (auto simp: int64_max_def)
  have "of_int M = (0 :: uint64) \<longleftrightarrow> M = 0" by (metis w of_int_0 unsigned_0)
  with w eq policy M(3) show "let result = ParseRateLimitGuidance input
       in eligible_milliseconds result = ?steady + uint (delay_milliseconds result) \<and>
          eligible_milliseconds result \<le> int64_max \<and>
          delay_milliseconds result \<le> maximum_delay_milliseconds input \<and>
          (immediate result \<longleftrightarrow> delay_milliseconds result = 0)"
    by (simp add: word_le_def)
qed

theorem guidance_meets_spec_witness:
  "let input = \<lparr>guidance = [\<lparr>canonical_field_name = ''retry-after'', guidance_format = RETRY_AFTER, observed_values = [''7'']\<rparr>],
       date_values = [], receipt = \<lparr>wall_milliseconds = 0, steady_milliseconds = 40\<rparr>, maximum_delay_milliseconds = 60000\<rparr>
   in reason (ParseRateLimitGuidance input) = NONE \<and> eligible_milliseconds (ParseRateLimitGuidance input) \<le> int64_max"
proof -
  let ?input = "\<lparr>guidance = [\<lparr>canonical_field_name = ''retry-after'', guidance_format = RETRY_AFTER, observed_values = [''7'']\<rparr>],
       date_values = [], receipt = \<lparr>wall_milliseconds = 0, steady_milliseconds = 40\<rparr>, maximum_delay_milliseconds = 60000\<rparr>"
  have "reason (ParseRateLimitGuidance ?input) = NONE" by code_simp
  with guidance_meets_spec [of ?input] show ?thesis unfolding Let_def by blast
qed

subsection \<open>Rendering and parsing dates\<close>

lemma smod_weekday: "((n + 4) smod 7 + 7) smod 7 = (n + 4 :: int) mod 7"
proof -
  let ?a = "n + 4"
  have "?a smod 7 = (if ?a mod 7 = 0 then 0 else if ?a \<ge> 0 then ?a mod 7 else ?a mod 7 - 7)"
    using floor_quotient [of 7 ?a] by (auto simp: signed_modulo_int_def sgn_if zmod_zminus1_eq_if split: if_splits)
  then consider (1) "?a smod 7 = 0" "?a mod 7 = 0" | (2) "?a smod 7 = ?a mod 7" | (3) "?a smod 7 = ?a mod 7 - 7"
    by (auto split: if_splits)
  then show ?thesis
  proof cases
    case 2
    define b where "b = ?a mod 7"
    have "0 \<le> b" "b < 7" by (auto simp: b_def)
    then have "(b + 7) smod 7 = b" by (simp add: signed_modulo_int_def sgn_if int_mod_pos_eq [of "b + 7" 7 1 b])
    with 2 show ?thesis by (simp add: b_def)
  next
    case 3
    define b where "b = ?a mod 7"
    have "0 \<le> b" "b < 7" by (auto simp: b_def)
    then have "b smod 7 = b" by (simp add: signed_modulo_int_def sgn_if)
    with 3 show ?thesis by (simp add: b_def)
  next
    case 1
    then show ?thesis by (simp only: add_0 minus_mod_self1) (simp add: signed_modulo_int_def)
  qed
qed

lemma http_days: "1 \<le> year \<Longrightarrow> HttpDaysFromCivil year month day = DaysFromCivil year month day"
  by (simp add: HttpDaysFromCivil_def DaysFromCivil_def)

lemma find_name_nth:
  assumes "distinct ws" and "k < length ws"
  shows "find_name (\<lambda>w. ws ! k = w) i ws = Some (i + int k)"
  using assms
proof (induction ws arbitrary: i k)
  case (Cons w ws)
  then show ?case by (cases k) (auto simp: nth_eq_iff_index_eq)
qed simp

definition weekday_of :: "int \<Rightarrow> nat" where
  "weekday_of days = nat ((days + 4) mod 7)"

definition imf_text :: "int \<Rightarrow> int \<Rightarrow> int \<Rightarrow> int \<Rightarrow> int \<Rightarrow> int \<Rightarrow> string" where
  "imf_text year month day hour minute second =
     weekday_names ! weekday_of (DaysFromCivil year month day) @ '', '' @ fixed_digits 2 (nat day) @ '' '' @
     month_names ! nat (month - 1) @ '' '' @ fixed_digits 4 (nat year) @ '' '' @ fixed_digits 2 (nat hour) @ '':'' @
     fixed_digits 2 (nat minute) @ '':'' @ fixed_digits 2 (nat second) @ '' GMT''"

lemma weekday_name: "k < 7 \<Longrightarrow> \<exists>a b c. weekday_names ! k = [a, b, c]"
  by (auto simp: weekday_names_def less_Suc_eq numeral_eq_Suc)

lemma month_name: "k < 12 \<Longrightarrow> \<exists>a b c. month_names ! k = [a, b, c]"
  by (auto simp: month_names_def less_Suc_eq numeral_eq_Suc)

lemma imf_positions:
  fixes w1 w2 w3 d1 d2 m1 m2 m3 y1 y2 y3 y4 h1 h2 n1 n2 s1 s2 :: char and s :: string
  assumes s: "s = [w1, w2, w3] @ '', '' @ [d1, d2] @ '' '' @ [m1, m2, m3] @ '' '' @ [y1, y2, y3, y4] @ '' '' @ [h1, h2] @ '':'' @
    [n1, n2] @ '':'' @ [s1, s2] @ '' GMT''"
  shows "length s = 29" "s ! 3 = CHR '',''" "s ! 4 = CHR '' ''" "s ! 7 = CHR '' ''" "s ! 11 = CHR '' ''" "s ! 16 = CHR '' ''"
    "s ! 19 = CHR '':''" "s ! 22 = CHR '':''" "s ! 25 = CHR '' ''" "take 3 (drop 26 s) = ''GMT''"
    and "take 3 s = [w1, w2, w3]" "take 3 (drop 8 s) = [m1, m2, m3]"
    and "IsAsciiDigit d1 \<Longrightarrow> IsAsciiDigit d2 \<Longrightarrow> TryParseTwoDigits s 5 = Some (int (digits_value [d1, d2]))"
    "IsAsciiDigit h1 \<Longrightarrow> IsAsciiDigit h2 \<Longrightarrow> TryParseTwoDigits s 17 = Some (int (digits_value [h1, h2]))"
    "IsAsciiDigit n1 \<Longrightarrow> IsAsciiDigit n2 \<Longrightarrow> TryParseTwoDigits s 20 = Some (int (digits_value [n1, n2]))"
    "IsAsciiDigit s1 \<Longrightarrow> IsAsciiDigit s2 \<Longrightarrow> TryParseTwoDigits s 23 = Some (int (digits_value [s1, s2]))"
    "IsAsciiDigit y1 \<Longrightarrow> IsAsciiDigit y2 \<Longrightarrow> IsAsciiDigit y3 \<Longrightarrow> IsAsciiDigit y4 \<Longrightarrow>
      TryParseFourDigits s 12 = Some (int (digits_value [y1, y2, y3, y4]))"
  by (simp_all add: s TryParseTwoDigits_def TryParseFourDigits_def digits_value_def eval_nat_numeral)

lemma asctime_positions:
  fixes w1 w2 w3 d1 d2 m1 m2 m3 y1 y2 y3 y4 h1 h2 n1 n2 s1 s2 :: char and s :: string
  assumes s: "s = [w1, w2, w3] @ '' '' @ [m1, m2, m3] @ '' '' @ [d1, d2] @ '' '' @ [h1, h2] @ '':'' @
    [n1, n2] @ '':'' @ [s1, s2] @ '' '' @ [y1, y2, y3, y4]"
  shows "length s = 24" "s ! 3 = CHR '' ''" "s ! 7 = CHR '' ''" "s ! 10 = CHR '' ''" "s ! 13 = CHR '':''" "s ! 16 = CHR '':''"
    "s ! 19 = CHR '' ''"
    and "take 3 s = [w1, w2, w3]" "take 3 (drop 4 s) = [m1, m2, m3]" "s ! 8 = d1" "s ! 9 = d2"
    and "IsAsciiDigit d1 \<Longrightarrow> IsAsciiDigit d2 \<Longrightarrow> TryParseTwoDigits s 8 = Some (int (digits_value [d1, d2]))"
    "IsAsciiDigit h1 \<Longrightarrow> IsAsciiDigit h2 \<Longrightarrow> TryParseTwoDigits s 11 = Some (int (digits_value [h1, h2]))"
    "IsAsciiDigit n1 \<Longrightarrow> IsAsciiDigit n2 \<Longrightarrow> TryParseTwoDigits s 14 = Some (int (digits_value [n1, n2]))"
    "IsAsciiDigit s1 \<Longrightarrow> IsAsciiDigit s2 \<Longrightarrow> TryParseTwoDigits s 17 = Some (int (digits_value [s1, s2]))"
    "IsAsciiDigit y1 \<Longrightarrow> IsAsciiDigit y2 \<Longrightarrow> IsAsciiDigit y3 \<Longrightarrow> IsAsciiDigit y4 \<Longrightarrow>
      TryParseFourDigits s 20 = Some (int (digits_value [y1, y2, y3, y4]))"
  by (simp_all add: s TryParseTwoDigits_def TryParseFourDigits_def digits_value_def eval_nat_numeral)

definition asctime_day :: "int \<Rightarrow> string" where
  "asctime_day day = (if day < 10 then '' '' @ fixed_digits 1 (nat day) else fixed_digits 2 (nat day))"

definition asctime_text :: "int \<Rightarrow> int \<Rightarrow> int \<Rightarrow> int \<Rightarrow> int \<Rightarrow> int \<Rightarrow> string" where
  "asctime_text year month day hour minute second =
     weekday_names ! weekday_of (DaysFromCivil year month day) @ '' '' @ month_names ! nat (month - 1) @ '' '' @
     asctime_day day @ '' '' @ fixed_digits 2 (nat hour) @ '':'' @ fixed_digits 2 (nat minute) @ '':'' @
     fixed_digits 2 (nat second) @ '' '' @ fixed_digits 4 (nat year)"

definition http_fields_ok :: "int \<Rightarrow> int \<Rightarrow> int \<Rightarrow> int \<Rightarrow> int \<Rightarrow> int \<Rightarrow> bool" where
  "http_fields_ok year month day hour minute second \<longleftrightarrow>
     valid_date (year, month, day) \<and> 1 \<le> year \<and> year \<le> 9999 \<and> 0 \<le> hour \<and> hour \<le> 23 \<and> 0 \<le> minute \<and> minute \<le> 59 \<and>
     0 \<le> second \<and> second \<le> 60"

definition http_instant :: "int \<Rightarrow> int \<Rightarrow> int \<Rightarrow> int \<Rightarrow> int \<Rightarrow> int \<Rightarrow> int" where
  "http_instant year month day hour minute second =
     (DaysFromCivil year month day * 86400 + (hour * 3600 + minute * 60 + second)) * 1000"

lemma http_fields_bounds:
  assumes "http_fields_ok year month day hour minute second"
  shows "0 \<le> year" "year < 10 ^ 4" "0 \<le> day" "day < 10 ^ 2" "0 \<le> hour" "hour < 10 ^ 2"
    "0 \<le> minute" "minute < 10 ^ 2" "0 \<le> second" "second < 10 ^ 2" and "1 \<le> month" "month \<le> 12" "1 \<le> day"
    "day \<le> DaysInMonth year month"
  using assms days_in_month_le [of month year] by (auto simp: http_fields_ok_def valid_date_def)

lemma weekday_less: "weekday_of n < 7"
proof -
  have "(n + 4) mod 7 < 7" "0 \<le> (n + 4) mod 7" by simp_all
  then show ?thesis unfolding weekday_of_def by (simp only: nat_less_iff)
qed

lemma weekday_index: "take 3 s = weekday_names ! weekday_of n \<Longrightarrow> WeekdayIndex s = (n + 4) mod 7"
proof -
  assume s: "take 3 s = weekday_names ! weekday_of n"
  have "find_name (\<lambda>w. weekday_names ! weekday_of n = w) 0 weekday_names = Some (0 + int (weekday_of n))"
    by (rule find_name_nth) (use weekday_less [of n] in \<open>simp_all add: weekday_names_def\<close>)
  then show ?thesis by (simp add: WeekdayIndex_def s weekday_of_def)
qed

lemma month_index:
  assumes "take 3 (drop offset s) = month_names ! nat (month - 1)" and "1 \<le> month" "month \<le> 12"
  shows "MonthIndex s offset = month"
proof -
  have "find_name (\<lambda>w. month_names ! nat (month - 1) = w) 0 month_names = Some (0 + int (nat (month - 1)))"
    by (rule find_name_nth) (use assms(2,3) in \<open>auto simp: month_names_def\<close>)
  then show ?thesis using assms(2) by (simp add: MonthIndex_def assms(1))
qed

lemma build_timestamp:
  assumes "http_fields_ok year month day hour minute second"
  shows "TryBuildHttpTimestamp ((DaysFromCivil year month day + 4) mod 7) year month day hour minute second =
    Some (http_instant year month day hour minute second)"
proof -
  have "\<not> ((DaysFromCivil year month day + 4) mod 7 < 0 \<or> year = 0 \<or> month = 0 \<or> month > 12 \<or> day = 0 \<or>
     day > DaysInMonth year month \<or> hour > 23 \<or> minute > 59 \<or> second > 60)"
    using assms http_fields_bounds [OF assms] by (auto simp: http_fields_ok_def)
  moreover have "HttpDaysFromCivil year month day = DaysFromCivil year month day"
    using assms by (intro http_days) (simp add: http_fields_ok_def)
  ultimately show ?thesis
    by (simp only: TryBuildHttpTimestamp_def Let_def smod_weekday http_instant_def if_False simp_thms)
qed

lemma rendered_fields:
  assumes ok: "http_fields_ok year month day hour minute second"
  obtains w1 w2 w3 m1 m2 m3 y1 y2 y3 y4 h1 h2 n1 n2 s1 s2 where
    "weekday_names ! weekday_of (DaysFromCivil year month day) = [w1, w2, w3]"
    "month_names ! nat (month - 1) = [m1, m2, m3]"
    "fixed_digits 4 (nat year) = [y1, y2, y3, y4]" "fixed_digits 2 (nat hour) = [h1, h2]"
    "fixed_digits 2 (nat minute) = [n1, n2]" "fixed_digits 2 (nat second) = [s1, s2]"
    "int (digits_value [y1, y2, y3, y4]) = year" "int (digits_value [h1, h2]) = hour"
    "int (digits_value [n1, n2]) = minute" "int (digits_value [s1, s2]) = second"
    "IsAsciiDigit y1" "IsAsciiDigit y2" "IsAsciiDigit y3" "IsAsciiDigit y4" "IsAsciiDigit h1" "IsAsciiDigit h2"
    "IsAsciiDigit n1" "IsAsciiDigit n2" "IsAsciiDigit s1" "IsAsciiDigit s2"
proof -
  note b = http_fields_bounds [OF ok]
  obtain w1 w2 w3 where W: "weekday_names ! weekday_of (DaysFromCivil year month day) = [w1, w2, w3]"
    using weekday_name [OF weekday_less] by blast
  have "nat (month - 1) < 12" using b(11,12) by auto
  then obtain m1 m2 m3 where M: "month_names ! nat (month - 1) = [m1, m2, m3]" using month_name by blast
  obtain y1 y2 y3 y4 where Y: "fixed_digits 4 (nat year) = [y1, y2, y3, y4]" "IsAsciiDigit y1" "IsAsciiDigit y2"
    "IsAsciiDigit y3" "IsAsciiDigit y4" using fixed_four by blast
  obtain h1 h2 where H: "fixed_digits 2 (nat hour) = [h1, h2]" "IsAsciiDigit h1" "IsAsciiDigit h2" using fixed_two by blast
  obtain n1 n2 where N: "fixed_digits 2 (nat minute) = [n1, n2]" "IsAsciiDigit n1" "IsAsciiDigit n2" using fixed_two by blast
  obtain s1 s2 where S: "fixed_digits 2 (nat second) = [s1, s2]" "IsAsciiDigit s1" "IsAsciiDigit s2" using fixed_two by blast
  show ?thesis
    by (rule that [OF W M Y(1) H(1) N(1) S(1) digits_fixed [OF b(1,2), unfolded Y(1)] digits_fixed [OF b(5,6), unfolded H(1)]
          digits_fixed [OF b(7,8), unfolded N(1)] digits_fixed [OF b(9,10), unfolded S(1)] Y(2-5) H(2,3) N(2,3) S(2,3)])
qed

lemma imf_parses:
  assumes ok: "http_fields_ok year month day hour minute second"
  shows "TryParseImfFixdate (imf_text year month day hour minute second) = Some (http_instant year month day hour minute second)"
proof (rule rendered_fields [OF ok])
  fix w1 w2 w3 m1 m2 m3 y1 y2 y3 y4 h1 h2 n1 n2 s1 s2
  assume W: "weekday_names ! weekday_of (DaysFromCivil year month day) = [w1, w2, w3]"
    and M: "month_names ! nat (month - 1) = [m1, m2, m3]"
    and texts: "fixed_digits 4 (nat year) = [y1, y2, y3, y4]" "fixed_digits 2 (nat hour) = [h1, h2]"
      "fixed_digits 2 (nat minute) = [n1, n2]" "fixed_digits 2 (nat second) = [s1, s2]"
    and vals: "int (digits_value [y1, y2, y3, y4]) = year" "int (digits_value [h1, h2]) = hour"
      "int (digits_value [n1, n2]) = minute" "int (digits_value [s1, s2]) = second"
    and dig: "IsAsciiDigit y1" "IsAsciiDigit y2" "IsAsciiDigit y3" "IsAsciiDigit y4" "IsAsciiDigit h1" "IsAsciiDigit h2"
      "IsAsciiDigit n1" "IsAsciiDigit n2" "IsAsciiDigit s1" "IsAsciiDigit s2"
  note b = http_fields_bounds [OF ok]
  obtain d1 d2 where D: "fixed_digits 2 (nat day) = [d1, d2]" "IsAsciiDigit d1" "IsAsciiDigit d2" using fixed_two by blast
  let ?s = "imf_text year month day hour minute second"
  have s: "?s = [w1, w2, w3] @ '', '' @ [d1, d2] @ '' '' @ [m1, m2, m3] @ '' '' @ [y1, y2, y3, y4] @ '' '' @ [h1, h2] @ '':'' @
    [n1, n2] @ '':'' @ [s1, s2] @ '' GMT''"
    unfolding imf_text_def W M D(1) texts ..
  note pos = imf_positions [OF s]
  note fields = pos(13) [OF D(2,3)] pos(14) [OF dig(5,6)] pos(15) [OF dig(7,8)] pos(16) [OF dig(9,10)] pos(17) [OF dig(1-4)]
  have wd: "WeekdayIndex ?s = (DaysFromCivil year month day + 4) mod 7" by (rule weekday_index) (simp only: pos(11) W)
  have mo: "MonthIndex ?s 8 = month" by (rule month_index) (simp_all only: pos(12) M b)
  have guards: "\<not> ((DaysFromCivil year month day + 4) mod 7 < 0 \<or> month = 0)" "\<not> (year = 0 \<or> day = 0 \<or> day > DaysInMonth year month)"
    using b ok by (auto simp: http_fields_ok_def)
  show ?thesis
    unfolding TryParseImfFixdate_def pos(1-10) Let_def wd mo fields vals digits_fixed [OF b(3,4), unfolded D(1)]
      prod.case option.case build_timestamp [OF ok]
    using guards by (simp only: if_False simp_thms)
qed

lemma asctime_day_cases:
  assumes "1 \<le> day" "day < 100"
  obtains d1 d2 where "asctime_day day = [d1, d2]"
    "(if d1 = CHR '' '' \<and> IsAsciiDigit d2 then Some (int (digit_value d2))
      else if IsAsciiDigit d1 \<and> IsAsciiDigit d2 then Some (int (digits_value [d1, d2])) else None) = Some day"
proof (cases "day < 10")
  case True
  have "nat day mod 10 = nat day" using True assms by simp
  moreover have "digit_value (digit_char (nat day)) = nat day" "IsAsciiDigit (digit_char (nat day))"
    using True assms by simp_all
  ultimately show ?thesis using True assms that [of "CHR '' ''" "digit_char (nat day)"] by (simp add: asctime_day_def)
next
  case False
  obtain d1 d2 where D: "fixed_digits 2 (nat day) = [d1, d2]" "IsAsciiDigit d1" "IsAsciiDigit d2" using fixed_two by blast
  have "\<not> IsAsciiDigit CHR '' ''" by code_simp
  then have "d1 \<noteq> CHR '' ''" using D(2) by metis
  moreover have "int (digits_value [d1, d2]) = day" using assms digits_fixed [of day 2] D(1) by simp
  ultimately show ?thesis using False that [of d1 d2] D by (simp add: asctime_day_def)
qed

lemma asctime_parses:
  assumes ok: "http_fields_ok year month day hour minute second"
  shows "TryParseAsctimeDate (asctime_text year month day hour minute second) = Some (http_instant year month day hour minute second) \<and>
    length (asctime_text year month day hour minute second) = 24 \<and> asctime_text year month day hour minute second ! 3 = CHR '' ''"
proof (rule rendered_fields [OF ok])
  fix w1 w2 w3 m1 m2 m3 y1 y2 y3 y4 h1 h2 n1 n2 s1 s2
  assume W: "weekday_names ! weekday_of (DaysFromCivil year month day) = [w1, w2, w3]"
    and M: "month_names ! nat (month - 1) = [m1, m2, m3]"
    and texts: "fixed_digits 4 (nat year) = [y1, y2, y3, y4]" "fixed_digits 2 (nat hour) = [h1, h2]"
      "fixed_digits 2 (nat minute) = [n1, n2]" "fixed_digits 2 (nat second) = [s1, s2]"
    and vals: "int (digits_value [y1, y2, y3, y4]) = year" "int (digits_value [h1, h2]) = hour"
      "int (digits_value [n1, n2]) = minute" "int (digits_value [s1, s2]) = second"
    and dig: "IsAsciiDigit y1" "IsAsciiDigit y2" "IsAsciiDigit y3" "IsAsciiDigit y4" "IsAsciiDigit h1" "IsAsciiDigit h2"
      "IsAsciiDigit n1" "IsAsciiDigit n2" "IsAsciiDigit s1" "IsAsciiDigit s2"
  note b = http_fields_bounds [OF ok]
  obtain d1 d2 where D: "asctime_day day = [d1, d2]"
    "(if d1 = CHR '' '' \<and> IsAsciiDigit d2 then Some (int (digit_value d2))
      else if IsAsciiDigit d1 \<and> IsAsciiDigit d2 then Some (int (digits_value [d1, d2])) else None) = Some day"
    using asctime_day_cases [of day] b(4,13) by auto
  let ?s = "asctime_text year month day hour minute second"
  have s: "?s = [w1, w2, w3] @ '' '' @ [m1, m2, m3] @ '' '' @ [d1, d2] @ '' '' @ [h1, h2] @ '':'' @
    [n1, n2] @ '':'' @ [s1, s2] @ '' '' @ [y1, y2, y3, y4]"
    unfolding asctime_text_def W M D(1) texts ..
  note pos = asctime_positions [OF s]
  note fields = pos(13) [OF dig(5,6)] pos(14) [OF dig(7,8)] pos(15) [OF dig(9,10)] pos(16) [OF dig(1-4)]
  have wd: "WeekdayIndex ?s = (DaysFromCivil year month day + 4) mod 7" by (rule weekday_index) (simp only: pos(8) W)
  have mo: "MonthIndex ?s 4 = month" by (rule month_index) (simp_all only: pos(9) M b)
  have day: "(if d1 = CHR '' '' \<and> IsAsciiDigit d2 then Some (int (digit_value d2)) else TryParseTwoDigits ?s 8) = Some day"
    using D(2) pos(12) by (simp split: if_splits)
  have guard: "month \<noteq> 0" using b(11) by simp
  show ?thesis
    unfolding TryParseAsctimeDate_def pos(1-7,10,11) Let_def wd mo day fields vals prod.case option.case build_timestamp [OF ok]
    using guard by (simp only: if_False simp_thms)
qed

lemma find_name_None: "(\<And>w. w \<in> set ws \<Longrightarrow> \<not> matches w) \<Longrightarrow> find_name matches i ws = None"
  by (induction ws arbitrary: i) simp_all

lemma short_names_not_long:
  assumes "s ! 3 = CHR '' ''"
  shows "LongWeekdayIndex s = (- 1, 0)"
proof -
  have "take (length w) s \<noteq> w" if "w \<in> set long_weekday_names" for w
  proof
    assume eq: "take (length w) s = w"
    have "3 < length w" "w ! 3 \<noteq> CHR '' ''" using that by (auto simp: long_weekday_names_def)
    moreover from this eq have "w ! 3 = s ! 3" by (metis nth_take)
    ultimately show False using assms by simp
  qed
  then show ?thesis unfolding LongWeekdayIndex_def by (subst find_name_None) auto
qed

text \<open>
  C25. Dates are read as they are written: the IMF-fixdate and the asctime rendering of any valid date and time of the
  years 1 to 9999 (leap second included) both parse, whatever the receipt time, to the millisecond count of that instant.
\<close>

theorem http_date_round_trip:
  assumes "http_fields_ok year month day hour minute second"
  shows "TryParseHttpDate (imf_text year month day hour minute second) wall = Some (http_instant year month day hour minute second) \<and>
    TryParseHttpDate (asctime_text year month day hour minute second) wall = Some (http_instant year month day hour minute second)"
proof -
  let ?s = "asctime_text year month day hour minute second"
  note a = asctime_parses [OF assms]
  have "TryParseImfFixdate ?s = None" using a by (simp add: TryParseImfFixdate_def)
  moreover have "LongWeekdayIndex ?s = (- 1, 0)" by (rule short_names_not_long) (simp add: a)
  then have "TryParseRfc850Date ?s wall = None" by (simp add: TryParseRfc850Date_def)
  ultimately show ?thesis using a imf_parses [OF assms] by (simp add: TryParseHttpDate_def)
qed

theorem http_date_round_trip_witness:
  "imf_text 1994 11 6 8 49 37 = ''Sun, 06 Nov 1994 08:49:37 GMT'' \<and> asctime_text 1994 11 6 8 49 37 = ''Sun Nov  6 08:49:37 1994'' \<and>
   TryParseHttpDate ''Sun, 06 Nov 1994 08:49:37 GMT'' 0 = Some 784111777000 \<and>
   TryParseHttpDate ''Sun Nov  6 08:49:37 1994'' 0 = Some 784111777000"
proof -
  have ok: "http_fields_ok 1994 11 6 8 49 37" and imf: "imf_text 1994 11 6 8 49 37 = ''Sun, 06 Nov 1994 08:49:37 GMT''"
    and asc: "asctime_text 1994 11 6 8 49 37 = ''Sun Nov  6 08:49:37 1994''"
    and t: "http_instant 1994 11 6 8 49 37 = 784111777000" by code_simp+
  from http_date_round_trip [OF ok, of 0] show ?thesis unfolding imf asc t by simp
qed

end
