(* ===== verification/Admission_Keys.thy ===== *)
theory Admission_Keys
  imports Quota_Bucket_Key
begin

section \<open>Admission identities and counted keys\<close>

text \<open>
  Who asks for capacity, and the tables that count it (\<open>src/runtime/admission/admission_controller.cpp\<close>): principal tokens,
  admission identities, bulkhead keys with their equality and hash, and the vectors of counted keys. The
  one implementation of the opaque identity interface is the credential identity of the executor
  (\<open>src/runtime/executor/http_scan_executor.cpp\<close>). \<open>std::hash\<close> is a parameter. The locale
  \<open>counted_keys\<close> reads a vector of counted keys as a function from what the keys mean to their count and shows
  what each operation does to it; it is interpreted for the four kinds of key.
\<close>

datatype AdmissionDirectPrincipal = BEARER | CREDENTIAL

datatype AdmissionProtocol = REST | GRAPHQL

datatype AdmissionPrincipalToken =
  ANONYMOUS_PRINCIPAL | DIRECT_PRINCIPAL AdmissionDirectPrincipal | OPAQUE_AUTHORITY credential_identity

record admission_destination =
  ad_scheme :: string
  ad_host :: string
  ad_explicit_port :: uint16

record admission_identity =
  ai_connector_id :: string
  ai_destination :: admission_destination
  ai_complete :: bool
  ai_relation_id :: string
  ai_protocol :: AdmissionProtocol
  ai_operation_id :: string
  ai_principal :: AdmissionPrincipalToken

record bulkhead_key =
  bk_connector_id :: string
  bk_destination :: admission_destination
  bk_relation_id :: string
  bk_protocol :: AdmissionProtocol
  bk_operation_id :: string
  bk_principal :: AdmissionPrincipalToken

record admission_hash = std_hash +
  hash_uint8 :: "8 word \<Rightarrow> uint64"
  hash_type_tag :: "unit \<Rightarrow> uint64"

subsection \<open>Principals and identities\<close>

definition AdmissionTypeTag :: "credential_identity \<Rightarrow> unit" where
  "AdmissionTypeTag i = ()"

definition AdmissionEquals :: "credential_identity \<Rightarrow> credential_identity \<Rightarrow> bool" where
  "AdmissionEquals i other \<longleftrightarrow> AdmissionTypeTag other = AdmissionTypeTag i \<and> authority_bytes i = authority_bytes other"

definition AdmissionIdentityHash :: "credential_identity \<Rightarrow> uint64" where
  "AdmissionIdentityHash i = HashIdentity (authority_bytes i)"

definition AdmissionAnonymous :: AdmissionPrincipalToken where
  "AdmissionAnonymous = ANONYMOUS_PRINCIPAL"

definition AdmissionDirect :: "AdmissionDirectPrincipal \<Rightarrow> AdmissionPrincipalToken" where
  "AdmissionDirect p = DIRECT_PRINCIPAL p"

text \<open>A null pointer is refused; the one implementation always has a type tag.\<close>

definition AdmissionOpaque :: "credential_identity option \<Rightarrow> cpp_exception + AdmissionPrincipalToken" where
  "AdmissionOpaque identity =
     (case identity of
        None \<Rightarrow> Inl (invalid_argument ''opaque admission principal identity must be complete'')
      | Some i \<Rightarrow> Inr (OPAQUE_AUTHORITY i))"

fun direct_tag :: "AdmissionDirectPrincipal \<Rightarrow> 8 word" where
  "direct_tag BEARER = 0"
| "direct_tag CREDENTIAL = 1"

definition CombineHash :: "uint64 \<Rightarrow> uint64 \<Rightarrow> uint64" where
  "CombineHash l r = xor l (r + 0x9e3779b9 + push_bit 6 l + drop_bit 2 l)"

fun token_hash :: "'a admission_hash_scheme \<Rightarrow> AdmissionPrincipalToken \<Rightarrow> uint64" where
  "token_hash h ANONYMOUS_PRINCIPAL = 0"
| "token_hash h (DIRECT_PRINCIPAL p) = hash_uint8 h (direct_tag p)"
| "token_hash h (OPAQUE_AUTHORITY i) = CombineHash (hash_type_tag h (AdmissionTypeTag i)) (AdmissionIdentityHash i)"

fun token_equal :: "AdmissionPrincipalToken \<Rightarrow> AdmissionPrincipalToken \<Rightarrow> bool" where
  "token_equal ANONYMOUS_PRINCIPAL ANONYMOUS_PRINCIPAL \<longleftrightarrow> True"
| "token_equal (DIRECT_PRINCIPAL l) (DIRECT_PRINCIPAL r) \<longleftrightarrow> direct_tag l = direct_tag r"
| "token_equal (OPAQUE_AUTHORITY l) (OPAQUE_AUTHORITY r) \<longleftrightarrow>
     l = r \<or> AdmissionTypeTag l = AdmissionTypeTag r \<and> AdmissionEquals l r"
| "token_equal _ _ \<longleftrightarrow> False"

definition new_AdmissionIdentity ::
  "string \<Rightarrow> admission_destination \<Rightarrow> bool \<Rightarrow> string \<Rightarrow> AdmissionProtocol \<Rightarrow> string \<Rightarrow> AdmissionPrincipalToken \<Rightarrow>
   cpp_exception + admission_identity" where
  "new_AdmissionIdentity connector dest complete relation protocol operation_id princ =
     (if connector = [] \<or> ad_scheme dest = [] \<or> ad_host dest = [] \<or> ad_explicit_port dest = 0 \<or>
         complete \<and> (relation = [] \<or> operation_id = [])
      then Inl (invalid_argument ''admission identity must contain bounded admitted facts'')
      else Inr \<lparr>ai_connector_id = connector, ai_destination = dest, ai_complete = complete, ai_relation_id = relation,
                ai_protocol = protocol, ai_operation_id = operation_id, ai_principal = princ\<rparr>)"

definition AdmissionPreliminary :: "string \<Rightarrow> admission_destination \<Rightarrow> cpp_exception + admission_identity" where
  "AdmissionPreliminary connector dest = new_AdmissionIdentity connector dest False [] REST [] AdmissionAnonymous"

definition AdmissionComplete ::
  "string \<Rightarrow> admission_destination \<Rightarrow> string \<Rightarrow> AdmissionProtocol \<Rightarrow> string \<Rightarrow> AdmissionPrincipalToken \<Rightarrow>
   cpp_exception + admission_identity" where
  "AdmissionComplete connector dest relation protocol operation_id princ =
     new_AdmissionIdentity connector dest True relation protocol operation_id princ"

definition UsesPrincipal :: "admission_identity \<Rightarrow> bool" where
  "UsesPrincipal identity \<longleftrightarrow>
     ai_complete identity \<and> (case ai_principal identity of OPAQUE_AUTHORITY _ \<Rightarrow> True | _ \<Rightarrow> False)"

definition DestinationEqual :: "admission_destination \<Rightarrow> admission_destination \<Rightarrow> bool" where
  "DestinationEqual l r \<longleftrightarrow>
     ad_scheme l = ad_scheme r \<and> ad_host l = ad_host r \<and> ad_explicit_port l = ad_explicit_port r"

definition destination_hash :: "'a admission_hash_scheme \<Rightarrow> admission_destination \<Rightarrow> uint64" where
  "destination_hash h key =
     CombineHash (CombineHash (hash_string h (ad_scheme key)) (hash_string h (ad_host key)))
       (hash_uint16 h (ad_explicit_port key))"

fun protocol_tag :: "AdmissionProtocol \<Rightarrow> 8 word" where
  "protocol_tag REST = 0"
| "protocol_tag GRAPHQL = 1"

definition ToBulkhead :: "admission_identity \<Rightarrow> bulkhead_key" where
  "ToBulkhead identity =
     \<lparr>bk_connector_id = ai_connector_id identity, bk_destination = ai_destination identity,
      bk_relation_id = ai_relation_id identity, bk_protocol = ai_protocol identity,
      bk_operation_id = ai_operation_id identity, bk_principal = ai_principal identity\<rparr>"

definition BulkheadHash :: "'a admission_hash_scheme \<Rightarrow> admission_identity \<Rightarrow> uint64" where
  "BulkheadHash h identity =
     (let r = hash_string h (ai_connector_id identity);
          r = CombineHash r (destination_hash h (ai_destination identity));
          r = CombineHash r (hash_string h (ai_relation_id identity));
          r = CombineHash r (hash_uint8 h (protocol_tag (ai_protocol identity)));
          r = CombineHash r (hash_string h (ai_operation_id identity))
      in CombineHash r (token_hash h (ai_principal identity)))"

definition BulkheadEqual :: "bulkhead_key \<Rightarrow> admission_identity \<Rightarrow> bool" where
  "BulkheadEqual key identity \<longleftrightarrow>
     bk_connector_id key = ai_connector_id identity \<and> DestinationEqual (bk_destination key) (ai_destination identity) \<and>
     bk_relation_id key = ai_relation_id identity \<and> bk_protocol key = ai_protocol identity \<and>
     bk_operation_id key = ai_operation_id identity \<and> token_equal (bk_principal key) (ai_principal identity)"

subsection \<open>Vectors of counted keys\<close>

record 'k key_count =
  entry_hash :: uint64
  entry_key :: 'k
  entry_count :: uint64

fun count_where :: "('k key_count \<Rightarrow> bool) \<Rightarrow> 'k key_count list \<Rightarrow> uint64" where
  "count_where same [] = 0"
| "count_where same (e # es) = (if same e then entry_count e else count_where same es)"

fun add_where :: "('k key_count \<Rightarrow> bool) \<Rightarrow> uint64 \<Rightarrow> 'k \<Rightarrow> uint64 \<Rightarrow> 'k key_count list \<Rightarrow> 'k key_count list" where
  "add_where same hash key amount [] = [\<lparr>entry_hash = hash, entry_key = key, entry_count = amount\<rparr>]"
| "add_where same hash key amount (e # es) =
     (if same e then e\<lparr>entry_count := entry_count e + amount\<rparr> # es else e # add_where same hash key amount es)"

fun subtract_where :: "('k key_count \<Rightarrow> bool) \<Rightarrow> uint64 \<Rightarrow> 'k key_count list \<Rightarrow> 'k key_count list" where
  "subtract_where same amount [] = []"
| "subtract_where same amount (e # es) =
     (if same e then
        let e' = e\<lparr>entry_count := entry_count e - amount\<rparr>
        in if entry_count e' = 0 then es else e' # es
      else e # subtract_where same amount es)"

definition CountFor :: "('k \<Rightarrow> 'k \<Rightarrow> bool) \<Rightarrow> ('k \<Rightarrow> uint64) \<Rightarrow> 'k key_count list \<Rightarrow> 'k \<Rightarrow> uint64" where
  "CountFor eq KeyHash counts key = count_where (\<lambda>e. entry_hash e = KeyHash key \<and> eq (entry_key e) key) counts"

definition AddCount ::
  "('k \<Rightarrow> 'k \<Rightarrow> bool) \<Rightarrow> ('k \<Rightarrow> uint64) \<Rightarrow> 'k key_count list \<Rightarrow> 'k \<Rightarrow> uint64 \<Rightarrow> 'k key_count list" where
  "AddCount eq KeyHash counts key amount =
     add_where (\<lambda>e. entry_hash e = KeyHash key \<and> eq (entry_key e) key) (KeyHash key) key amount counts"

definition SubtractCount ::
  "('k \<Rightarrow> 'k \<Rightarrow> bool) \<Rightarrow> ('k \<Rightarrow> uint64) \<Rightarrow> 'k key_count list \<Rightarrow> 'k \<Rightarrow> uint64 \<Rightarrow> 'k key_count list" where
  "SubtractCount eq KeyHash counts key amount =
     subtract_where (\<lambda>e. entry_hash e = KeyHash key \<and> eq (entry_key e) key) amount counts"

definition CountForBulkhead :: "'a admission_hash_scheme \<Rightarrow> bulkhead_key key_count list \<Rightarrow> admission_identity \<Rightarrow> uint64" where
  "CountForBulkhead h counts identity =
     count_where (\<lambda>e. entry_hash e = BulkheadHash h identity \<and> BulkheadEqual (entry_key e) identity) counts"

definition AddBulkheadCount ::
  "'a admission_hash_scheme \<Rightarrow> bulkhead_key key_count list \<Rightarrow> admission_identity \<Rightarrow> uint64 \<Rightarrow> bulkhead_key key_count list" where
  "AddBulkheadCount h counts identity amount =
     add_where (\<lambda>e. entry_hash e = BulkheadHash h identity \<and> BulkheadEqual (entry_key e) identity)
       (BulkheadHash h identity) (ToBulkhead identity) amount counts"

definition SubtractBulkheadCount ::
  "'a admission_hash_scheme \<Rightarrow> bulkhead_key key_count list \<Rightarrow> admission_identity \<Rightarrow> uint64 \<Rightarrow> bulkhead_key key_count list" where
  "SubtractBulkheadCount h counts identity amount =
     subtract_where (\<lambda>e. entry_hash e = BulkheadHash h identity \<and> BulkheadEqual (entry_key e) identity) amount counts"

subsection \<open>What a vector of counted keys means\<close>

definition tally :: "('k \<Rightarrow> 'v) \<Rightarrow> 'k key_count list \<Rightarrow> 'v \<Rightarrow> nat" where
  "tally meaning counts v =
     (case map_of (map (\<lambda>e. (meaning (entry_key e), unat (entry_count e))) counts) v of None \<Rightarrow> 0 | Some n \<Rightarrow> n)"

definition counts_ok :: "('k \<Rightarrow> uint64) \<Rightarrow> ('k \<Rightarrow> 'v) \<Rightarrow> 'k key_count list \<Rightarrow> bool" where
  "counts_ok KeyHash meaning counts \<longleftrightarrow>
     distinct (map (meaning \<circ> entry_key) counts) \<and>
     (\<forall>e\<in>set counts. entry_hash e = KeyHash (entry_key e) \<and> entry_count e \<noteq> 0)"

lemma tally_Nil [simp]: "tally meaning [] v = 0"
  by (simp add: tally_def)

lemma tally_Cons [simp]:
  "tally meaning (e # es) v = (if v = meaning (entry_key e) then unat (entry_count e) else tally meaning es v)"
  by (simp add: tally_def)

lemma counts_ok_Nil [simp]: "counts_ok KeyHash meaning []"
  by (simp add: counts_ok_def)

lemma counts_ok_Cons [simp]:
  "counts_ok KeyHash meaning (e # es) \<longleftrightarrow>
     meaning (entry_key e) \<notin> (meaning \<circ> entry_key) ` set es \<and> entry_hash e = KeyHash (entry_key e) \<and> entry_count e \<noteq> 0 \<and>
     counts_ok KeyHash meaning es"
  by (auto simp: counts_ok_def)

lemma tally_absent: "v \<notin> (meaning \<circ> entry_key) ` set es \<Longrightarrow> tally meaning es v = 0"
  by (induction es) auto

lemma tally_zero: "counts_ok KeyHash meaning counts \<Longrightarrow> (\<And>v. tally meaning counts v = 0) \<Longrightarrow> counts = []"
proof (cases counts)
  case (Cons e es)
  assume "counts_ok KeyHash meaning counts" "\<And>v. tally meaning counts v = 0"
  from this(2) [of "meaning (entry_key e)"] this(1) Cons show ?thesis by (simp add: unat_eq_zero)
qed

locale counted_keys =
  fixes eq :: "'k \<Rightarrow> 'k \<Rightarrow> bool" and KeyHash :: "'k \<Rightarrow> uint64" and meaning :: "'k \<Rightarrow> 'v"
  assumes eq_meaning: "eq l r \<longleftrightarrow> meaning l = meaning r"
    and hash_same: "meaning l = meaning r \<Longrightarrow> KeyHash l = KeyHash r"
begin

lemma same_entry:
  assumes "counts_ok KeyHash meaning counts" "e \<in> set counts"
  shows "entry_hash e = KeyHash key \<and> eq (entry_key e) key \<longleftrightarrow> meaning (entry_key e) = meaning key"
proof -
  have "entry_hash e = KeyHash (entry_key e)" using assms by (simp add: counts_ok_def)
  then show ?thesis using hash_same [of "entry_key e" key] eq_meaning [of "entry_key e" key] by metis
qed

lemma count_tally: "counts_ok KeyHash meaning counts \<Longrightarrow> unat (CountFor eq KeyHash counts key) = tally meaning counts (meaning key)"
  unfolding CountFor_def by (induction counts) (auto simp: eq_meaning dest: hash_same)

lemma add_keys:
  "(meaning \<circ> entry_key) ` set (AddCount eq KeyHash counts key amount) \<subseteq> insert (meaning key) ((meaning \<circ> entry_key) ` set counts)"
  unfolding AddCount_def by (induction counts) auto

lemma add_ok:
  assumes "counts_ok KeyHash meaning counts" and "amount \<noteq> 0" and "tally meaning counts (meaning key) + unat amount < 2 ^ 64"
  shows "counts_ok KeyHash meaning (AddCount eq KeyHash counts key amount)"
  using assms
proof (induction counts)
  case (Cons e es)
  show ?case
  proof (cases "meaning (entry_key e) = meaning key")
    case True
    then have "unat (entry_count e + amount) = unat (entry_count e) + unat amount"
      using Cons.prems(3) by (simp add: unat_word_ariths)
    then have "entry_count e + amount \<noteq> 0" using Cons.prems(2) by (metis add_is_0 unat_0 unat_eq_zero)
    moreover have "AddCount eq KeyHash (e # es) key amount = e\<lparr>entry_count := entry_count e + amount\<rparr> # es"
      using True Cons.prems(1) same_entry [OF Cons.prems(1), of e key] by (simp add: AddCount_def)
    ultimately show ?thesis using Cons.prems(1) by simp
  next
    case False
    then have "AddCount eq KeyHash (e # es) key amount = e # AddCount eq KeyHash es key amount"
      by (simp add: AddCount_def eq_meaning)
    with False Cons add_keys [of es key amount] show ?thesis by auto
  qed
qed (simp add: AddCount_def)

lemma add_tally:
  assumes "counts_ok KeyHash meaning counts" and "tally meaning counts (meaning key) + unat amount < 2 ^ 64"
  shows "tally meaning (AddCount eq KeyHash counts key amount) v =
    tally meaning counts v + (if v = meaning key then unat amount else 0)"
  using assms unfolding AddCount_def
  by (induction counts) (auto simp: eq_meaning unat_word_ariths dest: hash_same)

lemma subtract_keys:
  "(meaning \<circ> entry_key) ` set (SubtractCount eq KeyHash counts key amount) \<subseteq> (meaning \<circ> entry_key) ` set counts"
  unfolding SubtractCount_def by (induction counts) (auto simp: Let_def)

lemma subtract_ok:
  "counts_ok KeyHash meaning counts \<Longrightarrow> counts_ok KeyHash meaning (SubtractCount eq KeyHash counts key amount)"
proof (induction counts)
  case (Cons e es)
  show ?case
  proof (cases "entry_hash e = KeyHash key \<and> eq (entry_key e) key")
    case True
    with Cons.prems show ?thesis by (auto simp: SubtractCount_def Let_def)
  next
    case False
    then have "SubtractCount eq KeyHash (e # es) key amount = e # SubtractCount eq KeyHash es key amount"
      by (auto simp: SubtractCount_def)
    with Cons subtract_keys [of es key amount] show ?thesis by auto
  qed
qed (simp add: SubtractCount_def)

lemma subtract_tally:
  assumes "counts_ok KeyHash meaning counts" and "unat amount \<le> tally meaning counts (meaning key)"
  shows "tally meaning (SubtractCount eq KeyHash counts key amount) v =
    tally meaning counts v - (if v = meaning key then unat amount else 0)"
  using assms unfolding SubtractCount_def
proof (induction counts)
  case (Cons e es)
  show ?case
  proof (cases "meaning (entry_key e) = meaning key")
    case True
    then have "amount \<le> entry_count e" using Cons.prems by (simp add: word_le_nat_alt)
    then have "unat (entry_count e - amount) = unat (entry_count e) - unat amount" by (rule unat_sub)
    with True Cons.prems show ?thesis
      by (auto simp: eq_meaning Let_def tally_absent unat_eq_zero dest: hash_same simp flip: unat_eq_0)
  next
    case False
    with Cons show ?thesis by (auto simp: eq_meaning)
  qed
qed simp

end

subsection \<open>The four kinds of key\<close>

fun token_meaning :: "AdmissionPrincipalToken \<Rightarrow> 8 word list option + AdmissionDirectPrincipal" where
  "token_meaning ANONYMOUS_PRINCIPAL = Inl None"
| "token_meaning (DIRECT_PRINCIPAL p) = Inr p"
| "token_meaning (OPAQUE_AUTHORITY i) = Inl (Some (authority_bytes i))"

definition bulkhead_meaning ::
  "bulkhead_key \<Rightarrow> string \<times> admission_destination \<times> string \<times> AdmissionProtocol \<times> string \<times> (8 word list option + AdmissionDirectPrincipal)" where
  "bulkhead_meaning key = (bk_connector_id key, bk_destination key, bk_relation_id key, bk_protocol key, bk_operation_id key,
     token_meaning (bk_principal key))"

text \<open>The bulkhead operations look an identity up; they are the generic ones on its bulkhead key.\<close>

definition identity_of :: "bulkhead_key \<Rightarrow> admission_identity" where
  "identity_of key =
     \<lparr>ai_connector_id = bk_connector_id key, ai_destination = bk_destination key, ai_complete = True,
      ai_relation_id = bk_relation_id key, ai_protocol = bk_protocol key, ai_operation_id = bk_operation_id key,
      ai_principal = bk_principal key\<rparr>"

definition bulkhead_equal :: "bulkhead_key \<Rightarrow> bulkhead_key \<Rightarrow> bool" where
  "bulkhead_equal l r = BulkheadEqual l (identity_of r)"

definition bulkhead_hash :: "'a admission_hash_scheme \<Rightarrow> bulkhead_key \<Rightarrow> uint64" where
  "bulkhead_hash h key = BulkheadHash h (identity_of key)"

lemma bulkhead_generic:
  "CountForBulkhead h counts identity = CountFor bulkhead_equal (bulkhead_hash h) counts (ToBulkhead identity)"
  "AddBulkheadCount h counts identity amount = AddCount bulkhead_equal (bulkhead_hash h) counts (ToBulkhead identity) amount"
  "SubtractBulkheadCount h counts identity amount =
     SubtractCount bulkhead_equal (bulkhead_hash h) counts (ToBulkhead identity) amount"
  by (simp_all add: CountForBulkhead_def AddBulkheadCount_def SubtractBulkheadCount_def CountFor_def AddCount_def
      SubtractCount_def bulkhead_equal_def bulkhead_hash_def identity_of_def ToBulkhead_def BulkheadEqual_def BulkheadHash_def)

interpretation admission_credential: opaque_identity AdmissionTypeTag AdmissionEquals AdmissionIdentityHash authority_bytes
  by unfold_locales (simp_all add: AdmissionTypeTag_def AdmissionEquals_def AdmissionIdentityHash_def)

lemma token_equal_iff: "token_equal l r \<longleftrightarrow> token_meaning l = token_meaning r"
proof -
  have "direct_tag p = direct_tag q \<longleftrightarrow> p = q" for p q by (cases p; cases q) simp_all
  moreover have "token_equal (OPAQUE_AUTHORITY i) (OPAQUE_AUTHORITY j) \<longleftrightarrow> authority_bytes i = authority_bytes j" for i j
    unfolding token_equal.simps by (rule admission_credential.same_identity)
  ultimately show ?thesis by (cases l; cases r) (simp_all del: token_equal.simps(3))
qed

lemma token_hash_cong: "token_meaning l = token_meaning r \<Longrightarrow> token_hash h l = token_hash h r"
  by (cases l; cases r) (auto simp: AdmissionTypeTag_def dest: admission_credential.hash_meaning)

lemma destination_equal_iff: "DestinationEqual l r \<longleftrightarrow> l = r"
  by (cases l; cases r) (simp add: DestinationEqual_def)

interpretation connector_counts: counted_keys "(=)" "hash_string h" "\<lambda>k. k" for h :: "'a admission_hash_scheme"
  by unfold_locales simp_all

interpretation destination_counts: counted_keys DestinationEqual "destination_hash h" "\<lambda>k. k" for h :: "'a admission_hash_scheme"
  by unfold_locales (simp_all add: destination_equal_iff)

interpretation principal_counts: counted_keys token_equal "token_hash h" token_meaning for h :: "'a admission_hash_scheme"
  by unfold_locales (simp only: token_equal_iff, rule token_hash_cong)

interpretation bulkhead_counts: counted_keys bulkhead_equal "bulkhead_hash h" bulkhead_meaning for h :: "'a admission_hash_scheme"
proof
  fix l r :: bulkhead_key
  show "bulkhead_equal l r \<longleftrightarrow> bulkhead_meaning l = bulkhead_meaning r"
    by (simp add: bulkhead_equal_def BulkheadEqual_def identity_of_def bulkhead_meaning_def destination_equal_iff token_equal_iff)
  assume "bulkhead_meaning l = bulkhead_meaning r"
  then show "bulkhead_hash h l = bulkhead_hash h r"
    using token_hash_cong [of "bk_principal l" "bk_principal r" h]
    by (simp add: bulkhead_hash_def BulkheadHash_def identity_of_def bulkhead_meaning_def Let_def)
qed

end
