(* ===== verification/Admission_Controller.thy ===== *)
theory Admission_Controller
  imports Admission_Keys
begin

section \<open>The admission controller\<close>

text \<open>
  The capacity authority of one executor (\<open>src/runtime/admission/admission_controller.cpp\<close>). Every resource (scans, requests,
  waiters, buffered bytes, \<open>\<dots>\<close>) is counted globally and per connector, destination, principal and bulkhead, and a request
  for it is admitted only if it fits all of them; scans, requests and credential resolutions may wait in
  bounded queues. Each critical section under the controller's mutex is one definition: the entry of an acquisition, one turn of
  its waiting loop, the rollback of its handler, releases, resizes and closing. What the source asks the clock, the
  cancellation and the test hook is an argument. A ticket object is known by its queue and ordinal; a granted ticket
  leaves the queue and is kept in \<open>detached\<close>, where only its waiter still refers to it. The absent queue kind is \<open>None\<close>. Allocation
  failure inside \<open>AddUsage\<close> and \<open>push_back\<close> is not modelled.
\<close>

datatype AdmissionReason =
  NO_REASON | CREDENTIAL_RESOLUTION_QUEUE_SATURATED | CREDENTIAL_RESOLUTION_QUEUE_TIMEOUT | SCAN_QUEUE_SATURATED |
  SCAN_QUEUE_TIMEOUT | REQUEST_QUEUE_SATURATED | REQUEST_QUEUE_TIMEOUT | ADMISSION_WAITING_EXHAUSTED |
  RETRY_WAIT_SATURATED | RATE_LIMIT_WAIT_SATURATED | BUFFERED_BYTES_EXHAUSTED | BUFFERED_ROWS_EXHAUSTED |
  CACHE_RESIDENT_BYTES_EXHAUSTED | RUNTIME_CLOSED | TICKET_EXHAUSTED

datatype AdmissionScope = NO_SCOPE | GLOBAL | CONNECTOR | DESTINATION | PRINCIPAL | BULKHEAD

datatype AdmissionAcquireStatus = ACQUIRED | REJECTED | CANCELLED | SCAN_DEADLINE_REACHED

datatype ResourceKind =
  CREDENTIAL_RESOLUTION | ACTIVE_SCAN | REQUEST | RETRY_WAITER | RATE_LIMIT_WAITER | BUFFERED_BYTES | BUFFERED_ROWS |
  CACHE_RESIDENT_BYTES

datatype QueueKind = CREDENTIAL_RESOLUTION_QUEUE | SCAN_QUEUE | REQUEST_QUEUE

record dimension_limits =
  dl_global :: uint64
  dl_connector :: uint64
  dl_destination :: uint64
  dl_principal :: uint64
  dl_bulkhead :: uint64

record admission_profile =
  pf_credential_resolutions :: dimension_limits
  pf_queued_credential_resolutions :: dimension_limits
  pf_active_scans :: dimension_limits
  pf_in_flight_requests :: dimension_limits
  pf_queued_scan_admissions :: dimension_limits
  pf_queued_request_admissions :: dimension_limits
  pf_retry_waiters :: dimension_limits
  pf_rate_limit_waiters :: dimension_limits
  pf_buffered_bytes :: dimension_limits
  pf_buffered_rows :: dimension_limits
  pf_cache_resident_bytes :: dimension_limits
  pf_provider_queue_timeout :: uint64
  pf_scan_queue_timeout :: uint64
  pf_request_queue_timeout :: uint64
  pf_aggregate_request_waiting :: uint64
  pf_interrupt_slice :: uint64

record admission_wait_policy =
  queue_deadline :: int
  has_aggregate_deadline :: bool
  aggregate_deadline :: int
  has_scan_deadline :: bool
  scan_deadline :: int

record admission_observation =
  ob_reason :: AdmissionReason
  ob_scope :: AdmissionScope
  ob_limit :: uint64
  ob_observed :: uint64
  ob_requested :: uint64
  ob_waited_milliseconds :: uint64
  ob_waiting :: bool

record admission_counters =
  cn_global :: uint64
  cn_connectors :: "string key_count list"
  cn_destinations :: "admission_destination key_count list"
  cn_principals :: "AdmissionPrincipalToken key_count list"
  cn_bulkheads :: "bulkhead_key key_count list"

record admission_ticket =
  tk_resource :: ResourceKind
  tk_queue :: QueueKind
  tk_identity :: admission_identity
  tk_ordinal :: uint64
  tk_wait :: admission_wait_policy
  tk_started :: int
  tk_granted_at :: int
  tk_granted :: bool
  tk_last_blocking :: admission_observation

record admission_permit =
  pm_resource :: ResourceKind
  pm_identity :: admission_identity
  pm_amount :: uint64

record admission_state =
  terminal_reason :: AdmissionReason
  next_ticket :: "QueueKind \<Rightarrow> uint64"
  profile :: admission_profile
  resources :: "ResourceKind \<Rightarrow> admission_counters"
  queues :: "QueueKind \<Rightarrow> admission_counters"
  tickets :: "admission_ticket list"
  detached :: "admission_ticket list"

subsection \<open>Limits\<close>

definition dims :: "uint64 \<Rightarrow> uint64 \<Rightarrow> uint64 \<Rightarrow> uint64 \<Rightarrow> uint64 \<Rightarrow> dimension_limits" where
  "dims g c d p b = \<lparr>dl_global = g, dl_connector = c, dl_destination = d, dl_principal = p, dl_bulkhead = b\<rparr>"

definition HardProfile :: admission_profile where
  "HardProfile =
     \<lparr>pf_credential_resolutions = dims 16 8 8 0 0, pf_queued_credential_resolutions = dims 64 16 16 0 0,
      pf_active_scans = dims 64 16 16 8 4, pf_in_flight_requests = dims 32 8 8 4 2,
      pf_queued_scan_admissions = dims 256 64 64 32 16, pf_queued_request_admissions = dims 256 64 64 32 16,
      pf_retry_waiters = dims 32 16 16 8 4, pf_rate_limit_waiters = dims 32 16 16 8 4,
      pf_buffered_bytes = dims (256 * 1024 * 1024) (128 * 1024 * 1024) (128 * 1024 * 1024) (64 * 1024 * 1024) (32 * 1024 * 1024),
      pf_buffered_rows = dims 6400 3200 3200 1600 800,
      pf_cache_resident_bytes =
        dims (64 * 1024 * 1024) (32 * 1024 * 1024) (32 * 1024 * 1024) (32 * 1024 * 1024) (32 * 1024 * 1024),
      pf_provider_queue_timeout = 1000, pf_scan_queue_timeout = 1000, pf_request_queue_timeout = 1000,
      pf_aggregate_request_waiting = 5000, pf_interrupt_slice = 5\<rparr>"

fun ResourceLimits :: "admission_profile \<Rightarrow> ResourceKind \<Rightarrow> dimension_limits" where
  "ResourceLimits p CREDENTIAL_RESOLUTION = pf_credential_resolutions p"
| "ResourceLimits p ACTIVE_SCAN = pf_active_scans p"
| "ResourceLimits p REQUEST = pf_in_flight_requests p"
| "ResourceLimits p RETRY_WAITER = pf_retry_waiters p"
| "ResourceLimits p RATE_LIMIT_WAITER = pf_rate_limit_waiters p"
| "ResourceLimits p BUFFERED_BYTES = pf_buffered_bytes p"
| "ResourceLimits p BUFFERED_ROWS = pf_buffered_rows p"
| "ResourceLimits p CACHE_RESIDENT_BYTES = pf_cache_resident_bytes p"

fun QueueLimits :: "admission_profile \<Rightarrow> QueueKind \<Rightarrow> dimension_limits" where
  "QueueLimits p CREDENTIAL_RESOLUTION_QUEUE = pf_queued_credential_resolutions p"
| "QueueLimits p SCAN_QUEUE = pf_queued_scan_admissions p"
| "QueueLimits p REQUEST_QUEUE = pf_queued_request_admissions p"

fun SaturatedReason :: "QueueKind \<Rightarrow> AdmissionReason" where
  "SaturatedReason CREDENTIAL_RESOLUTION_QUEUE = CREDENTIAL_RESOLUTION_QUEUE_SATURATED"
| "SaturatedReason SCAN_QUEUE = SCAN_QUEUE_SATURATED"
| "SaturatedReason REQUEST_QUEUE = REQUEST_QUEUE_SATURATED"

fun TimeoutReason :: "QueueKind \<Rightarrow> AdmissionReason" where
  "TimeoutReason CREDENTIAL_RESOLUTION_QUEUE = CREDENTIAL_RESOLUTION_QUEUE_TIMEOUT"
| "TimeoutReason SCAN_QUEUE = SCAN_QUEUE_TIMEOUT"
| "TimeoutReason REQUEST_QUEUE = REQUEST_QUEUE_TIMEOUT"

definition ValidateDimension :: "dimension_limits \<Rightarrow> dimension_limits \<Rightarrow> bool" where
  "ValidateDimension v hard \<longleftrightarrow>
     dl_global v \<le> dl_global hard \<and> dl_connector v \<le> dl_connector hard \<and> dl_destination v \<le> dl_destination hard \<and>
     dl_principal v \<le> dl_principal hard \<and> dl_bulkhead v \<le> dl_bulkhead hard"

definition ValidateAdmissionProfile :: "admission_profile \<Rightarrow> bool" where
  "ValidateAdmissionProfile p \<longleftrightarrow>
     ValidateDimension (pf_credential_resolutions p) (pf_credential_resolutions HardProfile) \<and>
     ValidateDimension (pf_queued_credential_resolutions p) (pf_queued_credential_resolutions HardProfile) \<and>
     ValidateDimension (pf_active_scans p) (pf_active_scans HardProfile) \<and>
     ValidateDimension (pf_in_flight_requests p) (pf_in_flight_requests HardProfile) \<and>
     ValidateDimension (pf_queued_scan_admissions p) (pf_queued_scan_admissions HardProfile) \<and>
     ValidateDimension (pf_queued_request_admissions p) (pf_queued_request_admissions HardProfile) \<and>
     ValidateDimension (pf_retry_waiters p) (pf_retry_waiters HardProfile) \<and>
     ValidateDimension (pf_rate_limit_waiters p) (pf_rate_limit_waiters HardProfile) \<and>
     ValidateDimension (pf_buffered_bytes p) (pf_buffered_bytes HardProfile) \<and>
     ValidateDimension (pf_buffered_rows p) (pf_buffered_rows HardProfile) \<and>
     ValidateDimension (pf_cache_resident_bytes p) (pf_cache_resident_bytes HardProfile) \<and>
     pf_provider_queue_timeout p \<le> pf_provider_queue_timeout HardProfile \<and>
     pf_scan_queue_timeout p \<le> pf_scan_queue_timeout HardProfile \<and>
     pf_request_queue_timeout p \<le> pf_request_queue_timeout HardProfile \<and>
     pf_aggregate_request_waiting p \<le> pf_aggregate_request_waiting HardProfile \<and>
     pf_interrupt_slice p \<noteq> 0 \<and> pf_interrupt_slice p \<le> pf_interrupt_slice HardProfile"

definition empty_counters :: admission_counters where
  "empty_counters = \<lparr>cn_global = 0, cn_connectors = [], cn_destinations = [], cn_principals = [], cn_bulkheads = []\<rparr>"

definition new_AdmissionController :: "admission_profile \<Rightarrow> uint64 \<Rightarrow> cpp_exception + admission_state" where
  "new_AdmissionController p initial_ticket =
     (if \<not> ValidateAdmissionProfile p
      then Inl (invalid_argument ''admission profile exceeds the installed hard limits'')
      else if initial_ticket = 0
      then Inl (invalid_argument ''admission controller requires a clock and nonzero ticket'')
      else Inr \<lparr>terminal_reason = NO_REASON, next_ticket = (\<lambda>_. initial_ticket), profile = p,
                resources = (\<lambda>_. empty_counters), queues = (\<lambda>_. empty_counters), tickets = [], detached = []\<rparr>)"

subsection \<open>Counting usage\<close>

definition EmptyObservation :: admission_observation where
  "EmptyObservation =
     \<lparr>ob_reason = NO_REASON, ob_scope = NO_SCOPE, ob_limit = 0, ob_observed = 0, ob_requested = 0,
      ob_waited_milliseconds = 0, ob_waiting = False\<rparr>"

definition Exceeds :: "uint64 \<Rightarrow> uint64 \<Rightarrow> uint64 \<Rightarrow> bool" where
  "Exceeds observed requested limit \<longleftrightarrow> requested > limit \<or> observed > limit - requested"

definition CheckFits ::
  "'a admission_hash_scheme \<Rightarrow> admission_counters \<Rightarrow> admission_identity \<Rightarrow> uint64 \<Rightarrow> dimension_limits \<Rightarrow> admission_observation" where
  "CheckFits h counts identity amount limits =
     (let result = EmptyObservation\<lparr>ob_requested := amount\<rparr>;
          connector = CountFor (=) (hash_string h) (cn_connectors counts) (ai_connector_id identity);
          dest = CountFor DestinationEqual (destination_hash h) (cn_destinations counts) (ai_destination identity);
          princ = CountFor token_equal (token_hash h) (cn_principals counts) (ai_principal identity);
          bulkhead = CountForBulkhead h (cn_bulkheads counts) identity
      in if Exceeds (cn_global counts) amount (dl_global limits)
         then result\<lparr>ob_scope := GLOBAL, ob_limit := dl_global limits, ob_observed := cn_global counts\<rparr>
         else if Exceeds connector amount (dl_connector limits)
         then result\<lparr>ob_scope := CONNECTOR, ob_limit := dl_connector limits, ob_observed := connector\<rparr>
         else if Exceeds dest amount (dl_destination limits)
         then result\<lparr>ob_scope := DESTINATION, ob_limit := dl_destination limits, ob_observed := dest\<rparr>
         else if UsesPrincipal identity \<and> Exceeds princ amount (dl_principal limits)
         then result\<lparr>ob_scope := PRINCIPAL, ob_limit := dl_principal limits, ob_observed := princ\<rparr>
         else if ai_complete identity \<and> Exceeds bulkhead amount (dl_bulkhead limits)
         then result\<lparr>ob_scope := BULKHEAD, ob_limit := dl_bulkhead limits, ob_observed := bulkhead\<rparr>
         else result)"

definition AddUsage :: "'a admission_hash_scheme \<Rightarrow> admission_counters \<Rightarrow> admission_identity \<Rightarrow> uint64 \<Rightarrow> admission_counters" where
  "AddUsage h counts identity amount =
     \<lparr>cn_global = cn_global counts + amount,
      cn_connectors = AddCount (=) (hash_string h) (cn_connectors counts) (ai_connector_id identity) amount,
      cn_destinations = AddCount DestinationEqual (destination_hash h) (cn_destinations counts) (ai_destination identity) amount,
      cn_principals = (if UsesPrincipal identity
        then AddCount token_equal (token_hash h) (cn_principals counts) (ai_principal identity) amount else cn_principals counts),
      cn_bulkheads = (if ai_complete identity
        then AddBulkheadCount h (cn_bulkheads counts) identity amount else cn_bulkheads counts)\<rparr>"

definition SubtractUsage :: "'a admission_hash_scheme \<Rightarrow> admission_counters \<Rightarrow> admission_identity \<Rightarrow> uint64 \<Rightarrow> admission_counters" where
  "SubtractUsage h counts identity amount =
     \<lparr>cn_global = cn_global counts - amount,
      cn_connectors = SubtractCount (=) (hash_string h) (cn_connectors counts) (ai_connector_id identity) amount,
      cn_destinations = SubtractCount DestinationEqual (destination_hash h) (cn_destinations counts) (ai_destination identity) amount,
      cn_principals = (if UsesPrincipal identity
        then SubtractCount token_equal (token_hash h) (cn_principals counts) (ai_principal identity) amount else cn_principals counts),
      cn_bulkheads = (if ai_complete identity
        then SubtractBulkheadCount h (cn_bulkheads counts) identity amount else cn_bulkheads counts)\<rparr>"

subsection \<open>Tickets\<close>

definition ticket_key :: "admission_ticket \<Rightarrow> QueueKind \<times> uint64" where
  "ticket_key t = (tk_queue t, tk_ordinal t)"

definition TicketExpired :: "admission_ticket \<Rightarrow> int \<Rightarrow> bool" where
  "TicketExpired t now \<longleftrightarrow>
     now \<ge> queue_deadline (tk_wait t) \<or>
     has_aggregate_deadline (tk_wait t) \<and> now \<ge> aggregate_deadline (tk_wait t) \<or>
     has_scan_deadline (tk_wait t) \<and> now \<ge> scan_deadline (tk_wait t)"

definition AccountedWait :: "admission_ticket \<Rightarrow> int \<Rightarrow> uint64" where
  "AccountedWait t ended =
     (let waited = (if ended > tk_started t then of_int (ended - tk_started t) else 0)
      in if has_aggregate_deadline (tk_wait t)
         then min waited (if aggregate_deadline (tk_wait t) > tk_started t
                          then of_int (aggregate_deadline (tk_wait t) - tk_started t) else 0)
         else waited)"

definition RemoveTicketLocked ::
  "'a admission_hash_scheme \<Rightarrow> QueueKind \<times> uint64 \<Rightarrow> admission_state \<Rightarrow> admission_state" where
  "RemoveTicketLocked h key st =
     (case List.find (\<lambda>t. ticket_key t = key) (tickets st) of
        None \<Rightarrow> st
      | Some t \<Rightarrow>
          st\<lparr>queues := (queues st)(tk_queue t := SubtractUsage h (queues st (tk_queue t)) (tk_identity t) 1),
             tickets := remove1 t (tickets st)\<rparr>)"

text \<open>One pass over the queue in order: the tickets that stay, those granted, and the updated counters.\<close>

fun grant_loop ::
  "'a admission_hash_scheme \<Rightarrow> ResourceKind \<Rightarrow> int \<Rightarrow> dimension_limits \<Rightarrow> admission_ticket list \<Rightarrow> admission_counters \<Rightarrow>
   (QueueKind \<Rightarrow> admission_counters) \<Rightarrow>
   admission_ticket list \<times> admission_ticket list \<times> admission_counters \<times> (QueueKind \<Rightarrow> admission_counters)" where
  "grant_loop h resource now limits [] counts qs = ([], [], counts, qs)"
| "grant_loop h resource now limits (t # ts) counts qs =
     (if tk_resource t \<noteq> resource \<or> TicketExpired t now then
        let (rest, granted, counts', qs') = grant_loop h resource now limits ts counts qs
        in (t # rest, granted, counts', qs')
      else let blocking = CheckFits h counts (tk_identity t) 1 limits
           in if ob_scope blocking \<noteq> NO_SCOPE then
                let (rest, granted, counts', qs') = grant_loop h resource now limits ts counts qs
                in (t\<lparr>tk_last_blocking := blocking\<rparr> # rest, granted, counts', qs')
              else
                let (rest, granted, counts', qs') =
                      grant_loop h resource now limits ts (AddUsage h counts (tk_identity t) 1)
                        (qs(tk_queue t := SubtractUsage h (qs (tk_queue t)) (tk_identity t) 1))
                in (rest, t\<lparr>tk_granted_at := now, tk_granted := True\<rparr> # granted, counts', qs'))"

definition GrantEligibleLocked ::
  "'a admission_hash_scheme \<Rightarrow> ResourceKind \<Rightarrow> int \<Rightarrow> admission_state \<Rightarrow> admission_state" where
  "GrantEligibleLocked h resource now st =
     (if terminal_reason st \<noteq> NO_REASON then st
      else let (rest, granted, counts, qs) =
                 grant_loop h resource now (ResourceLimits (profile st) resource) (tickets st) (resources st resource) (queues st)
           in st\<lparr>tickets := rest, detached := detached st @ granted, resources := (resources st)(resource := counts),
                 queues := qs\<rparr>)"

subsection \<open>Acquiring\<close>

datatype admission_entry =
    EntryThrows cpp_exception
  | EntryReturns AdmissionAcquireStatus admission_observation
  | EntryAcquires admission_permit
  | EntryQueued "QueueKind \<times> uint64"

definition entry_limited :: "'a admission_hash_scheme \<Rightarrow> ResourceKind \<Rightarrow> admission_identity \<Rightarrow> admission_state \<Rightarrow> admission_observation" where
  "entry_limited h resource identity st = CheckFits h (resources st resource) identity 1 (ResourceLimits (profile st) resource)"

text \<open>Joining the queue, with the grant pass that follows in the same critical section.\<close>

definition join_queue ::
  "'a admission_hash_scheme \<Rightarrow> ResourceKind \<Rightarrow> QueueKind \<Rightarrow> admission_identity \<Rightarrow> admission_wait_policy \<Rightarrow>
   admission_observation \<Rightarrow> int \<Rightarrow> int \<Rightarrow> admission_state \<Rightarrow> admission_entry \<times> admission_state" where
  "join_queue h resource q identity wait blocking started grant_now st =
     (let queue_blocking = CheckFits h (queues st q) identity 1 (QueueLimits (profile st) q)
      in if ob_scope queue_blocking \<noteq> NO_SCOPE
         then (EntryReturns REJECTED (queue_blocking\<lparr>ob_reason := SaturatedReason q\<rparr>), st)
         else if next_ticket st q = uint64_max
         then (EntryReturns REJECTED (EmptyObservation\<lparr>ob_reason := TICKET_EXHAUSTED\<rparr>),
               st\<lparr>terminal_reason := TICKET_EXHAUSTED\<rparr>)
         else let ordinal = next_ticket st q;
                  ticket = \<lparr>tk_resource = resource, tk_queue = q, tk_identity = identity, tk_ordinal = ordinal, tk_wait = wait,
                            tk_started = started, tk_granted_at = started, tk_granted = False, tk_last_blocking = blocking\<rparr>
              in (EntryQueued (q, ordinal),
                  GrantEligibleLocked h resource grant_now
                    (st\<lparr>next_ticket := (next_ticket st)(q := ordinal + 1),
                        queues := (queues st)(q := AddUsage h (queues st q) identity 1),
                        tickets := tickets st @ [ticket]\<rparr>)))"

definition acquire_queued_locked ::
  "'a admission_hash_scheme \<Rightarrow> ResourceKind \<Rightarrow> QueueKind option \<Rightarrow> admission_identity \<Rightarrow> admission_wait_policy \<Rightarrow> bool \<Rightarrow>
   bool \<Rightarrow> int \<Rightarrow> int \<Rightarrow> int \<Rightarrow> admission_state \<Rightarrow> admission_entry \<times> admission_state" where
  "acquire_queued_locked h resource queue identity wait output_ok cancelled evaluated started grant_now st =
     (case queue of
        None \<Rightarrow> (EntryThrows (invalid_argument ''invalid queued admission acquisition''), st)
      | Some q \<Rightarrow>
          if \<not> output_ok \<or> resource \<noteq> CREDENTIAL_RESOLUTION \<and> \<not> ai_complete identity \<or> queue_deadline wait < 0
          then (EntryThrows (invalid_argument ''invalid queued admission acquisition''), st)
          else if terminal_reason st \<noteq> NO_REASON
          then (EntryReturns REJECTED (EmptyObservation\<lparr>ob_reason := terminal_reason st\<rparr>), st)
          else if cancelled then (EntryReturns CANCELLED EmptyObservation, st)
          else if has_scan_deadline wait \<and> evaluated \<ge> scan_deadline wait
          then (EntryReturns SCAN_DEADLINE_REACHED EmptyObservation, st)
          else if has_aggregate_deadline wait \<and> evaluated \<ge> aggregate_deadline wait
          then (EntryReturns REJECTED (EmptyObservation\<lparr>ob_reason := ADMISSION_WAITING_EXHAUSTED, ob_requested := 1\<rparr>), st)
          else if evaluated \<ge> queue_deadline wait
          then (EntryReturns REJECTED (EmptyObservation\<lparr>ob_reason := TimeoutReason q, ob_requested := 1\<rparr>), st)
          else let blocking = entry_limited h resource identity st
               in if ob_scope blocking \<noteq> NO_SCOPE \<and> ob_limit blocking < ob_requested blocking
                  then (EntryReturns REJECTED (blocking\<lparr>ob_reason := SaturatedReason q\<rparr>), st)
                  else if ob_scope blocking = NO_SCOPE \<and> \<not> list_ex (\<lambda>t. tk_resource t = resource) (tickets st)
                  then (EntryAcquires \<lparr>pm_resource = resource, pm_identity = identity, pm_amount = 1\<rparr>,
                        st\<lparr>resources := (resources st)(resource := AddUsage h (resources st resource) identity 1)\<rparr>)
                  else join_queue h resource q identity wait blocking started grant_now st)"

definition Release :: "'a admission_hash_scheme \<Rightarrow> int \<Rightarrow> admission_permit \<Rightarrow> admission_state \<Rightarrow> admission_state" where
  "Release h now p st =
     GrantEligibleLocked h (pm_resource p) now
       (st\<lparr>resources := (resources st)(pm_resource p :=
             SubtractUsage h (resources st (pm_resource p)) (pm_identity p) (pm_amount p))\<rparr>)"

text \<open>After the mutex is released a cancelled caller gives its new permit back.\<close>

definition settle_permit ::
  "'a admission_hash_scheme \<Rightarrow> bool \<Rightarrow> int \<Rightarrow> admission_permit \<Rightarrow> admission_state \<Rightarrow> AdmissionAcquireStatus \<times> admission_state" where
  "settle_permit h cancelled now p st = (if cancelled then (CANCELLED, Release h now p st) else (ACQUIRED, st))"

datatype admission_turn_result =
    TurnThrows
  | TurnReturns AdmissionAcquireStatus admission_observation
  | TurnAcquires admission_permit admission_observation
  | TurnSleeps uint64

text \<open>The handler of the acquisition: a granted ticket gives its usage back, a queued one leaves the queue.\<close>

definition abandon_wait ::
  "'a admission_hash_scheme \<Rightarrow> QueueKind \<times> uint64 \<Rightarrow> int \<Rightarrow> admission_state \<Rightarrow> admission_state" where
  "abandon_wait h key grant_now st =
     (case List.find (\<lambda>t. ticket_key t = key) (detached st) of
        Some t \<Rightarrow>
          GrantEligibleLocked h (tk_resource t) grant_now
            (st\<lparr>detached := remove1 t (detached st),
                resources := (resources st)(tk_resource t := SubtractUsage h (resources st (tk_resource t)) (tk_identity t) 1)\<rparr>)
      | None \<Rightarrow>
          (case List.find (\<lambda>t. ticket_key t = key) (tickets st) of
             Some t \<Rightarrow> GrantEligibleLocked h (tk_resource t) grant_now (RemoveTicketLocked h key st)
           | None \<Rightarrow> st))"

definition collect_granted ::
  "'a admission_hash_scheme \<Rightarrow> bool \<Rightarrow> int \<Rightarrow> admission_ticket \<Rightarrow> admission_state \<Rightarrow> admission_turn_result \<times> admission_state" where
  "collect_granted h hook_throws grant_now t st =
     (if hook_throws then (TurnThrows, abandon_wait h (ticket_key t) grant_now st)
      else (TurnAcquires \<lparr>pm_resource = tk_resource t, pm_identity = tk_identity t, pm_amount = 1\<rparr>
              (EmptyObservation\<lparr>ob_waited_milliseconds := AccountedWait t (tk_granted_at t)\<rparr>),
            st\<lparr>detached := remove1 t (detached st)\<rparr>))"

definition AdmissionWaitSlice :: "int \<Rightarrow> int \<Rightarrow> uint64 \<Rightarrow> uint64" where
  "AdmissionWaitSlice now target maximum_slice =
     (if target \<le> now then 0
      else if now \<le> int64_max - uint maximum_slice \<and> target > now + uint maximum_slice then maximum_slice
      else of_int (target - now))"

definition wait_until :: "admission_wait_policy \<Rightarrow> int" where
  "wait_until wait =
     (let deadline = (if has_scan_deadline wait then min (queue_deadline wait) (scan_deadline wait) else queue_deadline wait)
      in if has_aggregate_deadline wait then min deadline (aggregate_deadline wait) else deadline)"

text \<open>
  One turn of the waiting loop. The last case of a caller whose ticket is neither queued nor granted does not arise.
\<close>

definition admission_turn ::
  "'a admission_hash_scheme \<Rightarrow> QueueKind \<times> uint64 \<Rightarrow> bool \<Rightarrow> bool \<Rightarrow> int \<Rightarrow> int \<Rightarrow> int \<Rightarrow> admission_state \<Rightarrow>
   admission_turn_result \<times> admission_state" where
  "admission_turn h key hook_throws cancelled now ended grant_now st =
     (case List.find (\<lambda>t. ticket_key t = key) (detached st) of
        Some t \<Rightarrow> collect_granted h hook_throws grant_now t st
      | None \<Rightarrow>
          (case List.find (\<lambda>t. ticket_key t = key) (tickets st) of
             None \<Rightarrow> (TurnSleeps 0, st)
           | Some t \<Rightarrow>
               let wait = tk_wait t; waited = AccountedWait t now; left = RemoveTicketLocked h key st
               in if terminal_reason st \<noteq> NO_REASON
                  then (TurnReturns REJECTED (EmptyObservation\<lparr>ob_reason := terminal_reason st,
                          ob_waited_milliseconds := AccountedWait t ended\<rparr>), left)
                  else if cancelled
                  then (TurnReturns CANCELLED (EmptyObservation\<lparr>ob_waited_milliseconds := AccountedWait t ended\<rparr>), left)
                  else if has_scan_deadline wait \<and> now \<ge> scan_deadline wait
                  then (TurnReturns SCAN_DEADLINE_REACHED (EmptyObservation\<lparr>ob_waited_milliseconds := waited\<rparr>), left)
                  else if has_aggregate_deadline wait \<and> now \<ge> aggregate_deadline wait
                  then (TurnReturns REJECTED ((tk_last_blocking t)\<lparr>ob_reason := ADMISSION_WAITING_EXHAUSTED,
                          ob_waited_milliseconds := waited\<rparr>), left)
                  else if now \<ge> queue_deadline wait
                  then (TurnReturns REJECTED ((tk_last_blocking t)\<lparr>ob_reason := TimeoutReason (tk_queue t),
                          ob_waited_milliseconds := waited\<rparr>), left)
                  else let st' = GrantEligibleLocked h (tk_resource t) grant_now st
                       in case List.find (\<lambda>t. ticket_key t = key) (detached st') of
                            Some t' \<Rightarrow> collect_granted h hook_throws grant_now t' st'
                          | None \<Rightarrow>
                              (TurnSleeps (AdmissionWaitSlice now (wait_until wait) (pf_interrupt_slice (profile st))), st')))"

definition AcquireImmediate ::
  "'a admission_hash_scheme \<Rightarrow> ResourceKind \<Rightarrow> admission_identity \<Rightarrow> uint64 \<Rightarrow> AdmissionReason \<Rightarrow> bool \<Rightarrow> admission_state \<Rightarrow>
   admission_entry \<times> admission_state" where
  "AcquireImmediate h resource identity amount reason output_ok st =
     (if \<not> output_ok \<or> \<not> ai_complete identity \<or> amount = 0
      then (EntryThrows (invalid_argument ''invalid immediate admission acquisition''), st)
      else if terminal_reason st \<noteq> NO_REASON
      then (EntryReturns REJECTED (EmptyObservation\<lparr>ob_reason := terminal_reason st\<rparr>), st)
      else let counts = resources st resource;
               blocking = CheckFits h counts identity amount (ResourceLimits (profile st) resource)
           in if ob_scope blocking \<noteq> NO_SCOPE then (EntryReturns REJECTED (blocking\<lparr>ob_reason := reason\<rparr>), st)
              else (EntryAcquires \<lparr>pm_resource = resource, pm_identity = identity, pm_amount = amount\<rparr>,
                    st\<lparr>resources := (resources st)(resource := AddUsage h counts identity amount)\<rparr>))"

subsection \<open>Public operations\<close>

definition AcquireCredentialResolution ::
  "'a admission_hash_scheme \<Rightarrow> admission_identity \<Rightarrow> admission_wait_policy \<Rightarrow> bool \<Rightarrow> bool \<Rightarrow> int \<Rightarrow> int \<Rightarrow> int \<Rightarrow> admission_state \<Rightarrow>
   admission_entry \<times> admission_state" where
  "AcquireCredentialResolution h identity wait output_ok cancelled evaluated started grant_now st =
     (if ai_complete identity
      then (EntryThrows (invalid_argument ''credential-resolution admission requires preliminary identity''), st)
      else acquire_queued_locked h CREDENTIAL_RESOLUTION (Some CREDENTIAL_RESOLUTION_QUEUE) identity wait output_ok cancelled
             evaluated started grant_now st)"

definition AcquireScan ::
  "'a admission_hash_scheme \<Rightarrow> admission_identity \<Rightarrow> admission_wait_policy \<Rightarrow> bool \<Rightarrow> bool \<Rightarrow> int \<Rightarrow> int \<Rightarrow> int \<Rightarrow> admission_state \<Rightarrow>
   admission_entry \<times> admission_state" where
  "AcquireScan h identity wait output_ok cancelled evaluated started grant_now st =
     acquire_queued_locked h ACTIVE_SCAN (Some SCAN_QUEUE) identity wait output_ok cancelled evaluated started grant_now st"

definition AcquireRequest ::
  "'a admission_hash_scheme \<Rightarrow> admission_identity \<Rightarrow> admission_wait_policy \<Rightarrow> bool \<Rightarrow> bool \<Rightarrow> int \<Rightarrow> int \<Rightarrow> int \<Rightarrow> admission_state \<Rightarrow>
   admission_entry \<times> admission_state" where
  "AcquireRequest h identity wait output_ok cancelled evaluated started grant_now st =
     acquire_queued_locked h REQUEST (Some REQUEST_QUEUE) identity wait output_ok cancelled evaluated started grant_now st"

definition AcquireRetryWaiter ::
  "'a admission_hash_scheme \<Rightarrow> admission_identity \<Rightarrow> bool \<Rightarrow> admission_state \<Rightarrow> admission_entry \<times> admission_state" where
  "AcquireRetryWaiter h identity output_ok st = AcquireImmediate h RETRY_WAITER identity 1 RETRY_WAIT_SATURATED output_ok st"

definition AcquireRateLimitWaiter ::
  "'a admission_hash_scheme \<Rightarrow> admission_identity \<Rightarrow> bool \<Rightarrow> admission_state \<Rightarrow> admission_entry \<times> admission_state" where
  "AcquireRateLimitWaiter h identity output_ok st =
     AcquireImmediate h RATE_LIMIT_WAITER identity 1 RATE_LIMIT_WAIT_SATURATED output_ok st"

definition ReserveBufferedBytes ::
  "'a admission_hash_scheme \<Rightarrow> admission_identity \<Rightarrow> uint64 \<Rightarrow> bool \<Rightarrow> admission_state \<Rightarrow> admission_entry \<times> admission_state" where
  "ReserveBufferedBytes h identity bytes output_ok st =
     AcquireImmediate h BUFFERED_BYTES identity bytes BUFFERED_BYTES_EXHAUSTED output_ok st"

definition ReserveBufferedRows ::
  "'a admission_hash_scheme \<Rightarrow> admission_identity \<Rightarrow> uint64 \<Rightarrow> bool \<Rightarrow> admission_state \<Rightarrow> admission_entry \<times> admission_state" where
  "ReserveBufferedRows h identity rows output_ok st =
     AcquireImmediate h BUFFERED_ROWS identity rows BUFFERED_ROWS_EXHAUSTED output_ok st"

definition ReserveCacheResidentBytes ::
  "'a admission_hash_scheme \<Rightarrow> admission_identity \<Rightarrow> uint64 \<Rightarrow> bool \<Rightarrow> admission_state \<Rightarrow> admission_entry \<times> admission_state" where
  "ReserveCacheResidentBytes h identity bytes output_ok st =
     AcquireImmediate h CACHE_RESIDENT_BYTES identity bytes CACHE_RESIDENT_BYTES_EXHAUSTED output_ok st"

text \<open>The two resizes differ in the resource kind and the reason only.\<close>

definition resize_locked ::
  "'a admission_hash_scheme \<Rightarrow> ResourceKind \<Rightarrow> AdmissionReason \<Rightarrow> uint64 \<Rightarrow> admission_permit \<Rightarrow> admission_state \<Rightarrow>
   (AdmissionAcquireStatus \<times> admission_observation) \<times> admission_permit \<times> admission_state" where
  "resize_locked h kind reason bytes p st =
     (if bytes = pm_amount p then ((ACQUIRED, EmptyObservation), p, st)
      else if bytes < pm_amount p
      then ((ACQUIRED, EmptyObservation), p\<lparr>pm_amount := bytes\<rparr>,
            st\<lparr>resources := (resources st)(kind := SubtractUsage h (resources st kind) (pm_identity p) (pm_amount p - bytes))\<rparr>)
      else if terminal_reason st \<noteq> NO_REASON
      then ((REJECTED, EmptyObservation\<lparr>ob_reason := terminal_reason st\<rparr>), p, st)
      else let requested = bytes - pm_amount p;
               counts = resources st kind;
               blocking = CheckFits h counts (pm_identity p) requested (ResourceLimits (profile st) kind)
           in if ob_scope blocking \<noteq> NO_SCOPE then ((REJECTED, blocking\<lparr>ob_reason := reason\<rparr>), p, st)
              else ((ACQUIRED, EmptyObservation), p\<lparr>pm_amount := bytes\<rparr>,
                    st\<lparr>resources := (resources st)(kind := AddUsage h counts (pm_identity p) requested)\<rparr>))"

definition ResizeBufferedBytes ::
  "'a admission_hash_scheme \<Rightarrow> bool \<Rightarrow> uint64 \<Rightarrow> admission_permit \<Rightarrow> admission_state \<Rightarrow>
   (cpp_exception + AdmissionAcquireStatus \<times> admission_observation) \<times> admission_permit \<times> admission_state" where
  "ResizeBufferedBytes h output_ok bytes p st =
     (if \<not> output_ok \<or> bytes = 0 \<or> pm_resource p \<noteq> BUFFERED_BYTES
      then (Inl (invalid_argument ''invalid buffered-byte reservation resize''), p, st)
      else apfst Inr (resize_locked h BUFFERED_BYTES BUFFERED_BYTES_EXHAUSTED bytes p st))"

definition ResizeCacheResidentBytes ::
  "'a admission_hash_scheme \<Rightarrow> bool \<Rightarrow> uint64 \<Rightarrow> admission_permit \<Rightarrow> admission_state \<Rightarrow>
   (cpp_exception + AdmissionAcquireStatus \<times> admission_observation) \<times> admission_permit \<times> admission_state" where
  "ResizeCacheResidentBytes h output_ok bytes p st =
     (if \<not> output_ok \<or> bytes = 0 \<or> pm_resource p \<noteq> CACHE_RESIDENT_BYTES
      then (Inl (invalid_argument ''invalid cache-resident-byte reservation resize''), p, st)
      else apfst Inr (resize_locked h CACHE_RESIDENT_BYTES CACHE_RESIDENT_BYTES_EXHAUSTED bytes p st))"

definition CloseAdmission :: "admission_state \<Rightarrow> admission_state" where
  "CloseAdmission st = (if terminal_reason st = NO_REASON then st\<lparr>terminal_reason := RUNTIME_CLOSED\<rparr> else st)"

definition AdmissionIsClosed :: "admission_state \<Rightarrow> bool" where
  "AdmissionIsClosed st \<longleftrightarrow> terminal_reason st \<noteq> NO_REASON"

definition Usage :: "admission_state \<Rightarrow> (ResourceKind \<Rightarrow> uint64) \<times> (QueueKind \<Rightarrow> uint64)" where
  "Usage st = (\<lambda>r. cn_global (resources st r), \<lambda>q. cn_global (queues st q))"

subsection \<open>Interleavings\<close>

text \<open>
  Any number of callers: those inside an acquisition that wait for a ticket, and the permits given out.
\<close>

record admission_system =
  shared :: admission_state
  waiting :: "(QueueKind \<times> uint64) list"
  held :: "admission_permit list"

inductive admission_step :: "'a admission_hash_scheme \<Rightarrow> admission_system \<Rightarrow> admission_system \<Rightarrow> bool" for h where
  AcquireReturns:
    "acquire_queued_locked h resource queue identity wait output_ok cancelled evaluated started grant_now (shared s) =
       (EntryReturns status ob, st) \<Longrightarrow>
     admission_step h s (s\<lparr>shared := st\<rparr>)"
| AcquireAcquires:
    "acquire_queued_locked h resource queue identity wait output_ok cancelled evaluated started grant_now (shared s) =
       (EntryAcquires p, st) \<Longrightarrow>
     admission_step h s (s\<lparr>shared := st, held := p # held s\<rparr>)"
| AcquireQueues:
    "acquire_queued_locked h resource queue identity wait output_ok cancelled evaluated started grant_now (shared s) =
       (EntryQueued key, st) \<Longrightarrow>
     admission_step h s (s\<lparr>shared := st, waiting := key # waiting s\<rparr>)"
| TurnEnds:
    "key \<in> set (waiting s) \<Longrightarrow>
     admission_turn h key hook_throws cancelled now ended grant_now (shared s) = (TurnReturns status ob, st) \<Longrightarrow>
     admission_step h s (s\<lparr>shared := st, waiting := remove1 key (waiting s)\<rparr>)"
| TurnFails:
    "key \<in> set (waiting s) \<Longrightarrow>
     admission_turn h key hook_throws cancelled now ended grant_now (shared s) = (TurnThrows, st) \<Longrightarrow>
     admission_step h s (s\<lparr>shared := st, waiting := remove1 key (waiting s)\<rparr>)"
| TurnAcquires:
    "key \<in> set (waiting s) \<Longrightarrow>
     admission_turn h key hook_throws cancelled now ended grant_now (shared s) = (TurnAcquires p ob, st) \<Longrightarrow>
     admission_step h s (s\<lparr>shared := st, waiting := remove1 key (waiting s), held := p # held s\<rparr>)"
| TurnSleeps:
    "key \<in> set (waiting s) \<Longrightarrow>
     admission_turn h key hook_throws cancelled now ended grant_now (shared s) = (TurnSleeps pause, st) \<Longrightarrow>
     admission_step h s (s\<lparr>shared := st\<rparr>)"
| WaitThrows:
    "key \<in> set (waiting s) \<Longrightarrow>
     admission_step h s (s\<lparr>shared := abandon_wait h key grant_now (shared s), waiting := remove1 key (waiting s)\<rparr>)"
| ImmediateAcquires:
    "AcquireImmediate h resource identity amount reason output_ok (shared s) = (EntryAcquires p, st) \<Longrightarrow>
     admission_step h s (s\<lparr>shared := st, held := p # held s\<rparr>)"
| ResizesBytes:
    "p \<in> set (held s) \<Longrightarrow> ResizeBufferedBytes h output_ok bytes p (shared s) = (r, p', st) \<Longrightarrow>
     admission_step h s (s\<lparr>shared := st, held := p' # remove1 p (held s)\<rparr>)"
| ResizesCache:
    "p \<in> set (held s) \<Longrightarrow> ResizeCacheResidentBytes h output_ok bytes p (shared s) = (r, p', st) \<Longrightarrow>
     admission_step h s (s\<lparr>shared := st, held := p' # remove1 p (held s)\<rparr>)"
| Releases:
    "p \<in> set (held s) \<Longrightarrow>
     admission_step h s (s\<lparr>shared := Release h now p (shared s), held := remove1 p (held s)\<rparr>)"
| Closes:
    "admission_step h s (s\<lparr>shared := CloseAdmission (shared s)\<rparr>)"

definition admission_start :: "admission_profile \<Rightarrow> uint64 \<Rightarrow> admission_system \<Rightarrow> bool" where
  "admission_start p initial_ticket s \<longleftrightarrow>
     new_AdmissionController p initial_ticket = Inr (shared s) \<and> waiting s = [] \<and> held s = []"

definition admission_reachable :: "'a admission_hash_scheme \<Rightarrow> admission_profile \<Rightarrow> uint64 \<Rightarrow> admission_system \<Rightarrow> bool" where
  "admission_reachable h p initial_ticket s \<longleftrightarrow> reaches (admission_start p initial_ticket) (admission_step h) s"

end
