(* ===== verification/Admission_Accounting.thy ===== *)
theory Admission_Accounting
  imports Admission_Controller "HOL-Library.Multiset" "HOL-Library.Sublist"
begin

section \<open>What the admission controller guarantees\<close>

text \<open>
  The counters of the admission controller are read as levels of scopes (global, one connector, one destination, one principal, one
  bulkhead), and shown to be the load of the bag of amounts admitted. The lemmas follow the code: counting,
  the grant pass, then every critical section; the invariant holds in every reachable interleaving. The theorems
  show that the books are exact and within the limits, that nothing leaks, that grants are fair and
  that waits end.
\<close>

subsection \<open>Levels and what they mean\<close>

datatype scope_key =
    GlobalScope
  | ConnectorScope string
  | DestinationScope admission_destination
  | PrincipalScope "8 word list option + AdmissionDirectPrincipal"
  | BulkheadScope "string \<times> admission_destination \<times> string \<times> AdmissionProtocol \<times> string \<times> (8 word list option + AdmissionDirectPrincipal)"

definition scope_keys :: "admission_identity \<Rightarrow> scope_key set" where
  "scope_keys i =
     {GlobalScope, ConnectorScope (ai_connector_id i), DestinationScope (ai_destination i)} \<union>
     (if UsesPrincipal i then {PrincipalScope (token_meaning (ai_principal i))} else {}) \<union>
     (if ai_complete i then {BulkheadScope (bulkhead_meaning (ToBulkhead i))} else {})"

fun level :: "admission_counters \<Rightarrow> scope_key \<Rightarrow> nat" where
  "level c GlobalScope = unat (cn_global c)"
| "level c (ConnectorScope k) = tally (\<lambda>k. k) (cn_connectors c) k"
| "level c (DestinationScope k) = tally (\<lambda>k. k) (cn_destinations c) k"
| "level c (PrincipalScope k) = tally token_meaning (cn_principals c) k"
| "level c (BulkheadScope k) = tally bulkhead_meaning (cn_bulkheads c) k"

fun scope_limit :: "dimension_limits \<Rightarrow> scope_key \<Rightarrow> nat" where
  "scope_limit d GlobalScope = unat (dl_global d)"
| "scope_limit d (ConnectorScope _) = unat (dl_connector d)"
| "scope_limit d (DestinationScope _) = unat (dl_destination d)"
| "scope_limit d (PrincipalScope _) = unat (dl_principal d)"
| "scope_limit d (BulkheadScope _) = unat (dl_bulkhead d)"

definition counters_ok :: "'a admission_hash_scheme \<Rightarrow> admission_counters \<Rightarrow> bool" where
  "counters_ok h c \<longleftrightarrow>
     counts_ok (hash_string h) (\<lambda>k. k) (cn_connectors c) \<and> counts_ok (destination_hash h) (\<lambda>k. k) (cn_destinations c) \<and>
     counts_ok (token_hash h) token_meaning (cn_principals c) \<and> counts_ok (bulkhead_hash h) bulkhead_meaning (cn_bulkheads c)"

lemma scope_limit_word: "scope_limit d k < 2 ^ 64"
proof -
  have "unat (w :: uint64) < 2 ^ 64" for w using unsigned_less [of w] by simp
  then show ?thesis by (cases k) (simp_all only: scope_limit.simps)
qed

lemma Exceeds_iff: "Exceeds observed requested limit \<longleftrightarrow> unat limit < unat observed + unat requested"
proof (cases "requested \<le> limit")
  case True
  then have "unat (limit - requested) = unat limit - unat requested" by (rule unat_sub)
  with True show ?thesis unfolding Exceeds_def word_less_nat_alt word_le_nat_alt by auto
qed (auto simp: Exceeds_def word_less_nat_alt word_le_nat_alt)

lemma CheckFits_none:
  assumes "counters_ok h c"
  shows "ob_scope (CheckFits h c i a d) = NO_SCOPE \<longleftrightarrow> (\<forall>k\<in>scope_keys i. level c k + unat a \<le> scope_limit d k)"
  using assms unfolding counters_ok_def
  by (auto simp: CheckFits_def Let_def Exceeds_iff scope_keys_def EmptyObservation_def bulkhead_generic
      connector_counts.count_tally destination_counts.count_tally principal_counts.count_tally bulkhead_counts.count_tally)

lemma AddUsage_ok:
  assumes "counters_ok h c" and "a \<noteq> 0" and "\<forall>k\<in>scope_keys i. level c k + unat a < 2 ^ 64"
  shows "counters_ok h (AddUsage h c i a)"
  using assms unfolding counters_ok_def AddUsage_def scope_keys_def
  by (auto simp: bulkhead_generic intro!: connector_counts.add_ok destination_counts.add_ok principal_counts.add_ok bulkhead_counts.add_ok)

lemma AddUsage_level:
  assumes "counters_ok h c" and "\<forall>k\<in>scope_keys i. level c k + unat a < 2 ^ 64"
  shows "level (AddUsage h c i a) k = level c k + (if k \<in> scope_keys i then unat a else 0)"
  using assms unfolding counters_ok_def scope_keys_def
  by (cases k) (auto simp: AddUsage_def bulkhead_generic unat_word_ariths
      connector_counts.add_tally destination_counts.add_tally principal_counts.add_tally bulkhead_counts.add_tally)

lemma SubtractUsage_ok: "counters_ok h c \<Longrightarrow> counters_ok h (SubtractUsage h c i a)"
  unfolding counters_ok_def SubtractUsage_def
  by (auto simp: bulkhead_generic intro!: connector_counts.subtract_ok destination_counts.subtract_ok
      principal_counts.subtract_ok bulkhead_counts.subtract_ok)

lemma SubtractUsage_level:
  assumes "counters_ok h c" and "\<forall>k\<in>scope_keys i. unat a \<le> level c k"
  shows "level (SubtractUsage h c i a) k = level c k - (if k \<in> scope_keys i then unat a else 0)"
proof -
  have "unat (cn_global c - a) = unat (cn_global c) - unat a"
    using assms(2) by (intro unat_sub) (simp add: scope_keys_def word_le_nat_alt)
  with assms show ?thesis unfolding counters_ok_def scope_keys_def
    by (cases k) (auto simp: SubtractUsage_def bulkhead_generic connector_counts.subtract_tally
        destination_counts.subtract_tally principal_counts.subtract_tally bulkhead_counts.subtract_tally)
qed

subsection \<open>Accounts\<close>

text \<open>The load a bag of admitted amounts puts on a scope; counters account for a bag when every level is its load.\<close>

definition load :: "scope_key \<Rightarrow> (admission_identity \<times> uint64) multiset \<Rightarrow> nat" where
  "load k M = (\<Sum>(i, a)\<in>#M. if k \<in> scope_keys i then unat a else 0)"

lemma load_simps [simp]:
  "load k {#} = 0"
  "load k (add_mset x M) = (if k \<in> scope_keys (fst x) then unat (snd x) else 0) + load k M"
  "load k (M + N) = load k M + load k N"
  by (simp_all add: load_def split_beta)

definition accounts :: "'a admission_hash_scheme \<Rightarrow> admission_counters \<Rightarrow> (admission_identity \<times> uint64) multiset \<Rightarrow> bool" where
  "accounts h c M \<longleftrightarrow> counters_ok h c \<and> (\<forall>k. level c k = load k M)"

lemma level_empty: "level empty_counters k = 0"
  by (cases k) (simp_all add: empty_counters_def)

lemma accounts_empty: "accounts h empty_counters {#}"
  by (simp add: accounts_def level_empty) (simp add: counters_ok_def empty_counters_def)

lemma accounts_none:
  assumes "accounts h c {#}" shows "c = empty_counters"
proof -
  have z: "level c k = 0" for k using assms by (simp add: accounts_def)
  have "cn_global c = 0" using z [of GlobalScope] by (simp add: unat_eq_zero)
  moreover have "cn_connectors c = []"
    by (rule tally_zero [of "hash_string h" "\<lambda>k. k"]) (use assms z [of "ConnectorScope _"] in \<open>simp_all add: accounts_def counters_ok_def\<close>)
  moreover have "cn_destinations c = []"
    by (rule tally_zero [of "destination_hash h" "\<lambda>k. k"]) (use assms z [of "DestinationScope _"] in \<open>simp_all add: accounts_def counters_ok_def\<close>)
  moreover have "cn_principals c = []"
    by (rule tally_zero [of "token_hash h" token_meaning]) (use assms z [of "PrincipalScope _"] in \<open>simp_all add: accounts_def counters_ok_def\<close>)
  moreover have "cn_bulkheads c = []"
    by (rule tally_zero [of "bulkhead_hash h" bulkhead_meaning]) (use assms z [of "BulkheadScope _"] in \<open>simp_all add: accounts_def counters_ok_def\<close>)
  ultimately show ?thesis by (simp add: empty_counters_def)
qed

lemma accounts_add:
  assumes "accounts h c M" and "a \<noteq> 0" and "\<forall>k\<in>scope_keys i. level c k + unat a \<le> scope_limit d k"
  shows "accounts h (AddUsage h c i a) (add_mset (i, a) M)"
proof -
  have "\<forall>k\<in>scope_keys i. level c k + unat a < 2 ^ 64" using assms(3) scope_limit_word le_less_trans by blast
  with assms(1,2) show ?thesis by (auto simp: accounts_def AddUsage_ok AddUsage_level)
qed

lemma accounts_remove:
  assumes "accounts h c (add_mset (i, a) M)"
  shows "accounts h (SubtractUsage h c i a) M"
  using assms by (auto simp: accounts_def SubtractUsage_ok SubtractUsage_level)

definition within :: "admission_counters \<Rightarrow> dimension_limits \<Rightarrow> bool" where
  "within c d \<longleftrightarrow> (\<forall>k. level c k \<le> scope_limit d k)"

lemma within_add:
  assumes "accounts h c M" "within c d" and "\<forall>k\<in>scope_keys i. level c k + unat a \<le> scope_limit d k"
  shows "within (AddUsage h c i a) d"
proof -
  have "\<forall>k\<in>scope_keys i. level c k + unat a < 2 ^ 64" using assms(3) scope_limit_word le_less_trans by blast
  with assms show ?thesis by (auto simp: within_def accounts_def AddUsage_level)
qed

lemma within_remove: "accounts h c (add_mset (i, a) M) \<Longrightarrow> within c d \<Longrightarrow> within (SubtractUsage h c i a) d"
  using accounts_remove [of h c i a M] by (auto simp: within_def accounts_def intro: le_trans [OF le_add2] dest: spec)

lemma level_add_mono: "accounts h c M \<Longrightarrow> \<forall>k\<in>scope_keys i. level c k + unat a \<le> scope_limit d k \<Longrightarrow> level c k \<le> level (AddUsage h c i a) k"
  using AddUsage_level [of h c i a k] scope_limit_word le_less_trans unfolding accounts_def by fastforce

subsection \<open>The grant pass\<close>

definition queued_use :: "QueueKind \<Rightarrow> admission_ticket list \<Rightarrow> (admission_identity \<times> uint64) multiset" where
  "queued_use q ts = image_mset (\<lambda>t. (tk_identity t, 1)) (filter_mset (\<lambda>t. tk_queue t = q) (mset ts))"

lemma queued_use_simps [simp]:
  "queued_use q [] = {#}"
  "queued_use q (t # ts) = (if tk_queue t = q then add_mset (tk_identity t, 1) (queued_use q ts) else queued_use q ts)"
  "queued_use q (ts @ us) = queued_use q ts + queued_use q us"
  by (simp_all add: queued_use_def)

definition granted_use :: "admission_ticket list \<Rightarrow> (admission_identity \<times> uint64) multiset" where
  "granted_use ts = image_mset (\<lambda>t. (tk_identity t, 1)) (mset ts)"

lemma granted_use_simps [simp]:
  "granted_use [] = {#}" "granted_use (t # ts) = add_mset (tk_identity t, 1) (granted_use ts)"
  by (simp_all add: granted_use_def)

definition queues_account :: "'a admission_hash_scheme \<Rightarrow> admission_profile \<Rightarrow> (QueueKind \<Rightarrow> admission_counters) \<Rightarrow>
   (QueueKind \<Rightarrow> (admission_identity \<times> uint64) multiset) \<Rightarrow> bool" where
  "queues_account h p qs N \<longleftrightarrow> (\<forall>q. accounts h (qs q) (N q) \<and> within (qs q) (QueueLimits p q))"

lemma queues_account_remove:
  assumes "queues_account h p qs N" and "N (tk_queue t) = add_mset (tk_identity t, 1) N'"
  shows "queues_account h p (qs(tk_queue t := SubtractUsage h (qs (tk_queue t)) (tk_identity t) 1)) (N(tk_queue t := N'))"
proof -
  have "accounts h (qs (tk_queue t)) (add_mset (tk_identity t, 1) N')" "within (qs (tk_queue t)) (QueueLimits p (tk_queue t))"
    using assms by (auto simp: queues_account_def dest: spec [of _ "tk_queue t"])
  from accounts_remove [OF this(1)] within_remove [OF this] assms(1) show ?thesis by (simp add: queues_account_def)
qed

definition grant_mark :: "int \<Rightarrow> admission_ticket \<Rightarrow> admission_ticket" where
  "grant_mark now t = t\<lparr>tk_granted_at := now, tk_granted := True\<rparr>"

lemma grant_mark_simps [simp]:
  "ticket_key (grant_mark now t) = ticket_key t" "tk_identity (grant_mark now t) = tk_identity t"
  "tk_resource (grant_mark now t) = tk_resource t" "tk_queue (grant_mark now t) = tk_queue t"
  "TicketExpired (grant_mark now t) n = TicketExpired t n" "tk_granted (grant_mark now t)" "tk_granted_at (grant_mark now t) = now"
  by (simp_all add: grant_mark_def ticket_key_def TicketExpired_def)

text \<open>An identity is blocked when one of its scopes has no room for one more.\<close>

definition blocked :: "admission_counters \<Rightarrow> dimension_limits \<Rightarrow> admission_identity \<Rightarrow> bool" where
  "blocked c d i \<longleftrightarrow> (\<exists>k\<in>scope_keys i. scope_limit d k \<le> level c k)"

lemma CheckFits_blocked: "accounts h c M \<Longrightarrow> ob_scope (CheckFits h c i 1 d) \<noteq> NO_SCOPE \<longleftrightarrow> blocked c d i"
  using CheckFits_none [of h c i 1 d] by (auto simp: accounts_def blocked_def not_le Suc_le_eq not_less)

text \<open>The head of the queue stays, and then is of another resource, expired or blocked, or it is granted.\<close>

lemma grant_loop_step:
  assumes "grant_loop h r now d (t # ts) c qs = (rest, granted, c', qs')" and "accounts h c M"
  obtains (stays) t' rest' where "grant_loop h r now d ts c qs = (rest', granted, c', qs')" "rest = t' # rest'"
      "tk_identity t' = tk_identity t" "tk_queue t' = tk_queue t" "tk_resource t' = tk_resource t"
      "ticket_key t' = ticket_key t" "TicketExpired t' now = TicketExpired t now"
      "tk_resource t = r \<longrightarrow> \<not> TicketExpired t now \<longrightarrow> blocked c d (tk_identity t)"
    | (granted) granted' where
      "grant_loop h r now d ts (AddUsage h c (tk_identity t) 1)
         (qs(tk_queue t := SubtractUsage h (qs (tk_queue t)) (tk_identity t) 1)) = (rest, granted', c', qs')"
      "granted = grant_mark now t # granted'" "tk_resource t = r" "\<not> TicketExpired t now"
      "\<forall>k\<in>scope_keys (tk_identity t). level c k + unat (1 :: uint64) \<le> scope_limit d k"
      "accounts h (AddUsage h c (tk_identity t) 1) (add_mset (tk_identity t, 1) M)"
proof (cases "tk_resource t \<noteq> r \<or> TicketExpired t now \<or> ob_scope (CheckFits h c (tk_identity t) 1 d) \<noteq> NO_SCOPE")
  case True
  then obtain rest' where "grant_loop h r now d ts c qs = (rest', granted, c', qs')"
    "rest = t # rest' \<or> rest = t\<lparr>tk_last_blocking := CheckFits h c (tk_identity t) 1 d\<rparr> # rest'"
    using assms(1) by (cases "grant_loop h r now d ts c qs") (auto simp: Let_def split: if_splits)
  with True CheckFits_blocked [OF assms(2)] stays show ?thesis by (auto simp: ticket_key_def TicketExpired_def)
next
  case False
  have fits: "\<forall>k\<in>scope_keys (tk_identity t). level c k + unat (1 :: uint64) \<le> scope_limit d k"
    using False assms(2) CheckFits_none [of h c "tk_identity t" 1 d] by (simp add: accounts_def)
  let ?c = "AddUsage h c (tk_identity t) 1" and ?qs = "qs(tk_queue t := SubtractUsage h (qs (tk_queue t)) (tk_identity t) 1)"
  obtain granted' where "grant_loop h r now d ts ?c ?qs = (rest, granted', c', qs')" "granted = grant_mark now t # granted'"
    using assms(1) False by (cases "grant_loop h r now d ts ?c ?qs") (auto simp: Let_def grant_mark_def)
  with granted False fits accounts_add [OF assms(2) _ fits] show ?thesis by auto
qed

lemma grant_loop_accounts:
  assumes "grant_loop h r now d ts c qs = (rest, granted, c', qs')" and "accounts h c M" and "within c d"
    and "queues_account h p qs (\<lambda>q. N q + queued_use q ts)"
  shows "accounts h c' (M + granted_use granted) \<and> within c' d \<and> queues_account h p qs' (\<lambda>q. N q + queued_use q rest)"
  using assms
proof (induction ts arbitrary: rest granted c qs M N)
  case (Cons t ts)
  from Cons.prems(1,2) show ?case
  proof (cases rule: grant_loop_step)
    case (stays t' rest')
    let ?N = "\<lambda>q. if q = tk_queue t then add_mset (tk_identity t, 1) (N q) else N q"
    have eq: "(\<lambda>q. ?N q + queued_use q us) = (\<lambda>q. N q + queued_use q (u # us))"
      if "tk_identity u = tk_identity t" "tk_queue u = tk_queue t" for u us
      using that by (auto simp: fun_eq_iff)
    show ?thesis using Cons.IH [OF stays(1), of M ?N] Cons.prems(2-4) stays(2-4) eq [of t ts] eq [of t' rest'] by simp
  next
    case (granted granted')
    have "queues_account h p (qs(tk_queue t := SubtractUsage h (qs (tk_queue t)) (tk_identity t) 1)) (\<lambda>q. N q + queued_use q ts)"
      using queues_account_remove [OF Cons.prems(4), of t "N (tk_queue t) + queued_use (tk_queue t) ts"]
      by (auto simp: fun_upd_def fun_eq_iff if_distrib cong: if_cong elim!: back_subst [of "queues_account h p _"])
    with Cons.IH [OF granted(1,6), of N] within_add [OF Cons.prems(2,3) granted(5)] granted(2)
    show ?thesis by (simp add: fun_upd_def)
  qed
qed simp

lemma grant_loop_keys:
  assumes "grant_loop h r now d ts c qs = (rest, granted, c', qs')" and "accounts h c M"
  shows "mset (map ticket_key rest) + mset (map ticket_key granted) = mset (map ticket_key ts) \<and>
    subseq (map ticket_key rest) (map ticket_key ts) \<and>
    (\<forall>t\<in>set granted. tk_resource t = r \<and> \<not> TicketExpired t now \<and> tk_granted t \<and> tk_granted_at t = now)"
  using assms
proof (induction ts arbitrary: rest granted c qs M)
  case (Cons t ts)
  from Cons.prems show ?case
  proof (cases rule: grant_loop_step)
    case (stays t' rest')
    with Cons.IH [OF stays(1) Cons.prems(2)] show ?thesis by auto
  next
    case (granted granted')
    with Cons.IH [OF granted(1,6)] show ?thesis by auto
  qed
qed simp

lemma grant_loop_mono:
  assumes "grant_loop h r now d ts c qs = (rest, granted, c', qs')" and "accounts h c M"
  shows "level c k \<le> level c' k"
  using assms
proof (induction ts arbitrary: rest granted c qs M)
  case (Cons t ts)
  from Cons.prems show ?case
  proof (cases rule: grant_loop_step)
    case (stays t' rest')
    with Cons.IH [OF stays(1) Cons.prems(2)] show ?thesis by simp
  next
    case (granted granted')
    with Cons.IH [OF granted(1,6)] level_add_mono [OF Cons.prems(2) granted(5), of k] show ?thesis by simp
  qed
qed simp

text \<open>
  A ticket that stays although it could have been granted is blocked, and stays blocked: a full scope
  admits nothing more, so no ticket is granted past an earlier one whose scopes it shares.
\<close>

lemma grant_loop_blocked:
  assumes "grant_loop h r now d ts c qs = (rest, granted, c', qs')" and "accounts h c M"
    and "t \<in> set rest" "tk_resource t = r" "\<not> TicketExpired t now"
  shows "blocked c' d (tk_identity t)"
  using assms
proof (induction ts arbitrary: rest granted c qs M)
  case (Cons u ts)
  from Cons.prems(1,2) show ?case
  proof (cases rule: grant_loop_step)
    case (stays u' rest')
    show ?thesis
    proof (cases "t = u'")
      case True
      then have "blocked c d (tk_identity t)" using stays Cons.prems(4,5) by simp
      then show ?thesis using grant_loop_mono [OF stays(1) Cons.prems(2)] unfolding blocked_def by (metis le_trans)
    next
      case False
      then show ?thesis using Cons.IH [OF stays(1) Cons.prems(2)] Cons.prems(3-5) stays(2) by simp
    qed
  next
    case (granted granted')
    with Cons.IH [OF granted(1,6)] Cons.prems(3-5) show ?thesis by simp
  qed
qed simp

lemma grant_loop_full:
  assumes "grant_loop h r now d ts c qs = (rest, granted, c', qs')" and "accounts h c M"
    and "scope_limit d k \<le> level c k" "g \<in> set granted"
  shows "k \<notin> scope_keys (tk_identity g)"
  using assms
proof (induction ts arbitrary: rest granted c qs M)
  case (Cons t ts)
  from Cons.prems(1,2) show ?case
  proof (cases rule: grant_loop_step)
    case (stays t' rest')
    with Cons.IH [OF stays(1) Cons.prems(2-4)] show ?thesis by simp
  next
    case (granted granted')
    have "scope_limit d k \<le> level (AddUsage h c (tk_identity t) 1) k"
      using level_add_mono [OF Cons.prems(2) granted(5), of k] Cons.prems(3) by simp
    moreover have "k \<notin> scope_keys (tk_identity t)" using granted(5) Cons.prems(3) by fastforce
    ultimately show ?thesis using Cons.IH [OF granted(1,6)] Cons.prems(4) granted(2) by auto
  qed
qed simp

lemma grant_loop_order:
  assumes "grant_loop h r now d (us @ t # vs) c qs = (rest, granted, c', qs')" and "accounts h c M"
    and "v \<in> set vs" "grant_mark now v \<in> set granted" "distinct (map ticket_key (us @ t # vs))"
    and "tk_resource t = r" "\<not> TicketExpired t now" "scope_keys (tk_identity t) \<subseteq> scope_keys (tk_identity v)"
  shows "grant_mark now t \<in> set granted"
  using assms
proof (induction us arbitrary: rest granted c qs M)
  case Nil
  from Nil.prems(1,2) show ?case unfolding append_Nil
  proof (cases rule: grant_loop_step)
    case (stays t' rest')
    then obtain k where "k \<in> scope_keys (tk_identity t)" "scope_limit d k \<le> level c k"
      using Nil.prems(6,7) by (auto simp: blocked_def)
    with grant_loop_full [OF stays(1) Nil.prems(2) _ Nil.prems(4)] Nil.prems(8) show ?thesis by auto
  qed simp
next
  case (Cons u us)
  from Cons.prems(1,2) show ?case unfolding append_Cons
  proof (cases rule: grant_loop_step)
    case (stays t' rest')
    from Cons.IH [OF stays(1) Cons.prems(2-4) _ Cons.prems(6-8)] Cons.prems(5) show ?thesis by simp
  next
    case (granted granted')
    have "ticket_key v \<in> set (map ticket_key (us @ t # vs))" using Cons.prems(3) by simp
    then have "ticket_key u \<noteq> ticket_key v" using Cons.prems(5) by auto
    then have "grant_mark now v \<in> set granted'" using Cons.prems(4) granted(2) grant_mark_simps(1) by (metis set_ConsD)
    with Cons.IH [OF granted(1,6) Cons.prems(3) _ _ Cons.prems(6-8)] Cons.prems(5) granted(2) show ?thesis by simp
  qed
qed

subsection \<open>The books of the controller\<close>

definition permit_use :: "ResourceKind \<Rightarrow> admission_permit multiset \<Rightarrow> (admission_identity \<times> uint64) multiset" where
  "permit_use r H = image_mset (\<lambda>p. (pm_identity p, pm_amount p)) (filter_mset (\<lambda>p. pm_resource p = r) H)"

definition resource_use :: "ResourceKind \<Rightarrow> admission_permit multiset \<Rightarrow> admission_state \<Rightarrow> (admission_identity \<times> uint64) multiset" where
  "resource_use r H st = permit_use r H + granted_use (filter (\<lambda>t. tk_resource t = r) (detached st))"

definition live_keys :: "admission_state \<Rightarrow> (QueueKind \<times> uint64) list" where
  "live_keys st = map ticket_key (tickets st @ detached st)"

definition book_ok :: "'a admission_hash_scheme \<Rightarrow> admission_permit multiset \<Rightarrow> admission_state \<Rightarrow> bool" where
  "book_ok h H st \<longleftrightarrow>
     (\<forall>r. accounts h (resources st r) (resource_use r H st) \<and> within (resources st r) (ResourceLimits (profile st) r)) \<and>
     queues_account h (profile st) (queues st) (\<lambda>q. queued_use q (tickets st)) \<and>
     distinct (live_keys st) \<and> (\<forall>(q, n)\<in>set (live_keys st). n < next_ticket st q) \<and> (\<forall>p\<in>#H. pm_amount p \<noteq> 0)"

lemma permit_use_simps [simp]:
  "permit_use r {#} = {#}"
  "permit_use r (add_mset p H) = (if pm_resource p = r then add_mset (pm_identity p, pm_amount p) (permit_use r H) else permit_use r H)"
  by (simp_all add: permit_use_def)

lemma book_okD:
  assumes "book_ok h H st"
  shows "accounts h (resources st r) (resource_use r H st)" "within (resources st r) (ResourceLimits (profile st) r)"
    "queues_account h (profile st) (queues st) (\<lambda>q. queued_use q (tickets st))" "distinct (live_keys st)"
    "(q, n) \<in> set (live_keys st) \<Longrightarrow> n < next_ticket st q" "p \<in># H \<Longrightarrow> pm_amount p \<noteq> 0"
  using assms by (auto simp: book_ok_def)

lemma queued_use_split: "t \<in> set ts \<Longrightarrow>
    queued_use q ts = (if tk_queue t = q then add_mset (tk_identity t, 1) (queued_use q (remove1 t ts)) else queued_use q (remove1 t ts))"
  by (induction ts) (auto simp: add_mset_commute)

lemma granted_use_split: "t \<in> set ts \<Longrightarrow>
    granted_use (filter P ts) = (if P t then add_mset (tk_identity t, 1) (granted_use (filter P (remove1 t ts))) else granted_use (filter P (remove1 t ts)))"
  by (induction ts) (auto simp: add_mset_commute)

lemma granted_use_append [simp]: "granted_use (ts @ us) = granted_use ts + granted_use us"
  by (simp add: granted_use_def)

lemma mset_eq_distinct: "mset xs = mset ys \<Longrightarrow> distinct xs \<longleftrightarrow> distinct ys"
  using mset_eq_imp_distinct_iff by blast

lemma grant_fields [simp]:
  "profile (GrantEligibleLocked h r now st) = profile st" "next_ticket (GrantEligibleLocked h r now st) = next_ticket st"
  "terminal_reason (GrantEligibleLocked h r now st) = terminal_reason st"
  by (simp_all add: GrantEligibleLocked_def split: prod.splits)

lemma grant_book:
  assumes "book_ok h H st"
  shows "book_ok h H (GrantEligibleLocked h r now st) \<and>
    mset (live_keys (GrantEligibleLocked h r now st)) = mset (live_keys st)"
proof (cases "terminal_reason st = NO_REASON")
  case True
  let ?d = "ResourceLimits (profile st) r"
  obtain rest granted c qs where l: "grant_loop h r now ?d (tickets st) (resources st r) (queues st) = (rest, granted, c, qs)"
    by (metis prod_cases4)
  let ?st = "st\<lparr>tickets := rest, detached := detached st @ granted, resources := (resources st)(r := c), queues := qs\<rparr>"
  have eq: "GrantEligibleLocked h r now st = ?st" using True l by (simp add: GrantEligibleLocked_def)
  note b = book_okD [OF assms]
  note acc = grant_loop_accounts [OF l b(1,2), of "profile st" "\<lambda>_. {#}", simplified, OF b(3)]
  note keys = grant_loop_keys [OF l b(1)]
  have "filter (\<lambda>t. tk_resource t = r') granted = (if r' = r then granted else [])" for r'
    using keys by (auto simp: filter_empty_conv)
  then have use: "resource_use r' H ?st = resource_use r' H st + (if r' = r then granted_use granted else {#})" for r'
    by (simp add: resource_use_def)
  have same: "mset (live_keys ?st) = mset (live_keys st)" using keys by (simp add: live_keys_def ac_simps)
  then have "distinct (live_keys ?st)" "set (live_keys ?st) = set (live_keys st)"
    using b(4) mset_eq_distinct mset_eq_setD by blast+
  then have "book_ok h H ?st" using acc b unfolding book_ok_def use by auto
  with same show ?thesis unfolding eq by blast
qed (use assms in \<open>simp add: GrantEligibleLocked_def\<close>)

lemma book_resources:
  assumes "book_ok h H st" and "accounts h c (resource_use r H' st)" and "within c (ResourceLimits (profile st) r)"
    and "\<And>r'. r' \<noteq> r \<Longrightarrow> permit_use r' H' = permit_use r' H" and "\<forall>p\<in>#H'. pm_amount p \<noteq> 0"
  shows "book_ok h H' (st\<lparr>resources := (resources st)(r := c)\<rparr>)"
  using assms by (auto simp: book_ok_def resource_use_def live_keys_def)

lemma release_book:
  assumes "book_ok h (add_mset p H) st"
  shows "book_ok h H (st\<lparr>resources := (resources st)(pm_resource p := SubtractUsage h (resources st (pm_resource p)) (pm_identity p) (pm_amount p))\<rparr>)"
proof (rule book_resources [OF assms])
  have acc: "accounts h (resources st (pm_resource p)) (add_mset (pm_identity p, pm_amount p) (resource_use (pm_resource p) H st))"
    using book_okD(1) [OF assms, of "pm_resource p"] by (simp add: resource_use_def)
  from accounts_remove [OF this]
  show "accounts h (SubtractUsage h (resources st (pm_resource p)) (pm_identity p) (pm_amount p)) (resource_use (pm_resource p) H st)" .
  from within_remove [OF acc book_okD(2) [OF assms]]
  show "within (SubtractUsage h (resources st (pm_resource p)) (pm_identity p) (pm_amount p)) (ResourceLimits (profile st) (pm_resource p))" .
qed (use book_okD(6) [OF assms] in auto)

lemma acquire_book:
  assumes "book_ok h H st" and "a \<noteq> 0" and "ob_scope (CheckFits h (resources st r) i a (ResourceLimits (profile st) r)) = NO_SCOPE"
  shows "book_ok h (add_mset \<lparr>pm_resource = r, pm_identity = i, pm_amount = a\<rparr> H)
    (st\<lparr>resources := (resources st)(r := AddUsage h (resources st r) i a)\<rparr>)"
proof (rule book_resources [OF assms(1)])
  note acc = book_okD(1,2) [OF assms(1), of r]
  have fits: "\<forall>k\<in>scope_keys i. level (resources st r) k + unat a \<le> scope_limit (ResourceLimits (profile st) r) k"
    using CheckFits_none assms(3) acc(1) unfolding accounts_def by blast
  show "accounts h (AddUsage h (resources st r) i a) (resource_use r (add_mset \<lparr>pm_resource = r, pm_identity = i, pm_amount = a\<rparr> H) st)"
    using accounts_add [OF acc(1) assms(2) fits] by (simp add: resource_use_def)
  show "within (AddUsage h (resources st r) i a) (ResourceLimits (profile st) r)" by (rule within_add [OF acc fits])
qed (use assms(2) book_okD(6) [OF assms(1)] in auto)

lemma mset_map_remove1: "t \<in> set ts \<Longrightarrow> mset (map f ts) = add_mset (f t) (mset (map f (remove1 t ts)))"
  by (induction ts) auto

lemma live_keys_remove:
  "t \<in> set (detached st) \<Longrightarrow> mset (live_keys st) = add_mset (ticket_key t) (mset (live_keys (st\<lparr>detached := remove1 t (detached st)\<rparr>)))"
  "t \<in> set (tickets st) \<Longrightarrow> mset (live_keys st) = add_mset (ticket_key t) (mset (live_keys (st\<lparr>tickets := remove1 t (tickets st)\<rparr>)))"
  unfolding live_keys_def map_append mset_append admission_state.simps by (simp_all only: mset_map_remove1 [where f = ticket_key] union_mset_add_mset_left union_mset_add_mset_right) simp_all

lemma live_keys_subset:
  assumes "mset (live_keys st) = add_mset key (mset (live_keys st'))" "distinct (live_keys st)"
  shows "distinct (live_keys st')" "set (live_keys st') \<subseteq> set (live_keys st)"
proof -
  have eq: "mset (live_keys st) = mset (key # live_keys st')" using assms(1) by simp
  show "distinct (live_keys st')" using assms(2) mset_eq_distinct [OF eq] by simp
  show "set (live_keys st') \<subseteq> set (live_keys st)" using mset_eq_setD [OF eq] by auto
qed

lemma collect_book:
  assumes "book_ok h H st" and "t \<in> set (detached st)"
  shows "book_ok h (add_mset \<lparr>pm_resource = tk_resource t, pm_identity = tk_identity t, pm_amount = 1\<rparr> H)
    (st\<lparr>detached := remove1 t (detached st)\<rparr>)"
proof -
  let ?st = "st\<lparr>detached := remove1 t (detached st)\<rparr>" and ?p = "\<lparr>pm_resource = tk_resource t, pm_identity = tk_identity t, pm_amount = 1\<rparr>"
  have "resource_use r (add_mset ?p H) ?st = resource_use r H st" for r
    using granted_use_split [OF assms(2), of "\<lambda>t. tk_resource t = r"] by (simp add: resource_use_def)
  with live_keys_subset [OF live_keys_remove(1) [OF assms(2)] book_okD(4) [OF assms(1)]] assms(1)
  show ?thesis unfolding book_ok_def by auto
qed

lemma find_key: "List.find (\<lambda>t. ticket_key t = key) ts = Some t \<Longrightarrow> t \<in> set ts \<and> ticket_key t = key"
  by (auto simp: find_Some_iff)

lemma find_no_key: "List.find (\<lambda>t. ticket_key t = key) ts = None \<longleftrightarrow> key \<notin> ticket_key ` set ts"
  by (auto simp: find_None_iff)

lemma remove_book:
  assumes "book_ok h H st" and "List.find (\<lambda>t. ticket_key t = key) (tickets st) = Some t"
  shows "book_ok h H (RemoveTicketLocked h key st) \<and>
    mset (live_keys st) = add_mset key (mset (live_keys (RemoveTicketLocked h key st)))"
proof -
  note t = find_key [OF assms(2)]
  let ?st = "st\<lparr>tickets := remove1 t (tickets st)\<rparr>"
  let ?qs = "(queues st)(tk_queue t := SubtractUsage h (queues st (tk_queue t)) (tk_identity t) 1)"
  have eq: "RemoveTicketLocked h key st = ?st\<lparr>queues := ?qs\<rparr>" using assms(2) by (simp add: RemoveTicketLocked_def)
  have keys: "live_keys (?st\<lparr>queues := ?qs\<rparr>) = live_keys ?st" by (simp add: live_keys_def)
  note removed = live_keys_remove(2) [of t st] 
  have "queues_account h (profile st) ?qs (\<lambda>q. queued_use q (remove1 t (tickets st)))"
    using queues_account_remove [OF book_okD(3) [OF assms(1)], of t "queued_use (tk_queue t) (remove1 t (tickets st))"] t
      queued_use_split [of t "tickets st"]
    by (auto simp: fun_upd_def fun_eq_iff elim!: back_subst [of "queues_account h (profile st) _"])
  moreover have "resource_use r H (?st\<lparr>queues := ?qs\<rparr>) = resource_use r H st" for r by (simp add: resource_use_def)
  ultimately have "book_ok h H (?st\<lparr>queues := ?qs\<rparr>)"
    using live_keys_subset [OF removed book_okD(4) [OF assms(1)]] t assms(1) unfolding book_ok_def keys by auto
  with removed t show ?thesis unfolding eq keys by simp
qed

lemma enqueue_book:
  assumes "book_ok h H st" and "ob_scope (CheckFits h (queues st q) i 1 (QueueLimits (profile st) q)) = NO_SCOPE"
    and "next_ticket st q \<noteq> uint64_max" and "tk_queue t = q" "tk_identity t = i" "tk_ordinal t = next_ticket st q"
  shows "book_ok h H (st\<lparr>next_ticket := (next_ticket st)(q := next_ticket st q + 1), queues := (queues st)(q := AddUsage h (queues st q) i 1),
      tickets := tickets st @ [t]\<rparr>) \<and> (q, next_ticket st q) \<notin> set (live_keys st)"
    (is "book_ok h H ?st \<and> _")
proof -
  have acc: "accounts h (queues st q) (queued_use q (tickets st))" "within (queues st q) (QueueLimits (profile st) q)"
    using book_okD(3) [OF assms(1)] by (auto simp: queues_account_def)
  have fits: "\<forall>k\<in>scope_keys i. level (queues st q) k + unat (1 :: uint64) \<le> scope_limit (QueueLimits (profile st) q) k"
    using CheckFits_none assms(2) acc(1) unfolding accounts_def by blast
  have "queues_account h (profile st) ((queues st)(q := AddUsage h (queues st q) i 1)) (\<lambda>q. queued_use q (tickets st @ [t]))"
    using book_okD(3) [OF assms(1)] accounts_add [OF acc(1) _ fits] within_add [OF acc fits] assms(4,5)
    by (auto simp: queues_account_def)
  moreover have fresh: "(q, next_ticket st q) \<notin> set (live_keys st)" using book_okD(5) [OF assms(1)] by blast
  moreover have "distinct (live_keys ?st)" and keys: "set (live_keys ?st) = insert (q, next_ticket st q) (set (live_keys st))"
    using fresh book_okD(4) [OF assms(1)] assms(4,6) by (auto simp: live_keys_def ticket_key_def)
  moreover have "next_ticket st q < next_ticket st q + 1" by (rule ticket_increment(1) [OF assms(3)])
  then have later: "next_ticket st q' \<le> next_ticket ?st q'" and "next_ticket st q < next_ticket ?st q" for q' by (auto simp: less_imp_le)
  then have "\<forall>(q', n)\<in>set (live_keys ?st). n < next_ticket ?st q'"
    unfolding keys using book_okD(5) [OF assms(1)] less_le_trans by fastforce
  moreover have "resource_use r H ?st = resource_use r H st" for r by (simp add: resource_use_def)
  ultimately show ?thesis using assms(1) unfolding book_ok_def by auto
qed

subsection \<open>Every step keeps the books\<close>

lemma abandon_book:
  assumes "book_ok h H st" and "key \<in> set (live_keys st)"
  shows "book_ok h H (abandon_wait h key now st) \<and> mset (live_keys st) = add_mset key (mset (live_keys (abandon_wait h key now st))) \<and>
    profile (abandon_wait h key now st) = profile st"
proof (cases "List.find (\<lambda>t. ticket_key t = key) (detached st)")
  case (Some t)
  note t = find_key [OF Some]
  let ?st = "st\<lparr>detached := remove1 t (detached st)\<rparr>"
  let ?st' = "?st\<lparr>resources := (resources st)(tk_resource t := SubtractUsage h (resources st (tk_resource t)) (tk_identity t) 1)\<rparr>"
  have eq: "abandon_wait h key now st = GrantEligibleLocked h (tk_resource t) now ?st'" using Some by (simp add: abandon_wait_def)
  have "book_ok h H ?st'"
    using release_book [of h "\<lparr>pm_resource = tk_resource t, pm_identity = tk_identity t, pm_amount = 1\<rparr>" H ?st]
      collect_book [OF assms(1)] t by simp
  moreover have "live_keys ?st' = live_keys ?st" by (simp add: live_keys_def)
  ultimately show ?thesis using grant_book [of h H ?st'] live_keys_remove(1) [of t st] t unfolding eq by simp
next
  case None
  then obtain t where t: "List.find (\<lambda>t. ticket_key t = key) (tickets st) = Some t"
    using assms(2) find_no_key [of key] unfolding live_keys_def by (cases "List.find (\<lambda>t. ticket_key t = key) (tickets st)") auto
  have "abandon_wait h key now st = GrantEligibleLocked h (tk_resource t) now (RemoveTicketLocked h key st)"
    using None t by (simp add: abandon_wait_def)
  moreover have "profile (RemoveTicketLocked h key st) = profile st" using t by (simp add: RemoveTicketLocked_def)
  ultimately show ?thesis using remove_book [OF assms(1) t] grant_book [of h H "RemoveTicketLocked h key st"] by simp
qed

text \<open>What a turn may do to the books, by its result.\<close>

fun turn_ok :: "'a admission_hash_scheme \<Rightarrow> admission_permit multiset \<Rightarrow> QueueKind \<times> uint64 \<Rightarrow> admission_state \<Rightarrow>
   admission_turn_result \<Rightarrow> admission_state \<Rightarrow> bool" where
  "turn_ok h H key st (TurnAcquires p _) st' \<longleftrightarrow>
     book_ok h (add_mset p H) st' \<and> mset (live_keys st) = add_mset key (mset (live_keys st'))"
| "turn_ok h H key st (TurnSleeps _) st' \<longleftrightarrow> book_ok h H st' \<and> mset (live_keys st) = mset (live_keys st')"
| "turn_ok h H key st _ st' \<longleftrightarrow> book_ok h H st' \<and> mset (live_keys st) = add_mset key (mset (live_keys st'))"

lemma collect_granted_ok:
  assumes "book_ok h H st" and "List.find (\<lambda>t. ticket_key t = key) (detached st) = Some t"
    and "collect_granted h hook_throws now t st = (r, st')"
  shows "turn_ok h H key st r st' \<and> profile st' = profile st"
proof -
  note t = find_key [OF assms(2)]
  have "key \<in> set (live_keys st)" using t by (auto simp: live_keys_def)
  note abandoned = abandon_book [OF assms(1) this, of now]
  show ?thesis
  proof (cases hook_throws)
    case True
    with assms(3) t abandoned show ?thesis by (auto simp: collect_granted_def)
  next
    case False
    with assms(3) t collect_book [OF assms(1)] live_keys_remove(1) [of t st] show ?thesis by (auto simp: collect_granted_def)
  qed
qed

lemma turn_book:
  assumes "book_ok h H st" and "key \<in> set (live_keys st)"
    and "admission_turn h key hook_throws cancelled now ended grant_now st = (r, st')"
  shows "turn_ok h H key st r st' \<and> profile st' = profile st"
proof (cases "List.find (\<lambda>t. ticket_key t = key) (detached st)")
  case (Some t)
  with assms(3) collect_granted_ok [OF assms(1) Some] show ?thesis by (simp add: admission_turn_def)
next
  case None
  then obtain t where t: "List.find (\<lambda>t. ticket_key t = key) (tickets st) = Some t"
    using assms(2) find_no_key [of key] unfolding live_keys_def by (cases "List.find (\<lambda>t. ticket_key t = key) (tickets st)") auto
  define st1 where "st1 = GrantEligibleLocked h (tk_resource t) grant_now st"
  have st1: "book_ok h H st1" "mset (live_keys st1) = mset (live_keys st)" "profile st1 = profile st"
    using grant_book [OF assms(1)] by (simp_all add: st1_def)
  have left: "book_ok h H (RemoveTicketLocked h key st)" "mset (live_keys st) = add_mset key (mset (live_keys (RemoveTicketLocked h key st)))"
    "profile (RemoveTicketLocked h key st) = profile st"
    using remove_book [OF assms(1) t] t by (simp_all add: RemoveTicketLocked_def)
  from assms(3) None t consider status ob where "r = TurnReturns status ob" "st' = RemoveTicketLocked h key st"
    | t' where "List.find (\<lambda>t. ticket_key t = key) (detached st1) = Some t'" "collect_granted h hook_throws grant_now t' st1 = (r, st')"
    | pause where "r = TurnSleeps pause" "st' = st1"
    by (auto simp: admission_turn_def Let_def st1_def split: if_splits option.splits)
  then show ?thesis
  proof cases
    case 1
    with left show ?thesis by simp
  next
    case 2
    from collect_granted_ok [OF st1(1) this] st1(2,3) show ?thesis by (cases r) simp_all
  next
    case 3
    with st1 show ?thesis by simp
  qed
qed

lemma accounts_split:
  assumes "a \<le> b"
  shows "accounts h c (add_mset (i, b - a) (add_mset (i, a) M)) \<longleftrightarrow> accounts h c (add_mset (i, b) M)"
proof -
  have "unat (b - a) + unat a = unat b" using assms by (simp add: unat_sub word_le_nat_alt)
  then show ?thesis by (auto simp: accounts_def)
qed

lemma book_resize:
  assumes "book_ok h (add_mset p H) st" and "bytes \<noteq> 0" and "within c (ResourceLimits (profile st) (pm_resource p))"
    and "accounts h c (add_mset (pm_identity p, bytes) (resource_use (pm_resource p) H st))"
  shows "book_ok h (add_mset (p\<lparr>pm_amount := bytes\<rparr>) H) (st\<lparr>resources := (resources st)(pm_resource p := c)\<rparr>)"
  by (rule book_resources [OF assms(1)]) (use assms book_okD(6) [OF assms(1)] in \<open>auto simp: resource_use_def\<close>)

lemma resize_cases:
  fixes h :: "'a admission_hash_scheme" and st :: admission_state and p :: admission_permit
  defines "c \<equiv> resources st (pm_resource p)" and "d \<equiv> ResourceLimits (profile st) (pm_resource p)" and "i \<equiv> pm_identity p"
  shows "(\<exists>x. resize_locked h (pm_resource p) reason bytes p st = (x, p, st)) \<or>
    bytes < pm_amount p \<and> (\<exists>x. resize_locked h (pm_resource p) reason bytes p st =
      (x, p\<lparr>pm_amount := bytes\<rparr>, st\<lparr>resources := (resources st)(pm_resource p := SubtractUsage h c i (pm_amount p - bytes))\<rparr>)) \<or>
    pm_amount p < bytes \<and> ob_scope (CheckFits h c i (bytes - pm_amount p) d) = NO_SCOPE \<and>
      (\<exists>x. resize_locked h (pm_resource p) reason bytes p st =
        (x, p\<lparr>pm_amount := bytes\<rparr>, st\<lparr>resources := (resources st)(pm_resource p := AddUsage h c i (bytes - pm_amount p))\<rparr>))"
proof (cases bytes "pm_amount p" rule: linorder_cases)
  case greater
  then have "\<not> bytes < pm_amount p" "bytes \<noteq> pm_amount p" by auto
  with greater show ?thesis by (simp add: resize_locked_def Let_def c_def d_def i_def)
qed (auto simp: resize_locked_def c_def i_def)

lemma resize_book:
  assumes book: "book_ok h (add_mset p H) st" and "bytes \<noteq> 0" and run: "resize_locked h (pm_resource p) reason bytes p st = (res, p', st')"
  shows "book_ok h (add_mset p' H) st' \<and> live_keys st' = live_keys st \<and> profile st' = profile st"
proof -
  let ?i = "pm_identity p" and ?c = "resources st (pm_resource p)" and ?d = "ResourceLimits (profile st) (pm_resource p)"
  let ?M = "resource_use (pm_resource p) H st"
  have acc: "accounts h ?c (add_mset (?i, pm_amount p) ?M)" "within ?c ?d"
    using book_okD(1,2) [OF book, of "pm_resource p"] by (simp_all add: resource_use_def)
  consider "p' = p" "st' = st"
    | "bytes < pm_amount p" "p' = p\<lparr>pm_amount := bytes\<rparr>"
      "st' = st\<lparr>resources := (resources st)(pm_resource p := SubtractUsage h ?c ?i (pm_amount p - bytes))\<rparr>"
    | "pm_amount p < bytes" "p' = p\<lparr>pm_amount := bytes\<rparr>" "ob_scope (CheckFits h ?c ?i (bytes - pm_amount p) ?d) = NO_SCOPE"
      "st' = st\<lparr>resources := (resources st)(pm_resource p := AddUsage h ?c ?i (bytes - pm_amount p))\<rparr>"
    using resize_cases [of h p reason bytes st, unfolded run prod.inject] by blast
  then show ?thesis
  proof cases
    case 2
    have acc': "accounts h ?c (add_mset (?i, pm_amount p - bytes) (add_mset (?i, bytes) ?M))"
      using acc(1) by (simp only: accounts_split [OF less_imp_le [OF 2(1)]])
    from book_resize [OF book assms(2) within_remove [OF acc' acc(2)] accounts_remove [OF acc']] 2
    show ?thesis by (simp add: live_keys_def)
  next
    case 3
    have fits: "\<forall>k\<in>scope_keys ?i. level ?c k + unat (bytes - pm_amount p) \<le> scope_limit ?d k"
      using CheckFits_none 3(3) acc(1) unfolding accounts_def by blast
    have "bytes - pm_amount p \<noteq> 0" using 3(1) by auto
    from accounts_add [OF acc(1) this fits]
    have "accounts h (AddUsage h ?c ?i (bytes - pm_amount p)) (add_mset (?i, bytes) ?M)"
      by (simp only: accounts_split [OF less_imp_le [OF 3(1)]])
    from book_resize [OF book assms(2) within_add [OF acc fits] this] 3 show ?thesis by (simp add: live_keys_def)
  qed (use book in simp)
qed

text \<open>What the entry of an acquisition may do to the books.\<close>

fun entry_ok :: "'a admission_hash_scheme \<Rightarrow> admission_permit multiset \<Rightarrow> admission_state \<Rightarrow> admission_entry \<Rightarrow> admission_state \<Rightarrow> bool" where
  "entry_ok h H st (EntryAcquires p) st' \<longleftrightarrow> book_ok h (add_mset p H) st' \<and> mset (live_keys st') = mset (live_keys st)"
| "entry_ok h H st (EntryQueued key) st' \<longleftrightarrow> book_ok h H st' \<and> mset (live_keys st') = add_mset key (mset (live_keys st))"
| "entry_ok h H st _ st' \<longleftrightarrow> book_ok h H st' \<and> mset (live_keys st') = mset (live_keys st)"

lemma book_terminal: "book_ok h H st \<Longrightarrow> book_ok h H (st\<lparr>terminal_reason := reason\<rparr>)"
  by (simp add: book_ok_def resource_use_def live_keys_def)

lemma live_keys_fields [simp]:
  "live_keys (st\<lparr>resources := c\<rparr>) = live_keys st" "live_keys (st\<lparr>terminal_reason := reason\<rparr>) = live_keys st"
  by (simp_all add: live_keys_def)

lemma join_book:
  assumes "book_ok h H st" and "join_queue h r q i wait blocking started grant_now st = (e, st')"
  shows "entry_ok h H st e st' \<and> profile st' = profile st"
proof -
  let ?fits = "ob_scope (CheckFits h (queues st q) i 1 (QueueLimits (profile st) q)) = NO_SCOPE"
  show ?thesis
  proof (cases "?fits \<and> next_ticket st q \<noteq> uint64_max")
    case True
    define t where "t = \<lparr>tk_resource = r, tk_queue = q, tk_identity = i, tk_ordinal = next_ticket st q, tk_wait = wait,
      tk_started = started, tk_granted_at = started, tk_granted = False, tk_last_blocking = blocking\<rparr>"
    define st1 where "st1 = st\<lparr>next_ticket := (next_ticket st)(q := next_ticket st q + 1),
      queues := (queues st)(q := AddUsage h (queues st q) i 1), tickets := tickets st @ [t]\<rparr>"
    have "e = EntryQueued (q, next_ticket st q)" "st' = GrantEligibleLocked h r grant_now st1"
      using assms(2) True by (auto simp: join_queue_def Let_def t_def st1_def)
    moreover have "book_ok h H st1"
      using enqueue_book [of h H st q i t] True assms(1) by (simp add: st1_def t_def)
    moreover have "mset (live_keys st1) = add_mset (q, next_ticket st q) (mset (live_keys st))"
      by (simp add: live_keys_def st1_def t_def ticket_key_def)
    ultimately show ?thesis using grant_book [of h H st1] by (simp add: st1_def)
  next
    case False
    then consider ob where "e = EntryReturns REJECTED ob" "st' = st" | ob where "e = EntryReturns REJECTED ob" "st' = st\<lparr>terminal_reason := TICKET_EXHAUSTED\<rparr>"
      using assms(2) by (cases ?fits) (auto simp: join_queue_def Let_def)
    then show ?thesis by cases (use assms(1) book_terminal in auto)
  qed
qed

lemma queued_entry_cases:
  "(\<exists>x. acquire_queued_locked h r queue i wait output_ok cancelled evaluated started grant_now st = (EntryThrows x, st)) \<or>
   (\<exists>status ob. acquire_queued_locked h r queue i wait output_ok cancelled evaluated started grant_now st = (EntryReturns status ob, st)) \<or>
   ob_scope (entry_limited h r i st) = NO_SCOPE \<and> \<not> list_ex (\<lambda>t. tk_resource t = r) (tickets st) \<and> terminal_reason st = NO_REASON \<and>
     acquire_queued_locked h r queue i wait output_ok cancelled evaluated started grant_now st =
       (EntryAcquires \<lparr>pm_resource = r, pm_identity = i, pm_amount = 1\<rparr>,
        st\<lparr>resources := (resources st)(r := AddUsage h (resources st r) i 1)\<rparr>) \<or>
   (\<exists>q. acquire_queued_locked h r queue i wait output_ok cancelled evaluated started grant_now st =
      join_queue h r q i wait (entry_limited h r i st) started grant_now st)"
  by (cases queue; simp add: acquire_queued_locked_def Let_def; blast)

lemma queued_entry_book:
  assumes "book_ok h H st"
    and "acquire_queued_locked h r queue i wait output_ok cancelled evaluated started grant_now st = (e, st')"
  shows "entry_ok h H st e st' \<and> profile st' = profile st"
  using queued_entry_cases [of h r queue i wait output_ok cancelled evaluated started grant_now st, unfolded assms(2)]
proof (elim disjE exE conjE)
  assume "ob_scope (entry_limited h r i st) = NO_SCOPE" "(e, st') = (EntryAcquires \<lparr>pm_resource = r, pm_identity = i, pm_amount = 1\<rparr>,
        st\<lparr>resources := (resources st)(r := AddUsage h (resources st r) i 1)\<rparr>)"
  with acquire_book [OF assms(1), of 1 r i] show ?thesis by (simp add: entry_limited_def)
next
  fix q assume "(e, st') = join_queue h r q i wait (entry_limited h r i st) started grant_now st"
  from join_book [OF assms(1) this [symmetric]] show ?thesis .
qed (use assms(1) in auto)

lemma immediate_book:
  assumes "book_ok h H st" and "AcquireImmediate h r i amount reason output_ok st = (e, st')"
  shows "entry_ok h H st e st' \<and> profile st' = profile st"
  using assms acquire_book [OF assms(1), of amount r i] by (auto simp: AcquireImmediate_def Let_def split: if_splits)

subsection \<open>Reachable states\<close>

definition admission_ok :: "'a admission_hash_scheme \<Rightarrow> admission_profile \<Rightarrow> admission_system \<Rightarrow> bool" where
  "admission_ok h p s \<longleftrightarrow>
     book_ok h (mset (held s)) (shared s) \<and> mset (waiting s) = mset (live_keys (shared s)) \<and>
     profile (shared s) = p \<and> ValidateAdmissionProfile p"

lemma within_empty: "within empty_counters d"
  by (simp add: within_def level_empty)

lemma admission_start_ok:
  assumes "admission_start p initial_ticket s" shows "admission_ok h p s"
proof -
  have "ValidateAdmissionProfile p" and st: "shared s = \<lparr>terminal_reason = NO_REASON, next_ticket = (\<lambda>_. initial_ticket), profile = p,
      resources = (\<lambda>_. empty_counters), queues = (\<lambda>_. empty_counters), tickets = [], detached = []\<rparr>"
    and "waiting s = []" "held s = []"
    using assms by (auto simp: admission_start_def new_AdmissionController_def split: if_splits)
  then show ?thesis
    by (simp add: admission_ok_def book_ok_def resource_use_def live_keys_def queues_account_def accounts_empty within_empty)
qed

lemma waiting_live: "admission_ok h p s \<Longrightarrow> key \<in> set (waiting s) \<Longrightarrow> key \<in> set (live_keys (shared s))"
  unfolding admission_ok_def by (metis mset_eq_setD)

lemma held_split: "p \<in> set (held s) \<Longrightarrow> mset (held s) = add_mset p (mset (remove1 p (held s)))"
  by simp

lemma admission_entry_ok:
  assumes ok: "admission_ok h p s" and run: "entry_ok h (mset (held s)) (shared s) e st \<and> profile st = profile (shared s)"
  shows "e = EntryAcquires q \<Longrightarrow> admission_ok h p (s\<lparr>shared := st, held := q # held s\<rparr>)"
    and "e = EntryQueued key \<Longrightarrow> admission_ok h p (s\<lparr>shared := st, waiting := key # waiting s\<rparr>)"
    and "e = EntryReturns status ob \<Longrightarrow> admission_ok h p (s\<lparr>shared := st\<rparr>)"
  using assms by (auto simp: admission_ok_def)

lemma admission_turn_ok:
  assumes ok: "admission_ok h p s" and key: "key \<in> set (waiting s)"
    and run: "turn_ok h (mset (held s)) key (shared s) r st \<and> profile st = profile (shared s)"
  shows "r = TurnAcquires q ob \<Longrightarrow> admission_ok h p (s\<lparr>shared := st, waiting := remove1 key (waiting s), held := q # held s\<rparr>)"
    and "r = TurnReturns status ob \<or> r = TurnThrows \<Longrightarrow> admission_ok h p (s\<lparr>shared := st, waiting := remove1 key (waiting s)\<rparr>)"
    and "r = TurnSleeps pause \<Longrightarrow> admission_ok h p (s\<lparr>shared := st\<rparr>)"
  using assms by (auto simp: admission_ok_def)

lemma admission_step_ok:
  assumes ok: "admission_ok h p s" and step: "admission_step h s s'"
  shows "admission_ok h p s'"
proof -
  have book: "book_ok h (mset (held s)) (shared s)" using ok by (simp add: admission_ok_def)
  from step show ?thesis
  proof cases
    case (AcquireReturns r queue i wait output_ok cancelled evaluated started grant_now status ob st)
    then show ?thesis using admission_entry_ok(3) [OF ok queued_entry_book [OF book]] by blast
  next
    case (AcquireAcquires r queue i wait output_ok cancelled evaluated started grant_now q st)
    then show ?thesis using admission_entry_ok(1) [OF ok queued_entry_book [OF book]] by blast
  next
    case (AcquireQueues r queue i wait output_ok cancelled evaluated started grant_now key st)
    then show ?thesis using admission_entry_ok(2) [OF ok queued_entry_book [OF book]] by blast
  next
    case (TurnEnds key hook_throws cancelled now ended grant_now status ob st)
    then show ?thesis using admission_turn_ok(2) [OF ok _ turn_book [OF book waiting_live [OF ok]]] by blast
  next
    case (TurnFails key hook_throws cancelled now ended grant_now st)
    then show ?thesis using admission_turn_ok(2) [OF ok _ turn_book [OF book waiting_live [OF ok]]] by blast
  next
    case (TurnAcquires key hook_throws cancelled now ended grant_now q ob st)
    then show ?thesis using admission_turn_ok(1) [OF ok _ turn_book [OF book waiting_live [OF ok]]] by blast
  next
    case (TurnSleeps key hook_throws cancelled now ended grant_now pause st)
    then show ?thesis using admission_turn_ok(3) [OF ok _ turn_book [OF book waiting_live [OF ok]]] by blast
  next
    case (WaitThrows key grant_now)
    with abandon_book [OF book waiting_live [OF ok], of key grant_now] ok show ?thesis by (simp add: admission_ok_def)
  next
    case (ImmediateAcquires r i amount reason output_ok q st)
    then show ?thesis using admission_entry_ok(1) [OF ok immediate_book [OF book]] by blast
  next
    case (ResizesBytes q output_ok bytes r q' st)
    then consider "q' = q" "st = shared s"
      | res where "bytes \<noteq> 0" "resize_locked h (pm_resource q) BUFFERED_BYTES_EXHAUSTED bytes q (shared s) = (res, q', st)"
      by (cases "resize_locked h BUFFERED_BYTES BUFFERED_BYTES_EXHAUSTED bytes q (shared s)") (auto simp: ResizeBufferedBytes_def split: if_splits)
    then show ?thesis
      by cases (use ResizesBytes book ok resize_book [of h q "mset (remove1 q (held s))" "shared s"] in \<open>auto simp: admission_ok_def\<close>)
  next
    case (ResizesCache q output_ok bytes r q' st)
    then consider "q' = q" "st = shared s"
      | res where "bytes \<noteq> 0" "resize_locked h (pm_resource q) CACHE_RESIDENT_BYTES_EXHAUSTED bytes q (shared s) = (res, q', st)"
      by (cases "resize_locked h CACHE_RESIDENT_BYTES CACHE_RESIDENT_BYTES_EXHAUSTED bytes q (shared s)")
        (auto simp: ResizeCacheResidentBytes_def split: if_splits)
    then show ?thesis
      by cases (use ResizesCache book ok resize_book [of h q "mset (remove1 q (held s))" "shared s"] in \<open>auto simp: admission_ok_def\<close>)
  next
    case (Releases q now)
    have "book_ok h (add_mset q (mset (remove1 q (held s)))) (shared s)" using book Releases(2) by simp
    from grant_book [OF release_book [OF this]] ok Releases show ?thesis
      by (simp add: admission_ok_def Release_def)
  next
    case Closes
    with ok book_terminal [OF book] show ?thesis by (simp add: admission_ok_def CloseAdmission_def)
  qed
qed

interpretation admissions: invariant_relation "admission_start p initial_ticket" "admission_step h" "admission_ok h p"
  for p initial_ticket and h :: "'a admission_hash_scheme"
  by unfold_locales (fact admission_start_ok, fact admission_step_ok)

lemma admission_reachable_ok: "admission_reachable h p initial_ticket s \<Longrightarrow> admission_ok h p s"
  unfolding admission_reachable_def by (rule admissions.inv_reaches)

subsection \<open>What the controller guarantees\<close>

text \<open>How much of a resource the permits given out, and the tickets granted but not yet collected, use in a scope.\<close>

definition held_amount :: "admission_system \<Rightarrow> ResourceKind \<Rightarrow> scope_key \<Rightarrow> nat" where
  "held_amount s r k =
     (\<Sum>p\<leftarrow>held s. if pm_resource p = r \<and> k \<in> scope_keys (pm_identity p) then unat (pm_amount p) else 0) +
     length (filter (\<lambda>t. tk_resource t = r \<and> k \<in> scope_keys (tk_identity t)) (detached (shared s)))"

definition queued_amount :: "admission_system \<Rightarrow> QueueKind \<Rightarrow> scope_key \<Rightarrow> nat" where
  "queued_amount s q k = length (filter (\<lambda>t. tk_queue t = q \<and> k \<in> scope_keys (tk_identity t)) (tickets (shared s)))"

lemma load_permits: "load k (permit_use r (mset ps)) =
    (\<Sum>p\<leftarrow>ps. if pm_resource p = r \<and> k \<in> scope_keys (pm_identity p) then unat (pm_amount p) else 0)"
  by (induction ps) auto

lemma load_granted: "load k (granted_use (filter P ts)) = length (filter (\<lambda>t. P t \<and> k \<in> scope_keys (tk_identity t)) ts)"
  by (induction ts) auto

lemma load_queued: "load k (queued_use q ts) = length (filter (\<lambda>t. tk_queue t = q \<and> k \<in> scope_keys (tk_identity t)) ts)"
  by (induction ts) auto

lemma admission_levels:
  assumes "admission_ok h p s"
  shows "level (resources (shared s) r) k = held_amount s r k" "held_amount s r k \<le> scope_limit (ResourceLimits p r) k"
    "level (queues (shared s) q) k = queued_amount s q k" "queued_amount s q k \<le> scope_limit (QueueLimits p q) k"
proof -
  have book: "book_ok h (mset (held s)) (shared s)" and p: "profile (shared s) = p" using assms by (auto simp: admission_ok_def)
  show "level (resources (shared s) r) k = held_amount s r k"
    using book_okD(1) [OF book, of r] by (simp add: accounts_def resource_use_def held_amount_def load_permits load_granted)
  then show "held_amount s r k \<le> scope_limit (ResourceLimits p r) k" using book_okD(2) [OF book, of r] p by (metis within_def)
  show "level (queues (shared s) q) k = queued_amount s q k"
    using book_okD(3) [OF book] by (simp add: queues_account_def accounts_def queued_amount_def load_queued)
  then show "queued_amount s q k \<le> scope_limit (QueueLimits p q) k"
    using book_okD(3) [OF book] p unfolding queues_account_def by (metis within_def)
qed

lemma dimension_hard: "ValidateDimension d d' \<Longrightarrow> scope_limit d k \<le> scope_limit d' k"
  by (cases k) (simp_all add: ValidateDimension_def word_le_nat_alt)

lemma profile_hard:
  assumes "ValidateAdmissionProfile p"
  shows "scope_limit (ResourceLimits p r) k \<le> scope_limit (ResourceLimits HardProfile r) k"
    "scope_limit (QueueLimits p q) k \<le> scope_limit (QueueLimits HardProfile q) k"
  using assms by (cases r; simp add: ValidateAdmissionProfile_def dimension_hard) (use assms in \<open>cases q; simp add: ValidateAdmissionProfile_def dimension_hard\<close>)

subsection \<open>A contended controller\<close>

text \<open>One scan at a time: the first caller is admitted, the second queues.\<close>

definition zero_hash :: admission_hash where
  "zero_hash = \<lparr>hash_string = (\<lambda>_. 0), hash_uint16 = (\<lambda>_. 0), hash_uint64 = (\<lambda>_. 0), hash_unsigned = (\<lambda>_. 0), hash_bool = (\<lambda>_. 0),
     hash_uint8 = (\<lambda>_. 0), hash_type_tag = (\<lambda>_. 0)\<rparr>"

definition single_scan :: admission_profile where
  "single_scan = HardProfile\<lparr>pf_active_scans := dims 1 1 1 1 1\<rparr>"

definition scan_identity :: admission_identity where
  "scan_identity = \<lparr>ai_connector_id = ''c'', ai_destination = \<lparr>ad_scheme = ''https'', ad_host = ''h'', ad_explicit_port = 443\<rparr>,
     ai_complete = True, ai_relation_id = ''r'', ai_protocol = REST, ai_operation_id = ''o'', ai_principal = ANONYMOUS_PRINCIPAL\<rparr>"

definition scan_permit :: admission_permit where
  "scan_permit = \<lparr>pm_resource = ACTIVE_SCAN, pm_identity = scan_identity, pm_amount = 1\<rparr>"

definition scan_call :: "admission_state \<Rightarrow> admission_entry \<times> admission_state" where
  "scan_call st = AcquireScan zero_hash scan_identity \<lparr>queue_deadline = 1000, has_aggregate_deadline = False, aggregate_deadline = 0,
     has_scan_deadline = False, scan_deadline = 0\<rparr> True False 0 0 0 st"

definition idle_state :: admission_state where
  "idle_state = \<lparr>terminal_reason = NO_REASON, next_ticket = (\<lambda>_. 1), profile = single_scan,
     resources = (\<lambda>_. empty_counters), queues = (\<lambda>_. empty_counters), tickets = [], detached = []\<rparr>"

definition busy_system :: admission_system where
  "busy_system = \<lparr>shared = snd (scan_call idle_state), waiting = [], held = [scan_permit]\<rparr>"

definition queued_system :: admission_system where
  "queued_system = \<lparr>shared = snd (scan_call (snd (scan_call idle_state))), waiting = [(SCAN_QUEUE, 1)], held = [scan_permit]\<rparr>"

lemma admission_reachable_step: "admission_reachable h p n s \<Longrightarrow> admission_step h s s' \<Longrightarrow> admission_reachable h p n s'"
  unfolding admission_reachable_def by (rule reaches.next_state)

lemma busy_reachable: "admission_reachable zero_hash single_scan 1 busy_system"
proof -
  have "ValidateAdmissionProfile single_scan" by code_simp
  then have "admission_reachable zero_hash single_scan 1 \<lparr>shared = idle_state, waiting = [], held = []\<rparr>"
    by (simp add: admission_reachable_def reaches.init admission_start_def new_AdmissionController_def idle_state_def)
  moreover have "fst (scan_call idle_state) = EntryAcquires scan_permit" by code_simp
  then have "scan_call idle_state = (EntryAcquires scan_permit, snd (scan_call idle_state))" by (metis prod.collapse)
  ultimately show ?thesis
    using admission_reachable_step [OF _ admission_step.AcquireAcquires] unfolding scan_call_def AcquireScan_def busy_system_def
    by fastforce
qed

lemma queued_reachable: "admission_reachable zero_hash single_scan 1 queued_system"
proof -
  have "fst (scan_call (snd (scan_call idle_state))) = EntryQueued (SCAN_QUEUE, 1)" by code_simp
  then have "scan_call (shared busy_system) = (EntryQueued (SCAN_QUEUE, 1), shared queued_system)"
    unfolding busy_system_def queued_system_def by (metis admission_system.select_convs(1) prod.collapse)
  with busy_reachable show ?thesis
    using admission_reachable_step [OF busy_reachable admission_step.AcquireQueues, of ACTIVE_SCAN "Some SCAN_QUEUE"]
    unfolding scan_call_def AcquireScan_def by (fastforce simp: busy_system_def queued_system_def)
qed

text \<open>
  C3. The books are exact and the capacity is never exceeded: in every reachable interleaving, errors and rollbacks included,
  each counter of each resource, globally and for every connector, destination, principal and bulkhead, is what the permits
  given out and the tickets granted hold there, no counter has wrapped, and it is within the limit of the
  profile and the hard limit; likewise for the queues and the tickets waiting in them.
\<close>

theorem admission_exact_and_bounded:
  assumes "admission_reachable h p initial_ticket s"
  shows "level (resources (shared s) r) k = held_amount s r k \<and>
    held_amount s r k \<le> scope_limit (ResourceLimits p r) k \<and>
    scope_limit (ResourceLimits p r) k \<le> scope_limit (ResourceLimits HardProfile r) k \<and>
    level (queues (shared s) q) k = queued_amount s q k \<and>
    queued_amount s q k \<le> scope_limit (QueueLimits p q) k \<and>
    scope_limit (QueueLimits p q) k \<le> scope_limit (QueueLimits HardProfile q) k"
  using admission_levels [OF admission_reachable_ok [OF assms]] profile_hard admission_reachable_ok [OF assms]
  by (simp add: admission_ok_def)

theorem admission_exact_and_bounded_witness:
  "held queued_system = [scan_permit] \<and>
   level (resources (shared queued_system) ACTIVE_SCAN) GlobalScope = held_amount queued_system ACTIVE_SCAN GlobalScope \<and>
   queued_amount queued_system SCAN_QUEUE GlobalScope \<le> scope_limit (QueueLimits single_scan SCAN_QUEUE) GlobalScope"
  using admission_exact_and_bounded [OF queued_reachable, of ACTIVE_SCAN GlobalScope SCAN_QUEUE] by (simp add: queued_system_def)

text \<open>
  C26. Nothing leaks: once no caller is waiting and every permit has been released, however the waits ended (grants,
  rejections, cancellations, deadlines, exceptions, closing), every counter is zero, every table is empty and
  no ticket is left.
\<close>

theorem admission_no_leak:
  assumes "admission_reachable h p initial_ticket s" and "held s = []" and "waiting s = []"
  shows "resources (shared s) r = empty_counters \<and> queues (shared s) q = empty_counters \<and>
    tickets (shared s) = [] \<and> detached (shared s) = []"
proof -
  note ok = admission_reachable_ok [OF assms(1)]
  have book: "book_ok h {#} (shared s)" and "live_keys (shared s) = []" using ok assms(2,3) by (simp_all add: admission_ok_def)
  then have none: "tickets (shared s) = []" "detached (shared s) = []" by (simp_all add: live_keys_def)
  from book_okD(1) [OF book, of r] have "accounts h (resources (shared s) r) {#}" by (simp add: resource_use_def none)
  moreover from book_okD(3) [OF book] have "accounts h (queues (shared s) q) {#}" by (simp add: queues_account_def none)
  ultimately show ?thesis using none accounts_none by blast
qed

theorem admission_no_leak_witness:
  "resources (Release zero_hash 0 scan_permit (shared busy_system)) ACTIVE_SCAN = empty_counters"
proof -
  let ?s = "busy_system\<lparr>shared := Release zero_hash 0 scan_permit (shared busy_system), held := []\<rparr>"
  have "admission_reachable zero_hash single_scan 1 ?s"
    using admission_reachable_step [OF busy_reachable admission_step.Releases, of scan_permit 0] by (simp add: busy_system_def)
  from admission_no_leak [OF this, of ACTIVE_SCAN] show ?thesis by (simp add: busy_system_def)
qed

lemma grant_loop_granted:
  assumes "grant_loop h r now d ts c qs = (rest, granted, c', qs')" and "accounts h c M" and "v \<in> set ts"
  shows "ticket_key v \<in> ticket_key ` set rest \<or> grant_mark now v \<in> set granted"
  using assms
proof (induction ts arbitrary: rest granted c qs M)
  case (Cons t ts)
  from Cons.prems(1,2) show ?case
  proof (cases rule: grant_loop_step)
    case (stays t' rest')
    with Cons.IH [OF stays(1) Cons.prems(2)] Cons.prems(3) show ?thesis by (auto simp: image_iff)
  next
    case (granted granted')
    with Cons.IH [OF granted(1,6)] Cons.prems(3) show ?thesis by auto
  qed
qed simp

lemma grant_no_overtaking:
  assumes "grant_loop h r now d (us @ t # vs) c qs = (rest, granted, c', qs')" and "accounts h c M"
    and "v \<in> set vs" "ticket_key v \<notin> ticket_key ` set rest" "distinct (map ticket_key (us @ t # vs))"
    and "tk_resource t = r" "\<not> TicketExpired t now" "ticket_key t \<in> ticket_key ` set rest"
  shows "\<not> scope_keys (tk_identity t) \<subseteq> scope_keys (tk_identity v)"
proof
  assume sub: "scope_keys (tk_identity t) \<subseteq> scope_keys (tk_identity v)"
  have "grant_mark now v \<in> set granted" using grant_loop_granted [OF assms(1,2), of v] assms(3,4) by simp
  from imageI [OF grant_loop_order [OF assms(1-3) this assms(5-7) sub], of ticket_key]
  have "ticket_key t \<in> set (map ticket_key granted)" by simp
  moreover have "mset (map ticket_key (us @ t # vs)) = mset (map ticket_key rest @ map ticket_key granted)"
    using grant_loop_keys [OF assms(1,2)] by simp
  from mset_eq_distinct [OF this] assms(5) have "distinct (map ticket_key rest @ map ticket_key granted)" by blast
  ultimately show False using assms(8) by auto
qed

text \<open>
  C27. Grants waste no capacity and respect the queue: after a grant pass of a live controller every ticket of the resource
  that has not expired and still waits is blocked by a scope that is full; the others keep their order; a ticket is granted
  past an earlier eligible one of the same resource only if that one uses a scope it does not use; and a new caller is
  admitted at once only when nobody queues for the resource.
\<close>

theorem admission_grants_fair:
  assumes "admission_reachable h p initial_ticket s" and "terminal_reason (shared s) = NO_REASON"
    and "st = GrantEligibleLocked h r now (shared s)"
  shows "(\<forall>t\<in>set (tickets st). tk_resource t = r \<longrightarrow> \<not> TicketExpired t now \<longrightarrow>
      (\<exists>k\<in>scope_keys (tk_identity t). level (resources st r) k = scope_limit (ResourceLimits p r) k)) \<and>
    subseq (map ticket_key (tickets st)) (map ticket_key (tickets (shared s))) \<and>
    (\<forall>us t vs v. tickets (shared s) = us @ t # vs \<longrightarrow> v \<in> set vs \<longrightarrow> ticket_key v \<notin> ticket_key ` set (tickets st) \<longrightarrow>
      tk_resource t = r \<longrightarrow> \<not> TicketExpired t now \<longrightarrow> ticket_key t \<in> ticket_key ` set (tickets st) \<longrightarrow>
      \<not> scope_keys (tk_identity t) \<subseteq> scope_keys (tk_identity v)) \<and>
    (\<forall>i queue wait output_ok cancelled evaluated started grant_now q st'.
      acquire_queued_locked h r queue i wait output_ok cancelled evaluated started grant_now (shared s) = (EntryAcquires q, st') \<longrightarrow>
      (\<forall>t\<in>set (tickets (shared s)). tk_resource t \<noteq> r))"
proof (intro conjI ballI allI impI)
  note ok = admission_reachable_ok [OF assms(1)]
  have book: "book_ok h (mset (held s)) (shared s)" and p: "profile (shared s) = p" using ok by (auto simp: admission_ok_def)
  let ?d = "ResourceLimits p r"
  obtain rest granted c qs where l: "grant_loop h r now ?d (tickets (shared s)) (resources (shared s) r) (queues (shared s)) = (rest, granted, c, qs)"
    by (metis prod_cases4)
  have st: "tickets st = rest" "resources st r = c" using l assms(2,3) p by (simp_all add: GrantEligibleLocked_def)
  note acc = book_okD(1) [OF book, of r]
  have within: "within c ?d" using grant_book [OF book, of r now] st(2) p assms(3) book_okD(2) [of h _ st r] by auto
  show "\<exists>k\<in>scope_keys (tk_identity t). level (resources st r) k = scope_limit ?d k"
    if "t \<in> set (tickets st)" "tk_resource t = r" "\<not> TicketExpired t now" for t
    using grant_loop_blocked [OF l acc, of t] that st within unfolding blocked_def within_def by (metis le_antisym)
  show "subseq (map ticket_key (tickets st)) (map ticket_key (tickets (shared s)))"
    using grant_loop_keys [OF l acc] st by simp
  show "\<not> scope_keys (tk_identity t) \<subseteq> scope_keys (tk_identity v)"
    if "tickets (shared s) = us @ t # vs" "v \<in> set vs" "ticket_key v \<notin> ticket_key ` set (tickets st)" "tk_resource t = r"
      "\<not> TicketExpired t now" "ticket_key t \<in> ticket_key ` set (tickets st)" for us t vs v
  proof -
    have "distinct (map ticket_key (tickets (shared s)))" using book_okD(4) [OF book] by (simp add: live_keys_def)
    from grant_no_overtaking [OF l [unfolded that(1)] acc that(2) _ this [unfolded that(1)] that(4,5)] that(3,6) st(1)
    show ?thesis by simp
  qed
  show "tk_resource t \<noteq> r"
    if "acquire_queued_locked h r queue i wait output_ok cancelled evaluated started grant_now (shared s) = (EntryAcquires q, st')"
      "t \<in> set (tickets (shared s))" for i queue wait output_ok cancelled evaluated started grant_now q st' t
    using queued_entry_cases [of h r queue i wait output_ok cancelled evaluated started grant_now "shared s", unfolded that(1)] that(2)
    by (auto simp: join_queue_def Let_def list_ex_iff split: if_splits)
qed

theorem admission_grants_fair_witness:
  "tickets (shared queued_system) \<noteq> [] \<and>
   subseq (map ticket_key (tickets (GrantEligibleLocked zero_hash ACTIVE_SCAN 5 (shared queued_system))))
     (map ticket_key (tickets (shared queued_system)))"
proof -
  have live: "terminal_reason (shared queued_system) = NO_REASON" and "tickets (shared queued_system) \<noteq> []" by code_simp+
  with admission_grants_fair [OF queued_reachable live refl, of ACTIVE_SCAN 5] show ?thesis by blast
qed

lemma wait_until_expired: "TicketExpired t now \<longleftrightarrow> wait_until (tk_wait t) \<le> now"
  by (auto simp: TicketExpired_def wait_until_def Let_def min_le_iff_disj)

text \<open>
  C28. Waits end: a turn of a waiting caller sleeps only while the controller is open, the caller is not cancelled and none of
  its deadlines has been reached, and then for at least a millisecond, at most the interruption slice, and not
  past the earliest of its deadlines; in every other case the turn returns or throws.
\<close>

theorem admission_waits_end:
  assumes "admission_reachable h p initial_ticket s" and "key \<in> set (waiting s)"
    and "admission_turn h key hook_throws cancelled now ended grant_now (shared s) = (TurnSleeps pause, st)"
  shows "\<exists>t\<in>set (tickets (shared s)). ticket_key t = key \<and> terminal_reason (shared s) = NO_REASON \<and> \<not> cancelled \<and>
    \<not> TicketExpired t now \<and>
    (wait_until (tk_wait t) \<le> int64_max \<longrightarrow>
      1 \<le> uint pause \<and> pause \<le> pf_interrupt_slice p \<and> now + uint pause \<le> wait_until (tk_wait t))"
proof -
  note ok = admission_reachable_ok [OF assms(1)]
  have not_granted: "List.find (\<lambda>t. ticket_key t = key) (detached (shared s)) = None"
    using assms(3) by (auto simp: admission_turn_def collect_granted_def split: option.splits if_splits)
  with waiting_live [OF ok assms(2)] obtain t where t: "List.find (\<lambda>t. ticket_key t = key) (tickets (shared s)) = Some t"
    using find_no_key [of key] unfolding live_keys_def by (cases "List.find (\<lambda>t. ticket_key t = key) (tickets (shared s))") auto
  have slice: "0 < pf_interrupt_slice p" "pf_interrupt_slice p \<le> 5" "profile (shared s) = p"
    using ok by (auto simp: admission_ok_def ValidateAdmissionProfile_def HardProfile_def word_neq_0_conv)
  from assms(3) not_granted t have live: "terminal_reason (shared s) = NO_REASON" "\<not> cancelled" "\<not> TicketExpired t now"
    and pause: "pause = AdmissionWaitSlice now (wait_until (tk_wait t)) (pf_interrupt_slice (profile (shared s)))"
    by (auto simp: admission_turn_def Let_def collect_granted_def TicketExpired_def split: if_splits option.splits)
  have "now < wait_until (tk_wait t)" using live(3) by (simp add: wait_until_expired)
  from slice_bounds [OF this _ slice(1,2)] pause slice(3) find_key [OF t] live show ?thesis
    by (auto simp: AdmissionWaitSlice_def Let_def)
qed

theorem admission_waits_end_witness:
  "\<exists>t\<in>set (tickets (shared queued_system)). \<not> TicketExpired t 7"
proof -
  let ?turn = "admission_turn zero_hash (SCAN_QUEUE, 1) False False 7 7 7 (shared queued_system)"
  have "fst ?turn = TurnSleeps 5" by code_simp
  then have turn: "?turn = (TurnSleeps 5, snd ?turn)" by (metis prod.collapse)
  have "(SCAN_QUEUE, 1) \<in> set (waiting queued_system)" by (simp add: queued_system_def)
  from admission_waits_end [OF queued_reachable this turn] show ?thesis by blast
qed

end
