(* ===== verification/Json_Reader.thy ===== *)
theory Json_Reader
  imports Cuac_Prelude
begin

unbundle bit_operations_syntax

section \<open>The strict JSON reader\<close>

text \<open>
  The lexical reader under the response decoders (\<open>src/runtime/decoding/strict_json_reader.cpp\<close>). The position is
  the suffix of the input that starts there. What the reader asks from outside is an argument or part of the world it
  threads: a \<open>reader_environment\<close> says, for the n-th check, whether cancellation was requested and whether the deadline
  had passed, what the capacity observer answers to the calls made so far, and how \<open>std::string\<close> chooses its
  capacity; the \<open>json_world\<close> counts the checks and records the calls of the observer. Every loop terminates: the string
  loops and the mutual recursion of \<open>SkipValue\<close> are total functions on the length of the remaining input.
\<close>

datatype ErrorStage =
  TRANSPORT | HTTP_STATUS | DECODE | SCHEMA | POLICY | RESOURCE | INTERNAL | AUTHENTICATION | AUTHORIZATION | REMOTE_PROTOCOL

datatype json_error = ExecutionCancelled | ExecutionError ErrorStage string string

datatype capacity_event =
    ReserveStringCapacity uint64 uint64
  | ReconcileStringCapacity uint64 uint64 uint64

record reader_environment =
  max_json_nesting :: uint64
  cancellation_requested :: "nat \<Rightarrow> bool"
  deadline_passed :: "nat \<Rightarrow> bool"
  observer_outcome :: "capacity_event list \<Rightarrow> json_error option"
  initial_capacity :: uint64
  reserved_capacity :: "uint64 \<Rightarrow> uint64 \<Rightarrow> uint64"

record json_world =
  checks :: nat
  capacity_log :: "capacity_event list"

type_synonym 'a read_result = "(json_error + 'a \<times> string) \<times> json_world"

type_synonym 'a reading = "string \<Rightarrow> json_world \<Rightarrow> 'a read_result"

definition returning :: "'a \<Rightarrow> 'a reading" where
  "returning x s w = (Inr (x, s), w)"

definition failing :: "json_error \<Rightarrow> 'a reading" where
  "failing e s w = (Inl e, w)"

definition bindr :: "'a read_result \<Rightarrow> ('a \<Rightarrow> 'b reading) \<Rightarrow> 'b read_result" where
  "bindr r f = (case r of (Inl e, w) \<Rightarrow> (Inl e, w) | (Inr (x, s), w) \<Rightarrow> f x s w)"

lemma bindr_cong [fundef_cong]:
  "r = r' \<Longrightarrow> (\<And>x s w. r' = (Inr (x, s), w) \<Longrightarrow> f x s w = g x s w) \<Longrightarrow> bindr r f = bindr r' g"
  by (auto simp: bindr_def split: prod.split sum.split)

lemma bindr_Inr:
  "bindr r f = (Inr y, u) \<longleftrightarrow> (\<exists>x s w. r = (Inr (x, s), w) \<and> f x s w = (Inr y, u))"
  by (auto simp: bindr_def split: prod.splits sum.splits)

lemma reading_simps [simp]:
  "returning x s w = (Inr (x, s), w)" "failing e s w = (Inl e, w)"
  "bindr (Inr (x, s), w) f = f x s w" "bindr (Inl e, w) f = (Inl e, w)"
  by (simp_all add: returning_def failing_def bindr_def)

definition Malformed :: "'a reading" where
  "Malformed = failing (ExecutionError DECODE [] ''HTTP response is not valid JSON'')"

lemma Malformed_simp [simp]:
  "Malformed s w = (Inl (ExecutionError DECODE [] ''HTTP response is not valid JSON''), w)"
  by (simp add: Malformed_def)

subsection \<open>Cursor\<close>

definition Check :: "reader_environment \<Rightarrow> unit reading" where
  "Check env s w =
     (let w' = w\<lparr>checks := Suc (checks w)\<rparr>
      in if cancellation_requested env (checks w) then failing ExecutionCancelled s w'
         else if deadline_passed env (checks w)
         then failing (ExecutionError RESOURCE ''wall_milliseconds'' ''execution exceeded its wall-time budget'') s w'
         else returning () s w')"

definition Peek :: "string \<Rightarrow> char" where
  "Peek s = (case s of [] \<Rightarrow> CHR 0x00 | c # _ \<Rightarrow> c)"

definition IsJsonSpace :: "char \<Rightarrow> bool" where
  "IsJsonSpace c \<longleftrightarrow> c = CHR '' '' \<or> c = CHR 0x0A \<or> c = CHR 0x0D \<or> c = CHR 0x09"

fun SkipWhitespace :: "reader_environment \<Rightarrow> unit reading" where
  "SkipWhitespace env [] w = returning () [] w"
| "SkipWhitespace env (c # s) w =
     bindr (Check env (c # s) w) (\<lambda>_ _ w. if IsJsonSpace c then SkipWhitespace env s w else returning () (c # s) w)"

definition Expect :: "reader_environment \<Rightarrow> char \<Rightarrow> unit reading" where
  "Expect env expected s w =
     bindr (Check env s w) (\<lambda>_ s w.
       case s of [] \<Rightarrow> Malformed s w
       | c # s' \<Rightarrow> if c = expected then returning () s' w else Malformed s w)"

definition RequireObjectKey :: "unit reading" where
  "RequireObjectKey s w = (if Peek s \<noteq> CHR 0x22 then Malformed s w else returning () s w)"

definition ObjectSeparator :: "reader_environment \<Rightarrow> unit reading" where
  "ObjectSeparator env s w =
     bindr (SkipWhitespace env s w) (\<lambda>_ s w.
       if Peek s = CHR '','' then
         bindr (SkipWhitespace env (tl s) w) (\<lambda>_ s w.
           if Peek s = CHR ''}'' then Malformed s w else returning () s w)
       else if Peek s \<noteq> CHR ''}'' then Malformed s w else returning () s w)"

definition ArraySeparator :: "reader_environment \<Rightarrow> unit reading" where
  "ArraySeparator env s w =
     bindr (SkipWhitespace env s w) (\<lambda>_ s w.
       if Peek s = CHR '','' then
         bindr (SkipWhitespace env (tl s) w) (\<lambda>_ s w.
           if Peek s = CHR '']'' then Malformed s w else returning () s w)
       else if Peek s \<noteq> CHR '']'' then Malformed s w else returning () s w)"

subsection \<open>Characters\<close>

text \<open>\<open>static_cast<unsigned char>\<close>, promoted, and \<open>static_cast<char>\<close> of a 32-bit value.\<close>

definition octet :: "char \<Rightarrow> uint32" where
  "octet c = of_nat (byte c)"

definition to_char :: "uint32 \<Rightarrow> char" where
  "to_char v = char_of (unat v)"

definition hex_digit :: "char \<Rightarrow> uint32 option" where
  "hex_digit c =
     (if in_range CHR ''0'' CHR ''9'' c then Some (octet c - octet CHR ''0'')
      else if in_range CHR ''a'' CHR ''f'' c then Some (octet c - octet CHR ''a'' + 10)
      else if in_range CHR ''A'' CHR ''F'' c then Some (octet c - octet CHR ''A'' + 10)
      else None)"

fun hex_loop :: "reader_environment \<Rightarrow> nat \<Rightarrow> uint32 \<Rightarrow> uint32 reading" where
  "hex_loop env 0 result s w = returning result s w"
| "hex_loop env (Suc n) result s w =
     bindr (Check env s w) (\<lambda>_ s w.
       case s of [] \<Rightarrow> Malformed s w
       | c # s' \<Rightarrow>
           (case hex_digit c of None \<Rightarrow> Malformed s' w
            | Some d \<Rightarrow> hex_loop env n (push_bit 4 result + d) s' w))"

definition ParseHexCodeUnit :: "reader_environment \<Rightarrow> uint32 reading" where
  "ParseHexCodeUnit env = hex_loop env 4 0"

definition ParseEscapedUnicode :: "reader_environment \<Rightarrow> uint32 reading" where
  "ParseEscapedUnicode env s w =
     bindr (ParseHexCodeUnit env s w) (\<lambda>value s w.
       if 0xd800 \<le> value \<and> value \<le> 0xdbff then
         (case s of
            b # u # s' \<Rightarrow>
              if b \<noteq> CHR 0x5C \<or> u \<noteq> CHR ''u'' then Malformed s w
              else bindr (ParseHexCodeUnit env s' w) (\<lambda>low s w.
                if low < 0xdc00 \<or> low > 0xdfff then Malformed s w
                else returning (0x10000 + push_bit 10 (value - 0xd800) + (low - 0xdc00)) s w)
          | _ \<Rightarrow> Malformed s w)
       else if 0xdc00 \<le> value \<and> value \<le> 0xdfff then Malformed s w
       else returning value s w)"

definition code_point_bytes :: "uint32 \<Rightarrow> string" where
  "code_point_bytes value =
     (if value \<le> 0x7f then [to_char value]
      else if value \<le> 0x7ff then
        [to_char (0xc0 OR drop_bit 6 value), to_char (0x80 OR (value AND 0x3f))]
      else if value \<le> 0xffff then
        [to_char (0xe0 OR drop_bit 12 value), to_char (0x80 OR (drop_bit 6 value AND 0x3f)), to_char (0x80 OR (value AND 0x3f))]
      else
        [to_char (0xf0 OR drop_bit 18 value), to_char (0x80 OR (drop_bit 12 value AND 0x3f)),
         to_char (0x80 OR (drop_bit 6 value AND 0x3f)), to_char (0x80 OR (value AND 0x3f))])"

text \<open>The number of continuation bytes, the bits of the first byte and the smallest admitted code point.\<close>

definition utf8_lead :: "char \<Rightarrow> (nat \<times> uint32 \<times> uint32) option" where
  "utf8_lead c =
     (let first = octet c
      in if first AND 0xe0 = 0xc0 then Some (1, first AND 0x1f, 0x80)
         else if first AND 0xf0 = 0xe0 then Some (2, first AND 0x0f, 0x800)
         else if first AND 0xf8 = 0xf0 then Some (3, first AND 0x07, 0x10000)
         else None)"

fun continuation_loop :: "reader_environment \<Rightarrow> nat \<Rightarrow> uint32 \<Rightarrow> uint32 reading" where
  "continuation_loop env 0 value s w = returning value s w"
| "continuation_loop env (Suc n) value s w =
     bindr (Check env s w) (\<lambda>_ s w.
       case s of [] \<Rightarrow> Malformed s w
       | c # s' \<Rightarrow>
           if octet c AND 0xc0 \<noteq> 0x80 then Malformed s' w
           else continuation_loop env n (push_bit 6 value OR (octet c AND 0x3f)) s' w)"

definition utf8_refused :: "uint32 \<Rightarrow> uint32 \<Rightarrow> bool" where
  "utf8_refused value minimum \<longleftrightarrow> value < minimum \<or> value > 0x10ffff \<or> 0xd800 \<le> value \<and> value \<le> 0xdfff"

definition SkipUtf8 :: "reader_environment \<Rightarrow> char \<Rightarrow> unit reading" where
  "SkipUtf8 env first_character s w =
     (if octet first_character < 0x80 then returning () s w
      else case utf8_lead first_character of
        None \<Rightarrow> Malformed s w
      | Some (count, bits, minimum) \<Rightarrow>
          bindr (continuation_loop env count bits s w) (\<lambda>value s w.
            if utf8_refused value minimum then Malformed s w else returning () s w))"

text \<open>The escapes of one character.\<close>

definition short_escape :: "char \<Rightarrow> char option" where
  "short_escape c =
     (if c = CHR 0x22 \<or> c = CHR 0x5C \<or> c = CHR ''/'' then Some c
      else if c = CHR ''b'' then Some CHR 0x08
      else if c = CHR ''f'' then Some CHR 0x0C
      else if c = CHR ''n'' then Some CHR 0x0A
      else if c = CHR ''r'' then Some CHR 0x0D
      else if c = CHR ''t'' then Some CHR 0x09
      else None)"

subsection \<open>Decoded strings\<close>

text \<open>
  The string under construction with its capacity and the capacity already charged to the observer. Without an
  observer the capacity is not looked at.
\<close>

record json_text =
  text_bytes :: string
  text_capacity :: uint64
  charged_capacity :: uint64

record string_limits =
  max_decoded_bytes :: uint64
  budget_field :: string
  safe_message :: string
  observed :: bool

definition observe :: "reader_environment \<Rightarrow> capacity_event \<Rightarrow> unit reading" where
  "observe env e s w =
     (let w' = w\<lparr>capacity_log := capacity_log w @ [e]\<rparr>
      in case observer_outcome env (capacity_log w') of None \<Rightarrow> returning () s w' | Some err \<Rightarrow> failing err s w')"

definition RequireAppend :: "string_limits \<Rightarrow> string \<Rightarrow> uint64 \<Rightarrow> unit reading" where
  "RequireAppend l result additional s w =
     (if additional > max_decoded_bytes l \<or> of_nat (length result) > max_decoded_bytes l - additional
      then failing (ExecutionError RESOURCE (budget_field l) (safe_message l)) s w
      else returning () s w)"

definition ReserveAppend :: "reader_environment \<Rightarrow> string_limits \<Rightarrow> uint64 \<Rightarrow> json_text \<Rightarrow> json_text reading" where
  "ReserveAppend env l additional text s w =
     bindr (RequireAppend l (text_bytes text) additional s w) (\<lambda>_ s w.
       if \<not> observed l then returning text s w
       else
         let required = of_nat (length (text_bytes text)) + additional
         in if required \<le> text_capacity text then returning text s w
            else bindr (observe env (ReserveStringCapacity (charged_capacity text) required) s w) (\<lambda>_ s w.
              let actual = reserved_capacity env (text_capacity text) required
              in bindr (observe env (ReconcileStringCapacity (charged_capacity text) required actual) s w) (\<lambda>_ s w.
                returning (text\<lparr>text_capacity := actual, charged_capacity := actual\<rparr>) s w)))"

definition append_bytes :: "reader_environment \<Rightarrow> string_limits \<Rightarrow> string \<Rightarrow> json_text \<Rightarrow> json_text reading" where
  "append_bytes env l bytes text s w =
     bindr (ReserveAppend env l (of_nat (length bytes)) text s w) (\<lambda>text s w.
       returning (text\<lparr>text_bytes := text_bytes text @ bytes\<rparr>) s w)"

definition AppendCodePoint :: "reader_environment \<Rightarrow> string_limits \<Rightarrow> uint32 \<Rightarrow> json_text \<Rightarrow> json_text reading" where
  "AppendCodePoint env l value text s w = append_bytes env l (code_point_bytes value) text s w"

definition AppendUtf8 :: "reader_environment \<Rightarrow> string_limits \<Rightarrow> char \<Rightarrow> json_text \<Rightarrow> json_text reading" where
  "AppendUtf8 env l first_character text s w =
     (if octet first_character < 0x80 then append_bytes env l [first_character] text s w
      else case utf8_lead first_character of
        None \<Rightarrow> Malformed s w
      | Some (count, bits, minimum) \<Rightarrow>
          bindr (continuation_loop env count bits s w) (\<lambda>value s' w.
            if utf8_refused value minimum then Malformed s' w
            else append_bytes env l (first_character # take count s) text s' w))"

lemma Check_Inr: "Check env s w = (Inr (x, s'), w') \<Longrightarrow> s' = s"
  by (auto simp: Check_def Let_def split: if_splits)

lemma Check_bind_Inr:
  "bindr (Check env s w) f = (Inr y, u) \<longleftrightarrow> (\<exists>w'. Check env s w = (Inr ((), s), w') \<and> f () s w' = (Inr y, u))"
  by (auto simp: bindr_Inr dest: Check_Inr)

lemma SkipWhitespace_length: "SkipWhitespace env s w = (Inr (x, s'), w') \<Longrightarrow> length s' \<le> length s"
  by (induction env s w rule: SkipWhitespace.induct)
    (auto simp: bindr_Inr le_SucI split: if_splits)

lemma hex_loop_length: "hex_loop env n v s w = (Inr (x, s'), w') \<Longrightarrow> length s' + n = length s"
proof (induction n arbitrary: v s w)
  case (Suc n)
  from Suc.prems obtain c s1 d w1 where "s = c # s1" "hex_loop env n (push_bit 4 v + d) s1 w1 = (Inr (x, s'), w')"
    by (cases s) (auto simp: Check_bind_Inr split: option.splits)
  with Suc.IH show ?case by fastforce
qed simp

lemma ParseEscapedUnicode_length: "ParseEscapedUnicode env s w = (Inr (x, s'), w') \<Longrightarrow> length s' < length s"
  by (auto simp: ParseEscapedUnicode_def ParseHexCodeUnit_def bindr_Inr dest!: hex_loop_length
      split: if_splits list.splits)

lemma continuation_length: "continuation_loop env n v s w = (Inr (x, s'), w') \<Longrightarrow> length s' + n = length s"
proof (induction n arbitrary: v s w)
  case (Suc n)
  from Suc.prems obtain c s1 v1 w1 where "s = c # s1" "continuation_loop env n v1 s1 w1 = (Inr (x, s'), w')"
    by (cases s) (auto simp: Check_bind_Inr split: if_splits)
  with Suc.IH show ?case by fastforce
qed simp

lemma observe_rest: "observe env e s w = (Inr (x, s'), w') \<Longrightarrow> s' = s"
  by (auto simp: observe_def Let_def split: option.splits)

lemma ReserveAppend_rest: "ReserveAppend env l n text s w = (Inr (x, s'), w') \<Longrightarrow> s' = s"
  by (auto simp: ReserveAppend_def RequireAppend_def Let_def bindr_Inr dest!: observe_rest split: if_splits)

lemma append_bytes_rest: "append_bytes env l b text s w = (Inr (x, s'), w') \<Longrightarrow> s' = s"
  by (auto simp: append_bytes_def bindr_Inr dest: ReserveAppend_rest)

lemma AppendUtf8_length: "AppendUtf8 env l c text s w = (Inr (x, s'), w') \<Longrightarrow> length s' \<le> length s"
  by (auto simp: AppendUtf8_def bindr_Inr dest!: append_bytes_rest continuation_length split: if_splits option.splits)

lemma SkipUtf8_length: "SkipUtf8 env c s w = (Inr (x, s'), w') \<Longrightarrow> length s' \<le> length s"
  by (auto simp: SkipUtf8_def bindr_Inr dest!: continuation_length split: if_splits option.splits)

function string_loop :: "reader_environment \<Rightarrow> string_limits \<Rightarrow> json_text \<Rightarrow> string reading" where
  "string_loop env l text s w =
     (if s = [] then Malformed s w
      else bindr (Check env s w) (\<lambda>_ _ w.
        let c = hd s; s1 = tl s
        in if c = CHR 0x22 then returning (text_bytes text) s1 w
           else if byte c < 0x20 then Malformed s1 w
           else if c \<noteq> CHR 0x5C then
             bindr (AppendUtf8 env l c text s1 w) (\<lambda>text s w. string_loop env l text s w)
           else if s1 = [] then Malformed s1 w
           else if hd s1 = CHR ''u'' then
             bindr (ParseEscapedUnicode env (tl s1) w) (\<lambda>value s w.
               bindr (AppendCodePoint env l value text s w) (\<lambda>text s w. string_loop env l text s w))
           else (case short_escape (hd s1) of
               None \<Rightarrow> Malformed (tl s1) w
             | Some e \<Rightarrow> bindr (append_bytes env l [e] text (tl s1) w) (\<lambda>text s w. string_loop env l text s w))))"
  by pat_completeness auto
termination
  by (relation "measure (\<lambda>(env, l, text, s, w). length s)")
    (auto simp: AppendCodePoint_def neq_Nil_conv dest!: AppendUtf8_length ParseEscapedUnicode_length append_bytes_rest)

declare string_loop.simps [simp del]

definition ParseString :: "reader_environment \<Rightarrow> string_limits \<Rightarrow> string reading" where
  "ParseString env l s w =
     bindr (Expect env CHR 0x22 s w) (\<lambda>_ s w.
       let c = initial_capacity env
       in if \<not> observed l then string_loop env l \<lparr>text_bytes = [], text_capacity = c, charged_capacity = 0\<rparr> s w
          else bindr (observe env (ReserveStringCapacity 0 c) s w) (\<lambda>_ s w.
            bindr (observe env (ReconcileStringCapacity 0 c c) s w) (\<lambda>_ s w.
              string_loop env l \<lparr>text_bytes = [], text_capacity = c, charged_capacity = c\<rparr> s w)))"

subsection \<open>Object keys\<close>

text \<open>The fixed buffer of 64 bytes, of which the first \<open>size\<close> are written.\<close>

record object_key =
  key_bytes :: string
  key_overflow :: bool

definition empty_key :: object_key where
  "empty_key = \<lparr>key_bytes = [], key_overflow = False\<rparr>"

definition key_Append :: "char \<Rightarrow> object_key \<Rightarrow> object_key" where
  "key_Append c k =
     (if length (key_bytes k) < 64 then k\<lparr>key_bytes := key_bytes k @ [c]\<rparr> else k\<lparr>key_overflow := True\<rparr>)"

definition key_AppendCodePoint :: "uint32 \<Rightarrow> object_key \<Rightarrow> object_key" where
  "key_AppendCodePoint value k = fold key_Append (code_point_bytes value) k"

definition key_Equals :: "object_key \<Rightarrow> string \<Rightarrow> bool" where
  "key_Equals k expected \<longleftrightarrow>
     \<not> key_overflow k \<and> length expected = length (key_bytes k) \<and> key_bytes k = expected"

function object_key_loop :: "reader_environment \<Rightarrow> object_key \<Rightarrow> object_key reading" where
  "object_key_loop env k s w =
     (if s = [] then Malformed s w
      else bindr (Check env s w) (\<lambda>_ _ w.
        let c = hd s; s1 = tl s
        in if c = CHR 0x22 then returning k s1 w
           else if byte c < 0x20 then Malformed s1 w
           else if c \<noteq> CHR 0x5C then
             bindr (SkipUtf8 env c s1 w) (\<lambda>_ s2 w.
               object_key_loop env (fold key_Append (take (length s - length s2) s) k) s2 w)
           else if s1 = [] then Malformed s1 w
           else if hd s1 = CHR ''u'' then
             bindr (ParseEscapedUnicode env (tl s1) w) (\<lambda>value s w. object_key_loop env (key_AppendCodePoint value k) s w)
           else (case short_escape (hd s1) of
               None \<Rightarrow> Malformed (tl s1) w
             | Some e \<Rightarrow> object_key_loop env (key_Append e k) (tl s1) w)))"
  by pat_completeness auto
termination
  by (relation "measure (\<lambda>(env, k, s, w). length s)")
    (auto simp: neq_Nil_conv dest!: SkipUtf8_length ParseEscapedUnicode_length)

declare object_key_loop.simps [simp del]

definition ParseObjectKey :: "reader_environment \<Rightarrow> object_key reading" where
  "ParseObjectKey env s w = bindr (Expect env CHR 0x22 s w) (\<lambda>_ s w. object_key_loop env empty_key s w)"

subsection \<open>Numbers\<close>

fun skip_digits :: "reader_environment \<Rightarrow> unit reading" where
  "skip_digits env [] w = returning () [] w"
| "skip_digits env (c # s) w =
     (if IsAsciiDigit c then bindr (Check env (c # s) w) (\<lambda>_ _ w. skip_digits env s w) else returning () (c # s) w)"

definition integer_part :: "reader_environment \<Rightarrow> unit reading" where
  "integer_part env s w =
     (let s = (if Peek s = CHR ''-'' then tl s else s)
      in if Peek s = CHR ''0'' then
           (if IsAsciiDigit (Peek (tl s)) then Malformed (tl s) w else returning () (tl s) w)
         else if \<not> in_range CHR ''1'' CHR ''9'' (Peek s) then Malformed s w
         else skip_digits env s w)"

definition fraction_part :: "reader_environment \<Rightarrow> unit reading" where
  "fraction_part env s w =
     (if Peek s = CHR ''.'' then
        (if \<not> IsAsciiDigit (Peek (tl s)) then Malformed (tl s) w else skip_digits env (tl s) w)
      else returning () s w)"

definition exponent_part :: "reader_environment \<Rightarrow> unit reading" where
  "exponent_part env s w =
     (if Peek s = CHR ''e'' \<or> Peek s = CHR ''E'' then
        (let s = (if Peek (tl s) = CHR ''+'' \<or> Peek (tl s) = CHR ''-'' then tl (tl s) else tl s)
         in if \<not> IsAsciiDigit (Peek s) then Malformed s w else skip_digits env s w)
      else returning () s w)"

definition ParseNumberToken :: "reader_environment \<Rightarrow> uint64 \<Rightarrow> string \<Rightarrow> string \<Rightarrow> string reading" where
  "ParseNumberToken env max_token_bytes field message s w =
     bindr (integer_part env s w) (\<lambda>_ s1 w. bindr (fraction_part env s1 w) (\<lambda>_ s2 w.
       bindr (exponent_part env s2 w) (\<lambda>_ s3 w.
         let token_bytes = length s - length s3
         in if of_nat token_bytes > max_token_bytes then failing (ExecutionError RESOURCE field message) s3 w
            else returning (take token_bytes s) s3 w)))"

definition SkipNumber :: "reader_environment \<Rightarrow> unit reading" where
  "SkipNumber env s w =
     bindr (integer_part env s w) (\<lambda>_ s1 w. bindr (fraction_part env s1 w) (\<lambda>_ s2 w.
       bindr (exponent_part env s2 w) (\<lambda>_ s3 w.
         if length s3 = length s then Malformed s3 w else returning () s3 w)))"

subsection \<open>Values and documents\<close>

function skip_string_loop :: "reader_environment \<Rightarrow> unit reading" where
  "skip_string_loop env s w =
     (if s = [] then Malformed s w
      else bindr (Check env s w) (\<lambda>_ _ w.
        let c = hd s; s1 = tl s
        in if c = CHR 0x22 then returning () s1 w
           else if byte c < 0x20 then Malformed s1 w
           else if c \<noteq> CHR 0x5C then bindr (SkipUtf8 env c s1 w) (\<lambda>_ s w. skip_string_loop env s w)
           else if s1 = [] then Malformed s1 w
           else if hd s1 = CHR ''u'' then
             bindr (ParseEscapedUnicode env (tl s1) w) (\<lambda>_ s w. skip_string_loop env s w)
           else if hd s1 \<noteq> CHR 0x22 \<and> hd s1 \<noteq> CHR 0x5C \<and> hd s1 \<noteq> CHR ''/'' \<and> hd s1 \<noteq> CHR ''b'' \<and> hd s1 \<noteq> CHR ''f'' \<and>
                   hd s1 \<noteq> CHR ''n'' \<and> hd s1 \<noteq> CHR ''r'' \<and> hd s1 \<noteq> CHR ''t''
           then Malformed (tl s1) w
           else skip_string_loop env (tl s1) w))"
  by pat_completeness auto
termination
  by (relation "measure (\<lambda>(env, s, w). length s)")
    (auto simp: neq_Nil_conv dest!: SkipUtf8_length ParseEscapedUnicode_length)

declare skip_string_loop.simps [simp del]

definition SkipString :: "reader_environment \<Rightarrow> unit reading" where
  "SkipString env s w = bindr (Expect env CHR 0x22 s w) (\<lambda>_ s w. skip_string_loop env s w)"

fun Literal :: "reader_environment \<Rightarrow> string \<Rightarrow> unit reading" where
  "Literal env [] s w = returning () s w"
| "Literal env (c # cs) s w = bindr (Expect env c s w) (\<lambda>_ s w. Literal env cs s w)"

text \<open>
  The three string loops read the same items and differ in what they do with the bytes of an item: one turn as a function,
  \<open>None\<close> for the closing quote.
\<close>

definition string_item :: "reader_environment \<Rightarrow> string option reading" where
  "string_item env s w =
     (if s = [] then Malformed s w
      else bindr (Check env s w) (\<lambda>_ _ w.
        let c = hd s; s1 = tl s
        in if c = CHR 0x22 then returning None s1 w
           else if byte c < 0x20 then Malformed s1 w
           else if c \<noteq> CHR 0x5C then
             bindr (SkipUtf8 env c s1 w) (\<lambda>_ s2 w. returning (Some (take (length s - length s2) s)) s2 w)
           else if s1 = [] then Malformed s1 w
           else if hd s1 = CHR ''u'' then
             bindr (ParseEscapedUnicode env (tl s1) w) (\<lambda>value s w. returning (Some (code_point_bytes value)) s w)
           else (case short_escape (hd s1) of
               None \<Rightarrow> Malformed (tl s1) w
             | Some e \<Rightarrow> returning (Some [e]) (tl s1) w)))"

lemma bindr_assoc: "bindr (bindr r f) g = bindr r (\<lambda>x s w. bindr (f x s w) g)"
  by (auto simp: bindr_def split: prod.split sum.split)

lemma take_tail: "length s' + n = length s \<Longrightarrow> take (Suc (length s) - length s') (c # s) = c # take n s"
proof -
  assume "length s' + n = length s"
  then have "Suc (length s) - length s' = Suc n" by linarith
  then show ?thesis by simp
qed

lemma AppendUtf8_skip:
  "AppendUtf8 env l c text s w =
     bindr (SkipUtf8 env c s w) (\<lambda>_ s' w. append_bytes env l (take (Suc (length s) - length s') (c # s)) text s' w)"
proof (cases "utf8_lead c")
  case None
  then show ?thesis by (simp add: AppendUtf8_def SkipUtf8_def)
next
  case (Some r)
  obtain n v m where r: "r = (n, v, m)" by (metis prod_cases3)
  have "bindr (continuation_loop env n v s w)
      (\<lambda>value s' w. if utf8_refused value m then Malformed s' w else append_bytes env l (c # take n s) text s' w) =
    bindr (continuation_loop env n v s w) (\<lambda>value s' w. if utf8_refused value m then Malformed s' w
      else append_bytes env l (take (Suc (length s) - length s') (c # s)) text s' w)"
    by (rule bindr_cong) (auto dest!: continuation_length simp: take_tail)
  then show ?thesis using Some r
    by (simp add: AppendUtf8_def SkipUtf8_def bindr_assoc) (auto intro!: bindr_cong)
qed

lemma skip_string_loop_item:
  "skip_string_loop env s w =
     bindr (string_item env s w) (\<lambda>i s w. case i of None \<Rightarrow> returning () s w | Some _ \<Rightarrow> skip_string_loop env s w)"
  by (subst skip_string_loop.simps)
    (auto simp: string_item_def bindr_assoc Let_def short_escape_def intro!: bindr_cong split: if_split)

lemma object_key_loop_item:
  "object_key_loop env k s w =
     bindr (string_item env s w) (\<lambda>i s w.
       case i of None \<Rightarrow> returning k s w | Some b \<Rightarrow> object_key_loop env (fold key_Append b k) s w)"
  by (subst object_key_loop.simps)
    (auto simp: string_item_def bindr_assoc Let_def key_AppendCodePoint_def intro!: bindr_cong split: if_split option.split)

lemma string_loop_item:
  "string_loop env l text s w =
     bindr (string_item env s w) (\<lambda>i s w.
       case i of None \<Rightarrow> returning (text_bytes text) s w
       | Some b \<Rightarrow> bindr (append_bytes env l b text s w) (\<lambda>text s w. string_loop env l text s w))"
  by (subst string_loop.simps, cases s)
    (auto simp: string_item_def bindr_assoc Let_def AppendCodePoint_def AppendUtf8_skip intro!: bindr_cong split: if_split option.split)

lemma string_item_length: "string_item env s w = (Inr (i, s'), w') \<Longrightarrow> length s' < length s"
  by (cases s) (auto simp: string_item_def bindr_Inr Let_def neq_Nil_conv split: if_splits option.splits
      dest!: SkipUtf8_length ParseEscapedUnicode_length)

lemma skip_string_loop_length: "skip_string_loop env s w = (Inr (x, s'), w') \<Longrightarrow> length s' < length s"
proof (induction s arbitrary: w rule: length_induct)
  case (1 s)
  from "1.prems" obtain i s1 w1 where item: "string_item env s w = (Inr (i, s1), w1)"
    and "(case i of None \<Rightarrow> returning () s1 w1 | Some _ \<Rightarrow> skip_string_loop env s1 w1) = (Inr (x, s'), w')"
    by (subst (asm) skip_string_loop_item) (auto simp: bindr_Inr)
  with "1.IH" [rule_format, of s1 w1] string_item_length [OF item] show ?case by (auto split: option.splits)
qed

function (sequential) SkipValue :: "reader_environment \<Rightarrow> uint64 \<Rightarrow> unit reading"
  and array_loop :: "reader_environment \<Rightarrow> uint64 \<Rightarrow> unit reading"
  and object_loop :: "reader_environment \<Rightarrow> uint64 \<Rightarrow> unit reading" where
  "SkipValue env depth s w =
     bindr (SkipWhitespace env s w) (\<lambda>_ s1 w.
       if depth > max_json_nesting env
       then failing (ExecutionError RESOURCE ''json_nesting'' ''HTTP response exceeded its JSON nesting budget'') s1 w
       else if Peek s1 = CHR 0x22 then SkipString env s1 w
       else if Peek s1 = CHR ''-'' \<or> IsAsciiDigit (Peek s1) then SkipNumber env s1 w
       else if Peek s1 = CHR ''t'' then Literal env ''true'' s1 w
       else if Peek s1 = CHR ''f'' then Literal env ''false'' s1 w
       else if Peek s1 = CHR ''n'' then Literal env ''null'' s1 w
       else if Peek s1 = CHR ''['' then
         bindr (Expect env CHR ''['' s1 w) (\<lambda>_ s2 w.
           bindr (SkipWhitespace env s2 w) (\<lambda>_ s3 w. array_loop env depth s3 w))
       else if Peek s1 = CHR ''{'' then
         bindr (Expect env CHR ''{'' s1 w) (\<lambda>_ s2 w.
           bindr (SkipWhitespace env s2 w) (\<lambda>_ s3 w. object_loop env depth s3 w))
       else Malformed s1 w)"
| "array_loop env depth s w =
     (if Peek s = CHR '']'' then Expect env CHR '']'' s w
      else bindr (SkipValue env (depth + 1) s w) (\<lambda>_ s1 w.
        bindr (ArraySeparator env s1 w) (\<lambda>_ s2 w. array_loop env depth s2 w)))"
| "object_loop env depth s w =
     (if Peek s = CHR ''}'' then Expect env CHR ''}'' s w
      else bindr (RequireObjectKey s w) (\<lambda>_ s1 w.
        bindr (SkipString env s1 w) (\<lambda>_ s2 w.
        bindr (SkipWhitespace env s2 w) (\<lambda>_ s3 w.
        bindr (Expect env CHR '':'' s3 w) (\<lambda>_ s4 w.
        bindr (SkipValue env (depth + 1) s4 w) (\<lambda>_ s5 w.
        bindr (ObjectSeparator env s5 w) (\<lambda>_ s6 w. object_loop env depth s6 w)))))))"
  by pat_completeness auto

lemma Expect_length: "Expect env c s w = (Inr (x, s'), w') \<Longrightarrow> s = c # s'"
  by (cases s) (auto simp: Expect_def Check_bind_Inr split: if_splits)

lemma SkipString_length: "SkipString env s w = (Inr (x, s'), w') \<Longrightarrow> length s' < length s"
  by (auto simp: SkipString_def bindr_Inr dest!: Expect_length skip_string_loop_length)

lemma skip_digits_length: "skip_digits env s w = (Inr (x, s'), w') \<Longrightarrow> length s' \<le> length s"
  by (induction env s w rule: skip_digits.induct) (auto simp: Check_bind_Inr le_SucI split: if_splits)

lemma number_part_length:
  "integer_part env s w = (Inr (x, s'), w') \<Longrightarrow> length s' \<le> length s"
  "fraction_part env s w = (Inr (x, s'), w') \<Longrightarrow> length s' \<le> length s"
  "exponent_part env s w = (Inr (x, s'), w') \<Longrightarrow> length s' \<le> length s"
  by (auto simp: integer_part_def fraction_part_def exponent_part_def Let_def split: if_splits
      dest!: skip_digits_length)

lemma SkipNumber_length: "SkipNumber env s w = (Inr (x, s'), w') \<Longrightarrow> length s' < length s"
  by (auto simp: SkipNumber_def bindr_Inr split: if_splits dest!: number_part_length)

lemma Literal_length: "Literal env cs s w = (Inr (x, s'), w') \<Longrightarrow> s = cs @ s'"
  by (induction cs arbitrary: s w) (auto simp: bindr_Inr dest: Expect_length)

declare Literal.simps [simp del]

lemma ArraySeparator_length: "ArraySeparator env s w = (Inr (x, s'), w') \<Longrightarrow> length s' \<le> length s"
  by (auto simp: ArraySeparator_def bindr_Inr split: if_splits dest!: SkipWhitespace_length)

lemma ObjectSeparator_length: "ObjectSeparator env s w = (Inr (x, s'), w') \<Longrightarrow> length s' \<le> length s"
  by (auto simp: ObjectSeparator_def bindr_Inr split: if_splits dest!: SkipWhitespace_length)

lemma RequireObjectKey_rest: "RequireObjectKey s w = (Inr (x, s'), w') \<Longrightarrow> s' = s"
  by (auto simp: RequireObjectKey_def split: if_splits)

lemmas token_length = Expect_length SkipString_length SkipNumber_length Literal_length SkipWhitespace_length
  ArraySeparator_length ObjectSeparator_length RequireObjectKey_rest

lemma skip_value_shrinks:
  "SkipValue_array_loop_object_loop_dom (Inl (env, depth, s, w)) \<Longrightarrow>
     SkipValue env depth s w = (Inr (x, s'), w') \<Longrightarrow> length s' < length s"
  "SkipValue_array_loop_object_loop_dom (Inr (Inl (env, depth, s, w))) \<Longrightarrow>
     array_loop env depth s w = (Inr (x, s'), w') \<Longrightarrow> length s' < length s"
  "SkipValue_array_loop_object_loop_dom (Inr (Inr (env, depth, s, w))) \<Longrightarrow>
     object_loop env depth s w = (Inr (x, s'), w') \<Longrightarrow> length s' < length s"
proof (induction env depth s w and env depth s w and env depth s w arbitrary: x s' w' and x s' w' and x s' w'
    rule: SkipValue_array_loop_object_loop.pinduct)
  case (1 env depth s w)
  from "1.prems" obtain s1 w1 where ws: "SkipWhitespace env s w = (Inr ((), s1), w1)"
    by (auto simp: SkipValue.psimps [OF "1.hyps"] bindr_Inr)
  have le: "length s1 \<le> length s" by (rule SkipWhitespace_length [OF ws])
  note IH = "1.IH" [OF ws]
  consider "Peek s1 = CHR ''[''" | "Peek s1 = CHR ''{''" | "Peek s1 \<noteq> CHR ''[''" "Peek s1 \<noteq> CHR ''{''" by blast
  then show ?case
  proof cases
    case 1
    with "1.prems" ws obtain s2 w2 s3 w3 where b: "Expect env CHR ''['' s1 w1 = (Inr ((), s2), w2)"
      "SkipWhitespace env s2 w2 = (Inr ((), s3), w3)" "array_loop env depth s3 w3 = (Inr ((), s'), w')"
      "\<not> max_json_nesting env < depth"
      by (auto simp: SkipValue.psimps [OF "1.hyps"] bindr_Inr IsAsciiDigit_def in_range_def byte_def split: if_splits)
    have "length s' < length s3" using IH(1) [OF _ _ _ _ _ _ _ b(1,2) b(3)] b(4) 1
      by (simp add: IsAsciiDigit_def in_range_def byte_def)
    with le Expect_length [OF b(1)] SkipWhitespace_length [OF b(2)] show ?thesis by simp
  next
    case 2
    with "1.prems" ws obtain s2 w2 s3 w3 where b: "Expect env CHR ''{'' s1 w1 = (Inr ((), s2), w2)"
      "SkipWhitespace env s2 w2 = (Inr ((), s3), w3)" "object_loop env depth s3 w3 = (Inr ((), s'), w')"
      "\<not> max_json_nesting env < depth"
      by (auto simp: SkipValue.psimps [OF "1.hyps"] bindr_Inr IsAsciiDigit_def in_range_def byte_def split: if_splits)
    have "length s' < length s3" using IH(2) [OF _ _ _ _ _ _ _ _ b(1,2) b(3)] b(4) 2
      by (simp add: IsAsciiDigit_def in_range_def byte_def)
    with le Expect_length [OF b(1)] SkipWhitespace_length [OF b(2)] show ?thesis by simp
  next
    case 3
    with "1.prems" ws le show ?thesis
      by (auto simp: SkipValue.psimps [OF "1.hyps"] split: if_splits
          dest!: SkipString_length SkipNumber_length Literal_length)
  qed
next
  case (2 env depth s w)
  show ?case
  proof (cases "Peek s = CHR '']''")
    case True
    with "2.prems" show ?thesis by (auto simp: array_loop.psimps [OF "2.hyps"] dest: Expect_length)
  next
    case False
    with "2.prems" obtain s1 w1 s2 w2 where b: "SkipValue env (depth + 1) s w = (Inr ((), s1), w1)"
      "ArraySeparator env s1 w1 = (Inr ((), s2), w2)" "array_loop env depth s2 w2 = (Inr ((), s'), w')"
      by (auto simp: array_loop.psimps [OF "2.hyps"] bindr_Inr)
    from "2.IH"(1) [OF False b(1)] "2.IH"(2) [OF False b(1,2,3)] ArraySeparator_length [OF b(2)]
    show ?thesis by simp
  qed
next
  case (3 env depth s w)
  show ?case
  proof (cases "Peek s = CHR ''}''")
    case True
    with "3.prems" show ?thesis by (auto simp: object_loop.psimps [OF "3.hyps"] dest: Expect_length)
  next
    case False
    with "3.prems" obtain s1 w1 s2 w2 s3 w3 s4 w4 s5 w5 s6 w6 where b: "RequireObjectKey s w = (Inr ((), s1), w1)"
      "SkipString env s1 w1 = (Inr ((), s2), w2)" "SkipWhitespace env s2 w2 = (Inr ((), s3), w3)"
      "Expect env CHR '':'' s3 w3 = (Inr ((), s4), w4)" "SkipValue env (depth + 1) s4 w4 = (Inr ((), s5), w5)"
      "ObjectSeparator env s5 w5 = (Inr ((), s6), w6)" "object_loop env depth s6 w6 = (Inr ((), s'), w')"
      by (auto simp: object_loop.psimps [OF "3.hyps"] bindr_Inr)
    from "3.IH"(1) [OF False b(1,2,3,4,5)] "3.IH"(2) [OF False b] b(1-4,6)
    show ?thesis by (auto dest!: token_length)
  qed
qed

termination SkipValue
proof (relation "measure (\<lambda>x. case x of Inl (env, d, s, w) \<Rightarrow> 2 * length s | Inr (Inl (env, d, s, w)) \<Rightarrow> Suc (2 * length s)
    | Inr (Inr (env, d, s, w)) \<Rightarrow> Suc (2 * length s))", goal_cases)
qed (auto dest!: token_length skip_value_shrinks)

declare SkipValue.simps [simp del] array_loop.simps [simp del] object_loop.simps [simp del]

definition ValidateDocument :: "reader_environment \<Rightarrow> unit reading" where
  "ValidateDocument env s w =
     bindr (SkipWhitespace env s w) (\<lambda>_ s w.
       bindr (SkipValue env 0 s w) (\<lambda>_ s w.
         bindr (SkipWhitespace env s w) (\<lambda>_ s w.
           if s \<noteq> [] then Malformed s w else returning () s w)))"

end
