(* ===== verification/Json_Utf8.thy ===== *)
theory Json_Utf8
  imports Json_Reader
begin

section \<open>The Unicode characters of JSON strings\<close>

text \<open>
  The bit operations of the reader (\<open>src/runtime/decoding/strict_json_reader.cpp\<close>) against the definition of UTF-8: \<open>utf8_encode\<close> is the
  encoding of RFC 3629 by division and remainder, and \<open>scalar_value\<close> the admitted code points. \<open>SkipUtf8\<close> accepts exactly the encodings of
  scalar values, and \<open>code_point_bytes\<close> produces them. A reading \<open>yields\<close> a value when it returns it in every world; an
  environment is \<open>calm\<close> when it never interrupts and its observer never refuses.
\<close>

unbundle bit_operations_syntax

lemma unat_octet: "unat (octet c) = byte c"
  using byte_less_256 [of c] by (simp add: octet_def unat_of_nat)

lemma unat_low_bits: "unat (take_bit n v :: uint32) = unat v mod 2 ^ n"
  by (simp only: unsigned_take_bit_eq) (simp add: take_bit_eq_mod)

lemma unat_drop: "unat (drop_bit n v :: uint32) = unat v div 2 ^ n"
  by (simp only: unat_drop_bit_eq) (simp add: drop_bit_eq_div)

lemma unat_shift: "unat (v :: uint32) * 2 ^ n < 2 ^ 32 \<Longrightarrow> unat (push_bit n v) = unat v * 2 ^ n"
  by (simp only: unsigned_push_bit_eq) (simp add: push_bit_eq_mult take_bit_eq_mod)

lemma unat_high_bits:
  assumes "unat (v :: uint32) < 2 ^ (m + n)" and "m + n \<le> 32"
  shows "unat (v AND mask (m + n) AND NOT (mask n)) = unat v div 2 ^ n * 2 ^ n"
proof -
  have "unat v div 2 ^ n < 2 ^ m" using assms(1) by (simp add: less_mult_imp_div_less power_add)
  then have d: "unat (take_bit m (drop_bit n v)) = unat v div 2 ^ n" by (simp add: unat_low_bits unat_drop)
  have "unat v div 2 ^ n * 2 ^ n \<le> unat v" by simp
  also have "\<dots> < 2 ^ 32" using unsigned_less [of v] by simp
  finally show ?thesis by (simp add: slice_eq_mask [symmetric] unat_shift d)
qed

lemma or_low_bits:
  assumes "unat (v :: uint32) * 2 ^ n + unat w < 2 ^ 32" and "unat w < 2 ^ n"
  shows "unat (push_bit n v OR w) = unat v * 2 ^ n + unat w"
proof -
  have w: "take_bit n w = w" using assms(2) by (simp add: word_unat_eq_iff unat_low_bits)
  have "push_bit n v AND take_bit n w = 0" by (auto simp: bit_eq_iff bit_simps)
  then have "push_bit n v OR w = push_bit n v + w" unfolding w by (rule disjunctive_add_eq_or [symmetric])
  moreover have "unat (push_bit n v) = unat v * 2 ^ n" using assms(1) by (intro unat_shift) simp
  ultimately show ?thesis using assms(1) by (simp add: unat_add_lem [THEN iffD1])
qed


subsection \<open>Bits and bytes\<close>

lemma mask_consts: "(0xc0 :: uint32) = mask (2 + 6) AND NOT (mask 6)" "(0xe0 :: uint32) = mask (3 + 5) AND NOT (mask 5)"
  "(0xf0 :: uint32) = mask (4 + 4) AND NOT (mask 4)" "(0xf8 :: uint32) = mask (5 + 3) AND NOT (mask 3)"
  by (simp_all add: mask_eq_exp_minus_1)

lemma octet_high_bits:
  "unat (octet c AND 0xc0) = byte c div 64 * 64" "unat (octet c AND 0xe0) = byte c div 32 * 32"
  "unat (octet c AND 0xf0) = byte c div 16 * 16" "unat (octet c AND 0xf8) = byte c div 8 * 8"
  unfolding mask_consts
  by (subst unat_high_bits; use byte_less_256 [of c] in \<open>simp add: unat_octet\<close>)+


lemma low_mask_consts: "(0x3f :: uint32) = mask 6" "(0x1f :: uint32) = mask 5" "(0x0f :: uint32) = mask 4" "(0x07 :: uint32) = mask 3"
  by (simp_all add: mask_eq_exp_minus_1)

lemma octet_low_bits:
  "unat (v AND 0x3f :: uint32) = unat v mod 64" "unat (octet c AND 0x1f) = byte c mod 32"
  "unat (octet c AND 0x0f) = byte c mod 16" "unat (octet c AND 0x07) = byte c mod 8"
  unfolding low_mask_consts take_bit_eq_mask [symmetric] unat_low_bits by (simp_all add: unat_octet)

lemma or_lead:
  "unat v < 64 \<Longrightarrow> unat (0xc0 OR v :: uint32) = 0xc0 + unat v" "unat v < 64 \<Longrightarrow> unat (0x80 OR v :: uint32) = 0x80 + unat v"
  "unat v < 16 \<Longrightarrow> unat (0xe0 OR v :: uint32) = 0xe0 + unat v" "unat v < 8 \<Longrightarrow> unat (0xf0 OR v :: uint32) = 0xf0 + unat v"
  using or_low_bits [of 3 6 v] or_low_bits [of 2 6 v] or_low_bits [of 14 4 v] or_low_bits [of 30 3 v]
  by (simp_all add: push_bit_eq_mult)

definition scalar_value :: "nat \<Rightarrow> bool" where
  "scalar_value n \<longleftrightarrow> n < 0xd800 \<or> 0xe000 \<le> n \<and> n \<le> 0x10ffff"

definition utf8_encode :: "nat \<Rightarrow> string" where
  "utf8_encode n =
     (if n < 0x80 then [char_of n]
      else if n < 0x800 then [char_of (0xc0 + n div 64), char_of (0x80 + n mod 64)]
      else if n < 0x10000 then
        [char_of (0xe0 + n div 4096), char_of (0x80 + n div 64 mod 64), char_of (0x80 + n mod 64)]
      else
        [char_of (0xf0 + n div 262144), char_of (0x80 + n div 4096 mod 64), char_of (0x80 + n div 64 mod 64),
         char_of (0x80 + n mod 64)])"

lemma code_point_bytes_utf8: "unat v \<le> 0x10ffff \<Longrightarrow> code_point_bytes v = utf8_encode (unat v)"
  by (auto simp: code_point_bytes_def utf8_encode_def to_char_def word_le_nat_alt or_lead octet_low_bits unat_drop)

definition is_continuation :: "char \<Rightarrow> bool" where
  "is_continuation c \<longleftrightarrow> octet c AND 0xc0 = 0x80"

definition continuation_step :: "uint32 \<Rightarrow> char \<Rightarrow> uint32" where
  "continuation_step v c = push_bit 6 v OR (octet c AND 0x3f)"

lemma is_continuation_byte: "is_continuation c \<longleftrightarrow> byte c div 64 = 2"
  by (simp add: is_continuation_def word_unat_eq_iff octet_high_bits)

lemma continuation_step_value: "unat v < 2 ^ 25 \<Longrightarrow> unat (continuation_step v c) = unat v * 64 + byte c mod 64"
  using or_low_bits [of v 6 "octet c AND 0x3f"] mod_less_divisor [of 64 "byte c"]
  by (simp add: continuation_step_def octet_low_bits unat_octet)

lemma quotient_parts: "0 < d \<Longrightarrow> (x :: nat) div d = q \<Longrightarrow> x = q * d + x mod d \<and> q * d \<le> x \<and> x < q * d + d"
proof -
  assume "0 < d" and q: "x div d = q"
  then have "q * d + x mod d = x" "x mod d < d" using div_mult_mod_eq [of x d] by simp_all
  then show ?thesis by linarith
qed

lemma lead_parts:
  "(x :: nat) div 64 = 2 \<Longrightarrow> x = 128 + x mod 64" "(x :: nat) div 32 = 6 \<Longrightarrow> x = 192 + x mod 32"
  "(x :: nat) div 16 = 14 \<Longrightarrow> x = 224 + x mod 16" "(x :: nat) div 8 = 30 \<Longrightarrow> x = 240 + x mod 8"
  by (drule quotient_parts [rotated]; simp)+

lemma lead_exclusive:
  "(x :: nat) div 32 = 6 \<Longrightarrow> x div 16 \<noteq> 14" "(x :: nat) div 32 = 6 \<Longrightarrow> x div 8 \<noteq> 30" "(x :: nat) div 16 = 14 \<Longrightarrow> x div 8 \<noteq> 30"
  using quotient_parts [of 32 x 6] quotient_parts [of 16 x 14] quotient_parts [of 8 x 30] by fastforce+

lemma utf8_lead_cases:
  "utf8_lead c = Some (count, v, m) \<longleftrightarrow>
     byte c div 32 = 6 \<and> count = 1 \<and> unat v = byte c mod 32 \<and> m = 0x80 \<or>
     byte c div 16 = 14 \<and> count = 2 \<and> unat v = byte c mod 16 \<and> m = 0x800 \<or>
     byte c div 8 = 30 \<and> count = 3 \<and> unat v = byte c mod 8 \<and> m = 0x10000"
proof -
  have e: "octet c AND 0xe0 = 0xc0 \<longleftrightarrow> byte c div 32 = 6" "octet c AND 0xf0 = 0xe0 \<longleftrightarrow> byte c div 16 = 14"
    "octet c AND 0xf8 = 0xf0 \<longleftrightarrow> byte c div 8 = 30"
    by (simp_all add: word_unat_eq_iff octet_high_bits)
  have v: "octet c AND 0x1f = v \<longleftrightarrow> unat v = byte c mod 32" "octet c AND 0x0f = v \<longleftrightarrow> unat v = byte c mod 16"
    "octet c AND 0x07 = v \<longleftrightarrow> unat v = byte c mod 8"
    by (auto simp: word_unat_eq_iff octet_low_bits)
  have lead: "utf8_lead c = (if byte c div 32 = 6 then Some (1, octet c AND 0x1f, 0x80)
    else if byte c div 16 = 14 then Some (2, octet c AND 0x0f, 0x800)
    else if byte c div 8 = 30 then Some (3, octet c AND 0x07, 0x10000) else None)"
    unfolding utf8_lead_def Let_def e ..
  consider "byte c div 32 = 6" | "byte c div 16 = 14" | "byte c div 8 = 30"
    | "byte c div 32 \<noteq> 6" "byte c div 16 \<noteq> 14" "byte c div 8 \<noteq> 30" by blast
  then show ?thesis
    by cases (use lead_exclusive [of "byte c"] in \<open>auto simp: lead v\<close>)
qed

definition calm :: "reader_environment \<Rightarrow> bool" where
  "calm env \<longleftrightarrow>
     (\<forall>t. \<not> cancellation_requested env t \<and> \<not> deadline_passed env t) \<and> (\<forall>log. observer_outcome env log = None)"

lemma calm_Check: "calm env \<Longrightarrow> Check env s w = (Inr ((), s), w\<lparr>checks := Suc (checks w)\<rparr>)"
  by (simp add: Check_def calm_def)

definition yields :: "'a reading \<Rightarrow> string \<Rightarrow> 'a \<Rightarrow> string \<Rightarrow> bool" where
  "yields m s x s' \<longleftrightarrow> (\<forall>w. fst (m s w) = Inr (x, s'))"

lemma yieldsD: "yields m s x s' \<Longrightarrow> \<exists>w'. m s w = (Inr (x, s'), w')"
  by (metis eq_fst_iff yields_def)

lemma yields_bind:
  assumes "yields m s x s1" and "yields (f x) s1 y s2"
  shows "yields (\<lambda>s w. bindr (m s w) f) s y s2"
  unfolding yields_def
proof
  fix w
  obtain w1 where "m s w = (Inr (x, s1), w1)" using yieldsD [OF assms(1)] by blast
  then show "fst (bindr (m s w) f) = Inr (y, s2)" using assms(2) by (simp add: yields_def)
qed

lemma yields_check: "calm env \<Longrightarrow> yields (Check env) s () s"
  by (simp add: yields_def calm_Check)

lemma yields_returning: "yields (returning x) s x s"
  by (simp add: yields_def)

lemma continuation_sound:
  "continuation_loop env n v s w = (Inr (v', s'), w') \<Longrightarrow>
   \<exists>bs. length bs = n \<and> list_all is_continuation bs \<and> s = bs @ s' \<and> v' = foldl continuation_step v bs"
proof (induction n arbitrary: v s w)
  case (Suc n)
  from Suc.prems obtain c s1 w1 where s: "s = c # s1" "is_continuation c"
    and "continuation_loop env n (continuation_step v c) s1 w1 = (Inr (v', s'), w')"
    by (cases s) (auto simp: Check_bind_Inr is_continuation_def continuation_step_def split: if_splits)
  then obtain bs where "length bs = n" "list_all is_continuation bs" "s1 = bs @ s'"
      "v' = foldl continuation_step (continuation_step v c) bs"
    using Suc.IH by blast
  with s show ?case by (intro exI [of _ "c # bs"]) simp
qed simp

lemma continuation_complete:
  "calm env \<Longrightarrow> list_all is_continuation bs \<Longrightarrow>
   yields (continuation_loop env (length bs) v) (bs @ s') (foldl continuation_step v bs) s'"
  by (induction bs arbitrary: v)
    (simp_all add: yields_def calm_Check is_continuation_def continuation_step_def)

lemma utf8_two: "128 \<le> n \<Longrightarrow> n < 2048 \<Longrightarrow> utf8_encode n = [char_of (192 + n div 64), char_of (128 + n mod 64)]"
  by (simp add: utf8_encode_def)

lemma utf8_three: "2048 \<le> n \<Longrightarrow> n < 65536 \<Longrightarrow>
    utf8_encode n = [char_of (224 + n div 4096), char_of (128 + n div 64 mod 64), char_of (128 + n mod 64)]"
  by (simp add: utf8_encode_def)

lemma utf8_four: "65536 \<le> n \<Longrightarrow> n \<le> 1114111 \<Longrightarrow> utf8_encode n =
    [char_of (240 + n div 262144), char_of (128 + n div 4096 mod 64), char_of (128 + n div 64 mod 64), char_of (128 + n mod 64)]"
  by (simp add: utf8_encode_def)

lemma char_of_byte: "byte c = n \<Longrightarrow> char_of n = c"
  by (auto simp: byte_def)

lemma list_lengths:
  "length bs = Suc 0 \<longleftrightarrow> (\<exists>a. bs = [a])" "length bs = 2 \<longleftrightarrow> (\<exists>a b. bs = [a, b])" "length bs = 3 \<longleftrightarrow> (\<exists>a b c. bs = [a, b, c])"
  by (auto simp: length_Suc_conv numeral_2_eq_2 numeral_3_eq_3)

lemma decode_two:
  assumes "byte c = 192 + i" "i < 32" and "byte a = 128 + j" "j < 64" and "128 \<le> i * 64 + j"
  shows "utf8_encode (i * 64 + j) = [c, a]"
  using assms by (subst utf8_two) (auto intro!: char_of_byte)

lemma decode_three:
  assumes "byte c = 224 + i" "i < 16" and "byte a = 128 + j" "j < 64" and "byte b = 128 + k" "k < 64"
    and "2048 \<le> (i * 64 + j) * 64 + k"
  shows "utf8_encode ((i * 64 + j) * 64 + k) = [c, a, b]"
proof -
  define p where "p = i * 64 + j"
  have "p div 64 = i" "p mod 64 = j" "p < 1024" using assms(2,4) by (simp_all add: p_def)
  then have "(p * 64 + k) div 4096 = i" "(p * 64 + k) div 64 mod 64 = j" "(p * 64 + k) mod 64 = k" "p * 64 + k < 65536"
    using assms(6) div_mult2_eq [of "p * 64 + k" 64 64] by simp_all
  with assms show ?thesis unfolding p_def [symmetric] by (subst utf8_three) (auto intro!: char_of_byte)
qed

lemma decode_four:
  assumes "byte c = 240 + i" "i < 8" and "byte a = 128 + j" "j < 64" and "byte b = 128 + k" "k < 64"
    and "byte d = 128 + l" "l < 64"
    and "65536 \<le> ((i * 64 + j) * 64 + k) * 64 + l" and "((i * 64 + j) * 64 + k) * 64 + l \<le> 1114111"
  shows "utf8_encode (((i * 64 + j) * 64 + k) * 64 + l) = [c, a, b, d]"
proof -
  define p where "p = i * 64 + j"
  define q where "q = p * 64 + k"
  have p: "p div 64 = i" "p mod 64 = j" using assms(4) by (simp_all add: p_def)
  have q: "q div 64 = p" "q mod 64 = k" using assms(6) by (simp_all add: q_def)
  have "(q * 64 + l) div 64 = q" "(q * 64 + l) mod 64 = l" using assms(8) by simp_all
  moreover from this have "(q * 64 + l) div 4096 = p" using q div_mult2_eq [of "q * 64 + l" 64 64] by simp
  moreover from this have "(q * 64 + l) div 262144 = i" using p div_mult2_eq [of "q * 64 + l" 4096 64] by simp
  ultimately show ?thesis using assms p q unfolding p_def [symmetric] q_def [symmetric]
    by (subst utf8_four) (auto intro!: char_of_byte)
qed

lemma SkipUtf8_sound:
  assumes "SkipUtf8 env c s w = (Inr (x, s'), w')"
  shows "\<exists>n. scalar_value n \<and> c # s = utf8_encode n @ s'"
proof (cases "octet c < 0x80")
  case True
  with assms have "s' = s" "byte c < 128" by (simp_all add: SkipUtf8_def word_less_nat_alt unat_octet)
  then show ?thesis by (intro exI [of _ "byte c"]) (simp add: utf8_encode_def scalar_value_def byte_def)
next
  case False
  with assms obtain count v m v' where lead: "utf8_lead c = Some (count, v, m)"
    and loop: "continuation_loop env count v s w = (Inr (v', s'), w')" and ok: "\<not> utf8_refused v' m"
    by (auto simp: SkipUtf8_def bindr_Inr split: option.splits if_splits)
  from continuation_sound [OF loop] obtain bs where bs: "length bs = count" "list_all is_continuation bs" "s = bs @ s'"
    "v' = foldl continuation_step v bs" by blast
  have r: "unat m \<le> unat v'" "unat v' \<le> 0x10ffff" "scalar_value (unat v')"
    using ok by (auto simp: utf8_refused_def word_less_nat_alt word_le_nat_alt scalar_value_def)
  have "utf8_encode (unat v') = c # bs"
    using lead unfolding utf8_lead_cases
  proof (elim disjE conjE)
    assume h: "byte c div 32 = 6" "count = 1" "unat v = byte c mod 32" "m = 0x80"
    with bs obtain a where a: "bs = [a]" "byte a div 64 = 2" "v' = continuation_step v a"
      by (auto simp: list_lengths is_continuation_byte)
    have "unat v' = byte c mod 32 * 64 + byte a mod 64" unfolding a(3) by (subst continuation_step_value) (simp_all add: h)
    with decode_two [OF lead_parts(2) [OF h(1)] _ lead_parts(1) [OF a(2)]] r a h show ?thesis by simp
  next
    assume h: "byte c div 16 = 14" "count = 2" "unat v = byte c mod 16" "m = 0x800"
    with bs obtain a b where a: "bs = [a, b]" "byte a div 64 = 2" "byte b div 64 = 2"
        "v' = continuation_step (continuation_step v a) b"
      by (auto simp: list_lengths is_continuation_byte)
    have "unat v' = (byte c mod 16 * 64 + byte a mod 64) * 64 + byte b mod 64"
      unfolding a(4) by (simp add: continuation_step_value h)
    with decode_three [OF lead_parts(3) [OF h(1)] _ lead_parts(1) [OF a(2)] _ lead_parts(1) [OF a(3)]] r a h
    show ?thesis by simp
  next
    assume h: "byte c div 8 = 30" "count = 3" "unat v = byte c mod 8" "m = 0x10000"
    with bs obtain a b d where a: "bs = [a, b, d]" "byte a div 64 = 2" "byte b div 64 = 2" "byte d div 64 = 2"
        "v' = continuation_step (continuation_step (continuation_step v a) b) d"
      by (auto simp: list_lengths is_continuation_byte)
    have "unat v' = ((byte c mod 8 * 64 + byte a mod 64) * 64 + byte b mod 64) * 64 + byte d mod 64"
      unfolding a(5) by (simp add: continuation_step_value h)
    with decode_four [OF lead_parts(4) [OF h(1)] _ lead_parts(1) [OF a(2)] _ lead_parts(1) [OF a(3)] _ lead_parts(1) [OF a(4)]] r a h
    show ?thesis by simp
  qed
  with r(3) bs(3) show ?thesis by (intro exI [of _ "unat v'"]) simp
qed

lemma SkipUtf8_yields:
  assumes "calm env" and "utf8_lead c = Some (length bs, v, m)" and "list_all is_continuation bs"
    and "unat (foldl continuation_step v bs) = n" and "scalar_value n" and "unat m \<le> n" and "128 \<le> byte c"
  shows "yields (SkipUtf8 env c) (bs @ s') () s'"
proof -
  have "\<not> utf8_refused (foldl continuation_step v bs) m" using assms(4-6)
    by (auto simp: utf8_refused_def word_less_nat_alt word_le_nat_alt scalar_value_def)
  moreover have "\<not> octet c < 0x80" using assms(7) by (simp add: word_less_nat_alt unat_octet)
  moreover have "\<exists>w'. continuation_loop env (length bs) v (bs @ s') w = (Inr (foldl continuation_step v bs, s'), w')" for w
    by (rule yieldsD [OF continuation_complete [OF assms(1,3)]])
  ultimately show ?thesis unfolding yields_def
  proof (intro allI)
    fix w
    assume nr: "\<not> utf8_refused (foldl continuation_step v bs) m" "\<not> octet c < 0x80"
      and "\<And>w. \<exists>w'. continuation_loop env (length bs) v (bs @ s') w = (Inr (foldl continuation_step v bs, s'), w')"
    then obtain w' where "continuation_loop env (length bs) v (bs @ s') w = (Inr (foldl continuation_step v bs, s'), w')"
      by blast
    with nr assms(2) show "fst (SkipUtf8 env c (bs @ s') w) = Inr ((), s')" by (simp add: SkipUtf8_def)
  qed
qed

lemma byte_char_of: "n < 256 \<Longrightarrow> byte (char_of n) = n"
  by (simp add: byte_def)

lemma block: "(i :: nat) < d \<Longrightarrow> (q * d + i) div d = q \<and> (q * d + i) mod d = i"
  by simp

lemma continuation_char: "(i :: nat) < 64 \<Longrightarrow> is_continuation (char_of (128 + i))"
  using block [of i 64 2] by (simp add: is_continuation_byte byte_char_of)

lemma continuation_char_step:
  "(i :: nat) < 64 \<Longrightarrow> unat v < 2 ^ 25 \<Longrightarrow> unat (continuation_step v (char_of (128 + i))) = unat v * 64 + i"
  using block [of i 64 2] by (simp add: continuation_step_value byte_char_of)

lemma small_word: "k < 4096 \<Longrightarrow> unat (of_nat k :: uint32) = k"
  by (simp add: unat_of_nat)

lemma continuation_chars_step:
  assumes "unat v < 8" and "i < (64 :: nat)" and "j < (64 :: nat)" and "k < (64 :: nat)"
  shows "unat (continuation_step (continuation_step (continuation_step v (char_of (128 + i))) (char_of (128 + j)))
    (char_of (128 + k))) = ((unat v * 64 + i) * 64 + j) * 64 + k"
  using assms by (simp add: continuation_char_step)

lemma utf8_ascii: "n < 128 \<Longrightarrow> utf8_encode n = [char_of n]"
  by (simp add: utf8_encode_def)

lemma utf8_lead_chars:
  "(i :: nat) < 32 \<Longrightarrow> utf8_lead (char_of (192 + i)) = Some (1, of_nat i, 0x80)"
  "(i :: nat) < 16 \<Longrightarrow> utf8_lead (char_of (224 + i)) = Some (2, of_nat i, 0x800)"
  "(i :: nat) < 8 \<Longrightarrow> utf8_lead (char_of (240 + i)) = Some (3, of_nat i, 0x10000)"
  using block [of i 32 6] block [of i 16 14] block [of i 8 30] by (simp_all add: utf8_lead_cases byte_char_of small_word)

lemma SkipUtf8_complete:
  assumes "calm env" and n: "scalar_value n" and enc: "utf8_encode n = c # bs"
  shows "yields (SkipUtf8 env c) (bs @ s') () s'"
proof -
  have top: "n \<le> 1114111" using n by (auto simp: scalar_value_def)
  consider "n < 128" | "128 \<le> n" "n < 2048" | "2048 \<le> n" "n < 65536" | "65536 \<le> n" by linarith
  then show ?thesis
  proof cases
    case 1
    with enc have "c = char_of n" "bs = []" by (simp_all add: utf8_ascii)
    with 1 show ?thesis by (simp add: yields_def SkipUtf8_def word_less_nat_alt unat_octet byte_char_of)
  next
    case 2
    then have c: "c = char_of (192 + n div 64)" "bs = [char_of (128 + n mod 64)]" and i: "n div 64 < 32"
      using enc by (simp_all add: utf8_two)
    show ?thesis
      by (rule SkipUtf8_yields [OF assms(1), where v = "of_nat (n div 64)" and m = "0x80" and n = n])
        (use n 2 i in \<open>simp_all add: c utf8_lead_chars continuation_char continuation_char_step small_word byte_char_of\<close>)
  next
    case 3
    then have c: "c = char_of (224 + n div 4096)" "bs = [char_of (128 + n div 64 mod 64), char_of (128 + n mod 64)]"
      and i: "n div 4096 < 16"
      using enc by (simp_all add: utf8_three)
    have v: "(n div 4096 * 64 + n div 64 mod 64) * 64 + n mod 64 = n"
      using div_mult_mod_eq [of n 64] div_mult_mod_eq [of "n div 64" 64] by (simp add: div_mult2_eq [symmetric])
    show ?thesis
      by (rule SkipUtf8_yields [OF assms(1), where v = "of_nat (n div 4096)" and m = "0x800" and n = n])
        (use n 3 i v in \<open>simp_all add: c utf8_lead_chars continuation_char continuation_char_step small_word byte_char_of\<close>)
  next
    case 4
    then have c: "c = char_of (240 + n div 262144)"
        "bs = [char_of (128 + n div 4096 mod 64), char_of (128 + n div 64 mod 64), char_of (128 + n mod 64)]"
      and i: "n div 262144 < 8"
      using enc top by (simp_all add: utf8_four)
    have v: "((n div 262144 * 64 + n div 4096 mod 64) * 64 + n div 64 mod 64) * 64 + n mod 64 = n"
      using div_mult_mod_eq [of n 64] div_mult_mod_eq [of "n div 64" 64] div_mult_mod_eq [of "n div 4096" 64]
      by (simp add: div_mult2_eq [symmetric])
    show ?thesis
      by (rule SkipUtf8_yields [OF assms(1), where v = "of_nat (n div 262144)" and m = "0x10000" and n = n])
        (use n 4 i v in \<open>simp_all add: c utf8_lead_chars continuation_char continuation_chars_step small_word byte_char_of\<close>)
  qed
qed

end
