(* ===== verification/Json_Strings.thy ===== *)
theory Json_Strings
  imports Json_Utf8
begin

unbundle bit_operations_syntax

section \<open>JSON strings\<close>

text \<open>
  The string readers of \<open>src/runtime/decoding/strict_json_reader.cpp\<close> against the grammar of RFC 8259. A string token is a list of items
  (\<open>string_form\<close>), each with its text and its code point. The three loops of the source read the same items; \<open>ParseString\<close> returns
  their UTF-8 within a budget, \<open>ParseObjectKey\<close> compares them with a fixed buffer and \<open>SkipString\<close> drops them.
\<close>

subsection \<open>The grammar of strings\<close>

definition hex_nat :: "char \<Rightarrow> nat" where
  "hex_nat c =
     (if IsAsciiDigit c then byte c - 48 else if in_range CHR ''a'' CHR ''f'' c then byte c - 87 else byte c - 55)"

definition hex_number :: "string \<Rightarrow> nat" where
  "hex_number = foldl (\<lambda>v c. v * 16 + hex_nat c) 0"

definition is_code_unit :: "string \<Rightarrow> bool" where
  "is_code_unit h \<longleftrightarrow> length h = 4 \<and> list_all IsHexDigit h"

definition escape_values :: "(char \<times> nat) list" where
  "escape_values = [(CHR 0x22, 0x22), (CHR 0x5C, 0x5C), (CHR ''/'', 0x2F), (CHR ''b'', 8), (CHR ''f'', 12), (CHR ''n'', 10),
     (CHR ''r'', 13), (CHR ''t'', 9)]"

datatype string_form = Plain nat | Short char | CodeUnit string | SurrogatePair string string

fun form_ok :: "string_form \<Rightarrow> bool" where
  "form_ok (Plain n) \<longleftrightarrow> scalar_value n \<and> 0x20 \<le> n \<and> n \<noteq> 0x22 \<and> n \<noteq> 0x5C"
| "form_ok (Short c) \<longleftrightarrow> c \<in> fst ` set escape_values"
| "form_ok (CodeUnit h) \<longleftrightarrow> is_code_unit h \<and> (hex_number h < 0xd800 \<or> 0xdfff < hex_number h)"
| "form_ok (SurrogatePair h l) \<longleftrightarrow> is_code_unit h \<and> is_code_unit l \<and> 0xd800 \<le> hex_number h \<and> hex_number h \<le> 0xdbff \<and>
     0xdc00 \<le> hex_number l \<and> hex_number l \<le> 0xdfff"

fun form_text :: "string_form \<Rightarrow> string" where
  "form_text (Plain n) = utf8_encode n"
| "form_text (Short c) = [CHR 0x5C, c]"
| "form_text (CodeUnit h) = CHR 0x5C # CHR ''u'' # h"
| "form_text (SurrogatePair h l) = CHR 0x5C # CHR ''u'' # h @ CHR 0x5C # CHR ''u'' # l"

fun form_value :: "string_form \<Rightarrow> nat" where
  "form_value (Plain n) = n"
| "form_value (Short c) = the (map_of escape_values c)"
| "form_value (CodeUnit h) = hex_number h"
| "form_value (SurrogatePair h l) = 0x10000 + (hex_number h - 0xd800) * 1024 + (hex_number l - 0xdc00)"

definition string_text :: "string_form list \<Rightarrow> string" where
  "string_text fs = CHR 0x22 # concat (map form_text fs) @ [CHR 0x22]"

definition string_value :: "string_form list \<Rightarrow> string" where
  "string_value fs = concat (map (utf8_encode \<circ> form_value) fs)"

lemma hex_digit_iff: "hex_digit c = Some d \<longleftrightarrow> IsHexDigit c \<and> unat d = hex_nat c"
proof -
  have o: "unat (octet c - octet CHR ''0'') = byte c - 48" if "48 \<le> byte c" "byte c \<le> 57"
    using that by (subst unat_sub) (simp_all add: word_le_nat_alt unat_octet byte_def)
  have a: "unat (octet c - octet CHR ''a'' + 10) = byte c - 87" if "97 \<le> byte c" "byte c \<le> 102"
  proof -
    have "unat (octet c - octet CHR ''a'') = byte c - 97"
      using that by (subst unat_sub) (simp_all add: word_le_nat_alt unat_octet byte_def)
    with that show ?thesis by (subst unat_add_lem [THEN iffD1]) simp_all
  qed
  have b: "unat (octet c - octet CHR ''A'' + 10) = byte c - 55" if "65 \<le> byte c" "byte c \<le> 70"
  proof -
    have "unat (octet c - octet CHR ''A'') = byte c - 65"
      using that by (subst unat_sub) (simp_all add: word_le_nat_alt unat_octet byte_def)
    with that show ?thesis by (subst unat_add_lem [THEN iffD1]) simp_all
  qed
  have r: "in_range CHR ''0'' CHR ''9'' c \<longleftrightarrow> 48 \<le> byte c \<and> byte c \<le> 57" "in_range CHR ''a'' CHR ''f'' c \<longleftrightarrow> 97 \<le> byte c \<and> byte c \<le> 102"
    "in_range CHR ''A'' CHR ''F'' c \<longleftrightarrow> 65 \<le> byte c \<and> byte c \<le> 70"
    by (simp_all add: in_range_def byte_def)
  show ?thesis unfolding hex_digit_def IsHexDigit_def hex_nat_def IsAsciiDigit_def r
    using o a b by (auto simp: word_unat_eq_iff)
qed

lemma hex_nat_less: "IsHexDigit c \<Longrightarrow> hex_nat c < 16"
  by (auto simp: IsHexDigit_def hex_nat_def IsAsciiDigit_def in_range_def byte_def)

lemma hex_push: "unat r < 4096 \<Longrightarrow> unat d < 16 \<Longrightarrow> unat (push_bit 4 r + d :: uint32) = unat r * 16 + unat d"
  by (subst unat_add_lem [THEN iffD1]) (simp_all add: unat_shift)

lemma hex_fits:
  assumes "((r :: nat) + 1) * 16 ^ Suc n \<le> 65536" and "d < 16"
  shows "r < 4096 \<and> (r * 16 + d + 1) * 16 ^ n \<le> 65536"
proof -
  have "(r + 1) * 16 * 1 \<le> (r + 1) * 16 * 16 ^ n" by (intro mult_le_mono2) simp
  also have "\<dots> = (r + 1) * 16 ^ Suc n" by (simp add: algebra_simps)
  also note assms(1)
  finally have 1: "r < 4096" by simp
  have "(r * 16 + d + 1) * 16 ^ n \<le> ((r + 1) * 16) * 16 ^ n" using assms(2) by (intro mult_le_mono1) simp
  also have "\<dots> = (r + 1) * 16 ^ Suc n" by (simp add: algebra_simps)
  also note assms(1)
  finally show ?thesis using 1 by blast
qed

lemma hex_loop_sound:
  "hex_loop env n r s w = (Inr (v, s'), w') \<Longrightarrow> (unat r + 1) * 16 ^ n \<le> 65536 \<Longrightarrow>
   \<exists>h. length h = n \<and> list_all IsHexDigit h \<and> s = h @ s' \<and> unat v = foldl (\<lambda>v c. v * 16 + hex_nat c) (unat r) h"
proof (induction n arbitrary: r s w)
  case (Suc n)
  from Suc.prems(1) obtain c s1 d w1 where s: "s = c # s1" "hex_digit c = Some d"
    and l: "hex_loop env n (push_bit 4 r + d) s1 w1 = (Inr (v, s'), w')"
    by (cases s) (auto simp: Check_bind_Inr split: option.splits)
  from s(2) have d: "IsHexDigit c" "unat d = hex_nat c" "hex_nat c < 16" by (simp_all add: hex_digit_iff hex_nat_less)
  have "unat r < 4096" and fits: "(unat r * 16 + hex_nat c + 1) * 16 ^ n \<le> 65536"
    using hex_fits [OF Suc.prems(2) d(3)] by simp_all
  then have u: "unat (push_bit 4 r + d) = unat r * 16 + hex_nat c" using d by (simp add: hex_push)
  from fits obtain h where "length h = n" "list_all IsHexDigit h" "s1 = h @ s'"
    "unat v = foldl (\<lambda>v c. v * 16 + hex_nat c) (unat r * 16 + hex_nat c) h"
    using Suc.IH [OF l] u by auto
  with s d show ?case by (intro exI [of _ "c # h"]) simp
qed simp

lemma hex_loop_complete:
  "calm env \<Longrightarrow> list_all IsHexDigit h \<Longrightarrow> (unat r + 1) * 16 ^ length h \<le> 65536 \<Longrightarrow>
   \<exists>v. unat v = foldl (\<lambda>v c. v * 16 + hex_nat c) (unat r) h \<and> yields (hex_loop env (length h) r) (h @ s') v s'"
proof (induction h arbitrary: r)
  case (Cons c h)
  let ?d = "of_nat (hex_nat c) :: uint32"
  have c: "IsHexDigit c" "hex_nat c < 16" using Cons.prems(2) by (simp_all add: hex_nat_less)
  then have d: "unat ?d = hex_nat c" by (simp add: small_word)
  then have h: "hex_digit c = Some ?d" using c by (simp add: hex_digit_iff)
  from hex_fits [of "unat r" "length h" "hex_nat c"] Cons.prems(3) c(2)
  have f: "unat r < 4096" "(unat r * 16 + hex_nat c + 1) * 16 ^ length h \<le> 65536" by simp_all
  then have u: "unat (push_bit 4 r + ?d) = unat r * 16 + hex_nat c" using hex_push [of r ?d] d c(2) by simp
  from Cons.IH [of "push_bit 4 r + ?d"] Cons.prems f u obtain v where
    "unat v = foldl (\<lambda>v c. v * 16 + hex_nat c) (unat r * 16 + hex_nat c) h"
    "yields (hex_loop env (length h) (push_bit 4 r + ?d)) (h @ s') v s'" by auto
  with h Cons.prems(1) show ?case by (intro exI [of _ v]) (simp add: yields_def calm_Check)
qed (simp add: yields_def)

lemma hex_unit_sound:
  assumes "ParseHexCodeUnit env s w = (Inr (v, s'), w')"
  shows "\<exists>h. is_code_unit h \<and> s = h @ s' \<and> unat v = hex_number h"
  using hex_loop_sound [of env 4 0 s w v s' w'] assms
  by (auto simp: ParseHexCodeUnit_def is_code_unit_def hex_number_def)

lemma hex_unit_complete:
  "calm env \<Longrightarrow> is_code_unit h \<Longrightarrow> \<exists>v. unat v = hex_number h \<and> yields (ParseHexCodeUnit env) (h @ s') v s'"
  using hex_loop_complete [of env h 0 s'] by (simp add: ParseHexCodeUnit_def is_code_unit_def hex_number_def)

lemma pair_value:
  assumes "0xd800 \<le> unat v" "unat v \<le> 0xdbff" "0xdc00 \<le> unat l" "unat l \<le> 0xdfff"
  shows "unat (0x10000 + push_bit 10 (v - 0xd800) + (l - 0xdc00) :: uint32) = 0x10000 + (unat v - 0xd800) * 1024 + (unat l - 0xdc00)"
proof -
  have a: "unat (v - 0xd800) = unat v - 0xd800" "unat (l - 0xdc00) = unat l - 0xdc00"
    using assms by (subst unat_sub; simp add: word_le_nat_alt)+
  have "unat (push_bit 10 (v - 0xd800)) = (unat v - 0xd800) * 1024"
    using assms a by (subst unat_shift) simp_all
  moreover have "unat (0x10000 + push_bit 10 (v - 0xd800)) = 0x10000 + (unat v - 0xd800) * 1024"
    using assms calculation by (subst unat_add_lem [THEN iffD1]) simp_all
  ultimately show ?thesis using assms a by (subst unat_add_lem [THEN iffD1]) simp_all
qed

lemma escaped_unicode_sound:
  assumes "ParseEscapedUnicode env s w = (Inr (v, s'), w')"
  shows "\<exists>f. form_ok f \<and> CHR 0x5C # CHR ''u'' # s = form_text f @ s' \<and> unat v = form_value f"
proof -
  from assms obtain u s1 w1 where u: "ParseHexCodeUnit env s w = (Inr (u, s1), w1)" by (auto simp: ParseEscapedUnicode_def bindr_Inr)
  from hex_unit_sound [OF this] obtain h where h: "is_code_unit h" "s = h @ s1" "unat u = hex_number h" by blast
  show ?thesis
  proof (cases "0xd800 \<le> u \<and> u \<le> 0xdbff")
    case True
    with assms u obtain s2 l w2 where s1: "s1 = CHR 0x5C # CHR ''u'' # s2"
      and l: "ParseHexCodeUnit env s2 w1 = (Inr (l, s'), w2)" "\<not> (l < 0xdc00 \<or> l > 0xdfff)"
      and v: "v = 0x10000 + push_bit 10 (u - 0xd800) + (l - 0xdc00)"
      by (auto simp: ParseEscapedUnicode_def bindr_Inr split: list.splits if_splits)
    from hex_unit_sound [OF l(1)] obtain g where g: "is_code_unit g" "s2 = g @ s'" "unat l = hex_number g" by blast
    with h s1 l(2) True pair_value [of u l] v show ?thesis
      by (intro exI [of _ "SurrogatePair h g"]) (simp add: word_le_nat_alt word_less_nat_alt)
  next
    case False
    with assms u have "v = u" "s' = s1" "\<not> (0xdc00 \<le> u \<and> u \<le> 0xdfff)"
      by (auto simp: ParseEscapedUnicode_def split: if_splits)
    with h False show ?thesis
      by (intro exI [of _ "CodeUnit h"]) (auto simp: word_le_nat_alt)
  qed
qed

lemma escaped_unit_complete:
  assumes "calm env" and "form_ok (CodeUnit h)"
  shows "\<exists>v. unat v = hex_number h \<and> yields (ParseEscapedUnicode env) (h @ s') v s'"
proof -
  obtain v where v: "unat v = hex_number h" "yields (ParseHexCodeUnit env) (h @ s') v s'"
    using hex_unit_complete [OF assms(1)] assms(2) by auto
  have "yields (ParseEscapedUnicode env) (h @ s') v s'"
    unfolding yields_def
  proof
    fix w
    obtain w1 where "ParseHexCodeUnit env (h @ s') w = (Inr (v, s'), w1)" using yieldsD [OF v(2)] by blast
    with assms(2) v(1) show "fst (ParseEscapedUnicode env (h @ s') w) = Inr (v, s')"
      by (auto simp: ParseEscapedUnicode_def word_le_nat_alt)
  qed
  with v(1) show ?thesis by blast
qed

lemma escaped_pair_complete:
  assumes "calm env" and "form_ok (SurrogatePair h l)"
  shows "\<exists>v. unat v = form_value (SurrogatePair h l) \<and>
    yields (ParseEscapedUnicode env) (h @ CHR 0x5C # CHR ''u'' # l @ s') v s'"
proof -
  let ?s1 = "CHR 0x5C # CHR ''u'' # l @ s'"
  obtain u where u: "unat u = hex_number h" "yields (ParseHexCodeUnit env) (h @ ?s1) u ?s1"
    using hex_unit_complete [OF assms(1)] assms(2) by fastforce
  obtain v where v: "unat v = hex_number l" "yields (ParseHexCodeUnit env) (l @ s') v s'"
    using hex_unit_complete [OF assms(1)] assms(2) by fastforce
  let ?r = "0x10000 + push_bit 10 (u - 0xd800) + (v - 0xdc00)"
  have "yields (ParseEscapedUnicode env) (h @ ?s1) ?r s'"
    unfolding yields_def
  proof
    fix w
    obtain w1 where 1: "ParseHexCodeUnit env (h @ ?s1) w = (Inr (u, ?s1), w1)" using yieldsD [OF u(2)] by blast
    obtain w2 where 2: "ParseHexCodeUnit env (l @ s') w1 = (Inr (v, s'), w2)" using yieldsD [OF v(2)] by blast
    from 1 2 assms(2) u(1) v(1) show "fst (ParseEscapedUnicode env (h @ ?s1) w) = Inr (?r, s')"
      by (simp add: ParseEscapedUnicode_def word_le_nat_alt word_less_nat_alt)
  qed
  moreover have "unat ?r = form_value (SurrogatePair h l)" using pair_value [of u v] assms(2) u(1) v(1) by simp
  ultimately show ?thesis by blast
qed

lemma short_escape_values: "short_escape c = map_option char_of (map_of escape_values c)"
  by (simp add: short_escape_def escape_values_def char_of_def bit_0)

lemma escape_ascii: "c \<in> fst ` set escape_values \<Longrightarrow> \<exists>n. map_of escape_values c = Some n \<and> n < 128"
  by (auto simp: escape_values_def)

lemma escape_not_u: "CHR ''u'' \<notin> fst ` set escape_values"
  by (simp add: escape_values_def)

lemma form_value_scalar: "form_ok f \<Longrightarrow> scalar_value (form_value f)"
proof (cases f)
  case (CodeUnit h)
  have less: "foldl (\<lambda>v c. v * 16 + hex_nat c) r h < (r + 1) * 16 ^ length h" if "list_all IsHexDigit h" for r h
    using that
  proof (induction h arbitrary: r)
    case (Cons c h)
    have "foldl (\<lambda>v c. v * 16 + hex_nat c) (r * 16 + hex_nat c) h < (r * 16 + hex_nat c + 1) * 16 ^ length h"
      using Cons by simp
    also have "\<dots> \<le> ((r + 1) * 16) * 16 ^ length h" using Cons.prems hex_nat_less [of c] by (intro mult_le_mono1) simp
    finally show ?case by (simp add: algebra_simps)
  qed simp
  assume "form_ok f"
  with CodeUnit less [of h 0] show ?thesis by (auto simp: scalar_value_def is_code_unit_def hex_number_def)
next
  case (Short c)
  assume "form_ok f"
  with Short escape_ascii [of c] show ?thesis by (auto simp: scalar_value_def)
qed (auto simp: scalar_value_def)

lemma utf8_first:
  assumes "scalar_value n" and "utf8_encode n = c # bs"
  shows "byte c = n \<and> bs = [] \<or> 128 \<le> byte c \<and> 128 \<le> n"
proof -
  have top: "n \<le> 1114111" using assms(1) by (auto simp: scalar_value_def)
  consider "n < 128" | "128 \<le> n" "n < 2048" | "2048 \<le> n" "n < 65536" | "65536 \<le> n" by linarith
  then show ?thesis
  proof cases
    case 1
    with assms show ?thesis by (auto simp: utf8_ascii byte_char_of)
  next
    case 2
    then have "n div 64 < 32" by simp
    with 2 assms show ?thesis by (auto simp: utf8_two byte_char_of)
  next
    case 3
    then have "n div 4096 < 16" by simp
    with 3 assms show ?thesis by (auto simp: utf8_three byte_char_of)
  next
    case 4
    then have "n div 262144 < 8" using top by simp
    with 4 top assms show ?thesis by (auto simp: utf8_four byte_char_of)
  qed
qed

lemma utf8_nonempty: "utf8_encode n \<noteq> []"
  by (simp add: utf8_encode_def)

lemma quote_bytes: "byte CHR 0x22 = 34" "byte CHR 0x5C = 92"
  by (simp_all add: byte_def)

lemma plain_first:
  assumes "scalar_value n" and "utf8_encode n = c # bs"
  shows "form_ok (Plain n) \<longleftrightarrow> \<not> byte c < 32 \<and> c \<noteq> CHR 0x22 \<and> c \<noteq> CHR 0x5C"
proof -
  have "c = CHR 0x22 \<longleftrightarrow> byte c = 34" "c = CHR 0x5C \<longleftrightarrow> byte c = 92" by (metis quote_bytes byte_inject)+
  with utf8_first [OF assms] assms(1) show ?thesis by auto
qed

lemma string_item_escape:
  "string_item env (CHR 0x5C # e # s) w =
     bindr (Check env (CHR 0x5C # e # s) w) (\<lambda>_ _ w.
       if e = CHR ''u'' then bindr (ParseEscapedUnicode env s w) (\<lambda>v s w. returning (Some (code_point_bytes v)) s w)
       else case short_escape e of None \<Rightarrow> Malformed s w | Some x \<Rightarrow> returning (Some [x]) s w)"
  by (auto simp: string_item_def quote_bytes intro!: bindr_cong split: option.splits)

lemma string_item_sound:
  assumes "string_item env s w = (Inr (i, s'), w')"
  shows "case i of None \<Rightarrow> s = CHR 0x22 # s'
    | Some b \<Rightarrow> \<exists>f. form_ok f \<and> s = form_text f @ s' \<and> b = utf8_encode (form_value f)"
proof (cases s)
  case Nil
  with assms show ?thesis by (simp add: string_item_def)
next
  case (Cons c s1)
  consider "c = CHR 0x22" | "c = CHR 0x5C" | "c \<noteq> CHR 0x22" "c \<noteq> CHR 0x5C" by blast
  then show ?thesis
  proof cases
    case 1
    with assms Cons show ?thesis by (auto simp: string_item_def Check_bind_Inr)
  next
    case 2
    with assms Cons obtain e s2 where s1: "s1 = e # s2" by (cases s1) (auto simp: string_item_def Check_bind_Inr quote_bytes)
    from assms Cons 2 s1 obtain w1 where rest:
      "e = CHR ''u'' \<and> (\<exists>v. ParseEscapedUnicode env s2 w1 = (Inr (v, s'), w') \<and> i = Some (code_point_bytes v)) \<or>
       e \<noteq> CHR ''u'' \<and> (\<exists>x. short_escape e = Some x \<and> i = Some [x] \<and> s' = s2)"
      by (cases "e = CHR ''u''") (auto simp: string_item_escape bindr_Inr split: option.splits)
    from rest show ?thesis
    proof (elim disjE conjE exE)
      fix v
      assume e: "e = CHR ''u''" and p: "ParseEscapedUnicode env s2 w1 = (Inr (v, s'), w')" and i: "i = Some (code_point_bytes v)"
      from escaped_unicode_sound [OF p] obtain f where f: "form_ok f" "CHR 0x5C # CHR ''u'' # s2 = form_text f @ s'" "unat v = form_value f"
        by blast
      have "unat v \<le> 0x10ffff" using form_value_scalar [OF f(1)] f(3) by (auto simp: scalar_value_def)
      then have "code_point_bytes v = utf8_encode (form_value f)" by (simp add: code_point_bytes_utf8 f(3))
      with f Cons 2 s1 e i show ?thesis by auto
    next
      fix x
      assume "short_escape e = Some x" and i: "i = Some [x]" "s' = s2"
      then obtain n where n: "map_of escape_values e = Some n" "x = char_of n" by (auto simp: short_escape_values)
      then have "e \<in> fst ` set escape_values" by (metis map_of_eq_None_iff option.distinct(1))
      moreover from escape_ascii [OF this] n have "utf8_encode (form_value (Short e)) = [x]" by (auto simp: utf8_ascii)
      ultimately show ?thesis using i Cons 2 s1 by (simp, intro exI [of _ "Short e"], simp)
    qed
  next
    case 3
    with assms Cons obtain w1 w2 where u: "SkipUtf8 env c s1 w1 = (Inr ((), s'), w2)" "\<not> byte c < 32"
      and i: "i = Some (take (length s - length s') s)"
      by (auto simp: string_item_def Check_bind_Inr bindr_Inr split: if_splits)
    from SkipUtf8_sound [OF u(1)] obtain n where n: "scalar_value n" "c # s1 = utf8_encode n @ s'" by blast
    then obtain bs where bs: "utf8_encode n = c # bs" using utf8_nonempty [of n] by (cases "utf8_encode n") auto
    have "form_ok (Plain n)" using plain_first [OF n(1) bs] u(2) 3 by simp
    moreover have "take (length s - length s') s = utf8_encode n" using n(2) Cons by simp
    ultimately show ?thesis using i n(2) Cons by (auto intro!: exI [of _ "Plain n"])
  qed
qed

lemma string_item_close: "calm env \<Longrightarrow> yields (string_item env) (CHR 0x22 # s') None s'"
  by (simp add: yields_def string_item_def calm_Check)

lemma string_item_complete:
  assumes "calm env" and "form_ok f"
  shows "yields (string_item env) (form_text f @ s') (Some (utf8_encode (form_value f))) s'"
proof (cases f)
  case (Plain n)
  obtain c bs where bs: "utf8_encode n = c # bs" using utf8_nonempty [of n] by (cases "utf8_encode n") auto
  have ok: "scalar_value n" "form_ok (Plain n)" using assms(2) Plain by simp_all
  with plain_first [OF ok(1) bs] have c: "\<not> byte c < 32" "c \<noteq> CHR 0x22" "c \<noteq> CHR 0x5C" by simp_all
  show ?thesis unfolding yields_def
  proof
    fix w
    obtain w' where "SkipUtf8 env c (bs @ s') (w\<lparr>checks := Suc (checks w)\<rparr>) = (Inr ((), s'), w')"
      using yieldsD [OF SkipUtf8_complete [OF assms(1) ok(1) bs]] by blast
    with c show "fst (string_item env (form_text f @ s') w) = Inr (Some (utf8_encode (form_value f)), s')"
      by (simp add: Plain bs string_item_def calm_Check [OF assms(1)])
  qed
next
  case (Short c)
  with assms(2) escape_ascii [of c] obtain n where "map_of escape_values c = Some n" "n < 128" by auto
  moreover have "c \<noteq> CHR ''u''" using assms(2) Short escape_not_u by (metis form_ok.simps(2))
  ultimately show ?thesis
    by (simp add: Short yields_def string_item_def calm_Check [OF assms(1)] quote_bytes short_escape_values utf8_ascii)
next
  case (CodeUnit h)
  then obtain v where v: "unat v = hex_number h" "yields (ParseEscapedUnicode env) (h @ s') v s'"
    using escaped_unit_complete [OF assms(1)] assms(2) by blast
  have "unat v \<le> 0x10ffff" using form_value_scalar [OF assms(2)] CodeUnit v(1) by (auto simp: scalar_value_def)
  then have b: "code_point_bytes v = utf8_encode (form_value f)" using CodeUnit v(1) by (simp add: code_point_bytes_utf8)
  show ?thesis unfolding yields_def
  proof
    fix w
    obtain w' where "ParseEscapedUnicode env (h @ s') (w\<lparr>checks := Suc (checks w)\<rparr>) = (Inr (v, s'), w')"
      using yieldsD [OF v(2)] by blast
    with b show "fst (string_item env (form_text f @ s') w) = Inr (Some (utf8_encode (form_value f)), s')"
      by (simp add: CodeUnit string_item_def calm_Check [OF assms(1)] quote_bytes)
  qed
next
  case (SurrogatePair h l)
  then obtain v where v: "unat v = form_value (SurrogatePair h l)"
      "yields (ParseEscapedUnicode env) (h @ CHR 0x5C # CHR ''u'' # l @ s') v s'"
    using escaped_pair_complete [OF assms(1)] assms(2) by blast
  have "unat v \<le> 0x10ffff" using form_value_scalar [OF assms(2)] SurrogatePair v(1) by (auto simp: scalar_value_def)
  then have b: "code_point_bytes v = utf8_encode (form_value f)" using SurrogatePair v(1) by (simp add: code_point_bytes_utf8)
  show ?thesis unfolding yields_def
  proof
    fix w
    obtain w' where "ParseEscapedUnicode env (h @ CHR 0x5C # CHR ''u'' # l @ s') (w\<lparr>checks := Suc (checks w)\<rparr>) = (Inr (v, s'), w')"
      using yieldsD [OF v(2)] by blast
    with b show "fst (string_item env (form_text f @ s') w) = Inr (Some (utf8_encode (form_value f)), s')"
      by (simp add: SurrogatePair string_item_def calm_Check [OF assms(1)] quote_bytes del: form_value.simps)
  qed
qed

text \<open>Induction on what one of the string loops has read.\<close>

lemma string_loop_parts:
  assumes item: "string_item env s w = (Inr (i, s1), w1)"
    and close: "i = None \<Longrightarrow> s = CHR 0x22 # s1 \<Longrightarrow> P"
    and form: "\<And>f. form_ok f \<Longrightarrow> i = Some (utf8_encode (form_value f)) \<Longrightarrow> s = form_text f @ s1 \<Longrightarrow> length s1 < length s \<Longrightarrow> P"
  shows P
  using string_item_sound [OF item] string_item_length [OF item] close form by (cases i) auto

lemma skip_loop_sound:
  "skip_string_loop env s w = (Inr (x, s'), w') \<Longrightarrow>
   \<exists>fs. list_all form_ok fs \<and> s = concat (map form_text fs) @ CHR 0x22 # s'"
proof (induction s arbitrary: w rule: length_induct)
  case (1 s)
  from "1.prems" obtain i s1 w1 where item: "string_item env s w = (Inr (i, s1), w1)"
    and rest: "(case i of None \<Rightarrow> returning () s1 w1 | Some _ \<Rightarrow> skip_string_loop env s1 w1) = (Inr (x, s'), w')"
    by (subst (asm) skip_string_loop_item) (auto simp: bindr_Inr)
  from item show ?case
  proof (rule string_loop_parts)
    assume "i = None" "s = CHR 0x22 # s1"
    with rest show ?thesis by (intro exI [of _ "[]"]) simp
  next
    fix f
    assume f: "form_ok f" "i = Some (utf8_encode (form_value f))" "s = form_text f @ s1" "length s1 < length s"
    from rest f(2) have "skip_string_loop env s1 w1 = (Inr (x, s'), w')" by simp
    with "1.IH" f(4) obtain fs where "list_all form_ok fs" "s1 = concat (map form_text fs) @ CHR 0x22 # s'" by blast
    with f show ?thesis by (intro exI [of _ "f # fs"]) simp
  qed
qed

lemma skip_loop_complete:
  "calm env \<Longrightarrow> list_all form_ok fs \<Longrightarrow> yields (skip_string_loop env) (concat (map form_text fs) @ CHR 0x22 # s') () s'"
proof (induction fs)
  case Nil
  show ?case unfolding yields_def
  proof
    fix w
    obtain w' where "string_item env (CHR 0x22 # s') w = (Inr (None, s'), w')" using yieldsD [OF string_item_close [OF Nil.prems(1)]] by blast
    then show "fst (skip_string_loop env (concat (map form_text []) @ CHR 0x22 # s') w) = Inr ((), s')"
      by (subst skip_string_loop_item) simp
  qed
next
  case (Cons f fs)
  let ?s1 = "concat (map form_text fs) @ CHR 0x22 # s'"
  show ?case unfolding yields_def
  proof
    fix w
    obtain w' where "string_item env (form_text f @ ?s1) w = (Inr (Some (utf8_encode (form_value f)), ?s1), w')"
      using yieldsD [OF string_item_complete [OF Cons.prems(1)]] Cons.prems(2) by fastforce
    then show "fst (skip_string_loop env (concat (map form_text (f # fs)) @ CHR 0x22 # s') w) = Inr ((), s')"
      using Cons by (subst skip_string_loop_item) (simp add: yields_def)
  qed
qed

lemma expect_complete: "calm env \<Longrightarrow> yields (Expect env c) (c # s) () s"
  by (simp add: yields_def Expect_def calm_Check)

lemma skip_string_sound:
  "SkipString env s w = (Inr (x, s'), w') \<Longrightarrow> \<exists>fs. list_all form_ok fs \<and> s = string_text fs @ s'"
  by (auto simp: SkipString_def bindr_Inr string_text_def dest!: Expect_length skip_loop_sound)

lemma skip_string_complete: "calm env \<Longrightarrow> list_all form_ok fs \<Longrightarrow> yields (SkipString env) (string_text fs @ s') () s'"
  unfolding SkipString_def [abs_def] string_text_def append_Cons append_assoc
  by (rule yields_bind [OF expect_complete]) (simp_all add: skip_loop_complete)

subsection \<open>Object keys\<close>

definition key_holds :: "object_key \<Rightarrow> string \<Rightarrow> bool" where
  "key_holds k r \<longleftrightarrow> key_bytes k = take 64 r \<and> (key_overflow k \<longleftrightarrow> 64 < length r)"

lemma key_Append_holds: "key_holds k r \<Longrightarrow> key_holds (key_Append c k) (r @ [c])"
  by (auto simp: key_holds_def key_Append_def)

lemma key_appends_hold: "key_holds k r \<Longrightarrow> key_holds (fold key_Append b k) (r @ b)"
proof (induction b arbitrary: k r)
  case (Cons c b)
  from Cons.IH [OF key_Append_holds [OF Cons.prems]] show ?case by simp
qed simp

lemma key_Equals_holds: "key_holds k r \<Longrightarrow> key_Equals k e \<longleftrightarrow> r = e \<and> length e \<le> 64"
  by (auto simp: key_holds_def key_Equals_def)

lemma key_loop_sound:
  "object_key_loop env k s w = (Inr (k', s'), w') \<Longrightarrow> key_holds k r \<Longrightarrow>
   \<exists>fs. list_all form_ok fs \<and> s = concat (map form_text fs) @ CHR 0x22 # s' \<and> key_holds k' (r @ string_value fs)"
proof (induction s arbitrary: w k r rule: length_induct)
  case (1 s)
  from "1.prems" obtain i s1 w1 where item: "string_item env s w = (Inr (i, s1), w1)"
    and rest: "(case i of None \<Rightarrow> returning k s1 w1 | Some b \<Rightarrow> object_key_loop env (fold key_Append b k) s1 w1) = (Inr (k', s'), w')"
    by (subst (asm) object_key_loop_item) (auto simp: bindr_Inr)
  from item show ?case
  proof (rule string_loop_parts)
    assume "i = None" "s = CHR 0x22 # s1"
    with rest "1.prems" show ?thesis by (intro exI [of _ "[]"]) (simp add: string_value_def)
  next
    fix f
    assume f: "form_ok f" "i = Some (utf8_encode (form_value f))" "s = form_text f @ s1" "length s1 < length s"
    let ?b = "utf8_encode (form_value f)"
    have "object_key_loop env (fold key_Append ?b k) s1 w1 = (Inr (k', s'), w')" using rest f(2) by simp
    with "1.IH" f(4) key_appends_hold [OF "1.prems"(2), of ?b] obtain fs where
      "list_all form_ok fs" "s1 = concat (map form_text fs) @ CHR 0x22 # s'" "key_holds k' ((r @ ?b) @ string_value fs)" by blast
    with f show ?thesis by (intro exI [of _ "f # fs"]) (simp add: string_value_def)
  qed
qed

lemma key_loop_complete:
  "calm env \<Longrightarrow> list_all form_ok fs \<Longrightarrow> \<exists>k'. yields (object_key_loop env k) (concat (map form_text fs) @ CHR 0x22 # s') k' s'"
proof (induction fs arbitrary: k)
  case Nil
  have "yields (object_key_loop env k) (CHR 0x22 # s') k s'" unfolding yields_def
  proof
    fix w
    obtain w' where "string_item env (CHR 0x22 # s') w = (Inr (None, s'), w')" using yieldsD [OF string_item_close [OF Nil.prems(1)]] by blast
    then show "fst (object_key_loop env k (CHR 0x22 # s') w) = Inr (k, s')" by (subst object_key_loop_item) simp
  qed
  then show ?case by auto
next
  case (Cons f fs)
  let ?s1 = "concat (map form_text fs) @ CHR 0x22 # s'" and ?b = "utf8_encode (form_value f)"
  obtain k' where k': "yields (object_key_loop env (fold key_Append ?b k)) ?s1 k' s'" using Cons by auto
  have "yields (object_key_loop env k) (form_text f @ ?s1) k' s'" unfolding yields_def
  proof
    fix w
    obtain w' where "string_item env (form_text f @ ?s1) w = (Inr (Some ?b, ?s1), w')"
      using yieldsD [OF string_item_complete [OF Cons.prems(1)]] Cons.prems(2) by fastforce
    then show "fst (object_key_loop env k (form_text f @ ?s1) w) = Inr (k', s')"
      using k' by (subst object_key_loop_item) (simp add: yields_def)
  qed
  then show ?case by auto
qed

lemma parse_key_sound:
  assumes "ParseObjectKey env s w = (Inr (k, s'), w')"
  shows "\<exists>fs. list_all form_ok fs \<and> s = string_text fs @ s' \<and> key_holds k (string_value fs)"
proof -
  from assms obtain s1 w1 where "s = CHR 0x22 # s1" "object_key_loop env empty_key s1 w1 = (Inr (k, s'), w')"
    by (auto simp: ParseObjectKey_def bindr_Inr dest!: Expect_length)
  with key_loop_sound [of env empty_key s1 w1 k s' w' "[]"] show ?thesis
    by (auto simp: string_text_def key_holds_def empty_key_def)
qed

lemma parse_key_complete: "calm env \<Longrightarrow> list_all form_ok fs \<Longrightarrow> \<exists>k. yields (ParseObjectKey env) (string_text fs @ s') k s'"
  unfolding ParseObjectKey_def [abs_def] string_text_def append_Cons append_assoc
  using key_loop_complete [of env fs empty_key s'] yields_bind [OF expect_complete] by fastforce

subsection \<open>Decoded strings\<close>

definition valid_utf8 :: "string \<Rightarrow> bool" where
  "valid_utf8 r \<longleftrightarrow> (\<exists>ns. list_all scalar_value ns \<and> r = concat (map utf8_encode ns))"

lemma utf8_length: "length (utf8_encode n) \<le> 4"
  by (simp add: utf8_encode_def)

lemma require_append:
  assumes "length r \<le> unat (max_decoded_bytes l)" and "n \<le> 4"
  shows "RequireAppend l r (of_nat n) s w =
    (if length r + n \<le> unat (max_decoded_bytes l) then (Inr ((), s), w)
     else (Inl (ExecutionError RESOURCE (budget_field l) (safe_message l)), w))"
proof -
  let ?m = "max_decoded_bytes l"
  have n: "unat (of_nat n :: uint64) = n" using assms(2) by (simp add: unat_of_nat)
  have r: "unat (of_nat (length r) :: uint64) = length r"
    using assms(1) unat_uint64_bound [of ?m] by (simp add: unat_of_nat)
  have "of_nat n > ?m \<or> of_nat (length r) > ?m - of_nat n \<longleftrightarrow> \<not> length r + n \<le> unat ?m"
  proof (cases "of_nat n \<le> ?m")
    case True
    then have "unat (?m - of_nat n) = unat ?m - n" using n by (simp add: unat_sub)
    with True r n show ?thesis by (auto simp: word_less_nat_alt word_le_nat_alt)
  next
    case False
    with n show ?thesis by (auto simp: word_less_nat_alt word_le_nat_alt)
  qed
  then show ?thesis by (simp add: RequireAppend_def)
qed

lemma append_bytes_sound:
  assumes "append_bytes env l b tx s w = (Inr (tx', s'), w')" and "length (text_bytes tx) \<le> unat (max_decoded_bytes l)"
    and "length b \<le> 4"
  shows "text_bytes tx' = text_bytes tx @ b \<and> length (text_bytes tx') \<le> unat (max_decoded_bytes l) \<and> s' = s"
  using assms(1) append_bytes_rest [OF assms(1)]
  by (auto simp: append_bytes_def ReserveAppend_def require_append [OF assms(2,3)] bindr_Inr Let_def split: if_splits)

lemma append_bytes_complete:
  assumes "calm env" and "length (text_bytes tx) + length b \<le> unat (max_decoded_bytes l)" and "length b \<le> 4"
  shows "\<exists>tx'. yields (append_bytes env l b tx) s tx' s \<and> text_bytes tx' = text_bytes tx @ b"
proof -
  have o: "observe env e s w = (Inr ((), s), w\<lparr>capacity_log := capacity_log w @ [e]\<rparr>)" for e s w
    using assms(1) by (simp add: observe_def calm_def)
  have r: "RequireAppend l (text_bytes tx) (of_nat (length b)) s w = (Inr ((), s), w)" for w
    using assms(2,3) by (subst require_append) simp_all
  show ?thesis
    by (cases "observed l \<and> \<not> of_nat (length (text_bytes tx)) + of_nat (length b) \<le> text_capacity tx")
      (auto simp: yields_def append_bytes_def ReserveAppend_def r o Let_def)
qed

lemma string_loop_sound:
  "string_loop env l tx s w = (Inr (r, s'), w') \<Longrightarrow> length (text_bytes tx) \<le> unat (max_decoded_bytes l) \<Longrightarrow>
   \<exists>fs. list_all form_ok fs \<and> s = concat (map form_text fs) @ CHR 0x22 # s' \<and>
     r = text_bytes tx @ string_value fs \<and> length r \<le> unat (max_decoded_bytes l)"
proof (induction s arbitrary: w tx rule: length_induct)
  case (1 s)
  from "1.prems" obtain i s1 w1 where item: "string_item env s w = (Inr (i, s1), w1)"
    and rest: "(case i of None \<Rightarrow> returning (text_bytes tx) s1 w1
      | Some b \<Rightarrow> bindr (append_bytes env l b tx s1 w1) (\<lambda>tx s w. string_loop env l tx s w)) = (Inr (r, s'), w')"
    by (subst (asm) string_loop_item) (auto simp: bindr_Inr)
  from item show ?case
  proof (rule string_loop_parts)
    assume "i = None" "s = CHR 0x22 # s1"
    with rest "1.prems" show ?thesis by (intro exI [of _ "[]"]) (simp add: string_value_def)
  next
    fix f
    assume f: "form_ok f" "i = Some (utf8_encode (form_value f))" "s = form_text f @ s1" "length s1 < length s"
    let ?b = "utf8_encode (form_value f)"
    obtain tx' s2 w2 where a: "append_bytes env l ?b tx s1 w1 = (Inr (tx', s2), w2)"
      and loop: "string_loop env l tx' s2 w2 = (Inr (r, s'), w')" using rest f(2) by (auto simp: bindr_Inr)
    note t = append_bytes_sound [OF a "1.prems"(2) utf8_length]
    with loop "1.IH" f(4) obtain fs where
      "list_all form_ok fs" "s1 = concat (map form_text fs) @ CHR 0x22 # s'" "r = text_bytes tx' @ string_value fs"
      "length r \<le> unat (max_decoded_bytes l)" by blast
    with f t show ?thesis by (intro exI [of _ "f # fs"]) (simp add: string_value_def)
  qed
qed

lemma string_loop_complete:
  "calm env \<Longrightarrow> list_all form_ok fs \<Longrightarrow> length (text_bytes tx @ string_value fs) \<le> unat (max_decoded_bytes l) \<Longrightarrow>
   yields (string_loop env l tx) (concat (map form_text fs) @ CHR 0x22 # s') (text_bytes tx @ string_value fs) s'"
proof (induction fs arbitrary: tx)
  case Nil
  show ?case unfolding yields_def
  proof
    fix w
    obtain w' where "string_item env (CHR 0x22 # s') w = (Inr (None, s'), w')" using yieldsD [OF string_item_close [OF Nil.prems(1)]] by blast
    then show "fst (string_loop env l tx (concat (map form_text []) @ CHR 0x22 # s') w) = Inr (text_bytes tx @ string_value [], s')"
      by (subst string_loop_item) (simp add: string_value_def)
  qed
next
  case (Cons f fs)
  let ?s1 = "concat (map form_text fs) @ CHR 0x22 # s'" and ?b = "utf8_encode (form_value f)"
  have v: "string_value (f # fs) = ?b @ string_value fs" by (simp add: string_value_def)
  then obtain tx' where t: "yields (append_bytes env l ?b tx) ?s1 tx' ?s1" "text_bytes tx' = text_bytes tx @ ?b"
    using append_bytes_complete [OF Cons.prems(1) _ utf8_length, of tx "form_value f" l ?s1] Cons.prems(3) by auto
  have loop: "yields (string_loop env l tx') ?s1 (text_bytes tx @ string_value (f # fs)) s'"
    using Cons.IH [of tx'] Cons.prems t(2) v by simp
  show ?case unfolding yields_def
  proof
    fix w
    obtain w1 where i: "string_item env (form_text f @ ?s1) w = (Inr (Some ?b, ?s1), w1)"
      using yieldsD [OF string_item_complete [OF Cons.prems(1)]] Cons.prems(2) by fastforce
    obtain w2 where a: "append_bytes env l ?b tx ?s1 w1 = (Inr (tx', ?s1), w2)" using yieldsD [OF t(1)] by blast
    show "fst (string_loop env l tx (concat (map form_text (f # fs)) @ CHR 0x22 # s') w) =
        Inr (text_bytes tx @ string_value (f # fs), s')"
      using i a loop by (subst string_loop_item) (simp add: yields_def)
  qed
qed

lemma parse_string_sound:
  assumes "ParseString env l s w = (Inr (r, s'), w')"
  shows "\<exists>fs. list_all form_ok fs \<and> s = string_text fs @ s' \<and> r = string_value fs \<and> length r \<le> unat (max_decoded_bytes l)"
proof -
  from assms obtain s1 w1 c d where s: "s = CHR 0x22 # s1"
    and loop: "string_loop env l \<lparr>text_bytes = [], text_capacity = c, charged_capacity = d\<rparr> s1 w1 = (Inr (r, s'), w')"
    by (auto simp: ParseString_def bindr_Inr Let_def dest!: Expect_length observe_rest split: if_splits)
  from string_loop_sound [OF loop] s show ?thesis by (auto simp: string_text_def)
qed

lemma parse_string_complete:
  assumes "calm env" and "list_all form_ok fs" and "length (string_value fs) \<le> unat (max_decoded_bytes l)"
  shows "yields (ParseString env l) (string_text fs @ s') (string_value fs) s'"
proof -
  let ?s1 = "concat (map form_text fs) @ CHR 0x22 # s'"
  have loop: "fst (string_loop env l \<lparr>text_bytes = [], text_capacity = c, charged_capacity = d\<rparr> ?s1 w) = Inr (string_value fs, s')"
    for c d w
    using string_loop_complete [OF assms(1,2), of "\<lparr>text_bytes = [], text_capacity = c, charged_capacity = d\<rparr>" l s'] assms(3)
    by (simp add: yields_def)
  have o: "observe env e s w = (Inr ((), s), w\<lparr>capacity_log := capacity_log w @ [e]\<rparr>)" for e s w
    using assms(1) by (simp add: observe_def calm_def)
  show ?thesis
    using loop by (simp add: yields_def ParseString_def string_text_def Expect_def calm_Check [OF assms(1)] o Let_def)
qed

subsection \<open>Charged capacity\<close>

text \<open>
  The calls of the capacity observer during one string: a reservation above the charged capacity and within the budget,
  followed by the reconciliation with what the allocation gave, which becomes the charged capacity.
\<close>

fun charge_chain :: "uint64 \<Rightarrow> uint64 \<Rightarrow> capacity_event list \<Rightarrow> uint64 \<Rightarrow> bool" where
  "charge_chain budget c [] c' \<longleftrightarrow> c' = c"
| "charge_chain budget c (ReserveStringCapacity a required # ReconcileStringCapacity b reserved actual # es) c' \<longleftrightarrow>
     a = c \<and> b = c \<and> reserved = required \<and> c < required \<and> required \<le> budget \<and> required \<le> actual \<and>
     charge_chain budget actual es c'"
| "charge_chain budget c _ c' \<longleftrightarrow> False"

lemma charge_chain_append:
  "charge_chain m c es c1 \<Longrightarrow> charge_chain m c1 fs c2 \<Longrightarrow> charge_chain m c (es @ fs) c2"
  by (induction m c es c1 rule: charge_chain.induct) auto

lemma Check_log: "Check env s w = (Inr (x, s'), w') \<Longrightarrow> capacity_log w' = capacity_log w"
  by (auto simp: Check_def Let_def split: if_splits)

lemma Expect_log: "Expect env c s w = (Inr (x, s'), w') \<Longrightarrow> capacity_log w' = capacity_log w"
  by (cases s) (auto simp: Expect_def Check_bind_Inr dest: Check_log split: if_splits)

lemma observe_log: "observe env e s w = (Inr (x, s'), w') \<Longrightarrow> capacity_log w' = capacity_log w @ [e]"
  by (auto simp: observe_def Let_def split: option.splits)

lemma hex_loop_log: "hex_loop env n v s w = (Inr (x, s'), w') \<Longrightarrow> capacity_log w' = capacity_log w"
proof (induction n arbitrary: v s w)
  case (Suc n)
  from Suc.prems obtain c s1 d w1 where "Check env s w = (Inr ((), s), w1)" "hex_loop env n (push_bit 4 v + d) s1 w1 = (Inr (x, s'), w')"
    by (cases s) (auto simp: Check_bind_Inr split: option.splits)
  with Suc.IH Check_log show ?case by metis
qed simp

lemma continuation_log: "continuation_loop env n v s w = (Inr (x, s'), w') \<Longrightarrow> capacity_log w' = capacity_log w"
proof (induction n arbitrary: v s w)
  case (Suc n)
  from Suc.prems obtain s1 v1 w1 where "Check env s w = (Inr ((), s), w1)" "continuation_loop env n v1 s1 w1 = (Inr (x, s'), w')"
    by (cases s) (auto simp: Check_bind_Inr split: if_splits)
  with Suc.IH Check_log show ?case by metis
qed simp

lemma SkipUtf8_log: "SkipUtf8 env c s w = (Inr (x, s'), w') \<Longrightarrow> capacity_log w' = capacity_log w"
  by (auto simp: SkipUtf8_def bindr_Inr split: if_splits option.splits dest!: continuation_log)

lemma escaped_log: "ParseEscapedUnicode env s w = (Inr (x, s'), w') \<Longrightarrow> capacity_log w' = capacity_log w"
  by (auto simp: ParseEscapedUnicode_def ParseHexCodeUnit_def bindr_Inr split: if_splits list.splits dest!: hex_loop_log)

lemma string_item_log: "string_item env s w = (Inr (i, s'), w') \<Longrightarrow> capacity_log w' = capacity_log w"
  by (cases s) (auto simp: string_item_def Check_bind_Inr bindr_Inr Let_def split: if_splits option.splits
      dest!: Check_log SkipUtf8_log escaped_log)

definition charged_text :: "json_text \<Rightarrow> bool" where
  "charged_text t \<longleftrightarrow> charged_capacity t = text_capacity t \<and> length (text_bytes t) \<le> unat (text_capacity t)"

lemma append_bytes_charges:
  assumes a: "append_bytes env l b t s w = (Inr (t', s'), w')" and obs: "observed l" and law: "\<forall>c n. n \<le> reserved_capacity env c n"
    and len: "length (text_bytes t) \<le> unat (max_decoded_bytes l)" "length b \<le> 4" and t: "charged_text t"
  shows "\<exists>es. capacity_log w' = capacity_log w @ es \<and>
    charge_chain (max_decoded_bytes l) (charged_capacity t) es (charged_capacity t') \<and> charged_text t'"
proof -
  let ?n = "of_nat (length (text_bytes t)) + of_nat (length b) :: uint64"
  have fits: "length (text_bytes t) + length b \<le> unat (max_decoded_bytes l)"
    using append_bytes_sound [OF a len] by (metis length_append)
  then have n: "unat ?n = length (text_bytes t) + length b" "?n \<le> max_decoded_bytes l"
    using unat_uint64_bound [of "max_decoded_bytes l"] by (auto simp: word_le_nat_alt of_nat_add [symmetric] unat_of_nat simp del: of_nat_add)
  show ?thesis
  proof (cases "?n \<le> text_capacity t")
    case True
    with a obs have "t' = t\<lparr>text_bytes := text_bytes t @ b\<rparr>" "w' = w"
      by (auto simp: append_bytes_def ReserveAppend_def RequireAppend_def bindr_Inr Let_def split: if_splits)
    with True n t show ?thesis by (intro exI [of _ "[]"]) (auto simp: charged_text_def word_le_nat_alt)
  next
    case False
    let ?x = "reserved_capacity env (text_capacity t) ?n"
    from False a obs have "t' = t\<lparr>text_capacity := ?x, charged_capacity := ?x, text_bytes := text_bytes t @ b\<rparr>"
      "capacity_log w' = capacity_log w @ [ReserveStringCapacity (charged_capacity t) ?n, ReconcileStringCapacity (charged_capacity t) ?n ?x]"
      by (auto simp: append_bytes_def ReserveAppend_def RequireAppend_def observe_def bindr_Inr Let_def split: if_splits option.splits)
    moreover have "?n \<le> ?x" using law by blast
    ultimately show ?thesis using False n t by (auto simp: charged_text_def word_le_nat_alt word_less_nat_alt)
  qed
qed

lemma string_loop_charges:
  "string_loop env l t s w = (Inr (r, s'), w') \<Longrightarrow> observed l \<Longrightarrow> \<forall>c n. n \<le> reserved_capacity env c n \<Longrightarrow>
   length (text_bytes t) \<le> unat (max_decoded_bytes l) \<Longrightarrow> charged_text t \<Longrightarrow>
   \<exists>es c. capacity_log w' = capacity_log w @ es \<and> charge_chain (max_decoded_bytes l) (charged_capacity t) es c \<and> length r \<le> unat c"
proof (induction s arbitrary: w t rule: length_induct)
  case (1 s)
  from "1.prems" obtain i s1 w1 where item: "string_item env s w = (Inr (i, s1), w1)"
    and rest: "(case i of None \<Rightarrow> returning (text_bytes t) s1 w1
      | Some b \<Rightarrow> bindr (append_bytes env l b t s1 w1) (\<lambda>t s w. string_loop env l t s w)) = (Inr (r, s'), w')"
    by (subst (asm) string_loop_item) (auto simp: bindr_Inr)
  note log = string_item_log [OF item]
  from item show ?case
  proof (rule string_loop_parts)
    assume "i = None"
    with rest log "1.prems"(5) show ?thesis by (intro exI [of _ "[]"]) (auto simp: charged_text_def)
  next
    fix f
    assume f: "i = Some (utf8_encode (form_value f))" "length s1 < length s"
    let ?b = "utf8_encode (form_value f)"
    obtain t' s2 w2 where a: "append_bytes env l ?b t s1 w1 = (Inr (t', s2), w2)"
      and loop: "string_loop env l t' s2 w2 = (Inr (r, s'), w')" using rest f(1) by (auto simp: bindr_Inr)
    note t = append_bytes_sound [OF a "1.prems"(4) utf8_length]
    obtain es where es: "capacity_log w2 = capacity_log w1 @ es"
      "charge_chain (max_decoded_bytes l) (charged_capacity t) es (charged_capacity t')" "charged_text t'"
      using append_bytes_charges [OF a "1.prems"(2,3,4) utf8_length "1.prems"(5)] by blast
    from "1.IH" [rule_format, OF _ loop "1.prems"(2) _ _ es(3)] f(2) t "1.prems"(3) obtain gs c where
      "capacity_log w' = capacity_log w2 @ gs" "charge_chain (max_decoded_bytes l) (charged_capacity t') gs c" "length r \<le> unat c"
      by blast
    with es log charge_chain_append [OF es(2)] show ?thesis by (intro exI [of _ "es @ gs"] exI [of _ c]) simp
  qed
qed

subsection \<open>Theorems\<close>

lemma form_length: "form_ok f \<Longrightarrow> length (utf8_encode (form_value f)) \<le> length (form_text f)"
proof (cases f)
  case (Short c)
  assume "form_ok f"
  with Short escape_ascii [of c] show ?thesis by (auto simp: utf8_ascii)
qed (use utf8_length [of "form_value f"] in \<open>auto simp: is_code_unit_def\<close>)

lemma string_value_length: "list_all form_ok fs \<Longrightarrow> length (string_value fs) \<le> length (string_text fs)"
  by (induction fs) (auto simp: string_value_def string_text_def dest!: form_length)

definition plain_environment :: "uint64 \<Rightarrow> reader_environment" where
  "plain_environment nesting =
     \<lparr>max_json_nesting = nesting, cancellation_requested = (\<lambda>_. False), deadline_passed = (\<lambda>_. False),
      observer_outcome = (\<lambda>_. None), initial_capacity = 15, reserved_capacity = (\<lambda>_ required. required)\<rparr>"

definition new_world :: json_world where
  "new_world = \<lparr>checks = 0, capacity_log = []\<rparr>"

lemma plain_calm: "calm (plain_environment n)"
  by (simp add: calm_def plain_environment_def)

text \<open>
  C13. \<open>ParseString\<close> decodes exactly the JSON string tokens: when nothing interrupts it, it returns \<open>r\<close> and stops before
  \<open>s'\<close> if and only if the input is a quoted sequence of well-formed items (plain characters, short escapes, \<open>\\u\<close> escapes that
  are not surrogates, surrogate pairs) followed by \<open>s'\<close>, \<open>r\<close> is the UTF-8 of their code points, and \<open>r\<close> fits the budget.
\<close>

theorem parse_string_exact:
  assumes "calm env"
  shows "(\<exists>w'. ParseString env l s w = (Inr (r, s'), w')) \<longleftrightarrow>
    (\<exists>fs. list_all form_ok fs \<and> s = string_text fs @ s' \<and> r = string_value fs \<and> length r \<le> unat (max_decoded_bytes l))"
  using parse_string_sound [of env l s w r s'] yieldsD [OF parse_string_complete [OF assms]] by blast

definition wide_limits :: string_limits where
  "wide_limits = \<lparr>max_decoded_bytes = 64, budget_field = ''string_bytes'', safe_message = ''too long'', observed = True\<rparr>"

definition sample_forms :: "string_form list" where
  "sample_forms = [Plain 0x61, Short CHR ''n'', CodeUnit ''00e9'', SurrogatePair ''d83d'' ''DE00'', Plain 0x20ac]"

lemma sample_forms_ok: "list_all form_ok sample_forms" "length (string_value sample_forms) \<le> unat (max_decoded_bytes wide_limits)"
  by (simp_all add: sample_forms_def wide_limits_def escape_values_def scalar_value_def is_code_unit_def IsHexDigit_def IsAsciiDigit_def
      in_range_def byte_def hex_number_def hex_nat_def string_value_def utf8_encode_def)

theorem parse_string_exact_witness:
  "\<exists>w'. ParseString (plain_environment 4) wide_limits (string_text sample_forms @ '',1'') new_world =
     (Inr (string_value sample_forms, '',1''), w')"
  using sample_forms_ok parse_string_exact [OF plain_calm, of 4 wide_limits "string_text sample_forms @ '',1''" new_world
      "string_value sample_forms" "'',1''"] by blast

text \<open>
  C7. What \<open>ParseString\<close> returns is a type of its own: whatever the environment and the observer do, a returned string is valid UTF-8,
  the encoding of a sequence of Unicode scalar values with no surrogates and no overlong forms, within the budget in bytes.
\<close>

theorem parsed_text_is_utf8:
  assumes "ParseString env l s w = (Inr (r, s'), w')"
  shows "valid_utf8 r \<and> length r \<le> unat (max_decoded_bytes l)"
proof -
  from parse_string_sound [OF assms] obtain fs where fs: "list_all form_ok fs" "r = string_value fs" "length r \<le> unat (max_decoded_bytes l)"
    by blast
  then have "list_all scalar_value (map form_value fs)" by (auto simp: list_all_iff form_value_scalar)
  with fs show ?thesis by (auto simp: valid_utf8_def string_value_def intro!: exI [of _ "map form_value fs"])
qed

theorem parsed_text_is_utf8_witness: "valid_utf8 (string_value sample_forms) \<and> length (string_value sample_forms) \<le> 64"
proof -
  obtain w' where "ParseString (plain_environment 4) wide_limits (string_text sample_forms @ []) new_world =
      (Inr (string_value sample_forms, []), w')"
    using yieldsD [OF parse_string_complete [OF plain_calm sample_forms_ok]] by blast
  from parsed_text_is_utf8 [OF this] show ?thesis by (simp add: wide_limits_def)
qed

text \<open>
  The three readers of strings agree when nothing interrupts them and the budget covers the input: \<open>SkipString\<close>,
  \<open>ParseObjectKey\<close> and \<open>ParseString\<close> accept the same inputs and stop at the same place, and the allocation-free key
  equals an expected name exactly when the decoded string is that name and has at most 64 bytes.
\<close>

theorem string_readers_agree:
  assumes "calm env" and "length s \<le> unat (max_decoded_bytes l)"
  shows "((\<exists>w'. SkipString env s w = (Inr ((), s'), w')) \<longleftrightarrow> (\<exists>r w'. ParseString env l s w = (Inr (r, s'), w'))) \<and>
    ((\<exists>k w'. ParseObjectKey env s w = (Inr (k, s'), w')) \<longleftrightarrow> (\<exists>r w'. ParseString env l s w = (Inr (r, s'), w'))) \<and>
    (\<forall>r k t w1 w2. ParseString env l s w = (Inr (r, s'), w1) \<longrightarrow> ParseObjectKey env s w = (Inr (k, t), w2) \<longrightarrow>
      t = s' \<and> (\<forall>e. key_Equals k e \<longleftrightarrow> r = e \<and> length e \<le> 64))"
proof -
  have parses: "\<exists>w'. ParseString env l s w = (Inr (string_value fs, s'), w')" if "list_all form_ok fs" "s = string_text fs @ s'" for fs s'
    using yieldsD [OF parse_string_complete [OF assms(1) that(1)]] that string_value_length [OF that(1)] assms(2) by fastforce
  have skips: "\<exists>w'. SkipString env s w = (Inr ((), s'), w')" if "list_all form_ok fs" "s = string_text fs @ s'" for fs
    using yieldsD [OF skip_string_complete [OF assms(1) that(1)]] that(2) by blast
  have keys: "\<exists>k w'. ParseObjectKey env s w = (Inr (k, s'), w')" if fs: "list_all form_ok fs" "s = string_text fs @ s'" for fs
  proof -
    obtain k where "yields (ParseObjectKey env) (string_text fs @ s') k s'" using parse_key_complete [OF assms(1) fs(1)] by blast
    from yieldsD [OF this] fs(2) show ?thesis by blast
  qed
  have agree: "t = s' \<and> (\<forall>e. key_Equals k e \<longleftrightarrow> r = e \<and> length e \<le> 64)"
    if "ParseString env l s w = (Inr (r, s'), w1)" "ParseObjectKey env s w = (Inr (k, t), w2)" for r k t w1 w2
  proof -
    from parse_key_sound [OF that(2)] obtain fs where fs: "list_all form_ok fs" "s = string_text fs @ t" "key_holds k (string_value fs)"
      by blast
    with parses [OF fs(1,2)] that(1) have "r = string_value fs" "t = s'" by auto
    with key_Equals_holds [OF fs(3)] show ?thesis by blast
  qed
  let ?token = "\<exists>fs. list_all form_ok fs \<and> s = string_text fs @ s'"
  have "(\<exists>w'. SkipString env s w = (Inr ((), s'), w')) \<longleftrightarrow> ?token" using skip_string_sound [of env s w] skips by blast
  moreover have "(\<exists>k w'. ParseObjectKey env s w = (Inr (k, s'), w')) \<longleftrightarrow> ?token" using parse_key_sound [of env s w] keys by blast
  moreover have "(\<exists>r w'. ParseString env l s w = (Inr (r, s'), w')) \<longleftrightarrow> ?token" using parse_string_sound [of env l s w] parses by blast
  ultimately show ?thesis using agree by simp
qed

theorem string_readers_agree_witness:
  "(\<exists>w'. SkipString (plain_environment 4) (string_text [Plain 0x6f, Short CHR ''t''] @ '':'') new_world = (Inr ((), '':''), w')) \<and>
   (\<exists>k w'. ParseObjectKey (plain_environment 4) (string_text [Plain 0x6f, Short CHR ''t''] @ '':'') new_world = (Inr (k, '':''), w') \<and>
     key_Equals k [CHR ''o'', CHR 0x09])"
proof -
  let ?fs = "[Plain 0x6f, Short CHR ''t'']"
  let ?s = "string_text ?fs @ '':''"
  have ok: "list_all form_ok ?fs" and v: "string_value ?fs = [CHR ''o'', CHR 0x09]"
    by (simp_all add: scalar_value_def escape_values_def string_value_def utf8_encode_def char_of_def bit_0)
  have len: "length ?s \<le> unat (max_decoded_bytes wide_limits)" "length (string_value ?fs) \<le> unat (max_decoded_bytes wide_limits)"
    by (simp_all add: v wide_limits_def string_text_def utf8_encode_def)
  obtain w1 where p: "ParseString (plain_environment 4) wide_limits ?s new_world = (Inr (string_value ?fs, '':''), w1)"
    using yieldsD [OF parse_string_complete [OF plain_calm ok len(2)]] by blast
  note agree = string_readers_agree [OF plain_calm len(1), of 4 new_world "'':''"]
  from agree p obtain k w2 where k: "ParseObjectKey (plain_environment 4) ?s new_world = (Inr (k, '':''), w2)" by blast
  from agree p k have "key_Equals k [CHR ''o'', CHR 0x09] \<longleftrightarrow> string_value ?fs = [CHR ''o'', CHR 0x09] \<and> length [CHR ''o'', CHR 0x09] \<le> 64"
    by blast
  with v k agree p show ?thesis by auto
qed

text \<open>
  C29. Memory is charged before it is used: for an observed string the calls of the capacity observer are a reservation and
  reconciliation of the initial capacity followed by a chain of reservations, each above the charged capacity and within the budget
  of the string and each reconciled with the actual capacity before anything is appended, and the last charge covers the string.
  The hypothesis on \<open>reserved_capacity\<close> is the guarantee of \<open>std::string::reserve\<close>.
\<close>

theorem string_capacity_is_charged:
  assumes "ParseString env l s w = (Inr (r, s'), w')" and "observed l" and "\<forall>c n. n \<le> reserved_capacity env c n"
  shows "\<exists>es c. capacity_log w' = capacity_log w @ ReserveStringCapacity 0 (initial_capacity env) #
      ReconcileStringCapacity 0 (initial_capacity env) (initial_capacity env) # es \<and>
    charge_chain (max_decoded_bytes l) (initial_capacity env) es c \<and> length r \<le> unat c"
proof -
  let ?c = "initial_capacity env"
  from assms(1,2) obtain s1 w1 where w1: "capacity_log w1 = capacity_log w @ [ReserveStringCapacity 0 ?c, ReconcileStringCapacity 0 ?c ?c]"
    and loop: "string_loop env l \<lparr>text_bytes = [], text_capacity = ?c, charged_capacity = ?c\<rparr> s1 w1 = (Inr (r, s'), w')"
    by (auto simp: ParseString_def bindr_Inr Let_def dest!: Expect_log observe_log)
  from string_loop_charges [OF loop assms(2,3)] w1 show ?thesis by (auto simp: charged_text_def)
qed

theorem string_capacity_is_charged_witness:
  "\<exists>w' es c. ParseString (plain_environment 4) wide_limits (string_text sample_forms @ []) new_world =
       (Inr (string_value sample_forms, []), w') \<and>
     capacity_log w' = ReserveStringCapacity 0 15 # ReconcileStringCapacity 0 15 15 # es \<and> charge_chain 64 15 es c \<and>
     length (string_value sample_forms) \<le> unat c"
proof -
  obtain w' where p: "ParseString (plain_environment 4) wide_limits (string_text sample_forms @ []) new_world =
      (Inr (string_value sample_forms, []), w')"
    using yieldsD [OF parse_string_complete [OF plain_calm sample_forms_ok]] by blast
  have "observed wide_limits" "\<forall>c n. n \<le> reserved_capacity (plain_environment 4) c n" "initial_capacity (plain_environment 4) = 15"
    "max_decoded_bytes wide_limits = 64" "capacity_log new_world = []"
    by (simp_all add: wide_limits_def plain_environment_def new_world_def)
  with string_capacity_is_charged [OF p] p show ?thesis by auto
qed

end
