(* ===== verification/Json_Documents.thy ===== *)
theory Json_Documents
  imports Json_Strings
begin

section \<open>JSON numbers and documents\<close>

text \<open>
  \<open>ParseNumberToken\<close>, \<open>SkipNumber\<close>, \<open>SkipValue\<close> and \<open>ValidateDocument\<close> of \<open>src/runtime/decoding/strict_json_reader.cpp\<close> against the
  grammar of RFC 8259: \<open>json_number\<close> and the inductive \<open>json_text n\<close>, the texts of values nested at most \<open>n\<close> deep. The
  soundness half holds in every environment, by induction on the length of the input; the completeness half, by rule induction on
  the grammar, in every calm one.
\<close>

subsection \<open>White space and numbers\<close>

definition is_space :: "string \<Rightarrow> bool" where
  "is_space s \<longleftrightarrow> list_all IsJsonSpace s"

definition is_digits :: "string \<Rightarrow> bool" where
  "is_digits s \<longleftrightarrow> s \<noteq> [] \<and> list_all IsAsciiDigit s"

definition is_integer :: "string \<Rightarrow> bool" where
  "is_integer s \<longleftrightarrow> is_digits s \<and> (s = ''0'' \<or> hd s \<noteq> CHR ''0'')"

definition is_fraction :: "string \<Rightarrow> bool" where
  "is_fraction s \<longleftrightarrow> s = [] \<or> (\<exists>d. s = CHR ''.'' # d \<and> is_digits d)"

definition is_exponent :: "string \<Rightarrow> bool" where
  "is_exponent s \<longleftrightarrow> s = [] \<or> (\<exists>e sign d. s = e # sign @ d \<and> (e = CHR ''e'' \<or> e = CHR ''E'') \<and>
     (sign = [] \<or> sign = ''+'' \<or> sign = ''-'') \<and> is_digits d)"

definition json_number :: "string \<Rightarrow> bool" where
  "json_number s \<longleftrightarrow> (\<exists>m i f x. s = m @ i @ f @ x \<and> (m = [] \<or> m = ''-'') \<and> is_integer i \<and> is_fraction f \<and> is_exponent x)"

definition number_stop :: "string \<Rightarrow> bool" where
  "number_stop s \<longleftrightarrow> \<not> IsAsciiDigit (Peek s) \<and> Peek s \<noteq> CHR ''.'' \<and> Peek s \<noteq> CHR ''e'' \<and> Peek s \<noteq> CHR ''E''"

lemma Peek_simps [simp]: "Peek [] = CHR 0x00" "Peek (c # s) = c"
  by (simp_all add: Peek_def)

lemma digit_range [simp]: "IsAsciiDigit CHR 0x00 = False" "IsAsciiDigit CHR ''.'' = False" "IsAsciiDigit CHR ''-'' = False"
  "IsAsciiDigit CHR ''+'' = False" "IsAsciiDigit CHR ''e'' = False" "IsAsciiDigit CHR ''E'' = False" "IsAsciiDigit CHR ''0'' = True"
  by (simp_all add: IsAsciiDigit_def in_range_def byte_def)

lemma nonzero_digit_char: "in_range CHR ''1'' CHR ''9'' c \<longleftrightarrow> IsAsciiDigit c \<and> c \<noteq> CHR ''0''"
proof -
  have "byte CHR ''0'' = 48" by (simp add: byte_def)
  then have "c = CHR ''0'' \<longleftrightarrow> byte c = 48" by (metis byte_inject)
  then show ?thesis by (auto simp: in_range_def IsAsciiDigit_def byte_def)
qed

lemma space_sound:
  "SkipWhitespace env s w = (Inr (x, s'), w') \<Longrightarrow> \<exists>a. is_space a \<and> s = a @ s' \<and> \<not> IsJsonSpace (Peek s')"
proof (induction s arbitrary: w)
  case Nil
  then show ?case by (intro exI [of _ "[]"]) (simp add: is_space_def IsJsonSpace_def)
next
  case (Cons c s)
  then show ?case
  proof (cases "IsJsonSpace c")
    case True
    with Cons obtain a where "is_space a" "s = a @ s'" "\<not> IsJsonSpace (Peek s')" by (auto simp: Check_bind_Inr)
    with True show ?thesis by (intro exI [of _ "c # a"]) (simp add: is_space_def)
  next
    case False
    with Cons.prems show ?thesis by (intro exI [of _ "[]"]) (auto simp: Check_bind_Inr is_space_def)
  qed
qed

lemma space_complete:
  "calm env \<Longrightarrow> is_space a \<Longrightarrow> \<not> IsJsonSpace (Peek s') \<Longrightarrow> yields (SkipWhitespace env) (a @ s') () s'"
proof (induction a)
  case Nil
  then show ?case by (cases s') (simp_all add: yields_def calm_Check)
qed (simp add: yields_def calm_Check is_space_def)

lemma digits_sound:
  "skip_digits env s w = (Inr (x, s'), w') \<Longrightarrow> \<exists>d. list_all IsAsciiDigit d \<and> s = d @ s' \<and> \<not> IsAsciiDigit (Peek s')"
proof (induction s arbitrary: w)
  case (Cons c s)
  show ?case
  proof (cases "IsAsciiDigit c")
    case True
    with Cons obtain d where "list_all IsAsciiDigit d" "s = d @ s'" "\<not> IsAsciiDigit (Peek s')" by (auto simp: Check_bind_Inr)
    with True show ?thesis by (intro exI [of _ "c # d"]) simp
  next
    case False
    with Cons.prems show ?thesis by (intro exI [of _ "[]"]) auto
  qed
qed simp

lemma digits_complete:
  "calm env \<Longrightarrow> list_all IsAsciiDigit d \<Longrightarrow> \<not> IsAsciiDigit (Peek s') \<Longrightarrow> yields (skip_digits env) (d @ s') () s'"
proof (induction d)
  case Nil
  then show ?case by (cases s') (simp_all add: yields_def)
qed (simp add: yields_def calm_Check)

lemma peek_digit: "IsAsciiDigit (Peek s) \<Longrightarrow> \<exists>c t. s = c # t \<and> IsAsciiDigit c"
  by (cases s) auto

lemma integer_sound:
  assumes "integer_part env s w = (Inr (x, s'), w')"
  shows "\<exists>m i. s = m @ i @ s' \<and> (m = [] \<or> m = ''-'') \<and> is_integer i \<and> \<not> IsAsciiDigit (Peek s')"
proof -
  define m where "m = (if Peek s = CHR ''-'' then ''-'' else [])"
  define t where "t = (if Peek s = CHR ''-'' then tl s else s)"
  have s: "s = m @ t" by (cases s) (simp_all add: m_def t_def)
  have body: "(if Peek t = CHR ''0'' then if IsAsciiDigit (Peek (tl t)) then Malformed (tl t) w else returning () (tl t) w
    else if \<not> in_range CHR ''1'' CHR ''9'' (Peek t) then Malformed t w else skip_digits env t w) = (Inr (x, s'), w')"
    using assms unfolding integer_part_def t_def Let_def .
  have "\<exists>i. t = i @ s' \<and> is_integer i \<and> \<not> IsAsciiDigit (Peek s')"
  proof (cases "Peek t = CHR ''0''")
    case True
    with body show ?thesis by (cases t) (auto simp: is_integer_def is_digits_def split: if_splits intro!: exI [of _ "''0''"])
  next
    case False
    with body have n: "IsAsciiDigit (Peek t)" and "skip_digits env t w = (Inr (x, s'), w')"
      by (auto simp: nonzero_digit_char split: if_splits)
    from digits_sound [OF this(2)] obtain d where d: "list_all IsAsciiDigit d" "t = d @ s'" "\<not> IsAsciiDigit (Peek s')" by blast
    with n False have "is_integer d" by (cases d) (auto simp: is_integer_def is_digits_def)
    with d show ?thesis by blast
  qed
  moreover have "m = [] \<or> m = ''-''" by (simp add: m_def)
  ultimately show ?thesis using s by blast
qed

lemma integer_complete:
  assumes "calm env" and "m = [] \<or> m = ''-''" and "is_integer i" and "\<not> IsAsciiDigit (Peek s')"
  shows "yields (integer_part env) (m @ i @ s') () s'"
proof -
  obtain c t where i: "i = c # t" "IsAsciiDigit c" "list_all IsAsciiDigit t" using assms(3) by (cases i) (auto simp: is_integer_def is_digits_def)
  have minus: "c \<noteq> CHR ''-''" using i(2) by auto
  show ?thesis
  proof (cases "c = CHR ''0''")
    case True
    with assms(3) i have "t = []" by (auto simp: is_integer_def)
    with True i assms(2,4) show ?thesis by (auto simp: yields_def integer_part_def)
  next
    case False
    with digits_complete [OF assms(1), of i s'] assms(2,4) i minus show ?thesis
      by (auto simp: yields_def integer_part_def nonzero_digit_char)
  qed
qed

lemma fraction_sound:
  assumes "fraction_part env s w = (Inr (x, s'), w')" and "\<not> IsAsciiDigit (Peek s)"
  shows "\<exists>f. s = f @ s' \<and> is_fraction f \<and> \<not> IsAsciiDigit (Peek s')"
proof (cases "Peek s = CHR ''.''")
  case True
  then obtain t where s: "s = CHR ''.'' # t" by (cases s) auto
  with assms(1) have n: "IsAsciiDigit (Peek t)" "skip_digits env t w = (Inr (x, s'), w')"
    by (auto simp: fraction_part_def split: if_splits)
  from digits_sound [OF n(2)] obtain d where d: "list_all IsAsciiDigit d" "t = d @ s'" "\<not> IsAsciiDigit (Peek s')" by blast
  with n(1) have "is_digits d" by (cases d) (auto simp: is_digits_def)
  with s d show ?thesis by (intro exI [of _ "CHR ''.'' # d"]) (simp add: is_fraction_def)
next
  case False
  with assms show ?thesis by (intro exI [of _ "[]"]) (simp add: fraction_part_def is_fraction_def)
qed

lemma fraction_complete:
  assumes "calm env" and "is_fraction f" and "\<not> IsAsciiDigit (Peek s')" and "Peek s' \<noteq> CHR ''.''"
  shows "yields (fraction_part env) (f @ s') () s'"
  using assms digits_complete [OF assms(1) _ assms(3)]
  by (auto simp: is_fraction_def is_digits_def yields_def fraction_part_def neq_Nil_conv calm_Check [OF assms(1)])

lemma exponent_sound:
  assumes "exponent_part env s w = (Inr (x, s'), w')" and "\<not> IsAsciiDigit (Peek s)"
  shows "\<exists>f. s = f @ s' \<and> is_exponent f \<and> \<not> IsAsciiDigit (Peek s')"
proof (cases "Peek s = CHR ''e'' \<or> Peek s = CHR ''E''")
  case True
  then obtain e t where s: "s = e # t" "e = CHR ''e'' \<or> e = CHR ''E''" by (cases s) auto
  define g where "g = (if Peek t = CHR ''+'' \<or> Peek t = CHR ''-'' then [Peek t] else [])"
  define u where "u = (if Peek t = CHR ''+'' \<or> Peek t = CHR ''-'' then tl t else t)"
  have t: "t = g @ u" by (cases t) (simp_all add: g_def u_def)
  from s assms(1) have n: "IsAsciiDigit (Peek u)" "skip_digits env u w = (Inr (x, s'), w')"
    by (auto simp: exponent_part_def u_def Let_def split: if_splits)
  from digits_sound [OF n(2)] obtain d where d: "list_all IsAsciiDigit d" "u = d @ s'" "\<not> IsAsciiDigit (Peek s')" by blast
  with n(1) have "is_digits d" by (cases d) (auto simp: is_digits_def)
  moreover have "g = [] \<or> g = ''+'' \<or> g = ''-''" by (auto simp: g_def)
  ultimately have "is_exponent (e # g @ d)" using s(2) unfolding is_exponent_def by blast
  with s t d show ?thesis by (intro exI [of _ "e # g @ d"]) simp
next
  case False
  with assms show ?thesis by (intro exI [of _ "[]"]) (simp add: exponent_part_def is_exponent_def)
qed

lemma exponent_complete:
  assumes "calm env" and "is_exponent f" and "number_stop s'"
  shows "yields (exponent_part env) (f @ s') () s'"
proof -
  have stop: "\<not> IsAsciiDigit (Peek s')" using assms(3) by (simp add: number_stop_def)
  show ?thesis
    using assms digits_complete [OF assms(1) _ stop]
    by (auto simp: is_exponent_def is_digits_def yields_def exponent_part_def number_stop_def neq_Nil_conv Let_def calm_Check [OF assms(1)])
qed

lemma number_parts_sound:
  assumes "integer_part env s w = (Inr (x1, s1), w1)" and "fraction_part env s1 w1 = (Inr (x2, s2), w2)"
    and "exponent_part env s2 w2 = (Inr (x3, s'), w')"
  shows "\<exists>t. json_number t \<and> s = t @ s' \<and> \<not> IsAsciiDigit (Peek s')"
proof -
  from integer_sound [OF assms(1)] obtain m i where 1: "s = m @ i @ s1" "m = [] \<or> m = ''-''" "is_integer i" "\<not> IsAsciiDigit (Peek s1)" by blast
  from fraction_sound [OF assms(2) 1(4)] obtain f where 2: "s1 = f @ s2" "is_fraction f" "\<not> IsAsciiDigit (Peek s2)" by blast
  from exponent_sound [OF assms(3) 2(3)] obtain x where 3: "s2 = x @ s'" "is_exponent x" "\<not> IsAsciiDigit (Peek s')" by blast
  have "json_number (m @ i @ f @ x)" using 1 2 3 unfolding json_number_def by blast
  with 1 2 3 show ?thesis by (intro exI [of _ "m @ i @ f @ x"]) simp
qed

lemma number_parts_complete:
  assumes "calm env" and "json_number t" and "number_stop s'"
  obtains s1 s2 where "yields (integer_part env) (t @ s') () s1" and "yields (fraction_part env) s1 () s2"
    and "yields (exponent_part env) s2 () s'"
proof -
  from assms(2) obtain m i f x where t: "t = m @ i @ f @ x" "m = [] \<or> m = ''-''" "is_integer i" "is_fraction f" "is_exponent x"
    by (auto simp: json_number_def)
  have x: "\<not> IsAsciiDigit (Peek (x @ s'))" "Peek (x @ s') \<noteq> CHR ''.''"
    using t(5) assms(3) by (auto simp: is_exponent_def number_stop_def)
  have f: "\<not> IsAsciiDigit (Peek (f @ x @ s'))" using t(4) x(1) by (auto simp: is_fraction_def)
  show thesis
    by (rule that [of "f @ x @ s'" "x @ s'"])
      (use integer_complete [OF assms(1) t(2,3) f] fraction_complete [OF assms(1) t(4) x] exponent_complete [OF assms(1) t(5) assms(3)] t(1)
        in simp_all)
qed

lemma number_nonempty: "json_number t \<Longrightarrow> t \<noteq> [] \<and> (hd t = CHR ''-'' \<or> IsAsciiDigit (hd t))"
  by (auto simp: json_number_def is_integer_def is_digits_def neq_Nil_conv)

lemma skip_number_sound: "SkipNumber env s w = (Inr (x, s'), w') \<Longrightarrow> \<exists>t. json_number t \<and> s = t @ s'"
  using number_parts_sound by (fastforce simp: SkipNumber_def bindr_Inr split: if_splits)

lemma skip_number_complete:
  assumes "calm env" and "json_number t" and "number_stop s'"
  shows "yields (SkipNumber env) (t @ s') () s'"
proof -
  obtain s1 s2 where y: "yields (integer_part env) (t @ s') () s1" "yields (fraction_part env) s1 () s2" "yields (exponent_part env) s2 () s'"
    by (rule number_parts_complete [OF assms])
  show ?thesis unfolding yields_def
  proof
    fix w
    obtain w1 where 1: "integer_part env (t @ s') w = (Inr ((), s1), w1)" using yieldsD [OF y(1)] by blast
    obtain w2 where 2: "fraction_part env s1 w1 = (Inr ((), s2), w2)" using yieldsD [OF y(2)] by blast
    obtain w3 where 3: "exponent_part env s2 w2 = (Inr ((), s'), w3)" using yieldsD [OF y(3)] by blast
    from 1 2 3 number_nonempty [OF assms(2)] show "fst (SkipNumber env (t @ s') w) = Inr ((), s')" by (simp add: SkipNumber_def)
  qed
qed

lemma number_token_complete:
  assumes "calm env" and "json_number t" and "number_stop s'" and "length t \<le> unat m"
  shows "yields (ParseNumberToken env m field message) (t @ s') t s'"
  unfolding yields_def
proof
  fix w
  obtain s1 s2 where y: "yields (integer_part env) (t @ s') () s1" "yields (fraction_part env) s1 () s2" "yields (exponent_part env) s2 () s'"
    by (rule number_parts_complete [OF assms(1-3)])
  obtain w1 where 1: "integer_part env (t @ s') w = (Inr ((), s1), w1)" using yieldsD [OF y(1)] by blast
  obtain w2 where 2: "fraction_part env s1 w1 = (Inr ((), s2), w2)" using yieldsD [OF y(2)] by blast
  obtain w3 where 3: "exponent_part env s2 w2 = (Inr ((), s'), w3)" using yieldsD [OF y(3)] by blast
  have "unat (of_nat (length t) :: uint64) = length t" using assms(4) unat_uint64_bound [of m] by (simp add: unat_of_nat)
  then have "\<not> of_nat (length t) > m" using assms(4) by (simp add: word_less_nat_alt)
  with 1 2 3 show "fst (ParseNumberToken env m field message (t @ s') w) = Inr (t, s')" by (simp add: ParseNumberToken_def)
qed

lemma number_token_sound:
  assumes "ParseNumberToken env m field message s w = (Inr (t, s'), w')" and "length s < 2 ^ 64"
  shows "json_number t \<and> s = t @ s' \<and> \<not> IsAsciiDigit (Peek s') \<and> length t \<le> unat m"
proof -
  from assms(1) obtain s1 s2 w1 w2 w3 where p: "integer_part env s w = (Inr ((), s1), w1)" "fraction_part env s1 w1 = (Inr ((), s2), w2)"
      "exponent_part env s2 w2 = (Inr ((), s'), w3)" and t: "t = take (length s - length s') s" "\<not> of_nat (length s - length s') > m"
    by (auto simp: ParseNumberToken_def bindr_Inr Let_def split: if_splits)
  from number_parts_sound [OF p] obtain u where u: "json_number u" "s = u @ s'" "\<not> IsAsciiDigit (Peek s')" by blast
  with t have "t = u" "\<not> of_nat (length u) > m" by simp_all
  moreover have "unat (of_nat (length u) :: uint64) = length u" using assms(2) u(2) by (simp add: unat_of_nat)
  ultimately show ?thesis using u by (simp add: word_less_nat_alt)
qed

subsection \<open>The grammar of documents\<close>

inductive json_text :: "nat \<Rightarrow> string \<Rightarrow> bool" where
  JsonString: "list_all form_ok fs \<Longrightarrow> json_text n (string_text fs)"
| JsonNumber: "json_number t \<Longrightarrow> json_text n t"
| JsonLiteral: "t \<in> {''true'', ''false'', ''null''} \<Longrightarrow> json_text n t"
| EmptyArray: "is_space a \<Longrightarrow> json_text n (CHR ''['' # a @ '']'')"
| EmptyObject: "is_space a \<Longrightarrow> json_text n (CHR ''{'' # a @ ''}'')"
| NonemptyArray: "vs \<noteq> [] \<Longrightarrow> (\<And>a v b. (a, v, b) \<in> set vs \<Longrightarrow> is_space a \<and> is_space b \<and> json_text n v) \<Longrightarrow>
    json_text (Suc n) (CHR ''['' # join_with CHR '','' (map (\<lambda>(a, v, b). a @ v @ b) vs) @ '']'')"
| NonemptyObject: "ms \<noteq> [] \<Longrightarrow>
    (\<And>c k d a v b. (c, k, d, a, v, b) \<in> set ms \<Longrightarrow>
      is_space c \<and> list_all form_ok k \<and> is_space d \<and> is_space a \<and> is_space b \<and> json_text n v) \<Longrightarrow>
    json_text (Suc n) (CHR ''{'' #
      join_with CHR '','' (map (\<lambda>(c, k, d, a, v, b). c @ string_text k @ d @ CHR '':'' # a @ v @ b) ms) @ ''}'')"

definition json_document :: "nat \<Rightarrow> string \<Rightarrow> bool" where
  "json_document n s \<longleftrightarrow> (\<exists>a v b. s = a @ v @ b \<and> is_space a \<and> is_space b \<and> json_text n v)"

definition array_items :: "nat \<Rightarrow> (string \<times> string \<times> string) list \<Rightarrow> bool" where
  "array_items n vs \<longleftrightarrow> vs \<noteq> [] \<and> (\<forall>(a, v, b)\<in>set vs. is_space a \<and> is_space b \<and> json_text n v)"

definition items_text :: "(string \<times> string \<times> string) list \<Rightarrow> string" where
  "items_text vs = join_with CHR '','' (map (\<lambda>(a, v, b). a @ v @ b) vs)"

definition object_members :: "nat \<Rightarrow> (string \<times> string_form list \<times> string \<times> string \<times> string \<times> string) list \<Rightarrow> bool" where
  "object_members n ms \<longleftrightarrow> ms \<noteq> [] \<and> (\<forall>(c, k, d, a, v, b)\<in>set ms.
     is_space c \<and> list_all form_ok k \<and> is_space d \<and> is_space a \<and> is_space b \<and> json_text n v)"

definition members_text :: "(string \<times> string_form list \<times> string \<times> string \<times> string \<times> string) list \<Rightarrow> string" where
  "members_text ms = join_with CHR '','' (map (\<lambda>(c, k, d, a, v, b). c @ string_text k @ d @ CHR '':'' # a @ v @ b) ms)"

lemma json_array: "array_items n vs \<Longrightarrow> json_text (Suc n) (CHR ''['' # items_text vs @ '']'')"
  unfolding items_text_def array_items_def by (rule NonemptyArray) auto

lemma json_object: "object_members n ms \<Longrightarrow> json_text (Suc n) (CHR ''{'' # members_text ms @ ''}'')"
  unfolding members_text_def object_members_def by (rule NonemptyObject) auto

lemma space_append [simp]: "is_space (a @ b) \<longleftrightarrow> is_space a \<and> is_space b"
  by (simp add: is_space_def)

lemma items_cons: "vs \<noteq> [] \<Longrightarrow> items_text ((a, v, b) # vs) = a @ v @ b @ CHR '','' # items_text vs"
  by (simp add: items_text_def join_with_Cons)

lemma items_prefix: "is_space c \<Longrightarrow> array_items n vs \<Longrightarrow> \<exists>us. array_items n us \<and> items_text us = c @ items_text vs"
proof (cases vs)
  case (Cons x us)
  obtain a v b where x: "x = (a, v, b)" by (cases x)
  assume "is_space c" "array_items n vs"
  with Cons x show ?thesis
    by (intro exI [of _ "(c @ a, v, b) # us"]) (cases us; auto simp: array_items_def items_text_def)
qed (simp add: array_items_def)

lemma members_cons:
  "ms \<noteq> [] \<Longrightarrow> members_text ((c, k, d, a, v, b) # ms) = c @ string_text k @ d @ CHR '':'' # a @ v @ b @ CHR '','' # members_text ms"
  by (simp add: members_text_def join_with_Cons)

lemma members_prefix: "is_space c \<Longrightarrow> object_members n ms \<Longrightarrow> \<exists>us. object_members n us \<and> members_text us = c @ members_text ms"
proof (cases ms)
  case (Cons x us)
  obtain e k d a v b where x: "x = (e, k, d, a, v, b)" by (cases x)
  assume "is_space c" "object_members n ms"
  with Cons x show ?thesis
    by (intro exI [of _ "(c @ e, k, d, a, v, b) # us"]) (cases us; auto simp: object_members_def members_text_def)
qed (simp add: object_members_def)

text \<open>Both separator_readers are the same code up to the closing character.\<close>

definition separator :: "reader_environment \<Rightarrow> char \<Rightarrow> unit reading" where
  "separator env close s w =
     bindr (SkipWhitespace env s w) (\<lambda>_ s w.
       if Peek s = CHR '','' then
         bindr (SkipWhitespace env (tl s) w) (\<lambda>_ s w. if Peek s = close then Malformed s w else returning () s w)
       else if Peek s \<noteq> close then Malformed s w else returning () s w)"

lemma separator_readers: "ArraySeparator env = separator env CHR '']''" "ObjectSeparator env = separator env CHR ''}''"
  by (intro ext, simp only: ArraySeparator_def ObjectSeparator_def separator_def)+

lemma separator_sound:
  assumes "separator env close s w = (Inr (x, s'), w')"
  shows "\<exists>b. is_space b \<and> (s = b @ s' \<and> Peek s' = close \<or> (\<exists>c. is_space c \<and> s = b @ CHR '','' # c @ s' \<and> Peek s' \<noteq> close))"
proof -
  from assms obtain s1 w1 where ws: "SkipWhitespace env s w = (Inr ((), s1), w1)"
    and body: "(if Peek s1 = CHR '','' then bindr (SkipWhitespace env (tl s1) w1)
        (\<lambda>_ s w. if Peek s = close then Malformed s w else returning () s w)
      else if Peek s1 \<noteq> close then Malformed s1 w1 else returning () s1 w1) = (Inr (x, s'), w')"
    by (auto simp: separator_def bindr_Inr)
  from space_sound [OF ws] obtain b where b: "is_space b" "s = b @ s1" by blast
  show ?thesis
  proof (cases "Peek s1 = CHR '',''")
    case True
    with body obtain w2 where ws2: "SkipWhitespace env (tl s1) w1 = (Inr ((), s'), w2)" and p: "Peek s' \<noteq> close"
      by (auto simp: bindr_Inr split: if_splits)
    from space_sound [OF ws2] obtain c where "is_space c" "tl s1 = c @ s'" by blast
    with True b p show ?thesis by (cases s1) auto
  next
    case False
    with body b show ?thesis by (auto split: if_splits)
  qed
qed

lemma separator_more:
  assumes "calm env" and "is_space b" and "is_space c" and "\<not> IsJsonSpace (Peek s')" and "Peek s' \<noteq> close"
  shows "yields (separator env close) (b @ CHR '','' # c @ s') () s'"
  unfolding yields_def
proof
  fix w
  obtain w1 where 1: "SkipWhitespace env (b @ CHR '','' # c @ s') w = (Inr ((), CHR '','' # c @ s'), w1)"
    using yieldsD [OF space_complete [OF assms(1,2), of "CHR '','' # c @ s'"]] by (auto simp: IsJsonSpace_def)
  obtain w2 where "SkipWhitespace env (c @ s') w1 = (Inr ((), s'), w2)" using yieldsD [OF space_complete [OF assms(1,3,4)]] by blast
  with 1 assms(5) show "fst (separator env close (b @ CHR '','' # c @ s') w) = Inr ((), s')" by (simp add: separator_def)
qed

lemma separator_end:
  assumes "calm env" and "is_space b" and "Peek s' = close" and "\<not> IsJsonSpace close" and "close \<noteq> CHR '',''"
  shows "yields (separator env close) (b @ s') () s'"
  unfolding yields_def
proof
  fix w
  obtain w1 where "SkipWhitespace env (b @ s') w = (Inr ((), s'), w1)"
    using yieldsD [OF space_complete [OF assms(1,2)]] assms(3,4) by blast
  with assms(3,5) show "fst (separator env close (b @ s') w) = Inr ((), s')" by (simp add: separator_def)
qed

lemma structural_chars [simp]: "IsAsciiDigit CHR ''['' = False" "IsAsciiDigit CHR ''{'' = False" "IsAsciiDigit CHR 0x22 = False"
  "IsAsciiDigit CHR ''t'' = False" "IsAsciiDigit CHR ''f'' = False" "IsAsciiDigit CHR ''n'' = False"
  by (simp_all add: IsAsciiDigit_def in_range_def byte_def)

lemma depth_step:
  assumes "m \<noteq> uint64_max" and "d \<le> (m :: uint64)" and "d + 1 \<le> m"
  shows "unat m - unat d = Suc (unat m - unat (d + 1))"
proof -
  have "d \<noteq> uint64_max" using assms(1,2) by (auto simp: word_unat_eq_iff word_le_nat_alt dest: order_antisym [OF unat_uint64_bound])
  with ticket_increment(2) [of d] assms(3) show ?thesis by (simp add: word_le_nat_alt)
qed

lemma skip_value_cases:
  assumes "SkipValue env depth s w = (Inr (x, s'), w')"
  obtains a s1 w1 where "is_space a" "s = a @ s1" "depth \<le> max_json_nesting env"
    and "Peek s1 = CHR 0x22 \<and> SkipString env s1 w1 = (Inr (x, s'), w') \<or> SkipNumber env s1 w1 = (Inr (x, s'), w') \<or>
      (\<exists>t\<in>{''true'', ''false'', ''null''}. Literal env t s1 w1 = (Inr (x, s'), w')) \<or>
      (\<exists>s2 w2 s3 w3. Peek s1 = CHR ''['' \<and> Expect env CHR ''['' s1 w1 = (Inr ((), s2), w2) \<and>
        SkipWhitespace env s2 w2 = (Inr ((), s3), w3) \<and> array_loop env depth s3 w3 = (Inr (x, s'), w')) \<or>
      (\<exists>s2 w2 s3 w3. Peek s1 = CHR ''{'' \<and> Expect env CHR ''{'' s1 w1 = (Inr ((), s2), w2) \<and>
        SkipWhitespace env s2 w2 = (Inr ((), s3), w3) \<and> object_loop env depth s3 w3 = (Inr (x, s'), w'))"
proof -
  from assms obtain s1 w1 where ws: "SkipWhitespace env s w = (Inr ((), s1), w1)"
    by (auto simp: SkipValue.simps bindr_Inr)
  have depth: "depth \<le> max_json_nesting env" using assms ws by (auto simp: SkipValue.simps not_less split: if_splits)
  have body:
    "Peek s1 = CHR 0x22 \<and> SkipString env s1 w1 = (Inr (x, s'), w') \<or> SkipNumber env s1 w1 = (Inr (x, s'), w') \<or>
      (\<exists>t\<in>{''true'', ''false'', ''null''}. Literal env t s1 w1 = (Inr (x, s'), w')) \<or>
      (\<exists>s2 w2 s3 w3. Peek s1 = CHR ''['' \<and> Expect env CHR ''['' s1 w1 = (Inr ((), s2), w2) \<and>
        SkipWhitespace env s2 w2 = (Inr ((), s3), w3) \<and> array_loop env depth s3 w3 = (Inr (x, s'), w')) \<or>
      (\<exists>s2 w2 s3 w3. Peek s1 = CHR ''{'' \<and> Expect env CHR ''{'' s1 w1 = (Inr ((), s2), w2) \<and>
        SkipWhitespace env s2 w2 = (Inr ((), s3), w3) \<and> object_loop env depth s3 w3 = (Inr (x, s'), w'))"
    using assms ws unfolding SkipValue.simps [of env depth s w] by (auto simp: bindr_Inr split: if_splits)
  from space_sound [OF ws] obtain a where "is_space a" "s = a @ s1" by blast
  from that [OF this depth body] show thesis .
qed

definition value_read :: "reader_environment \<Rightarrow> uint64 \<Rightarrow> string \<Rightarrow> string \<Rightarrow> bool" where
  "value_read env depth s s' \<longleftrightarrow> depth \<le> max_json_nesting env \<and>
     (\<exists>a v. is_space a \<and> s = a @ v @ s' \<and> json_text (unat (max_json_nesting env) - unat depth) v)"

definition array_read :: "reader_environment \<Rightarrow> uint64 \<Rightarrow> string \<Rightarrow> string \<Rightarrow> bool" where
  "array_read env depth s s' \<longleftrightarrow> s = CHR '']'' # s' \<or>
     (\<exists>n vs. unat (max_json_nesting env) - unat depth = Suc n \<and> array_items n vs \<and> s = items_text vs @ CHR '']'' # s')"

definition object_read :: "reader_environment \<Rightarrow> uint64 \<Rightarrow> string \<Rightarrow> string \<Rightarrow> bool" where
  "object_read env depth s s' \<longleftrightarrow> s = CHR ''}'' # s' \<or>
     (\<exists>n ms. unat (max_json_nesting env) - unat depth = Suc n \<and> object_members n ms \<and> s = members_text ms @ CHR ''}'' # s')"

lemma json_text_first: "json_text n v \<Longrightarrow> \<exists>c t. v = c # t \<and> \<not> IsJsonSpace c \<and> c \<noteq> CHR '']'' \<and> c \<noteq> CHR ''}''"
proof (induction rule: json_text.induct)
  case (JsonNumber t n)
  from number_nonempty [OF this] obtain c u where "t = c # u" "c = CHR ''-'' \<or> IsAsciiDigit c" by (cases t) auto
  then show ?case by (auto simp: IsJsonSpace_def IsAsciiDigit_def in_range_def byte_def)
qed (auto simp: string_text_def IsJsonSpace_def)

lemma array_value:
  assumes "array_read env depth s s'" and "is_space a"
  shows "\<exists>v. CHR ''['' # a @ s = v @ s' \<and> json_text (unat (max_json_nesting env) - unat depth) v"
  using assms(1) unfolding array_read_def
proof (elim disjE exE conjE)
  assume "s = CHR '']'' # s'"
  with EmptyArray [OF assms(2)] show ?thesis by (intro exI [of _ "CHR ''['' # a @ '']''"]) simp
next
  fix n vs
  assume h: "unat (max_json_nesting env) - unat depth = Suc n" "array_items n vs" "s = items_text vs @ CHR '']'' # s'"
  from items_prefix [OF assms(2) h(2)] obtain us where us: "array_items n us" "items_text us = a @ items_text vs" by blast
  with json_array [OF us(1)] h show ?thesis by (intro exI [of _ "CHR ''['' # items_text us @ '']''"]) simp
qed

lemma object_value:
  assumes "object_read env depth s s'" and "is_space a"
  shows "\<exists>v. CHR ''{'' # a @ s = v @ s' \<and> json_text (unat (max_json_nesting env) - unat depth) v"
  using assms(1) unfolding object_read_def
proof (elim disjE exE conjE)
  assume "s = CHR ''}'' # s'"
  with EmptyObject [OF assms(2)] show ?thesis by (intro exI [of _ "CHR ''{'' # a @ ''}''"]) simp
next
  fix n ms
  assume h: "unat (max_json_nesting env) - unat depth = Suc n" "object_members n ms" "s = members_text ms @ CHR ''}'' # s'"
  from members_prefix [OF assms(2) h(2)] obtain us where us: "object_members n us" "members_text us = a @ members_text ms" by blast
  with json_object [OF us(1)] h show ?thesis by (intro exI [of _ "CHR ''{'' # members_text us @ ''}''"]) simp
qed

lemma value_step:
  assumes "SkipValue env depth s w = (Inr (x, s'), w')"
    and arrays: "\<And>s3 w3. length s3 < length s \<Longrightarrow> depth \<le> max_json_nesting env \<Longrightarrow>
      array_loop env depth s3 w3 = (Inr (x, s'), w') \<Longrightarrow> array_read env depth s3 s'"
    and objects: "\<And>s3 w3. length s3 < length s \<Longrightarrow> depth \<le> max_json_nesting env \<Longrightarrow>
      object_loop env depth s3 w3 = (Inr (x, s'), w') \<Longrightarrow> object_read env depth s3 s'"
  shows "value_read env depth s s'"
  using assms(1)
proof (cases rule: skip_value_cases)
  case (1 a s1 w1)
  let ?n = "unat (max_json_nesting env) - unat depth"
  have "\<exists>v. s1 = v @ s' \<and> json_text ?n v"
    using 1(4)
  proof (elim disjE exE conjE)
    assume "SkipString env s1 w1 = (Inr (x, s'), w')"
    from skip_string_sound [OF this] JsonString show ?thesis by blast
  next
    assume "SkipNumber env s1 w1 = (Inr (x, s'), w')"
    from skip_number_sound [OF this] JsonNumber show ?thesis by blast
  next
    assume "\<exists>t\<in>{''true'', ''false'', ''null''}. Literal env t s1 w1 = (Inr (x, s'), w')"
    with Literal_length JsonLiteral show ?thesis by blast
  next
    fix s2 w2 s3 w3
    assume h: "Expect env CHR ''['' s1 w1 = (Inr ((), s2), w2)" "SkipWhitespace env s2 w2 = (Inr ((), s3), w3)"
      "array_loop env depth s3 w3 = (Inr (x, s'), w')"
    from space_sound [OF h(2)] Expect_length [OF h(1)] obtain b where "is_space b" "s1 = CHR ''['' # b @ s3" by blast
    with array_value [OF arrays [OF _ 1(3) h(3)], of b] 1(2) show ?thesis by simp
  next
    fix s2 w2 s3 w3
    assume h: "Expect env CHR ''{'' s1 w1 = (Inr ((), s2), w2)" "SkipWhitespace env s2 w2 = (Inr ((), s3), w3)"
      "object_loop env depth s3 w3 = (Inr (x, s'), w')"
    from space_sound [OF h(2)] Expect_length [OF h(1)] obtain b where "is_space b" "s1 = CHR ''{'' # b @ s3" by blast
    with object_value [OF objects [OF _ 1(3) h(3)], of b] 1(2) show ?thesis by simp
  qed
  with 1 show ?thesis unfolding value_read_def by blast
qed

lemma depth_below:
  assumes "max_json_nesting env \<noteq> uint64_max" and "depth \<le> max_json_nesting env" and "value_read env (depth + 1) s s'"
  obtains a v n where "is_space a" "s = a @ v @ s'" "json_text n v" "unat (max_json_nesting env) - unat depth = Suc n" "length s' < length s"
proof -
  from assms(3) obtain a v where h: "depth + 1 \<le> max_json_nesting env" "is_space a" "s = a @ v @ s'"
    "json_text (unat (max_json_nesting env) - unat (depth + 1)) v" by (auto simp: value_read_def)
  with depth_step [OF assms(1,2) h(1)] json_text_first [OF h(4)] show thesis by (intro that [OF h(2-4)]) auto
qed

lemma array_step:
  assumes "array_loop env depth s w = (Inr (x, s'), w')" and m: "max_json_nesting env \<noteq> uint64_max" "depth \<le> max_json_nesting env"
    and sound: "\<And>s1 w1. SkipValue env (depth + 1) s w = (Inr ((), s1), w1) \<Longrightarrow> value_read env (depth + 1) s s1"
    and arrays: "\<And>s3 w3. length s3 < length s \<Longrightarrow> array_loop env depth s3 w3 = (Inr (x, s'), w') \<Longrightarrow> array_read env depth s3 s'"
  shows "array_read env depth s s'"
proof (cases "Peek s = CHR '']''")
  case True
  with assms(1) show ?thesis by (auto simp: array_loop.simps array_read_def dest: Expect_length)
next
  case False
  with assms(1) obtain s1 w1 s2 w2 where h: "SkipValue env (depth + 1) s w = (Inr ((), s1), w1)"
    "separator env CHR '']'' s1 w1 = (Inr ((), s2), w2)" "array_loop env depth s2 w2 = (Inr (x, s'), w')"
    by (auto simp: array_loop.simps [of env depth s] separator_readers bindr_Inr)
  from depth_below [OF m sound [OF h(1)]] obtain a v n where v: "is_space a" "s = a @ v @ s1" "json_text n v"
    "unat (max_json_nesting env) - unat depth = Suc n" "length s1 < length s" .
  from separator_sound [OF h(2)] obtain b where b: "is_space b" "s1 = b @ s2 \<and> Peek s2 = CHR '']'' \<or>
    (\<exists>c. is_space c \<and> s1 = b @ CHR '','' # c @ s2 \<and> Peek s2 \<noteq> CHR '']'')" by blast
  have r: "array_read env depth s2 s'" by (rule arrays [OF _ h(3)]) (use b(2) v(5) in auto)
  have one: "array_items n [(a, v, b)]" using v b by (simp add: array_items_def)
  from b(2) show ?thesis
  proof (elim disjE exE conjE)
    assume e: "s1 = b @ s2" "Peek s2 = CHR '']''"
    with h(3) have "s2 = CHR '']'' # s'" by (auto simp: array_loop.simps dest: Expect_length)
    with one v e show ?thesis unfolding array_read_def by (intro disjI2 exI [of _ n] exI [of _ "[(a, v, b)]"]) (simp add: items_text_def)
  next
    fix c
    assume c: "is_space c" "s1 = b @ CHR '','' # c @ s2" "Peek s2 \<noteq> CHR '']''"
    with r v(4) obtain vs where vs: "array_items n vs" "s2 = items_text vs @ CHR '']'' # s'" by (auto simp: array_read_def)
    from items_prefix [OF c(1) vs(1)] obtain us where us: "array_items n us" "items_text us = c @ items_text vs" by blast
    with one have "array_items n ((a, v, b) # us)" "us \<noteq> []" by (auto simp: array_items_def)
    with us vs v c show ?thesis unfolding array_read_def
      by (intro disjI2 exI [of _ n] exI [of _ "(a, v, b) # us"]) (simp add: items_cons)
  qed
qed

lemma object_step:
  assumes "object_loop env depth s w = (Inr (x, s'), w')" and m: "max_json_nesting env \<noteq> uint64_max" "depth \<le> max_json_nesting env"
    and sound: "\<And>s4 w4 s5 w5. length s4 < length s \<Longrightarrow> SkipValue env (depth + 1) s4 w4 = (Inr ((), s5), w5) \<Longrightarrow> value_read env (depth + 1) s4 s5"
    and objects: "\<And>s6 w6. length s6 < length s \<Longrightarrow> object_loop env depth s6 w6 = (Inr (x, s'), w') \<Longrightarrow> object_read env depth s6 s'"
  shows "object_read env depth s s'"
proof (cases "Peek s = CHR ''}''")
  case True
  with assms(1) show ?thesis by (auto simp: object_loop.simps object_read_def dest: Expect_length)
next
  case False
  with assms(1) obtain s2 w1 w2 s3 w3 s4 w4 s5 w5 s6 w6 where h: "SkipString env s w1 = (Inr ((), s2), w2)"
    "SkipWhitespace env s2 w2 = (Inr ((), s3), w3)" "Expect env CHR '':'' s3 w3 = (Inr ((), s4), w4)"
    "SkipValue env (depth + 1) s4 w4 = (Inr ((), s5), w5)" "separator env CHR ''}'' s5 w5 = (Inr ((), s6), w6)"
    "object_loop env depth s6 w6 = (Inr (x, s'), w')"
    by (auto simp: object_loop.simps [of env depth s] separator_readers bindr_Inr dest!: RequireObjectKey_rest)
  from skip_string_sound [OF h(1)] obtain k where k: "list_all form_ok k" "s = string_text k @ s2" by blast
  from space_sound [OF h(2)] Expect_length [OF h(3)] obtain d where d: "is_space d" "s2 = d @ CHR '':'' # s4" by blast
  have s4: "length s4 < length s" using k d by simp
  from depth_below [OF m sound [OF s4 h(4)]] obtain a v n where v: "is_space a" "s4 = a @ v @ s5" "json_text n v"
    "unat (max_json_nesting env) - unat depth = Suc n" "length s5 < length s4" .
  from separator_sound [OF h(5)] obtain b where b: "is_space b" "s5 = b @ s6 \<and> Peek s6 = CHR ''}'' \<or>
    (\<exists>c. is_space c \<and> s5 = b @ CHR '','' # c @ s6 \<and> Peek s6 \<noteq> CHR ''}'')" by blast
  have r: "object_read env depth s6 s'" by (rule objects [OF _ h(6)]) (use b(2) v(5) s4 in auto)
  have one: "object_members n [([], k, d, a, v, b)]" using v b d k by (simp add: object_members_def is_space_def)
  from b(2) show ?thesis
  proof (elim disjE exE conjE)
    assume e: "s5 = b @ s6" "Peek s6 = CHR ''}''"
    with h(6) have "s6 = CHR ''}'' # s'" by (auto simp: object_loop.simps dest: Expect_length)
    with one v e d k show ?thesis unfolding object_read_def
      by (intro disjI2 exI [of _ n] exI [of _ "[([], k, d, a, v, b)]"]) (simp add: members_text_def)
  next
    fix c
    assume c: "is_space c" "s5 = b @ CHR '','' # c @ s6" "Peek s6 \<noteq> CHR ''}''"
    with r v(4) obtain ms where ms: "object_members n ms" "s6 = members_text ms @ CHR ''}'' # s'" by (auto simp: object_read_def)
    from members_prefix [OF c(1) ms(1)] obtain us where us: "object_members n us" "members_text us = c @ members_text ms" by blast
    with one have "object_members n (([], k, d, a, v, b) # us)" "us \<noteq> []" by (auto simp: object_members_def)
    with us ms v c d k show ?thesis unfolding object_read_def
      by (intro disjI2 exI [of _ n] exI [of _ "([], k, d, a, v, b) # us"]) (simp add: members_cons)
  qed
qed

lemma readers_sound:
  assumes m: "max_json_nesting env \<noteq> uint64_max"
  shows "(\<forall>depth w s' w'. SkipValue env depth s w = (Inr ((), s'), w') \<longrightarrow> value_read env depth s s') \<and>
    (\<forall>depth w s' w'. depth \<le> max_json_nesting env \<longrightarrow> array_loop env depth s w = (Inr ((), s'), w') \<longrightarrow> array_read env depth s s') \<and>
    (\<forall>depth w s' w'. depth \<le> max_json_nesting env \<longrightarrow> object_loop env depth s w = (Inr ((), s'), w') \<longrightarrow> object_read env depth s s')"
proof (induction s rule: length_induct)
  case (1 s)
  have v: "value_read env depth s s'" if "SkipValue env depth s w = (Inr ((), s'), w')" for depth w s' w'
    using that by (rule value_step) (use "1.IH" in blast)+
  have a: "array_read env depth s s'" if "depth \<le> max_json_nesting env" "array_loop env depth s w = (Inr ((), s'), w')" for depth w s' w'
    using that(2) m that(1) by (rule array_step) (use "1.IH" v that(1) in blast)+
  have "object_read env depth s s'" if "depth \<le> max_json_nesting env" "object_loop env depth s w = (Inr ((), s'), w')" for depth w s' w'
    using that(2) m that(1) by (rule object_step) (use "1.IH" that(1) in blast)+
  with v a show ?case by blast
qed

lemma literal_complete: "calm env \<Longrightarrow> yields (Literal env cs) (cs @ s') () s'"
  by (induction cs) (simp_all add: yields_def Literal.simps Expect_def calm_Check)

lemma yields_value:
  assumes "calm env" and "is_space a" and "\<not> IsJsonSpace (Peek s)" and "depth \<le> max_json_nesting env"
    and body: "\<And>w. fst (if Peek s = CHR 0x22 then SkipString env s w
       else if Peek s = CHR ''-'' \<or> IsAsciiDigit (Peek s) then SkipNumber env s w
       else if Peek s = CHR ''t'' then Literal env ''true'' s w
       else if Peek s = CHR ''f'' then Literal env ''false'' s w
       else if Peek s = CHR ''n'' then Literal env ''null'' s w
       else if Peek s = CHR ''['' then
         bindr (Expect env CHR ''['' s w) (\<lambda>_ s2 w. bindr (SkipWhitespace env s2 w) (\<lambda>_ s3 w. array_loop env depth s3 w))
       else if Peek s = CHR ''{'' then
         bindr (Expect env CHR ''{'' s w) (\<lambda>_ s2 w. bindr (SkipWhitespace env s2 w) (\<lambda>_ s3 w. object_loop env depth s3 w))
       else Malformed s w) = Inr ((), s')"
  shows "yields (SkipValue env depth) (a @ s) () s'"
  unfolding yields_def
proof
  fix w
  obtain w1 where "SkipWhitespace env (a @ s) w = (Inr ((), s), w1)" using yieldsD [OF space_complete [OF assms(1-3)]] by blast
  with body [of w1] assms(4) show "fst (SkipValue env depth (a @ s) w) = Inr ((), s')"
    by (simp add: SkipValue.simps [of env depth "a @ s" w] not_less [symmetric])
qed

definition value_complete :: "reader_environment \<Rightarrow> uint64 \<Rightarrow> string \<Rightarrow> bool" where
  "value_complete env depth v \<longleftrightarrow> (\<forall>a s'. is_space a \<longrightarrow> number_stop s' \<longrightarrow> yields (SkipValue env depth) (a @ v @ s') () s')"

lemma value_completeD: "value_complete env depth v \<Longrightarrow> number_stop s' \<Longrightarrow> yields (SkipValue env depth) (v @ s') () s'"
  unfolding value_complete_def by (drule spec [of _ "[]"]) (simp add: is_space_def)

lemma stop_after_space: "is_space b \<Longrightarrow> number_stop s \<Longrightarrow> number_stop (b @ s)"
  by (cases b) (auto simp: is_space_def number_stop_def IsJsonSpace_def IsAsciiDigit_def in_range_def byte_def)

lemma number_stop_chars: "number_stop (CHR '','' # s)" "number_stop (CHR '']'' # s)" "number_stop (CHR ''}'' # s)" "number_stop []"
  by (simp_all add: number_stop_def IsAsciiDigit_def in_range_def byte_def)

lemma array_complete:
  assumes "calm env"
  shows "array_items n ((a, v, b) # vs) \<Longrightarrow>
    (\<forall>(a, v, b)\<in>set ((a, v, b) # vs). value_complete env (depth + 1) v) \<Longrightarrow>
    yields (array_loop env depth) (items_text (([], v, b) # vs) @ CHR '']'' # s') () s'"
proof (induction vs arbitrary: a v b)
  case Nil
  obtain c t where v: "v = c # t" "\<not> IsJsonSpace c" "c \<noteq> CHR '']''" using Nil(1) json_text_first [of n v] by (auto simp: array_items_def)
  have b: "is_space b" using Nil by (simp add: array_items_def)
  have sv: "yields (SkipValue env (depth + 1)) (v @ b @ CHR '']'' # s') () (b @ CHR '']'' # s')"
    using Nil(2) value_completeD [OF _ stop_after_space [OF b number_stop_chars(2)]] by simp
  show ?case unfolding yields_def
  proof
    fix w
    obtain w1 where 1: "SkipValue env (depth + 1) (v @ b @ CHR '']'' # s') w = (Inr ((), b @ CHR '']'' # s'), w1)" using yieldsD [OF sv] by blast
    obtain w2 where 2: "separator env CHR '']'' (b @ CHR '']'' # s') w1 = (Inr ((), CHR '']'' # s'), w2)"
      using yieldsD [OF separator_end [OF assms b]] by (fastforce simp: IsJsonSpace_def)
    have 3: "fst (array_loop env depth (CHR '']'' # s') w2) = Inr ((), s')"
      using expect_complete [OF assms] by (simp add: array_loop.simps yields_def)
    from 1 2 3 v show "fst (array_loop env depth (items_text [([], v, b)] @ CHR '']'' # s') w) = Inr ((), s')"
      by (simp add: array_loop.simps [of env depth "c # t @ b @ CHR '']'' # s'"] items_text_def separator_readers)
  qed
next
  case (Cons x vs)
  obtain a1 v1 b1 where x: "x = (a1, v1, b1)" by (cases x)
  obtain c t where v: "v = c # t" "\<not> IsJsonSpace c" "c \<noteq> CHR '']''" using Cons.prems(1) json_text_first [of n v] by (auto simp: array_items_def)
  obtain c1 t1 where v1: "v1 = c1 # t1" "\<not> IsJsonSpace c1" "c1 \<noteq> CHR '']''"
    using Cons.prems(1) json_text_first [of n v1] x by (auto simp: array_items_def)
  have b: "is_space b" "is_space a1" using Cons.prems(1) x by (simp_all add: array_items_def)
  let ?r = "items_text (([], v1, b1) # vs) @ CHR '']'' # s'"
  have r: "items_text ((a1, v1, b1) # vs) = a1 @ items_text (([], v1, b1) # vs)" by (cases vs) (simp_all add: items_text_def)
  have pr: "Peek ?r = c1" using v1 by (cases vs) (simp_all add: items_text_def)
  have sv: "yields (SkipValue env (depth + 1)) (v @ b @ CHR '','' # a1 @ ?r) () (b @ CHR '','' # a1 @ ?r)"
    using Cons.prems(2) value_completeD [OF _ stop_after_space [OF b(1) number_stop_chars(1)]] by simp
  have ih: "yields (array_loop env depth) ?r () s'" by (rule Cons.IH [of a1]) (use Cons.prems x in \<open>auto simp: array_items_def\<close>)
  show ?case unfolding yields_def
  proof
    fix w
    obtain w1 where 1: "SkipValue env (depth + 1) (v @ b @ CHR '','' # a1 @ ?r) w = (Inr ((), b @ CHR '','' # a1 @ ?r), w1)"
      using yieldsD [OF sv] by blast
    obtain w2 where 2: "separator env CHR '']'' (b @ CHR '','' # a1 @ ?r) w1 = (Inr ((), ?r), w2)"
      using yieldsD [OF separator_more [OF assms b]] v1 pr by metis
    from 1 2 ih v r show "fst (array_loop env depth (items_text (([], v, b) # x # vs) @ CHR '']'' # s') w) = Inr ((), s')"
      by (simp add: array_loop.simps [of env depth "c # _"] items_cons x separator_readers yields_def)
  qed
qed

lemma string_text_peek: "Peek (string_text k @ s) = CHR 0x22"
  by (simp add: string_text_def)

lemma member_reads:
  assumes "calm env" and "list_all form_ok k" and "is_space d" and "yields (SkipValue env depth) u () t"
  obtains w1 w2 w3 w4 where "SkipString env (string_text k @ d @ CHR '':'' # u) w = (Inr ((), d @ CHR '':'' # u), w1)"
    "SkipWhitespace env (d @ CHR '':'' # u) w1 = (Inr ((), CHR '':'' # u), w2)"
    "Expect env CHR '':'' (CHR '':'' # u) w2 = (Inr ((), u), w3)" "SkipValue env depth u w3 = (Inr ((), t), w4)"
proof -
  obtain w1 where 1: "SkipString env (string_text k @ d @ CHR '':'' # u) w = (Inr ((), d @ CHR '':'' # u), w1)"
    using yieldsD [OF skip_string_complete [OF assms(1,2)]] by blast
  obtain w2 where 2: "SkipWhitespace env (d @ CHR '':'' # u) w1 = (Inr ((), CHR '':'' # u), w2)"
    using yieldsD [OF space_complete [OF assms(1,3), of "CHR '':'' # u"]] by (auto simp: IsJsonSpace_def)
  obtain w3 where 3: "Expect env CHR '':'' (CHR '':'' # u) w2 = (Inr ((), u), w3)" using yieldsD [OF expect_complete [OF assms(1)]] by blast
  obtain w4 where "SkipValue env depth u w3 = (Inr ((), t), w4)" using yieldsD [OF assms(4)] by blast
  with 1 2 3 show thesis by (rule that)
qed

lemma object_complete:
  assumes "calm env"
  shows "object_members n ((e, k, d, a, v, b) # ms) \<Longrightarrow>
    (\<forall>(e, k, d, a, v, b)\<in>set ((e, k, d, a, v, b) # ms). value_complete env (depth + 1) v) \<Longrightarrow>
    yields (object_loop env depth) (members_text (([], k, d, a, v, b) # ms) @ CHR ''}'' # s') () s'"
proof (induction ms arbitrary: e k d a v b)
  case Nil
  have ok: "list_all form_ok k" "is_space d" "is_space a" "is_space b" using Nil by (simp_all add: object_members_def)
  let ?t = "b @ CHR ''}'' # s'"
  have sv: "yields (SkipValue env (depth + 1)) (a @ v @ ?t) () ?t"
    using Nil(2) ok stop_after_space [OF ok(4) number_stop_chars(3)] by (simp add: value_complete_def)
  show ?case unfolding yields_def
  proof
    fix w
    obtain w1 w2 w3 w4 where m: "SkipString env (string_text k @ d @ CHR '':'' # a @ v @ ?t) w = (Inr ((), d @ CHR '':'' # a @ v @ ?t), w1)"
      "SkipWhitespace env (d @ CHR '':'' # a @ v @ ?t) w1 = (Inr ((), CHR '':'' # a @ v @ ?t), w2)"
      "Expect env CHR '':'' (CHR '':'' # a @ v @ ?t) w2 = (Inr ((), a @ v @ ?t), w3)"
      "SkipValue env (depth + 1) (a @ v @ ?t) w3 = (Inr ((), ?t), w4)"
      by (rule member_reads [OF assms ok(1,2) sv])
    obtain w5 where 2: "separator env CHR ''}'' ?t w4 = (Inr ((), CHR ''}'' # s'), w5)"
      using yieldsD [OF separator_end [OF assms ok(4)]] by (fastforce simp: IsJsonSpace_def)
    have 3: "fst (object_loop env depth (CHR ''}'' # s') w5) = Inr ((), s')"
      using expect_complete [OF assms] by (simp add: object_loop.simps yields_def)
    from m 2 3 show "fst (object_loop env depth (members_text [([], k, d, a, v, b)] @ CHR ''}'' # s') w) = Inr ((), s')"
      by (simp add: object_loop.simps [of env depth "string_text k @ _"] members_text_def separator_readers string_text_peek RequireObjectKey_def)
  qed
next
  case (Cons x ms)
  obtain e1 k1 d1 a1 v1 b1 where x: "x = (e1, k1, d1, a1, v1, b1)" by (cases x)
  have ok: "list_all form_ok k" "is_space d" "is_space a" "is_space b" "is_space e1" using Cons.prems(1) x by (simp_all add: object_members_def)
  let ?r = "members_text (([], k1, d1, a1, v1, b1) # ms) @ CHR ''}'' # s'"
  let ?t = "b @ CHR '','' # e1 @ ?r"
  have r: "members_text ((e1, k1, d1, a1, v1, b1) # ms) = e1 @ members_text (([], k1, d1, a1, v1, b1) # ms)"
    by (cases ms) (simp_all add: members_text_def)
  have pr: "Peek ?r = CHR 0x22" by (cases ms) (simp_all add: members_text_def string_text_peek)
  have sv: "yields (SkipValue env (depth + 1)) (a @ v @ ?t) () ?t"
    using Cons.prems(2) ok stop_after_space [OF ok(4) number_stop_chars(1)] by (simp add: value_complete_def)
  have ih: "yields (object_loop env depth) ?r () s'" by (rule Cons.IH [of e1]) (use Cons.prems x in \<open>auto simp: object_members_def\<close>)
  show ?case unfolding yields_def
  proof
    fix w
    obtain w1 w2 w3 w4 where m: "SkipString env (string_text k @ d @ CHR '':'' # a @ v @ ?t) w = (Inr ((), d @ CHR '':'' # a @ v @ ?t), w1)"
      "SkipWhitespace env (d @ CHR '':'' # a @ v @ ?t) w1 = (Inr ((), CHR '':'' # a @ v @ ?t), w2)"
      "Expect env CHR '':'' (CHR '':'' # a @ v @ ?t) w2 = (Inr ((), a @ v @ ?t), w3)"
      "SkipValue env (depth + 1) (a @ v @ ?t) w3 = (Inr ((), ?t), w4)"
      by (rule member_reads [OF assms ok(1,2) sv])
    obtain w5 where 2: "separator env CHR ''}'' ?t w4 = (Inr ((), ?r), w5)"
      using yieldsD [OF separator_more [OF assms ok(4,5), of ?r "CHR ''}''"]] pr by (auto simp: IsJsonSpace_def)
    from m 2 ih r show "fst (object_loop env depth (members_text (([], k, d, a, v, b) # x # ms) @ CHR ''}'' # s') w) = Inr ((), s')"
      by (simp add: object_loop.simps [of env depth "string_text k @ _"] members_cons x separator_readers yields_def string_text_peek RequireObjectKey_def)
  qed
qed

lemma bracket_complete:
  assumes "calm env" and "is_space c" and "is_space a" and "\<not> IsJsonSpace (Peek s1)" and "depth \<le> max_json_nesting env"
  shows "yields (array_loop env depth) s1 () s' \<Longrightarrow> yields (SkipValue env depth) (c @ CHR ''['' # a @ s1) () s'"
    and "yields (object_loop env depth) s1 () s' \<Longrightarrow> yields (SkipValue env depth) (c @ CHR ''{'' # a @ s1) () s'"
proof -
  have skip: "\<exists>w1. SkipWhitespace env (a @ s1) w = (Inr ((), s1), w1)" for w
    using yieldsD [OF space_complete [OF assms(1,3,4)]] by blast
  have expect: "Expect env e (e # a @ s1) w = (Inr ((), a @ s1), w\<lparr>checks := Suc (checks w)\<rparr>)" for e w
    by (simp add: Expect_def calm_Check [OF assms(1)])
  have pick: "fst (bindr (SkipWhitespace env (a @ s1) w) (\<lambda>_ s w. f s w)) = Inr ((), s')" if "yields f s1 () s'" for f :: "unit reading" and w
    using skip [of w] that by (auto simp: yields_def)
  show "yields (SkipValue env depth) (c @ CHR ''['' # a @ s1) () s'" if "yields (array_loop env depth) s1 () s'"
    by (rule yields_value [OF assms(1,2)]) (use assms(5) pick [OF that] in \<open>simp_all add: IsJsonSpace_def expect\<close>)
  show "yields (SkipValue env depth) (c @ CHR ''{'' # a @ s1) () s'" if "yields (object_loop env depth) s1 () s'"
    by (rule yields_value [OF assms(1,2)]) (use assms(5) pick [OF that] in \<open>simp_all add: IsJsonSpace_def expect\<close>)
qed

lemma close_complete:
  "calm env \<Longrightarrow> yields (array_loop env depth) (CHR '']'' # s') () s'" "calm env \<Longrightarrow> yields (object_loop env depth) (CHR ''}'' # s') () s'"
  using expect_complete by (simp_all add: array_loop.simps object_loop.simps yields_def)

lemma depth_next: "unat (d :: uint64) + Suc n \<le> unat m \<Longrightarrow> unat (d + 1) + n \<le> unat (m :: uint64)"
proof -
  assume le: "unat d + Suc n \<le> unat m"
  then have "d \<noteq> uint64_max" using unat_uint64_bound [of m] by (auto simp: word_unat_eq_iff)
  with le ticket_increment(2) [of d] show ?thesis by simp
qed

lemma skip_value_complete:
  assumes "calm env"
  shows "json_text n v \<Longrightarrow> unat depth + n \<le> unat (max_json_nesting env) \<Longrightarrow> value_complete env depth v"
proof (induction arbitrary: depth rule: json_text.induct)
  case (JsonString fs n)
  then show ?case unfolding value_complete_def
    by (intro allI impI yields_value [OF assms])
      (use skip_string_complete [OF assms] in \<open>auto simp: string_text_peek IsJsonSpace_def word_le_nat_alt yields_def\<close>)
next
  case (JsonNumber t n)
  obtain c u where t: "t = c # u" "c = CHR ''-'' \<or> IsAsciiDigit c" using number_nonempty [OF JsonNumber(1)] by (cases t) auto
  moreover from t(2) have "\<not> IsJsonSpace c" "c \<noteq> CHR 0x22" by (auto simp: IsJsonSpace_def IsAsciiDigit_def in_range_def byte_def)
  ultimately show ?case unfolding value_complete_def using JsonNumber
    by (intro allI impI yields_value [OF assms])
      (use skip_number_complete [OF assms JsonNumber(1)] in \<open>auto simp: word_le_nat_alt yields_def\<close>)
next
  case (JsonLiteral t n)
  then show ?case unfolding value_complete_def
    by (intro allI impI yields_value [OF assms])
      (use literal_complete [OF assms, of t] in \<open>auto simp: IsJsonSpace_def word_le_nat_alt yields_def\<close>)
next
  case (EmptyArray a n)
  then show ?case unfolding value_complete_def
    using bracket_complete(1) [OF assms _ EmptyArray(1) _ _ close_complete(1) [OF assms]] by (simp add: IsJsonSpace_def word_le_nat_alt)
next
  case (EmptyObject a n)
  then show ?case unfolding value_complete_def
    using bracket_complete(2) [OF assms _ EmptyObject(1) _ _ close_complete(2) [OF assms]] by (simp add: IsJsonSpace_def word_le_nat_alt)
next
  case (NonemptyArray vs n)
  have items: "array_items n vs" using NonemptyArray by (auto simp: array_items_def)
  obtain a v b us where vs: "vs = (a, v, b) # us" using NonemptyArray(1) by (cases vs) auto
  have all: "\<forall>(a, v, b)\<in>set ((a, v, b) # us). value_complete env (depth + 1) v"
    using NonemptyArray(2) depth_next [OF NonemptyArray(3)] vs by auto
  have sp: "is_space a" "json_text n v" using items vs by (simp_all add: array_items_def)
  from json_text_first [OF sp(2)] have peek: "\<not> IsJsonSpace (Peek (items_text (([], v, b) # us) @ CHR '']'' # s'))" for s'
    by (cases us) (auto simp: items_text_def)
  have split: "items_text vs = a @ items_text (([], v, b) # us)" using vs by (cases us) (simp_all add: items_text_def)
  show ?case unfolding value_complete_def items_text_def [symmetric]
  proof (intro allI impI)
    fix c s'
    assume "is_space c"
    from bracket_complete(1) [OF assms this sp(1) peek _ array_complete [OF assms items [unfolded vs] all]] NonemptyArray(3)
    show "yields (SkipValue env depth) (c @ (CHR ''['' # items_text vs @ '']'') @ s') () s'" by (simp add: split word_le_nat_alt)
  qed
next
  case (NonemptyObject ms n)
  have mems: "object_members n ms" using NonemptyObject unfolding object_members_def by fast
  obtain e k d a v b us where ms: "ms = (e, k, d, a, v, b) # us" using NonemptyObject(1) by (cases ms) auto
  have all: "\<forall>(e, k, d, a, v, b)\<in>set ((e, k, d, a, v, b) # us). value_complete env (depth + 1) v"
    using NonemptyObject(2) depth_next [OF NonemptyObject(3)] ms by fast
  have sp: "is_space e" using mems ms by (simp add: object_members_def)
  have peek: "\<not> IsJsonSpace (Peek (members_text (([], k, d, a, v, b) # us) @ CHR ''}'' # s'))" for s'
    by (cases us) (simp_all add: members_text_def string_text_peek IsJsonSpace_def)
  have split: "members_text ms = e @ members_text (([], k, d, a, v, b) # us)" using ms by (cases us) (simp_all add: members_text_def)
  show ?case unfolding value_complete_def members_text_def [symmetric]
  proof (intro allI impI)
    fix c s'
    assume "is_space c"
    from bracket_complete(2) [OF assms this sp peek _ object_complete [OF assms mems [unfolded ms] all]] NonemptyObject(3)
    show "yields (SkipValue env depth) (c @ (CHR ''{'' # members_text ms @ ''}'') @ s') () s'" by (simp add: split word_le_nat_alt)
  qed
qed

subsection \<open>Theorems\<close>

lemma document_sound:
  assumes "ValidateDocument env s w = (Inr (x, s'), w')" and "max_json_nesting env \<noteq> uint64_max"
  shows "s' = [] \<and> json_document (unat (max_json_nesting env)) s"
proof -
  from assms(1) obtain s1 w1 s2 w2 w3 where h: "SkipWhitespace env s w = (Inr ((), s1), w1)" "SkipValue env 0 s1 w1 = (Inr ((), s2), w2)"
    "SkipWhitespace env s2 w2 = (Inr ((), []), w3)" "s' = []"
    by (auto simp: ValidateDocument_def bindr_Inr split: if_splits)
  from space_sound [OF h(1)] obtain a where a: "is_space a" "s = a @ s1" by blast
  from readers_sound [OF assms(2)] h(2) have "value_read env 0 s1 s2" by blast
  then obtain b v where v: "is_space b" "s1 = b @ v @ s2" "json_text (unat (max_json_nesting env)) v" by (auto simp: value_read_def)
  from space_sound [OF h(3)] have "is_space s2" by auto
  with a v h(4) show ?thesis unfolding json_document_def by (intro conjI exI [of _ "a @ b"] exI [of _ v] exI [of _ s2]) simp_all
qed

lemma document_complete:
  assumes "calm env" and "json_document (unat (max_json_nesting env)) s"
  shows "\<exists>w'. ValidateDocument env s w = (Inr ((), []), w')"
proof -
  from assms(2) obtain a v b where s: "s = a @ v @ b" "is_space a" "is_space b" "json_text (unat (max_json_nesting env)) v"
    by (auto simp: json_document_def)
  from json_text_first [OF s(4)] have peek: "\<not> IsJsonSpace (Peek (v @ b))" by auto
  obtain w1 where 1: "SkipWhitespace env s w = (Inr ((), v @ b), w1)" using yieldsD [OF space_complete [OF assms(1) s(2) peek]] s(1) by blast
  have "number_stop b" using stop_after_space [OF s(3) number_stop_chars(4)] by simp
  then obtain w2 where 2: "SkipValue env 0 (v @ b) w1 = (Inr ((), b), w2)"
    using yieldsD [OF value_completeD [OF skip_value_complete [OF assms(1) s(4), of 0]]] by auto
  obtain w3 where 3: "SkipWhitespace env b w2 = (Inr ((), []), w3)"
    using yieldsD [OF space_complete [OF assms(1) s(3), of "[]"]] by (auto simp: IsJsonSpace_def)
  from 1 2 3 show ?thesis by (simp add: ValidateDocument_def)
qed


lemma sample_document: "json_document 2 ''[1, {} ]''"
proof -
  have "json_number ''1''" unfolding json_number_def
    by (rule exI [of _ "[]"], rule exI [of _ "''1''"], rule exI [of _ "[]"], rule exI [of _ "[]"])
      (simp add: is_integer_def is_digits_def is_fraction_def is_exponent_def IsAsciiDigit_def in_range_def byte_def)
  then have "json_text 1 ''1''" by (rule JsonNumber)
  moreover have "json_text 1 ''{}''" using EmptyObject [of "[]" 1] by (simp add: is_space_def)
  ultimately have "array_items 1 [([], ''1'', []), ('' '', ''{}'', '' '')]" by (simp add: array_items_def is_space_def IsJsonSpace_def)
  from json_array [OF this] have "json_text 2 ''[1, {} ]''" by (simp add: items_text_def numeral_2_eq_2)
  then show ?thesis unfolding json_document_def by (intro exI [of _ "[]"] exI [of _ "''[1, {} ]''"]) (simp add: is_space_def)
qed


text \<open>
  \<open>ParseNumberToken\<close> returns a number of the JSON grammar within its budget that is followed by no further digit, and it returns every
  such number when what follows cannot continue a number and nothing interrupts it; \<open>SkipNumber\<close> then accepts the same input.
\<close>

theorem number_token_exact:
  assumes "length s < 2 ^ 64"
  shows "(\<forall>t s' w'. ParseNumberToken env m field message s w = (Inr (t, s'), w') \<longrightarrow>
      json_number t \<and> s = t @ s' \<and> \<not> IsAsciiDigit (Peek s') \<and> length t \<le> unat m) \<and>
    (\<forall>t s'. calm env \<longrightarrow> json_number t \<longrightarrow> number_stop s' \<longrightarrow> s = t @ s' \<longrightarrow>
      (\<exists>w'. SkipNumber env s w = (Inr ((), s'), w')) \<and>
      (\<exists>w'. ParseNumberToken env m field message s w = (Inr (t, s'), w')) = (length t \<le> unat m))"
proof (intro conjI allI impI)
  fix t s'
  assume h: "calm env" "json_number t" "number_stop s'" "s = t @ s'"
  show "\<exists>w'. SkipNumber env s w = (Inr ((), s'), w')" using yieldsD [OF skip_number_complete [OF h(1-3)]] h(4) by blast
  show "(\<exists>w'. ParseNumberToken env m field message s w = (Inr (t, s'), w')) = (length t \<le> unat m)"
    using number_token_sound [OF _ assms] yieldsD [OF number_token_complete [OF h(1-3)]] h(4) by blast
qed (use number_token_sound [OF _ assms] in blast)+

theorem number_token_exact_witness:
  "json_number ''-0.5E+10'' \<and> (\<exists>w'. SkipNumber (plain_environment 0) ''-0.5E+10,'' new_world = (Inr ((), '',''), w'))"
proof -
  have "fst (ParseNumberToken (plain_environment 0) 16 ''f'' ''m'' ''-0.5E+10,'' new_world) = Inr (''-0.5E+10'', '','')" by code_simp
  then obtain w' where "ParseNumberToken (plain_environment 0) 16 ''f'' ''m'' ''-0.5E+10,'' new_world = (Inr (''-0.5E+10'', '',''), w')"
    by (metis eq_fst_iff)
  with number_token_exact [of "''-0.5E+10,''" "plain_environment 0" 16 "''f''" "''m''" new_world] plain_calm number_stop_chars(1)
  show ?thesis by auto
qed

end
