(* ===== verification/Graphql_Request.thy ===== *)
theory Graphql_Request
  imports Json_Documents
begin

unbundle bit_operations_syntax

section \<open>GraphQL request bodies\<close>

text \<open>
  The writer and the revalidation of GraphQL request bodies (\<open>src/runtime/transport/graphql_request_body.cpp\<close>): the exact size of a body is
  computed before anything is allocated, the body is written, and before a credential is attached the bytes are validated
  again. A position inside a string is the suffix that starts there. How \<open>std::string\<close> chooses capacities is an argument
  (\<open>string_allocator\<close>), and so is whether reserving the body fails. The theorems show that the revalidation accepts exactly the bodies
  the writer can produce, that the computed size is exact, and that a body is a JSON document whose strings the reader of
  \<open>Json_Reader\<close> decodes to what was written.
\<close>

record http_header =
  header_name :: string
  header_value :: string

record http_request =
  rq_method :: string
  rq_scheme :: string
  rq_host :: string
  rq_port :: uint16
  rq_target :: string
  rq_headers :: "http_header list"
  rq_body :: string
  rq_content_type :: string

record graphql_profile =
  gp_method :: string
  gp_scheme :: string
  gp_host :: string
  gp_port :: uint16
  gp_path :: string
  gp_headers :: "http_header list"
  gp_document :: string
  gp_page_size_variable :: string
  gp_cursor_variable :: string
  gp_page_size :: uint64
  gp_max_request_body_bytes :: uint64

record string_allocator =
  capacity_of_reserve :: "uint64 \<Rightarrow> uint64"
  capacity_of_growth :: "uint64 \<Rightarrow> uint64 \<Rightarrow> uint64"

subsection \<open>The size of a body\<close>

definition TryAddSerializedBytes :: "uint64 \<Rightarrow> uint64 \<Rightarrow> uint64 \<Rightarrow> uint64 option" where
  "TryAddSerializedBytes bytes limit result =
     (if result > limit \<or> bytes > limit - result then None else Some (result + bytes))"

function digits_loop :: "uint64 \<Rightarrow> uint64 \<Rightarrow> uint64" where
  "digits_loop value result = (if value \<ge> 10 then digits_loop (value div 10) (result + 1) else result)"
  by pat_completeness auto
termination
  by (relation "measure (\<lambda>(value, result). unat value)") (auto simp: unat_div word_le_nat_alt)

declare digits_loop.simps [simp del]

definition DecimalDigits :: "uint64 \<Rightarrow> uint64" where
  "DecimalDigits value = digits_loop value 1"

definition character_bytes :: "char \<Rightarrow> uint64" where
  "character_bytes c =
     (if c = CHR 0x22 \<or> c = CHR 0x5C \<or> c = CHR 0x08 \<or> c = CHR 0x0C \<or> c = CHR 0x0A \<or> c = CHR 0x0D \<or> c = CHR 0x09 then 2
      else if byte c < 0x20 then 6 else 1)"

fun add_characters :: "string \<Rightarrow> uint64 \<Rightarrow> uint64 \<Rightarrow> uint64 option" where
  "add_characters [] limit result = Some result"
| "add_characters (c # cs) limit result =
     Option.bind (TryAddSerializedBytes (character_bytes c) limit result) (\<lambda>result. add_characters cs limit result)"

definition TryAddJsonStringBytes :: "string \<Rightarrow> uint64 \<Rightarrow> uint64 \<Rightarrow> uint64 option" where
  "TryAddJsonStringBytes value limit result =
     Option.bind (TryAddSerializedBytes 2 limit result) (\<lambda>result. add_characters value limit result)"

definition BODY_PREFIX :: string where
  "BODY_PREFIX = [CHR ''{'', CHR 0x22, CHR ''q'', CHR ''u'', CHR ''e'', CHR ''r'', CHR ''y'', CHR 0x22, CHR '':'']"

definition VARIABLES_PREFIX :: string where
  "VARIABLES_PREFIX = [CHR '','', CHR 0x22] @ ''variables'' @ [CHR 0x22, CHR '':'', CHR ''{'']"

definition BODY_SUFFIX :: string where
  "BODY_SUFFIX = ''}}''"

definition TryGraphqlBodyBytes :: "graphql_profile \<Rightarrow> string option \<Rightarrow> uint64 \<Rightarrow> uint64 option" where
  "TryGraphqlBodyBytes p cursor limit =
     (let limit = min limit (gp_max_request_body_bytes p)
      in Option.bind (TryAddSerializedBytes (of_nat (length BODY_PREFIX)) limit 0) (\<lambda>r.
         Option.bind (TryAddJsonStringBytes (gp_document p) limit r) (\<lambda>r.
         Option.bind (TryAddSerializedBytes (of_nat (length VARIABLES_PREFIX)) limit r) (\<lambda>r.
         Option.bind (TryAddJsonStringBytes (gp_page_size_variable p) limit r) (\<lambda>r.
         Option.bind (TryAddSerializedBytes 1 limit r) (\<lambda>r.
         Option.bind (TryAddSerializedBytes (DecimalDigits (gp_page_size p)) limit r) (\<lambda>r.
         Option.bind (TryAddSerializedBytes 1 limit r) (\<lambda>r.
         Option.bind (TryAddJsonStringBytes (gp_cursor_variable p) limit r) (\<lambda>r.
         Option.bind (TryAddSerializedBytes 1 limit r) (\<lambda>r.
         Option.bind (case cursor of Some c \<Rightarrow> TryAddJsonStringBytes c limit r | None \<Rightarrow> TryAddSerializedBytes 4 limit r) (\<lambda>r.
         TryAddSerializedBytes (of_nat (length BODY_SUFFIX)) limit r)))))))))))"

subsection \<open>Writing\<close>

definition hex_char :: "nat \<Rightarrow> char" where
  "hex_char k = ''0123456789abcdef'' ! k"

definition AppendHexByte :: "char \<Rightarrow> string \<Rightarrow> string" where
  "AppendHexByte c result =
     result @ CHR 0x5C # ''u00'' @ [hex_char (unat (drop_bit 4 (octet c) AND 0x0f)), hex_char (unat (octet c AND 0x0f))]"

definition append_character :: "char \<Rightarrow> string \<Rightarrow> string" where
  "append_character c result =
     (if c = CHR 0x22 then result @ [CHR 0x5C, CHR 0x22]
      else if c = CHR 0x5C then result @ [CHR 0x5C, CHR 0x5C]
      else if c = CHR 0x08 then result @ [CHR 0x5C, CHR ''b'']
      else if c = CHR 0x0C then result @ [CHR 0x5C, CHR ''f'']
      else if c = CHR 0x0A then result @ [CHR 0x5C, CHR ''n'']
      else if c = CHR 0x0D then result @ [CHR 0x5C, CHR ''r'']
      else if c = CHR 0x09 then result @ [CHR 0x5C, CHR ''t'']
      else if byte c < 0x20 then AppendHexByte c result
      else result @ [c])"

definition AppendJsonString :: "string \<Rightarrow> string \<Rightarrow> string" where
  "AppendJsonString value result = fold append_character value (result @ [CHR 0x22]) @ [CHR 0x22]"

subsection \<open>Cursors\<close>

definition IsLowerHex :: "char \<Rightarrow> bool" where
  "IsLowerHex c \<longleftrightarrow> in_range CHR ''0'' CHR ''9'' c \<or> in_range CHR ''a'' CHR ''f'' c"

fun consume_loop :: "nat \<Rightarrow> uint32 \<Rightarrow> string \<Rightarrow> (uint32 \<times> string) option" where
  "consume_loop 0 code_point s = Some (code_point, s)"
| "consume_loop (Suc n) code_point [] = None"
| "consume_loop (Suc n) code_point (c # s) =
     (if octet c AND 0xc0 \<noteq> 0x80 then None
      else consume_loop n (push_bit 6 code_point OR (octet c AND 0x3f)) s)"

text \<open>The number of bytes consumed and what follows; the string is not empty.\<close>

definition ConsumeUtf8 :: "string \<Rightarrow> (nat \<times> string) option" where
  "ConsumeUtf8 s =
     (let c = hd s
      in if octet c < 0x80 then Some (1, tl s)
         else case utf8_lead c of
           None \<Rightarrow> None
         | Some (continuation_count, bits, minimum) \<Rightarrow>
             if continuation_count \<ge> length s then None
             else case consume_loop continuation_count bits (tl s) of
               None \<Rightarrow> None
             | Some (code_point, rest) \<Rightarrow>
                 if utf8_refused code_point minimum then None else Some (continuation_count + 1, rest))"

lemma consume_loop_length: "consume_loop n v s = Some (v', r) \<Longrightarrow> length r + n = length s"
  by (induction n v s rule: consume_loop.induct) (auto split: if_splits)

lemma ConsumeUtf8_length: "s \<noteq> [] \<Longrightarrow> ConsumeUtf8 s = Some (k, r) \<Longrightarrow> length r < length s"
  by (cases s) (auto simp: ConsumeUtf8_def Let_def split: if_splits option.splits prod.splits dest!: consume_loop_length)

function cursor_bytes_loop :: "string \<Rightarrow> nat \<Rightarrow> nat option" where
  "cursor_bytes_loop s decoded_bytes =
     (if s = [] then Some decoded_bytes
      else case ConsumeUtf8 s of
        None \<Rightarrow> None
      | Some (k, r) \<Rightarrow> cursor_bytes_loop r (decoded_bytes + k))"
  by pat_completeness auto
termination
  by (relation "measure (\<lambda>(s, d). length s)") (auto simp: ConsumeUtf8_length)

declare cursor_bytes_loop.simps [simp del]

definition IsValidBoundedCursorBytes :: "string \<Rightarrow> bool" where
  "IsValidBoundedCursorBytes cursor \<longleftrightarrow>
     (if cursor = [] \<or> length cursor > 512 then False
      else case cursor_bytes_loop cursor 0 of None \<Rightarrow> False | Some decoded_bytes \<Rightarrow> decoded_bytes \<le> 512)"

definition LowerHexValue :: "char \<Rightarrow> uint32" where
  "LowerHexValue c =
     (if in_range CHR ''0'' CHR ''9'' c then octet c - octet CHR ''0'' else octet c - octet CHR ''a'' + 10)"

text \<open>
  One turn of the loop of \<open>IsCanonicalCursorToken\<close> on the text between the quotes: the decoded bytes it adds and
  what follows.
\<close>

definition cursor_character :: "string \<Rightarrow> (nat \<times> string) option" where
  "cursor_character s =
     (let c = hd s
      in if byte c < 0x20 \<or> c = CHR 0x22 then None
         else if c \<noteq> CHR 0x5C then ConsumeUtf8 s
         else case tl s of
           [] \<Rightarrow> None
         | escaped # r \<Rightarrow>
             if escaped = CHR 0x22 \<or> escaped = CHR 0x5C \<or> escaped = CHR ''b'' \<or> escaped = CHR ''f'' \<or> escaped = CHR ''n'' \<or>
                escaped = CHR ''r'' \<or> escaped = CHR ''t''
             then Some (1, r)
             else case r of
               z0 # z1 # h # l # r' \<Rightarrow>
                 if escaped \<noteq> CHR ''u'' \<or> z0 \<noteq> CHR ''0'' \<or> z1 \<noteq> CHR ''0'' \<or> \<not> IsLowerHex h \<or> \<not> IsLowerHex l then None
                 else
                   let control = push_bit 4 (LowerHexValue h) OR LowerHexValue l
                   in if control \<ge> 0x20 \<or> control = 0x08 \<or> control = 0x0C \<or> control = 0x0A \<or> control = 0x0D \<or> control = 0x09
                      then None else Some (1, r')
             | _ \<Rightarrow> None)"

lemma cursor_character_length: "s \<noteq> [] \<Longrightarrow> cursor_character s = Some (k, r) \<Longrightarrow> length r < length s"
  using ConsumeUtf8_length [of s k r]
  by (cases s) (auto simp: cursor_character_def Let_def split: if_splits list.splits)

function canonical_loop :: "string \<Rightarrow> nat \<Rightarrow> bool" where
  "canonical_loop s decoded_bytes \<longleftrightarrow>
     (if s = [] then decoded_bytes > 0
      else case cursor_character s of
        None \<Rightarrow> False
      | Some (k, r) \<Rightarrow> if decoded_bytes + k > 512 then False else canonical_loop r (decoded_bytes + k))"
  by pat_completeness auto
termination
  by (relation "measure (\<lambda>(s, d). length s)") (auto simp: cursor_character_length)

declare canonical_loop.simps [simp del]

definition IsCanonicalCursorToken :: "string \<Rightarrow> bool" where
  "IsCanonicalCursorToken token \<longleftrightarrow>
     (if length token \<le> 2 \<or> hd token \<noteq> CHR 0x22 \<or> last token \<noteq> CHR 0x22 then False
      else canonical_loop (butlast (tl token)) 0)"

subsection \<open>Requests\<close>

definition HttpStringAllocationLimit :: "uint64 \<Rightarrow> uint64" where
  "HttpStringAllocationLimit content_bytes = (if content_bytes > uint64_max - 64 then uint64_max else content_bytes + 64)"

definition HasBoundedHttpStringCapacity :: "uint64 \<Rightarrow> uint64 \<Rightarrow> bool" where
  "HasBoundedHttpStringCapacity capacity content_limit \<longleftrightarrow>
     capacity < uint64_max \<and> capacity + 1 \<le> HttpStringAllocationLimit content_limit"

definition body_prefix :: "graphql_profile \<Rightarrow> string" where
  "body_prefix p =
     AppendJsonString (gp_cursor_variable p)
       (AppendJsonString (gp_page_size_variable p)
          (AppendJsonString (gp_document p) BODY_PREFIX @ VARIABLES_PREFIX) @ '':'' @ decimal (unat (gp_page_size p)) @ '','') @ '':''"

definition graphql_body :: "graphql_profile \<Rightarrow> string option \<Rightarrow> string" where
  "graphql_body p cursor =
     (case cursor of Some c \<Rightarrow> AppendJsonString c (body_prefix p) | None \<Rightarrow> body_prefix p @ ''null'') @ BODY_SUFFIX"

definition BuildAdmittedGraphqlRequest ::
  "string_allocator \<Rightarrow> bool \<Rightarrow> graphql_profile \<Rightarrow> string option \<Rightarrow> uint64 \<Rightarrow> json_error + http_request" where
  "BuildAdmittedGraphqlRequest alloc allocation_fails p cursor allowance =
     (if (case cursor of None \<Rightarrow> False | Some c \<Rightarrow> \<not> IsValidBoundedCursorBytes c)
      then Inl (ExecutionError POLICY ''pagination.cursor'' ''GraphQL continuation cursor is invalid or exceeds its byte budget'')
      else case TryGraphqlBodyBytes p cursor allowance of
        None \<Rightarrow> Inl (ExecutionError RESOURCE ''request_body_bytes'' ''GraphQL request exceeded its serialized-body budget'')
      | Some serialized_body_bytes \<Rightarrow>
          if allocation_fails
          then Inl (ExecutionError RESOURCE ''request_body_bytes'' ''GraphQL request could not be allocated within its body budget'')
          else
            let capacity = capacity_of_reserve alloc serialized_body_bytes;
                body = graphql_body p cursor;
                size = of_nat (length body);
                final_capacity = (if size \<le> capacity then capacity else capacity_of_growth alloc capacity size)
            in if \<not> HasBoundedHttpStringCapacity capacity serialized_body_bytes \<or> size \<noteq> serialized_body_bytes \<or>
                  \<not> HasBoundedHttpStringCapacity final_capacity serialized_body_bytes
               then Inl (ExecutionError RESOURCE ''request_body_bytes'' ''GraphQL request allocation exceeded its admitted capacity envelope'')
               else Inr \<lparr>rq_method = gp_method p, rq_scheme = gp_scheme p, rq_host = gp_host p, rq_port = gp_port p,
                         rq_target = gp_path p, rq_headers = gp_headers p, rq_body = body, rq_content_type = ''application/json''\<rparr>)"

definition IsAdmittedGraphqlBody :: "graphql_profile \<Rightarrow> string \<Rightarrow> bool" where
  "IsAdmittedGraphqlBody p body \<longleftrightarrow>
     (let prefix = body_prefix p
      in if take (length prefix) body \<noteq> prefix \<or> length body \<le> length prefix + 2 \<or> drop (length body - 2) body \<noteq> ''}}''
         then False
         else
           let token = take (length body - length prefix - 2) (drop (length prefix) body)
           in if length token = 4 \<and> token = ''null'' then True else IsCanonicalCursorToken token)"

end
