(* ===== verification/Graphql_Body.thy ===== *)
theory Graphql_Body
  imports Graphql_Request
begin

unbundle bit_operations_syntax

section \<open>Properties of GraphQL request bodies\<close>

text \<open>
  What \<open>Graphql_Request\<close> writes and accepts. The computed size of a body is its length, so a request is refused for its size
  exactly when its body is over the budget; the revalidation of a body accepts what the writer can write for the same profile and
  nothing else; the strings written are JSON strings that the reader of \<open>Json_Reader\<close> decodes to the bytes they were written
  from, and a body is a JSON document. Cursors are compared through \<open>cursor_ok\<close>: nonempty UTF-8 of at most 512 bytes.
\<close>

subsection \<open>What is written\<close>

definition json_char :: "char \<Rightarrow> string" where
  "json_char c = append_character c []"

definition json_string :: "string \<Rightarrow> string" where
  "json_string v = CHR 0x22 # concat (map json_char v) @ [CHR 0x22]"

lemma append_character_text: "append_character c r = r @ json_char c"
  by (simp add: json_char_def append_character_def AppendHexByte_def)

lemma append_characters: "fold append_character v r = r @ concat (map json_char v)"
  by (induction v arbitrary: r) (simp_all add: append_character_text)

lemma AppendJsonString_text: "AppendJsonString v r = r @ json_string v"
  by (simp add: AppendJsonString_def append_characters json_string_def)

subsection \<open>The computed size\<close>

definition adds :: "uint64 \<Rightarrow> (uint64 \<Rightarrow> uint64 option) \<Rightarrow> nat \<Rightarrow> bool" where
  "adds limit f n \<longleftrightarrow>
     (\<forall>r t. r \<le> limit \<longrightarrow> (f r = Some t \<longleftrightarrow> unat r + n \<le> unat limit \<and> unat t = unat r + n))"

lemma adds_bytes: "adds limit (TryAddSerializedBytes b limit) (unat b)"
proof -
  have "\<not> (r > limit \<or> b > limit - r) \<longleftrightarrow> unat r + unat b \<le> unat limit" for r
    by (cases "r \<le> limit") (auto simp: word_facts)
  moreover have "unat r + unat b \<le> unat limit \<Longrightarrow> unat (r + b) = unat r + unat b" for r
    using unat_uint64_bound [of limit] by (intro unat_add_uint64) simp
  ultimately show ?thesis by (auto simp: adds_def TryAddSerializedBytes_def word_unat_eq_iff)
qed

lemma adds_bind:
  assumes "adds limit f m" and "adds limit g n"
  shows "adds limit (\<lambda>r. Option.bind (f r) g) (m + n)"
  unfolding adds_def
proof (intro allI impI iffI)
  fix r t
  assume r: "r \<le> limit" and "Option.bind (f r) g = Some t"
  then obtain u where u: "f r = Some u" "g u = Some t" by (auto simp: bind_eq_Some_conv)
  with assms(1) r have "unat r + m \<le> unat limit" "unat u = unat r + m" by (simp_all add: adds_def)
  with assms(2) u show "unat r + (m + n) \<le> unat limit \<and> unat t = unat r + (m + n)" by (simp add: adds_def word_le_nat_alt)
next
  fix r t :: uint64
  assume r: "r \<le> limit" and h: "unat r + (m + n) \<le> unat limit \<and> unat t = unat r + (m + n)"
  define u where "u = (of_nat (unat r + m) :: uint64)"
  have u: "unat u = unat r + m" unfolding u_def using h unat_uint64_bound [of limit] by (simp add: unat_of_nat del: of_nat_add)
  with assms(1) r h have "f r = Some u" by (simp add: adds_def)
  moreover have "g u = Some t" using assms(2) u h by (simp add: adds_def word_le_nat_alt)
  ultimately show "Option.bind (f r) g = Some t" by simp
qed

lemma character_bytes_length: "unat (character_bytes c) = length (json_char c)"
  by (simp add: character_bytes_def json_char_def append_character_def AppendHexByte_def)

lemma adds_characters: "adds limit (add_characters v limit) (length (concat (map json_char v)))"
proof (induction v)
  case Nil
  show ?case by (auto simp: adds_def word_unat_eq_iff word_le_nat_alt)
next
  case (Cons c v)
  from adds_bind [OF adds_bytes [of limit "character_bytes c"] Cons] show ?case
    by (simp add: adds_def character_bytes_length)
qed

lemma adds_string: "adds limit (TryAddJsonStringBytes v limit) (length (json_string v))"
proof -
  have "adds limit (\<lambda>r. Option.bind (TryAddSerializedBytes 2 limit r) (add_characters v limit)) (unat (2 :: uint64) + length (concat (map json_char v)))"
    by (rule adds_bind [OF adds_bytes adds_characters])
  then show ?thesis by (simp add: adds_def TryAddJsonStringBytes_def json_string_def)
qed

lemma digits_loop_length: "unat r + length (decimal (unat v)) \<le> 18446744073709551615 \<Longrightarrow>
  unat (digits_loop v r) + 1 = unat r + length (decimal (unat v))"
proof (induction v r rule: digits_loop.induct)
  case (1 v r)
  show ?case
  proof (cases "v \<ge> 10")
    case True
    then have ge: "\<not> unat v < 10" by (simp add: word_le_nat_alt)
    then have d: "decimal (unat v) = decimal (unat v div 10) @ [digit_char (unat v mod 10)]" by (simp add: decimal.simps [of "unat v"])
    have u: "unat (v div 10) = unat v div 10" by (simp add: unat_div)
    have r: "unat (r + 1) = unat r + 1" using unat_add_uint64 [of r 1] "1.prems" d by simp
    have "unat (digits_loop (v div 10) (r + 1)) + 1 = unat (r + 1) + length (decimal (unat (v div 10)))"
      by (rule "1.IH" [OF True]) (use "1.prems" d u r in simp)
    with True d u r show ?thesis by (simp add: digits_loop.simps [of v])
  next
    case False
    then have "unat v < 10" by (simp add: word_le_nat_alt)
    then show ?thesis using False by (simp add: digits_loop.simps [of v] decimal.simps [of "unat v"])
  qed
qed

lemma decimal_digits_length: "unat (DecimalDigits v) = length (decimal (unat v))"
proof -
  have "length (decimal (unat v)) \<le> 20" using unat_uint64_bound [of v] by (intro decimal_length) simp_all
  then show ?thesis using digits_loop_length [of 1 v] by (simp add: DecimalDigits_def)
qed

lemma graphql_body_parts:
  "graphql_body p cursor = BODY_PREFIX @ json_string (gp_document p) @ VARIABLES_PREFIX @ json_string (gp_page_size_variable p) @ '':'' @
     decimal (unat (gp_page_size p)) @ '','' @ json_string (gp_cursor_variable p) @ '':'' @
     (case cursor of Some c \<Rightarrow> json_string c | None \<Rightarrow> ''null'') @ BODY_SUFFIX"
  by (simp add: graphql_body_def body_prefix_def AppendJsonString_text split: option.splits)

lemma body_bytes_exact:
  "TryGraphqlBodyBytes p cursor limit = Some n \<longleftrightarrow>
     length (graphql_body p cursor) \<le> unat (min limit (gp_max_request_body_bytes p)) \<and> unat n = length (graphql_body p cursor)"
proof -
  let ?l = "min limit (gp_max_request_body_bytes p)"
  have four: "unat (4 :: uint64) = length ''null''" by simp
  have c: "adds ?l (\<lambda>r. case cursor of Some c \<Rightarrow> TryAddJsonStringBytes c ?l r | None \<Rightarrow> TryAddSerializedBytes 4 ?l r)
    (length (case cursor of Some c \<Rightarrow> json_string c | None \<Rightarrow> ''null''))"
  proof (cases cursor)
    case None
    then show ?thesis using adds_bytes [of ?l 4] unfolding four by (simp only: option.case)
  qed (simp add: adds_string)
  have lits: "unat (of_nat (length BODY_PREFIX) :: uint64) = length BODY_PREFIX" "unat (of_nat (length VARIABLES_PREFIX) :: uint64) = length VARIABLES_PREFIX"
    "unat (of_nat (length BODY_SUFFIX) :: uint64) = length BODY_SUFFIX" "unat (1 :: uint64) = 1"
    by (simp_all add: BODY_PREFIX_def VARIABLES_PREFIX_def BODY_SUFFIX_def)
  note steps = adds_bytes [of ?l "of_nat (length BODY_PREFIX)", unfolded lits] adds_string [of ?l "gp_document p"]
    adds_bytes [of ?l "of_nat (length VARIABLES_PREFIX)", unfolded lits] adds_string [of ?l "gp_page_size_variable p"]
    adds_bytes [of ?l 1, unfolded lits] adds_bytes [of ?l "DecimalDigits (gp_page_size p)", unfolded decimal_digits_length]
    adds_bytes [of ?l 1, unfolded lits] adds_string [of ?l "gp_cursor_variable p"] adds_bytes [of ?l 1, unfolded lits] c
    adds_bytes [of ?l "of_nat (length BODY_SUFFIX)", unfolded lits]
  have "adds ?l (\<lambda>r. Option.bind (TryAddSerializedBytes (of_nat (length BODY_PREFIX)) ?l r) (\<lambda>r.
      Option.bind (TryAddJsonStringBytes (gp_document p) ?l r) (\<lambda>r.
      Option.bind (TryAddSerializedBytes (of_nat (length VARIABLES_PREFIX)) ?l r) (\<lambda>r.
      Option.bind (TryAddJsonStringBytes (gp_page_size_variable p) ?l r) (\<lambda>r.
      Option.bind (TryAddSerializedBytes 1 ?l r) (\<lambda>r.
      Option.bind (TryAddSerializedBytes (DecimalDigits (gp_page_size p)) ?l r) (\<lambda>r.
      Option.bind (TryAddSerializedBytes 1 ?l r) (\<lambda>r.
      Option.bind (TryAddJsonStringBytes (gp_cursor_variable p) ?l r) (\<lambda>r.
      Option.bind (TryAddSerializedBytes 1 ?l r) (\<lambda>r.
      Option.bind (case cursor of Some c \<Rightarrow> TryAddJsonStringBytes c ?l r | None \<Rightarrow> TryAddSerializedBytes 4 ?l r) (\<lambda>r.
      TryAddSerializedBytes (of_nat (length BODY_SUFFIX)) ?l r)))))))))))
    (length (graphql_body p cursor))"
  proof -
    have "length (graphql_body p cursor) = length BODY_PREFIX + (length (json_string (gp_document p)) + (length VARIABLES_PREFIX +
      (length (json_string (gp_page_size_variable p)) + (1 + (length (decimal (unat (gp_page_size p))) + (1 +
      (length (json_string (gp_cursor_variable p)) + (1 + (length (case cursor of Some c \<Rightarrow> json_string c | None \<Rightarrow> ''null'') +
      length BODY_SUFFIX)))))))))" by (simp add: graphql_body_parts)
    then show ?thesis by (simp only:) (intro adds_bind steps)
  qed
  from this [unfolded adds_def, rule_format, of 0 n] show ?thesis unfolding TryGraphqlBodyBytes_def Let_def by simp
qed
subsection \<open>Cursors\<close>

lemma consume_loop_Suc:
  "consume_loop (Suc n) v (c # s) = (if is_continuation c then consume_loop n (continuation_step v c) s else None)"
  by (simp add: is_continuation_def continuation_step_def)

lemma consume_loop_iff:
  "consume_loop n v s = Some (v', r) \<longleftrightarrow>
     (\<exists>bs. length bs = n \<and> list_all is_continuation bs \<and> s = bs @ r \<and> v' = foldl continuation_step v bs)"
proof (induction n arbitrary: v s)
  case (Suc n)
  show ?case
  proof (cases s)
    case (Cons c t)
    then show ?thesis unfolding Cons consume_loop_Suc using Suc by (auto simp: length_Suc_conv)
  qed auto
qed auto

lemma ConsumeUtf8_skips:
  "(\<exists>k. ConsumeUtf8 (c # s) = Some (k, r)) \<longleftrightarrow> (\<exists>w'. SkipUtf8 (plain_environment 0) c s new_world = (Inr ((), r), w'))"
proof -
  have loop: "(\<exists>w'. continuation_loop (plain_environment 0) n v s new_world = (Inr (v', r), w')) \<longleftrightarrow> consume_loop n v s = Some (v', r)" for n v v'
    unfolding consume_loop_iff
    using continuation_sound yieldsD [OF continuation_complete [OF plain_calm]] by blast
  show ?thesis
  proof (cases "octet c < 0x80")
    case True
    then show ?thesis by (auto simp: ConsumeUtf8_def SkipUtf8_def)
  next
    case False
    show ?thesis
    proof (cases "utf8_lead c")
      case None
      with False show ?thesis by (simp add: ConsumeUtf8_def SkipUtf8_def)
    next
      case (Some l)
      obtain n v m where l: "l = (n, v, m)" by (cases l)
      have "(\<exists>k. ConsumeUtf8 (c # s) = Some (k, r)) \<longleftrightarrow> (\<exists>v'. consume_loop n v s = Some (v', r) \<and> \<not> utf8_refused v' m)"
        using False Some l by (auto simp: ConsumeUtf8_def split: option.splits dest: consume_loop_length)
      also have "\<dots> \<longleftrightarrow> (\<exists>w'. SkipUtf8 (plain_environment 0) c s new_world = (Inr ((), r), w'))"
        using False Some l by (auto simp: SkipUtf8_def bindr_Inr loop [symmetric] split: if_splits)
      finally show ?thesis .
    qed
  qed
qed

lemma ConsumeUtf8_iff: "ConsumeUtf8 (c # s) = Some (k, r) \<longleftrightarrow> (\<exists>n. scalar_value n \<and> c # s = utf8_encode n @ r \<and> k = length (utf8_encode n))"
proof -
  have k: "k + length r = Suc (length s)" if "ConsumeUtf8 (c # s) = Some (k, r)" for k
    using that by (auto simp: ConsumeUtf8_def Let_def split: if_splits option.splits prod.splits dest!: consume_loop_length)
  have "(\<exists>k. ConsumeUtf8 (c # s) = Some (k, r)) \<longleftrightarrow> (\<exists>n. scalar_value n \<and> c # s = utf8_encode n @ r)"
    unfolding ConsumeUtf8_skips
  proof
    assume "\<exists>n. scalar_value n \<and> c # s = utf8_encode n @ r"
    then obtain n where n: "scalar_value n" "c # s = utf8_encode n @ r" by blast
    obtain bs where bs: "utf8_encode n = c # bs" "s = bs @ r" using n(2) utf8_nonempty [of n] by (cases "utf8_encode n") auto
    from yieldsD [OF SkipUtf8_complete [OF plain_calm n(1) bs(1)]] bs(2)
    show "\<exists>w'. SkipUtf8 (plain_environment 0) c s new_world = (Inr ((), r), w')" by blast
  qed (use SkipUtf8_sound in blast)
  moreover have "length (utf8_encode n) + length r = Suc (length s)" if "c # s = utf8_encode n @ r" for n
    using arg_cong [OF that, of length] by simp
  ultimately show ?thesis using k by (metis add_right_cancel)
qed

subsection \<open>Canonical text of a code point\<close>

definition canonical_form :: "nat \<Rightarrow> string_form" where
  "canonical_form n =
     (if n = 0x22 then Short CHR 0x22 else if n = 0x5C then Short CHR 0x5C else if n = 8 then Short CHR ''b''
      else if n = 12 then Short CHR ''f'' else if n = 10 then Short CHR ''n'' else if n = 13 then Short CHR ''r''
      else if n = 9 then Short CHR ''t''
      else if n < 0x20 then CodeUnit (''00'' @ [hex_char (n div 16), hex_char (n mod 16)])
      else Plain n)"

lemma hex_chars: "k < 16 \<Longrightarrow> IsHexDigit (hex_char k) \<and> IsLowerHex (hex_char k) \<and> hex_nat (hex_char k) = k \<and> unat (LowerHexValue (hex_char k)) = k"
proof -
  have "list_all (\<lambda>k. IsHexDigit (hex_char k) \<and> IsLowerHex (hex_char k) \<and> hex_nat (hex_char k) = k \<and> unat (LowerHexValue (hex_char k)) = k) [0..<16]"
    by code_simp
  then show "k < 16 \<Longrightarrow> ?thesis" by (simp add: list_all_iff)
qed

lemma canonical_form_value: "scalar_value n \<Longrightarrow> form_ok (canonical_form n) \<and> form_value (canonical_form n) = n"
proof (cases "n < 32 \<and> n \<noteq> 8 \<and> n \<noteq> 12 \<and> n \<noteq> 10 \<and> n \<noteq> 13 \<and> n \<noteq> 9")
  case True
  have "n div 16 < 16" "n mod 16 < 16" using True by auto
  note h = hex_chars [OF this(1)] hex_chars [OF this(2)]
  have "hex_nat CHR ''0'' = 0" "IsHexDigit CHR ''0''" by (simp_all add: hex_nat_def IsHexDigit_def IsAsciiDigit_def in_range_def byte_def)
  with True h show ?thesis by (simp add: canonical_form_def is_code_unit_def hex_number_def)
next
  case False
  assume "scalar_value n"
  with False show ?thesis by (auto simp: canonical_form_def escape_values_def)
qed

lemma special_bytes: "byte CHR 0x22 = 34" "byte CHR 0x5C = 92" "byte CHR 0x08 = 8" "byte CHR 0x0C = 12" "byte CHR 0x0A = 10"
  "byte CHR 0x0D = 13" "byte CHR 0x09 = 9"
  by (simp_all add: byte_def)

lemma json_char_high: "128 \<le> byte c \<Longrightarrow> json_char c = [c]"
proof -
  assume c: "128 \<le> byte c"
  then have "c \<noteq> d" if "byte d < 128" for d using that by auto
  from this [of "CHR 0x22"] this [of "CHR 0x5C"] this [of "CHR 0x08"] this [of "CHR 0x0C"] this [of "CHR 0x0A"] this [of "CHR 0x0D"]
    this [of "CHR 0x09"]
  show ?thesis using c by (simp add: json_char_def append_character_def special_bytes)
qed

lemma nibbles: "unat (drop_bit 4 (octet c) AND 0x0f) = byte c div 16" "unat (octet c AND 0x0f) = byte c mod 16"
proof -
  have "byte c div 16 < 16" using byte_less_256 [of c] by simp
  then show "unat (drop_bit 4 (octet c) AND 0x0f) = byte c div 16"
    unfolding low_mask_consts take_bit_eq_mask [symmetric] unat_low_bits unat_drop by (simp add: unat_octet)
qed (rule octet_low_bits)

lemma json_char_ascii: "n < 128 \<Longrightarrow> json_char (char_of n) = form_text (canonical_form n)"
proof -
  assume n: "n < 128"
  then have b: "byte (char_of n) = n" by (simp add: byte_char_of)
  have e: "char_of n = c \<longleftrightarrow> n = byte c" for c by (metis b byte_inject)
  show ?thesis using n b
    by (simp add: json_char_def append_character_def AppendHexByte_def canonical_form_def e nibbles utf8_ascii special_bytes)
qed

lemma utf8_high: "128 \<le> n \<Longrightarrow> scalar_value n \<Longrightarrow> list_all (\<lambda>c. 128 \<le> byte c) (utf8_encode n)"
proof -
  assume n: "128 \<le> n" "scalar_value n"
  then have top: "n \<le> 1114111" by (auto simp: scalar_value_def)
  consider "n < 2048" | "2048 \<le> n" "n < 65536" | "65536 \<le> n" by linarith
  then show ?thesis
  proof cases
    case 1
    then have "n div 64 < 32" by simp
    with 1 n show ?thesis by (simp add: utf8_two byte_char_of)
  next
    case 2
    then have "n div 4096 < 16" by simp
    with 2 show ?thesis by (simp add: utf8_three byte_char_of)
  next
    case 3
    then have "n div 262144 < 8" using top by simp
    with 3 top show ?thesis by (simp add: utf8_four byte_char_of)
  qed
qed

lemma json_chars_form: "scalar_value n \<Longrightarrow> concat (map json_char (utf8_encode n)) = form_text (canonical_form n)"
proof (cases "n < 128")
  case True
  then show ?thesis by (simp add: utf8_ascii json_char_ascii)
next
  case False
  assume "scalar_value n"
  with False utf8_high [of n] have "list_all (\<lambda>c. 128 \<le> byte c) (utf8_encode n)" by simp
  moreover have "list_all (\<lambda>c. 128 \<le> byte c) v \<Longrightarrow> concat (map json_char v) = v" for v
    by (induction v) (simp_all add: json_char_high)
  ultimately show ?thesis using False by (simp add: canonical_form_def)
qed

lemma json_string_forms:
  assumes "list_all scalar_value ns" and "v = concat (map utf8_encode ns)"
  shows "json_string v = string_text (map canonical_form ns) \<and> string_value (map canonical_form ns) = v \<and>
    list_all form_ok (map canonical_form ns)"
proof -
  have "concat (map json_char (concat (map utf8_encode ns))) = concat (map (form_text \<circ> canonical_form) ns)"
    using assms(1) by (induction ns) (simp_all add: json_chars_form)
  moreover have "concat (map (utf8_encode \<circ> form_value) (map canonical_form ns)) = concat (map utf8_encode ns)"
    using assms(1) by (induction ns) (simp_all add: canonical_form_value)
  ultimately show ?thesis using assms
    by (simp add: json_string_def string_text_def string_value_def list_all_iff canonical_form_value)
qed
lemma hex_char_byte: "k < 16 \<Longrightarrow> byte (hex_char k) = (if k < 10 then 48 + k else 87 + k)"
proof -
  have "list_all (\<lambda>k. byte (hex_char k) = (if k < 10 then 48 + k else 87 + k)) [0..<16]" by code_simp
  then show "k < 16 \<Longrightarrow> ?thesis" by (simp add: list_all_iff)
qed

lemma lower_hex: "IsLowerHex h \<Longrightarrow> \<exists>k<16. h = hex_char k"
proof -
  assume "IsLowerHex h"
  then have "48 \<le> byte h \<and> byte h \<le> 57 \<or> 97 \<le> byte h \<and> byte h \<le> 102"
    by (simp add: IsLowerHex_def in_range_def) (simp add: byte_def)
  then have "\<exists>k<16. byte h = byte (hex_char k)"
  proof (elim disjE conjE)
    assume "48 \<le> byte h" "byte h \<le> 57"
    then show ?thesis by (intro exI [of _ "byte h - 48"]) (simp add: hex_char_byte)
  next
    assume "97 \<le> byte h" "byte h \<le> 102"
    then have "\<not> byte h - 87 < 10" "byte h - 87 < 16" "87 + (byte h - 87) = byte h" by linarith+
    then show ?thesis by (intro exI [of _ "byte h - 87"]) (simp add: hex_char_byte)
  qed
  then show ?thesis by simp
qed

lemma control_value: "i < 16 \<Longrightarrow> j < 16 \<Longrightarrow> unat (push_bit 4 (LowerHexValue (hex_char i)) OR LowerHexValue (hex_char j)) = i * 16 + j"
  using or_low_bits [of "LowerHexValue (hex_char i)" 4 "LowerHexValue (hex_char j)"] hex_chars [of i] hex_chars [of j] by simp

text \<open>Code points that are written as themselves.\<close>

lemma canonical_plain: "canonical_form n = Plain n \<longleftrightarrow> 0x20 \<le> n \<and> n \<noteq> 0x22 \<and> n \<noteq> 0x5C"
  by (auto simp: canonical_form_def)

lemma cursor_character_plain:
  assumes "\<not> byte c < 0x20" and "c \<noteq> CHR 0x22" and "c \<noteq> CHR 0x5C"
  shows "cursor_character (c # s) = Some (k, r) \<longleftrightarrow>
    (\<exists>n. scalar_value n \<and> c # s = form_text (canonical_form n) @ r \<and> k = length (utf8_encode n))"
proof -
  have "cursor_character (c # s) = Some (k, r) \<longleftrightarrow> (\<exists>n. scalar_value n \<and> c # s = utf8_encode n @ r \<and> k = length (utf8_encode n))"
    using assms by (simp add: cursor_character_def ConsumeUtf8_iff)
  also have "\<dots> \<longleftrightarrow> (\<exists>n. scalar_value n \<and> c # s = form_text (canonical_form n) @ r \<and> k = length (utf8_encode n))"
  proof -
    have "c # s = utf8_encode n @ r \<longleftrightarrow> c # s = form_text (canonical_form n) @ r" if "scalar_value n" for n
    proof (cases "canonical_form n = Plain n")
      case False
      then have "n < 0x20 \<or> n = 0x22 \<or> n = 0x5C" by (auto simp: canonical_plain)
      then have "utf8_encode n = [char_of n]" "\<exists>t. form_text (canonical_form n) = CHR 0x5C # t"
        and "n < 0x20 \<or> char_of n = CHR 0x22 \<or> char_of n = CHR 0x5C"
        by (auto simp: utf8_ascii canonical_form_def intro: char_of_byte special_bytes)
      then show ?thesis using assms byte_char_of [of n] by auto
    qed simp
    then show ?thesis by blast
  qed
  finally show ?thesis .
qed

lemma cursor_character_escape:
  "cursor_character (CHR 0x5C # e # r) =
     (if e \<in> {CHR 0x22, CHR 0x5C, CHR ''b'', CHR ''f'', CHR ''n'', CHR ''r'', CHR ''t''} then Some (1, r)
      else case r of
        z0 # z1 # h # l # r' \<Rightarrow>
          if e \<noteq> CHR ''u'' \<or> z0 \<noteq> CHR ''0'' \<or> z1 \<noteq> CHR ''0'' \<or> \<not> IsLowerHex h \<or> \<not> IsLowerHex l then None
          else
            let control = push_bit 4 (LowerHexValue h) OR LowerHexValue l
            in if control \<ge> 0x20 \<or> control = 0x08 \<or> control = 0x0C \<or> control = 0x0A \<or> control = 0x0D \<or> control = 0x09
               then None else Some (1, r')
      | _ \<Rightarrow> None)"
  by (simp add: cursor_character_def special_bytes)

lemma escape_character_complete:
  assumes "canonical_form n \<noteq> Plain n"
  shows "cursor_character (form_text (canonical_form n) @ r) = Some (length (utf8_encode n), r)"
proof -
  have n: "n < 0x20 \<or> n = 0x22 \<or> n = 0x5C" using assms by (auto simp: canonical_plain)
  then have len: "length (utf8_encode n) = 1" by (auto simp: utf8_ascii)
  show ?thesis
  proof (cases "n < 32 \<and> n \<noteq> 8 \<and> n \<noteq> 12 \<and> n \<noteq> 10 \<and> n \<noteq> 13 \<and> n \<noteq> 9")
    case True
    have q: "n div 16 < 16" "n mod 16 < 16" using True by auto
    have "unat (push_bit 4 (LowerHexValue (hex_char (n div 16))) OR LowerHexValue (hex_char (n mod 16))) = n"
      using control_value [OF q] by simp
    with True hex_chars [OF q(1)] hex_chars [OF q(2)] len show ?thesis
      by (simp add: canonical_form_def cursor_character_escape Let_def word_unat_eq_iff word_le_nat_alt)
  next
    case False
    with n len show ?thesis by (auto simp: canonical_form_def cursor_character_escape)
  qed
qed

lemma escape_character_sound:
  assumes "cursor_character (CHR 0x5C # s) = Some (k, r)"
  shows "\<exists>n. scalar_value n \<and> CHR 0x5C # s = form_text (canonical_form n) @ r \<and> k = length (utf8_encode n)"
proof -
  from assms obtain e t where s: "s = e # t" by (cases s) (auto simp: cursor_character_def special_bytes)
  show ?thesis
  proof (cases "e \<in> {CHR 0x22, CHR 0x5C, CHR ''b'', CHR ''f'', CHR ''n'', CHR ''r'', CHR ''t''}")
    case True
    with assms s have "k = 1" "r = t" by (auto simp: cursor_character_escape)
    moreover have "\<exists>n \<in> {34, 92, 8, 12, 10, 13, 9}. form_text (canonical_form n) = [CHR 0x5C, e]"
      using True by (simp add: canonical_form_def) blast
    moreover have "n < 128 \<and> scalar_value n" if "n \<in> {34, 92, 8, 12, 10, 13, 9}" for n
      using that by (auto simp: scalar_value_def)
    ultimately show ?thesis using s by (metis append_Cons append_Nil utf8_ascii One_nat_def length_Cons list.size(3))
  next
    case False
    with assms s obtain h l t' where t: "t = CHR ''0'' # CHR ''0'' # h # l # t'" "e = CHR ''u''" "IsLowerHex h" "IsLowerHex l" "r = t'" "k = 1"
      and c: "\<not> (push_bit 4 (LowerHexValue h) OR LowerHexValue l \<ge> 0x20 \<or> push_bit 4 (LowerHexValue h) OR LowerHexValue l = 8 \<or>
        push_bit 4 (LowerHexValue h) OR LowerHexValue l = 12 \<or> push_bit 4 (LowerHexValue h) OR LowerHexValue l = 10 \<or>
        push_bit 4 (LowerHexValue h) OR LowerHexValue l = 13 \<or> push_bit 4 (LowerHexValue h) OR LowerHexValue l = 9)"
      by (auto simp: cursor_character_escape Let_def split: list.splits if_splits)
    from lower_hex [OF t(3)] lower_hex [OF t(4)] obtain i j where ij: "i < 16" "h = hex_char i" "j < 16" "l = hex_char j" by blast
    let ?n = "i * 16 + j"
    have "?n < 32" "?n \<noteq> 8" "?n \<noteq> 12" "?n \<noteq> 10" "?n \<noteq> 13" "?n \<noteq> 9"
      using c control_value [OF ij(1,3)] ij by (auto simp: word_unat_eq_iff word_le_nat_alt)
    moreover have "?n div 16 = i" "?n mod 16 = j" using ij by simp_all
    ultimately show ?thesis using s t ij by (intro exI [of _ ?n]) (simp add: canonical_form_def scalar_value_def utf8_ascii)
  qed
qed

lemma cursor_character_iff:
  assumes "s \<noteq> []"
  shows "cursor_character s = Some (k, r) \<longleftrightarrow>
    (\<exists>n. scalar_value n \<and> s = form_text (canonical_form n) @ r \<and> k = length (utf8_encode n))"
proof -
  obtain c t where s: "s = c # t" using assms by (cases s) auto
  consider "byte c < 0x20 \<or> c = CHR 0x22" | "c = CHR 0x5C" | "\<not> byte c < 0x20" "c \<noteq> CHR 0x22" "c \<noteq> CHR 0x5C" by blast
  then show ?thesis
  proof cases
    case 1
    have "c # t \<noteq> form_text (canonical_form n) @ r" if "scalar_value n" for n
    proof (cases "canonical_form n = Plain n")
      case True
      obtain d bs where d: "utf8_encode n = d # bs" using utf8_nonempty [of n] by (cases "utf8_encode n") auto
      with plain_first [OF that d] True canonical_form_value [OF that] 1 show ?thesis by auto
    next
      case False
      then have "\<exists>u. form_text (canonical_form n) = CHR 0x5C # u" by (auto simp: canonical_plain canonical_form_def)
      with 1 show ?thesis by (auto simp: special_bytes)
    qed
    moreover have "cursor_character s = None" using 1 s by (simp add: cursor_character_def)
    ultimately show ?thesis using s by auto
  next
    case 2
    have "cursor_character (CHR 0x5C # t) = Some (length (utf8_encode n), r)" if "scalar_value n" "CHR 0x5C # t = form_text (canonical_form n) @ r" for n
    proof (cases "canonical_form n = Plain n")
      case True
      obtain d bs where d: "utf8_encode n = d # bs" using utf8_nonempty [of n] by (cases "utf8_encode n") auto
      with plain_first [OF that(1) d] True canonical_form_value [OF that(1)] that(2) show ?thesis by auto
    next
      case False
      from escape_character_complete [OF this, of r] that(2) show ?thesis by simp
    qed
    with escape_character_sound [of t k r] s 2 show ?thesis by auto
  next
    case 3
    show ?thesis unfolding s by (rule cursor_character_plain [OF 3])
  qed
qed


definition canonical_text :: "nat list \<Rightarrow> string" where
  "canonical_text ns = concat (map (form_text \<circ> canonical_form) ns)"

definition utf8_text :: "nat list \<Rightarrow> string" where
  "utf8_text ns = concat (map utf8_encode ns)"

lemma canonical_text_simps: "canonical_text [] = []" "canonical_text (n # ns) = form_text (canonical_form n) @ canonical_text ns"
  by (simp_all add: canonical_text_def)

lemma utf8_text_simps: "utf8_text [] = []" "utf8_text (n # ns) = utf8_encode n @ utf8_text ns"
  by (simp_all add: utf8_text_def)

lemma valid_utf8_text: "valid_utf8 s \<longleftrightarrow> (\<exists>ns. list_all scalar_value ns \<and> s = utf8_text ns)"
  by (simp add: valid_utf8_def utf8_text_def)

lemma utf8_encode_length: "0 < length (utf8_encode n)"
  using utf8_nonempty [of n] by simp

lemma canonical_text_empty: "canonical_text ns = [] \<longleftrightarrow> ns = []"
proof (cases ns)
  case (Cons n ms)
  have "form_text (canonical_form n) \<noteq> []" by (auto simp: canonical_form_def utf8_nonempty)
  with Cons show ?thesis by (simp add: canonical_text_simps)
qed (simp add: canonical_text_simps)

lemma utf8_text_length: "0 < length (utf8_text ns) \<longleftrightarrow> ns \<noteq> []"
  using utf8_nonempty by (cases ns) (simp_all add: utf8_text_simps)

lemma json_string_text:
  "list_all scalar_value ns \<Longrightarrow> json_string (utf8_text ns) = CHR 0x22 # canonical_text ns @ [CHR 0x22]"
  using json_string_forms [of ns "utf8_text ns"] by (simp add: utf8_text_def canonical_text_def string_text_def)

lemma canonical_loop_iff:
  "d \<le> 512 \<Longrightarrow> canonical_loop s d \<longleftrightarrow>
     (\<exists>ns. list_all scalar_value ns \<and> s = canonical_text ns \<and> 0 < d + length (utf8_text ns) \<and> d + length (utf8_text ns) \<le> 512)"
proof (induction s d rule: canonical_loop.induct)
  case (1 s d)
  show ?case
  proof (cases "s = []")
    case True
    have "canonical_loop s d \<longleftrightarrow> 0 < d" unfolding True by (subst canonical_loop.simps) simp
    moreover have "s = canonical_text ns \<longleftrightarrow> ns = []" for ns using canonical_text_empty [of ns] True by auto
    ultimately show ?thesis using "1.prems" by (auto simp: utf8_text_simps)
  next
    case False
    show ?thesis
    proof
      assume "canonical_loop s d"
      with False obtain k r where c: "cursor_character s = Some (k, r)" "d + k \<le> 512" "canonical_loop r (d + k)"
        by (subst (asm) canonical_loop.simps) (auto split: option.splits if_splits)
      from c(1) cursor_character_iff [OF False] obtain n where n: "scalar_value n" "s = form_text (canonical_form n) @ r" "k = length (utf8_encode n)"
        by blast
      have "\<not> d + k > 512" using c(2) by simp
      from iffD1 [OF "1.IH" [OF False c(1) refl this c(2)] c(3)] obtain ns where ns: "list_all scalar_value ns" "r = canonical_text ns"
        "d + k + length (utf8_text ns) \<le> 512" by blast
      have "d + length (utf8_text (n # ns)) \<le> 512" using ns n by (simp add: utf8_text_simps)
      moreover have "0 < d + length (utf8_text (n # ns))" using utf8_encode_length [of n] by (simp add: utf8_text_simps)
      moreover have "s = canonical_text (n # ns)" using ns n by (simp add: canonical_text_simps)
      moreover have "list_all scalar_value (n # ns)" using ns n by simp
      ultimately show "\<exists>ns. list_all scalar_value ns \<and> s = canonical_text ns \<and> 0 < d + length (utf8_text ns) \<and> d + length (utf8_text ns) \<le> 512"
        by blast
    next
      assume "\<exists>ns. list_all scalar_value ns \<and> s = canonical_text ns \<and> 0 < d + length (utf8_text ns) \<and> d + length (utf8_text ns) \<le> 512"
      then obtain ns where ns: "list_all scalar_value ns" "s = canonical_text ns" "d + length (utf8_text ns) \<le> 512" by blast
      from False ns(2) obtain n ms where m: "ns = n # ms" by (cases ns) (auto simp: canonical_text_simps)
      let ?k = "length (utf8_encode n)"
      have c: "cursor_character s = Some (?k, canonical_text ms)"
        using cursor_character_iff [OF False] ns(1,2) m by (auto simp: canonical_text_simps)
      have k: "d + ?k + length (utf8_text ms) \<le> 512" "list_all scalar_value ms" using ns m by (simp_all add: utf8_text_simps)
      then have le: "d + ?k \<le> 512" "\<not> d + ?k > 512" by simp_all
      have "canonical_loop (canonical_text ms) (d + ?k)"
        using "1.IH" [OF False c refl le(2,1)] k utf8_encode_length [of n] by blast
      with c False le show "canonical_loop s d" by (subst canonical_loop.simps) simp
    qed
  qed
qed

definition cursor_ok :: "string option \<Rightarrow> bool" where
  "cursor_ok cursor \<longleftrightarrow> (case cursor of None \<Rightarrow> True | Some c \<Rightarrow> c \<noteq> [] \<and> length c \<le> 512 \<and> valid_utf8 c)"

lemma cursor_bytes_iff: "cursor_bytes_loop s d = Some t \<longleftrightarrow> valid_utf8 s \<and> t = d + length s"
proof (induction s d rule: cursor_bytes_loop.induct)
  case (1 s d)
  show ?case
  proof (cases "s = []")
    case True
    have "valid_utf8 []" unfolding valid_utf8_text by (rule exI [of _ "[]"]) (simp add: utf8_text_simps)
    with True show ?thesis by (auto simp: cursor_bytes_loop.simps)
  next
    case False
    then obtain c u where cu: "s = c # u" by (cases s) auto
    show ?thesis
    proof
      assume "cursor_bytes_loop s d = Some t"
      with False obtain k r where c: "ConsumeUtf8 s = Some (k, r)" "cursor_bytes_loop r (d + k) = Some t"
        by (subst (asm) cursor_bytes_loop.simps) (auto split: option.splits)
      from c(1) cu obtain n where n: "scalar_value n" "s = utf8_encode n @ r" "k = length (utf8_encode n)"
        by (auto simp: ConsumeUtf8_iff)
      from iffD1 [OF "1.IH" [OF False c(1) refl] c(2)] obtain ns where "list_all scalar_value ns" "r = utf8_text ns" "t = d + k + length r"
        unfolding valid_utf8_text by blast
      with n show "valid_utf8 s \<and> t = d + length s"
        unfolding valid_utf8_text by (intro conjI exI [of _ "n # ns"]) (simp_all add: utf8_text_simps)
    next
      assume v: "valid_utf8 s \<and> t = d + length s"
      then obtain ns where ns: "list_all scalar_value ns" "s = utf8_text ns" unfolding valid_utf8_text by blast
      from False ns(2) obtain n ms where m: "ns = n # ms" by (cases ns) (auto simp: utf8_text_simps)
      have split: "scalar_value n" "s = utf8_encode n @ utf8_text ms" "list_all scalar_value ms" using ns m by (simp_all add: utf8_text_simps)
      have c: "ConsumeUtf8 s = Some (length (utf8_encode n), utf8_text ms)" using split(1,2) unfolding cu ConsumeUtf8_iff by blast
      have "valid_utf8 (utf8_text ms)" unfolding valid_utf8_text using split(3) by blast
      moreover have "t = d + length (utf8_encode n) + length (utf8_text ms)" using v split(2) by simp
      ultimately have "cursor_bytes_loop (utf8_text ms) (d + length (utf8_encode n)) = Some t"
        using "1.IH" [OF False c refl] by blast
      with c False show "cursor_bytes_loop s d = Some t" by (subst cursor_bytes_loop.simps) simp
    qed
  qed
qed

lemma valid_cursor_iff: "IsValidBoundedCursorBytes c \<longleftrightarrow> cursor_ok (Some c)"
proof (cases "cursor_bytes_loop c 0")
  case None
  then have "\<not> valid_utf8 c" using cursor_bytes_iff [of c 0 "length c"] by simp
  with None show ?thesis by (auto simp: IsValidBoundedCursorBytes_def cursor_ok_def)
next
  case (Some t)
  then have "valid_utf8 c \<and> t = length c" using cursor_bytes_iff [of c 0 t] by simp
  with Some show ?thesis by (auto simp: IsValidBoundedCursorBytes_def cursor_ok_def)
qed

lemma quoted_token: "2 < length t \<and> hd t = q \<and> last t = q \<longleftrightarrow> (\<exists>u. t = q # u @ [q] \<and> u \<noteq> [])"
proof
  assume t: "2 < length t \<and> hd t = q \<and> last t = q"
  then obtain v where v: "t = q # v" "v \<noteq> []" "last v = q" by (cases t) (auto split: if_splits)
  then obtain u where "v = u @ [q]" by (metis append_butlast_last_id)
  with v t show "\<exists>u. t = q # u @ [q] \<and> u \<noteq> []" by auto
qed (auto simp: Suc_lessI)

lemma canonical_token_iff: "IsCanonicalCursorToken t \<longleftrightarrow> (\<exists>c. cursor_ok (Some c) \<and> t = json_string c)"
proof -
  have "IsCanonicalCursorToken t \<longleftrightarrow> (\<exists>u. t = CHR 0x22 # u @ [CHR 0x22] \<and> u \<noteq> [] \<and> canonical_loop u 0)"
  proof (cases "2 < length t \<and> hd t = CHR 0x22 \<and> last t = CHR 0x22")
    case True
    then obtain u where u: "t = CHR 0x22 # u @ [CHR 0x22]" "u \<noteq> []" unfolding quoted_token by blast
    with True show ?thesis by (auto simp: IsCanonicalCursorToken_def)
  next
    case False
    then have "\<not> IsCanonicalCursorToken t" by (auto simp: IsCanonicalCursorToken_def)
    with False show ?thesis unfolding quoted_token by blast
  qed
  also have "\<dots> \<longleftrightarrow> (\<exists>ns. list_all scalar_value ns \<and> t = CHR 0x22 # canonical_text ns @ [CHR 0x22] \<and> ns \<noteq> [] \<and> length (utf8_text ns) \<le> 512)"
    using canonical_loop_iff [of 0] utf8_text_length canonical_text_empty by fastforce
  also have "\<dots> \<longleftrightarrow> (\<exists>ns. list_all scalar_value ns \<and> t = json_string (utf8_text ns) \<and> utf8_text ns \<noteq> [] \<and> length (utf8_text ns) \<le> 512)"
    using json_string_text utf8_text_length by fastforce
  also have "\<dots> \<longleftrightarrow> (\<exists>c. cursor_ok (Some c) \<and> t = json_string c)" by (auto simp: cursor_ok_def valid_utf8_text)
  finally show ?thesis .
qed

subsection \<open>Revalidation, errors and round trips\<close>

text \<open>
  C6. The revalidation before a credential is attached accepts exactly the bodies the writer produces for the profile: a body is admitted
  if and only if it is the serialization of the profile with no cursor or with a nonempty UTF-8 cursor of at most 512 bytes. No other
  spelling of the same JSON (another escape, a space, a raw control character) is admitted.
\<close>

theorem revalidation_exact:
  "IsAdmittedGraphqlBody p body \<longleftrightarrow> (\<exists>cursor. cursor_ok cursor \<and> body = graphql_body p cursor)"
proof -
  let ?tokens = "\<lambda>t. t = ''null'' \<or> IsCanonicalCursorToken t"
  have ne: "t \<noteq> []" if "?tokens t" for t using that by (auto simp: IsCanonicalCursorToken_def)
  have "IsAdmittedGraphqlBody p body \<longleftrightarrow> (\<exists>t. ?tokens t \<and> body = body_prefix p @ t @ ''}}'')"
  proof (cases "\<exists>t. body = body_prefix p @ t @ ''}}''")
    case True
    then obtain t where "body = body_prefix p @ t @ ''}}''" by blast
    with ne [of t] show ?thesis by (auto simp: IsAdmittedGraphqlBody_def Let_def)
  next
    case False
    have "\<not> IsAdmittedGraphqlBody p body"
    proof
      assume "IsAdmittedGraphqlBody p body"
      then have b: "take (length (body_prefix p)) body = body_prefix p" "length (body_prefix p) + 2 < length body"
        "drop (length body - 2) body = ''}}''" by (auto simp: IsAdmittedGraphqlBody_def Let_def split: if_splits)
      let ?rest = "drop (length (body_prefix p)) body"
      have "body = body_prefix p @ ?rest" using append_take_drop_id [of "length (body_prefix p)" body] b(1) by simp
      moreover have "?rest = take (length ?rest - 2) ?rest @ drop (length body - 2) body"
      proof -
        have "drop (length ?rest - 2) ?rest = drop (length body - 2) body" using b(2) by simp
        then show ?thesis by (metis append_take_drop_id)
      qed
      ultimately show False using False b(3) by metis
    qed
    with False show ?thesis by blast
  qed
  also have "\<dots> \<longleftrightarrow> (\<exists>cursor. cursor_ok cursor \<and> body = body_prefix p @ (case cursor of Some c \<Rightarrow> json_string c | None \<Rightarrow> ''null'') @ ''}}'')"
    unfolding canonical_token_iff by (auto simp: split_option_ex cursor_ok_def)
  also have "\<dots> \<longleftrightarrow> (\<exists>cursor. cursor_ok cursor \<and> body = graphql_body p cursor)"
    by (auto simp: graphql_body_def AppendJsonString_text BODY_SUFFIX_def split: option.splits)
  finally show ?thesis .
qed

definition cursor_refused :: json_error where
  "cursor_refused = ExecutionError POLICY ''pagination.cursor'' ''GraphQL continuation cursor is invalid or exceeds its byte budget''"

definition body_refused :: "string \<Rightarrow> json_error" where
  "body_refused message = ExecutionError RESOURCE ''request_body_bytes'' message"

text \<open>
  C31. The outcome of building a request, on every branch, for a string library whose \<open>reserve(n)\<close> gives a capacity of at least \<open>n\<close>: the
  cursor is refused exactly when it is empty, over 512 bytes or not UTF-8; the size exactly when the body to be written is longer than
  both budgets allow, before anything is allocated; then come a failed allocation and a capacity above the envelope; otherwise the
  request carries that body. The check that the written size is the computed one never fires.
\<close>

theorem request_outcome:
  assumes "\<forall>n. n \<le> capacity_of_reserve a n"
  shows "BuildAdmittedGraphqlRequest a fails p cursor allowance =
    (let body = graphql_body p cursor
     in if \<not> cursor_ok cursor then Inl cursor_refused
        else if length body > unat (min allowance (gp_max_request_body_bytes p))
        then Inl (body_refused ''GraphQL request exceeded its serialized-body budget'')
        else if fails then Inl (body_refused ''GraphQL request could not be allocated within its body budget'')
        else if \<not> HasBoundedHttpStringCapacity (capacity_of_reserve a (of_nat (length body))) (of_nat (length body))
        then Inl (body_refused ''GraphQL request allocation exceeded its admitted capacity envelope'')
        else Inr \<lparr>rq_method = gp_method p, rq_scheme = gp_scheme p, rq_host = gp_host p, rq_port = gp_port p, rq_target = gp_path p,
                  rq_headers = gp_headers p, rq_body = body, rq_content_type = ''application/json''\<rparr>)"
proof (cases "TryGraphqlBodyBytes p cursor allowance")
  case None
  have "\<not> length (graphql_body p cursor) \<le> unat (min allowance (gp_max_request_body_bytes p))"
  proof
    assume l: "length (graphql_body p cursor) \<le> unat (min allowance (gp_max_request_body_bytes p))"
    then have "unat (of_nat (length (graphql_body p cursor)) :: uint64) = length (graphql_body p cursor)"
      using unat_uint64_bound [of "min allowance (gp_max_request_body_bytes p)"] by (simp add: unat_of_nat)
    with l None body_bytes_exact [of p cursor allowance] show False by simp
  qed
  with None show ?thesis
    by (cases cursor) (simp_all add: BuildAdmittedGraphqlRequest_def Let_def valid_cursor_iff cursor_refused_def body_refused_def cursor_ok_def)
next
  case (Some n)
  from Some body_bytes_exact [of p cursor allowance n]
  have l: "length (graphql_body p cursor) \<le> unat (min allowance (gp_max_request_body_bytes p))" and n: "unat n = length (graphql_body p cursor)"
    by simp_all
  from n have n': "(of_nat (length (graphql_body p cursor)) :: uint64) = n" by (simp add: n [symmetric])
  have c: "n \<le> capacity_of_reserve a n" using assms by blast
  have ok: "(case cursor of None \<Rightarrow> False | Some c \<Rightarrow> \<not> IsValidBoundedCursorBytes c) \<longleftrightarrow> \<not> cursor_ok cursor"
    by (cases cursor) (simp_all add: valid_cursor_iff cursor_ok_def)
  show ?thesis
    unfolding BuildAdmittedGraphqlRequest_def ok using Some l c by (simp add: Let_def n' cursor_refused_def body_refused_def not_less)
qed

definition sample_allocator :: string_allocator where
  "sample_allocator = \<lparr>capacity_of_reserve = (\<lambda>n. max n 15), capacity_of_growth = (\<lambda>c n. max n (2 * c))\<rparr>"

definition sample_profile :: graphql_profile where
  "sample_profile = \<lparr>gp_method = ''POST'', gp_scheme = ''https'', gp_host = ''h'', gp_port = 443, gp_path = ''/g'', gp_headers = [],
     gp_document = ''query'', gp_page_size_variable = ''n'', gp_cursor_variable = ''c'', gp_page_size = 25, gp_max_request_body_bytes = 60\<rparr>"

theorem request_outcome_witness:
  "BuildAdmittedGraphqlRequest sample_allocator False sample_profile None 40 =
     Inl (body_refused ''GraphQL request exceeded its serialized-body budget'') \<and>
   BuildAdmittedGraphqlRequest sample_allocator False sample_profile (Some []) 60 = Inl cursor_refused"
proof -
  have a: "\<forall>n. n \<le> capacity_of_reserve sample_allocator n" by (simp add: sample_allocator_def)
  have "length (graphql_body sample_profile None) = 47" by code_simp
  moreover have "unat (min 40 (gp_max_request_body_bytes sample_profile)) = 40" by (simp add: sample_profile_def)
  moreover have "cursor_ok None" "\<not> cursor_ok (Some [])" by (simp_all add: cursor_ok_def)
  ultimately show ?thesis using request_outcome [OF a, of False sample_profile None 40] request_outcome [OF a, of False sample_profile "Some []" 60]
    by simp
qed

lemma written_string:
  assumes "valid_utf8 v"
  obtains fs where "list_all form_ok fs" and "json_string v = string_text fs" and "string_value fs = v"
  using assms json_string_forms unfolding valid_utf8_def by blast


lemma json_number_decimal: "json_number (decimal n)"
proof -
  have "is_integer (decimal n)"
    using canonical_decimal [of n]
    by (cases "decimal n") (auto simp: canonical_digits_def is_integer_def is_digits_def list_all_iff)
  then show ?thesis unfolding json_number_def
    by (intro exI [of _ "[]"] exI [of _ "decimal n"]) (simp add: is_fraction_def is_exponent_def)
qed

lemma body_is_document:
  assumes "valid_utf8 (gp_document p)" and "valid_utf8 (gp_page_size_variable p)" and "valid_utf8 (gp_cursor_variable p)" and "cursor_ok cursor"
  shows "json_document (Suc (Suc n)) (graphql_body p cursor)"
proof -
  have literals: "valid_utf8 ''query''" "valid_utf8 ''variables''"
  proof -
    have "IsValidBoundedCursorBytes ''query''" "IsValidBoundedCursorBytes ''variables''" by code_simp+
    then show "valid_utf8 ''query''" "valid_utf8 ''variables''" by (simp_all add: valid_cursor_iff cursor_ok_def)
  qed
  obtain q where q: "list_all form_ok q" "json_string ''query'' = string_text q" by (rule written_string [OF literals(1)])
  obtain v where v: "list_all form_ok v" "json_string ''variables'' = string_text v" by (rule written_string [OF literals(2)])
  obtain d where d: "list_all form_ok d" "json_string (gp_document p) = string_text d" by (rule written_string [OF assms(1)])
  obtain s where s: "list_all form_ok s" "json_string (gp_page_size_variable p) = string_text s" by (rule written_string [OF assms(2)])
  obtain c where c: "list_all form_ok c" "json_string (gp_cursor_variable p) = string_text c" by (rule written_string [OF assms(3)])
  let ?cursor = "case cursor of Some c \<Rightarrow> json_string c | None \<Rightarrow> ''null''"
  have cursor: "json_text n ?cursor"
  proof (cases cursor)
    case None
    then show ?thesis by (simp add: JsonLiteral)
  next
    case (Some x)
    with assms(4) have "valid_utf8 x" by (simp add: cursor_ok_def)
    then obtain f where "list_all form_ok f" "json_string x = string_text f" by (rule written_string)
    with Some show ?thesis by (simp add: JsonString)
  qed
  let ?inner = "[([], s, [], [], decimal (unat (gp_page_size p)), []), ([], c, [], [], ?cursor, [])]"
  let ?vars = "CHR ''{'' # members_text ?inner @ ''}''"
  have "object_members n ?inner"
    using s(1) c(1) cursor json_number_decimal by (simp add: object_members_def is_space_def JsonNumber)
  from json_object [OF this] have vars: "json_text (Suc n) ?vars" .
  let ?outer = "[([], q, [], [], string_text d, []), ([], v, [], [], ?vars, [])]"
  have "object_members (Suc n) ?outer" using q(1) d(1) v(1) vars by (simp add: object_members_def is_space_def JsonString)
  from json_object [OF this] have whole: "json_text (Suc (Suc n)) (CHR ''{'' # members_text ?outer @ ''}'')" .
  have quoted: "string_text q = CHR 0x22 # ''query'' @ [CHR 0x22]" "string_text v = CHR 0x22 # ''variables'' @ [CHR 0x22]"
    unfolding q(2) [symmetric] v(2) [symmetric] by code_simp+
  have "graphql_body p cursor = CHR ''{'' # members_text ?outer @ ''}''"
    unfolding graphql_body_parts d(2) s(2) c(2) by (simp add: members_text_def quoted BODY_PREFIX_def VARIABLES_PREFIX_def BODY_SUFFIX_def)
  with whole show ?thesis unfolding json_document_def by (intro exI [of _ "[]"] exI [of _ "graphql_body p cursor"]) (simp add: is_space_def)
qed

text \<open>
  C30. What is written can be read back: for UTF-8 texts and an admitted cursor the body is a JSON document that \<open>ValidateDocument\<close>
  accepts to its end at any nesting limit of at least two, and \<open>ParseString\<close> decodes every string that \<open>AppendJsonString\<close> writes to
  exactly the bytes it was written from, stopping right after it.
\<close>

theorem body_reads_back:
  assumes "calm env" and "2 \<le> max_json_nesting env"
    and "valid_utf8 (gp_document p)" and "valid_utf8 (gp_page_size_variable p)" and "valid_utf8 (gp_cursor_variable p)" and "cursor_ok cursor"
    and "valid_utf8 v" and "length v \<le> unat (max_decoded_bytes l)"
  shows "(\<exists>w'. ValidateDocument env (graphql_body p cursor) w = (Inr ((), []), w')) \<and>
    (\<exists>w'. ParseString env l (AppendJsonString v [] @ s') w = (Inr (v, s'), w'))"
proof
  have "2 \<le> unat (max_json_nesting env)" using assms(2) by (simp add: word_le_nat_alt)
  then obtain n where "unat (max_json_nesting env) = Suc (Suc n)" using le_Suc_ex add_2_eq_Suc by metis
  with body_is_document [OF assms(3-6)] document_complete [OF assms(1)]
  show "\<exists>w'. ValidateDocument env (graphql_body p cursor) w = (Inr ((), []), w')" by metis
  obtain fs where fs: "list_all form_ok fs" "json_string v = string_text fs" "string_value fs = v" by (rule written_string [OF assms(7)])
  from yieldsD [OF parse_string_complete [OF assms(1) fs(1), of l s']] fs assms(8)
  show "\<exists>w'. ParseString env l (AppendJsonString v [] @ s') w = (Inr (v, s'), w')" by (simp add: AppendJsonString_text)
qed

theorem body_reads_back_witness:
  "\<exists>w'. ValidateDocument (plain_environment 2) (graphql_body sample_profile (Some ''Y3Vyc29y'')) new_world = (Inr ((), []), w')"
proof -
  have "IsValidBoundedCursorBytes c" if "c \<in> {''query'', ''n'', ''c'', ''Y3Vyc29y''}" for c
    using that by (elim insertE emptyE) (simp_all, code_simp+)
  then have "cursor_ok (Some c)" if "c \<in> {''query'', ''n'', ''c'', ''Y3Vyc29y''}" for c using that by (simp add: valid_cursor_iff)
  from this [of "''query''"] this [of "''n''"] this [of "''c''"] this [of "''Y3Vyc29y''"]
  have ok: "valid_utf8 (gp_document sample_profile)" "valid_utf8 (gp_page_size_variable sample_profile)"
    "valid_utf8 (gp_cursor_variable sample_profile)" "cursor_ok (Some ''Y3Vyc29y'')" "valid_utf8 ''n''"
    by (simp_all add: sample_profile_def cursor_ok_def)
  have "2 \<le> max_json_nesting (plain_environment 2)" "length ''n'' \<le> unat (max_decoded_bytes wide_limits)"
    by (simp_all add: plain_environment_def wide_limits_def)
  from body_reads_back [OF plain_calm this(1) ok this(2)] show ?thesis by blast
qed

end
