(* ===== verification/Scan_Cache.thy ===== *)
theory Scan_Cache
  imports Quota_Bucket_Key
begin

section \<open>The cache of complete scans\<close>

text \<open>
  The in-memory cache of complete scan results (\<open>src/runtime/cache/complete_scan_result_cache.cpp\<close>) with the freshness policy and
  the semantic identity of its keys (\<open>src/semantics/plan/cache_policy.cpp\<close>). The table is an association list in the
  iteration order of the hash map; nothing observable depends on that order, which the refinement to a FIFO makes precise. Each
  public method is one critical section and one function on the state. The clock and the outcome of allocations are arguments.
  A permit is known here by the amount it holds, an invalid permit by \<open>None\<close>; batches are opaque.
\<close>

subsection \<open>Freshness policies\<close>

datatype CacheMode = CACHE_OFF | CACHE_FRESH | STALE_IF_ERROR

record freshness_policy =
  policy_mode :: CacheMode
  fresh_milliseconds :: uint64
  stale_milliseconds :: uint64

definition MAX_FRESH_MILLISECONDS :: uint64 where
  "MAX_FRESH_MILLISECONDS = 86400000"

definition MAX_STALE_MILLISECONDS :: uint64 where
  "MAX_STALE_MILLISECONDS = 604800000"

definition PolicyOff :: freshness_policy where
  "PolicyOff = \<lparr>policy_mode = CACHE_OFF, fresh_milliseconds = 0, stale_milliseconds = 0\<rparr>"

definition PolicyFresh :: "uint64 \<Rightarrow> cpp_exception + freshness_policy" where
  "PolicyFresh fresh =
     (if fresh = 0 then Inl (invalid_argument ''fresh cache mode requires a positive fresh window'')
      else if fresh > MAX_FRESH_MILLISECONDS then Inl (invalid_argument ''fresh window exceeds the hard maximum'')
      else Inr \<lparr>policy_mode = CACHE_FRESH, fresh_milliseconds = fresh, stale_milliseconds = 0\<rparr>)"

definition PolicyStaleIfError :: "uint64 \<Rightarrow> uint64 \<Rightarrow> cpp_exception + freshness_policy" where
  "PolicyStaleIfError fresh stale =
     (if fresh = 0 then Inl (invalid_argument ''stale_if_error cache mode requires a positive fresh window'')
      else if fresh > MAX_FRESH_MILLISECONDS then Inl (invalid_argument ''fresh window exceeds the hard maximum'')
      else if stale = 0 then Inl (invalid_argument ''stale_if_error cache mode requires a positive stale window'')
      else if stale > MAX_STALE_MILLISECONDS then Inl (invalid_argument ''stale window exceeds the hard maximum'')
      else Inr \<lparr>policy_mode = STALE_IF_ERROR, fresh_milliseconds = fresh, stale_milliseconds = stale\<rparr>)"

definition IsEnabled :: "freshness_policy \<Rightarrow> bool" where
  "IsEnabled p \<longleftrightarrow> policy_mode p \<noteq> CACHE_OFF"

definition IsValidPolicy :: "freshness_policy \<Rightarrow> bool" where
  "IsValidPolicy p \<longleftrightarrow>
     (case policy_mode p of
        CACHE_OFF \<Rightarrow> fresh_milliseconds p \<le> MAX_FRESH_MILLISECONDS \<and> stale_milliseconds p \<le> MAX_STALE_MILLISECONDS
      | CACHE_FRESH \<Rightarrow> fresh_milliseconds p > 0 \<and> fresh_milliseconds p \<le> MAX_FRESH_MILLISECONDS
      | STALE_IF_ERROR \<Rightarrow> fresh_milliseconds p > 0 \<and> fresh_milliseconds p \<le> MAX_FRESH_MILLISECONDS \<and>
          stale_milliseconds p > 0 \<and> stale_milliseconds p \<le> MAX_STALE_MILLISECONDS)"

subsection \<open>Keys\<close>

text \<open>A generation handle is the address of the shared generation state; the default handle has none.\<close>

record semantic_identity =
  canonical :: string
  hash_value :: uint64
  has_generation :: bool
  generation :: "nat option"

definition ForBuiltIn :: "string \<Rightarrow> uint64 \<Rightarrow> semantic_identity" where
  "ForBuiltIn representation h = \<lparr>canonical = representation, hash_value = h, has_generation = False, generation = None\<rparr>"

definition ForPackage :: "string \<Rightarrow> uint64 \<Rightarrow> nat option \<Rightarrow> semantic_identity" where
  "ForPackage representation h handle = \<lparr>canonical = representation, hash_value = h, has_generation = True, generation = handle\<rparr>"

definition SemanticEqual :: "semantic_identity \<Rightarrow> semantic_identity \<Rightarrow> bool" where
  "SemanticEqual a b =
     (if hash_value a \<noteq> hash_value b then False
      else if canonical a \<noteq> canonical b then False
      else if \<not> has_generation a then \<not> has_generation b
      else if \<not> has_generation b then False
      else generation a \<noteq> None \<and> generation b \<noteq> None \<and> generation a = generation b)"

record opaque_credential =
  tag_authority :: "8 word list"
  tag_revision :: "8 word list"

type_synonym cache_credential_tag = "opaque_credential option"

fun TagEqual :: "cache_credential_tag \<Rightarrow> cache_credential_tag \<Rightarrow> bool" where
  "TagEqual (Some a) (Some b) \<longleftrightarrow> tag_authority a = tag_authority b \<and> tag_revision a = tag_revision b"
| "TagEqual a b \<longleftrightarrow> a = None \<and> b = None"

fun TagHash :: "cache_credential_tag \<Rightarrow> uint64" where
  "TagHash None = 0"
| "TagHash (Some i) = HashCombine (HashIdentity (tag_authority i)) (HashIdentity (tag_revision i))"

record cache_key =
  key_semantic :: semantic_identity
  key_credential :: cache_credential_tag

definition new_CacheKey :: "semantic_identity option \<Rightarrow> cache_credential_tag \<Rightarrow> cpp_exception + cache_key" where
  "new_CacheKey semantic credential =
     (case semantic of
        None \<Rightarrow> Inl (invalid_argument ''cache key requires a semantic identity'')
      | Some s \<Rightarrow> Inr \<lparr>key_semantic = s, key_credential = credential\<rparr>)"

definition CacheKeyEqual :: "cache_key \<Rightarrow> cache_key \<Rightarrow> bool" where
  "CacheKeyEqual a b \<longleftrightarrow> TagEqual (key_credential a) (key_credential b) \<and> SemanticEqual (key_semantic a) (key_semantic b)"

definition CacheKeyHash :: "cache_key \<Rightarrow> uint64" where
  "CacheKeyHash k = HashCombine (hash_value (key_semantic k)) (TagHash (key_credential k))"

subsection \<open>State\<close>

record 'b cache_entry =
  batches :: "'b list"
  stored_at_milliseconds :: uint64
  size_bytes :: uint64
  entry_permit :: "uint64 option"

datatype CacheLookupResult = CACHE_MISS | FRESH_HIT | STALE_CANDIDATE | EXPIRED

record 'b map_entry =
  cached_entry :: "'b cache_entry"
  insertion_order :: uint64

record 'b scan_cache =
  max_entries :: uint64
  max_bytes :: uint64
  max_entry_bytes :: uint64
  entries :: "(cache_key \<times> 'b map_entry) list"
  next_insertion_order :: uint64
  resident_bytes :: uint64
  cache_closed :: bool

definition HARD_MAX_ENTRIES :: uint64 where
  "HARD_MAX_ENTRIES = 256"

definition HARD_MAX_BYTES :: uint64 where
  "HARD_MAX_BYTES = 64 * 1024 * 1024"

definition HARD_MAX_ENTRY_BYTES :: uint64 where
  "HARD_MAX_ENTRY_BYTES = 16 * 1024 * 1024"

definition new_CompleteScanResultCache :: "bool \<Rightarrow> uint64 \<Rightarrow> uint64 \<Rightarrow> uint64 \<Rightarrow> cpp_exception + 'b scan_cache" where
  "new_CompleteScanResultCache has_clock n bytes entry_bytes =
     (if \<not> has_clock then Inl (invalid_argument ''cache requires a clock'')
      else if n = 0 \<or> bytes = 0 \<or> entry_bytes = 0 then Inl (invalid_argument ''cache limits must be positive'')
      else if n > HARD_MAX_ENTRIES \<or> bytes > HARD_MAX_BYTES \<or> entry_bytes > HARD_MAX_ENTRY_BYTES
      then Inl (invalid_argument ''private cache limits may only narrow the hard profile'')
      else Inr \<lparr>max_entries = n, max_bytes = bytes, max_entry_bytes = entry_bytes, entries = [], next_insertion_order = 0,
                resident_bytes = 0, cache_closed = False\<rparr>)"

subsection \<open>Operations\<close>

definition find_entry :: "cache_key \<Rightarrow> (cache_key \<times> 'b map_entry) list \<Rightarrow> (cache_key \<times> 'b map_entry) option" where
  "find_entry key es = find (\<lambda>(k, _). CacheKeyEqual k key) es"

definition entry_age :: "uint64 \<Rightarrow> uint64 \<Rightarrow> uint64" where
  "entry_age now stored_at = (if now \<ge> stored_at then now - stored_at else uint64_max)"

definition stale_limit :: "freshness_policy \<Rightarrow> uint64" where
  "stale_limit p =
     (if stale_milliseconds p > uint64_max - fresh_milliseconds p then uint64_max
      else fresh_milliseconds p + stale_milliseconds p)"

definition Lookup ::
  "bool \<Rightarrow> uint64 \<Rightarrow> cache_key \<Rightarrow> freshness_policy \<Rightarrow> 'b scan_cache \<Rightarrow>
   cpp_exception + CacheLookupResult \<times> 'b cache_entry option \<times> uint64" where
  "Lookup outputs_ok now key policy c =
     (if \<not> outputs_ok then Inl (invalid_argument ''cache lookup requires output parameters'')
      else if \<not> IsEnabled policy then Inr (CACHE_MISS, None, 0)
      else if cache_closed c then Inr (CACHE_MISS, None, 0)
      else case find_entry key (entries c) of
        None \<Rightarrow> Inr (CACHE_MISS, None, 0)
      | Some (_, e) \<Rightarrow>
          let age = entry_age now (stored_at_milliseconds (cached_entry e))
          in if age < fresh_milliseconds policy then Inr (FRESH_HIT, Some (cached_entry e), age)
             else if policy_mode policy = STALE_IF_ERROR \<and> age < stale_limit policy
             then Inr (STALE_CANDIDATE, Some (cached_entry e), age)
             else Inr (EXPIRED, None, age))"

definition CanFit :: "uint64 \<Rightarrow> 'b scan_cache \<Rightarrow> bool" where
  "CanFit entry_bytes c = (if entry_bytes > max_entry_bytes c then False else if entry_bytes > max_bytes c then False else True)"

text \<open>The scan of the table for the oldest entry starts with its first one.\<close>

fun oldest_loop :: "cache_key \<times> 'b map_entry \<Rightarrow> (cache_key \<times> 'b map_entry) list \<Rightarrow> cache_key \<times> 'b map_entry" where
  "oldest_loop oldest [] = oldest"
| "oldest_loop oldest (e # es) =
     oldest_loop (if insertion_order (snd e) < insertion_order (snd oldest) then e else oldest) es"

lemma oldest_loop_in: "oldest_loop o' es \<in> insert o' (set es)"
  by (induction o' es rule: oldest_loop.induct) auto

function EvictIfNeeded :: "'b scan_cache \<Rightarrow> 'b scan_cache" where
  "EvictIfNeeded c =
     (if (of_nat (length (entries c)) > max_entries c \<or> resident_bytes c > max_bytes c) \<and> entries c \<noteq> []
      then let oldest = oldest_loop (hd (entries c)) (entries c)
           in EvictIfNeeded (c\<lparr>resident_bytes := resident_bytes c - size_bytes (cached_entry (snd oldest)),
                entries := remove1 oldest (entries c)\<rparr>)
      else c)"
  by pat_completeness auto
termination
proof (relation "measure (\<lambda>c. length (entries c))", simp)
  fix c :: "'b scan_cache" and oldest
  assume h: "(of_nat (length (entries c)) > max_entries c \<or> resident_bytes c > max_bytes c) \<and> entries c \<noteq> []"
    and o: "oldest = oldest_loop (hd (entries c)) (entries c)"
  have "oldest \<in> set (entries c)" using h o oldest_loop_in [of "hd (entries c)" "entries c"] by auto
  with h show "(c\<lparr>resident_bytes := resident_bytes c - size_bytes (cached_entry (snd oldest)), entries := remove1 oldest (entries c)\<rparr>, c)
      \<in> measure (\<lambda>c. length (entries c))"
    by (simp add: length_remove1)
qed

declare EvictIfNeeded.simps [simp del]

text \<open>
  What a publication meets outside: whether the entry can be allocated, whether reading the clock throws, the time,
  and whether the table can allocate its node. The result is the success flag, the caller's batches and permit afterwards
  (moved-from values are empty) and the published entry.
\<close>

record publish_environment =
  entry_allocation_fails :: bool
  clock_throws :: bool
  publish_now :: uint64
  node_allocation_fails :: bool

fun replace_entry :: "cache_key \<Rightarrow> 'b map_entry \<Rightarrow> (cache_key \<times> 'b map_entry) list \<Rightarrow> (cache_key \<times> 'b map_entry) list" where
  "replace_entry key m [] = []"
| "replace_entry key m ((k, e) # es) = (if CacheKeyEqual k key then (k, m) # es else (k, e) # replace_entry key m es)"

definition PublishReserved ::
  "publish_environment \<Rightarrow> bool \<Rightarrow> cache_key \<Rightarrow> 'b list \<Rightarrow> uint64 \<Rightarrow> uint64 option \<Rightarrow> 'b scan_cache \<Rightarrow>
   (bool \<times> 'b list \<times> uint64 option \<times> 'b cache_entry option) \<times> 'b scan_cache" where
  "PublishReserved env pointers_ok key bs n permit c =
     (if \<not> pointers_ok then ((False, bs, permit, None), c)
      else if \<not> CanFit n c then ((False, bs, permit, None), c)
      else if entry_allocation_fails env then ((False, bs, permit, None), c)
      else if cache_closed c then ((False, bs, permit, None), c)
      else if clock_throws env then ((False, [], None, None), c)
      else
        let candidate = \<lparr>batches = bs, stored_at_milliseconds = publish_now env, size_bytes = n, entry_permit = permit\<rparr>;
            m = \<lparr>cached_entry = candidate, insertion_order = next_insertion_order c\<rparr>;
            c' = c\<lparr>next_insertion_order := next_insertion_order c + 1\<rparr>
        in case find_entry key (entries c) of
             Some (_, existing) \<Rightarrow>
               ((True, [], None, Some candidate),
                EvictIfNeeded (c'\<lparr>entries := replace_entry key m (entries c),
                  resident_bytes := resident_bytes c - size_bytes (cached_entry existing) + n\<rparr>))
           | None \<Rightarrow>
               if node_allocation_fails env then ((False, bs, permit, None), c')
               else ((True, [], None, Some candidate),
                     EvictIfNeeded (c'\<lparr>entries := entries c @ [(key, m)], resident_bytes := resident_bytes c + n\<rparr>)))"

definition Publish :: "publish_environment \<Rightarrow> cache_key \<Rightarrow> 'b list \<Rightarrow> uint64 \<Rightarrow> 'b scan_cache \<Rightarrow> bool \<times> 'b scan_cache" where
  "Publish env key bs n c = (let ((published, _, _, _), c') = PublishReserved env True key bs n None c in (published, c'))"

definition CloseCache :: "'b scan_cache \<Rightarrow> 'b scan_cache" where
  "CloseCache c = c\<lparr>cache_closed := True, entries := [], resident_bytes := 0\<rparr>"

definition ResidentEntries :: "'b scan_cache \<Rightarrow> uint64" where
  "ResidentEntries c = of_nat (length (entries c))"

end
