(* ===== verification/Scan_Cache_Fifo.thy ===== *)
theory Scan_Cache_Fifo
  imports Scan_Cache "HOL-Library.Multiset"
begin

section \<open>The cache as a bounded FIFO\<close>

text \<open>
  The properties of \<open>Scan_Cache\<close>. \<open>table_ok\<close> is the invariant of the table (distinct keys and insertion orders, exact byte counter),
  \<open>by_age\<close> reads it in order of insertion, where the eviction loop becomes \<open>trim\<close>, dropping from the front; \<open>fifo_of\<close> is the
  abstraction to the specification \<open>fifo_step\<close>, \<open>fifo_lookup\<close>. Keys of package scans are assumed to carry a valid generation
  handle (\<open>key_ok\<close>), and the insertion counter not to wrap, which takes \<open>2 ^ 64\<close> publications.
\<close>

subsection \<open>Keys\<close>

text \<open>A key of a package scan carries a valid generation handle, one of a built-in scan none.\<close>

definition key_ok :: "cache_key \<Rightarrow> bool" where
  "key_ok k \<longleftrightarrow> (has_generation (key_semantic k) \<longleftrightarrow> generation (key_semantic k) \<noteq> None)"

lemma TagEqual_iff: "TagEqual a b \<longleftrightarrow> a = b"
  by (cases a; cases b) (auto simp: opaque_credential.equality)

lemma SemanticEqual_iff:
  "(has_generation a \<longleftrightarrow> generation a \<noteq> None) \<Longrightarrow> (has_generation b \<longleftrightarrow> generation b \<noteq> None) \<Longrightarrow> SemanticEqual a b \<longleftrightarrow> a = b"
  by (cases a; cases b) (auto simp: SemanticEqual_def)

lemma CacheKeyEqual_iff: "key_ok a \<Longrightarrow> key_ok b \<Longrightarrow> CacheKeyEqual a b \<longleftrightarrow> a = b"
  by (cases a; cases b) (auto simp: key_ok_def CacheKeyEqual_def TagEqual_iff SemanticEqual_iff)

subsection \<open>The oldest entry\<close>

type_synonym 'b slot = "cache_key \<times> 'b map_entry"

abbreviation order_of :: "'b slot \<Rightarrow> uint64" where
  "order_of x \<equiv> insertion_order (snd x)"

abbreviation bytes_of :: "'b slot \<Rightarrow> nat" where
  "bytes_of x \<equiv> unat (size_bytes (cached_entry (snd x)))"

definition by_age :: "'b slot list \<Rightarrow> 'b slot list" where
  "by_age es = sort_key order_of es"

lemma by_age_set [simp]: "set (by_age es) = set es" and by_age_length [simp]: "length (by_age es) = length es"
  and by_age_mset [simp]: "mset (by_age es) = mset es"
  by (simp_all add: by_age_def)

lemma by_age_eqI:
  assumes "distinct (map order_of xs)" and "mset ys = mset xs" and "sorted (map order_of ys)"
  shows "by_age xs = ys"
  unfolding by_age_def
proof (rule properties_for_sort_key)
  show "mset ys = mset xs" by (rule assms(2))
  show "sorted (map order_of ys)" by (rule assms(3))
  fix k
  assume k: "k \<in> set ys"
  have one: "filter (\<lambda>x. order_of k = order_of x) zs = [k]" if "distinct (map order_of zs)" "k \<in> set zs" for zs :: "'a slot list"
    using that
  proof (induction zs)
    case (Cons z zs)
    show ?case
    proof (cases "order_of k = order_of z")
      case True
      have "inj_on order_of (set (z # zs))" using Cons.prems(1) unfolding distinct_map by blast
      from inj_onD [OF this True Cons.prems(2)] have "z = k" by simp
      moreover have "filter (\<lambda>x. order_of k = order_of x) zs = []"
        using Cons.prems True by (auto simp: filter_empty_conv)
      ultimately show ?thesis by simp
    next
      case False
      with Cons show ?thesis by auto
    qed
  qed simp
  have "distinct (map order_of ys)"
    using assms(1,2) by (metis mset_eq_imp_distinct_iff mset_map)
  moreover have "k \<in> set xs" using k assms(2) mset_eq_setD by blast
  ultimately show "filter (\<lambda>x. order_of k = order_of x) ys = filter (\<lambda>x. order_of k = order_of x) xs"
    using one [of ys] one [of xs] k assms(1) by simp
qed

lemma oldest_loop_le: "y \<in> insert x (set es) \<Longrightarrow> order_of (oldest_loop x es) \<le> order_of y"
proof (induction x es arbitrary: y rule: oldest_loop.induct)
  case (2 x e es)
  let ?b = "if order_of e < order_of x then e else x"
  have "order_of (oldest_loop ?b es) \<le> order_of z" if "z = ?b \<or> z \<in> set es" for z using "2.IH" [of z] that by auto
  from this [of ?b] this [of y] "2.prems" show ?case by (auto split: if_splits)
qed simp

lemma oldest_is_first:
  assumes "distinct (map order_of es)" and "es \<noteq> []"
  shows "by_age es = oldest_loop (hd es) es # by_age (remove1 (oldest_loop (hd es) es) es)"
proof (rule by_age_eqI [OF assms(1)])
  let ?o = "oldest_loop (hd es) es"
  have o: "?o \<in> set es" using oldest_loop_in [of "hd es" es] assms(2) by auto
  show "mset (?o # by_age (remove1 ?o es)) = mset es" using o by simp
  have "order_of ?o \<le> order_of y" if "y \<in> set es" for y using oldest_loop_le [of y "hd es" es] that by simp
  moreover have "sorted (map order_of (by_age (remove1 ?o es)))" by (simp add: by_age_def)
  ultimately show "sorted (map order_of (?o # by_age (remove1 ?o es)))" using set_remove1_subset [of ?o es] by auto
qed

subsection \<open>Eviction\<close>

definition total_bytes :: "'b slot list \<Rightarrow> nat" where
  "total_bytes es = (\<Sum>x\<leftarrow>es. bytes_of x)"

fun trim :: "nat \<Rightarrow> nat \<Rightarrow> ('x \<Rightarrow> nat) \<Rightarrow> 'x list \<Rightarrow> 'x list" where
  "trim n b cost [] = []"
| "trim n b cost (x # xs) = (if length (x # xs) > n \<or> (\<Sum>y\<leftarrow>x # xs. cost y) > b then trim n b cost xs else x # xs)"

lemma trim_map: "trim n b cost (map f xs) = map f (trim n b (cost \<circ> f) xs)"
  by (induction xs) (simp_all add: o_def)

lemma trim_suffix: "\<exists>zs. xs = zs @ trim n b cost xs"
  by (induction xs) (auto intro: exI [of _ "_ # _"])

lemma trim_bounded: "length (trim n b cost xs) \<le> n \<and> (\<Sum>y\<leftarrow>trim n b cost xs. cost y) \<le> b"
  by (induction xs) auto

lemma trim_keeps_last: "0 < n \<Longrightarrow> cost x \<le> b \<Longrightarrow> \<exists>zs. trim n b cost (xs @ [x]) = zs @ [x]"
  by (induction xs) auto

lemma trim_fits: "length xs \<le> n \<Longrightarrow> (\<Sum>y\<leftarrow>xs. cost y) \<le> b \<Longrightarrow> trim n b cost xs = xs"
  by (cases xs) auto

lemma CanFit_iff: "CanFit n c \<longleftrightarrow> n \<le> max_entry_bytes c \<and> n \<le> max_bytes c"
  by (auto simp: CanFit_def)

definition table_ok :: "'b scan_cache \<Rightarrow> bool" where
  "table_ok c \<longleftrightarrow> 0 < max_entries c \<and> max_entries c \<le> HARD_MAX_ENTRIES \<and> 0 < max_bytes c \<and> max_bytes c \<le> HARD_MAX_BYTES \<and>
     0 < max_entry_bytes c \<and> max_entry_bytes c \<le> HARD_MAX_ENTRY_BYTES \<and>
     distinct (map order_of (entries c)) \<and> distinct (map fst (entries c)) \<and>
     (\<forall>x \<in> set (entries c). key_ok (fst x) \<and> order_of x < next_insertion_order c \<and> CanFit (size_bytes (cached_entry (snd x))) c) \<and>
     unat (resident_bytes c) = total_bytes (entries c) \<and> (cache_closed c \<longrightarrow> entries c = [])"

lemma total_bytes_mset: "mset xs = mset ys \<Longrightarrow> total_bytes xs = total_bytes ys"
proof -
  assume "mset xs = mset ys"
  then have "mset (map bytes_of xs) = mset (map bytes_of ys)" by simp
  then show ?thesis unfolding total_bytes_def sum_mset_sum_list [symmetric] by simp
qed

lemma total_bytes_remove1: "x \<in> set es \<Longrightarrow> total_bytes es = bytes_of x + total_bytes (remove1 x es)"
  using total_bytes_mset [of es "x # remove1 x es"] by (simp add: total_bytes_def)

definition small_table :: "'b scan_cache \<Rightarrow> bool" where
  "small_table c \<longleftrightarrow> length (entries c) < 2 ^ 64"

lemma evict_step:
  assumes "table_ok c" and "entries c \<noteq> []"
  defines "x \<equiv> oldest_loop (hd (entries c)) (entries c)"
  shows "table_ok (c\<lparr>resident_bytes := resident_bytes c - size_bytes (cached_entry (snd x)), entries := remove1 x (entries c)\<rparr>)"
proof -
  have x: "x \<in> set (entries c)" using oldest_loop_in [of "hd (entries c)" "entries c"] assms(2) by (auto simp: x_def)
  have le: "unat (size_bytes (cached_entry (snd x))) \<le> unat (resident_bytes c)"
    using assms(1) total_bytes_remove1 [OF x] by (simp add: table_ok_def)
  then have "unat (resident_bytes c - size_bytes (cached_entry (snd x))) = total_bytes (remove1 x (entries c))"
    using assms(1) total_bytes_remove1 [OF x] by (simp add: table_ok_def unat_sub word_le_nat_alt)
  moreover have "distinct (map order_of (remove1 x (entries c)))" "distinct (map fst (remove1 x (entries c)))"
    using assms(1) inj_on_subset [OF _ set_remove1_subset] by (auto simp: table_ok_def distinct_map simp del: set_remove1_eq)
  moreover have "set (remove1 x (entries c)) \<subseteq> set (entries c)" by (rule set_remove1_subset)
  ultimately show ?thesis using assms(1) x by (auto simp: table_ok_def CanFit_iff)
qed

lemma evict_trims:
  "table_ok c \<Longrightarrow> small_table c \<Longrightarrow>
    table_ok (EvictIfNeeded c) \<and> by_age (entries (EvictIfNeeded c)) = trim (unat (max_entries c)) (unat (max_bytes c)) bytes_of (by_age (entries c)) \<and>
    max_entries (EvictIfNeeded c) = max_entries c \<and> max_bytes (EvictIfNeeded c) = max_bytes c \<and>
    max_entry_bytes (EvictIfNeeded c) = max_entry_bytes c \<and> next_insertion_order (EvictIfNeeded c) = next_insertion_order c \<and>
    cache_closed (EvictIfNeeded c) = cache_closed c"
proof (induction c rule: EvictIfNeeded.induct)
  case (1 c)
  have full: "(of_nat (length (entries c)) > max_entries c \<or> resident_bytes c > max_bytes c) \<longleftrightarrow>
    length (by_age (entries c)) > unat (max_entries c) \<or> (\<Sum>x\<leftarrow>by_age (entries c). bytes_of x) > unat (max_bytes c)"
  proof -
    have "unat (of_nat (length (entries c)) :: uint64) = length (entries c)" using "1.prems"(2) by (simp add: small_table_def unat_of_nat)
    moreover have "(\<Sum>x\<leftarrow>by_age (entries c). bytes_of x) = unat (resident_bytes c)"
      using "1.prems"(1) total_bytes_mset [OF by_age_mset, of "entries c"] by (simp add: total_bytes_def table_ok_def)
    ultimately show ?thesis by (simp add: word_less_nat_alt)
  qed
  show ?case
  proof (cases "(of_nat (length (entries c)) > max_entries c \<or> resident_bytes c > max_bytes c) \<and> entries c \<noteq> []")
    case True
    define x where "x = oldest_loop (hd (entries c)) (entries c)"
    let ?c = "c\<lparr>resident_bytes := resident_bytes c - size_bytes (cached_entry (snd x)), entries := remove1 x (entries c)\<rparr>"
    have x: "x \<in> set (entries c)" using oldest_loop_in [of "hd (entries c)" "entries c"] True by (auto simp: x_def)
    have ok: "table_ok ?c" using evict_step [OF "1.prems"(1)] True by (simp add: x_def)
    have small: "small_table ?c" using "1.prems"(2) x by (simp add: small_table_def length_remove1)
    have step: "EvictIfNeeded c = EvictIfNeeded ?c" using True by (subst EvictIfNeeded.simps) (simp add: x_def Let_def)
    have first: "by_age (entries c) = x # by_age (remove1 x (entries c))"
      using oldest_is_first [of "entries c"] "1.prems"(1) True by (simp add: x_def table_ok_def)
    have "trim (unat (max_entries c)) (unat (max_bytes c)) bytes_of (by_age (entries c)) =
      trim (unat (max_entries c)) (unat (max_bytes c)) bytes_of (by_age (remove1 x (entries c)))"
      using True full first by (metis (no_types, lifting) trim.simps(2))
    with "1.IH" [OF True x_def ok small] show ?thesis unfolding step by simp
  next
    case False
    have "trim (unat (max_entries c)) (unat (max_bytes c)) bytes_of (by_age (entries c)) = by_age (entries c)"
    proof (cases "entries c = []")
      case False2: False
      with False full show ?thesis by (intro trim_fits) auto
    qed (simp add: by_age_def)
    moreover have "EvictIfNeeded c = c" using EvictIfNeeded.simps [of c] unfolding if_not_P [OF False] .
    ultimately show ?thesis using "1.prems"(1) by simp
  qed
qed

subsection \<open>Publication\<close>

lemma table_okD:
  assumes "table_ok c"
  shows "distinct (map order_of (entries c))" and "distinct (map fst (entries c))" and "x \<in> set (entries c) \<Longrightarrow> key_ok (fst x)"
    and "x \<in> set (entries c) \<Longrightarrow> order_of x < next_insertion_order c"
    and "unat (resident_bytes c) = total_bytes (entries c)" and "0 < unat (max_entries c)" and "unat (max_bytes c) \<le> 67108864"
    and "unat (max_entries c) \<le> 256" and "unat (max_entry_bytes c) \<le> 16777216"
proof -
  show "unat (max_bytes c) \<le> 67108864" "unat (max_entries c) \<le> 256" "unat (max_entry_bytes c) \<le> 16777216"
    using assms by (simp_all add: table_ok_def HARD_MAX_BYTES_def HARD_MAX_ENTRIES_def HARD_MAX_ENTRY_BYTES_def word_le_nat_alt)
  show "0 < unat (max_entries c)" using assms by (simp add: table_ok_def word_less_nat_alt)
qed (use assms in \<open>auto simp: table_ok_def\<close>)

lemma find_entry_None: "\<forall>x \<in> set es. key_ok (fst x) \<Longrightarrow> key_ok key \<Longrightarrow> find_entry key es = None \<longleftrightarrow> key \<notin> fst ` set es"
proof -
  assume ok: "\<forall>x \<in> set es. key_ok (fst x)" "key_ok key"
  then have "CacheKeyEqual (fst x) key \<longleftrightarrow> fst x = key" if "x \<in> set es" for x using that by (simp add: CacheKeyEqual_iff)
  then show ?thesis by (force simp: find_entry_def find_None_iff split_beta)
qed

lemma find_entry_Some:
  assumes "\<forall>x \<in> set es. key_ok (fst x)" and "key_ok key" and "distinct (map fst es)"
  shows "find_entry key es = Some x \<longleftrightarrow> x \<in> set es \<and> fst x = key"
  using assms
proof (induction es)
  case (Cons e es)
  show ?case
  proof (cases "fst e = key")
    case True
    with Cons.prems have "find_entry key (e # es) = Some e" by (simp add: find_entry_def CacheKeyEqual_iff split_beta)
    moreover have "x \<in> set (e # es) \<and> fst x = key \<longleftrightarrow> x = e" using Cons.prems(3) True by (auto simp: rev_image_eqI)
    ultimately show ?thesis by auto
  next
    case False
    with Cons.prems have "find_entry key (e # es) = find_entry key es" by (simp add: find_entry_def CacheKeyEqual_iff split_beta)
    with Cons False show ?thesis by auto
  qed
qed (simp add: find_entry_def)

lemma replace_entry_mset:
  assumes "\<forall>x \<in> set es. key_ok (fst x)" and "key_ok key" and "distinct (map fst es)" and "x \<in> set es" and "fst x = key"
  shows "mset (replace_entry key m es) = add_mset (key, m) (mset (remove1 x es)) \<and> map fst (replace_entry key m es) = map fst es"
  using assms
proof (induction es)
  case (Cons e es)
  obtain k v where e: "e = (k, v)" by (cases e)
  show ?case
  proof (cases "k = key")
    case True
    then have "x = e" using Cons.prems e by (auto simp: rev_image_eqI)
    with Cons.prems True e show ?thesis by (simp add: CacheKeyEqual_iff)
  next
    case False
    then have "x \<noteq> e" "x \<in> set es" using Cons.prems e by auto
    with Cons False e show ?thesis by (simp add: CacheKeyEqual_iff)
  qed
qed simp

definition published_table :: "cache_key \<Rightarrow> 'b map_entry \<Rightarrow> 'b scan_cache \<Rightarrow> 'b scan_cache" where
  "published_table key m c =
     (let c' = c\<lparr>next_insertion_order := next_insertion_order c + 1\<rparr>
      in case find_entry key (entries c) of
           Some (_, existing) \<Rightarrow> c'\<lparr>entries := replace_entry key m (entries c),
             resident_bytes := resident_bytes c - size_bytes (cached_entry existing) + size_bytes (cached_entry m)\<rparr>
         | None \<Rightarrow> c'\<lparr>entries := entries c @ [(key, m)], resident_bytes := resident_bytes c + size_bytes (cached_entry m)\<rparr>)"

definition others :: "cache_key \<Rightarrow> 'b slot list \<Rightarrow> 'b slot list" where
  "others key es = filter (\<lambda>x. fst x \<noteq> key) es"

lemma others_remove1: "distinct (map fst es) \<Longrightarrow> x \<in> set es \<Longrightarrow> others (fst x) es = remove1 x es"
proof (induction es)
  case (Cons e es)
  show ?case
  proof (cases "x = e")
    case True
    with Cons.prems show ?thesis by (auto simp: others_def filter_id_conv rev_image_eqI)
  next
    case False
    with Cons show ?thesis by (auto simp: others_def rev_image_eqI)
  qed
qed (simp add: others_def)

lemma published_mset:
  assumes "table_ok c" and "key_ok key"
  shows "mset (entries (published_table key m c)) = mset (others key (entries c) @ [(key, m)]) \<and>
    distinct (map fst (entries (published_table key m c)))"
proof (cases "find_entry key (entries c)")
  case None
  then have "key \<notin> fst ` set (entries c)" using assms by (simp add: find_entry_None table_okD)
  moreover from this have "others key (entries c) = entries c" by (auto simp: others_def filter_id_conv)
  ultimately show ?thesis using None table_okD(2) [OF assms(1)] by (simp add: published_table_def)
next
  case (Some x)
  then have x: "x \<in> set (entries c)" "fst x = key" using assms by (simp_all add: find_entry_Some table_okD)
  have o: "others key (entries c) = remove1 x (entries c)"
    using others_remove1 [OF table_okD(2) [OF assms(1)] x(1)] x(2) by simp
  have keys: "\<forall>x \<in> set (entries c). key_ok (fst x)" using table_okD(3) [OF assms(1)] by blast
  from replace_entry_mset [OF keys assms(2) table_okD(2) [OF assms(1)] x] Some o table_okD(2) [OF assms(1)]
  show ?thesis by (auto simp: published_table_def split_beta)
qed

lemma published_total:
  assumes "table_ok c" and "key_ok key" and "CanFit (size_bytes (cached_entry m)) c" and "unat (resident_bytes c) \<le> unat (max_bytes c)"
  shows "unat (resident_bytes (published_table key m c)) = total_bytes (entries (published_table key m c))"
proof -
  let ?n = "size_bytes (cached_entry m)"
  note T = table_okD [OF assms(1)]
  have n: "unat ?n \<le> 16777216" using assms(3) T(9) by (simp add: CanFit_iff word_le_nat_alt)
  have total: "total_bytes (entries (published_table key m c)) = total_bytes (others key (entries c)) + unat ?n"
    using total_bytes_mset [of "entries (published_table key m c)" "others key (entries c) @ [(key, m)]"] published_mset [OF assms(1,2), of m]
    by (simp add: total_bytes_def)
  show ?thesis
  proof (cases "find_entry key (entries c)")
    case None
    then have "others key (entries c) = entries c" using assms T(3) by (auto simp: others_def filter_id_conv find_entry_None)
    moreover have "unat (resident_bytes c + ?n) = unat (resident_bytes c) + unat ?n"
      using assms(4) T(7) n by (intro unat_add_uint64) simp
    ultimately show ?thesis unfolding total using None T(5) by (simp add: published_table_def)
  next
    case (Some x)
    then have x: "x \<in> set (entries c)" "fst x = key" using assms T(2,3) by (simp_all add: find_entry_Some)
    have o: "total_bytes (entries c) = bytes_of x + total_bytes (others key (entries c))"
      using total_bytes_remove1 [OF x(1)] others_remove1 [OF T(2) x(1)] x(2) by simp
    let ?r = "resident_bytes c - size_bytes (cached_entry (snd x))"
    have r: "unat ?r = total_bytes (others key (entries c))" using o T(5) by (simp add: unat_sub word_le_nat_alt)
    have "unat (?r + ?n) = unat ?r + unat ?n" using assms(4) T(5,7) n o r by (intro unat_add_uint64) simp
    with Some show ?thesis unfolding total r [symmetric] by (simp add: published_table_def split_beta)
  qed
qed

lemma published_table_ok:
  assumes "table_ok c" and "key_ok key" and "insertion_order m = next_insertion_order c" and "CanFit (size_bytes (cached_entry m)) c"
    and "next_insertion_order c \<noteq> uint64_max" and "\<not> cache_closed c" and "unat (resident_bytes c) \<le> unat (max_bytes c)"
  shows "table_ok (published_table key m c) \<and> by_age (entries (published_table key m c)) = others key (by_age (entries c)) @ [(key, m)]"
proof -
  let ?c = "published_table key m c" and ?o = "others key (entries c)"
  note T = table_okD [OF assms(1)]
  have fields: "max_entries ?c = max_entries c" "max_bytes ?c = max_bytes c" "max_entry_bytes ?c = max_entry_bytes c"
    "next_insertion_order ?c = next_insertion_order c + 1" "cache_closed ?c = cache_closed c"
    by (simp_all add: published_table_def Let_def split: option.splits prod.splits)
  have next_val: "unat (next_insertion_order c + 1) = unat (next_insertion_order c) + 1"
    using assms(5) unat_uint64_bound [of "next_insertion_order c"] unat_add_uint64 [of "next_insertion_order c" 1]
    by (auto simp: word_unat_eq_iff)
  have ms: "mset (entries ?c) = mset (?o @ [(key, m)])" and keys: "distinct (map fst (entries ?c))"
    using published_mset [OF assms(1,2), of m] by blast+
  have set: "set (entries ?c) = set ?o \<union> {(key, m)}" using mset_eq_setD [OF ms] by simp
  have old: "x \<in> set ?o \<Longrightarrow> x \<in> set (entries c) \<and> fst x \<noteq> key" for x by (auto simp: others_def)
  have orders: "distinct (map order_of (?o @ [(key, m)]))"
  proof -
    have "insertion_order m \<notin> order_of ` set ?o" using old T(4) assms(3) by fastforce
    then show ?thesis using T(1) by (simp add: others_def distinct_map_filter)
  qed
  have "distinct (map order_of (entries ?c))" using orders ms by (metis mset_eq_imp_distinct_iff mset_map)
  moreover have "unat (resident_bytes ?c) = total_bytes (entries ?c)" by (rule published_total [OF assms(1,2,4,7)])
  moreover have "key_ok (fst x) \<and> order_of x < next_insertion_order ?c \<and> CanFit (size_bytes (cached_entry (snd x))) ?c" if x: "x \<in> set (entries ?c)" for x
  proof (cases "x = (key, m)")
    case True
    with assms(2,3,4) next_val show ?thesis by (simp add: fields CanFit_iff word_less_nat_alt)
  next
    case False
    with x set old have "x \<in> set (entries c)" by blast
    with T(3,4) [of x] assms(1) next_val show ?thesis by (auto simp: table_ok_def fields CanFit_iff word_less_nat_alt)
  qed
  ultimately have "table_ok ?c" using assms(1,6) keys by (simp add: table_ok_def fields)
  moreover have "by_age (entries ?c) = others key (by_age (entries c)) @ [(key, m)]"
  proof (rule by_age_eqI)
    show "distinct (map order_of (entries ?c))" by fact
    show "mset (others key (by_age (entries c)) @ [(key, m)]) = mset (entries ?c)"
      unfolding ms by (simp add: others_def mset_filter)
    have "sorted (map order_of (others key (by_age (entries c))))"
      by (simp add: others_def by_age_def sorted_filter)
    moreover have "order_of x \<le> insertion_order m" if "x \<in> set (others key (by_age (entries c)))" for x
      using that T(4) [of x] assms(3) by (auto simp: others_def)
    ultimately show "sorted (map order_of (others key (by_age (entries c)) @ [(key, m)]))" by (auto simp: sorted_append)
  qed
  ultimately show ?thesis by blast
qed

subsection \<open>The FIFO specification\<close>

text \<open>
  A FIFO of entries in the order of their publication. Publishing moves the key to the end with its new entry and then drops entries
  from the front until both limits hold.
\<close>

type_synonym 'b fifo = "bool \<times> (cache_key \<times> 'b cache_entry) list"

definition fifo_of :: "'b scan_cache \<Rightarrow> 'b fifo" where
  "fifo_of c = (cache_closed c, map (apsnd cached_entry) (by_age (entries c)))"

lemma fifo_keys: "fst ` set (snd (fifo_of c)) = fst ` set (entries c)"
  by (simp add: fifo_of_def image_image)

definition fifo_publish ::
  "nat \<Rightarrow> nat \<Rightarrow> cache_key \<Rightarrow> 'b cache_entry \<Rightarrow> (cache_key \<times> 'b cache_entry) list \<Rightarrow> (cache_key \<times> 'b cache_entry) list" where
  "fifo_publish n b key e q = trim n b (\<lambda>x. unat (size_bytes (snd x))) (filter (\<lambda>x. fst x \<noteq> key) q @ [(key, e)])"

datatype 'b cache_op =
    CachePublish publish_environment cache_key "'b list" uint64 "uint64 option"
  | CacheClose

fun cache_step :: "'b scan_cache \<Rightarrow> 'b cache_op \<Rightarrow> 'b scan_cache" where
  "cache_step c (CachePublish env key bs n permit) = snd (PublishReserved env True key bs n permit c)"
| "cache_step c CacheClose = CloseCache c"

fun fifo_step :: "nat \<Rightarrow> nat \<Rightarrow> nat \<Rightarrow> 'b fifo \<Rightarrow> 'b cache_op \<Rightarrow> 'b fifo" where
  "fifo_step n b eb (closed, q) (CachePublish env key bs sz permit) =
     (if closed \<or> unat sz > eb \<or> unat sz > b \<or> entry_allocation_fails env \<or> clock_throws env \<or>
         node_allocation_fails env \<and> key \<notin> fst ` set q
      then (closed, q)
      else (closed, fifo_publish n b key \<lparr>batches = bs, stored_at_milliseconds = publish_now env, size_bytes = sz, entry_permit = permit\<rparr> q))"
| "fifo_step n b eb (closed, q) CacheClose = (True, [])"

definition fifo_lookup ::
  "uint64 \<Rightarrow> cache_key \<Rightarrow> freshness_policy \<Rightarrow> 'b fifo \<Rightarrow> CacheLookupResult \<times> 'b cache_entry option \<times> uint64" where
  "fifo_lookup now key policy f =
     (case (if IsEnabled policy \<and> \<not> fst f then map_of (snd f) key else None) of
        None \<Rightarrow> (CACHE_MISS, None, 0)
      | Some e \<Rightarrow>
          let age = entry_age now (stored_at_milliseconds e)
          in if age < fresh_milliseconds policy then (FRESH_HIT, Some e, age)
             else if policy_mode policy = STALE_IF_ERROR \<and> age < stale_limit policy then (STALE_CANDIDATE, Some e, age)
             else (EXPIRED, None, age))"

fun op_ok :: "'b cache_op \<Rightarrow> bool" where
  "op_ok (CachePublish env key bs n permit) \<longleftrightarrow> key_ok key"
| "op_ok CacheClose \<longleftrightarrow> True"

definition cache_ok :: "nat \<Rightarrow> 'b scan_cache \<Rightarrow> bool" where
  "cache_ok k c \<longleftrightarrow> table_ok c \<and> length (entries c) \<le> unat (max_entries c) \<and> unat (resident_bytes c) \<le> unat (max_bytes c) \<and>
     unat (next_insertion_order c) \<le> k"

lemma publish_cases:
  "snd (PublishReserved env True key bs n permit c) =
     (if \<not> CanFit n c \<or> entry_allocation_fails env \<or> clock_throws env \<or> cache_closed c then c
      else if node_allocation_fails env \<and> find_entry key (entries c) = None then c\<lparr>next_insertion_order := next_insertion_order c + 1\<rparr>
      else EvictIfNeeded (published_table key
        \<lparr>cached_entry = \<lparr>batches = bs, stored_at_milliseconds = publish_now env, size_bytes = n, entry_permit = permit\<rparr>,
         insertion_order = next_insertion_order c\<rparr> c))"
  by (simp add: PublishReserved_def published_table_def Let_def split: option.split prod.split)

lemma close_simulates: "cache_ok k c \<Longrightarrow> cache_ok k (CloseCache c) \<and> fifo_of (CloseCache c) = (True, [])"
  by (simp add: cache_ok_def table_ok_def CloseCache_def total_bytes_def fifo_of_def by_age_def)

lemma skip_order:
  assumes "cache_ok k c" and "Suc k < 2 ^ 64"
  shows "cache_ok (Suc k) (c\<lparr>next_insertion_order := next_insertion_order c + 1\<rparr>) \<and> fifo_of (c\<lparr>next_insertion_order := next_insertion_order c + 1\<rparr>) = fifo_of c"
proof -
  have v: "unat (next_insertion_order c + 1) = unat (next_insertion_order c) + 1"
    using unat_add_uint64 [of "next_insertion_order c" 1] assms by (simp add: cache_ok_def)
  with assms(1) show ?thesis
    by (auto simp: cache_ok_def table_ok_def fifo_of_def by_age_def CanFit_iff word_less_nat_alt less_Suc_eq)
qed

lemma publish_accepted:
  assumes "cache_ok k c" and "Suc k < 2 ^ 64" and "key_ok key" and "\<not> cache_closed c" and "CanFit (size_bytes e) c"
  defines "m \<equiv> \<lparr>cached_entry = e, insertion_order = next_insertion_order c\<rparr>"
  shows "cache_ok (Suc k) (EvictIfNeeded (published_table key m c)) \<and>
    fifo_of (EvictIfNeeded (published_table key m c)) =
      (False, fifo_publish (unat (max_entries c)) (unat (max_bytes c)) key e (snd (fifo_of c))) \<and>
    max_entries (EvictIfNeeded (published_table key m c)) = max_entries c \<and> max_bytes (EvictIfNeeded (published_table key m c)) = max_bytes c \<and>
    max_entry_bytes (EvictIfNeeded (published_table key m c)) = max_entry_bytes c"
proof -
  let ?c = "published_table key m c"
  from assms(1) have c: "table_ok c" "length (entries c) \<le> unat (max_entries c)" "unat (resident_bytes c) \<le> unat (max_bytes c)"
    "unat (next_insertion_order c) \<le> k" by (simp_all add: cache_ok_def)
  have fields: "max_entries ?c = max_entries c" "max_bytes ?c = max_bytes c" "max_entry_bytes ?c = max_entry_bytes c"
    "next_insertion_order ?c = next_insertion_order c + 1" "cache_closed ?c = cache_closed c"
    by (simp_all add: published_table_def Let_def split: option.splits prod.splits)
  have "next_insertion_order c \<noteq> uint64_max" using c(4) assms(2) by (auto simp: word_unat_eq_iff)
  with published_table_ok [OF c(1) assms(3), of m] c(3) assms(4,5)
  have ok: "table_ok ?c" and age: "by_age (entries ?c) = others key (by_age (entries c)) @ [(key, m)]" by (simp_all add: m_def)
  have "length (entries ?c) \<le> Suc (length (entries c))"
    using arg_cong [OF age, of length] length_filter_le [of _ "by_age (entries c)"] by (simp add: others_def)
  then have small: "small_table ?c" using c(2) table_okD(8) [OF c(1)] by (simp add: small_table_def)
  let ?f = "EvictIfNeeded ?c"
  from evict_trims [OF ok small] have f: "table_ok ?f"
    "by_age (entries ?f) = trim (unat (max_entries c)) (unat (max_bytes c)) bytes_of (others key (by_age (entries c)) @ [(key, m)])"
    "max_entries ?f = max_entries c" "max_bytes ?f = max_bytes c" "max_entry_bytes ?f = max_entry_bytes c"
    "next_insertion_order ?f = next_insertion_order c + 1" "cache_closed ?f = cache_closed c"
    by (simp_all add: fields age)
  have "length (entries ?f) \<le> unat (max_entries c)" "total_bytes (entries ?f) \<le> unat (max_bytes c)"
    using trim_bounded [of "unat (max_entries c)" "unat (max_bytes c)" bytes_of "others key (by_age (entries c)) @ [(key, m)]"]
      total_bytes_mset [OF by_age_mset, of "entries ?f"] by_age_length [of "entries ?f"]
    unfolding f(2) [symmetric] by (simp_all add: total_bytes_def)
  moreover have "unat (next_insertion_order c + 1) \<le> Suc k" using unat_add_uint64 [of "next_insertion_order c" 1] c(4) assms(2) by simp
  ultimately have "cache_ok (Suc k) ?f" using f table_okD(5) [OF f(1)] by (simp add: cache_ok_def)
  moreover have "fifo_of ?f = (False, fifo_publish (unat (max_entries c)) (unat (max_bytes c)) key e (snd (fifo_of c)))"
  proof -
    have a: "filter (\<lambda>x. fst x \<noteq> key) (map (apsnd cached_entry) xs) @ [(key, e)] = map (apsnd cached_entry) (others key xs @ [(key, m)])" for xs
      by (simp add: others_def m_def filter_map o_def)
    have b: "trim n b (\<lambda>x. unat (size_bytes (snd x))) (map (apsnd cached_entry) zs) = map (apsnd cached_entry) (trim n b bytes_of zs)" for n b zs
      by (simp add: trim_map o_def)
    show ?thesis unfolding fifo_of_def f(2,7) fifo_publish_def snd_conv a b using assms(4) by simp
  qed
  ultimately show ?thesis using f by blast
qed

lemma step_simulates:
  assumes "cache_ok k c" and "Suc k < 2 ^ 64" and "op_ok op"
  shows "cache_ok (Suc k) (cache_step c op) \<and>
    fifo_of (cache_step c op) = fifo_step (unat (max_entries c)) (unat (max_bytes c)) (unat (max_entry_bytes c)) (fifo_of c) op \<and>
    max_entries (cache_step c op) = max_entries c \<and> max_bytes (cache_step c op) = max_bytes c \<and>
    max_entry_bytes (cache_step c op) = max_entry_bytes c"
proof (cases op)
  case CacheClose
  from assms(1) have "cache_ok (Suc k) c" by (simp add: cache_ok_def)
  from close_simulates [OF this] CacheClose show ?thesis by (cases "fifo_of c") (simp add: CloseCache_def)
next
  case (CachePublish env key bs n permit)
  have key: "key_ok key" using assms(3) CachePublish by simp
  let ?e = "\<lparr>batches = bs, stored_at_milliseconds = publish_now env, size_bytes = n, entry_permit = permit\<rparr>"
  obtain q where q: "fifo_of c = (cache_closed c, q)" by (simp add: fifo_of_def)
  have known: "find_entry key (entries c) = None \<longleftrightarrow> key \<notin> fst ` set q"
    using assms(1) q key table_okD(3) [of c] fifo_keys [of c] by (simp add: cache_ok_def find_entry_None)
  have fit: "CanFit n c \<longleftrightarrow> \<not> (unat n > unat (max_entry_bytes c) \<or> unat n > unat (max_bytes c))"
    by (auto simp: CanFit_iff word_le_nat_alt)
  have same: "cache_ok (Suc k) c" using assms(1) by (simp add: cache_ok_def)
  consider (refused) "\<not> CanFit n c \<or> entry_allocation_fails env \<or> clock_throws env \<or> cache_closed c"
    | (node) "\<not> (\<not> CanFit n c \<or> entry_allocation_fails env \<or> clock_throws env \<or> cache_closed c)" "node_allocation_fails env \<and> find_entry key (entries c) = None"
    | (accepted) "\<not> (\<not> CanFit n c \<or> entry_allocation_fails env \<or> clock_throws env \<or> cache_closed c)"
      "\<not> (node_allocation_fails env \<and> find_entry key (entries c) = None)" by blast
  then show ?thesis
  proof cases
    case refused
    then have "cache_step c op = c" using CachePublish by (simp add: publish_cases)
    then show ?thesis using refused CachePublish q same fit by auto
  next
    case node
    then have "cache_step c op = c\<lparr>next_insertion_order := next_insertion_order c + 1\<rparr>" using CachePublish by (simp add: publish_cases)
    then show ?thesis using node CachePublish q known skip_order [OF assms(1,2)] by auto
  next
    case accepted
    then have "cache_step c op = EvictIfNeeded (published_table key \<lparr>cached_entry = ?e, insertion_order = next_insertion_order c\<rparr> c)"
      using CachePublish by (auto simp: publish_cases)
    with publish_accepted [OF assms(1,2) key, of ?e] accepted CachePublish q known fit show ?thesis by auto
  qed
qed

lemma run_simulates:
  "cache_ok 0 c \<Longrightarrow> list_all op_ok ops \<Longrightarrow> length ops < 2 ^ 64 \<Longrightarrow>
    cache_ok (length ops) (run_ops cache_step c ops) \<and>
    fifo_of (run_ops cache_step c ops) =
      run_ops (fifo_step (unat (max_entries c)) (unat (max_bytes c)) (unat (max_entry_bytes c))) (fifo_of c) ops \<and>
    max_entries (run_ops cache_step c ops) = max_entries c \<and> max_bytes (run_ops cache_step c ops) = max_bytes c \<and>
    max_entry_bytes (run_ops cache_step c ops) = max_entry_bytes c"
proof (induction ops rule: rev_induct)
  case (snoc op ops)
  then have IH: "cache_ok (length ops) (run_ops cache_step c ops)"
    "fifo_of (run_ops cache_step c ops) =
      run_ops (fifo_step (unat (max_entries c)) (unat (max_bytes c)) (unat (max_entry_bytes c))) (fifo_of c) ops"
    "max_entries (run_ops cache_step c ops) = max_entries c" "max_bytes (run_ops cache_step c ops) = max_bytes c"
    "max_entry_bytes (run_ops cache_step c ops) = max_entry_bytes c" by auto
  from step_simulates [OF IH(1), of op] snoc.prems IH show ?case by (simp add: run_ops_append)
qed simp

lemma new_cache_ok: "new_CompleteScanResultCache has_clock n b eb = Inr c \<Longrightarrow> cache_ok 0 c \<and> fifo_of c = (False, []) \<and>
  max_entries c = n \<and> max_bytes c = b \<and> max_entry_bytes c = eb"
  by (auto simp: new_CompleteScanResultCache_def cache_ok_def table_ok_def total_bytes_def fifo_of_def by_age_def word_neq_0_conv
      split: if_splits)

lemma lookup_by_key:
  assumes "table_ok c" and "key_ok key"
  shows "Lookup True now key policy c = Inr (fifo_lookup now key policy (fifo_of c))"
proof -
  note T = table_okD [OF assms(1)]
  have "map_option (\<lambda>x. cached_entry (snd x)) (find_entry key (entries c)) = map_of (snd (fifo_of c)) key"
  proof (cases "find_entry key (entries c)")
    case None
    then have "map_of (snd (fifo_of c)) key = None" using assms(2) T(3) by (simp add: find_entry_None map_of_eq_None_iff fifo_keys)
    with None show ?thesis by simp
  next
    case (Some x)
    then have x: "x \<in> set (entries c)" "fst x = key" using assms(2) T(2,3) by (simp_all add: find_entry_Some)
    have "distinct (map fst (snd (fifo_of c)))"
      using T(2) by (simp add: fifo_of_def o_def) (metis by_age_mset mset_eq_imp_distinct_iff mset_map)
    moreover have "(key, cached_entry (snd x)) \<in> set (snd (fifo_of c))" 
      using x image_eqI [of _ "apsnd cached_entry" x "set (entries c)"] by (simp add: fifo_of_def apsnd_def map_prod_def split_beta)
    ultimately show ?thesis using Some by simp
  qed
  then show ?thesis
    by (cases "find_entry key (entries c)") (auto simp: Lookup_def fifo_lookup_def fifo_of_def Let_def split_beta split: option.splits)
qed

subsection \<open>Properties\<close>

text \<open>
  C11. The cache refines a FIFO: for every sequence of fewer than \<open>2 ^ 64\<close> publications and closings on a newly built cache, with any
  outcome of clocks and allocations, the entries in order of publication are those of the specification, which moves a published key
  to the end and drops the oldest entries until the limits hold; and every lookup answers what the specification answers. So
  neither the iteration order of the hash map nor hash collisions can be observed.
\<close>

theorem cache_refines_fifo:
  assumes "new_CompleteScanResultCache has_clock n b eb = Inr c0" and "list_all op_ok ops" and "length ops < 2 ^ 64"
  defines "c \<equiv> run_ops cache_step c0 ops" and "f \<equiv> run_ops (fifo_step (unat n) (unat b) (unat eb)) (False, []) ops"
  shows "fifo_of c = f \<and> (\<forall>now key policy. key_ok key \<longrightarrow> Lookup True now key policy c = Inr (fifo_lookup now key policy f))"
proof -
  note ok = new_cache_ok [OF assms(1)]
  with run_simulates [of c0 ops] assms(2,3) have c: "cache_ok (length ops) c" "fifo_of c = f" by (simp_all add: c_def f_def)
  from c(1) have "table_ok c" by (simp add: cache_ok_def)
  from lookup_by_key [OF this] c(2) show ?thesis by simp
qed

definition sample_key :: "string \<Rightarrow> cache_key" where
  "sample_key name = \<lparr>key_semantic = ForBuiltIn name 7, key_credential = None\<rparr>"

definition quiet_publish :: "uint64 \<Rightarrow> publish_environment" where
  "quiet_publish now = \<lparr>entry_allocation_fails = False, clock_throws = False, publish_now = now, node_allocation_fails = False\<rparr>"

definition sample_publications :: "string cache_op list" where
  "sample_publications =
     [CachePublish (quiet_publish 10) (sample_key ''a'') [''x''] 4 None, CachePublish (quiet_publish 20) (sample_key ''b'') [''y''] 4 None,
      CachePublish (quiet_publish 30) (sample_key ''c'') [''z''] 4 None]"

lemma sample_key_ok: "key_ok (sample_key name)"
  by (simp add: key_ok_def sample_key_def ForBuiltIn_def)

theorem cache_refines_fifo_witness:
  "\<exists>c0. new_CompleteScanResultCache True 2 100 100 = Inr c0 \<and>
     map fst (snd (fifo_of (run_ops cache_step c0 sample_publications))) = [sample_key ''b'', sample_key ''c'']"
proof -
  obtain c0 :: "string scan_cache" where c0: "new_CompleteScanResultCache True 2 100 100 = Inr c0"
    by (simp add: new_CompleteScanResultCache_def HARD_MAX_ENTRIES_def HARD_MAX_BYTES_def HARD_MAX_ENTRY_BYTES_def)
  have "list_all op_ok sample_publications" "length sample_publications < 2 ^ 64" by (simp_all add: sample_publications_def sample_key_ok)
  from cache_refines_fifo [OF c0 this] c0 show ?thesis
    by (simp add: sample_publications_def quiet_publish_def fifo_publish_def sample_key_def ForBuiltIn_def)
qed

text \<open>
  C32. Capacity: after any such sequence the resident byte counter is exactly the sum of the sizes of the resident entries, entries and
  bytes are within the configured limits, no entry is larger than the configured limit of an entry, these limits are within the hard profile (256 entries, 64 MiB,
  16 MiB per entry), every key is resident at most once, and a publication that is accepted leaves its own entry resident as the newest one.
\<close>

theorem cache_bounded:
  assumes "new_CompleteScanResultCache has_clock n b eb = Inr c0" and "list_all op_ok ops" and "length ops < 2 ^ 64"
  defines "c \<equiv> run_ops cache_step c0 ops"
  shows "unat (resident_bytes c) = (\<Sum>x\<leftarrow>entries c. unat (size_bytes (cached_entry (snd x)))) \<and>
    unat (resident_bytes c) \<le> unat b \<and> length (entries c) \<le> unat n \<and> unat n \<le> 256 \<and> unat b \<le> 64 * 1024 * 1024 \<and>
    (\<forall>x \<in> set (entries c). unat (size_bytes (cached_entry (snd x))) \<le> unat eb) \<and> unat eb \<le> 16 * 1024 * 1024 \<and> distinct (map fst (entries c)) \<and>
    (\<forall>env key bs m permit e c' r. key_ok key \<longrightarrow> Suc (length ops) < 2 ^ 64 \<longrightarrow>
      PublishReserved env True key bs m permit c = ((True, r, None, Some e), c') \<longrightarrow> (\<exists>q. snd (fifo_of c') = q @ [(key, e)]))"
proof -
  from new_cache_ok [OF assms(1)] run_simulates [of c0 ops] assms(2,3)
  have ok: "cache_ok (length ops) c" and lim: "max_entries c = n" "max_bytes c = b" "max_entry_bytes c = eb" by (simp_all add: c_def)
  have t: "table_ok c" "length (entries c) \<le> unat n" "unat (resident_bytes c) \<le> unat b" using ok lim by (simp_all add: cache_ok_def)
  note T = table_okD [OF t(1)]
  have sizes: "unat (size_bytes (cached_entry (snd x))) \<le> unat eb" if "x \<in> set (entries c)" for x
    using t(1) that lim by (auto simp: table_ok_def CanFit_iff word_le_nat_alt)
  have eb: "unat eb \<le> 16 * 1024 * 1024" using T(9) lim by (simp add: word_le_nat_alt)
  have newest: "\<exists>q. snd (fifo_of c') = q @ [(key, e)]"
    if "key_ok key" "Suc (length ops) < 2 ^ 64" and p: "PublishReserved env True key bs m permit c = ((True, r, None, Some e), c')"
    for env key bs m permit e c' r
  proof -
    have acc: "\<not> (\<not> CanFit m c \<or> entry_allocation_fails env \<or> clock_throws env \<or> cache_closed c)"
      "\<not> (node_allocation_fails env \<and> find_entry key (entries c) = None)"
      and e: "e = \<lparr>batches = bs, stored_at_milliseconds = publish_now env, size_bytes = m, entry_permit = permit\<rparr>"
      using p by (auto simp: PublishReserved_def Let_def split: if_splits option.splits)
    have "c' = EvictIfNeeded (published_table key \<lparr>cached_entry = e, insertion_order = next_insertion_order c\<rparr> c)"
      using publish_cases [of env key bs m permit c] acc e unfolding if_not_P [OF acc(1)] if_not_P [OF acc(2)] by (simp add: p)
    with publish_accepted [OF ok that(2,1), of e] acc e
    have "snd (fifo_of c') = fifo_publish (unat n) (unat b) key e (snd (fifo_of c))" by (simp add: lim)
    moreover have "unat m \<le> unat b" using acc(1) lim by (simp add: CanFit_iff word_le_nat_alt)
    ultimately show ?thesis
      unfolding fifo_publish_def using trim_keeps_last [of "unat n" "\<lambda>x. unat (size_bytes (snd x))" "(key, e)" "unat b"] T(6) lim e by simp
  qed
  show ?thesis using T t lim sizes eb newest by (simp add: total_bytes_def)
qed

theorem cache_bounded_witness:
  "\<exists>c0. new_CompleteScanResultCache True 2 100 50 = Inr c0 \<and>
     length (entries (run_ops cache_step c0 sample_publications)) \<le> 2 \<and> unat (resident_bytes (run_ops cache_step c0 sample_publications)) \<le> 100 \<and>
     (\<forall>x \<in> set (entries (run_ops cache_step c0 sample_publications)). unat (size_bytes (cached_entry (snd x))) \<le> 50)"
proof -
  obtain c0 :: "string scan_cache" where c0: "new_CompleteScanResultCache True 2 100 50 = Inr c0"
    by (simp add: new_CompleteScanResultCache_def HARD_MAX_ENTRIES_def HARD_MAX_BYTES_def HARD_MAX_ENTRY_BYTES_def)
  have "list_all op_ok sample_publications" "length sample_publications < 2 ^ 64" by (simp_all add: sample_publications_def sample_key_ok)
  from cache_bounded [OF c0 this] c0 show ?thesis by simp
qed

text \<open>
  What a lookup hands out is inside its window: for a policy the constructors admit, a fresh hit is younger than the fresh window, a
  stale candidate is offered only in the mode \<open>STALE_IF_ERROR\<close> and is younger than the fresh and stale windows together (at most eight
  days), both computed without overflow; the entry is resident under an equal key and was not stored in the future of the clock. A
  disabled policy or a closed cache hands out nothing.
\<close>

theorem lookup_within_window:
  assumes "Lookup True now key policy c = Inr (r, Some e, age)" and "IsValidPolicy policy"
  shows "(\<exists>k m. (k, m) \<in> set (entries c) \<and> CacheKeyEqual k key \<and> cached_entry m = e) \<and> \<not> cache_closed c \<and>
    stored_at_milliseconds e \<le> now \<and> unat age = unat now - unat (stored_at_milliseconds e) \<and>
    (r = FRESH_HIT \<and> unat age < unat (fresh_milliseconds policy) \<or>
     r = STALE_CANDIDATE \<and> policy_mode policy = STALE_IF_ERROR \<and> unat (fresh_milliseconds policy) \<le> unat age \<and>
       unat age < unat (fresh_milliseconds policy) + unat (stale_milliseconds policy) \<and>
       unat (fresh_milliseconds policy) + unat (stale_milliseconds policy) \<le> 8 * 24 * 60 * 60 * 1000)"
proof -
  from assms(1) obtain k m where f: "find_entry key (entries c) = Some (k, m)" and e: "e = cached_entry m" and on: "\<not> cache_closed c" "IsEnabled policy"
    and age: "age = entry_age now (stored_at_milliseconds e)"
    and r: "r = FRESH_HIT \<and> age < fresh_milliseconds policy \<or>
      r = STALE_CANDIDATE \<and> policy_mode policy = STALE_IF_ERROR \<and> \<not> age < fresh_milliseconds policy \<and> age < stale_limit policy"
    by (auto simp: Lookup_def Let_def split: if_splits option.splits)
  have fresh: "unat (fresh_milliseconds policy) \<le> 86400000"
    using assms(2) on(2) by (auto simp: IsValidPolicy_def IsEnabled_def MAX_FRESH_MILLISECONDS_def word_le_nat_alt split: CacheMode.splits)
  have stale: "unat (stale_milliseconds policy) \<le> 604800000" if "policy_mode policy = STALE_IF_ERROR"
    using assms(2) that by (simp add: IsValidPolicy_def MAX_STALE_MILLISECONDS_def word_le_nat_alt)
  have limit: "unat (stale_limit policy) = unat (fresh_milliseconds policy) + unat (stale_milliseconds policy)" if "policy_mode policy = STALE_IF_ERROR"
  proof -
    have sum: "unat (fresh_milliseconds policy + stale_milliseconds policy) = unat (fresh_milliseconds policy) + unat (stale_milliseconds policy)"
      using fresh stale [OF that] by (intro unat_add_uint64) simp
    have "\<not> stale_milliseconds policy > uint64_max - fresh_milliseconds policy"
      using fresh stale [OF that] by (simp add: word_less_nat_alt unat_max_diff)
    with sum show ?thesis by (simp add: stale_limit_def)
  qed
  have "unat age < 700000000" using r fresh stale limit by (auto simp: word_less_nat_alt)
  then have past: "stored_at_milliseconds e \<le> now" by (auto simp: age entry_age_def split: if_splits)
  then have "unat age = unat now - unat (stored_at_milliseconds e)" by (simp add: age entry_age_def unat_sub)
  moreover have "(k, m) \<in> set (entries c)" "CacheKeyEqual k key" using f by (auto simp: find_entry_def find_Some_iff in_set_conv_nth)
  ultimately show ?thesis using r e on past limit fresh stale by (auto simp: word_less_nat_alt word_le_nat_alt not_less)
qed

definition sample_cache :: "string scan_cache" where
  "sample_cache = \<lparr>max_entries = 2, max_bytes = 100, max_entry_bytes = 100,
     entries = [(sample_key ''a'', \<lparr>cached_entry = \<lparr>batches = [''x''], stored_at_milliseconds = 10, size_bytes = 4, entry_permit = None\<rparr>,
                                  insertion_order = 0\<rparr>)],
     next_insertion_order = 1, resident_bytes = 4, cache_closed = False\<rparr>"

theorem lookup_within_window_witness:
  "Lookup True 25 (sample_key ''a'') \<lparr>policy_mode = STALE_IF_ERROR, fresh_milliseconds = 10, stale_milliseconds = 10\<rparr> sample_cache =
     Inr (STALE_CANDIDATE, Some \<lparr>batches = [''x''], stored_at_milliseconds = 10, size_bytes = 4, entry_permit = None\<rparr>, 15) \<and>
   (10 :: uint64) \<le> 25"
proof -
  let ?p = "\<lparr>policy_mode = STALE_IF_ERROR, fresh_milliseconds = 10, stale_milliseconds = 10\<rparr>"
  have l: "Lookup True 25 (sample_key ''a'') ?p sample_cache =
    Inr (STALE_CANDIDATE, Some \<lparr>batches = [''x''], stored_at_milliseconds = 10, size_bytes = 4, entry_permit = None\<rparr>, 15)"
    by (simp add: Lookup_def sample_cache_def IsEnabled_def find_entry_def CacheKeyEqual_def SemanticEqual_def sample_key_def ForBuiltIn_def
        entry_age_def stale_limit_def)
  have "IsValidPolicy ?p" by (simp add: IsValidPolicy_def MAX_FRESH_MILLISECONDS_def MAX_STALE_MILLISECONDS_def)
  from lookup_within_window [OF l this] l show ?thesis by simp
qed

text \<open>
  C33. A refused publication leaves the caller's batches and permit and the resident entries as they were, for every reason but one: when
  reading the clock throws, the handler moves the still empty candidate back over the caller's batches and
  permit, so that both are lost. An accepted one moves them into the entry.
\<close>

theorem publish_keeps_callers_state:
  "PublishReserved env pointers_ok key bs n permit c = ((published, bs', permit', e), c') \<Longrightarrow>
    (published \<longrightarrow> bs' = [] \<and> permit' = None \<and>
       e = Some \<lparr>batches = bs, stored_at_milliseconds = publish_now env, size_bytes = n, entry_permit = permit\<rparr>) \<and>
    (\<not> published \<longrightarrow> e = None \<and> fifo_of c' = fifo_of c \<and> resident_bytes c' = resident_bytes c \<and>
       (if pointers_ok \<and> CanFit n c \<and> \<not> entry_allocation_fails env \<and> \<not> cache_closed c \<and> clock_throws env then bs' = [] \<and> permit' = None
        else bs' = bs \<and> permit' = permit))"
  by (auto simp: PublishReserved_def Let_def fifo_of_def split: if_splits option.splits)

theorem publish_keeps_callers_state_witness:
  "snd (fst (PublishReserved \<lparr>entry_allocation_fails = False, clock_throws = True, publish_now = 0, node_allocation_fails = False\<rparr> True
     (sample_key ''b'') [''x''] 4 (Some 4) sample_cache)) = ([], None, None)"
proof -
  let ?env = "\<lparr>entry_allocation_fails = False, clock_throws = True, publish_now = 0, node_allocation_fails = False\<rparr>"
  obtain p b q e c where r: "PublishReserved ?env True (sample_key ''b'') [''x''] 4 (Some 4) sample_cache = ((p, b, q, e), c)"
    by (metis prod.exhaust)
  have fit: "CanFit 4 sample_cache" "\<not> cache_closed sample_cache" by (simp_all add: CanFit_def sample_cache_def)
  then have "\<not> p" using r by (simp add: PublishReserved_def)
  with publish_keeps_callers_state [OF r] r fit show ?thesis by simp
qed

end
