(* ===== verification/Cached_Scan.thy ===== *)
theory Cached_Scan
  imports Scan_Cache_Fifo Json_Reader
begin

section \<open>The cached scan stream\<close>

text \<open>
  The stream that puts the cache of \<open>Scan_Cache\<close> in front of a remote scan (\<open>src/runtime/cache/cached_scan_stream.cpp\<close>). It replays a
  fresh entry, or streams the remote batches while collecting a candidate entry, or, with a stale entry at hand, holds the
  refreshed batches behind a barrier until the remote scan is complete and falls back to the stale entry when it fails.

  The remote stream is the list of the outcomes of its pulls; with a batch come the capacities of its vectors and strings, what the
  admission controller answers to the reservation of its bytes, and whether copying it fails. A permit is the amount it holds. The clock,
  the cancellation and the circumstances of a publication are arguments of each call, and so is the shared cache, so that other users of
  the cache may change it between calls in any way. Diagnostics are modelled as the status, the outcome and the counters they
  report; elapsed times, the snapshot of the remote stream and allocation failure while a batch is handed out are not.
\<close>

datatype FailureClass =
  CONFIGURATION_CLASS | AUTHORIZATION_CLASS | CREDENTIAL_PROVIDER_CLASS | DESTINATION_POLICY_CLASS | TRANSPORT_CLASS | TIMEOUT_CLASS |
  REMOTE_STATUS_CLASS | RATE_LIMIT_CLASS | PROTOCOL_CLASS | DECODE_CLASS | SCHEMA_CLASS | RESOURCE_BUDGET_CLASS | CANCELLATION_CLASS |
  INTERNAL_CLASS | LOCAL_ADMISSION_CLASS

fun ClassifyFailureClass :: "ErrorStage \<Rightarrow> FailureClass" where
  "ClassifyFailureClass TRANSPORT = TRANSPORT_CLASS"
| "ClassifyFailureClass HTTP_STATUS = REMOTE_STATUS_CLASS"
| "ClassifyFailureClass DECODE = DECODE_CLASS"
| "ClassifyFailureClass SCHEMA = SCHEMA_CLASS"
| "ClassifyFailureClass POLICY = DESTINATION_POLICY_CLASS"
| "ClassifyFailureClass RESOURCE = RESOURCE_BUDGET_CLASS"
| "ClassifyFailureClass INTERNAL = INTERNAL_CLASS"
| "ClassifyFailureClass AUTHENTICATION = CREDENTIAL_PROVIDER_CLASS"
| "ClassifyFailureClass AUTHORIZATION = AUTHORIZATION_CLASS"
| "ClassifyFailureClass REMOTE_PROTOCOL = PROTOCOL_CLASS"

text \<open>An error is classified where it is thrown, or by its stage.\<close>

record scan_error =
  error_stage :: ErrorStage
  error_field :: string
  error_classified :: "FailureClass option"

definition error_class :: "scan_error \<Rightarrow> FailureClass" where
  "error_class e = (case error_classified e of Some k \<Rightarrow> k | None \<Rightarrow> ClassifyFailureClass (error_stage e))"

datatype scan_exception = ScanCancelled | ScanError scan_error | OtherException

datatype CacheStatus =
  STATUS_OFF | STATUS_MISS | STATUS_FRESH_HIT | STATUS_REFRESHED | STATUS_STALE_SERVED | STATUS_EXPIRED | STATUS_EXPIRED_DURING_REFRESH |
  STATUS_STORE_BYPASSED_CAPACITY | STATUS_REFRESH_STREAMED_CAPACITY

datatype ScanOutcome =
  OUTCOME_NOT_STARTED | OUTCOME_RUNNING | OUTCOME_SUCCEEDED | OUTCOME_FAILED | OUTCOME_CANCELLED | OUTCOME_CLOSED

datatype StreamMode =
  FRESH_HIT_REPLAY | ACCUMULATING_MISS | BARRIER_BUFFERING | BARRIER_FRESH_SERVE | BARRIER_DRAIN_EMIT | BARRIER_DRAINED_UNCACHED |
  STALE_SERVE | DRAINED | STREAM_FAILED

subsection \<open>Retained bytes\<close>

record value_layout =
  varchar_capacity :: uint64
  elements_capacity :: uint64
  element_varchar_capacities :: "uint64 list"

record row_layout =
  values_capacity :: uint64
  value_layouts :: "value_layout list"

record batch_layout =
  columns_capacity :: uint64
  rows_capacity :: uint64
  row_layouts :: "row_layout list"

record 'b platform =
  sizeof_TypedBatch :: uint64
  sizeof_OutputValueType :: uint64
  sizeof_TypedRow :: uint64
  sizeof_TypedValue :: uint64
  sizeof_TypedScalarValue :: uint64
  row_count :: "'b \<Rightarrow> uint64"

text \<open>\<open>None\<close> is the overflow error.\<close>

definition AddRetainedBytes :: "uint64 \<Rightarrow> uint64 \<Rightarrow> uint64 option" where
  "AddRetainedBytes acc additional = (if additional > uint64_max - acc then None else Some (acc + additional))"

definition AddVectorStorage :: "uint64 \<Rightarrow> uint64 \<Rightarrow> uint64 \<Rightarrow> uint64 option" where
  "AddVectorStorage element_size capacity acc =
     (if capacity \<noteq> 0 \<and> capacity > uint64_max div element_size then None else AddRetainedBytes acc (capacity * element_size))"

definition AddStringStorage :: "uint64 \<Rightarrow> uint64 \<Rightarrow> uint64 option" where
  "AddStringStorage capacity acc = AddRetainedBytes acc (if capacity = uint64_max then capacity else capacity + 1)"

fun add_each :: "('x \<Rightarrow> uint64 \<Rightarrow> uint64 option) \<Rightarrow> 'x list \<Rightarrow> uint64 \<Rightarrow> uint64 option" where
  "add_each add [] acc = Some acc"
| "add_each add (x # xs) acc = Option.bind (add x acc) (add_each add xs)"

definition add_value :: "'b platform \<Rightarrow> value_layout \<Rightarrow> uint64 \<Rightarrow> uint64 option" where
  "add_value pl v acc =
     Option.bind (AddStringStorage (varchar_capacity v) acc) (\<lambda>acc.
     Option.bind (AddVectorStorage (sizeof_TypedScalarValue pl) (elements_capacity v) acc) (\<lambda>acc.
     add_each AddStringStorage (element_varchar_capacities v) acc))"

definition add_row :: "'b platform \<Rightarrow> row_layout \<Rightarrow> uint64 \<Rightarrow> uint64 option" where
  "add_row pl r acc =
     Option.bind (AddVectorStorage (sizeof_TypedValue pl) (values_capacity r) acc) (add_each (add_value pl) (value_layouts r))"

definition RetainedBatchBytes :: "'b platform \<Rightarrow> batch_layout \<Rightarrow> uint64 option" where
  "RetainedBatchBytes pl l =
     Option.bind (AddVectorStorage (sizeof_OutputValueType pl) (columns_capacity l) (sizeof_TypedBatch pl)) (\<lambda>acc.
     Option.bind (AddVectorStorage (sizeof_TypedRow pl) (rows_capacity l) acc) (add_each (add_row pl) (row_layouts l)))"

subsection \<open>State\<close>

record retention =
  reservation_acquired :: bool
  copy_fails :: bool
  rollback_acquired :: bool

datatype 'b pull = Produces 'b batch_layout retention | Exhausted | Throws scan_exception

record 'b source =
  script :: "'b pull list"
  source_cancels :: nat
  source_closes :: nat

record 'b cached_stream =
  underlying :: "'b source option"
  stream_key :: cache_key
  stream_policy :: freshness_policy
  has_admission :: bool
  mode :: StreamMode
  replay_entry :: "'b cache_entry option"
  stale_entry :: "'b cache_entry option"
  cached_batches :: "'b list"
  pending_uncached_batch :: "'b option"
  replay_index :: nat
  hit_age_milliseconds :: uint64
  hit_stored_at_milliseconds :: uint64
  delivery_age_milliseconds :: uint64
  candidate_size_bytes :: uint64
  candidate_permit :: "uint64 option"
  candidate_cacheable :: bool
  diagnostics_status :: CacheStatus
  diagnostics_refresh_attempted :: bool
  stale_cause_failure_class :: FailureClass
  max_candidate_bytes :: uint64
  rows_returned :: uint64
  profile_outcome :: ScanOutcome
  profile_started :: bool
  profile_finished :: bool
  has_terminal_failure :: bool
  terminal_failure_class :: FailureClass
  stream_cancelled :: bool
  stream_closed :: bool
  terminal_exception :: "scan_exception option"

definition new_CachedScanStream ::
  "'b source option \<Rightarrow> bool \<Rightarrow> uint64 \<Rightarrow> cache_key \<Rightarrow> freshness_policy \<Rightarrow> uint64 \<Rightarrow> bool \<Rightarrow> 'b scan_cache \<Rightarrow>
   cpp_exception + 'b cached_stream" where
  "new_CachedScanStream source has_dependencies now key policy candidate_limit admission c =
     (if source = None \<or> \<not> has_dependencies then Inl (invalid_argument ''cached scan stream requires all dependencies'')
      else case Lookup True now key policy c of
        Inl e \<Rightarrow> Inl e
      | Inr (result, entry, age) \<Rightarrow>
          let st = \<lparr>underlying = source, stream_key = key, stream_policy = policy, has_admission = admission, mode = ACCUMULATING_MISS,
                replay_entry = None, stale_entry = None, cached_batches = [], pending_uncached_batch = None, replay_index = 0,
                hit_age_milliseconds = 0, hit_stored_at_milliseconds = 0, delivery_age_milliseconds = 0, candidate_size_bytes = 0,
                candidate_permit = None, candidate_cacheable = True, diagnostics_status = STATUS_MISS,
                diagnostics_refresh_attempted = False, stale_cause_failure_class = INTERNAL_CLASS, max_candidate_bytes = candidate_limit,
                rows_returned = 0, profile_outcome = OUTCOME_NOT_STARTED, profile_started = False, profile_finished = False,
                has_terminal_failure = False, terminal_failure_class = INTERNAL_CLASS, stream_cancelled = False, stream_closed = False,
                terminal_exception = None\<rparr>
          in case entry of
               None \<Rightarrow> Inr st
             | Some e \<Rightarrow>
                 if result = FRESH_HIT
                 then Inr (st\<lparr>replay_entry := Some e, hit_age_milliseconds := age, hit_stored_at_milliseconds := stored_at_milliseconds e,
                        diagnostics_status := STATUS_FRESH_HIT, mode := FRESH_HIT_REPLAY, underlying := None\<rparr>)
                 else if result = STALE_CANDIDATE
                 then Inr (st\<lparr>stale_entry := Some e, hit_age_milliseconds := age, hit_stored_at_milliseconds := stored_at_milliseconds e,
                        diagnostics_status := STATUS_MISS, diagnostics_refresh_attempted := True, mode := BARRIER_BUFFERING\<rparr>)
                 else Inr st)"

subsection \<open>The candidate\<close>

definition ReserveCandidateBytes :: "retention \<Rightarrow> uint64 \<Rightarrow> 'b cached_stream \<Rightarrow> bool \<times> 'b cached_stream" where
  "ReserveCandidateBytes r n st =
     (if \<not> has_admission st then (True, st)
      else if reservation_acquired r then (True, st\<lparr>candidate_permit := Some n\<rparr>) else (False, st))"

definition RollBackCandidateReservation :: "retention \<Rightarrow> uint64 \<Rightarrow> 'b cached_stream \<Rightarrow> 'b cached_stream" where
  "RollBackCandidateReservation r n st =
     (if candidate_permit st = None then st
      else if n = 0 then st\<lparr>candidate_permit := None\<rparr>
      else st\<lparr>candidate_permit := (if rollback_acquired r then Some n else None)\<rparr>)"

definition RetainCandidateBatch :: "'b platform \<Rightarrow> 'b \<Rightarrow> batch_layout \<Rightarrow> retention \<Rightarrow> 'b cached_stream \<Rightarrow> bool \<times> 'b cached_stream" where
  "RetainCandidateBatch pl b l r st =
     (case RetainedBatchBytes pl l of
        None \<Rightarrow> (False, st)
      | Some batch_size \<Rightarrow>
          if batch_size > max_candidate_bytes st \<or> candidate_size_bytes st > max_candidate_bytes st - batch_size then (False, st)
          else
            let next_size = candidate_size_bytes st + batch_size;
                (reserved, st') = ReserveCandidateBytes r next_size st
            in if \<not> reserved then (False, st')
               else if copy_fails r then (False, RollBackCandidateReservation r (candidate_size_bytes st) st')
               else (True, st'\<lparr>cached_batches := cached_batches st' @ [b], candidate_size_bytes := next_size\<rparr>))"

definition ClearCandidate :: "'b cached_stream \<Rightarrow> 'b cached_stream" where
  "ClearCandidate st = st\<lparr>cached_batches := [], candidate_size_bytes := 0, candidate_permit := None\<rparr>"

definition ClearReplayEntries :: "'b cached_stream \<Rightarrow> 'b cached_stream" where
  "ClearReplayEntries st = st\<lparr>replay_entry := None, stale_entry := None\<rparr>"

definition PublishCandidate :: "publish_environment \<Rightarrow> 'b cached_stream \<Rightarrow> 'b scan_cache \<Rightarrow> 'b cached_stream \<times> 'b scan_cache" where
  "PublishCandidate env st c =
     (if \<not> candidate_cacheable st then (st, c)
      else
        let ((published, bs, permit, _), c') =
              PublishReserved env True (stream_key st) (cached_batches st) (candidate_size_bytes st) (candidate_permit st) c;
            st' = st\<lparr>cached_batches := bs, candidate_permit := permit,
                     diagnostics_status := (if published then STATUS_REFRESHED else STATUS_STORE_BYPASSED_CAPACITY)\<rparr>
        in ((ClearCandidate st')\<lparr>candidate_cacheable := False\<rparr>, c'))"

subsection \<open>Serving\<close>

datatype 'b served = Served 'b | Nothing | ServeThrows scan_exception

record next_environment =
  next_cancelled :: bool
  stream_clock_throws :: bool
  stream_now :: uint64
  next_publish :: publish_environment

definition pull_source :: "'b source \<Rightarrow> 'b pull \<times> 'b source" where
  "pull_source u = (case script u of [] \<Rightarrow> (Exhausted, u) | p # ps \<Rightarrow> (p, u\<lparr>script := ps\<rparr>))"

definition ServeFreshHit :: "'b cached_stream \<Rightarrow> 'b served \<times> 'b cached_stream" where
  "ServeFreshHit st =
     (case replay_entry st of
        None \<Rightarrow> (Nothing, st\<lparr>replay_entry := None, mode := DRAINED\<rparr>)
      | Some e \<Rightarrow>
          if replay_index st \<ge> length (batches e) then (Nothing, st\<lparr>replay_entry := None, mode := DRAINED\<rparr>)
          else (Served (batches e ! replay_index st), st\<lparr>replay_index := replay_index st + 1\<rparr>))"

definition ServeAccumulatingMiss ::
  "'b platform \<Rightarrow> next_environment \<Rightarrow> 'b cached_stream \<Rightarrow> 'b scan_cache \<Rightarrow> 'b served \<times> 'b cached_stream \<times> 'b scan_cache" where
  "ServeAccumulatingMiss pl env st c =
     (case underlying st of
        None \<Rightarrow> (Nothing, st\<lparr>mode := DRAINED\<rparr>, c)
      | Some u \<Rightarrow>
          let (p, u') = pull_source u; st = st\<lparr>underlying := Some u'\<rparr>
          in case p of
               Throws e \<Rightarrow> (ServeThrows e, st, c)
             | Exhausted \<Rightarrow>
                 let (st, c) = PublishCandidate (next_publish env) st c in (Nothing, st\<lparr>mode := DRAINED\<rparr>, c)
             | Produces b l r \<Rightarrow>
                 if candidate_cacheable st then
                   let (retained, st') = RetainCandidateBatch pl b l r st
                   in if retained then (Served b, st', c)
                      else (Served b, (ClearCandidate (st'\<lparr>diagnostics_status := STATUS_STORE_BYPASSED_CAPACITY\<rparr>))\<lparr>candidate_cacheable := False\<rparr>, c)
                 else (Served b, st, c))"

definition ServeBarrierFresh :: "'b cached_stream \<Rightarrow> 'b served \<times> 'b cached_stream" where
  "ServeBarrierFresh st =
     (let bs = (case replay_entry st of Some e \<Rightarrow> batches e | None \<Rightarrow> cached_batches st)
      in if replay_index st \<ge> length bs then (Nothing, (ClearCandidate (st\<lparr>replay_entry := None\<rparr>))\<lparr>mode := DRAINED\<rparr>)
         else (Served (bs ! replay_index st), st\<lparr>replay_index := replay_index st + 1\<rparr>))"

definition ServeBarrierDrainedUncached :: "'b cached_stream \<Rightarrow> 'b served \<times> 'b cached_stream" where
  "ServeBarrierDrainedUncached st =
     (case underlying st of
        None \<Rightarrow> (Nothing, st\<lparr>mode := DRAINED\<rparr>)
      | Some u \<Rightarrow>
          let (p, u') = pull_source u; st = st\<lparr>underlying := Some u'\<rparr>
          in case p of Throws e \<Rightarrow> (ServeThrows e, st) | Exhausted \<Rightarrow> (Nothing, st) | Produces b l r \<Rightarrow> (Served b, st))"

definition ServeBarrierDrainEmit :: "'b cached_stream \<Rightarrow> 'b served \<times> 'b cached_stream" where
  "ServeBarrierDrainEmit st =
     (if replay_index st < length (cached_batches st)
      then (Served (cached_batches st ! replay_index st), st\<lparr>replay_index := replay_index st + 1\<rparr>)
      else
        let st = (ClearCandidate st)\<lparr>replay_index := 0\<rparr>
        in case pending_uncached_batch st of
             Some b \<Rightarrow> (Served b, st\<lparr>pending_uncached_batch := None\<rparr>)
           | None \<Rightarrow> ServeBarrierDrainedUncached (st\<lparr>mode := BARRIER_DRAINED_UNCACHED\<rparr>))"

definition ServeStale :: "'b cached_stream \<Rightarrow> 'b served \<times> 'b cached_stream" where
  "ServeStale st =
     (case stale_entry st of
        None \<Rightarrow> (Nothing, st\<lparr>stale_entry := None, mode := DRAINED\<rparr>)
      | Some e \<Rightarrow>
          if replay_index st \<ge> length (batches e) then (Nothing, st\<lparr>stale_entry := None, mode := DRAINED\<rparr>)
          else (Served (batches e ! replay_index st), st\<lparr>replay_index := replay_index st + 1\<rparr>))"

definition IsEligibleStaleFailure :: "scan_error \<Rightarrow> bool" where
  "IsEligibleStaleFailure e \<longleftrightarrow> error_stage e = TRANSPORT \<or> error_stage e = HTTP_STATUS"

definition barrier_failure :: "next_environment \<Rightarrow> scan_exception \<Rightarrow> 'b cached_stream \<Rightarrow> 'b served \<times> 'b cached_stream" where
  "barrier_failure env e st =
     (case e of
        ScanError error \<Rightarrow>
          if IsEligibleStaleFailure error then
            if stream_clock_throws env then (ServeThrows OtherException, st)
            else let age = entry_age (stream_now env) (hit_stored_at_milliseconds st)
            in if age < stale_limit (stream_policy st)
               then ServeStale (ClearCandidate (st\<lparr>delivery_age_milliseconds := age, stale_cause_failure_class := error_class error,
                      diagnostics_status := STATUS_STALE_SERVED, mode := STALE_SERVE, replay_index := 0, underlying := None\<rparr>))
               else (ServeThrows e, st\<lparr>diagnostics_status := STATUS_EXPIRED_DURING_REFRESH, mode := STREAM_FAILED\<rparr>)
          else (ServeThrows e, st\<lparr>mode := STREAM_FAILED\<rparr>)
      | _ \<Rightarrow> (ServeThrows e, st\<lparr>mode := STREAM_FAILED\<rparr>))"

definition barrier_complete ::
  "next_environment \<Rightarrow> 'b cached_stream \<Rightarrow> 'b scan_cache \<Rightarrow> 'b served \<times> 'b cached_stream \<times> 'b scan_cache" where
  "barrier_complete env st c =
     (let ((published, bs, permit, entry), c') =
            PublishReserved (next_publish env) True (stream_key st) (cached_batches st) (candidate_size_bytes st) (candidate_permit st) c;
          st = st\<lparr>cached_batches := bs, candidate_permit := permit, stale_entry := None, replay_index := 0,
                 diagnostics_status := (if published then STATUS_REFRESHED else STATUS_STORE_BYPASSED_CAPACITY)\<rparr>;
          st = (if published then st\<lparr>replay_entry := entry, candidate_size_bytes := 0\<rparr> else st);
          (result, st') = ServeBarrierFresh (st\<lparr>hit_age_milliseconds := 0, mode := BARRIER_FRESH_SERVE, underlying := None\<rparr>)
      in (result, st', c'))"

definition barrier_overflow :: "'b \<Rightarrow> 'b cached_stream \<Rightarrow> 'b served \<times> 'b cached_stream" where
  "barrier_overflow b st =
     ServeBarrierDrainEmit (st\<lparr>diagnostics_status := STATUS_REFRESH_STREAMED_CAPACITY, pending_uncached_batch := Some b, replay_index := 0,
       mode := BARRIER_DRAIN_EMIT, stale_entry := None\<rparr>)"

lemma pull_source_length: "pull_source u = (Produces b l r, u') \<Longrightarrow> length (script u') < length (script u)"
  by (auto simp: pull_source_def split: list.splits)

lemma retain_underlying: "RetainCandidateBatch pl b l r st = (ok, st') \<Longrightarrow> underlying st' = underlying st"
  by (auto simp: RetainCandidateBatch_def ReserveCandidateBytes_def RollBackCandidateReservation_def Let_def
      split: option.splits if_splits)

text \<open>The recursion of the source, one pull per call, ends because the remote stream has finitely many batches.\<close>

function ServeBarrierBuffering ::
  "'b platform \<Rightarrow> next_environment \<Rightarrow> 'b cached_stream \<Rightarrow> 'b scan_cache \<Rightarrow> 'b served \<times> 'b cached_stream \<times> 'b scan_cache" where
  "ServeBarrierBuffering pl env st c =
     (case underlying st of
        None \<Rightarrow> (Nothing, st\<lparr>mode := DRAINED\<rparr>, c)
      | Some u \<Rightarrow>
          (case pull_source u of
             (Throws e, u') \<Rightarrow> (let (result, st') = barrier_failure env e (st\<lparr>underlying := Some u'\<rparr>) in (result, st', c))
           | (Exhausted, u') \<Rightarrow> barrier_complete env (st\<lparr>underlying := Some u'\<rparr>) c
           | (Produces b l r, u') \<Rightarrow>
               (case RetainCandidateBatch pl b l r (st\<lparr>underlying := Some u'\<rparr>) of
                  (True, st') \<Rightarrow> ServeBarrierBuffering pl env st' c
                | (False, st') \<Rightarrow> (let (result, st'') = barrier_overflow b st' in (result, st'', c)))))"
  by pat_completeness auto
termination
  by (relation "measure (\<lambda>(pl, env, st, c). case underlying st of None \<Rightarrow> 0 | Some u \<Rightarrow> length (script u))")
    (auto dest!: sym [of "(_, _)" "pull_source _"] sym [of "(_, _)" "RetainCandidateBatch _ _ _ _ _"] pull_source_length retain_underlying)

declare ServeBarrierBuffering.simps [simp del]

subsection \<open>The public operations\<close>

definition FinishProfile :: "ScanOutcome \<Rightarrow> bool \<Rightarrow> FailureClass \<Rightarrow> 'b cached_stream \<Rightarrow> 'b cached_stream" where
  "FinishProfile outcome has_failure failure_class st =
     (if profile_outcome st \<in> {OUTCOME_SUCCEEDED, OUTCOME_FAILED, OUTCOME_CANCELLED, OUTCOME_CLOSED} then st
      else st\<lparr>profile_outcome := outcome, profile_finished := True, has_terminal_failure := has_failure, terminal_failure_class := failure_class\<rparr>)"

definition StartProfile :: "'b cached_stream \<Rightarrow> 'b cached_stream" where
  "StartProfile st =
     (if profile_started st \<or> profile_finished st then st else st\<lparr>profile_started := True, profile_outcome := OUTCOME_RUNNING\<rparr>)"

definition CancelStream :: "'b cached_stream \<Rightarrow> 'b cached_stream" where
  "CancelStream st =
     (let st = (if profile_finished st then st else FinishProfile OUTCOME_CANCELLED False INTERNAL_CLASS (st\<lparr>stream_cancelled := True\<rparr>));
          st = st\<lparr>underlying := map_option (\<lambda>u. u\<lparr>source_cancels := Suc (source_cancels u)\<rparr>) (underlying st)\<rparr>
      in (ClearReplayEntries (ClearCandidate st))\<lparr>pending_uncached_batch := None\<rparr>)"

definition CloseStream :: "'b cached_stream \<Rightarrow> 'b cached_stream" where
  "CloseStream st =
     (if stream_closed st then st
      else
        let st = st\<lparr>stream_closed := True\<rparr>;
            st = (if profile_finished st then st else FinishProfile OUTCOME_CLOSED False INTERNAL_CLASS st);
            st = st\<lparr>underlying := map_option (\<lambda>u. u\<lparr>source_closes := Suc (source_closes u)\<rparr>) (underlying st)\<rparr>
        in (ClearReplayEntries (ClearCandidate st))\<lparr>pending_uncached_batch := None, candidate_cacheable := False, mode := DRAINED\<rparr>)"

definition serve_mode ::
  "'b platform \<Rightarrow> next_environment \<Rightarrow> 'b cached_stream \<Rightarrow> 'b scan_cache \<Rightarrow> 'b served \<times> 'b cached_stream \<times> 'b scan_cache" where
  "serve_mode pl env st c =
     (case mode st of
        FRESH_HIT_REPLAY \<Rightarrow> let (r, st') = ServeFreshHit st in (r, st', c)
      | ACCUMULATING_MISS \<Rightarrow> ServeAccumulatingMiss pl env st c
      | BARRIER_BUFFERING \<Rightarrow> ServeBarrierBuffering pl env st c
      | BARRIER_FRESH_SERVE \<Rightarrow> let (r, st') = ServeBarrierFresh st in (r, st', c)
      | BARRIER_DRAIN_EMIT \<Rightarrow> let (r, st') = ServeBarrierDrainEmit st in (r, st', c)
      | BARRIER_DRAINED_UNCACHED \<Rightarrow> let (r, st') = ServeBarrierDrainedUncached st in (r, st', c)
      | STALE_SERVE \<Rightarrow> let (r, st') = ServeStale st in (r, st', c)
      | DRAINED \<Rightarrow> (Nothing, st, c)
      | STREAM_FAILED \<Rightarrow> (Nothing, st, c))"

definition rows_error :: scan_error where
  "rows_error = \<lparr>error_stage = RESOURCE, error_field = ''decoded_records'', error_classified = None\<rparr>"

text \<open>The handlers of \<open>Next\<close>.\<close>

definition fail_stream :: "scan_exception \<Rightarrow> 'b cached_stream \<Rightarrow> 'b cached_stream" where
  "fail_stream e st =
     (case e of
        ScanCancelled \<Rightarrow>
          let st = st\<lparr>stream_cancelled := True,
                underlying := map_option (\<lambda>u. u\<lparr>source_cancels := Suc (source_cancels u)\<rparr>) (underlying st)\<rparr>
          in FinishProfile OUTCOME_CANCELLED False INTERNAL_CLASS (ClearReplayEntries (ClearCandidate st))
      | ScanError error \<Rightarrow>
          FinishProfile OUTCOME_FAILED True (error_class error)
            (ClearReplayEntries (ClearCandidate (st\<lparr>terminal_exception := Some e, mode := STREAM_FAILED\<rparr>)))
      | OtherException \<Rightarrow>
          FinishProfile OUTCOME_FAILED True INTERNAL_CLASS
            (ClearReplayEntries (ClearCandidate (st\<lparr>terminal_exception := Some e, mode := STREAM_FAILED\<rparr>))))"

datatype 'b next_result = NextBatch 'b | NextDone | NextThrows scan_exception

definition Next ::
  "'b platform \<Rightarrow> next_environment \<Rightarrow> 'b cached_stream \<Rightarrow> 'b scan_cache \<Rightarrow> 'b next_result \<times> 'b cached_stream \<times> 'b scan_cache" where
  "Next pl env st c =
     (if stream_closed st then (NextDone, st, c)
      else case terminal_exception st of
        Some e \<Rightarrow> (NextThrows e, st, c)
      | None \<Rightarrow>
          if stream_cancelled st then (NextThrows ScanCancelled, st, c)
          else if profile_outcome st = OUTCOME_SUCCEEDED then (NextDone, st, c)
          else if next_cancelled env then (NextThrows ScanCancelled, CancelStream st, c)
          else
            let (result, st', c') = serve_mode pl env (StartProfile st) c
            in case result of
                 ServeThrows e \<Rightarrow> (NextThrows e, fail_stream e st', c')
               | Nothing \<Rightarrow> (NextDone, FinishProfile OUTCOME_SUCCEEDED False INTERNAL_CLASS (st'\<lparr>mode := DRAINED\<rparr>), c')
               | Served b \<Rightarrow>
                   if row_count pl b > uint64_max - rows_returned st'
                   then (NextThrows (ScanError rows_error), fail_stream (ScanError rows_error) st', c')
                   else (NextBatch b, st'\<lparr>rows_returned := rows_returned st' + row_count pl b\<rparr>, c'))"

end
