(* ===== verification/Cached_Scan_Serving.thy ===== *)
theory Cached_Scan_Serving
  imports Cached_Scan "HOL-Library.Sublist"
begin

section \<open>What a cached stream serves and publishes\<close>

text \<open>
  The properties of \<open>Cached_Scan\<close>. A stream is driven by any sequence of calls of \<open>Next\<close> (\<open>run_stream\<close>), each in its own
  environment, cancellation included, and with the shared cache in any state. The batches it has served are compared with what the remote
  scan delivers and with the entries of the cache; publication is compared with the end of the remote scan.
\<close>

subsection \<open>What the remote scan delivers\<close>

fun produced :: "'b pull list \<Rightarrow> 'b list" where
  "produced (Produces b l r # ps) = b # produced ps"
| "produced _ = []"

fun ending :: "'b pull list \<Rightarrow> scan_exception option" where
  "ending (Produces b l r # ps) = ending ps"
| "ending (Throws e # ps) = Some e"
| "ending _ = None"

text \<open>
  The memory that the batches of the remote scan hold, as a natural number: the batch itself, the storage of its vectors, and a terminated string for every value
  and every element of a value.
\<close>

definition string_bytes :: "uint64 \<Rightarrow> nat" where
  "string_bytes capacity = (if capacity = uint64_max then unat capacity else unat capacity + 1)"

definition value_bytes :: "'b platform \<Rightarrow> value_layout \<Rightarrow> nat" where
  "value_bytes pl v = string_bytes (varchar_capacity v) + unat (elements_capacity v) * unat (sizeof_TypedScalarValue pl) +
     (\<Sum>capacity\<leftarrow>element_varchar_capacities v. string_bytes capacity)"

definition row_bytes :: "'b platform \<Rightarrow> row_layout \<Rightarrow> nat" where
  "row_bytes pl r = unat (values_capacity r) * unat (sizeof_TypedValue pl) + (\<Sum>v\<leftarrow>value_layouts r. value_bytes pl v)"

definition batch_bytes :: "'b platform \<Rightarrow> batch_layout \<Rightarrow> nat" where
  "batch_bytes pl l = unat (sizeof_TypedBatch pl) + unat (columns_capacity l) * unat (sizeof_OutputValueType pl) +
     unat (rows_capacity l) * unat (sizeof_TypedRow pl) + (\<Sum>r\<leftarrow>row_layouts l. row_bytes pl r)"

fun produced_bytes :: "'b platform \<Rightarrow> 'b pull list \<Rightarrow> nat" where
  "produced_bytes pl (Produces b l r # ps) = batch_bytes pl l + produced_bytes pl ps"
| "produced_bytes pl _ = 0"

lemma AddRetainedBytes_Some: "AddRetainedBytes acc n = Some m \<Longrightarrow> unat m = unat acc + unat n"
  by (auto simp: AddRetainedBytes_def not_less word_le_nat_alt unat_max_diff split: if_splits intro!: unat_add_uint64)
    (use unat_uint64_bound [of acc] in linarith)

lemma AddStringStorage_Some: "AddStringStorage capacity acc = Some m \<Longrightarrow> unat m = unat acc + string_bytes capacity"
  by (auto simp: AddStringStorage_def string_bytes_def ticket_increment dest!: AddRetainedBytes_Some split: if_splits)

lemma AddVectorStorage_Some: "AddVectorStorage n capacity acc = Some m \<Longrightarrow> unat m = unat acc + unat capacity * unat n"
proof -
  assume some: "AddVectorStorage n capacity acc = Some m"
  have "unat (capacity * n) = unat capacity * unat n"
  proof (cases "capacity = 0")
    case False
    with some have "unat capacity \<le> 18446744073709551615 div unat n"
      by (auto simp: AddVectorStorage_def not_less word_le_nat_alt unat_div split: if_splits)
    then have "unat capacity * unat n \<le> 18446744073709551615"
      by (meson div_times_less_eq_dividend mult_le_mono1 order_trans)
    then show ?thesis by (simp add: unat_mult_lem [THEN iffD1])
  qed simp
  with some show ?thesis by (auto simp: AddVectorStorage_def dest!: AddRetainedBytes_Some split: if_splits)
qed

lemma add_each_Some:
  assumes "add_each add xs acc = Some m" and "\<And>x acc m. add x acc = Some m \<Longrightarrow> unat m = unat acc + weight x"
  shows "unat m = unat acc + (\<Sum>x\<leftarrow>xs. weight x)"
  using assms(1) by (induction xs arbitrary: acc) (auto simp: Option.bind_eq_Some_conv dest!: assms(2))

lemma RetainedBatchBytes_Some: "RetainedBatchBytes pl l = Some m \<Longrightarrow> unat m = batch_bytes pl l"
proof -
  have strings: "add_each AddStringStorage xs acc = Some m \<Longrightarrow> unat m = unat acc + (\<Sum>x\<leftarrow>xs. string_bytes x)" for xs acc m
    by (erule add_each_Some) (rule AddStringStorage_Some)
  have v: "add_value pl v acc = Some m \<Longrightarrow> unat m = unat acc + value_bytes pl v" for v acc m
    by (auto simp: add_value_def value_bytes_def Option.bind_eq_Some_conv
        dest!: AddStringStorage_Some AddVectorStorage_Some strings)
  have vs: "add_each (add_value pl) xs acc = Some m \<Longrightarrow> unat m = unat acc + (\<Sum>x\<leftarrow>xs. value_bytes pl x)" for xs acc m
    by (erule add_each_Some) (rule v)
  have r: "add_row pl r acc = Some m \<Longrightarrow> unat m = unat acc + row_bytes pl r" for r acc m
    by (auto simp: add_row_def row_bytes_def Option.bind_eq_Some_conv dest!: AddVectorStorage_Some vs)
  have rs: "add_each (add_row pl) xs acc = Some m \<Longrightarrow> unat m = unat acc + (\<Sum>x\<leftarrow>xs. row_bytes pl x)" for xs acc m
    by (erule add_each_Some) (rule r)
  show "RetainedBatchBytes pl l = Some m \<Longrightarrow> unat m = batch_bytes pl l"
    by (auto simp: RetainedBatchBytes_def batch_bytes_def Option.bind_eq_Some_conv dest!: AddVectorStorage_Some rs)
qed

lemma pull_source_cases:
  assumes "pull_source u = (p, u')"
  shows "p = Produces b l r \<Longrightarrow> produced (script u) = b # produced (script u') \<and> ending (script u) = ending (script u') \<and>
      produced_bytes pl (script u) = batch_bytes pl l + produced_bytes pl (script u')"
    and "p = Exhausted \<Longrightarrow> produced (script u) = [] \<and> ending (script u) = None \<and> produced_bytes pl (script u) = 0"
    and "p = Throws e \<Longrightarrow> produced (script u) = [] \<and> ending (script u) = Some e"
  using assms by (auto simp: pull_source_def split: list.splits)

text \<open>
  The two snapshots a stream may deliver: the batches \<open>R\<close> of the remote scan, which ends with \<open>E\<close>, and the batches \<open>S\<close> of the
  entry found by the lookup, whose answer was \<open>H\<close>.
\<close>

definition from_entry :: "CacheLookupResult \<Rightarrow> scan_exception option \<Rightarrow> bool" where
  "from_entry H E \<longleftrightarrow> H = FRESH_HIT \<or> H = STALE_CANDIDATE \<and> (\<exists>error. E = Some (ScanError error) \<and> error_stage error \<in> {TRANSPORT, HTTP_STATUS})"

definition part_of_snapshot :: "'b list \<Rightarrow> scan_exception option \<Rightarrow> 'b list \<Rightarrow> CacheLookupResult \<Rightarrow> 'b list \<Rightarrow> bool" where
  "part_of_snapshot R E S H D \<longleftrightarrow> (H \<noteq> FRESH_HIT \<and> prefix D R) \<or> (from_entry H E \<and> prefix D S)"

definition whole_snapshot :: "'b list \<Rightarrow> scan_exception option \<Rightarrow> 'b list \<Rightarrow> CacheLookupResult \<Rightarrow> 'b list \<Rightarrow> bool" where
  "whole_snapshot R E S H D \<longleftrightarrow> (H \<noteq> FRESH_HIT \<and> D = R \<and> E = None) \<or> (from_entry H E \<and> D = S)"

definition charged :: "'b cached_stream \<Rightarrow> bool" where
  "charged st \<longleftrightarrow> candidate_size_bytes st \<le> max_candidate_bytes st \<and>
     (has_admission st \<and> cached_batches st \<noteq> [] \<longrightarrow> candidate_permit st = Some (candidate_size_bytes st))"

text \<open>What the candidate holds and what is still to come make up the bytes \<open>W\<close> of the remote scan.\<close>

definition weighed :: "'b platform \<Rightarrow> nat \<Rightarrow> 'b cached_stream \<Rightarrow> bool" where
  "weighed pl W st \<longleftrightarrow> (\<exists>u. underlying st = Some u \<and> unat (candidate_size_bytes st) + produced_bytes pl (script u) = W)"

fun pulling :: "'b cached_stream \<Rightarrow> 'b list \<Rightarrow> scan_exception option \<Rightarrow> bool" where
  "pulling st rest E \<longleftrightarrow> (case underlying st of None \<Rightarrow> False | Some u \<Rightarrow> produced (script u) = rest \<and> ending (script u) = E)"

fun serving_in :: "StreamMode \<Rightarrow> 'b platform \<Rightarrow> nat \<Rightarrow> 'b list \<Rightarrow> scan_exception option \<Rightarrow> 'b list \<Rightarrow> CacheLookupResult \<Rightarrow> 'b list \<Rightarrow> 'b cached_stream \<Rightarrow> bool" where
  "serving_in FRESH_HIT_REPLAY pl W R E S H D st \<longleftrightarrow> H = FRESH_HIT \<and> (\<exists>e. replay_entry st = Some e \<and> batches e = S) \<and>
     replay_index st \<le> length S \<and> D = take (replay_index st) S"
| "serving_in ACCUMULATING_MISS pl W R E S H D st \<longleftrightarrow> H \<noteq> FRESH_HIT \<and> (\<exists>rest. pulling st rest E \<and> R = D @ rest) \<and>
     (candidate_cacheable st \<longrightarrow> cached_batches st = D \<and> charged st \<and> weighed pl W st)"
| "serving_in BARRIER_BUFFERING pl W R E S H D st \<longleftrightarrow> H = STALE_CANDIDATE \<and> D = [] \<and> (\<exists>e. stale_entry st = Some e \<and> batches e = S) \<and>
     replay_entry st = None \<and> (\<exists>rest. pulling st rest E \<and> R = cached_batches st @ rest) \<and> charged st \<and> weighed pl W st"
| "serving_in BARRIER_FRESH_SERVE pl W R E S H D st \<longleftrightarrow> H = STALE_CANDIDATE \<and> E = None \<and>
     (case replay_entry st of Some e \<Rightarrow> batches e | None \<Rightarrow> cached_batches st) = R \<and> replay_index st \<le> length R \<and> D = take (replay_index st) R"
| "serving_in BARRIER_DRAIN_EMIT pl W R E S H D st \<longleftrightarrow> H = STALE_CANDIDATE \<and>
     (case pending_uncached_batch st of
        Some b \<Rightarrow> (\<exists>rest. pulling st rest E \<and> R = cached_batches st @ b # rest) \<and> replay_index st \<le> length (cached_batches st) \<and>
          D = take (replay_index st) (cached_batches st)
      | None \<Rightarrow> cached_batches st = [] \<and> (\<exists>rest. pulling st rest E \<and> R = D @ rest))"
| "serving_in BARRIER_DRAINED_UNCACHED pl W R E S H D st \<longleftrightarrow> H = STALE_CANDIDATE \<and> (\<exists>rest. pulling st rest E \<and> R = D @ rest)"
| "serving_in STALE_SERVE pl W R E S H D st \<longleftrightarrow> H = STALE_CANDIDATE \<and> from_entry H E \<and> (\<exists>e. stale_entry st = Some e \<and> batches e = S) \<and>
     replay_index st \<le> length S \<and> D = take (replay_index st) S"
| "serving_in DRAINED pl W R E S H D st \<longleftrightarrow> False"
| "serving_in STREAM_FAILED pl W R E S H D st \<longleftrightarrow> False"

abbreviation serving :: "'b platform \<Rightarrow> nat \<Rightarrow> 'b list \<Rightarrow> scan_exception option \<Rightarrow> 'b list \<Rightarrow> CacheLookupResult \<Rightarrow> 'b list \<Rightarrow> 'b cached_stream \<Rightarrow> bool" where
  "serving pl W R E S H D st \<equiv> serving_in (mode st) pl W R E S H D st"

lemma take_prefix_append: "prefix (take n xs) (xs @ ys)"
  using take_is_prefix prefix_append prefix_order.trans by blast

lemma serving_part: "serving pl W R E S H D st \<Longrightarrow> part_of_snapshot R E S H D"
  by (cases "mode st") (auto simp: part_of_snapshot_def from_entry_def take_is_prefix take_prefix_append split: option.splits)

text \<open>What one call may do to a stream that serves \<open>D\<close> so far.\<close>

definition serve_ok ::
  "'b platform \<Rightarrow> nat \<Rightarrow> 'b list \<Rightarrow> scan_exception option \<Rightarrow> 'b list \<Rightarrow> CacheLookupResult \<Rightarrow> 'b list \<Rightarrow> 'b served \<Rightarrow> 'b cached_stream \<Rightarrow> bool" where
  "serve_ok pl W R E S H D result st \<longleftrightarrow>
     (case result of
        Served b \<Rightarrow> serving pl W R E S H (D @ [b]) st
      | Nothing \<Rightarrow> whole_snapshot R E S H D
      | ServeThrows e \<Rightarrow> True)"

lemma take_next: "i < length xs \<Longrightarrow> take (Suc i) xs = take i xs @ [xs ! i]"
  by (rule take_Suc_conv_app_nth)

lemma serve_fresh: "mode st = FRESH_HIT_REPLAY \<Longrightarrow> serving pl W R E S H D st \<Longrightarrow> ServeFreshHit st = (r, st') \<Longrightarrow> serve_ok pl W R E S H D r st'"
  by (auto simp: ServeFreshHit_def serve_ok_def whole_snapshot_def from_entry_def take_next split: option.splits if_splits)

lemma serve_stale: "mode st = STALE_SERVE \<Longrightarrow> serving pl W R E S H D st \<Longrightarrow> ServeStale st = (r, st') \<Longrightarrow> serve_ok pl W R E S H D r st'"
  by (auto simp: ServeStale_def serve_ok_def whole_snapshot_def take_next split: option.splits if_splits)

lemma serve_barrier_fresh:
  "mode st = BARRIER_FRESH_SERVE \<Longrightarrow> serving pl W R E S H D st \<Longrightarrow> ServeBarrierFresh st = (r, st') \<Longrightarrow> serve_ok pl W R E S H D r st'"
  by (auto simp: ServeBarrierFresh_def serve_ok_def whole_snapshot_def take_next Let_def split: option.splits if_splits)

lemma serve_drained:
  assumes "mode st = BARRIER_DRAINED_UNCACHED" and "serving pl W R E S H D st" and "ServeBarrierDrainedUncached st = (r, st')"
  shows "serve_ok pl W R E S H D r st'"
proof -
  from assms(1,2) obtain u where u: "underlying st = Some u" "R = D @ produced (script u)" "ending (script u) = E" "H = STALE_CANDIDATE"
    by (auto split: option.splits)
  obtain p u' where p: "pull_source u = (p, u')" by (cases "pull_source u")
  from assms(1,3) u p pull_source_cases [OF p] show ?thesis
    by (cases p) (auto simp: ServeBarrierDrainedUncached_def serve_ok_def whole_snapshot_def)
qed

lemma serve_drain_emit:
  assumes "mode st = BARRIER_DRAIN_EMIT" and "serving pl W R E S H D st" and "ServeBarrierDrainEmit st = (r, st')"
  shows "serve_ok pl W R E S H D r st'"
proof (cases "pending_uncached_batch st")
  case (Some b)
  with assms show ?thesis
    by (auto simp: ServeBarrierDrainEmit_def serve_ok_def take_next ClearCandidate_def Let_def split: if_splits option.splits)
next
  case None
  let ?st = "(ClearCandidate st)\<lparr>replay_index := 0, mode := BARRIER_DRAINED_UNCACHED\<rparr>"
  have "ServeBarrierDrainedUncached ?st = (r, st')" using assms None by (simp add: ServeBarrierDrainEmit_def ClearCandidate_def Let_def)
  from serve_drained [OF _ _ this] assms None show ?thesis by (simp add: ClearCandidate_def)
qed

lemma retain_keeps:
  assumes "RetainCandidateBatch pl b l r st = (ok, st')"
  shows "mode st' = mode st \<and> underlying st' = underlying st \<and> stale_entry st' = stale_entry st \<and> replay_entry st' = replay_entry st \<and>
    candidate_cacheable st' = candidate_cacheable st \<and> stream_key st' = stream_key st \<and> stream_policy st' = stream_policy st \<and>
    max_candidate_bytes st' = max_candidate_bytes st \<and> has_admission st' = has_admission st \<and>
    cached_batches st' = (if ok then cached_batches st @ [b] else cached_batches st) \<and>
    (ok \<longrightarrow> charged st' \<and> unat (candidate_size_bytes st') = unat (candidate_size_bytes st) + batch_bytes pl l)"
proof -
  have sum: "unat (candidate_size_bytes st + n) = unat (candidate_size_bytes st) + unat n \<and> candidate_size_bytes st + n \<le> max_candidate_bytes st"
    if "\<not> (n > max_candidate_bytes st \<or> candidate_size_bytes st > max_candidate_bytes st - n)" for n
  proof -
    from that have "unat (candidate_size_bytes st) + unat n \<le> unat (max_candidate_bytes st)"
      by (auto simp: not_less word_le_nat_alt unat_sub)
    moreover from this have "unat (candidate_size_bytes st + n) = unat (candidate_size_bytes st) + unat n"
      using unat_uint64_bound [of "max_candidate_bytes st"] by (intro unat_add_uint64) simp
    ultimately show ?thesis by (simp add: word_le_nat_alt)
  qed
  from assms show ?thesis
    by (auto simp: RetainCandidateBatch_def ReserveCandidateBytes_def RollBackCandidateReservation_def charged_def Let_def sum dest!: RetainedBatchBytes_Some
        split: option.splits if_splits)
qed
subsection \<open>One call\<close>

text \<open>The cache is left alone, or receives the complete batches of a remote scan that ended cleanly.\<close>

definition published_whole ::
  "publish_environment \<Rightarrow> nat \<Rightarrow> 'b list \<Rightarrow> scan_exception option \<Rightarrow> 'b cached_stream \<Rightarrow> 'b scan_cache \<Rightarrow> 'b scan_cache \<Rightarrow> bool" where
  "published_whole env W R E st c c' \<longleftrightarrow> c' = c \<or>
     E = None \<and> (\<exists>n permit. unat n = W \<and> n \<le> max_candidate_bytes st \<and> (has_admission st \<and> R \<noteq> [] \<longrightarrow> permit = Some n) \<and>
       c' = snd (PublishReserved env True (stream_key st) R n permit c))"

lemma serve_miss:
  assumes "mode st = ACCUMULATING_MISS" and "serving pl W R E S H D st" and "ServeAccumulatingMiss pl env st c = (r, st', c')"
  shows "serve_ok pl W R E S H D r st' \<and> published_whole (next_publish env) W R E st c c'"
proof -
  from assms(1,2) obtain u where u: "underlying st = Some u" "R = D @ produced (script u)" "ending (script u) = E" "H \<noteq> FRESH_HIT"
    and cand: "candidate_cacheable st \<Longrightarrow>
      cached_batches st = D \<and> charged st \<and> unat (candidate_size_bytes st) + produced_bytes pl (script u) = W"
    by (auto simp: weighed_def split: option.splits)
  obtain p u' where p: "pull_source u = (p, u')" by (cases "pull_source u")
  note pc = pull_source_cases [OF p]
  show ?thesis
  proof (cases p)
    case (Throws e)
    with assms(3) u p pc(3) show ?thesis by (auto simp: ServeAccumulatingMiss_def serve_ok_def published_whole_def)
  next
    case Exhausted
    obtain st1 c1 where pub: "PublishCandidate (next_publish env) (st\<lparr>underlying := Some u'\<rparr>) c = (st1, c1)" by (cases "PublishCandidate (next_publish env) (st\<lparr>underlying := Some u'\<rparr>) c")
    with assms(3) Exhausted u p have r: "r = Nothing" "c' = c1" by (simp_all add: ServeAccumulatingMiss_def)
    have "published_whole (next_publish env) W R E st c c1"
    proof (cases "candidate_cacheable st")
      case True
      then have "c1 = snd (PublishReserved (next_publish env) True (stream_key st) (cached_batches st) (candidate_size_bytes st) (candidate_permit st) c)"
        using pub by (auto simp: PublishCandidate_def Let_def split: prod.splits)
      with cand [OF True] u pc(2) [OF Exhausted, of pl] show ?thesis by (auto simp: published_whole_def charged_def)
    next
      case False
      with pub show ?thesis by (simp add: PublishCandidate_def published_whole_def)
    qed
    with r u pc(2) [OF Exhausted, of pl] show ?thesis by (simp add: serve_ok_def whole_snapshot_def)
  next
    case (Produces b l x)
    from pc(1) [OF this, of pl] u have rest: "R = (D @ [b]) @ produced (script u')" "ending (script u') = E" by simp_all
    show ?thesis
    proof (cases "candidate_cacheable st")
      case True
      obtain ok st1 where ret: "RetainCandidateBatch pl b l x (st\<lparr>underlying := Some u'\<rparr>) = (ok, st1)"
        by (cases "RetainCandidateBatch pl b l x (st\<lparr>underlying := Some u'\<rparr>)")
      from retain_keeps [OF ret] assms(1) cand [OF True] pc(1) [OF Produces, of pl] u(1)
      have "mode st1 = ACCUMULATING_MISS" "underlying st1 = Some u'" "ok \<Longrightarrow> cached_batches st1 = D @ [b] \<and> charged st1 \<and> weighed pl W st1"
        by (auto simp: weighed_def)
      with assms(3) u p Produces True ret rest show ?thesis
        by (cases ok) (auto simp: ServeAccumulatingMiss_def serve_ok_def published_whole_def ClearCandidate_def)
    next
      case False
      with assms u p Produces rest show ?thesis by (auto simp: ServeAccumulatingMiss_def serve_ok_def published_whole_def)
    qed
  qed
qed

text \<open>What holds behind the barrier besides the batches pulled so far.\<close>

definition behind_barrier :: "'b list \<Rightarrow> CacheLookupResult \<Rightarrow> 'b list \<Rightarrow> 'b cached_stream \<Rightarrow> bool" where
  "behind_barrier S H D st \<longleftrightarrow> H = STALE_CANDIDATE \<and> D = [] \<and> (\<exists>e. stale_entry st = Some e \<and> batches e = S) \<and> replay_entry st = None \<and> charged st"

lemma behind_underlying [simp]: "behind_barrier S H D (st\<lparr>underlying := u\<rparr>) = behind_barrier S H D st"
  by (simp add: behind_barrier_def charged_def)

lemma barrier_failure_ok:
  assumes "behind_barrier S H D st" "barrier_failure env e st = (r, st')"
  shows "serve_ok pl W R (Some e) S H D r st'"
proof (cases "\<exists>error. e = ScanError error \<and> IsEligibleStaleFailure error \<and> \<not> stream_clock_throws env \<and>
    entry_age (stream_now env) (hit_stored_at_milliseconds st) < stale_limit (stream_policy st)")
  case True
  then obtain error where e: "e = ScanError error" "IsEligibleStaleFailure error" "\<not> stream_clock_throws env"
    "entry_age (stream_now env) (hit_stored_at_milliseconds st) < stale_limit (stream_policy st)" by blast
  let ?st = "ClearCandidate (st\<lparr>delivery_age_milliseconds := entry_age (stream_now env) (hit_stored_at_milliseconds st),
    stale_cause_failure_class := error_class error, diagnostics_status := STATUS_STALE_SERVED, mode := STALE_SERVE, replay_index := 0, underlying := None\<rparr>)"
  have m: "mode ?st = STALE_SERVE" by (simp add: ClearCandidate_def)
  have "ServeStale ?st = (r, st')" using assms(2) e by (simp add: barrier_failure_def)
  moreover have "serving pl W R (Some e) S H D ?st" unfolding m using assms(1) e by (auto simp: ClearCandidate_def from_entry_def behind_barrier_def IsEligibleStaleFailure_def)
  ultimately show ?thesis using serve_stale m by blast
next
  case False
  with assms(2) have "\<exists>e. r = ServeThrows e" by (auto simp: barrier_failure_def Let_def split: scan_exception.splits if_splits)
  then show ?thesis by (auto simp: serve_ok_def)
qed

lemma barrier_complete_ok:
  assumes "behind_barrier S H D st" and "R = cached_batches st" and "barrier_complete env st c = (r, st', c')" and "unat (candidate_size_bytes st) = W" and "\<not> clock_throws (next_publish env)"
  shows "serve_ok pl W R None S H D r st' \<and> published_whole (next_publish env) W R None st c c'"
proof -
  have st: "H = STALE_CANDIDATE" "D = []" "R = cached_batches st" "charged st" "replay_entry st = None"
    using assms(1,2) by (auto simp: behind_barrier_def)
  obtain p bs permit entry c1 where pub: "PublishReserved (next_publish env) True (stream_key st) (cached_batches st) (candidate_size_bytes st)
      (candidate_permit st) c = ((p, bs, permit, entry), c1)" by (metis prod.exhaust)
  have keep: "if p then \<exists>e. entry = Some e \<and> batches e = cached_batches st else bs = cached_batches st \<and> entry = None"
    using pub assms(5) by (auto simp: PublishReserved_def Let_def split: if_splits option.splits)
  obtain st1 where st1: "ServeBarrierFresh st1 = (r, st')" "mode st1 = BARRIER_FRESH_SERVE" "replay_index st1 = 0"
    "replay_entry st1 = (if p then entry else replay_entry st)" "cached_batches st1 = bs" and c1: "c' = c1"
    using assms(3) pub by (auto simp: barrier_complete_def Let_def split: prod.splits if_splits)
  have "serving pl W R None S H D st1" unfolding st1(2) using st st1 keep by (auto split: if_splits)
  from serve_barrier_fresh [OF st1(2) this st1(1)] have "serve_ok pl W R None S H D r st'" .
  moreover have "published_whole (next_publish env) W R None st c c1"
    using st(3,4) pub assms(4) by (auto simp: published_whole_def charged_def intro!: exI [of _ "candidate_size_bytes st"] exI [of _ "candidate_permit st"])
  ultimately show ?thesis using c1 by simp
qed

lemma barrier_overflow_ok:
  assumes "H = STALE_CANDIDATE" and "pulling st rest E" and "R = cached_batches st @ b # rest" and "barrier_overflow b st = (r, st')"
  shows "serve_ok pl W R E S H [] r st'"
proof -
  let ?st = "st\<lparr>diagnostics_status := STATUS_REFRESH_STREAMED_CAPACITY, pending_uncached_batch := Some b, replay_index := 0,
    mode := BARRIER_DRAIN_EMIT, stale_entry := None\<rparr>"
  have "ServeBarrierDrainEmit ?st = (r, st')" using assms(4) by (simp add: barrier_overflow_def)
  moreover have "serving pl W R E S H [] ?st" using assms by simp
  ultimately show ?thesis using serve_drain_emit [of ?st] by simp
qed

lemma serve_barrier:
  "mode st = BARRIER_BUFFERING \<Longrightarrow> serving pl W R E S H D st \<Longrightarrow> ServeBarrierBuffering pl env st c = (r, st', c') \<Longrightarrow>
    \<not> clock_throws (next_publish env) \<Longrightarrow> serve_ok pl W R E S H D r st' \<and> published_whole (next_publish env) W R E st c c'"
proof (induction pl env st c rule: ServeBarrierBuffering.induct)
  case (1 pl env st c)
  from "1.prems"(1,2) obtain u where u: "underlying st = Some u" "R = cached_batches st @ produced (script u)" "ending (script u) = E"
    and b: "behind_barrier S H D st" and w: "unat (candidate_size_bytes st) + produced_bytes pl (script u) = W"
    by (auto simp: behind_barrier_def weighed_def split: option.splits)
  obtain p u' where p: "pull_source u = (p, u')" by (cases "pull_source u")
  note pc = pull_source_cases [OF p]
  let ?st = "st\<lparr>underlying := Some u'\<rparr>"
  show ?case
  proof (cases p)
    case (Throws e)
    then have f: "barrier_failure env e ?st = (r, st')" and c: "c' = c"
      using "1.prems"(3) u(1) p by (auto simp: ServeBarrierBuffering.simps [of pl env st] split: prod.splits)
    from barrier_failure_ok [OF _ f, where S = S and H = H and D = D and R = R and W = W and pl = pl] b c pc(3) [OF Throws] u(3) show ?thesis by (simp add: published_whole_def)
  next
    case Exhausted
    then have f: "barrier_complete env ?st c = (r, st', c')" using "1.prems"(3) u(1) p by (simp add: ServeBarrierBuffering.simps [of pl env st])
    from barrier_complete_ok [OF _ _ f _ "1.prems"(4), where S = S and H = H and D = D and R = R and W = W and pl = pl] b pc(2) [OF Exhausted, of pl] u w show ?thesis by (simp add: published_whole_def)
  next
    case (Produces x l a)
    obtain ok st1 where ret: "RetainCandidateBatch pl x l a ?st = (ok, st1)" by (cases "RetainCandidateBatch pl x l a ?st")
    note kept = retain_keeps [OF ret]
    show ?thesis
    proof (cases ok)
      case True
      with kept have k: "mode st1 = BARRIER_BUFFERING" "underlying st1 = Some u'" "stale_entry st1 = stale_entry st" "replay_entry st1 = replay_entry st"
        "stream_key st1 = stream_key st" "max_candidate_bytes st1 = max_candidate_bytes st" "has_admission st1 = has_admission st"
        "cached_batches st1 = cached_batches st @ [x]" "charged st1" "weighed pl W st1"
        using "1.prems"(1) pc(1) [OF Produces, of pl] w by (auto simp: weighed_def)
      have "serving pl W R E S H D st1" unfolding k(1) using k b pc(1) [OF Produces, of pl] u by (auto simp: behind_barrier_def)
      moreover have "ServeBarrierBuffering pl env st1 c = (r, st', c')"
        using "1.prems"(3) u(1) p Produces ret True by (simp add: ServeBarrierBuffering.simps [of pl env st])
      ultimately have "serve_ok pl W R E S H D r st' \<and> published_whole (next_publish env) W R E st1 c c'"
        using "1.IH" [OF u(1) p [symmetric] Produces ret [symmetric] eqTrueI [OF True] k(1)] "1.prems"(4) by blast
      with k show ?thesis by (simp add: published_whole_def)
    next
      case False
      then have f: "barrier_overflow x st1 = (r, st')" and c: "c' = c"
        using "1.prems"(3) u(1) p Produces ret by (auto simp: ServeBarrierBuffering.simps [of pl env st] split: prod.splits)
      have "pulling st1 (produced (script u')) E" "R = cached_batches st1 @ x # produced (script u')"
        using kept False pc(1) [OF Produces, of pl] u by simp_all
      from barrier_overflow_ok [OF _ this f, where H = H and S = S and W = W and pl = pl] b c show ?thesis by (simp add: published_whole_def behind_barrier_def)
    qed
  qed
qed

lemma serve_mode_ok:
  assumes "serving pl W R E S H D st" and "serve_mode pl env st c = (r, st', c')" and "\<not> clock_throws (next_publish env)"
  shows "serve_ok pl W R E S H D r st' \<and> published_whole (next_publish env) W R E st c c'"
proof (cases "mode st")
  case ACCUMULATING_MISS
  then show ?thesis using serve_miss [OF _ assms(1)] assms(2) by (simp add: serve_mode_def)
next
  case BARRIER_BUFFERING
  then show ?thesis using serve_barrier [OF _ assms(1)] assms(2,3) by (simp add: serve_mode_def)
next
  case DRAINED
  with assms(1) show ?thesis by simp
next
  case STREAM_FAILED
  with assms(1) show ?thesis by simp
qed (use assms in \<open>auto simp: serve_mode_def published_whole_def split: prod.splits simp del: serving_in.simps
    intro: serve_fresh serve_stale serve_barrier_fresh serve_drained serve_drain_emit\<close>)
subsection \<open>The life of a stream\<close>

definition stopped :: "'b cached_stream \<Rightarrow> bool" where
  "stopped st \<longleftrightarrow> stream_closed st \<or> terminal_exception st \<noteq> None \<or> stream_cancelled st"

definition stream_ok :: "'b platform \<Rightarrow> nat \<Rightarrow> 'b list \<Rightarrow> scan_exception option \<Rightarrow> 'b list \<Rightarrow> CacheLookupResult \<Rightarrow> 'b list \<Rightarrow> 'b cached_stream \<Rightarrow> bool" where
  "stream_ok pl W R E S H D st \<longleftrightarrow> \<not> stream_closed st \<and>
     (if stopped st then part_of_snapshot R E S H D
      else if profile_outcome st = OUTCOME_SUCCEEDED then whole_snapshot R E S H D
      else profile_outcome st \<in> {OUTCOME_NOT_STARTED, OUTCOME_RUNNING} \<and> \<not> profile_finished st \<and> serving pl W R E S H D st)"

lemma serving_in_fields: "serving_in m pl W R E S H D (StartProfile st) = serving_in m pl W R E S H D st"
  by (cases m) (simp_all add: StartProfile_def charged_def weighed_def split: option.split)

lemma StartProfile_fields:
  "mode (StartProfile st) = mode st" "stream_closed (StartProfile st) = stream_closed st" "stopped (StartProfile st) = stopped st"
  "stream_key (StartProfile st) = stream_key st" "max_candidate_bytes (StartProfile st) = max_candidate_bytes st"
  "has_admission (StartProfile st) = has_admission st" "profile_finished (StartProfile st) = profile_finished st"
  by (simp_all add: StartProfile_def stopped_def)

text \<open>Serving changes neither the life cycle nor the parameters of the stream.\<close>

definition life :: "'b cached_stream \<Rightarrow> bool \<times> scan_exception option \<times> bool \<times> ScanOutcome \<times> bool \<times> cache_key \<times> uint64 \<times> bool" where
  "life st = (stream_closed st, terminal_exception st, stream_cancelled st, profile_outcome st, profile_finished st, stream_key st,
     max_candidate_bytes st, has_admission st)"

lemma candidate_life: "life (ClearCandidate st) = life st" "RetainCandidateBatch pl b l r st = (ok, st') \<Longrightarrow> life st' = life st"
  "PublishCandidate env st c = (st', c') \<Longrightarrow> life st' = life st"
  by (auto simp: life_def ClearCandidate_def RetainCandidateBatch_def ReserveCandidateBytes_def RollBackCandidateReservation_def PublishCandidate_def
      Let_def split: option.splits if_splits prod.splits)

lemma simple_serve_life:
  "ServeFreshHit st = (r, st') \<Longrightarrow> life st' = life st" "ServeStale st = (r, st') \<Longrightarrow> life st' = life st"
  "ServeBarrierFresh st = (r, st') \<Longrightarrow> life st' = life st" "ServeBarrierDrainedUncached st = (r, st') \<Longrightarrow> life st' = life st"
  by (auto simp: life_def ServeFreshHit_def ServeStale_def ServeBarrierFresh_def ServeBarrierDrainedUncached_def ClearCandidate_def Let_def
      split: option.splits if_splits pull.splits prod.splits)

lemma drain_life: "ServeBarrierDrainEmit st = (r, st') \<Longrightarrow> life st' = life st"
  by (auto simp: ServeBarrierDrainEmit_def Let_def split: option.splits if_splits dest!: simple_serve_life(4))
    (simp_all add: life_def ClearCandidate_def)

lemma barrier_parts_life:
  "barrier_failure env e st = (r, st') \<Longrightarrow> life st' = life st" "barrier_complete env st c = (r, st', c') \<Longrightarrow> life st' = life st"
  "barrier_overflow b st = (r, st') \<Longrightarrow> life st' = life st"
proof -
  show "barrier_failure env e st = (r, st') \<Longrightarrow> life st' = life st"
    by (auto simp: barrier_failure_def Let_def split: scan_exception.splits if_splits dest!: simple_serve_life(2))
      (simp_all add: life_def ClearCandidate_def)
  show "barrier_complete env st c = (r, st', c') \<Longrightarrow> life st' = life st"
    by (auto simp: barrier_complete_def Let_def split: prod.splits if_splits dest!: simple_serve_life(3)) (simp_all add: life_def)
  show "barrier_overflow b st = (r, st') \<Longrightarrow> life st' = life st"
    by (auto simp: barrier_overflow_def dest!: drain_life) (simp add: life_def)
qed

lemma underlying_life [simp]: "life (st\<lparr>underlying := u\<rparr>) = life st"
  by (simp add: life_def)

lemma buffering_life: "ServeBarrierBuffering pl env st c = (r, st', c') \<Longrightarrow> life st' = life st"
proof (induction pl env st c rule: ServeBarrierBuffering.induct)
  case (1 pl env st c)
  show ?case
  proof (cases "underlying st")
    case None
    with "1.prems" show ?thesis by (auto simp: ServeBarrierBuffering.simps [of pl env st] life_def)
  next
    case (Some u)
    obtain p u' where p: "pull_source u = (p, u')" by (cases "pull_source u")
    show ?thesis
    proof (cases p)
      case (Produces x l a)
      obtain ok st1 where ret: "RetainCandidateBatch pl x l a (st\<lparr>underlying := Some u'\<rparr>) = (ok, st1)"
        by (cases "RetainCandidateBatch pl x l a (st\<lparr>underlying := Some u'\<rparr>)")
      note step = "1.prems" [unfolded ServeBarrierBuffering.simps [of pl env st]]
      show ?thesis
      proof (cases ok)
        case True
        with step Some p Produces ret have "ServeBarrierBuffering pl env st1 c = (r, st', c')" by simp
        from "1.IH" [OF Some p [symmetric] Produces ret [symmetric] eqTrueI [OF True] this] candidate_life(2) [OF ret] show ?thesis by simp
      next
        case False
        with step Some p Produces ret have "barrier_overflow x st1 = (r, st')" by (auto split: prod.splits)
        from barrier_parts_life(3) [OF this] candidate_life(2) [OF ret] show ?thesis by simp
      qed
    qed (use "1.prems" Some p in \<open>auto simp: ServeBarrierBuffering.simps [of pl env st] split: prod.splits dest!: barrier_parts_life\<close>)
  qed
qed

lemma serve_life: "serve_mode pl env st c = (r, st', c') \<Longrightarrow> life st' = life st"
proof -
  assume s: "serve_mode pl env st c = (r, st', c')"
  have miss: "ServeAccumulatingMiss pl env st c = (r, st', c') \<Longrightarrow> life st' = life st"
    by (auto simp: ServeAccumulatingMiss_def Let_def split: option.splits prod.splits pull.splits if_splits dest!: candidate_life(2,3))
      (simp_all add: life_def ClearCandidate_def)
  show ?thesis using s miss
    by (cases "mode st") (auto simp: serve_mode_def split: prod.splits dest: simple_serve_life drain_life buffering_life)
qed
lemma fail_stream_stopped: "stopped (fail_stream e st)" "stream_closed (fail_stream e st) = stream_closed st"
  by (cases e; simp add: fail_stream_def FinishProfile_def ClearCandidate_def ClearReplayEntries_def stopped_def Let_def)+

definition finished :: "'b cached_stream \<Rightarrow> bool" where
  "finished st \<longleftrightarrow> \<not> stopped st \<and> profile_outcome st = OUTCOME_SUCCEEDED"

lemma next_ok:
  assumes "stream_ok pl W R E S H D st" and "Next pl env st c = (r, st', c')" and "\<not> clock_throws (next_publish env)"
  shows "(case r of NextBatch b \<Rightarrow> stream_ok pl W R E S H (D @ [b]) st' \<and> \<not> stopped st' | NextDone \<Rightarrow> whole_snapshot R E S H D \<and> stream_ok pl W R E S H D st' \<and> finished st'
      | NextThrows e \<Rightarrow> stream_ok pl W R E S H D st' \<and> stopped st') \<and>
    published_whole (next_publish env) W R E st c c' \<and> stream_key st' = stream_key st \<and> max_candidate_bytes st' = max_candidate_bytes st \<and>
    has_admission st' = has_admission st"
proof (cases "stopped st \<or> profile_outcome st = OUTCOME_SUCCEEDED")
  case True
  with assms(1,2) show ?thesis by (auto simp: Next_def stream_ok_def stopped_def finished_def published_whole_def split: if_splits option.splits)
next
  case False
  then have live: "\<not> stream_closed st" "terminal_exception st = None" "\<not> stream_cancelled st" "profile_outcome st \<noteq> OUTCOME_SUCCEEDED"
    by (simp_all add: stopped_def)
  have st: "profile_outcome st \<in> {OUTCOME_NOT_STARTED, OUTCOME_RUNNING}" "\<not> profile_finished st" "serving pl W R E S H D st"
    using assms(1) False by (simp_all add: stream_ok_def)
  show ?thesis
  proof (cases "next_cancelled env")
    case True
    have "r = NextThrows ScanCancelled" "st' = CancelStream st" "c' = c" using assms(2) live True by (simp_all add: Next_def)
    moreover have "stopped (CancelStream st)" "\<not> stream_closed (CancelStream st)" "stream_key (CancelStream st) = stream_key st"
      "max_candidate_bytes (CancelStream st) = max_candidate_bytes st" "has_admission (CancelStream st) = has_admission st"
      using st live by (simp_all add: CancelStream_def FinishProfile_def ClearCandidate_def ClearReplayEntries_def stopped_def Let_def)
    ultimately show ?thesis using serving_part [OF st(3)] by (simp add: stream_ok_def published_whole_def)
  next
    case not_cancelled: False
    obtain q st1 c1 where s: "serve_mode pl env (StartProfile st) c = (q, st1, c1)" by (cases "serve_mode pl env (StartProfile st) c")
    have "serving pl W R E S H D (StartProfile st)" using st(3) by (simp only: serving_in_fields StartProfile_fields)
    from serve_mode_ok [OF this s assms(3)] have ok: "serve_ok pl W R E S H D q st1" and pub: "published_whole (next_publish env) W R E st c c1"
      by (simp_all add: published_whole_def StartProfile_fields)
    from serve_life [OF s] live st have l: "\<not> stream_closed st1" "terminal_exception st1 = None" "\<not> stream_cancelled st1"
      "profile_outcome st1 = OUTCOME_RUNNING \<or> profile_outcome st1 = OUTCOME_NOT_STARTED" "\<not> profile_finished st1" "stream_key st1 = stream_key st"
      "max_candidate_bytes st1 = max_candidate_bytes st" "has_admission st1 = has_admission st"
      by (auto simp: life_def StartProfile_def split: if_splits)
    have result: "Next pl env st c = (case q of
        ServeThrows e \<Rightarrow> (NextThrows e, fail_stream e st1, c1)
      | Nothing \<Rightarrow> (NextDone, FinishProfile OUTCOME_SUCCEEDED False INTERNAL_CLASS (st1\<lparr>mode := DRAINED\<rparr>), c1)
      | Served b \<Rightarrow>
          if row_count pl b > uint64_max - rows_returned st1
          then (NextThrows (ScanError rows_error), fail_stream (ScanError rows_error) st1, c1)
          else (NextBatch b, st1\<lparr>rows_returned := rows_returned st1 + row_count pl b\<rparr>, c1))"
      using live not_cancelled s by (simp add: Next_def)
    have failed: "stream_ok pl W R E S H D (fail_stream e st1) \<and> stopped (fail_stream e st1)" for e
      using fail_stream_stopped [of e st1] l(1) serving_part [OF st(3)] by (simp add: stream_ok_def)
    have kept: "stream_key (fail_stream e st1) = stream_key st" "max_candidate_bytes (fail_stream e st1) = max_candidate_bytes st"
      "has_admission (fail_stream e st1) = has_admission st" for e
      using l by (cases e; simp add: fail_stream_def FinishProfile_def ClearCandidate_def ClearReplayEntries_def Let_def)+
    show ?thesis
    proof (cases q)
      case (ServeThrows e)
      with assms(2) result pub failed [of e] kept [of e] show ?thesis by auto
    next
      case Nothing
      with assms(2) result have "r = NextDone" "st' = FinishProfile OUTCOME_SUCCEEDED False INTERNAL_CLASS (st1\<lparr>mode := DRAINED\<rparr>)" "c' = c1" by simp_all
      with ok Nothing l pub show ?thesis by (auto simp: serve_ok_def stream_ok_def stopped_def finished_def FinishProfile_def)
    next
      case (Served b)
      show ?thesis
      proof (cases "row_count pl b > uint64_max - rows_returned st1")
        case True
        with assms(2) result Served pub failed kept show ?thesis by auto
      next
        case False
        with assms(2) result Served have r: "r = NextBatch b" "st' = st1\<lparr>rows_returned := rows_returned st1 + row_count pl b\<rparr>" "c' = c1" by simp_all
        have "serving_in m pl W R E S H (D @ [b]) (st1\<lparr>rows_returned := n\<rparr>) = serving_in m pl W R E S H (D @ [b]) st1" for m n
          by (cases m) (simp_all add: charged_def weighed_def split: option.split)
        with ok Served r l pub show ?thesis by (auto simp: serve_ok_def stream_ok_def stopped_def)
      qed
    qed
  qed
qed

text \<open>A sequence of calls, each meeting the shared cache in some state.\<close>

fun run_stream ::
  "'b platform \<Rightarrow> (next_environment \<times> 'b scan_cache) list \<Rightarrow> 'b cached_stream \<Rightarrow> 'b next_result list \<times> 'b cached_stream" where
  "run_stream pl [] st = ([], st)"
| "run_stream pl ((env, c) # calls) st =
     (let (r, st', _) = Next pl env st c; (rs, st'') = run_stream pl calls st' in (r # rs, st''))"

fun delivered :: "'b next_result list \<Rightarrow> 'b list" where
  "delivered [] = []"
| "delivered (NextBatch b # rs) = b # delivered rs"
| "delivered (_ # rs) = delivered rs"

lemma run_finished: "finished st \<Longrightarrow> run_stream pl calls st = (rs, st') \<Longrightarrow> delivered rs = []"
proof (induction calls arbitrary: rs)
  case (Cons x calls)
  then show ?case by (cases x) (auto simp: finished_def Next_def stopped_def split: prod.splits)
qed simp

lemma run_ok:
  "stream_ok pl W R E S H D st \<Longrightarrow> list_all (\<lambda>(env, c). \<not> clock_throws (next_publish env)) calls \<Longrightarrow> run_stream pl calls st = (rs, st') \<Longrightarrow>
    stream_ok pl W R E S H (D @ delivered rs) st' \<and> (NextDone \<in> set rs \<longrightarrow> whole_snapshot R E S H (D @ delivered rs)) \<and>
    stream_key st' = stream_key st \<and> max_candidate_bytes st' = max_candidate_bytes st \<and> has_admission st' = has_admission st"
proof (induction calls arbitrary: D st rs)
  case (Cons x calls)
  obtain env c where x: "x = (env, c)" by (cases x)
  obtain r st1 c1 where n: "Next pl env st c = (r, st1, c1)" by (cases "Next pl env st c")
  obtain qs where q: "run_stream pl calls st1 = (qs, st')" and rs: "rs = r # qs" using Cons.prems(3) x n by (auto split: prod.splits)
  note ok = next_ok [OF Cons.prems(1) n] and IH = Cons.IH [OF _ _ q]
  show ?case
  proof (cases r)
    case (NextBatch b)
    with ok Cons.prems(2) x have "stream_ok pl W R E S H (D @ [b]) st1" by simp
    from IH [OF this] Cons.prems(2) ok x rs NextBatch show ?thesis by simp
  next
    case NextDone
    with ok Cons.prems(2) x have w: "whole_snapshot R E S H D" "stream_ok pl W R E S H D st1" "finished st1" by simp_all
    from run_finished [OF w(3) q] have "delivered qs = []" .
    from IH [OF w(2)] Cons.prems(2) ok x rs NextDone w this show ?thesis by simp
  next
    case (NextThrows e)
    with ok Cons.prems(2) x have "stream_ok pl W R E S H D st1" by simp
    from IH [OF this] Cons.prems(2) ok x rs NextThrows show ?thesis by simp
  qed
qed simp

lemma new_stream_ok:
  assumes "new_CachedScanStream (Some u) True now key policy limit admission c = Inr st" and "Lookup True now key policy c = Inr (H, entry, age)"
  shows "stream_ok pl (produced_bytes pl (script u)) (produced (script u)) (ending (script u)) (case entry of Some e \<Rightarrow> batches e | None \<Rightarrow> []) H [] st \<and>
    stream_key st = key \<and> max_candidate_bytes st = limit \<and> has_admission st = admission"
proof -
  have "entry = None \<longleftrightarrow> H \<noteq> FRESH_HIT \<and> H \<noteq> STALE_CANDIDATE"
    using assms(2) by (auto simp: Lookup_def Let_def split: if_splits option.splits)
  with assms show ?thesis
    by (cases entry) (auto simp: new_CachedScanStream_def Let_def stream_ok_def stopped_def charged_def weighed_def split: if_splits)
qed

subsection \<open>Properties\<close>

text \<open>
  C8. A cached stream delivers one snapshot. Whatever the lookup found, however the remote scan goes on and whatever happens to the cache and
  to admission, the batches handed out are a prefix of the remote batches or a prefix of the batches of the cached entry, never a
  mixture; the entry is used only for a fresh hit, or for a stale candidate when the remote scan ends with an error of the stage \<open>TRANSPORT\<close> or \<open>HTTP_STATUS\<close>,
  whatever the status is (\<open>status_failure_serves_stale\<close> below). When the
  stream reports its end, it has delivered that snapshot completely, and remote batches are complete only after a clean end of the remote scan.
  The hypothesis on the calls is needed: no publication meets a clock that throws, because then the code drops the refreshed batches and
  ends the stream without them (\<open>clock_exception_loses_refresh\<close> below).
\<close>

theorem stream_serves_one_snapshot:
  assumes "new_CachedScanStream (Some u) True now key policy limit admission c = Inr st" and "Lookup True now key policy c = Inr (H, entry, age)"
    and "list_all (\<lambda>(env, c). \<not> clock_throws (next_publish env)) calls" and "run_stream pl calls st = (rs, st')"
  defines "R \<equiv> produced (script u)" and "E \<equiv> ending (script u)" and "S \<equiv> (case entry of Some e \<Rightarrow> batches e | None \<Rightarrow> [])"
  shows "part_of_snapshot R E S H (delivered rs) \<and> (NextDone \<in> set rs \<longrightarrow> whole_snapshot R E S H (delivered rs))"
proof -
  let ?W = "produced_bytes pl (script u)"
  from new_stream_ok [OF assms(1,2), of pl] have "stream_ok pl ?W R E S H [] st" by (simp add: R_def E_def S_def)
  from run_ok [OF this assms(3,4)] have ok: "stream_ok pl ?W R E S H (delivered rs) st'" "NextDone \<in> set rs \<longrightarrow> whole_snapshot R E S H (delivered rs)" by simp_all
  have "part_of_snapshot R E S H (delivered rs)"
  proof (cases "stopped st' \<or> profile_outcome st' = OUTCOME_SUCCEEDED")
    case True
    with ok(1) show ?thesis by (auto simp: stream_ok_def whole_snapshot_def part_of_snapshot_def split: if_splits)
  next
    case False
    with ok(1) have "serving pl ?W R E S H (delivered rs) st'" by (simp add: stream_ok_def)
    then show ?thesis by (rule serving_part)
  qed
  with ok(2) show ?thesis by blast
qed

text \<open>
  C34. Only complete, charged snapshots are published: at any call of a stream, the shared cache either stays as it was or receives a
  publication under the key of the stream of exactly the batches of the remote scan, which has ended cleanly. The size it is published with is the sum of the
  bytes that these batches hold, as a number and with no wrap-around, is within the limit
  of a candidate and, under admission control, is what the permit covers. As for the previous property, no publication meets a clock that throws.
\<close>

theorem only_complete_scans_are_published:
  assumes "new_CachedScanStream (Some u) True now key policy limit admission c0 = Inr st" and "Lookup True now key policy c0 = Inr (H, entry, age)"
    and "list_all (\<lambda>(env, c). \<not> clock_throws (next_publish env)) calls" and "run_stream pl calls st = (rs, st')"
    and "Next pl env st' c = (r, st'', c')" and "\<not> clock_throws (next_publish env)"
  shows "c' = c \<or> ending (script u) = None \<and>
    (\<exists>n permit. unat n = produced_bytes pl (script u) \<and> n \<le> limit \<and> (admission \<and> produced (script u) \<noteq> [] \<longrightarrow> permit = Some n) \<and>
      c' = snd (PublishReserved (next_publish env) True key (produced (script u)) n permit c))"
proof -
  note new = new_stream_ok [OF assms(1,2), of pl]
  from run_ok [OF _ assms(3,4)] new have "stream_ok pl (produced_bytes pl (script u)) (produced (script u)) (ending (script u)) (case entry of Some e \<Rightarrow> batches e | None \<Rightarrow> []) H (delivered rs) st'"
    and k: "stream_key st' = key" "max_candidate_bytes st' = limit" "has_admission st' = admission" by fastforce+
  from next_ok [OF this(1) assms(5,6)] k show ?thesis by (simp add: published_whole_def)
qed
definition sample_platform :: "string platform" where
  "sample_platform = \<lparr>sizeof_TypedBatch = 48, sizeof_OutputValueType = 3, sizeof_TypedRow = 24, sizeof_TypedValue = 96,
     sizeof_TypedScalarValue = 72, row_count = (\<lambda>b. of_nat (length b))\<rparr>"

definition sample_layout :: batch_layout where
  "sample_layout = \<lparr>columns_capacity = 1, rows_capacity = 1, row_layouts = []\<rparr>"

definition granted :: retention where
  "granted = \<lparr>reservation_acquired = True, copy_fails = False, rollback_acquired = True\<rparr>"

definition stale_policy :: freshness_policy where
  "stale_policy = \<lparr>policy_mode = STALE_IF_ERROR, fresh_milliseconds = 10, stale_milliseconds = 10\<rparr>"

definition lost_connection :: scan_exception where
  "lost_connection = ScanError \<lparr>error_stage = TRANSPORT, error_field = [], error_classified = None\<rparr>"

definition failing_source :: "string source" where
  "failing_source = \<lparr>script = [Produces ''new'' sample_layout granted, Throws lost_connection], source_cancels = 0, source_closes = 0\<rparr>"

definition call_at :: "uint64 \<Rightarrow> next_environment" where
  "call_at now = \<lparr>next_cancelled = False, stream_clock_throws = False, stream_now = now, next_publish = quiet_publish now\<rparr>"

lemma sample_lookup:
  "Lookup True 25 (sample_key ''a'') stale_policy sample_cache =
     Inr (STALE_CANDIDATE, Some \<lparr>batches = [''x''], stored_at_milliseconds = 10, size_bytes = 4, entry_permit = None\<rparr>, 15)"
  by (simp add: Lookup_def sample_cache_def IsEnabled_def find_entry_def CacheKeyEqual_def SemanticEqual_def sample_key_def ForBuiltIn_def
      entry_age_def stale_limit_def stale_policy_def)

lemma sample_retained: "RetainedBatchBytes sample_platform sample_layout = Some 75"
  by (simp add: RetainedBatchBytes_def sample_platform_def sample_layout_def AddVectorStorage_def AddRetainedBytes_def)

theorem stream_serves_one_snapshot_witness:
  "\<exists>st rs st'. new_CachedScanStream (Some failing_source) True 25 (sample_key ''a'') stale_policy 1000 True sample_cache = Inr st \<and>
     run_stream sample_platform [(call_at 26, sample_cache), (call_at 27, sample_cache)] st = (rs, st') \<and> rs = [NextBatch ''x'', NextDone] \<and>
     part_of_snapshot [''new''] (Some lost_connection) [''x''] STALE_CANDIDATE (delivered rs)"
proof -
  obtain st where st: "new_CachedScanStream (Some failing_source) True 25 (sample_key ''a'') stale_policy 1000 True sample_cache = Inr st"
    by (simp add: new_CachedScanStream_def sample_lookup)
  let ?calls = "[(call_at 26, sample_cache), (call_at 27, sample_cache)]"
  obtain rs st' where run: "run_stream sample_platform ?calls st = (rs, st')" by (cases "run_stream sample_platform ?calls st")
  have calls: "list_all (\<lambda>(env, c). \<not> clock_throws (next_publish env)) ?calls" by (simp add: call_at_def quiet_publish_def)
  have "fst (run_stream sample_platform ?calls (projr (new_CachedScanStream (Some failing_source) True 25 (sample_key ''a'') stale_policy 1000 True
    sample_cache))) = [NextBatch ''x'', NextDone]" by code_simp
  with st run have "rs = [NextBatch ''x'', NextDone]" by simp
  with stream_serves_one_snapshot [OF st sample_lookup calls run] st run show ?thesis by (simp add: failing_source_def)
qed

definition refreshing_source :: "string source" where
  "refreshing_source = \<lparr>script = [Produces ''new'' sample_layout granted], source_cancels = 0, source_closes = 0\<rparr>"

theorem only_complete_scans_are_published_witness:
  "\<exists>st c'. new_CachedScanStream (Some refreshing_source) True 25 (sample_key ''a'') stale_policy 1000 True sample_cache = Inr st \<and>
     snd (snd (Next sample_platform (call_at 26) st sample_cache)) = c' \<and> resident_bytes c' = 75 \<and>
     (\<exists>n permit. unat n = 75 \<and> n \<le> 1000 \<and> permit = Some n \<and>
       c' = snd (PublishReserved (quiet_publish 26) True (sample_key ''a'') [''new''] n permit sample_cache))"
proof -
  let ?new = "new_CachedScanStream (Some refreshing_source) True 25 (sample_key ''a'') stale_policy 1000 True sample_cache"
  obtain st where st: "?new = Inr st" by (simp add: new_CachedScanStream_def sample_lookup)
  obtain r st' c' where n: "Next sample_platform (call_at 26) st sample_cache = (r, st', c')" by (cases "Next sample_platform (call_at 26) st sample_cache")
  have "resident_bytes (snd (snd (Next sample_platform (call_at 26) (projr ?new) sample_cache))) = 75" by code_simp
  with st n have bytes: "resident_bytes c' = 75" by simp
  moreover have "resident_bytes sample_cache \<noteq> 75" by (simp add: sample_cache_def)
  ultimately have "c' \<noteq> sample_cache" by metis
  moreover have "\<not> clock_throws (next_publish (call_at 26))" by (simp add: call_at_def quiet_publish_def)
  moreover have "produced_bytes sample_platform (script refreshing_source) = 75"
    by (simp add: refreshing_source_def batch_bytes_def sample_layout_def sample_platform_def)
  ultimately show ?thesis
    using only_complete_scans_are_published [OF st sample_lookup _ _ n, of "[]" "[]"] st n bytes
    by (simp add: refreshing_source_def call_at_def)
qed

text \<open>
  A client error of the remote service, as its status 404 is reported, is answered with the stale entry: the stage decides, not the status.
\<close>

definition missing_source :: "string source" where
  "missing_source = \<lparr>script = [Throws (ScanError \<lparr>error_stage = HTTP_STATUS, error_field = [], error_classified = None\<rparr>)],
     source_cancels = 0, source_closes = 0\<rparr>"

theorem status_failure_serves_stale:
  "fst (run_stream sample_platform [(call_at 26, sample_cache), (call_at 27, sample_cache)]
     (projr (new_CachedScanStream (Some missing_source) True 25 (sample_key ''a'') stale_policy 1000 True sample_cache))) =
   [NextBatch ''x'', NextDone]"
  by code_simp

text \<open>A refresh that ends cleanly while the clock of the cache throws: the stream ends without the refreshed batch.\<close>

definition broken_clock :: next_environment where
  "broken_clock = (call_at 26)\<lparr>next_publish := (quiet_publish 26)\<lparr>clock_throws := True\<rparr>\<rparr>"

theorem clock_exception_loses_refresh:
  "fst (run_stream sample_platform [(broken_clock, sample_cache)]
     (projr (new_CachedScanStream (Some refreshing_source) True 25 (sample_key ''a'') stale_policy 1000 True sample_cache))) = [NextDone] \<and>
   produced (script refreshing_source) = [''new''] \<and> ending (script refreshing_source) = None"
  by code_simp

definition released :: "'b cached_stream \<Rightarrow> bool" where
  "released st \<longleftrightarrow> candidate_permit st = None \<and> cached_batches st = [] \<and> replay_entry st = None \<and> stale_entry st = None"

definition stuck :: "scan_exception \<Rightarrow> 'b cached_stream \<Rightarrow> bool" where
  "stuck e st \<longleftrightarrow> \<not> stream_closed st \<and> (terminal_exception st = Some e \<or> terminal_exception st = None \<and> stream_cancelled st \<and> e = ScanCancelled) \<and> released st"

lemma stuck_next: "stuck e st \<Longrightarrow> Next pl env st c = (NextThrows e, st, c)"
  by (auto simp: stuck_def Next_def)

lemma throw_stucks:
  assumes "stream_ok pl W R E S H D st" and "\<not> stopped st" and "Next pl env st c = (NextThrows e, st', c')"
  shows "stuck e st'"
proof (cases "next_cancelled env")
  case True
  then show ?thesis using assms
    by (auto simp: Next_def stream_ok_def stopped_def stuck_def released_def CancelStream_def FinishProfile_def ClearCandidate_def ClearReplayEntries_def
        Let_def split: if_splits)
next
  case False
  have live: "\<not> stream_closed st" "terminal_exception st = None" "\<not> stream_cancelled st" using assms(2) by (simp_all add: stopped_def)
  obtain q st1 c1 where s: "serve_mode pl env (StartProfile st) c = (q, st1, c1)" by (cases "serve_mode pl env (StartProfile st) c")
  from serve_life [OF s] live have l: "\<not> stream_closed st1" "terminal_exception st1 = None" by (simp_all add: life_def StartProfile_def split: if_splits)
  have "st' = fail_stream e st1"
    using assms(3) live False s by (auto simp: Next_def split: if_splits served.splits)
  then show ?thesis using l
    by (cases e) (auto simp: stuck_def released_def fail_stream_def FinishProfile_def ClearCandidate_def ClearReplayEntries_def Let_def)
qed

lemma run_stuck: "stuck e st \<Longrightarrow> run_stream pl calls st = (rs, st') \<Longrightarrow> st' = st \<and> set rs \<subseteq> {NextThrows e}"
proof (induction calls arbitrary: rs)
  case (Cons x calls)
  then show ?case by (cases x) (auto simp: stuck_next split: prod.splits)
qed simp

lemma run_throws:
  "stream_ok pl W R E S H D st \<Longrightarrow> \<not> stopped st \<Longrightarrow> list_all (\<lambda>(env, c). \<not> clock_throws (next_publish env)) calls \<Longrightarrow>
    run_stream pl calls st = (rs, st') \<Longrightarrow> NextThrows e \<in> set rs \<Longrightarrow> stuck e st'"
proof (induction calls arbitrary: D st rs)
  case (Cons x calls)
  obtain env c where x: "x = (env, c)" by (cases x)
  obtain r st1 c1 where n: "Next pl env st c = (r, st1, c1)" by (cases "Next pl env st c")
  obtain qs where q: "run_stream pl calls st1 = (qs, st')" and rs: "rs = r # qs" using Cons.prems(4) x n by (auto split: prod.splits)
  have calm: "\<not> clock_throws (next_publish env)" "list_all (\<lambda>(env, c). \<not> clock_throws (next_publish env)) calls" using Cons.prems(3) x by simp_all
  note ok = next_ok [OF Cons.prems(1) n calm(1)]
  show ?case
  proof (cases r)
    case (NextThrows e')
    from throw_stucks [OF Cons.prems(1,2) n [unfolded NextThrows]] have s: "stuck e' st1" .
    from run_stuck [OF s q] Cons.prems(5) rs NextThrows s show ?thesis by auto
  next
    case NextDone
    then have "finished st1" using ok by simp
    moreover have "finished st1 \<Longrightarrow> NextThrows e \<notin> set qs" using q
    proof (induction calls arbitrary: qs)
      case (Cons y ys)
      then show ?case by (cases y) (auto simp: finished_def Next_def stopped_def split: prod.splits)
    qed simp
    ultimately show ?thesis using Cons.prems(5) rs NextDone by simp
  next
    case (NextBatch b)
    then have o: "stream_ok pl W R E S H (D @ [b]) st1" "\<not> stopped st1" using ok by simp_all
    from Cons.IH [OF o calm(2) q] Cons.prems(5) rs NextBatch show ?thesis by simp
  qed
qed simp

text \<open>
  C35. Failures are final and hold nothing: once a call throws, every later call throws the same exception and changes neither the stream nor
  the cache, and the stream has given back its candidate batches, its permit and the cached entries it referred to.
\<close>

theorem stream_failure_is_terminal:
  assumes "new_CachedScanStream (Some u) True now key policy limit admission c0 = Inr st"
    and "list_all (\<lambda>(env, c). \<not> clock_throws (next_publish env)) calls" and "run_stream pl calls st = (rs, st')" and "NextThrows e \<in> set rs"
  shows "Next pl env st' c = (NextThrows e, st', c) \<and> candidate_permit st' = None \<and> cached_batches st' = [] \<and>
    replay_entry st' = None \<and> stale_entry st' = None"
proof -
  obtain H entry age where l: "Lookup True now key policy c0 = Inr (H, entry, age)"
    by (cases "Lookup True now key policy c0") (auto simp: Lookup_def Let_def split: if_splits option.splits)
  note ok = new_stream_ok [OF assms(1) l]
  have "\<not> stopped st" using assms(1) l
    by (cases entry) (auto simp: new_CachedScanStream_def Let_def stopped_def split: if_splits)
  with run_throws [OF _ _ assms(2,3,4)] ok have "stuck e st'" by blast
  with stuck_next [OF this] show ?thesis by (simp add: stuck_def released_def)
qed

theorem stream_failure_is_terminal_witness:
  "\<exists>st rs st'. new_CachedScanStream (Some failing_source) True 35 (sample_key ''a'') stale_policy 1000 True sample_cache = Inr st \<and>
     run_stream sample_platform [(call_at 36, sample_cache), (call_at 37, sample_cache)] st = (rs, st') \<and>
     rs = [NextBatch ''new'', NextThrows lost_connection] \<and> Next sample_platform (call_at 38) st' sample_cache = (NextThrows lost_connection, st', sample_cache)"
proof -
  let ?new = "new_CachedScanStream (Some failing_source) True 35 (sample_key ''a'') stale_policy 1000 True sample_cache"
  have "fst (run_stream sample_platform [(call_at 36, sample_cache), (call_at 37, sample_cache)] (projr ?new)) =
      [NextBatch ''new'', NextThrows lost_connection]" by code_simp
  moreover obtain st where st: "?new = Inr st"
    by (cases ?new) (auto simp: new_CachedScanStream_def Lookup_def Let_def split: if_splits option.splits)
  moreover obtain rs st' where run: "run_stream sample_platform [(call_at 36, sample_cache), (call_at 37, sample_cache)] st = (rs, st')"
    by (cases "run_stream sample_platform [(call_at 36, sample_cache), (call_at 37, sample_cache)] st")
  ultimately have rs: "rs = [NextBatch ''new'', NextThrows lost_connection]" by simp
  have "list_all (\<lambda>(env, c). \<not> clock_throws (next_publish env)) [(call_at 36, sample_cache), (call_at 37, sample_cache)]"
    by (simp add: call_at_def quiet_publish_def)
  from stream_failure_is_terminal [OF st this run, of lost_connection] rs st run show ?thesis by simp
qed

end
