(* ===== verification/Input_Resolution.thy ===== *)
theory Input_Resolution
  imports Predicate_Classifier
begin

section \<open>Resolution of relation inputs\<close>

text \<open>
  \<open>src/semantics/planner/input_resolution.cpp\<close> with the explicit arguments of a scan request
  (\<open>src/query/request/scan_request.cpp\<close>) and the declared inputs of a relation (\<open>src/connector/model/catalog_model.cpp\<close>). The
  accessors of typed values throw on the wrong type; the model keeps these exceptions, and the theorems show that
  resolution never meets them. Integers are the \<open>int64_t\<close> values, doubles their 64-bit patterns.
\<close>

datatype resolution_error = PlanningFailure planning_error | StandardException cpp_exception

subsection \<open>Explicit inputs\<close>

datatype ExplicitInputValueKind =
  EXPLICIT_BOOLEAN | EXPLICIT_BIGINT | EXPLICIT_VARCHAR | EXPLICIT_DOUBLE | EXPLICIT_TIMESTAMPTZ

record explicit_input =
  explicit_identifier :: string
  explicit_kind :: ExplicitInputValueKind
  explicit_is_null :: bool
  explicit_boolean :: bool
  explicit_bigint :: int
  explicit_varchar :: string
  explicit_double :: double_bits
  explicit_timestamptz :: int

definition new_ExplicitInput ::
  "string \<Rightarrow> ExplicitInputValueKind \<Rightarrow> bool \<Rightarrow> bool \<Rightarrow> int \<Rightarrow> string \<Rightarrow> double_bits \<Rightarrow> int \<Rightarrow> cpp_exception + explicit_input" where
  "new_ExplicitInput identifier kind is_null boolean bigint varchar double timestamptz =
     (if identifier = [] then Inl (invalid_argument ''explicit input identifier must not be empty'')
      else Inr \<lparr>explicit_identifier = identifier, explicit_kind = kind, explicit_is_null = is_null, explicit_boolean = boolean,
        explicit_bigint = bigint, explicit_varchar = varchar, explicit_double = double, explicit_timestamptz = timestamptz\<rparr>)"

definition ExplicitNull :: "string \<Rightarrow> ExplicitInputValueKind \<Rightarrow> cpp_exception + explicit_input" where
  "ExplicitNull identifier kind = new_ExplicitInput identifier kind True False 0 [] positive_zero 0"

definition ExplicitBoolean :: "string \<Rightarrow> bool \<Rightarrow> cpp_exception + explicit_input" where
  "ExplicitBoolean identifier v = new_ExplicitInput identifier EXPLICIT_BOOLEAN False v 0 [] positive_zero 0"

definition ExplicitBigInt :: "string \<Rightarrow> int \<Rightarrow> cpp_exception + explicit_input" where
  "ExplicitBigInt identifier v = new_ExplicitInput identifier EXPLICIT_BIGINT False False v [] positive_zero 0"

definition ExplicitVarchar :: "string \<Rightarrow> string \<Rightarrow> cpp_exception + explicit_input" where
  "ExplicitVarchar identifier v = new_ExplicitInput identifier EXPLICIT_VARCHAR False False 0 v positive_zero 0"

definition ExplicitDouble :: "string \<Rightarrow> double_bits \<Rightarrow> cpp_exception + explicit_input" where
  "ExplicitDouble identifier v =
     new_ExplicitInput identifier EXPLICIT_DOUBLE False False 0 [] (if double_equal v positive_zero then positive_zero else v) 0"

definition ExplicitTimestamptz :: "string \<Rightarrow> int \<Rightarrow> cpp_exception + explicit_input" where
  "ExplicitTimestamptz identifier v =
     (if \<not> IsTimestamptzMicroseconds v then Inl (invalid_argument ''explicit TIMESTAMPTZ input is outside the CUAC profile'')
      else new_ExplicitInput identifier EXPLICIT_TIMESTAMPTZ False False 0 [] positive_zero v)"

definition ExplicitBooleanValue :: "explicit_input \<Rightarrow> cpp_exception + bool" where
  "ExplicitBooleanValue e =
     (if explicit_is_null e \<or> explicit_kind e \<noteq> EXPLICIT_BOOLEAN then Inl (logic_error ''explicit input does not contain a BOOLEAN value'')
      else Inr (explicit_boolean e))"

definition ExplicitBigIntValue :: "explicit_input \<Rightarrow> cpp_exception + int" where
  "ExplicitBigIntValue e =
     (if explicit_is_null e \<or> explicit_kind e \<noteq> EXPLICIT_BIGINT then Inl (logic_error ''explicit input does not contain a BIGINT value'')
      else Inr (explicit_bigint e))"

definition ExplicitVarcharValue :: "explicit_input \<Rightarrow> cpp_exception + string" where
  "ExplicitVarcharValue e =
     (if explicit_is_null e \<or> explicit_kind e \<noteq> EXPLICIT_VARCHAR then Inl (logic_error ''explicit input does not contain a VARCHAR value'')
      else Inr (explicit_varchar e))"

definition ExplicitDoubleValue :: "explicit_input \<Rightarrow> cpp_exception + double_bits" where
  "ExplicitDoubleValue e =
     (if explicit_is_null e \<or> explicit_kind e \<noteq> EXPLICIT_DOUBLE then Inl (logic_error ''explicit input does not contain a DOUBLE value'')
      else Inr (explicit_double e))"

definition ExplicitTimestamptzMicroseconds :: "explicit_input \<Rightarrow> cpp_exception + int" where
  "ExplicitTimestamptzMicroseconds e =
     (if explicit_is_null e \<or> explicit_kind e \<noteq> EXPLICIT_TIMESTAMPTZ
      then Inl (logic_error ''explicit input does not contain a TIMESTAMPTZ value'') else Inr (explicit_timestamptz e))"

text \<open>The constructor of the ordered set of explicit inputs; the set of identifiers seen so far is an argument of the loop.\<close>

fun check_identifiers :: "string set \<Rightarrow> explicit_input list \<Rightarrow> cpp_exception + unit" where
  "check_identifiers seen [] = Inr ()"
| "check_identifiers seen (e # es) =
     (if explicit_identifier e = [] then Inl (invalid_argument ''explicit input identifier must not be empty'')
      else if explicit_identifier e \<in> seen then Inl (invalid_argument ''explicit input identifiers must be unique'')
      else check_identifiers (insert (explicit_identifier e) seen) es)"

definition new_ExplicitInputs :: "explicit_input list \<Rightarrow> cpp_exception + explicit_input list" where
  "new_ExplicitInputs values = and_then (check_identifiers {} values) (\<lambda>_. Inr values)"

definition FindExplicit :: "string \<Rightarrow> explicit_input list \<Rightarrow> explicit_input option" where
  "FindExplicit identifier values = find (\<lambda>e. explicit_identifier e = identifier) values"

subsection \<open>Declared inputs\<close>

record relation_input =
  relation_input_name :: string
  relation_input_type :: CompiledScalarType
  relation_input_nullable :: bool
  relation_input_default :: "compiled_scalar_value option"

definition DefaultOf :: "compiled_scalar_value option \<Rightarrow> cpp_exception + compiled_scalar_value" where
  "DefaultOf d = (case d of None \<Rightarrow> Inl (logic_error ''compiled input has no default'') | Some v \<Rightarrow> Inr v)"

definition new_CompiledRelationInput ::
  "string \<Rightarrow> CompiledScalarType \<Rightarrow> bool \<Rightarrow> compiled_scalar_value option \<Rightarrow> cpp_exception + relation_input" where
  "new_CompiledRelationInput name ty nullable initial =
     (let i = \<lparr>relation_input_name = name, relation_input_type = ty, relation_input_nullable = nullable, relation_input_default = initial\<rparr>
      in if \<not> IsIdentifier name \<or> name = ''secret''
         then Inl (invalid_argument ''compiled relation contains an invalid or reserved input identifier'')
         else case initial of
           None \<Rightarrow> Inr i
         | Some v \<Rightarrow>
             if scalar_type v \<noteq> ty \<or> scalar_is_null v \<and> \<not> nullable
             then Inl (invalid_argument ''compiled relation input default disagrees with its type or nullability'') else Inr i)"

definition ScalarBoolean :: "compiled_scalar_value \<Rightarrow> cpp_exception + bool" where
  "ScalarBoolean v =
     (if scalar_is_null v \<or> scalar_type v \<noteq> SCALAR_BOOLEAN then Inl (logic_error ''compiled scalar is not a concrete BOOLEAN'')
      else Inr (scalar_boolean v))"

definition ScalarBigint :: "compiled_scalar_value \<Rightarrow> cpp_exception + int" where
  "ScalarBigint v =
     (if scalar_is_null v \<or> scalar_type v \<noteq> SCALAR_BIGINT then Inl (logic_error ''compiled scalar is not a concrete BIGINT'')
      else Inr (scalar_bigint v))"

definition ScalarVarchar :: "compiled_scalar_value \<Rightarrow> cpp_exception + string" where
  "ScalarVarchar v =
     (if scalar_is_null v \<or> scalar_type v \<noteq> SCALAR_VARCHAR then Inl (logic_error ''compiled scalar is not a concrete VARCHAR'')
      else Inr (scalar_varchar v))"

definition ScalarDouble :: "compiled_scalar_value \<Rightarrow> cpp_exception + double_bits" where
  "ScalarDouble v =
     (if scalar_is_null v \<or> scalar_type v \<noteq> SCALAR_DOUBLE then Inl (logic_error ''compiled scalar is not a concrete DOUBLE'')
      else Inr (scalar_double v))"

definition ScalarTimestamptz :: "compiled_scalar_value \<Rightarrow> cpp_exception + int" where
  "ScalarTimestamptz v =
     (if scalar_is_null v \<or> scalar_type v \<noteq> SCALAR_TIMESTAMPTZ then Inl (logic_error ''compiled scalar is not a concrete TIMESTAMPTZ'')
      else Inr (scalar_timestamptz v))"

subsection \<open>Resolved inputs\<close>

datatype ResolvedInputState = UNBOUND | BOUND_NULL | BOUND_VALUE
datatype ResolvedInputSource = SOURCE_NONE | SOURCE_EXPLICIT | SOURCE_DEFAULT

record resolved_input =
  resolved_name :: string
  resolved_type :: CompiledScalarType
  resolved_state :: ResolvedInputState
  resolved_source :: ResolvedInputSource
  resolved_boolean :: bool
  resolved_bigint :: int
  resolved_varchar :: string
  resolved_double :: double_bits
  resolved_timestamptz :: int

definition new_ResolvedRelationInput ::
  "relation_input \<Rightarrow> ResolvedInputState \<Rightarrow> ResolvedInputSource \<Rightarrow> bool \<Rightarrow> int \<Rightarrow> string \<Rightarrow> double_bits \<Rightarrow> int \<Rightarrow> resolved_input" where
  "new_ResolvedRelationInput i st source boolean bigint varchar double timestamptz =
     \<lparr>resolved_name = relation_input_name i, resolved_type = relation_input_type i, resolved_state = st, resolved_source = source,
      resolved_boolean = boolean, resolved_bigint = bigint, resolved_varchar = varchar, resolved_double = double,
      resolved_timestamptz = timestamptz\<rparr>"

fun TypesAgree :: "CompiledScalarType \<Rightarrow> ExplicitInputValueKind \<Rightarrow> bool" where
  "TypesAgree SCALAR_BOOLEAN kind \<longleftrightarrow> kind = EXPLICIT_BOOLEAN"
| "TypesAgree SCALAR_BIGINT kind \<longleftrightarrow> kind = EXPLICIT_BIGINT"
| "TypesAgree SCALAR_VARCHAR kind \<longleftrightarrow> kind = EXPLICIT_VARCHAR"
| "TypesAgree SCALAR_DOUBLE kind \<longleftrightarrow> kind = EXPLICIT_DOUBLE"
| "TypesAgree SCALAR_TIMESTAMPTZ kind \<longleftrightarrow> kind = EXPLICIT_TIMESTAMPTZ"

definition UnboundInput :: "relation_input \<Rightarrow> resolved_input" where
  "UnboundInput i = new_ResolvedRelationInput i UNBOUND SOURCE_NONE False 0 [] positive_zero 0"

definition NullInput :: "relation_input \<Rightarrow> ResolvedInputSource \<Rightarrow> resolved_input" where
  "NullInput i source = new_ResolvedRelationInput i BOUND_NULL source False 0 [] positive_zero 0"

text \<open>An exception of an accessor leaves the planner unchanged.\<close>

definition accessed :: "cpp_exception + 'a \<Rightarrow> ('a \<Rightarrow> resolved_input) \<Rightarrow> resolution_error + resolved_input" where
  "accessed r f = (case r of Inl e \<Rightarrow> Inl (StandardException e) | Inr v \<Rightarrow> Inr (f v))"

definition ExplicitValue :: "relation_input \<Rightarrow> explicit_input \<Rightarrow> resolution_error + resolved_input" where
  "ExplicitValue i e =
     (case relation_input_type i of
        SCALAR_BOOLEAN \<Rightarrow>
          accessed (ExplicitBooleanValue e) (\<lambda>v. new_ResolvedRelationInput i BOUND_VALUE SOURCE_EXPLICIT v 0 [] positive_zero 0)
      | SCALAR_BIGINT \<Rightarrow>
          accessed (ExplicitBigIntValue e) (\<lambda>v. new_ResolvedRelationInput i BOUND_VALUE SOURCE_EXPLICIT False v [] positive_zero 0)
      | SCALAR_VARCHAR \<Rightarrow>
          accessed (ExplicitVarcharValue e) (\<lambda>v. new_ResolvedRelationInput i BOUND_VALUE SOURCE_EXPLICIT False 0 v positive_zero 0)
      | SCALAR_DOUBLE \<Rightarrow>
          accessed (ExplicitDoubleValue e) (\<lambda>v. new_ResolvedRelationInput i BOUND_VALUE SOURCE_EXPLICIT False 0 [] v 0)
      | SCALAR_TIMESTAMPTZ \<Rightarrow>
          accessed (ExplicitTimestamptzMicroseconds e)
            (\<lambda>v. new_ResolvedRelationInput i BOUND_VALUE SOURCE_EXPLICIT False 0 [] positive_zero v))"

definition DefaultValue :: "relation_input \<Rightarrow> compiled_scalar_value \<Rightarrow> resolution_error + resolved_input" where
  "DefaultValue i v =
     (if scalar_type v \<noteq> relation_input_type i
      then Inl (PlanningFailure (INVALID_CONTRACT ''compiled relation input default disagrees with its declared type''))
      else if scalar_is_null v then
        (if \<not> relation_input_nullable i
         then Inl (PlanningFailure (INVALID_CONTRACT ''compiled relation input has a non-nullable NULL default''))
         else Inr (NullInput i SOURCE_DEFAULT))
      else case scalar_type v of
        SCALAR_BOOLEAN \<Rightarrow>
          accessed (ScalarBoolean v) (\<lambda>x. new_ResolvedRelationInput i BOUND_VALUE SOURCE_DEFAULT x 0 [] positive_zero 0)
      | SCALAR_BIGINT \<Rightarrow>
          accessed (ScalarBigint v) (\<lambda>x. new_ResolvedRelationInput i BOUND_VALUE SOURCE_DEFAULT False x [] positive_zero 0)
      | SCALAR_VARCHAR \<Rightarrow>
          accessed (ScalarVarchar v) (\<lambda>x. new_ResolvedRelationInput i BOUND_VALUE SOURCE_DEFAULT False 0 x positive_zero 0)
      | SCALAR_DOUBLE \<Rightarrow>
          accessed (ScalarDouble v) (\<lambda>x. new_ResolvedRelationInput i BOUND_VALUE SOURCE_DEFAULT False 0 [] x 0)
      | SCALAR_TIMESTAMPTZ \<Rightarrow>
          accessed (ScalarTimestamptz v) (\<lambda>x. new_ResolvedRelationInput i BOUND_VALUE SOURCE_DEFAULT False 0 [] positive_zero x))"

fun check_declared :: "string set \<Rightarrow> relation_input list \<Rightarrow> resolution_error + string set" where
  "check_declared declared [] = Inr declared"
| "check_declared declared (i # is) =
     (if relation_input_name i \<in> declared
      then Inl (PlanningFailure (INVALID_CONTRACT ''compiled relation contains a duplicate input identifier''))
      else check_declared (insert (relation_input_name i) declared) is)"

fun check_supplied :: "string set \<Rightarrow> string set \<Rightarrow> explicit_input list \<Rightarrow> resolution_error + unit" where
  "check_supplied declared supplied [] = Inr ()"
| "check_supplied declared supplied (e # es) =
     (if explicit_identifier e \<in> supplied
      then Inl (PlanningFailure (INVALID_CONTRACT ''scan request contains a duplicate explicit input identifier''))
      else if explicit_identifier e \<notin> declared
      then Inl (PlanningFailure (INVALID_CONTRACT ''scan request contains an unknown explicit input identifier''))
      else check_supplied declared (insert (explicit_identifier e) supplied) es)"

definition resolve_input :: "explicit_input list \<Rightarrow> relation_input \<Rightarrow> resolution_error + resolved_input" where
  "resolve_input explicit_inputs i =
     (case FindExplicit (relation_input_name i) explicit_inputs of
        Some e \<Rightarrow>
          if \<not> TypesAgree (relation_input_type i) (explicit_kind e)
          then Inl (PlanningFailure (INVALID_CONTRACT ''explicit relation input kind disagrees with its compiled declaration''))
          else if explicit_is_null e then
            (if \<not> relation_input_nullable i
             then Inl (PlanningFailure (INVALID_CONTRACT ''non-nullable relation input received explicit NULL''))
             else Inr (NullInput i SOURCE_EXPLICIT))
          else ExplicitValue i e
      | None \<Rightarrow>
          if relation_input_default i \<noteq> None
          then case DefaultOf (relation_input_default i) of Inl e \<Rightarrow> Inl (StandardException e) | Inr v \<Rightarrow> DefaultValue i v
          else Inr (UnboundInput i))"

fun resolve_loop :: "explicit_input list \<Rightarrow> relation_input list \<Rightarrow> resolved_input list \<Rightarrow> resolution_error + resolved_input list" where
  "resolve_loop explicit_inputs [] result = Inr result"
| "resolve_loop explicit_inputs (i # is) result =
     and_then (resolve_input explicit_inputs i) (\<lambda>r. resolve_loop explicit_inputs is (result @ [r]))"

definition ResolveRelationInputs :: "relation_input list \<Rightarrow> explicit_input list \<Rightarrow> resolution_error + resolved_input list" where
  "ResolveRelationInputs inputs explicit_inputs =
     and_then (check_declared {} inputs) (\<lambda>declared.
     and_then (check_supplied declared {} explicit_inputs) (\<lambda>_. resolve_loop explicit_inputs inputs []))"

definition FindResolved :: "string \<Rightarrow> resolved_input list \<Rightarrow> resolved_input option" where
  "FindResolved identifier values = find (\<lambda>r. resolved_name r = identifier) values"

definition ResolvedBooleanValue :: "resolved_input \<Rightarrow> cpp_exception + bool" where
  "ResolvedBooleanValue r =
     (if resolved_state r \<noteq> BOUND_VALUE \<or> resolved_type r \<noteq> SCALAR_BOOLEAN
      then Inl (logic_error ''resolved relation input is not a concrete BOOLEAN'') else Inr (resolved_boolean r))"

definition ResolvedBigintValue :: "resolved_input \<Rightarrow> cpp_exception + int" where
  "ResolvedBigintValue r =
     (if resolved_state r \<noteq> BOUND_VALUE \<or> resolved_type r \<noteq> SCALAR_BIGINT
      then Inl (logic_error ''resolved relation input is not a concrete BIGINT'') else Inr (resolved_bigint r))"

definition ResolvedVarcharValue :: "resolved_input \<Rightarrow> cpp_exception + string" where
  "ResolvedVarcharValue r =
     (if resolved_state r \<noteq> BOUND_VALUE \<or> resolved_type r \<noteq> SCALAR_VARCHAR
      then Inl (logic_error ''resolved relation input is not a concrete VARCHAR'') else Inr (resolved_varchar r))"

definition ResolvedDoubleValue :: "resolved_input \<Rightarrow> cpp_exception + double_bits" where
  "ResolvedDoubleValue r =
     (if resolved_state r \<noteq> BOUND_VALUE \<or> resolved_type r \<noteq> SCALAR_DOUBLE
      then Inl (logic_error ''resolved relation input is not a concrete DOUBLE'') else Inr (resolved_double r))"

definition ResolvedTimestamptzMicroseconds :: "resolved_input \<Rightarrow> cpp_exception + int" where
  "ResolvedTimestamptzMicroseconds r =
     (if resolved_state r \<noteq> BOUND_VALUE \<or> resolved_type r \<noteq> SCALAR_TIMESTAMPTZ
      then Inl (logic_error ''resolved relation input is not a concrete TIMESTAMPTZ'') else Inr (resolved_timestamptz r))"

subsection \<open>What resolution means\<close>

datatype typed_value = TBool bool | TInt int | TText string | TDouble double_bits | TInstant int

text \<open>
  What an argument or a default says by itself: its type and, unless it is \<open>NULL\<close>, its value.
\<close>

definition argument_meaning :: "explicit_input \<Rightarrow> CompiledScalarType \<times> typed_value option" where
  "argument_meaning e =
     (let (ty, v) = (case explicit_kind e of
          EXPLICIT_BOOLEAN \<Rightarrow> (SCALAR_BOOLEAN, TBool (explicit_boolean e))
        | EXPLICIT_BIGINT \<Rightarrow> (SCALAR_BIGINT, TInt (explicit_bigint e))
        | EXPLICIT_VARCHAR \<Rightarrow> (SCALAR_VARCHAR, TText (explicit_varchar e))
        | EXPLICIT_DOUBLE \<Rightarrow> (SCALAR_DOUBLE, TDouble (explicit_double e))
        | EXPLICIT_TIMESTAMPTZ \<Rightarrow> (SCALAR_TIMESTAMPTZ, TInstant (explicit_timestamptz e)))
      in (ty, if explicit_is_null e then None else Some v))"

definition default_meaning :: "compiled_scalar_value \<Rightarrow> CompiledScalarType \<times> typed_value option" where
  "default_meaning d =
     (scalar_type d, if scalar_is_null d then None else Some (case scalar_type d of
          SCALAR_BOOLEAN \<Rightarrow> TBool (scalar_boolean d)
        | SCALAR_BIGINT \<Rightarrow> TInt (scalar_bigint d)
        | SCALAR_VARCHAR \<Rightarrow> TText (scalar_varchar d)
        | SCALAR_DOUBLE \<Rightarrow> TDouble (scalar_double d)
        | SCALAR_TIMESTAMPTZ \<Rightarrow> TInstant (scalar_timestamptz d)))"

text \<open>
  The binding an input should get: the argument that carries its name, else its default, else none; and when that binding may be made.
\<close>

inductive bound_to :: "explicit_input list \<Rightarrow> relation_input \<Rightarrow> (ResolvedInputSource \<times> CompiledScalarType \<times> typed_value option) option \<Rightarrow> bool" where
  by_argument: "e \<in> set given \<Longrightarrow> explicit_identifier e = relation_input_name i \<Longrightarrow>
    bound_to given i (Some (SOURCE_EXPLICIT, argument_meaning e))"
| by_default: "relation_input_name i \<notin> explicit_identifier ` set given \<Longrightarrow> relation_input_default i = Some d \<Longrightarrow>
    bound_to given i (Some (SOURCE_DEFAULT, default_meaning d))"
| unbound: "relation_input_name i \<notin> explicit_identifier ` set given \<Longrightarrow> relation_input_default i = None \<Longrightarrow> bound_to given i None"

definition binding_admitted :: "explicit_input list \<Rightarrow> relation_input \<Rightarrow> bool" where
  "binding_admitted given i \<longleftrightarrow>
     (\<forall>source ty v. bound_to given i (Some (source, ty, v)) \<longrightarrow> ty = relation_input_type i \<and> (v = None \<longrightarrow> relation_input_nullable i))"

text \<open>What the accessors of a resolved input tell.\<close>

definition read_value :: "resolved_input \<Rightarrow> cpp_exception + typed_value" where
  "read_value r =
     (case resolved_type r of
        SCALAR_BOOLEAN \<Rightarrow> map_sum id TBool (ResolvedBooleanValue r)
      | SCALAR_BIGINT \<Rightarrow> map_sum id TInt (ResolvedBigintValue r)
      | SCALAR_VARCHAR \<Rightarrow> map_sum id TText (ResolvedVarcharValue r)
      | SCALAR_DOUBLE \<Rightarrow> map_sum id TDouble (ResolvedDoubleValue r)
      | SCALAR_TIMESTAMPTZ \<Rightarrow> map_sum id TInstant (ResolvedTimestamptzMicroseconds r))"

definition shows_binding :: "(ResolvedInputSource \<times> CompiledScalarType \<times> typed_value option) option \<Rightarrow> resolved_input \<Rightarrow> bool" where
  "shows_binding b r \<longleftrightarrow>
     (case b of
        None \<Rightarrow> resolved_state r = UNBOUND \<and> resolved_source r = SOURCE_NONE
      | Some (source, ty, None) \<Rightarrow> resolved_state r = BOUND_NULL \<and> resolved_source r = source
      | Some (source, ty, Some v) \<Rightarrow> resolved_state r = BOUND_VALUE \<and> resolved_source r = source \<and> read_value r = Inr v)"

definition resolves :: "explicit_input list \<Rightarrow> relation_input \<Rightarrow> resolved_input \<Rightarrow> bool" where
  "resolves given i r \<longleftrightarrow>
     resolved_name r = relation_input_name i \<and> resolved_type r = relation_input_type i \<and> (\<exists>b. bound_to given i b \<and> shows_binding b r)"

lemmas accessor_defs = ExplicitBooleanValue_def ExplicitBigIntValue_def ExplicitVarcharValue_def ExplicitDoubleValue_def
  ExplicitTimestamptzMicroseconds_def ScalarBoolean_def ScalarBigint_def ScalarVarchar_def ScalarDouble_def ScalarTimestamptz_def
  ResolvedBooleanValue_def ResolvedBigintValue_def ResolvedVarcharValue_def ResolvedDoubleValue_def ResolvedTimestamptzMicroseconds_def

lemmas resolved_defs = new_ResolvedRelationInput_def accessed_def NullInput_def UnboundInput_def

lemma explicit_value_resolves:
  assumes "argument_meaning e = (relation_input_type i, Some v)"
  shows "\<exists>r. ExplicitValue i e = Inr r \<and> resolved_name r = relation_input_name i \<and> resolved_type r = relation_input_type i \<and>
    resolved_state r = BOUND_VALUE \<and> resolved_source r = SOURCE_EXPLICIT \<and> read_value r = Inr v"
  using assms
  by (cases "explicit_kind e") (auto simp: argument_meaning_def ExplicitValue_def accessor_defs resolved_defs read_value_def split: if_splits)

lemma default_value_resolves:
  assumes "default_meaning d = (relation_input_type i, Some v)"
  shows "\<exists>r. DefaultValue i d = Inr r \<and> resolved_name r = relation_input_name i \<and> resolved_type r = relation_input_type i \<and>
    resolved_state r = BOUND_VALUE \<and> resolved_source r = SOURCE_DEFAULT \<and> read_value r = Inr v"
  using assms
  by (cases "scalar_type d") (auto simp: default_meaning_def DefaultValue_def accessor_defs resolved_defs read_value_def split: if_splits)

lemma argument_facts:
  "fst (argument_meaning e) = ty \<longleftrightarrow> TypesAgree ty (explicit_kind e)" "snd (argument_meaning e) = None \<longleftrightarrow> explicit_is_null e"
  by (cases "explicit_kind e"; cases ty; simp add: argument_meaning_def)+

lemma default_facts: "fst (default_meaning d) = scalar_type d" "snd (default_meaning d) = None \<longleftrightarrow> scalar_is_null d"
  by (simp_all add: default_meaning_def)

text \<open>With unique identifiers an input has exactly one binding, the one that the lookup of the code leads to.\<close>

lemma FindExplicit_None: "FindExplicit n given = None \<longleftrightarrow> n \<notin> explicit_identifier ` set given"
  by (auto simp: FindExplicit_def find_None_iff)

lemma bound_to_iff:
  assumes "distinct (map explicit_identifier given)"
  shows "bound_to given i b \<longleftrightarrow>
    b = (case FindExplicit (relation_input_name i) given of
           Some e \<Rightarrow> Some (SOURCE_EXPLICIT, argument_meaning e)
         | None \<Rightarrow> map_option (\<lambda>d. (SOURCE_DEFAULT, default_meaning d)) (relation_input_default i))"
proof (cases "FindExplicit (relation_input_name i) given")
  case None
  then have "relation_input_name i \<notin> explicit_identifier ` set given" by (simp add: FindExplicit_None)
  moreover from this have "\<not> (e \<in> set given \<and> explicit_identifier e = relation_input_name i)" for e by (metis image_eqI)
  ultimately show ?thesis using None by (cases "relation_input_default i") (auto simp: bound_to.simps)
next
  case (Some e)
  then have e: "e \<in> set given" "explicit_identifier e = relation_input_name i"
    by (auto simp: FindExplicit_def find_Some_iff)
  have only: "e' = e" if "e' \<in> set given" "explicit_identifier e' = relation_input_name i" for e'
    using assms that e by (metis distinct_map inj_onD)
  have named: "relation_input_name i \<in> explicit_identifier ` set given" using e by (metis image_eqI)
  show ?thesis
  proof
    assume "bound_to given i b"
    then show "b = (case FindExplicit (relation_input_name i) given of Some e \<Rightarrow> Some (SOURCE_EXPLICIT, argument_meaning e)
        | None \<Rightarrow> map_option (\<lambda>d. (SOURCE_DEFAULT, default_meaning d)) (relation_input_default i))"
      by cases (use only named Some in simp_all)
  next
    assume "b = (case FindExplicit (relation_input_name i) given of Some e \<Rightarrow> Some (SOURCE_EXPLICIT, argument_meaning e)
        | None \<Rightarrow> map_option (\<lambda>d. (SOURCE_DEFAULT, default_meaning d)) (relation_input_default i))"
    with by_argument [OF e] show "bound_to given i b" by (simp add: Some)
  qed
qed

lemma admitted_explicit:
  assumes "distinct (map explicit_identifier given)" and "FindExplicit (relation_input_name i) given = Some e"
  shows "binding_admitted given i \<longleftrightarrow>
    fst (argument_meaning e) = relation_input_type i \<and> (snd (argument_meaning e) = None \<longrightarrow> relation_input_nullable i)"
  using assms(2) by (cases "argument_meaning e") (simp add: binding_admitted_def bound_to_iff [OF assms(1)])

lemma admitted_default:
  assumes "distinct (map explicit_identifier given)" and "FindExplicit (relation_input_name i) given = None"
  shows "binding_admitted given i \<longleftrightarrow> (case relation_input_default i of None \<Rightarrow> True
    | Some d \<Rightarrow> fst (default_meaning d) = relation_input_type i \<and> (snd (default_meaning d) = None \<longrightarrow> relation_input_nullable i))"
proof (cases "relation_input_default i")
  case (Some d)
  with assms(2) show ?thesis by (cases "default_meaning d") (simp add: binding_admitted_def bound_to_iff [OF assms(1)])
qed (use assms(2) in \<open>simp add: binding_admitted_def bound_to_iff [OF assms(1)]\<close>)

lemma resolve_input_admitted:
  assumes d: "distinct (map explicit_identifier given)" and "binding_admitted given i"
  shows "\<exists>r. resolve_input given i = Inr r \<and> resolves given i r"
proof (cases "FindExplicit (relation_input_name i) given")
  case (Some e)
  note adm = assms(2) [unfolded admitted_explicit [OF d Some]]
  then have agree: "TypesAgree (relation_input_type i) (explicit_kind e)" by (simp add: argument_facts(1))
  show ?thesis
  proof (cases "snd (argument_meaning e)")
    case None
    with adm agree Some show ?thesis
      by (cases "argument_meaning e") (auto simp: resolve_input_def resolves_def bound_to_iff [OF d] shows_binding_def
          argument_facts(2) [symmetric] resolved_defs)
  next
    case (Some v)
    with adm have m: "argument_meaning e = (relation_input_type i, Some v)" by (cases "argument_meaning e") simp
    from explicit_value_resolves [OF m] agree \<open>FindExplicit _ _ = Some e\<close> Some m show ?thesis
      by (auto simp: resolve_input_def resolves_def bound_to_iff [OF d] shows_binding_def argument_facts(2) [symmetric])
  qed
next
  case None
  note adm = assms(2) [unfolded admitted_default [OF d None]]
  show ?thesis
  proof (cases "relation_input_default i")
    case (Some v)
    show ?thesis
    proof (cases "snd (default_meaning v)")
      case isnull: None
      with adm Some None show ?thesis
        by (cases "default_meaning v") (auto simp: resolve_input_def DefaultOf_def DefaultValue_def resolves_def bound_to_iff [OF d] shows_binding_def
            default_facts(2) [symmetric] default_facts(1) [symmetric] resolved_defs)
    next
      case value': (Some x)
      with adm Some have m: "default_meaning v = (relation_input_type i, Some x)" by (cases "default_meaning v") simp
      from default_value_resolves [OF m] Some None m show ?thesis
        by (auto simp: resolve_input_def DefaultOf_def resolves_def bound_to_iff [OF d] shows_binding_def)
    qed
  qed (use None in \<open>simp add: resolve_input_def resolves_def bound_to_iff [OF d] shows_binding_def resolved_defs\<close>)
qed

lemma resolve_input_refused:
  assumes d: "distinct (map explicit_identifier given)" and "\<not> binding_admitted given i"
  shows "\<exists>m. resolve_input given i = Inl (PlanningFailure (INVALID_CONTRACT m))"
proof (cases "FindExplicit (relation_input_name i) given")
  case (Some e)
  with assms(2) show ?thesis unfolding admitted_explicit [OF d Some] by (auto simp: resolve_input_def argument_facts)
next
  case None
  with assms(2) show ?thesis unfolding admitted_default [OF d None]
    by (auto simp: resolve_input_def DefaultOf_def DefaultValue_def default_facts split: option.splits)
qed

lemma resolve_loop_admitted:
  "distinct (map explicit_identifier given) \<Longrightarrow> \<forall>i \<in> set is. binding_admitted given i \<Longrightarrow> \<exists>rs. resolve_loop given is acc = Inr (acc @ rs) \<and> list_all2 (resolves given) is rs"
proof (induction "is" arbitrary: acc)
  case (Cons i "is")
  then obtain r where r: "resolve_input given i = Inr r" "resolves given i r" using resolve_input_admitted by fastforce
  from Cons obtain rs where "resolve_loop given is (acc @ [r]) = Inr ((acc @ [r]) @ rs)" "list_all2 (resolves given) is rs" by fastforce
  with r show ?case by (intro exI [of _ "r # rs"]) simp
qed simp

lemma resolve_loop_refused:
  "distinct (map explicit_identifier given) \<Longrightarrow> \<exists>i \<in> set is. \<not> binding_admitted given i \<Longrightarrow> \<exists>m. resolve_loop given is acc = Inl (PlanningFailure (INVALID_CONTRACT m))"
proof (induction "is" arbitrary: acc)
  case (Cons i "is")
  show ?case
  proof (cases "binding_admitted given i")
    case True
    with resolve_input_admitted [OF Cons.prems(1)] obtain r where "resolve_input given i = Inr r" by blast
    with Cons True show ?thesis by auto
  next
    case False
    from resolve_input_refused [OF Cons.prems(1) this] show ?thesis by auto
  qed
qed simp

lemma check_declared_eq:
  "distinct (map relation_input_name is) \<and> set (map relation_input_name is) \<inter> D = {} \<Longrightarrow>
    check_declared D is = Inr (D \<union> set (map relation_input_name is))"
  by (induction D "is" rule: check_declared.induct) auto

lemma check_declared_refused:
  "\<not> (distinct (map relation_input_name is) \<and> set (map relation_input_name is) \<inter> D = {}) \<Longrightarrow>
    \<exists>m. check_declared D is = Inl (PlanningFailure (INVALID_CONTRACT m))"
  by (induction D "is" rule: check_declared.induct) auto

lemma check_supplied_eq:
  "distinct (map explicit_identifier es) \<and> set (map explicit_identifier es) \<inter> S = {} \<and> set (map explicit_identifier es) \<subseteq> D \<Longrightarrow>
    check_supplied D S es = Inr ()"
  by (induction D S es rule: check_supplied.induct) auto

lemma check_supplied_refused:
  "\<not> (distinct (map explicit_identifier es) \<and> set (map explicit_identifier es) \<inter> S = {} \<and> set (map explicit_identifier es) \<subseteq> D) \<Longrightarrow>
    \<exists>m. check_supplied D S es = Inl (PlanningFailure (INVALID_CONTRACT m))"
  by (induction D S es rule: check_supplied.induct) auto

subsection \<open>Properties\<close>

text \<open>
  C36. Resolution types every input. When the declared names and the supplied identifiers are unique, only declared inputs are supplied,
  and every input has an argument or default of its type and \<open>NULL\<close> only if it is nullable, resolution returns
  one resolved input per declaration, in order, with the name and type declared, bound to the explicit argument, else to the default, else
  unbound, and the accessor of the type returns the value that this argument or default has for its own type. In every other case it fails with a contract error; the accessors it
  uses never throw.
\<close>

theorem inputs_resolve_to_their_type:
  "if distinct (map relation_input_name inputs) \<and> distinct (map explicit_identifier given) \<and>
      explicit_identifier ` set given \<subseteq> relation_input_name ` set inputs \<and> list_all (binding_admitted given) inputs
   then \<exists>rs. ResolveRelationInputs inputs given = Inr rs \<and> list_all2 (resolves given) inputs rs
   else \<exists>m. ResolveRelationInputs inputs given = Inl (PlanningFailure (INVALID_CONTRACT m))"
proof (cases "distinct (map relation_input_name inputs)")
  case declared: True
  let ?D = "relation_input_name ` set inputs"
  let ?ok = "distinct (map explicit_identifier given) \<and> explicit_identifier ` set given \<subseteq> ?D"
  have c: "check_declared {} inputs = Inr ?D" using check_declared_eq [of inputs "{}"] declared by simp
  show ?thesis
  proof (cases ?ok)
    case True
    with check_supplied_eq [of given "{}" ?D] have "check_supplied ?D {} given = Inr ()" by simp
    with c have r: "ResolveRelationInputs inputs given = resolve_loop given inputs []" by (simp add: ResolveRelationInputs_def)
    show ?thesis using True declared resolve_loop_admitted [of given inputs "[]"] resolve_loop_refused [of given inputs "[]"]
      by (auto simp: r list_all_iff)
  next
    case False
    then obtain m where "check_supplied ?D {} given = Inl (PlanningFailure (INVALID_CONTRACT m))"
      using check_supplied_refused [of given "{}" ?D] by auto
    with c False show ?thesis by (auto simp: ResolveRelationInputs_def)
  qed
next
  case False
  with check_declared_refused [of inputs "{}"] show ?thesis by (auto simp: ResolveRelationInputs_def)
qed

end
