(* ===== verification/Operation_Selection.thy ===== *)
theory Operation_Selection
  imports Input_Resolution "HOL-Library.Multiset"
begin

section \<open>Operation selection\<close>

text \<open>
  The selectors of operations (\<open>src/connector/model/operation_selector.cpp\<close>) and the choice of the operation of a scan
  (\<open>src/semantics/planner/operation_selection.cpp\<close>). An operation is modelled as far as selection reads it; its conditional bindings come
  from the classifier. The theorems show that the normal form of a selector is sorting without duplicates, and that selection
  returns the unique best eligible operation, whatever the order of the declarations.
\<close>

subsection \<open>Required inputs\<close>

datatype CompiledRequiredInputKind = RELATION_INPUT | CONDITIONAL_INPUT

datatype required_input = RequiredInput (required_kind: CompiledRequiredInputKind) (required_id: string)

definition IsSelectorInputIdentifier :: "string \<Rightarrow> bool" where
  "IsSelectorInputIdentifier v =
     (if v = [] \<or> length v > 63 \<or> byte (hd v) < byte (CHR ''a'') \<or> byte (hd v) > byte (CHR ''z'') then False
      else list_all (\<lambda>c. in_range (CHR ''a'') (CHR ''z'') c \<or> in_range (CHR ''0'') (CHR ''9'') c \<or> c = CHR ''_'') v)"

definition new_CompiledRequiredInputReference :: "CompiledRequiredInputKind \<Rightarrow> string \<Rightarrow> cpp_exception + required_input" where
  "new_CompiledRequiredInputReference kind i =
     (if \<not> IsSelectorInputIdentifier i
      then Inl (invalid_argument ''compiled required-input reference contains an invalid identifier'') else Inr (RequiredInput kind i))"

fun kind_number :: "CompiledRequiredInputKind \<Rightarrow> nat" where
  "kind_number RELATION_INPUT = 0"
| "kind_number CONDITIONAL_INPUT = 1"

definition ReferenceLess :: "required_input \<Rightarrow> required_input \<Rightarrow> bool" where
  "ReferenceLess left right =
     (if required_kind left \<noteq> required_kind right then kind_number (required_kind left) < kind_number (required_kind right)
      else required_id left < required_id right)"

text \<open>The inner loop of the selection sort; \<open>length refs\<close> stands for no selection.\<close>

fun select_least :: "required_input list \<Rightarrow> bool list \<Rightarrow> nat list \<Rightarrow> nat \<Rightarrow> nat" where
  "select_least refs emitted [] selected = selected"
| "select_least refs emitted (index # rest) selected =
     select_least refs emitted rest
       (if \<not> emitted ! index \<and> (selected = length refs \<or> ReferenceLess (refs ! index) (refs ! selected)) then index else selected)"

fun normalize_loop :: "required_input list \<Rightarrow> nat \<Rightarrow> bool list \<Rightarrow> required_input list \<Rightarrow> cpp_exception + required_input list" where
  "normalize_loop refs 0 emitted normalized = Inr normalized"
| "normalize_loop refs (Suc n) emitted normalized =
     (let selected = select_least refs emitted [0..<length refs] (length refs)
      in if normalized \<noteq> [] \<and> required_kind (last normalized) = required_kind (refs ! selected) \<and>
            required_id (last normalized) = required_id (refs ! selected)
         then Inl (invalid_argument ''compiled operation selector contains a duplicate tagged required input'')
         else normalize_loop refs n (emitted[selected := True]) (normalized @ [refs ! selected]))"

definition NormalizeRequiredReferences :: "required_input list \<Rightarrow> cpp_exception + required_input list" where
  "NormalizeRequiredReferences refs =
     (if length refs > 128 then Inl (invalid_argument ''compiled v1 operation selector exceeds the required-input limit'')
      else normalize_loop refs (length refs) (replicate (length refs) False) [])"

subsection \<open>Operations\<close>

record compiled_operation =
  compiled_name :: string
  fallback :: bool
  selector :: "required_input list"

record relation_declaration =
  declared_relation :: compiled_relation
  declared_inputs :: "relation_input list"
  declared_operations :: "compiled_operation list"

definition HasRelationInput :: "relation_input list \<Rightarrow> string \<Rightarrow> bool" where
  "HasRelationInput inputs i \<longleftrightarrow> list_ex (\<lambda>r. relation_input_name r = i) inputs"

definition HasConditionalInput :: "compiled_operation \<Rightarrow> compiled_predicate_mapping list \<Rightarrow> string \<Rightarrow> bool" where
  "HasConditionalInput op mappings i \<longleftrightarrow>
     list_ex (\<lambda>m. operation_name m = compiled_name op \<and> remote_input_name m = i) mappings"

fun check_references ::
  "compiled_operation \<Rightarrow> relation_input list \<Rightarrow> compiled_predicate_mapping list \<Rightarrow> required_input list \<Rightarrow> cpp_exception + unit" where
  "check_references op inputs mappings [] = Inr ()"
| "check_references op inputs mappings (r # rs) =
     (if \<not> (if required_kind r = RELATION_INPUT then HasRelationInput inputs (required_id r)
             else HasConditionalInput op mappings (required_id r))
      then Inl (invalid_argument ''compiled operation selector references a missing or wrong-kind input'')
      else check_references op inputs mappings rs)"

definition ValidateOperationSelectorReferences ::
  "compiled_operation \<Rightarrow> relation_input list \<Rightarrow> compiled_predicate_mapping list \<Rightarrow> cpp_exception + unit" where
  "ValidateOperationSelectorReferences op inputs mappings =
     (if length (selector op) > 128 \<or> fallback op \<noteq> (selector op = [])
      then Inl (invalid_argument ''compiled v1 operation selector disagrees with fallback/when shape'')
      else check_references op inputs mappings (selector op))"

subsection \<open>Selection\<close>

datatype selection_error = ContractFailure planning_error | OPERATION_SELECTION_FAILED string

definition HasConditionalBinding :: "candidate_input_bindings \<Rightarrow> string \<Rightarrow> bool" where
  "HasConditionalBinding bindings i \<longleftrightarrow> list_ex (\<lambda>b. binding_name b = i) (binding_values bindings)"

definition RequiredInputIsSatisfied ::
  "CompiledRequiredInputKind \<Rightarrow> string \<Rightarrow> resolved_input list \<Rightarrow> candidate_input_bindings \<Rightarrow> bool" where
  "RequiredInputIsSatisfied kind i relation_inputs conditional_inputs \<longleftrightarrow>
     (case kind of
        RELATION_INPUT \<Rightarrow>
          (case FindResolved i relation_inputs of None \<Rightarrow> False | Some r \<Rightarrow> resolved_state r = BOUND_VALUE)
      | CONDITIONAL_INPUT \<Rightarrow> \<not> conflicting conditional_inputs \<and> HasConditionalBinding conditional_inputs i)"

record eligible_operation =
  eligible :: "compiled_operation option"
  specificity :: nat
  priority :: int

fun references_satisfied :: "required_input list \<Rightarrow> resolved_input list \<Rightarrow> candidate_input_bindings \<Rightarrow> bool" where
  "references_satisfied [] relation_inputs conditional_inputs = True"
| "references_satisfied (r # rs) relation_inputs conditional_inputs =
     (if \<not> RequiredInputIsSatisfied (required_kind r) (required_id r) relation_inputs conditional_inputs then False
      else references_satisfied rs relation_inputs conditional_inputs)"

definition EvaluateV1 :: "compiled_operation \<Rightarrow> resolved_input list \<Rightarrow> candidate_input_bindings \<Rightarrow> eligible_operation" where
  "EvaluateV1 op relation_inputs conditional_inputs =
     (if conflicting conditional_inputs then \<lparr>eligible = None, specificity = 0, priority = 0\<rparr>
      else if \<not> references_satisfied (selector op) relation_inputs conditional_inputs
      then \<lparr>eligible = None, specificity = 0, priority = 0\<rparr>
      else \<lparr>eligible = Some op, specificity = length (selector op), priority = 0\<rparr>)"

definition Evaluate ::
  "relation_declaration \<Rightarrow> compiled_operation \<Rightarrow> scan_request \<Rightarrow> resolved_input list \<Rightarrow> selection_error + eligible_operation" where
  "Evaluate relation op request relation_inputs =
     (case ResolveCandidateInputBindings (declared_relation relation) (compiled_name op) request of
        Inl e \<Rightarrow> Inl (ContractFailure e)
      | Inr conditional_inputs \<Rightarrow> Inr (EvaluateV1 op relation_inputs conditional_inputs))"

definition HasHigherRank :: "eligible_operation \<Rightarrow> eligible_operation \<Rightarrow> bool" where
  "HasHigherRank left right \<longleftrightarrow>
     specificity left > specificity right \<or> specificity left = specificity right \<and> priority left > priority right"

definition HasEqualRank :: "eligible_operation \<Rightarrow> eligible_operation \<Rightarrow> bool" where
  "HasEqualRank left right \<longleftrightarrow> specificity left = specificity right \<and> priority left = priority right"

fun select_loop ::
  "relation_declaration \<Rightarrow> scan_request \<Rightarrow> resolved_input list \<Rightarrow> compiled_operation list \<Rightarrow>
   eligible_operation \<times> bool \<times> compiled_operation option \<Rightarrow>
   selection_error + eligible_operation \<times> bool \<times> compiled_operation option" where
  "select_loop relation request relation_inputs [] s = Inr s"
| "select_loop relation request relation_inputs (op # ops) (winner, winner_is_tied, fallback_operation) =
     (if fallback op then
        (if fallback_operation \<noteq> None then Inl (OPERATION_SELECTION_FAILED ''operation selection contains multiple fallback operations'')
         else select_loop relation request relation_inputs ops (winner, winner_is_tied, Some op))
      else and_then (Evaluate relation op request relation_inputs) (\<lambda>candidate.
        if eligible candidate = None then select_loop relation request relation_inputs ops (winner, winner_is_tied, fallback_operation)
        else if eligible winner = None \<or> HasHigherRank candidate winner
        then select_loop relation request relation_inputs ops (candidate, False, fallback_operation)
        else if HasEqualRank candidate winner
        then select_loop relation request relation_inputs ops (winner, True, fallback_operation)
        else select_loop relation request relation_inputs ops (winner, winner_is_tied, fallback_operation)))"

definition SelectOperation ::
  "relation_declaration \<Rightarrow> scan_request \<Rightarrow> resolved_input list \<Rightarrow> selection_error + compiled_operation" where
  "SelectOperation relation request relation_inputs =
     and_then (select_loop relation request relation_inputs (declared_operations relation)
       (\<lparr>eligible = None, specificity = 0, priority = 0\<rparr>, False, None)) (\<lambda>(winner, winner_is_tied, fallback_operation).
     if winner_is_tied
     then Inl (OPERATION_SELECTION_FAILED ''operation selection has multiple equally ranked eligible base operations'')
     else and_then
       (case fallback_operation of
          Some op \<Rightarrow> if eligible winner = None then Evaluate relation op request relation_inputs else Inr winner
        | None \<Rightarrow> Inr winner) (\<lambda>winner.
       case eligible winner of
         None \<Rightarrow> Inl (OPERATION_SELECTION_FAILED ''operation selection has no eligible base operation'')
       | Some op \<Rightarrow> Inr op))"

subsection \<open>References in order\<close>

instantiation required_input :: linorder
begin

definition less_required_input :: "required_input \<Rightarrow> required_input \<Rightarrow> bool" where
  "less_required_input a b = ReferenceLess a b"

definition less_eq_required_input :: "required_input \<Rightarrow> required_input \<Rightarrow> bool" where
  "less_eq_required_input a b \<longleftrightarrow> a = b \<or> ReferenceLess a b"

instance
proof
  fix x y z :: required_input
  have kinds: "kind_number a = kind_number b \<longleftrightarrow> a = b" for a b by (cases a; cases b) simp_all
  show "x < y \<longleftrightarrow> x \<le> y \<and> \<not> y \<le> x"
    by (cases x; cases y) (auto simp: less_required_input_def less_eq_required_input_def ReferenceLess_def kinds split: if_splits)
  show "x \<le> x" by (simp add: less_eq_required_input_def)
  show "x \<le> y \<Longrightarrow> y \<le> z \<Longrightarrow> x \<le> z"
    by (cases x; cases y; cases z) (auto simp: less_eq_required_input_def ReferenceLess_def kinds split: if_splits)
  show "x \<le> y \<Longrightarrow> y \<le> x \<Longrightarrow> x = y"
    by (cases x; cases y) (auto simp: less_eq_required_input_def ReferenceLess_def kinds split: if_splits)
  show "x \<le> y \<or> y \<le> x"
    using kinds [of "required_kind x" "required_kind y"]
    by (cases x; cases y) (auto simp: less_eq_required_input_def ReferenceLess_def)
qed

end

text \<open>The references still to be emitted.\<close>

definition pending :: "bool list \<Rightarrow> nat list" where
  "pending emitted = filter (\<lambda>i. \<not> emitted ! i) [0..<length emitted]"

lemma select_least_in:
  assumes "selected = length refs \<or> selected < length refs \<and> \<not> emitted ! selected" and "\<forall>i \<in> set is. i < length refs"
  shows "let s = select_least refs emitted is selected in
    (s = length refs \<longrightarrow> selected = length refs \<and> (\<forall>i \<in> set is. emitted ! i)) \<and> (s \<noteq> length refs \<longrightarrow> s < length refs \<and> \<not> emitted ! s) \<and>
    (selected < length refs \<longrightarrow> s < length refs \<and> refs ! s \<le> refs ! selected) \<and> (\<forall>i \<in> set is. \<not> emitted ! i \<longrightarrow> s < length refs \<and> refs ! s \<le> refs ! i)"
  using assms
proof (induction "is" arbitrary: selected)
  case (Cons i "is")
  define s1 where "s1 = (if \<not> emitted ! i \<and> (selected = length refs \<or> refs ! i < refs ! selected) then i else selected)"
  have e: "select_least refs emitted (i # is) selected = select_least refs emitted is s1"
    by (simp add: s1_def less_required_input_def)
  have "s1 = length refs \<or> s1 < length refs \<and> \<not> emitted ! s1" using Cons.prems by (auto simp: s1_def)
  from Cons.IH [OF this] Cons.prems(2) have ih: "let s = select_least refs emitted is s1 in
    (s = length refs \<longrightarrow> s1 = length refs \<and> (\<forall>i \<in> set is. emitted ! i)) \<and> (s \<noteq> length refs \<longrightarrow> s < length refs \<and> \<not> emitted ! s) \<and>
    (s1 < length refs \<longrightarrow> s < length refs \<and> refs ! s \<le> refs ! s1) \<and> (\<forall>i \<in> set is. \<not> emitted ! i \<longrightarrow> s < length refs \<and> refs ! s \<le> refs ! i)" by simp
  have l: "selected < length refs \<longrightarrow> s1 < length refs \<and> refs ! s1 \<le> refs ! selected" "\<not> emitted ! i \<longrightarrow> s1 < length refs \<and> refs ! s1 \<le> refs ! i"
    "s1 = length refs \<longrightarrow> selected = length refs \<and> emitted ! i"
    using Cons.prems by (auto simp: s1_def)
  from ih l show ?case unfolding e Let_def by (auto intro: order_trans)
qed auto

lemma select_least_pending:
  assumes "length emitted = length refs" and "pending emitted \<noteq> []"
  defines "s \<equiv> select_least refs emitted [0..<length refs] (length refs)"
  shows "s \<in> set (pending emitted) \<and> (\<forall>i \<in> set (pending emitted). refs ! s \<le> refs ! i)"
proof -
  from assms(2) obtain i where i: "i < length refs" "\<not> emitted ! i" using assms(1) by (auto simp: pending_def filter_empty_conv)
  have "\<forall>i \<in> set [0..<length refs]. i < length refs" by simp
  from select_least_in [OF _ this, of "length refs" emitted] i show ?thesis using assms(1) by (auto simp: s_def [symmetric] Let_def pending_def)
qed

lemma pending_emit:
  "s \<in> set (pending emitted) \<Longrightarrow> mset (pending emitted) = add_mset s (mset (pending (emitted[s := True])))"
proof -
  assume s: "s \<in> set (pending emitted)"
  have "pending (emitted[s := True]) = filter ((\<noteq>) s) (pending emitted)"
    unfolding pending_def filter_filter using s by (intro filter_cong) (auto simp: pending_def nth_list_update)
  moreover have "distinct (pending emitted)" by (simp add: pending_def)
  ultimately have "pending (emitted[s := True]) = remove1 s (pending emitted)" by (simp add: distinct_remove1_removeAll removeAll_filter_not_eq)
  with s show ?thesis by simp
qed

lemma sorted_le_last: "sorted xs \<Longrightarrow> x \<in> set xs \<Longrightarrow> x \<le> last (xs :: 'a :: linorder list)"
  by (induction xs) auto

lemma normalize_loop_sorts:
  assumes "length emitted = length refs" and "length (pending emitted) = n"
    and "\<forall>x \<in> set acc. \<forall>i \<in> set (pending emitted). x \<le> refs ! i" and "sorted acc" and "distinct acc"
  shows "normalize_loop refs n emitted acc =
    (let xs = acc @ sort (map ((!) refs) (pending emitted))
     in if distinct xs then Inr xs else Inl (invalid_argument ''compiled operation selector contains a duplicate tagged required input''))"
  using assms
proof (induction n arbitrary: emitted acc)
  case (Suc n)
  define s where "s = select_least refs emitted [0..<length refs] (length refs)"
  have ne: "pending emitted \<noteq> []" using Suc.prems(2) by auto
  note s = select_least_pending [OF Suc.prems(1) ne, folded s_def]
  let ?e = "emitted[s := True]"
  have m: "mset (pending emitted) = add_mset s (mset (pending ?e))" using pending_emit s by blast
  have sub: "set (pending ?e) \<subseteq> set (pending emitted)" by (metis m set_mset_add_mset_insert set_mset_mset subset_insertI)
  have "sort (map ((!) refs) (pending emitted)) = refs ! s # sort (map ((!) refs) (pending ?e))"
  proof (rule properties_for_sort)
    show "mset (refs ! s # sort (map ((!) refs) (pending ?e))) = mset (map ((!) refs) (pending emitted))" by (simp add: m)
    show "sorted (refs ! s # sort (map ((!) refs) (pending ?e)))" using s sub by auto
  qed
  note srt = this
  have n: "length (pending ?e) = n" using arg_cong [OF m, of size] Suc.prems(2) by simp
  have last: "acc \<noteq> [] \<Longrightarrow> last acc = refs ! s \<longleftrightarrow> refs ! s \<in> set acc"
    using Suc.prems(3,4) s sorted_le_last [of acc] by (metis last_in_set order_antisym)
  show ?case
  proof (cases "refs ! s \<in> set acc")
    case True
    then have "acc \<noteq> []" by auto
    with last True have "last acc = refs ! s" by simp
    with True \<open>acc \<noteq> []\<close> show ?thesis by (simp add: Let_def s_def [symmetric] srt)
  next
    case False
    then have "normalize_loop refs (Suc n) emitted acc = normalize_loop refs n ?e (acc @ [refs ! s])"
      using last by (cases "refs ! s"; cases "last acc") (auto simp: Let_def s_def [symmetric])
    moreover have "normalize_loop refs n ?e (acc @ [refs ! s]) =
      (let xs = (acc @ [refs ! s]) @ sort (map ((!) refs) (pending ?e))
       in if distinct xs then Inr xs else Inl (invalid_argument ''compiled operation selector contains a duplicate tagged required input''))"
    proof (rule Suc.IH)
      show "\<forall>x \<in> set (acc @ [refs ! s]). \<forall>i \<in> set (pending ?e). x \<le> refs ! i" using Suc.prems(3) s sub by auto
      show "sorted (acc @ [refs ! s])" using Suc.prems(3,4) s by (auto simp: sorted_append)
    qed (use Suc.prems False n in auto)
    ultimately show ?thesis by (simp add: srt)
  qed
qed simp

subsection \<open>The best operation\<close>

definition evaluates :: "relation_declaration \<Rightarrow> scan_request \<Rightarrow> compiled_operation \<Rightarrow> bool" where
  "evaluates relation request op \<longleftrightarrow>
     (case ResolveCandidateInputBindings (declared_relation relation) (compiled_name op) request of Inl _ \<Rightarrow> False | Inr _ \<Rightarrow> True)"

text \<open>
  An operation is usable when its conditional bindings agree and all its required inputs have a value: the input of the relation with that name is bound to a
  value that is not \<open>NULL\<close>, or a conditional binding has that name.
\<close>

definition has_value :: "resolved_input list \<Rightarrow> candidate_input_bindings \<Rightarrow> required_input \<Rightarrow> bool" where
  "has_value inputs b r \<longleftrightarrow>
     (case required_kind r of
        RELATION_INPUT \<Rightarrow> (case filter (\<lambda>v. resolved_name v = required_id r) inputs of [] \<Rightarrow> False | v # _ \<Rightarrow> resolved_state v = BOUND_VALUE)
      | CONDITIONAL_INPUT \<Rightarrow> (\<exists>v \<in> set (binding_values b). binding_name v = required_id r))"

definition usable :: "relation_declaration \<Rightarrow> scan_request \<Rightarrow> resolved_input list \<Rightarrow> compiled_operation \<Rightarrow> bool" where
  "usable relation request inputs op \<longleftrightarrow>
     (case ResolveCandidateInputBindings (declared_relation relation) (compiled_name op) request of
        Inl _ \<Rightarrow> False
      | Inr b \<Rightarrow> \<not> conflicting b \<and>
          list_all (has_value inputs b) (selector op))"

definition base_candidates :: "relation_declaration \<Rightarrow> scan_request \<Rightarrow> resolved_input list \<Rightarrow> compiled_operation list \<Rightarrow> compiled_operation list" where
  "base_candidates relation request inputs ops = filter (\<lambda>op. \<not> fallback op \<and> usable relation request inputs op) ops"

definition best :: "compiled_operation list \<Rightarrow> compiled_operation list" where
  "best ops = filter (\<lambda>op. list_all (\<lambda>other. length (selector other) \<le> length (selector op)) ops) ops"

lemma satisfied_iff:
  assumes "\<not> conflicting b"
  shows "RequiredInputIsSatisfied (required_kind r) (required_id r) inputs b \<longleftrightarrow> has_value inputs b r"
proof -
  have "find P vs = (case filter P vs of [] \<Rightarrow> None | v # _ \<Rightarrow> Some v)" for P and vs :: "resolved_input list"
    by (induction vs) auto
  with assms show ?thesis
    by (cases "required_kind r")
      (auto simp: RequiredInputIsSatisfied_def has_value_def FindResolved_def HasConditionalBinding_def list_ex_iff split: list.split)
qed

lemma references_satisfied_iff:
  "\<not> conflicting b \<Longrightarrow> references_satisfied rs inputs b \<longleftrightarrow> list_all (has_value inputs b) rs"
  by (induction rs) (simp_all add: satisfied_iff)

lemma Evaluate_usable: "usable relation request inputs op \<Longrightarrow>
    Evaluate relation op request inputs = Inr \<lparr>eligible = Some op, specificity = length (selector op), priority = 0\<rparr>"
  by (auto simp: usable_def Evaluate_def EvaluateV1_def references_satisfied_iff split: sum.splits)

lemma Evaluate_unusable: "evaluates relation request op \<Longrightarrow> \<not> usable relation request inputs op \<Longrightarrow>
    \<exists>e. Evaluate relation op request inputs = Inr e \<and> eligible e = None"
  by (auto simp: evaluates_def usable_def Evaluate_def EvaluateV1_def references_satisfied_iff split: sum.splits)

lemma Evaluate_fails: "\<not> evaluates relation request op \<Longrightarrow> \<exists>e. Evaluate relation op request inputs = Inl e"
  by (auto simp: evaluates_def Evaluate_def split: sum.splits)

lemma usable_evaluates: "usable relation request inputs op \<Longrightarrow> evaluates relation request op"
  by (auto simp: evaluates_def usable_def split: sum.splits)

lemma best_snoc:
  assumes "best xs = ys" and "xs \<noteq> []" and "y \<in> set ys"
  shows "best (xs @ [x]) =
    (if length (selector x) > length (selector y) then [x] else if length (selector x) = length (selector y) then ys @ [x] else ys)"
proof -
  have y: "y \<in> set xs" "\<forall>z \<in> set xs. length (selector z) \<le> length (selector y)" using assms(1,3) by (auto simp: best_def list_all_iff)
  have "z \<in> set xs \<Longrightarrow> (\<forall>u \<in> set xs. length (selector u) \<le> length (selector z)) \<longleftrightarrow> length (selector z) = length (selector y)" for z
    using y by (metis order_antisym order_refl order_trans)
  then have ys: "ys = filter (\<lambda>z. length (selector z) = length (selector y)) xs"
    unfolding assms(1) [symmetric] best_def by (intro filter_cong) (auto simp: list_all_iff)
  have all: "(\<forall>u \<in> set (xs @ [x]). length (selector u) \<le> length (selector z)) \<longleftrightarrow>
      max (length (selector y)) (length (selector x)) \<le> length (selector z)" for z
    using y by (auto intro: order_trans)
  have b: "best (xs @ [x]) = filter (\<lambda>z. max (length (selector y)) (length (selector x)) \<le> length (selector z)) (xs @ [x])"
    unfolding best_def list_all_iff all ..
  show ?thesis
  proof (cases "length (selector x) > length (selector y)")
    case True
    have "filter (\<lambda>z. max (length (selector y)) (length (selector x)) \<le> length (selector z)) xs = []"
      using y(2) True by (fastforce simp: filter_empty_conv)
    with True show ?thesis by (simp add: b)
  next
    case False
    have "filter (\<lambda>z. max (length (selector y)) (length (selector x)) \<le> length (selector z)) xs = ys"
      unfolding ys using y(2) False by (intro filter_cong) (auto simp: order_antisym)
    with False show ?thesis by (auto simp: b)
  qed
qed

lemma best_nonempty: "xs \<noteq> [] \<Longrightarrow> best xs \<noteq> []"
proof -
  assume "xs \<noteq> []"
  then obtain x where "x \<in> set xs" "\<forall>y \<in> set xs. length (selector y) \<le> length (selector x)"
    using Max_ge [of "(\<lambda>z. length (selector z)) ` set xs"] Max_in [of "(\<lambda>z. length (selector z)) ` set xs"]
    by (smt (verit) finite_imageI finite_set image_iff image_is_empty set_empty)
  then show ?thesis by (auto simp: best_def list_all_iff filter_empty_conv)
qed

text \<open>What the loop knows after the operations \<open>ops\<close>.\<close>

definition loop_state ::
  "relation_declaration \<Rightarrow> scan_request \<Rightarrow> resolved_input list \<Rightarrow> compiled_operation list \<Rightarrow>
   eligible_operation \<times> bool \<times> compiled_operation option \<Rightarrow> bool" where
  "loop_state relation request inputs ops = (\<lambda>(winner, tied, fb).
     filter fallback ops = (case fb of None \<Rightarrow> [] | Some op \<Rightarrow> [op]) \<and>
     (case best (base_candidates relation request inputs ops) of
        [] \<Rightarrow> eligible winner = None \<and> \<not> tied
      | op # rest \<Rightarrow> winner = \<lparr>eligible = Some op, specificity = length (selector op), priority = 0\<rparr> \<and> tied = (rest \<noteq> [])))"

lemma loop_state_skip:
  "loop_state relation request inputs ops s \<Longrightarrow> \<not> fallback op \<Longrightarrow> \<not> usable relation request inputs op \<Longrightarrow>
    loop_state relation request inputs (ops @ [op]) s"
  by (simp add: loop_state_def base_candidates_def)

lemma loop_state_candidate:
  assumes "loop_state relation request inputs ops (winner, tied, fb)" and "\<not> fallback op" and "usable relation request inputs op"
  defines "c \<equiv> \<lparr>eligible = Some op, specificity = length (selector op), priority = 0\<rparr>"
  shows "loop_state relation request inputs (ops @ [op])
    (if eligible winner = None \<or> HasHigherRank c winner then (c, False, fb) else if HasEqualRank c winner then (winner, True, fb)
     else (winner, tied, fb))"
proof (cases "base_candidates relation request inputs ops")
  case Nil
  with assms have "eligible winner = None" by (simp add: loop_state_def best_def)
  moreover from Nil assms have "base_candidates relation request inputs (ops @ [op]) = [op]" by (simp add: base_candidates_def)
  ultimately show ?thesis using assms by (simp add: loop_state_def best_def)
next
  case (Cons a as)
  let ?cs = "base_candidates relation request inputs ops"
  from Cons best_nonempty [of ?cs] obtain w rest where w: "best ?cs = w # rest" by (cases "best ?cs") auto
  have cs: "base_candidates relation request inputs (ops @ [op]) = ?cs @ [op]" using assms by (simp add: base_candidates_def)
  have "?cs \<noteq> []" using Cons by simp
  from best_snoc [OF w this, of w op] show ?thesis using assms w
    by (auto simp: loop_state_def cs HasHigherRank_def HasEqualRank_def)
qed

lemma select_loop_ok:
  assumes "loop_state relation request inputs ops s" and "list_all (\<lambda>op. fallback op \<or> evaluates relation request op) rest"
    and "length (filter fallback (ops @ rest)) \<le> 1"
  shows "\<exists>s'. select_loop relation request inputs rest s = Inr s' \<and> loop_state relation request inputs (ops @ rest) s'"
  using assms
proof (induction rest arbitrary: ops s)
  case (Cons op rest)
  obtain winner tied fb where s: "s = (winner, tied, fb)" by (cases s)
  have step: "loop_state relation request inputs (ops @ [op]) s1 \<Longrightarrow>
      \<exists>s'. select_loop relation request inputs rest s1 = Inr s' \<and> loop_state relation request inputs (ops @ op # rest) s'" for s1
    using Cons.IH [of "ops @ [op]" s1] Cons.prems(2,3) by simp
  consider (fb) "fallback op" | (skip) "\<not> fallback op" "\<not> usable relation request inputs op"
    | (cand) "\<not> fallback op" "usable relation request inputs op" by blast
  then show ?case
  proof cases
    case fb
    with Cons.prems(1,3) have "fb = None" by (auto simp: loop_state_def s split: option.splits)
    moreover from this fb Cons.prems(1) have "loop_state relation request inputs (ops @ [op]) (winner, tied, Some op)"
      by (simp add: loop_state_def s base_candidates_def)
    ultimately show ?thesis using step [of "(winner, tied, Some op)"] fb by (simp add: s)
  next
    case skip
    with Cons.prems(2) Evaluate_unusable obtain e where "Evaluate relation op request inputs = Inr e" "eligible e = None" by fastforce
    with step [OF loop_state_skip [OF Cons.prems(1) skip]] skip show ?thesis by (simp add: s)
  next
    case cand
    from step [OF loop_state_candidate [OF Cons.prems(1) [unfolded s] cand]] Evaluate_usable [OF cand(2)] cand show ?thesis
      by (auto simp: s split: if_splits)
  qed
qed simp

lemma select_loop_fails:
  assumes "\<not> (list_all (\<lambda>op. fallback op \<or> evaluates relation request op) rest \<and>
      length (filter fallback rest) + (case fb of None \<Rightarrow> 0 | Some _ \<Rightarrow> 1) \<le> 1)"
  shows "\<exists>e. select_loop relation request inputs rest (winner, tied, fb) = Inl e"
  using assms
proof (induction rest arbitrary: winner tied fb)
  case (Cons op rest)
  show ?case
  proof (cases "fallback op")
    case True
    with Cons show ?thesis by (cases fb) auto
  next
    case False
    then show ?thesis
    proof (cases "evaluates relation request op")
      case True
      then obtain e where "Evaluate relation op request inputs = Inr e"
        using Evaluate_usable Evaluate_unusable by blast
      with Cons False True show ?thesis by simp
    next
      case failed: False
      with Evaluate_fails obtain e where "Evaluate relation op request inputs = Inl e" by blast
      with False show ?thesis by simp
    qed
  qed
qed (simp split: option.splits)

lemma SelectOperation_iff:
  "SelectOperation relation request inputs = Inr op \<longleftrightarrow>
    list_all (\<lambda>op. fallback op \<or> evaluates relation request op) (declared_operations relation) \<and>
    length (filter fallback (declared_operations relation)) \<le> 1 \<and>
    (let candidates = base_candidates relation request inputs (declared_operations relation)
     in best candidates = [op] \<or> candidates = [] \<and> filter fallback (declared_operations relation) = [op] \<and> usable relation request inputs op)"
  (is "_ \<longleftrightarrow> ?ok \<and> ?one \<and> ?chosen")
proof (cases "?ok \<and> ?one")
  case True
  let ?s = "(\<lparr>eligible = None, specificity = 0, priority = 0\<rparr>, False, None) :: eligible_operation \<times> bool \<times> compiled_operation option"
  have start: "loop_state relation request inputs [] ?s" by (simp add: loop_state_def base_candidates_def best_def)
  from select_loop_ok [OF start, of "declared_operations relation"] True obtain winner tied fb where
    run: "select_loop relation request inputs (declared_operations relation) ?s = Inr (winner, tied, fb)"
    and st: "loop_state relation request inputs (declared_operations relation) (winner, tied, fb)" by auto
  let ?cs = "base_candidates relation request inputs (declared_operations relation)"
  show ?thesis
  proof (cases ?cs)
    case Nil
    with st have w: "eligible winner = None" "\<not> tied" and f: "filter fallback (declared_operations relation) = (case fb of None \<Rightarrow> [] | Some x \<Rightarrow> [x])"
      by (simp_all add: loop_state_def best_def)
    show ?thesis
    proof (cases fb)
      case None
      with run w f Nil show ?thesis by (simp add: SelectOperation_def best_def)
    next
      case (Some x)
      then show ?thesis using run w f Nil True
          Evaluate_usable [of relation request inputs x] Evaluate_unusable [of relation request x inputs] Evaluate_fails [of relation request x inputs]
        by (cases "usable relation request inputs x"; cases "evaluates relation request x") (auto simp: SelectOperation_def best_def)
    qed
  next
    case (Cons a as)
    then obtain w rest where "best ?cs = w # rest" using best_nonempty [of ?cs] by (cases "best ?cs") auto
    with run st Cons True show ?thesis by (auto simp: SelectOperation_def loop_state_def split: option.splits)
  qed
next
  case False
  then have "\<exists>e. select_loop relation request inputs (declared_operations relation) (\<lparr>eligible = None, specificity = 0, priority = 0\<rparr>, False, None) = Inl e"
    by (intro select_loop_fails) simp
  with False show ?thesis by (auto simp: SelectOperation_def)
qed

subsection \<open>Properties\<close>

text \<open>
  C10. Selection returns the best operation: \<open>SelectOperation\<close> returns an operation exactly if the bindings of every base operation can
  be derived, at most one fallback is declared, and the operation is the only usable base operation with the most required inputs, or no
  base operation is usable and it is the usable fallback. Usable means that the conditional bindings do not conflict and
  every required input has a concrete value of its own kind. In every other case selection fails.
\<close>

theorem selection_is_unique_best:
  "SelectOperation relation request inputs = Inr op \<longleftrightarrow>
    list_all (\<lambda>op. fallback op \<or> evaluates relation request op) (declared_operations relation) \<and>
    length (filter fallback (declared_operations relation)) \<le> 1 \<and>
    (let candidates = base_candidates relation request inputs (declared_operations relation)
     in best candidates = [op] \<or> candidates = [] \<and> filter fallback (declared_operations relation) = [op] \<and> usable relation request inputs op)"
  by (rule SelectOperation_iff)

lemma filter_singleton_mset: "filter P xs = [x] \<longleftrightarrow> filter_mset P (mset xs) = {#x#}"
  by (metis mset_filter mset_single_iff)

lemma best_mset: "best xs = [x] \<longleftrightarrow> filter_mset (\<lambda>op. \<forall>y \<in> set_mset (mset xs). length (selector y) \<le> length (selector op)) (mset xs) = {#x#}"
  by (simp add: best_def list_all_iff filter_singleton_mset)

text \<open>
  C37. The order of the declarations does not matter: two relations that declare the same operations in a different order, and agree in
  everything the classifier reads, select the same operation for every request, or both fail.
\<close>

theorem selection_ignores_order:
  assumes "mset (declared_operations a) = mset (declared_operations b)" and "declared_relation a = declared_relation b"
  shows "SelectOperation a request inputs = Inr op \<longleftrightarrow> SelectOperation b request inputs = Inr op"
proof -
  have e: "evaluates a = evaluates b" "usable a = usable b" using assms(2) by (auto simp: fun_eq_iff evaluates_def usable_def)
  have c: "mset (base_candidates a request inputs (declared_operations a)) = mset (base_candidates b request inputs (declared_operations b))"
    using assms(1) by (simp add: base_candidates_def e)
  have s: "set (declared_operations a) = set (declared_operations b)" using assms(1) by (metis set_mset_mset)
  have f: "length (filter fallback (declared_operations a)) = length (filter fallback (declared_operations b))"
    using assms(1) by (metis mset_filter size_mset)
  have n: "base_candidates a request inputs (declared_operations a) = [] \<longleftrightarrow> base_candidates b request inputs (declared_operations b) = []"
    using c by (metis mset_zero_iff)
  show ?thesis unfolding SelectOperation_iff Let_def best_mset filter_singleton_mset c f n e list_all_iff s assms(1) ..
qed

text \<open>
  C38. The normal form of a selector is its sorted list: with at most 128 references and no duplicate, normalisation returns
  the references in ascending order, so that the order in the package does not matter; otherwise it fails.
\<close>

theorem normal_form_is_sorted:
  "NormalizeRequiredReferences refs =
    (if length refs > 128 then Inl (invalid_argument ''compiled v1 operation selector exceeds the required-input limit'')
     else if distinct refs then Inr (sort refs)
     else Inl (invalid_argument ''compiled operation selector contains a duplicate tagged required input''))"
proof -
  have p: "pending (replicate (length refs) False) = [0..<length refs]" by (auto simp: pending_def intro: filter_True)
  have "normalize_loop refs (length refs) (replicate (length refs) False) [] =
    (let xs = [] @ sort (map ((!) refs) (pending (replicate (length refs) False)))
     in if distinct xs then Inr xs else Inl (invalid_argument ''compiled operation selector contains a duplicate tagged required input''))"
    by (rule normalize_loop_sorts) (simp_all add: p)
  then show ?thesis by (simp add: NormalizeRequiredReferences_def p map_nth)
qed

definition sample_by_owner :: compiled_operation where
  "sample_by_owner = \<lparr>compiled_name = ''by_owner'', fallback = False, selector = [RequiredInput RELATION_INPUT ''owner'']\<rparr>"

definition sample_all :: compiled_operation where
  "sample_all = \<lparr>compiled_name = ''all'', fallback = True, selector = []\<rparr>"

definition sample_declaration :: "compiled_operation list \<Rightarrow> relation_declaration" where
  "sample_declaration ops =
     \<lparr>declared_relation = \<lparr>relation_columns = [], predicate_mappings = []\<rparr>, declared_inputs = [], declared_operations = ops\<rparr>"

definition sample_scan :: scan_request where
  "sample_scan = \<lparr>requested_pred = Unrestricted, retained_predicate_scope = SCOPE_UNRESTRICTED, selective_predicate = False,
     retains_predicate = False\<rparr>"

definition sample_owner :: resolved_input where
  "sample_owner = \<lparr>resolved_name = ''owner'', resolved_type = SCALAR_VARCHAR, resolved_state = BOUND_VALUE,
     resolved_source = SOURCE_EXPLICIT, resolved_boolean = False, resolved_bigint = 0, resolved_varchar = ''octo'',
     resolved_double = positive_zero, resolved_timestamptz = 0\<rparr>"

theorem selection_ignores_order_witness:
  "SelectOperation (sample_declaration [sample_by_owner, sample_all]) sample_scan [sample_owner] = Inr sample_by_owner \<and>
   SelectOperation (sample_declaration [sample_all, sample_by_owner]) sample_scan [sample_owner] = Inr sample_by_owner"
proof -
  let ?a = "sample_declaration [sample_by_owner, sample_all]" and ?b = "sample_declaration [sample_all, sample_by_owner]"
  have "SelectOperation ?a sample_scan [sample_owner] = Inr sample_by_owner"
    by (simp add: SelectOperation_iff sample_declaration_def sample_by_owner_def sample_all_def sample_scan_def sample_owner_def evaluates_def
        usable_def base_candidates_def best_def ResolveCandidateInputBindings_def ValidateCandidateContract_def Unrestricted_def LeafNode_def
        MAX_REQUESTED_PREDICATE_DEPTH_def MAX_REQUESTED_PREDICATE_NODES_def no_bindings_def has_value_def)
  moreover have "mset (declared_operations ?a) = mset (declared_operations ?b)" "declared_relation ?a = declared_relation ?b"
    by (simp_all add: sample_declaration_def)
  ultimately show ?thesis using selection_ignores_order [of ?a ?b sample_scan "[sample_owner]" sample_by_owner] by simp
qed

end
