(* ===== verification/Generation_Registry.thy ===== *)
theory Generation_Registry
  imports Cuac_Prelude "HOL-Library.List_Lexorder" "HOL-Library.Char_ord"
begin

section \<open>The registry of package generations\<close>

text \<open>
  \<open>src/runtime/generation/generation_registry.cpp\<close>, \<open>generation_publication.cpp\<close> and \<open>generation_snapshot.cpp\<close>, with the reload
  decision of \<open>src/ecosystem/reload/package_compatibility.cpp\<close> they consume. Snapshots are compared by
  address, so that they live in a store from addresses to contents, which only grows (a snapshot a client holds is alive, hence
  its address is not reused). The atomic flag, the active pointer and the mutex are fields of the shared state; each
  definition reads or writes them at one moment or under the lock, and \<open>registry_step\<close> interleaves the clients. Cancellation at
  each point where it is asked for is an argument. Of a package its validity, connector and generation handle are modelled.
  Failures of the mutex itself and of allocations are not modelled.
\<close>

subsection \<open>Reload decisions\<close>

datatype PackageReloadClassification =
  EXACT_NO_OP | COMPATIBLE_PROVENANCE_PATCH | COMPATIBLE_PROVENANCE_MINOR | COMPATIBLE_APPEND_ONLY_MINOR |
  REJECTED_PACKAGE_IDENTITY | INCOMPATIBLE_RELOAD

record reload_decision =
  decision_classification :: PackageReloadClassification
  decision_connector_id :: string
  active_generation :: nat
  candidate_generation :: nat

fun IsSuccessful :: "PackageReloadClassification \<Rightarrow> bool" where
  "IsSuccessful EXACT_NO_OP = True"
| "IsSuccessful COMPATIBLE_PROVENANCE_PATCH = True"
| "IsSuccessful COMPATIBLE_PROVENANCE_MINOR = True"
| "IsSuccessful COMPATIBLE_APPEND_ONLY_MINOR = True"
| "IsSuccessful REJECTED_PACKAGE_IDENTITY = False"
| "IsSuccessful INCOMPATIBLE_RELOAD = False"

definition IsCompatible :: "reload_decision \<Rightarrow> bool" where
  "IsCompatible d = IsSuccessful (decision_classification d)"

definition DecisionChanged :: "reload_decision \<Rightarrow> bool" where
  "DecisionChanged d \<longleftrightarrow>
     decision_classification d = COMPATIBLE_PROVENANCE_PATCH \<or> decision_classification d = COMPATIBLE_PROVENANCE_MINOR \<or>
     decision_classification d = COMPATIBLE_APPEND_ONLY_MINOR"

definition HasDiagnostic :: "reload_decision \<Rightarrow> bool" where
  "HasDiagnostic d \<longleftrightarrow> \<not> IsCompatible d"

definition DecisionDiagnosticCode :: "reload_decision \<Rightarrow> string" where
  "DecisionDiagnosticCode d =
     (case decision_classification d of
        REJECTED_PACKAGE_IDENTITY \<Rightarrow> ''CUAC_PACKAGE_IDENTITY''
      | INCOMPATIBLE_RELOAD \<Rightarrow> ''CUAC_INCOMPATIBLE_RELOAD''
      | _ \<Rightarrow> '''')"

definition DecisionDiagnosticPhase :: "reload_decision \<Rightarrow> string" where
  "DecisionDiagnosticPhase d = (if HasDiagnostic d then ''compatibility'' else '''')"

definition DecisionMatches :: "reload_decision \<Rightarrow> nat \<Rightarrow> nat \<Rightarrow> bool" where
  "DecisionMatches d active candidate \<longleftrightarrow> active_generation d = active \<and> candidate_generation d = candidate"

subsection \<open>Errors\<close>

datatype RuntimeGenerationFailure =
  REGISTRY_CLOSING | STALE_BASE | INVALID_LOCAL_PACKAGE | CONNECTOR_ALREADY_ACTIVE | CONNECTOR_NOT_ACTIVE |
  RELOAD_DECISION_MISMATCH | RELOAD_REJECTED

record generation_error =
  generation_failure :: RuntimeGenerationFailure
  rejection :: PackageReloadClassification

definition GenerationFailure :: "RuntimeGenerationFailure \<Rightarrow> generation_error" where
  "GenerationFailure f = \<lparr>generation_failure = f, rejection = EXACT_NO_OP\<rparr>"

fun FailureMessage :: "RuntimeGenerationFailure \<Rightarrow> string" where
  "FailureMessage REGISTRY_CLOSING = ''Runtime generation registry is closing''"
| "FailureMessage STALE_BASE = ''Runtime generation staging base is stale''"
| "FailureMessage INVALID_LOCAL_PACKAGE = ''Runtime generation candidate is not a valid compiled local package''"
| "FailureMessage CONNECTOR_ALREADY_ACTIVE = ''Runtime generation connector is already active''"
| "FailureMessage CONNECTOR_NOT_ACTIVE = ''Runtime generation connector is not active''"
| "FailureMessage RELOAD_DECISION_MISMATCH = ''Runtime generation reload decision does not match the staged pair''"
| "FailureMessage RELOAD_REJECTED = ''Runtime generation reload was rejected''"

definition RejectedReloadMessage :: "PackageReloadClassification \<Rightarrow> string" where
  "RejectedReloadMessage r =
     (case r of
        REJECTED_PACKAGE_IDENTITY \<Rightarrow> ''Package reload violates immutable package identity''
      | INCOMPATIBLE_RELOAD \<Rightarrow> ''Package reload is incompatible with the active generation''
      | _ \<Rightarrow> FailureMessage RELOAD_REJECTED)"

definition RejectedReloadCode :: "PackageReloadClassification \<Rightarrow> string" where
  "RejectedReloadCode r =
     (case r of
        REJECTED_PACKAGE_IDENTITY \<Rightarrow> ''CUAC_PACKAGE_IDENTITY''
      | INCOMPATIBLE_RELOAD \<Rightarrow> ''CUAC_INCOMPATIBLE_RELOAD''
      | _ \<Rightarrow> '''')"

definition what :: "generation_error \<Rightarrow> string" where
  "what e = (if generation_failure e = RELOAD_REJECTED then RejectedReloadMessage (rejection e) else FailureMessage (generation_failure e))"

definition HasConnectorDiagnostic :: "generation_error \<Rightarrow> bool" where
  "HasConnectorDiagnostic e \<longleftrightarrow> generation_failure e = RELOAD_REJECTED \<and> RejectedReloadCode (rejection e) \<noteq> ''''"

definition ErrorDiagnosticCode :: "generation_error \<Rightarrow> string" where
  "ErrorDiagnosticCode e = (if HasConnectorDiagnostic e then RejectedReloadCode (rejection e) else '''')"

definition ErrorDiagnosticPhase :: "generation_error \<Rightarrow> string" where
  "ErrorDiagnosticPhase e = (if HasConnectorDiagnostic e then ''compatibility'' else '''')"

datatype registry_exception = ExecutionCancelled | GenerationError generation_error | InvalidArgument string

subsection \<open>Owners, snapshots and the shared state\<close>

record local_package =
  package_connector_id :: string
  package_handle :: nat

text \<open>An empty local package is invalid, and constructing an owner of it fails.\<close>

record generation_owner =
  owner_address :: nat
  owner_package :: local_package

type_synonym generation_snapshot = "generation_owner list"

definition owner_connector :: "generation_owner \<Rightarrow> string" where
  "owner_connector o' = package_connector_id (owner_package o')"

definition FindOwner :: "string \<Rightarrow> generation_snapshot \<Rightarrow> generation_owner option" where
  "FindOwner connector_id s = find (\<lambda>o'. owner_connector o' = connector_id) s"

record registry_state =
  snapshots :: "generation_snapshot list"
  next_owner :: nat
  closing :: bool
  locked :: bool
  active :: "nat option"

definition new_RuntimeGenerationRegistry :: registry_state where
  "new_RuntimeGenerationRegistry = \<lparr>snapshots = [[]], next_owner = 0, closing = False, locked = False, active = Some 0\<rparr>"

text \<open>\<open>Snapshot\<close> reads the flag, the pointer and the flag again; the registry may change in between.\<close>

definition Snapshot :: "registry_state \<Rightarrow> registry_state \<Rightarrow> registry_state \<Rightarrow> registry_exception + nat" where
  "Snapshot st st' st'' =
     (if closing st then Inl (GenerationError (GenerationFailure REGISTRY_CLOSING))
      else case active st' of
        None \<Rightarrow> Inl (GenerationError (GenerationFailure REGISTRY_CLOSING))
      | Some a \<Rightarrow> if closing st'' then Inl (GenerationError (GenerationFailure REGISTRY_CLOSING)) else Inr a)"

subsection \<open>Staging\<close>

text \<open>
  The tests of \<open>AcquireStage\<close> before the wait, after a slice of it that ended without the lock, and after the lock was
  obtained, where a failure gives the lock back. A turn is one slice of ten milliseconds of the timed lock.
\<close>

definition stage_test :: "bool \<Rightarrow> registry_state \<Rightarrow> registry_exception + unit" where
  "stage_test cancelled st =
     (if cancelled then Inl ExecutionCancelled
      else if closing st then Inl (GenerationError (GenerationFailure REGISTRY_CLOSING))
      else Inr ())"

definition acquire_turn :: "registry_state \<Rightarrow> bool \<times> registry_state" where
  "acquire_turn st = (if locked st then (False, st) else (True, st\<lparr>locked := True\<rparr>))"

definition unlock :: "registry_state \<Rightarrow> registry_state" where
  "unlock st = st\<lparr>locked := False\<rparr>"

definition RequireCurrentBase :: "nat option \<Rightarrow> registry_state \<Rightarrow> registry_exception + nat" where
  "RequireCurrentBase base st =
     (case base of
        None \<Rightarrow> Inl (GenerationError (GenerationFailure STALE_BASE))
      | Some b \<Rightarrow> if active st \<noteq> Some b then Inl (GenerationError (GenerationFailure STALE_BASE)) else Inr b)"

fun insert_before :: "generation_owner \<Rightarrow> generation_snapshot \<Rightarrow> generation_snapshot" where
  "insert_before candidate [] = [candidate]"
| "insert_before candidate (o' # os) =
     (if owner_connector o' < owner_connector candidate then o' # insert_before candidate os else candidate # o' # os)"

definition LoadOwners :: "generation_snapshot \<Rightarrow> generation_owner \<Rightarrow> generation_snapshot" where
  "LoadOwners base candidate = insert_before candidate base"

fun ReloadOwners :: "generation_snapshot \<Rightarrow> generation_owner \<Rightarrow> registry_exception + generation_snapshot" where
  "ReloadOwners [] candidate = Inl (GenerationError (GenerationFailure CONNECTOR_NOT_ACTIVE))"
| "ReloadOwners (o' # os) candidate =
     (if owner_connector o' = owner_connector candidate then Inr (candidate # os)
      else and_then (ReloadOwners os candidate) (\<lambda>rest. Inr (o' # rest)))"

record publication_lease =
  lease_target :: nat
  lease_pending :: bool

record staged_generation =
  staged_owner :: generation_owner
  staged_snapshot :: nat
  staged_changed :: bool
  staged_lease :: "publication_lease option"

definition new_RuntimeStagedGeneration ::
  "registry_state \<Rightarrow> generation_owner \<Rightarrow> nat \<Rightarrow> bool \<Rightarrow> publication_lease option \<Rightarrow> registry_exception + staged_generation" where
  "new_RuntimeStagedGeneration st owner target changed lease =
     (if FindOwner (owner_connector owner) (snapshots st ! target) \<noteq> Some owner
      then Inl (InvalidArgument ''Runtime staged generation requires a matching target snapshot owner'')
      else if changed \<noteq> (lease \<noteq> None)
      then Inl (InvalidArgument ''Runtime changed generation requires exactly one publication lease'')
      else Inr \<lparr>staged_owner = owner, staged_snapshot = target, staged_changed = changed, staged_lease = lease\<rparr>)"

text \<open>Publication of a new snapshot under the lock: the snapshot is stored and the lease takes the lock over.\<close>

definition stage_target ::
  "bool \<Rightarrow> generation_owner \<Rightarrow> registry_exception + generation_snapshot \<Rightarrow> registry_state \<Rightarrow>
   (registry_exception + staged_generation) \<times> registry_state" where
  "stage_target cancelled owner owners st =
     (case owners of
        Inl e \<Rightarrow> (Inl e, unlock st)
      | Inr s \<Rightarrow>
          let target = length (snapshots st);
              st' = st\<lparr>snapshots := snapshots st @ [s], next_owner := Suc (next_owner st)\<rparr>
          in if cancelled then (Inl ExecutionCancelled, unlock st')
             else case new_RuntimeStagedGeneration st' owner target True (Some \<lparr>lease_target = target, lease_pending = True\<rparr>) of
               Inl e \<Rightarrow> (Inl e, unlock st')
             | Inr g \<Rightarrow> (Inr g, st'))"

definition StageLoad ::
  "bool \<Rightarrow> local_package option \<Rightarrow> nat option \<Rightarrow> registry_state \<Rightarrow> (registry_exception + staged_generation) \<times> registry_state" where
  "StageLoad cancelled candidate base st =
     (case RequireCurrentBase base st of
        Inl e \<Rightarrow> (Inl e, unlock st)
      | Inr b \<Rightarrow>
          case candidate of
            None \<Rightarrow> (Inl (GenerationError (GenerationFailure INVALID_LOCAL_PACKAGE)), unlock st)
          | Some p \<Rightarrow>
              if FindOwner (package_connector_id p) (snapshots st ! b) \<noteq> None
              then (Inl (GenerationError (GenerationFailure CONNECTOR_ALREADY_ACTIVE)), unlock st)
              else
                let owner = \<lparr>owner_address = next_owner st, owner_package = p\<rparr>
                in stage_target cancelled owner (Inr (LoadOwners (snapshots st ! b) owner)) st)"

definition StageReload ::
  "bool \<Rightarrow> bool \<Rightarrow> local_package option \<Rightarrow> nat option \<Rightarrow> reload_decision \<Rightarrow> registry_state \<Rightarrow>
   (registry_exception + staged_generation) \<times> registry_state" where
  "StageReload cancelled cancelled_later candidate base decision st =
     (case RequireCurrentBase base st of
        Inl e \<Rightarrow> (Inl e, unlock st)
      | Inr b \<Rightarrow>
          case candidate of
            None \<Rightarrow> (Inl (GenerationError (GenerationFailure INVALID_LOCAL_PACKAGE)), unlock st)
          | Some p \<Rightarrow>
              case FindOwner (package_connector_id p) (snapshots st ! b) of
                None \<Rightarrow> (Inl (GenerationError (GenerationFailure CONNECTOR_NOT_ACTIVE)), unlock st)
              | Some current \<Rightarrow>
                  if decision_connector_id decision \<noteq> package_connector_id p \<or>
                     \<not> DecisionMatches decision (package_handle (owner_package current)) (package_handle p)
                  then (Inl (GenerationError (GenerationFailure RELOAD_DECISION_MISMATCH)), unlock st)
                  else if \<not> IsCompatible decision
                  then (Inl (GenerationError \<lparr>generation_failure = RELOAD_REJECTED, rejection = decision_classification decision\<rparr>), unlock st)
                  else if cancelled then (Inl ExecutionCancelled, unlock st)
                  else if \<not> DecisionChanged decision
                  then (new_RuntimeStagedGeneration st current b False None, unlock st)
                  else
                    let owner = \<lparr>owner_address = next_owner st, owner_package = p\<rparr>
                    in stage_target cancelled_later owner (ReloadOwners (snapshots st ! b) owner) st)"

subsection \<open>Leases and closing\<close>

text \<open>A moved-from lease has no publication; terminal methods of it do nothing.\<close>

definition Commit :: "publication_lease option \<Rightarrow> registry_state \<Rightarrow> registry_state" where
  "Commit lease st =
     (case lease of
        None \<Rightarrow> st
      | Some l \<Rightarrow> if \<not> lease_pending l then st else unlock (st\<lparr>active := Some (lease_target l)\<rparr>))"

definition Discard :: "publication_lease option \<Rightarrow> registry_state \<Rightarrow> registry_state" where
  "Discard lease st = (case lease of None \<Rightarrow> st | Some l \<Rightarrow> if \<not> lease_pending l then st else unlock st)"

text \<open>\<open>Close\<close> sets the flag, waits for the lock, and drops the active snapshot.\<close>

definition close_flag :: "registry_state \<Rightarrow> registry_state" where
  "close_flag st = st\<lparr>closing := True\<rparr>"

definition close_drain :: "registry_state \<Rightarrow> registry_state option" where
  "close_drain st = (if locked st then None else Some (st\<lparr>active := None\<rparr>))"

end
