(* ===== verification/Generation_Publication.thy ===== *)
theory Generation_Publication
  imports Generation_Registry
begin

section \<open>Publication of generations\<close>

text \<open>
  The clients of \<open>Generation_Registry\<close> and their interleavings (\<open>registry_step\<close>), the invariant of the lock, the leases and the
  store, and the refinement of the registry to a map from connectors to generations that is updated atomically and closed once. Clients wait
  in slices and may be cancelled at every test; a closing client waits for the holder of the lock.
\<close>

subsection \<open>Clients\<close>

datatype stage_op =
  LoadOp "local_package option" "nat option"
| ReloadOp "local_package option" "nat option" reload_decision

text \<open>
  A client waits for the lock, holds it before and after the tests that follow, holds it through the lease that its operation returned, or waits in
  \<open>Close\<close>. The operation stays with the client, so that a commit can be held against what was asked for.
\<close>

datatype client =
  Idle | Waiting stage_op | Acquired stage_op | Admitted stage_op | Leased stage_op publication_lease | Draining

record system =
  registry :: registry_state
  clients :: "nat \<Rightarrow> client"

definition perform :: "bool \<Rightarrow> bool \<Rightarrow> stage_op \<Rightarrow> registry_state \<Rightarrow> (registry_exception + staged_generation) \<times> registry_state" where
  "perform cancelled cancelled_later op st =
     (case op of
        LoadOp p base \<Rightarrow> StageLoad cancelled p base st
      | ReloadOp p base d \<Rightarrow> StageReload cancelled cancelled_later p base d st)"

definition after_stage :: "stage_op \<Rightarrow> registry_exception + staged_generation \<Rightarrow> client" where
  "after_stage op r = (case r of Inl _ \<Rightarrow> Idle | Inr g \<Rightarrow> (case staged_lease g of None \<Rightarrow> Idle | Some l \<Rightarrow> Leased op l))"

definition put :: "nat \<Rightarrow> client \<Rightarrow> registry_state \<Rightarrow> system \<Rightarrow> system" where
  "put i c st s = \<lparr>registry = st, clients = (clients s)(i := c)\<rparr>"

inductive registry_step :: "system \<Rightarrow> system \<Rightarrow> bool" where
  begin_stage: "clients s i = Idle \<Longrightarrow> stage_test cancelled (registry s) = Inr () \<Longrightarrow> registry_step s (put i (Waiting op) (registry s) s)"
| give_up: "clients s i = Waiting op \<Longrightarrow> stage_test cancelled (registry s) = Inl e \<Longrightarrow> registry_step s (put i Idle (registry s) s)"
| acquire: "clients s i = Waiting op \<Longrightarrow> acquire_turn (registry s) = (True, st) \<Longrightarrow> registry_step s (put i (Acquired op) st s)"
| admit: "clients s i = Acquired op \<Longrightarrow> stage_test cancelled (registry s) = Inr () \<Longrightarrow> registry_step s (put i (Admitted op) (registry s) s)"
| refuse: "clients s i = Acquired op \<Longrightarrow> stage_test cancelled (registry s) = Inl e \<Longrightarrow> registry_step s (put i Idle (unlock (registry s)) s)"
| stage: "clients s i = Admitted op \<Longrightarrow> perform cancelled cancelled_later op (registry s) = (r, st) \<Longrightarrow> registry_step s (put i (after_stage op r) st s)"
| commit: "clients s i = Leased op l \<Longrightarrow> registry_step s (put i Idle (Commit (Some l) (registry s)) s)"
| discard: "clients s i = Leased op l \<Longrightarrow> registry_step s (put i Idle (Discard (Some l) (registry s)) s)"
| begin_close: "clients s i = Idle \<Longrightarrow> registry_step s (put i Draining (close_flag (registry s)) s)"
| end_close: "clients s i = Draining \<Longrightarrow> close_drain (registry s) = Some st \<Longrightarrow> registry_step s (put i Idle st s)"

definition registry_start :: "system \<Rightarrow> bool" where
  "registry_start s \<longleftrightarrow> s = \<lparr>registry = new_RuntimeGenerationRegistry, clients = \<lambda>_. Idle\<rparr>"

subsection \<open>Snapshots as maps\<close>

definition lookup_in :: "generation_snapshot \<Rightarrow> string \<Rightarrow> generation_owner option" where
  "lookup_in s c = FindOwner c s"

definition ordered :: "generation_snapshot \<Rightarrow> bool" where
  "ordered s \<longleftrightarrow> sorted_wrt (<) (map owner_connector s)"

lemma lookup_in_simps [simp]:
  "lookup_in [] = Map.empty"
  "lookup_in (o' # s) = (lookup_in s)(owner_connector o' \<mapsto> o')"
  by (auto simp: lookup_in_def FindOwner_def fun_eq_iff)

lemma lookup_in_None: "lookup_in s c = None \<longleftrightarrow> c \<notin> owner_connector ` set s"
  by (induction s) auto

lemma insert_before_set: "set (insert_before x s) = insert x (set s)"
  by (induction s) auto

lemma insert_before_ordered: "ordered s \<Longrightarrow> lookup_in s (owner_connector x) = None \<Longrightarrow> ordered (insert_before x s)"
  by (induction s) (auto simp: ordered_def insert_before_set split: if_splits dest: order_less_trans)

lemma insert_before_lookup: "lookup_in s (owner_connector x) = None \<Longrightarrow> lookup_in (insert_before x s) = (lookup_in s)(owner_connector x \<mapsto> x)"
  by (induction s) (auto simp: fun_eq_iff split: if_splits)

lemma ReloadOwners_ok:
  "lookup_in s (owner_connector x) \<noteq> None \<Longrightarrow>
    \<exists>t. ReloadOwners s x = Inr t \<and> map owner_connector t = map owner_connector s \<and> lookup_in t = (lookup_in s)(owner_connector x \<mapsto> x)"
proof (induction s)
  case (Cons a s)
  show ?case
  proof (cases "owner_connector a = owner_connector x")
    case False
    with Cons.prems have "lookup_in s (owner_connector x) \<noteq> None" by simp
    with Cons.IH obtain t where "ReloadOwners s x = Inr t" "map owner_connector t = map owner_connector s"
      "lookup_in t = (lookup_in s)(owner_connector x \<mapsto> x)" by blast
    with False show ?thesis by (auto simp: fun_upd_twist)
  qed (auto simp: fun_eq_iff)
qed simp

subsection \<open>What staging does\<close>

text \<open>
  The specification of staging does not look at the store. Clients see a map from connectors to owners, or nothing after the registry is
  closed. \<open>staging_answer\<close> says what an operation is answered, from the operation, the address of the active snapshot and the
  published map; \<open>update_by\<close> says which change of the map an operation asks for, where a decision has to name the connector
  and exactly the generations that are replaced and put in place, and has to be one of the three compatible changes.
\<close>

definition published :: "registry_state \<Rightarrow> (string \<Rightarrow> generation_owner option) option" where
  "published st = map_option (\<lambda>a. lookup_in (snapshots st ! a)) (active st)"

fun staging_base :: "stage_op \<Rightarrow> nat option" where
  "staging_base (LoadOp p base) = base"
| "staging_base (ReloadOp p base d) = base"

fun staging_package :: "stage_op \<Rightarrow> local_package option" where
  "staging_package (LoadOp p base) = p"
| "staging_package (ReloadOp p base d) = p"

definition decision_fits :: "reload_decision \<Rightarrow> generation_owner \<Rightarrow> local_package \<Rightarrow> bool" where
  "decision_fits d current q \<longleftrightarrow>
     decision_connector_id d = package_connector_id q \<and> active_generation d = package_handle (owner_package current) \<and>
     candidate_generation d = package_handle q"

inductive update_by :: "stage_op \<Rightarrow> (string \<Rightarrow> generation_owner option) \<Rightarrow> (string \<Rightarrow> generation_owner option) \<Rightarrow> bool" where
  load: "m (package_connector_id q) = None \<Longrightarrow> owner_package x = q \<Longrightarrow>
    update_by (LoadOp (Some q) base) m (m(package_connector_id q \<mapsto> x))"
| reload: "m (package_connector_id q) = Some current \<Longrightarrow> decision_fits d current q \<Longrightarrow>
    decision_classification d \<in> {COMPATIBLE_PROVENANCE_PATCH, COMPATIBLE_PROVENANCE_MINOR, COMPATIBLE_APPEND_ONLY_MINOR} \<Longrightarrow> owner_package x = q \<Longrightarrow>
    update_by (ReloadOp (Some q) base d) m (m(package_connector_id q \<mapsto> x))"

datatype staging_answer = Refused registry_exception | Unchanged generation_owner | Prepared local_package

definition refusal :: "RuntimeGenerationFailure \<Rightarrow> staging_answer" where
  "refusal f = Refused (GenerationError \<lparr>generation_failure = f, rejection = EXACT_NO_OP\<rparr>)"

definition prepared_unless :: "bool \<Rightarrow> staging_answer \<Rightarrow> staging_answer" where
  "prepared_unless cancelled answer = (if cancelled then Refused ExecutionCancelled else answer)"

definition staging_answer ::
  "bool \<Rightarrow> bool \<Rightarrow> stage_op \<Rightarrow> nat option \<Rightarrow> (string \<Rightarrow> generation_owner option) option \<Rightarrow> staging_answer" where
  "staging_answer cancelled later op a view =
     (case view of
        None \<Rightarrow> refusal STALE_BASE
      | Some m \<Rightarrow>
          if staging_base op \<noteq> a then refusal STALE_BASE
          else case staging_package op of
            None \<Rightarrow> refusal INVALID_LOCAL_PACKAGE
          | Some q \<Rightarrow>
              (case (op, m (package_connector_id q)) of
                 (LoadOp _ _, Some _) \<Rightarrow> refusal CONNECTOR_ALREADY_ACTIVE
               | (LoadOp _ _, None) \<Rightarrow> prepared_unless cancelled (Prepared q)
               | (ReloadOp _ _ _, None) \<Rightarrow> refusal CONNECTOR_NOT_ACTIVE
               | (ReloadOp _ _ d, Some current) \<Rightarrow>
                   if \<not> decision_fits d current q then refusal RELOAD_DECISION_MISMATCH
                   else if decision_classification d \<in> {REJECTED_PACKAGE_IDENTITY, INCOMPATIBLE_RELOAD}
                   then Refused (GenerationError \<lparr>generation_failure = RELOAD_REJECTED, rejection = decision_classification d\<rparr>)
                   else if decision_classification d = EXACT_NO_OP then prepared_unless cancelled (Unchanged current)
                   else prepared_unless (cancelled \<or> later) (Prepared q)))"

text \<open>
  The store is well formed when every snapshot is ordered and the active one exists. \<open>realises\<close> says how the registry carries an
  answer out: a refusal throws it and gives the lock back, an unchanged reload returns the owner that is active and gives the lock back, and
  otherwise a new owner of the candidate is returned with a lease that keeps the lock and whose snapshot shows the map with that owner.
\<close>

definition store_ok :: "registry_state \<Rightarrow> bool" where
  "store_ok st \<longleftrightarrow> list_all ordered (snapshots st) \<and> (case active st of None \<Rightarrow> closing st | Some a \<Rightarrow> a < length (snapshots st))"

definition realises :: "staging_answer \<Rightarrow> registry_state \<Rightarrow> registry_exception + staged_generation \<Rightarrow> registry_state \<Rightarrow> bool" where
  "realises answer st r st' \<longleftrightarrow>
     active st' = active st \<and> closing st' = closing st \<and> (\<exists>new. snapshots st' = snapshots st @ new \<and> list_all ordered new) \<and>
     (case answer of
        Refused e \<Rightarrow> r = Inl e \<and> \<not> locked st'
      | Unchanged x \<Rightarrow> \<not> locked st' \<and>
          (\<exists>a. active st = Some a \<and> r = Inr \<lparr>staged_owner = x, staged_snapshot = a, staged_changed = False, staged_lease = None\<rparr>)
      | Prepared q \<Rightarrow> locked st' = locked st \<and>
          (\<exists>x t m. owner_package x = q \<and> owner_address x = next_owner st \<and> next_owner st < next_owner st' \<and>
             r = Inr \<lparr>staged_owner = x, staged_snapshot = t, staged_changed = True, staged_lease = Some \<lparr>lease_target = t, lease_pending = True\<rparr>\<rparr> \<and>
             length (snapshots st) \<le> t \<and> t < length (snapshots st') \<and> published st = Some m \<and>
             lookup_in (snapshots st' ! t) = m(package_connector_id q \<mapsto> x)))"

lemma classification_cases:
  "IsCompatible d \<longleftrightarrow> decision_classification d \<notin> {REJECTED_PACKAGE_IDENTITY, INCOMPATIBLE_RELOAD}"
  "DecisionChanged d \<longleftrightarrow> decision_classification d \<notin> {REJECTED_PACKAGE_IDENTITY, INCOMPATIBLE_RELOAD, EXACT_NO_OP}"
  by (cases "decision_classification d"; simp add: IsCompatible_def DecisionChanged_def)+

lemma fits_iff:
  "decision_fits d current q \<longleftrightarrow> decision_connector_id d = package_connector_id q \<and>
     DecisionMatches d (package_handle (owner_package current)) (package_handle q)"
  by (auto simp: decision_fits_def DecisionMatches_def)

lemma prepared_updates:
  assumes "staging_answer cancelled later op a (Some m) = Prepared q" and "owner_package x = q"
  shows "update_by op m (m(package_connector_id q \<mapsto> x)) \<and> staging_base op = a"
proof (cases op)
  case (LoadOp p base)
  with assms show ?thesis
    by (auto simp: staging_answer_def refusal_def prepared_unless_def intro: update_by.load split: option.splits if_splits)
next
  case (ReloadOp p base d)
  have "decision_classification d \<in> {COMPATIBLE_PROVENANCE_PATCH, COMPATIBLE_PROVENANCE_MINOR, COMPATIBLE_APPEND_ONLY_MINOR}"
    if "decision_classification d \<notin> {REJECTED_PACKAGE_IDENTITY, INCOMPATIBLE_RELOAD}" "decision_classification d \<noteq> EXACT_NO_OP"
    using that by (cases "decision_classification d") simp_all
  with ReloadOp assms show ?thesis
    by (auto simp: staging_answer_def refusal_def prepared_unless_def simp del: insert_iff intro!: update_by.reload split: option.splits if_splits)
qed

lemma stage_target_ok:
  assumes "owners = Inr s" and "ordered s" and "published st = Some m" and "owner_package x = q" "owner_address x = next_owner st"
    and "lookup_in s = m(package_connector_id q \<mapsto> x)"
  shows "stage_target cancelled x owners st = (r, st') \<Longrightarrow> realises (prepared_unless cancelled (Prepared q)) st r st'"
  using assms
  by (auto simp: stage_target_def new_RuntimeStagedGeneration_def realises_def prepared_unless_def Let_def unlock_def lookup_in_def [symmetric]
      nth_append owner_connector_def split: if_splits)

lemma base_current:
  "base = active st \<and> published st \<noteq> None \<Longrightarrow>
    \<exists>b. RequireCurrentBase base st = Inr b \<and> active st = Some b \<and> published st = Some (lookup_in (snapshots st ! b))"
  by (auto simp: published_def RequireCurrentBase_def)

lemma base_stale:
  "staging_base op \<noteq> active st \<or> published st = None \<Longrightarrow>
    RequireCurrentBase (staging_base op) st = Inl (GenerationError \<lparr>generation_failure = STALE_BASE, rejection = EXACT_NO_OP\<rparr>)"
  by (auto simp: published_def RequireCurrentBase_def GenerationFailure_def split: option.splits)

lemma realises_refusal [simp]: "realises (refusal f) st (Inl (GenerationError (GenerationFailure f))) (unlock st)"
  "realises (Refused e) st (Inl e) (unlock st)"
  by (simp_all add: realises_def refusal_def GenerationFailure_def unlock_def)

lemma StageLoad_ok:
  assumes "store_ok st" and "StageLoad cancelled p base st = (r, st')"
  shows "realises (staging_answer cancelled later (LoadOp p base) (active st) (published st)) st r st'"
proof (cases "\<exists>m q. published st = Some m \<and> base = active st \<and> p = Some q \<and> m (package_connector_id q) = None")
  case True
  then obtain m q where bq: "published st = Some m" "base = active st" "p = Some q" "m (package_connector_id q) = None" by blast
  then obtain b where b: "RequireCurrentBase base st = Inr b" "active st = Some b" "m = lookup_in (snapshots st ! b)"
    using base_current [of base st] by auto
  let ?x = "\<lparr>owner_address = next_owner st, owner_package = q\<rparr>" and ?s = "snapshots st ! b"
  have c: "owner_connector ?x = package_connector_id q" by (simp add: owner_connector_def)
  from assms(1) b have o: "ordered ?s" by (auto simp: store_ok_def list_all_length)
  have "stage_target cancelled ?x (Inr (LoadOwners ?s ?x)) st = (r, st')"
    using assms(2) bq b by (simp add: StageLoad_def lookup_in_def [symmetric] Let_def)
  then have "realises (prepared_unless cancelled (Prepared q)) st r st'"
  proof (rule stage_target_ok [rotated -1])
    show "ordered (LoadOwners ?s ?x)" unfolding LoadOwners_def using insert_before_ordered [of ?s ?x] o bq(4) c b(3) by simp
    show "lookup_in (LoadOwners ?s ?x) = m(package_connector_id q \<mapsto> ?x)"
      unfolding LoadOwners_def using insert_before_lookup [of ?s ?x] bq(4) c b(3) by simp
  qed (use bq in simp_all)
  then show ?thesis using bq by (simp add: staging_answer_def)
next
  case False
  show ?thesis
  proof (cases "base = active st \<and> published st \<noteq> None")
    case True
    then obtain b m where b: "RequireCurrentBase base st = Inr b" "published st = Some m" "m = lookup_in (snapshots st ! b)" "base = active st"
      using base_current [OF True] by auto
    with False assms(2) show ?thesis
      by (auto simp: StageLoad_def staging_answer_def lookup_in_def split: option.splits)
  next
    case False
    with base_stale [of "LoadOp p base" st] assms(2) show ?thesis
      by (auto simp: StageLoad_def staging_answer_def refusal_def split: option.splits)
  qed
qed

lemma StageReload_ok:
  assumes "store_ok st" and "StageReload cancelled later p base d st = (r, st')"
  shows "realises (staging_answer cancelled later (ReloadOp p base d) (active st) (published st)) st r st'"
proof (cases "base = active st \<and> published st \<noteq> None")
  case True
  then obtain b m where b: "RequireCurrentBase base st = Inr b" "published st = Some m" "m = lookup_in (snapshots st ! b)" "base = active st"
    "active st = Some b" using base_current [OF True] True by auto
  let ?s = "snapshots st ! b"
  show ?thesis
  proof (cases "\<exists>q current. p = Some q \<and> m (package_connector_id q) = Some current \<and> decision_fits d current q \<and> IsCompatible d \<and> \<not> cancelled")
    case True
    then obtain q current where q: "p = Some q" "m (package_connector_id q) = Some current" "decision_fits d current q" "IsCompatible d" "\<not> cancelled"
      by blast
    let ?x = "\<lparr>owner_address = next_owner st, owner_package = q\<rparr>"
    have c: "owner_connector ?x = package_connector_id q" by (simp add: owner_connector_def)
    have cur: "FindOwner (owner_connector current) ?s = Some current" "FindOwner (package_connector_id q) ?s = Some current"
      using q(2) by (auto simp: b(3) lookup_in_def FindOwner_def find_Some_iff)
    show ?thesis
    proof (cases "DecisionChanged d")
      case True
      from assms(1) b have o: "ordered ?s" by (auto simp: store_ok_def list_all_length)
      from ReloadOwners_ok [of ?s ?x] q(2) c b(3) obtain t where t: "ReloadOwners ?s ?x = Inr t" "map owner_connector t = map owner_connector ?s"
        "lookup_in t = m(package_connector_id q \<mapsto> ?x)" by auto
      have "stage_target later ?x (ReloadOwners ?s ?x) st = (r, st')"
        using assms(2) b(1) q cur True by (simp add: StageReload_def fits_iff Let_def)
      then have "realises (prepared_unless later (Prepared q)) st r st'"
        by (rule stage_target_ok [rotated -1]) (use o t b in \<open>simp_all add: ordered_def\<close>)
      moreover have "staging_answer cancelled later (ReloadOp p base d) (active st) (published st) = prepared_unless later (Prepared q)"
        using q True by (simp add: staging_answer_def b(2,4) classification_cases)
      ultimately show ?thesis by simp
    next
      case False
      with q have "decision_classification d = EXACT_NO_OP" by (auto simp: classification_cases)
      with q have "staging_answer cancelled later (ReloadOp p base d) (active st) (published st) = Unchanged current"
        by (simp add: staging_answer_def b(2,4) prepared_unless_def)
      moreover have "r = Inr \<lparr>staged_owner = current, staged_snapshot = b, staged_changed = False, staged_lease = None\<rparr>" "st' = unlock st"
        using assms(2) b(1) q cur False by (simp_all add: StageReload_def fits_iff new_RuntimeStagedGeneration_def)
      ultimately show ?thesis using b by (simp add: realises_def unlock_def)
    qed
  next
    case False
    with b assms(2) show ?thesis
      by (auto simp: StageReload_def staging_answer_def prepared_unless_def fits_iff classification_cases lookup_in_def split: option.splits if_splits)
  qed
next
  case False
  with base_stale [of "ReloadOp p base d" st] assms(2) show ?thesis
    by (auto simp: StageReload_def staging_answer_def refusal_def split: option.splits)
qed

subsection \<open>The invariant\<close>

fun holds_lock :: "client \<Rightarrow> bool" where
  "holds_lock (Acquired op) = True"
| "holds_lock (Admitted op) = True"
| "holds_lock (Leased op l) = True"
| "holds_lock c = False"

definition lease_ok :: "registry_state \<Rightarrow> stage_op \<Rightarrow> publication_lease \<Rightarrow> bool" where
  "lease_ok st op l \<longleftrightarrow> lease_pending l \<and> lease_target l < length (snapshots st) \<and> staging_base op = active st \<and>
     (\<exists>a. active st = Some a \<and> update_by op (lookup_in (snapshots st ! a)) (lookup_in (snapshots st ! lease_target l)))"

definition system_ok :: "system \<Rightarrow> bool" where
  "system_ok s \<longleftrightarrow> store_ok (registry s) \<and>
     (\<forall>i j. holds_lock (clients s i) \<longrightarrow> holds_lock (clients s j) \<longrightarrow> i = j) \<and>
     (locked (registry s) \<longleftrightarrow> (\<exists>i. holds_lock (clients s i))) \<and>
     (\<forall>i op l. clients s i = Leased op l \<longrightarrow> lease_ok (registry s) op l) \<and>
     (\<forall>i. clients s i = Draining \<longrightarrow> closing (registry s))"

lemma put_simps [simp]:
  "registry (put i c st s) = st"
  "clients (put i c st s) j = (if j = i then c else clients s j)"
  by (simp_all add: put_def)

text \<open>A client that does not hold the lock before or after a step leaves the rest of the system as it was.\<close>

lemma quiet_step:
  assumes "system_ok s" and "\<not> holds_lock (clients s i)" and "\<not> holds_lock c" and "c = Draining \<longrightarrow> closing st"
    and "active st = active (registry s)" "snapshots st = snapshots (registry s)" "locked st = locked (registry s)"
    and "closing (registry s) \<longrightarrow> closing st"
  shows "system_ok (put i c st s)"
proof -
  have l: "lease_ok st = lease_ok (registry s)" using assms(5,6) by (simp add: lease_ok_def fun_eq_iff)
  have "store_ok st" using assms(1,5,6,8) by (auto simp: system_ok_def store_ok_def split: option.splits)
  moreover have "(\<exists>j. holds_lock (clients (put i c st s) j)) \<longleftrightarrow> (\<exists>j. holds_lock (clients s j))" using assms(2,3) by auto
  ultimately show ?thesis using assms l unfolding system_ok_def by (auto simp del: put_simps(2) simp: put_simps)
qed

text \<open>The holder of the lock may change the registry and give the lock back or keep it.\<close>

lemma holder_step:
  assumes "system_ok s" and "holds_lock (clients s i)" and "store_ok st" and "closing st = closing (registry s)"
    and "locked st = holds_lock c" and "c \<noteq> Draining" and "\<And>op l. c = Leased op l \<Longrightarrow> lease_ok st op l"
  shows "system_ok (put i c st s)"
proof -
  have other: "\<not> holds_lock (clients s j)" if "j \<noteq> i" for j using assms(1,2) that by (auto simp: system_ok_def)
  then have "clients s j \<noteq> Leased op l" if "j \<noteq> i" for j op l using that by force
  with assms other show ?thesis by (auto simp: system_ok_def split: if_splits)
qed

lemma perform_ok:
  "store_ok st \<Longrightarrow> perform cancelled later op st = (r, st') \<Longrightarrow>
    realises (staging_answer cancelled later op (active st) (published st)) st r st'"
  by (auto simp: perform_def intro: StageLoad_ok StageReload_ok split: stage_op.splits)

lemma realises_holder:
  assumes "realises (staging_answer cancelled later op (active st) (published st)) st r st'" and "store_ok st" and "locked st"
  shows "store_ok st' \<and> closing st' = closing st \<and> locked st' = holds_lock (after_stage op r) \<and> after_stage op r \<noteq> Draining \<and>
    (\<forall>op' l. after_stage op r = Leased op' l \<longrightarrow> lease_ok st' op' l)"
proof -
  obtain new where new: "snapshots st' = snapshots st @ new" "list_all ordered new" using assms(1) by (auto simp: realises_def)
  have "store_ok st'" using assms new by (auto simp: store_ok_def realises_def split: option.splits)
  moreover have "lease_ok st' op' l" if "after_stage op r = Leased op' l" for op' l
  proof -
    from that obtain g where g: "r = Inr g" "staged_lease g = Some l" "op' = op" by (auto simp: after_stage_def split: sum.splits option.splits)
    then obtain q where q: "staging_answer cancelled later op (active st) (published st) = Prepared q"
      using assms(1) by (cases "staging_answer cancelled later op (active st) (published st)") (auto simp: realises_def)
    with assms(1) g obtain x m where m: "owner_package x = q" "published st = Some m" "lease_pending l" "lease_target l < length (snapshots st')"
      "lookup_in (snapshots st' ! lease_target l) = m(package_connector_id q \<mapsto> x)" "active st' = active st" by (auto simp: realises_def)
    from m(2) obtain a where a: "active st = Some a" "m = lookup_in (snapshots st ! a)" by (auto simp: published_def)
    with assms(2) have "snapshots st' ! a = snapshots st ! a" by (simp add: store_ok_def new nth_append)
    with prepared_updates [OF q [unfolded m(2)] m(1)] m a g(3) show ?thesis by (simp add: lease_ok_def)
  qed
  ultimately show ?thesis using assms(1,3)
    by (auto simp: realises_def after_stage_def split: staging_answer.splits)
qed

lemma held_locked: "system_ok s \<Longrightarrow> holds_lock (clients s i) \<Longrightarrow> locked (registry s)"
  by (auto simp: system_ok_def)

lemma step_keeps_ok:
  assumes "system_ok s" and "registry_step s s'"
  shows "system_ok s'"
  using assms(2,1)
proof cases
  case (begin_stage i cancelled op)
  with assms(1) show ?thesis by (auto intro!: quiet_step)
next
  case (give_up i op cancelled e)
  with assms(1) show ?thesis by (auto intro!: quiet_step)
next
  case (acquire i op st)
  then have free: "\<not> locked (registry s)" "st = (registry s)\<lparr>locked := True\<rparr>" by (auto simp: acquire_turn_def split: if_splits)
  then have none: "\<not> holds_lock (clients s j)" for j using assms(1) by (auto simp: system_ok_def)
  then have "clients s j \<noteq> Leased op l" for j op l by (metis holds_lock.simps(3))
  with assms(1) free none acquire(1) show ?thesis by (auto simp: system_ok_def store_ok_def split: if_splits option.splits)
next
  case (admit i op cancelled)
  with assms(1) held_locked [OF assms(1), of i] show ?thesis by (auto intro!: holder_step simp: system_ok_def)
next
  case (refuse i op cancelled e)
  with assms(1) show ?thesis by (auto intro!: holder_step simp: system_ok_def store_ok_def unlock_def split: option.splits)
next
  case (stage i op cancelled later r st)
  have ok: "store_ok (registry s)" using assms(1) by (simp add: system_ok_def)
  have "locked (registry s)" using held_locked [OF assms(1), of i] stage by simp
  from realises_holder [OF perform_ok [OF ok stage(3)] ok this] stage assms(1) show ?thesis by (auto intro!: holder_step)
next
  case (commit i op l)
  then have "lease_ok (registry s) op l" using assms(1) by (auto simp: system_ok_def)
  with commit assms(1) show ?thesis
    by (auto intro!: holder_step simp: system_ok_def store_ok_def lease_ok_def Commit_def unlock_def split: option.splits)
next
  case (discard i op l)
  then have "lease_ok (registry s) op l" using assms(1) by (auto simp: system_ok_def)
  with discard assms(1) show ?thesis
    by (auto intro!: holder_step simp: system_ok_def store_ok_def lease_ok_def Discard_def unlock_def split: option.splits)
next
  case (begin_close i)
  with assms(1) show ?thesis by (auto intro!: quiet_step simp: close_flag_def)
next
  case (end_close i st)
  then have free: "\<not> locked (registry s)" "st = (registry s)\<lparr>active := None\<rparr>" by (auto simp: close_drain_def split: if_splits)
  then have none: "\<not> holds_lock (clients s j)" for j using assms(1) by (auto simp: system_ok_def)
  then have "clients s j \<noteq> Leased op l" for j op l by (metis holds_lock.simps(3))
  with assms(1) free none end_close show ?thesis by (auto simp: system_ok_def store_ok_def split: if_splits option.splits)
qed

interpretation registry_invariant: invariant_relation registry_start registry_step system_ok
proof
  fix s assume "registry_start s"
  then show "system_ok s" by (simp add: registry_start_def new_RuntimeGenerationRegistry_def system_ok_def store_ok_def ordered_def)
qed (rule step_keeps_ok)

subsection \<open>The specification\<close>

text \<open>
  The published map changes by one update at a time, the one that a client with a lease asked for on exactly the active snapshot, or closes for good.
\<close>

inductive published_step ::
  "stage_op set \<Rightarrow> nat option \<Rightarrow> (string \<Rightarrow> generation_owner option) option \<Rightarrow> (string \<Rightarrow> generation_owner option) option \<Rightarrow> bool" where
  stays: "published_step ops a m m"
| updates: "op \<in> ops \<Longrightarrow> staging_base op = a \<Longrightarrow> update_by op m m' \<Longrightarrow> published_step ops a (Some m) (Some m')"
| closes: "published_step ops a (Some m) None"

definition leased :: "system \<Rightarrow> stage_op set" where
  "leased s = {op. \<exists>i l. clients s i = Leased op l}"

lemma published_grow:
  "store_ok st \<Longrightarrow> active st' = active st \<Longrightarrow> snapshots st' = snapshots st @ new \<Longrightarrow> published st' = published st"
  by (cases "active st") (auto simp: published_def store_ok_def nth_append)

lemma published_same: "active st' = active st \<Longrightarrow> snapshots st' = snapshots st \<Longrightarrow> published st' = published st"
  by (simp add: published_def)

lemma commit_updates:
  "lease_ok st op l \<Longrightarrow>
    \<exists>m m'. published st = Some m \<and> published (Commit (Some l) st) = Some m' \<and> update_by op m m'"
  by (auto simp: lease_ok_def published_def Commit_def unlock_def)

lemma step_published:
  assumes "system_ok s" and "registry_step s s'"
  shows "published_step (leased s) (active (registry s)) (published (registry s)) (published (registry s'))"
  using assms(2)
proof cases
  case (acquire i op st)
  then show ?thesis by (auto simp: acquire_turn_def published_def intro: stays split: if_splits)
next
  case (stage i op cancelled later r st)
  have ok: "store_ok (registry s)" using assms(1) by (simp add: system_ok_def)
  from perform_ok [OF ok stage(3)] obtain new where "active st = active (registry s)" "snapshots st = snapshots (registry s) @ new"
    by (auto simp: realises_def)
  from published_grow [OF ok this] stage(1) show ?thesis by (simp add: stays)
next
  case (commit i op l)
  then have "lease_ok (registry s) op l" using assms(1) by (auto simp: system_ok_def)
  moreover have "op \<in> leased s" using commit by (auto simp: leased_def)
  ultimately show ?thesis using commit(1) by (auto simp: lease_ok_def published_def Commit_def unlock_def intro: updates)
next
  case (end_close i st)
  then show ?thesis
    by (cases "published (registry s)") (auto simp: close_drain_def published_def intro: stays closes split: if_splits)
qed (auto simp: published_def unlock_def Discard_def close_flag_def intro: stays split: option.splits)

lemma stage_errors_report:
  assumes "StageReload cancelled later p base d st = (Inl (GenerationError e), st')" and "generation_failure e = RELOAD_REJECTED"
  shows "\<not> IsCompatible d \<and> HasConnectorDiagnostic e \<and> ErrorDiagnosticCode e = DecisionDiagnosticCode d \<and> ErrorDiagnosticPhase e = DecisionDiagnosticPhase d"
proof -
  have reload: "ReloadOwners s x = Inl (GenerationError e) \<Longrightarrow> generation_failure e = CONNECTOR_NOT_ACTIVE" for s x
    by (induction s) (auto simp: GenerationFailure_def and_then_Inl_iff split: if_splits)
  have target: "stage_target c x (ReloadOwners s x) st = (Inl (GenerationError e), st') \<Longrightarrow> False" for c x s
    using reload [of s x] assms(2)
    by (auto simp: stage_target_def new_RuntimeStagedGeneration_def Let_def split: sum.splits if_splits)
  have "\<not> IsCompatible d \<and> rejection e = decision_classification d"
    using assms target
    by (auto simp: StageReload_def RequireCurrentBase_def GenerationFailure_def new_RuntimeStagedGeneration_def Let_def split: option.splits if_splits)
  then show ?thesis using assms(2)
    by (cases "decision_classification d")
      (simp_all add: IsCompatible_def HasConnectorDiagnostic_def ErrorDiagnosticCode_def DecisionDiagnosticCode_def ErrorDiagnosticPhase_def
        DecisionDiagnosticPhase_def HasDiagnostic_def RejectedReloadCode_def)
qed

subsection \<open>Closing\<close>

fun past_tests :: "client \<Rightarrow> bool" where
  "past_tests (Admitted op) = True"
| "past_tests (Leased op l) = True"
| "past_tests c = False"

lemma closing_step:
  assumes "system_ok s" and "registry_step s s'" and "closing (registry s)"
  shows "closing (registry s') \<and> (past_tests (clients s' i) \<longrightarrow> past_tests (clients s i)) \<and> (published (registry s) = None \<longrightarrow> published (registry s') = None)"
proof -
  have p: "published (registry s) = None \<longrightarrow> published (registry s') = None"
    using step_published [OF assms(1,2)] by (auto elim: published_step.cases)
  have "closing (registry s') \<and> (past_tests (clients s' i) \<longrightarrow> past_tests (clients s i))"
    using assms(2)
  proof cases
    case (stage j op cancelled later r st)
    have "store_ok (registry s)" using assms(1) by (simp add: system_ok_def)
    from perform_ok [OF this stage(3)] stage assms(3) show ?thesis by (auto simp: realises_def)
  qed (use assms(3) in \<open>auto simp: stage_test_def acquire_turn_def unlock_def Commit_def Discard_def close_flag_def close_drain_def
      split: if_splits\<close>)
  with p show ?thesis by blast
qed

lemma holder_lets_go:
  assumes "system_ok s" and "closing (registry s)" and "locked (registry s)"
  shows "\<exists>s'. registry_step\<^sup>*\<^sup>* s s' \<and> \<not> locked (registry s') \<and> (\<forall>i. clients s i = Draining \<longrightarrow> clients s' i = Draining)"
proof -
  obtain j where j: "holds_lock (clients s j)" using assms(1,3) by (auto simp: system_ok_def)
  have drop: "\<exists>s'. registry_step t s' \<and> \<not> locked (registry s') \<and> (\<forall>i. clients t i = Draining \<longrightarrow> clients s' i = Draining)"
    if "system_ok t" "clients t j = Leased op l" for t op l
  proof -
    have "lease_pending l" using that by (auto simp: system_ok_def lease_ok_def)
    with registry_step.discard [OF that(2)] that(2) show ?thesis
      by (intro exI [of _ "put j Idle (Discard (Some l) (registry t)) t"]) (simp add: Discard_def unlock_def)
  qed
  show ?thesis
  proof (cases "clients s j")
    case (Acquired op)
    have "stage_test False (registry s) = Inl (GenerationError (GenerationFailure REGISTRY_CLOSING))" using assms(2) by (simp add: stage_test_def)
    from r_into_rtranclp [of registry_step, OF registry_step.refuse [OF Acquired this]] Acquired show ?thesis
      by (intro exI [of _ "put j Idle (unlock (registry s)) s"]) (simp add: unlock_def)
  next
    case (Admitted op)
    obtain r st where rs: "perform False False op (registry s) = (r, st)" by fastforce
    note step = registry_step.stage [OF Admitted rs]
    note ok = step_keeps_ok [OF assms(1) step]
    show ?thesis
    proof (cases "after_stage op r")
      case (Leased op' l)
      then have "clients (put j (after_stage op r) st s) j = Leased op' l" by simp
      from drop [OF ok this] obtain s' where s': "registry_step (put j (after_stage op r) st s) s'" "\<not> locked (registry s')"
        "\<forall>i. clients (put j (after_stage op r) st s) i = Draining \<longrightarrow> clients s' i = Draining" by blast
      from step s'(1) have "registry_step\<^sup>*\<^sup>* s s'" by (meson converse_rtranclp_into_rtranclp r_into_rtranclp)
      moreover have "clients s' i = Draining" if "clients s i = Draining" for i using s'(3) that Admitted by (cases "i = j") auto
      ultimately show ?thesis using s'(2) by blast
    next
      case Idle
      have so: "store_ok (registry s)" using assms(1) by (simp add: system_ok_def)
      from realises_holder [OF perform_ok [OF so rs] so assms(3)] Idle have "\<not> locked st" by simp
      with step Admitted show ?thesis by (intro exI [of _ "put j (after_stage op r) st s"]) auto
    qed (auto simp: after_stage_def split: sum.splits option.splits)
  next
    case (Leased op l)
    from drop [OF assms(1) this] show ?thesis by (blast intro: r_into_rtranclp)
  qed (use j in auto)
qed

lemma closing_steps:
  assumes "registry_step\<^sup>*\<^sup>* s s'" and "system_ok s" and "closing (registry s)"
  shows "system_ok s' \<and> closing (registry s') \<and> (past_tests (clients s' j) \<longrightarrow> past_tests (clients s j)) \<and>
    (published (registry s) = None \<longrightarrow> published (registry s') = None)"
  using assms
proof (induction rule: rtranclp_induct)
  case (step t u)
  then show ?case using step_keeps_ok [of t u] closing_step [of t u j] by blast
qed simp

lemma close_can_drain:
  assumes "system_ok s" and "clients s i = Draining"
  shows "\<exists>s'. registry_step\<^sup>*\<^sup>* s s' \<and> published (registry s') = None"
proof -
  have c: "closing (registry s)" using assms by (auto simp: system_ok_def)
  have "\<exists>t. registry_step\<^sup>*\<^sup>* s t \<and> \<not> locked (registry t) \<and> clients t i = Draining"
  proof (cases "locked (registry s)")
    case True
    from holder_lets_go [OF assms(1) c this] assms(2) show ?thesis by blast
  next
    case False
    with assms(2) show ?thesis by blast
  qed
  then obtain t where t: "registry_step\<^sup>*\<^sup>* s t" "\<not> locked (registry t)" "clients t i = Draining" by blast
  then have "registry_step t (put i Idle ((registry t)\<lparr>active := None\<rparr>) t)"
    by (intro registry_step.end_close) (simp_all add: close_drain_def)
  with t(1) have "registry_step\<^sup>*\<^sup>* s (put i Idle ((registry t)\<lparr>active := None\<rparr>) t)" by (rule rtranclp.rtrancl_into_rtrancl)
  moreover have "published (registry (put i Idle ((registry t)\<lparr>active := None\<rparr>) t)) = None" by (simp add: published_def)
  ultimately show ?thesis by blast
qed

subsection \<open>Properties\<close>

text \<open>
  C9. The registry refines an atomic map. Whatever clients load, reload, discard and close concurrently, each step of the system leaves
  the published map from connectors to generations as it is, closes it, or updates it as one client with a lease had asked for: a load adds the
  candidate of that client under a connector that was absent, and a reload puts the candidate in the place of the generation of its connector, for
  which the decision that this very client passed names the connector, the generation replaced and the candidate, and is one of the three compatible
  changes. The client staged its operation on the snapshot that is active at that moment, so that no update is lost, and the commit
  of a lease always performs the update.
\<close>

theorem registry_refines_map:
  assumes "reaches registry_start registry_step s" and "registry_step s s'"
  shows "published_step (leased s) (active (registry s)) (published (registry s)) (published (registry s')) \<and>
    (\<forall>i op l. clients s i = Leased op l \<longrightarrow>
      (\<exists>m m'. published (registry s) = Some m \<and> published (Commit (Some l) (registry s)) = Some m' \<and> update_by op m m'))"
proof -
  note ok = registry_invariant.inv_reaches [OF assms(1)]
  have "\<exists>m m'. published (registry s) = Some m \<and> published (Commit (Some l) (registry s)) = Some m' \<and> update_by op m m'"
    if "clients s i = Leased op l" for i op l
    by (rule commit_updates) (use ok that in \<open>auto simp: system_ok_def\<close>)
  with step_published [OF ok assms(2)] show ?thesis by blast
qed

text \<open>
  C39. The outcome of staging, from the operation and the published map alone. For an admitted client a base that is not active, a missing package, a connector
  that is or is not active, a decision for another pair, a rejected or incompatible decision and a cancellation are refused in this order, each with
  its own error, and the lock is given back; a reload whose decision is a no-op returns the active owner without a lease; every other
  operation returns a new owner of the candidate and a lease that keeps the lock, of a snapshot that shows the published map with that owner. The
  active snapshot is not touched, all snapshots stay sorted by connector, and the argument checks of the staged value never fail. A rejected
  reload reports the code and the phase of its decision.
\<close>

theorem staging_outcome:
  assumes "reaches registry_start registry_step s" and "clients s i = Admitted op" and "perform cancelled later op (registry s) = (r, st)"
  shows "realises (staging_answer cancelled later op (active (registry s)) (published (registry s))) (registry s) r st \<and>
    (\<forall>p base d e. op = ReloadOp p base d \<longrightarrow> r = Inl (GenerationError e) \<longrightarrow> generation_failure e = RELOAD_REJECTED \<longrightarrow>
      \<not> IsCompatible d \<and> ErrorDiagnosticCode e = DecisionDiagnosticCode d \<and> ErrorDiagnosticPhase e = DecisionDiagnosticPhase d)"
proof -
  have "store_ok (registry s)" using registry_invariant.inv_reaches [OF assms(1)] by (simp add: system_ok_def)
  note perform_ok [OF this assms(3)]
  moreover have "\<not> IsCompatible d \<and> ErrorDiagnosticCode e = DecisionDiagnosticCode d \<and> ErrorDiagnosticPhase e = DecisionDiagnosticPhase d"
    if "op = ReloadOp p base d" "r = Inl (GenerationError e)" "generation_failure e = RELOAD_REJECTED" for p base d e
    using stage_errors_report [of cancelled later p base d "registry s" e st] assms(3) that by (simp add: perform_def)
  ultimately show ?thesis by blast
qed

text \<open>
  C40. Closing is final and completes. From a reachable state in which the registry is closing, every later state is closing, no client is past the tests
  that follow the lock in it that was not past them before, and if nothing was published nothing is. From every reachable state in
  which a client waits in \<open>Close\<close> the system can reach a state with nothing published.
\<close>

theorem closing_completes:
  assumes "reaches registry_start registry_step s"
  shows "(\<forall>s' j. closing (registry s) \<longrightarrow> registry_step\<^sup>*\<^sup>* s s' \<longrightarrow>
      closing (registry s') \<and> (past_tests (clients s' j) \<longrightarrow> past_tests (clients s j)) \<and>
      (published (registry s) = None \<longrightarrow> published (registry s') = None)) \<and>
    (\<forall>i. clients s i = Draining \<longrightarrow> (\<exists>s'. registry_step\<^sup>*\<^sup>* s s' \<and> published (registry s') = None))"
proof -
  note ok = registry_invariant.inv_reaches [OF assms(1)]
  show ?thesis using closing_steps [OF _ ok] close_can_drain [OF ok] by blast
qed

subsection \<open>Witnesses\<close>

definition sample_load :: stage_op where
  "sample_load = LoadOp (Some \<lparr>package_connector_id = ''github'', package_handle = 7\<rparr>) (Some 0)"

definition sample_start :: system where
  "sample_start = \<lparr>registry = new_RuntimeGenerationRegistry, clients = \<lambda>_. Idle\<rparr>"

definition sample_waiting :: system where
  "sample_waiting = put 1 (Waiting sample_load) (registry sample_start) sample_start"

definition sample_acquired :: system where
  "sample_acquired = put 1 (Acquired sample_load) ((registry sample_waiting)\<lparr>locked := True\<rparr>) sample_waiting"

definition sample_admitted :: system where
  "sample_admitted = put 1 (Admitted sample_load) (registry sample_acquired) sample_acquired"

definition sample_leased :: system where
  "sample_leased = put 1 (after_stage sample_load (fst (perform False False sample_load (registry sample_admitted))))
     (snd (perform False False sample_load (registry sample_admitted))) sample_admitted"

lemma sample_admitted_reached: "reaches registry_start registry_step sample_admitted"
proof -
  have "reaches registry_start registry_step sample_start" by (rule reaches.init) (simp add: registry_start_def sample_start_def)
  moreover have "registry_step sample_start sample_waiting" unfolding sample_waiting_def
    by (rule registry_step.begin_stage [of _ _ False]) (simp_all add: sample_start_def stage_test_def new_RuntimeGenerationRegistry_def)
  moreover have "registry_step sample_waiting sample_acquired" unfolding sample_acquired_def
    by (rule registry_step.acquire) (simp_all add: sample_waiting_def sample_start_def acquire_turn_def new_RuntimeGenerationRegistry_def)
  moreover have "registry_step sample_acquired sample_admitted" unfolding sample_admitted_def
    by (rule registry_step.admit [of _ _ _ False])
      (simp_all add: sample_acquired_def sample_waiting_def sample_start_def stage_test_def new_RuntimeGenerationRegistry_def)
  ultimately show ?thesis by (meson reaches.next_state)
qed

lemma sample_stage: "registry_step sample_admitted sample_leased"
  unfolding sample_leased_def by (rule registry_step.stage [of _ _ sample_load False False]) (simp_all add: sample_admitted_def)

lemma sample_lease: "clients sample_leased 1 = Leased sample_load \<lparr>lease_target = 1, lease_pending = True\<rparr>"
  by (simp add: sample_leased_def sample_admitted_def sample_acquired_def sample_waiting_def sample_start_def sample_load_def perform_def
      StageLoad_def RequireCurrentBase_def new_RuntimeGenerationRegistry_def FindOwner_def stage_target_def LoadOwners_def Let_def
      new_RuntimeStagedGeneration_def owner_connector_def after_stage_def)

theorem registry_refines_map_witness:
  "\<exists>s'. registry_step sample_leased s' \<and> published (registry sample_leased) = Some Map.empty \<and>
     published_step (leased sample_leased) (Some 0) (published (registry sample_leased)) (published (registry s')) \<and>
     update_by sample_load Map.empty (the (published (registry s')))"
proof -
  let ?l = "\<lparr>lease_target = 1, lease_pending = True\<rparr>"
  let ?s = "put 1 Idle (Commit (Some ?l) (registry sample_leased)) sample_leased"
  have step: "registry_step sample_leased ?s" by (rule registry_step.commit [OF sample_lease])
  have "reaches registry_start registry_step sample_leased" by (rule reaches.next_state [OF sample_admitted_reached sample_stage])
  note claim = registry_refines_map [OF this step]
  have view: "published (registry sample_leased) = Some Map.empty" "active (registry sample_leased) = Some 0"
    by (simp_all add: published_def sample_leased_def sample_admitted_def sample_acquired_def sample_waiting_def
        sample_start_def sample_load_def perform_def StageLoad_def RequireCurrentBase_def new_RuntimeGenerationRegistry_def FindOwner_def
        stage_target_def LoadOwners_def Let_def new_RuntimeStagedGeneration_def owner_connector_def)
  with claim have "published_step (leased sample_leased) (Some 0) (published (registry sample_leased)) (published (registry ?s))" by simp
  moreover have "update_by sample_load Map.empty (the (published (registry ?s)))" using claim sample_lease view by fastforce
  ultimately show ?thesis using step view by blast
qed

theorem staging_outcome_witness:
  "\<exists>r st. perform False False sample_load (registry sample_admitted) = (r, st) \<and>
     staging_answer False False sample_load (active (registry sample_admitted)) (published (registry sample_admitted)) =
       Prepared \<lparr>package_connector_id = ''github'', package_handle = 7\<rparr> \<and>
     realises (Prepared \<lparr>package_connector_id = ''github'', package_handle = 7\<rparr>) (registry sample_admitted) r st"
proof -
  obtain r st where rs: "perform False False sample_load (registry sample_admitted) = (r, st)" by fastforce
  have a: "staging_answer False False sample_load (active (registry sample_admitted)) (published (registry sample_admitted)) =
      Prepared \<lparr>package_connector_id = ''github'', package_handle = 7\<rparr>"
    by (simp add: staging_answer_def prepared_unless_def published_def sample_admitted_def sample_acquired_def sample_waiting_def
        sample_start_def sample_load_def new_RuntimeGenerationRegistry_def)
  have "clients sample_admitted 1 = Admitted sample_load" by (simp add: sample_admitted_def)
  from staging_outcome [OF sample_admitted_reached this rs] a rs show ?thesis by auto
qed

theorem closing_completes_witness:
  "closing (close_flag (registry sample_leased)) \<and>
   (\<exists>s'. registry_step\<^sup>*\<^sup>* (put 2 Draining (close_flag (registry sample_leased)) sample_leased) s' \<and> published (registry s') = None \<and> closing (registry s'))"
proof -
  let ?s = "put 2 Draining (close_flag (registry sample_leased)) sample_leased"
  have "clients sample_leased 2 = Idle"
    by (simp add: sample_leased_def sample_admitted_def sample_acquired_def sample_waiting_def sample_start_def)
  then have "registry_step sample_leased ?s" by (rule registry_step.begin_close)
  with reaches.next_state [OF sample_admitted_reached sample_stage] have "reaches registry_start registry_step ?s" by (rule reaches.next_state)
  note claim = closing_completes [OF this]
  have "closing (registry ?s)" "clients ?s 2 = Draining" by (simp_all add: close_flag_def)
  with claim show ?thesis by (metis put_simps(1))
qed

end
