(* ===== verification/Spec2Isabelle.thy ===== *)
theory Spec2Isabelle
  imports Scan_Resources_Safety Predicate_Pushdown Link_Pagination Graphql_Cursor Http_Chunk
    Rate_Limit_Fifo Quota_Bucket_Key Timestamptz Rate_Limit_Guidance Admission_Accounting Graphql_Body
    Cached_Scan_Serving Operation_Selection Generation_Publication
begin

text \<open>
  Verification of CUAC, the Compiled Unified API Connector: a DuckDB extension that runs relational scans
  over REST and GraphQL interfaces described by compiled packages. All paths below are relative to \<open>src/src\<close>.

  \<^bold>\<open>The program.\<close> A query asks for a relation with a predicate. The semantics layer
  (\<open>semantics/predicate\<close>) decides which part of the predicate the remote service may evaluate and which
  part DuckDB must re-check, and the planner (\<open>semantics/planner\<close>) binds the inputs and selects the operation. The runtime (\<open>runtime\<close>) then issues requests: it accounts every resource of a scan
  against ceilings (\<open>policy\<close>), waits for a permit of the quota bucket of the request (\<open>resilience\<close>),
  decodes the body of the response (\<open>transport\<close>, \<open>decoding\<close>), follows the continuation of the
  page (\<open>pagination\<close>), and turns the rate-limit fields of the response into the embargo of the bucket. A complete result
  may be kept and served again (\<open>cache\<close>).

  \<^bold>\<open>Theories and sources.\<close>
  \<^item> \<open>Cuac_Prelude\<close>: word and string types, exceptions as a sum type, ASCII classes, decimal and hexadecimal
    digits, fixed-width numbers, reachability (\<open>reaches\<close>) and the locale \<open>invariant_relation\<close>.
  \<^item> \<open>Scan_Resources\<close>, \<open>Scan_Resources_Safety\<close>: \<open>runtime/policy/scan_resource_accounting.cpp\<close>.
    The class is a record, each method a function from state to result and state. The lemmas show that a reachable
    ledger never exceeds a ceiling that the code debits against (remote transport time has none in the code, only its exact sum is proved), that
    additions never wrap, and that a failed scan stays failed.
  \<^item> \<open>Requested_Predicate\<close>: the immutable predicate trees of \<open>semantics/predicate/relational_predicate.cpp\<close>, their
    bounds and structural equality.
  \<^item> \<open>Predicate_Classifier\<close>, \<open>Predicate_Pushdown\<close>: \<open>semantics/predicate/predicate_classifier.cpp\<close>. A
    three-valued evaluation over bags of rows is the abstract specification; under the declared law of the
    remote source, what \<open>Classify\<close> decides never loses or duplicates a row.
  \<^item> \<open>Input_Resolution\<close>: \<open>semantics/planner/input_resolution.cpp\<close>. Every declared input is bound to an argument or default of its own type, or
    resolution fails; what an argument or default means for its type is stated apart from the accessors of the code.
  \<^item> \<open>Operation_Selection\<close>: \<open>semantics/planner/operation_selection.cpp\<close> and \<open>connector/model/operation_selector.cpp\<close>. Selection returns the
    unique best usable operation, whatever the order of declaration.
  \<^item> \<open>Uri_Reference\<close>: \<open>runtime/pagination/uri_reference.cpp\<close>. \<open>Uri_Grammar\<close> is the grammar of RFC 3986, production by production and without any
    function of the program; \<open>Uri_Addresses\<close> (character classes and address literals) and \<open>Uri_Validation\<close> (authorities, paths,
    references) show that the validators accept exactly this grammar.
  \<^item> \<open>Link_Header\<close>: \<open>runtime/pagination/link_header.cpp\<close>, with a renderer and round trips.
  \<^item> \<open>Link_Pagination\<close>: \<open>runtime/pagination/link_pagination.cpp\<close>, a state machine whose pages progress without overflow
    and whose failed and exhausted states are final and told apart. Targets are compared in origin, path and page only.
  \<^item> \<open>Graphql_Cursor\<close>: \<open>runtime/pagination/graphql_cursor_pagination.cpp\<close>, bounded and cycle-free traversal.
  \<^item> \<open>Http_Chunk\<close>: \<open>runtime/transport/http_chunk_decoder.cpp\<close>; decoding inverts encoding, and cancellation or
    the deadline can only replace the outcome by an error.
  \<^item> \<open>Rate_Limit_Coordinator\<close>, \<open>Rate_Limit_Fifo\<close>: \<open>runtime/resilience/rate_limit_coordinator.cpp\<close>. Each critical
    section is one function on the shared state; \<open>system_step\<close> interleaves any number of callers. The
    coordinator refines a FIFO lock per key, its counters are exact, permits are exclusive, waits end.
  \<^item> \<open>Quota_Bucket_Key\<close>: the keys of the coordinator's table. The interface of opaque identities is the locale
    \<open>opaque_identity\<close>, interpreted on the credential identity of \<open>runtime/executor/http_scan_executor.cpp\<close>.
  \<^item> \<open>Admission_Keys\<close>, \<open>Admission_Controller\<close>, \<open>Admission_Accounting\<close>:
    \<open>runtime/admission/admission_controller.cpp\<close>. Identities and the vectors that count them (locale
    \<open>counted_keys\<close>, interpreted for connectors, destinations, principals and bulkheads); the critical sections and
    their interleavings (\<open>admission_step\<close>); every counter is exactly what permits and tickets hold and
    within its limit, nothing leaks, grants waste no capacity and overtake only across scopes, waits end.
  \<^item> \<open>Json_Reader\<close>, \<open>Json_Utf8\<close>, \<open>Json_Strings\<close>, \<open>Json_Documents\<close>:
    \<open>runtime/decoding/strict_json_reader.cpp\<close>, the reader under all response decoders. It is modelled over the suffix of
    the input at the cursor, with cancellation, deadline and capacity observer as arguments, all loops and the
    recursion over values total. \<open>Json_Utf8\<close> states UTF-8, \<open>Json_Strings\<close> the grammar and the value of string tokens,
    \<open>Json_Documents\<close> the grammar of RFC 8259 with a nesting depth; the reader accepts exactly these grammars,
    returns only UTF-8, and charges the memory of a string before using it.
  \<^item> \<open>Graphql_Request\<close>, \<open>Graphql_Body\<close>: \<open>runtime/transport/graphql_request_body.cpp\<close>. The size computed before allocation is
    exact, the revalidation before a credential is attached accepts exactly what the writer writes, and the reader above
    decodes what was written.
  \<^item> \<open>Scan_Cache\<close>, \<open>Scan_Cache_Fifo\<close>: \<open>runtime/cache/complete_scan_result_cache.cpp\<close> and the freshness policies and identities of
    \<open>semantics/plan/cache_policy.cpp\<close>. Whatever the order of its hash table, the cache behaves as a bounded queue of
    complete scans that evicts the oldest; its byte counter is exact, and a lookup returns an entry only within its window.
  \<^item> \<open>Cached_Scan\<close>, \<open>Cached_Scan_Serving\<close>: \<open>runtime/cache/cached_scan_stream.cpp\<close>, the state machine between the cache and the
    remote scan. It serves one complete snapshot or fails, never mixes fresh and stale batches, publishes
    only complete scans with the exact sum of their bytes charged to admission, and its failures are final. These hold while no publication meets a clock that
    throws: in that case the code loses the refreshed batches, which is proved on an example.
  \<^item> \<open>Generation_Registry\<close>, \<open>Generation_Publication\<close>: \<open>runtime/generation\<close>. Clients stage, commit, discard and close concurrently
    (\<open>registry_step\<close>, one step per critical section); the registry refines an atomic map that is updated by the operations of the clients (\<open>update_by\<close>), staging answers
    as a decision table over the operation and the map (\<open>staging_answer\<close>), and closing completes.
  \<^item> \<open>Civil_Time\<close>, \<open>Timestamptz\<close>: the proleptic Gregorian calendar and the timestamp codec
    (\<open>include/cuac/internal/runtime/decoding/timestamptz_codec.hpp\<close>, \<open>include/cuac/internal/semantics/timestamptz.hpp\<close>).
  \<^item> \<open>Rate_Limit_Guidance\<close>: \<open>runtime/resilience/rate_limit_guidance.cpp\<close>, equal to a specification over unbounded integers, and its date
    parsers inverse to rendering.

  \<^bold>\<open>Conventions.\<close> \<open>std::uint64_t\<close> and \<open>std::size_t\<close> values whose overflow matters are 64-bit words, other sizes are
  naturals; \<open>int64_t\<close> clock values are integers with their bounds written out. A throw is the left value of a
  sum with the exception and message class of the source; an output argument with a success flag is an option.
  Strings are lists of characters of eight bits. Loops over the rest of a string or a
  container are recursion on it, so that no fuel is needed, and a remote scan is the finite list of the outcomes of its pulls; the unbounded loops are
  waits. The wait of the coordinator is a list of turns (what the clock and the other threads do before each), and it is
  proved to return when that list reaches the deadline; those of admission and of the generation registry are steps
  of their transition relations.

  \<^bold>\<open>Not modelled.\<close> Allocation failure, except where the source turns it into a result of its own; network and file
  input and output, libcurl, OpenSSL and the DuckDB interface, which are outside the sources; the package
  compiler and its fixtures, the scan planner and the executor that drives the components above, the
  schema-driven decoders above the JSON reader (their numbers go through the floating-point parser of the C++
  library). They are the continuation of the plan, in this order: the retry controller,
  the plan admission, the comparison of package generations.
\<close>

end
